(* ===== verification/Prelude.thy ===== *)
theory Prelude
  imports Complex_Main "HOL-Library.AList"
begin

text \<open>
  Shared vocabulary of the development: JavaScript values and strings, the ordered
  \<open>Map\<close> of JavaScript with its interface and laws, stable descending sorts, and the
  generic list facts the component theories share.

  Numbers. A JavaScript number is read here as an exact rational (\<open>num\<close>); every quantity
  the modelled code computes with (epoch milliseconds, counts, percentages, token totals) stays
  far below \<open>2 ^ 53\<close>, where doubles are exact. NaN and the infinities are values of
  their own in \<open>jsval\<close>, because the code tests for them.

  Strings. A JavaScript string is a list of UTF-16 code units; \<open>string\<close> is that list
  restricted to code units below 256. The three characters above that range which the code writes
  itself are given one code each, as in Windows-1252: the ellipsis is \<open>0x85\<close>, the em dash
  \<open>0x97\<close>, the quotation marks \<open>0x91 .. 0x94\<close>.
\<close>

section \<open>Collections of facts\<close>

named_theorems bound_simps \<open>arithmetic bounds of the code's constants\<close>

section \<open>JavaScript values\<close>

type_synonym num = rat
type_synonym time_ms = rat

datatype jsval =
    JUndef
  | JNull
  | JBool bool
  | JNum num
  | JNaN
  | JInf bool
  | JStr string
  | JArr "jsval list"
  | JObj "(string \<times> jsval) list"

text \<open>Property read \<open>v.k\<close> on a value the code has narrowed to an object.\<close>

fun js_prop :: "jsval \<Rightarrow> string \<Rightarrow> jsval" where
  "js_prop (JObj fs) k = (case map_of fs k of Some v \<Rightarrow> v | None \<Rightarrow> JUndef)"
| "js_prop _ k = JUndef"

fun js_truthy :: "jsval \<Rightarrow> bool" where
  "js_truthy JUndef = False"
| "js_truthy JNull = False"
| "js_truthy (JBool b) = b"
| "js_truthy (JNum n) = (n \<noteq> 0)"
| "js_truthy JNaN = False"
| "js_truthy (JInf _) = True"
| "js_truthy (JStr s) = (s \<noteq> [])"
| "js_truthy (JArr _) = True"
| "js_truthy (JObj _) = True"

fun js_str :: "jsval \<Rightarrow> string option" where
  "js_str (JStr s) = Some s"
| "js_str _ = None"

fun is_js_object :: "jsval \<Rightarrow> bool" where
  "is_js_object (JObj _) = True"
| "is_js_object (JArr _) = True"
| "is_js_object _ = False"

lemma js_str_eq_Some [simp]: "js_str v = Some s \<longleftrightarrow> v = JStr s"
  by (cases v) auto

section \<open>Strings\<close>

abbreviation code_of :: "char \<Rightarrow> nat" where
  "code_of c \<equiv> of_char c"

definition ellipsis :: string where
  "ellipsis = [CHR 0x85]"

lemma length_ellipsis [simp]: "length ellipsis = 1"
  by (simp add: ellipsis_def)

definition is_space :: "char \<Rightarrow> bool" where
  "is_space c = (let n = code_of c in n = 32 \<or> n = 160 \<or> (9 \<le> n \<and> n \<le> 13))"

definition is_digit :: "char \<Rightarrow> bool" where
  "is_digit c = (let n = code_of c in 48 \<le> n \<and> n \<le> 57)"

definition is_lower :: "char \<Rightarrow> bool" where
  "is_lower c = (let n = code_of c in 97 \<le> n \<and> n \<le> 122)"

definition is_upper :: "char \<Rightarrow> bool" where
  "is_upper c = (let n = code_of c in 65 \<le> n \<and> n \<le> 90)"

definition is_alpha :: "char \<Rightarrow> bool" where
  "is_alpha c = (is_lower c \<or> is_upper c)"

definition is_alnum :: "char \<Rightarrow> bool" where
  "is_alnum c = (is_alpha c \<or> is_digit c)"

definition is_word :: "char \<Rightarrow> bool" where
  "is_word c = (is_alnum c \<or> c = CHR ''_'')"

text \<open>\<open>toLowerCase\<close> and \<open>toUpperCase\<close> on code units below 256.\<close>

definition lower_char :: "char \<Rightarrow> char" where
  "lower_char c = (let n = code_of c in
     if (65 \<le> n \<and> n \<le> 90) \<or> (192 \<le> n \<and> n \<le> 222 \<and> n \<noteq> 215) then char_of (n + 32) else c)"

definition upper_char :: "char \<Rightarrow> char" where
  "upper_char c = (let n = code_of c in
     if (97 \<le> n \<and> n \<le> 122) \<or> (224 \<le> n \<and> n \<le> 254 \<and> n \<noteq> 247) then char_of (n - 32) else c)"

definition to_lower :: "string \<Rightarrow> string" where
  "to_lower s = map lower_char s"

definition to_upper :: "string \<Rightarrow> string" where
  "to_upper s = concat (map (\<lambda>c. if code_of c = 223 then ''SS'' else [upper_char c]) s)"

definition trim_start :: "string \<Rightarrow> string" where
  "trim_start s = dropWhile is_space s"

definition trim_end :: "string \<Rightarrow> string" where
  "trim_end s = rev (dropWhile is_space (rev s))"

definition trim :: "string \<Rightarrow> string" where
  "trim s = trim_end (trim_start s)"

text \<open>\<open>s.slice(-n)\<close>.\<close>

definition take_last :: "nat \<Rightarrow> 'a list \<Rightarrow> 'a list" where
  "take_last n xs = drop (length xs - n) xs"

fun starts_with :: "string \<Rightarrow> string \<Rightarrow> bool" where
  "starts_with s [] = True"
| "starts_with [] (p # ps) = False"
| "starts_with (c # cs) (p # ps) = (c = p \<and> starts_with cs ps)"

definition ends_with :: "string \<Rightarrow> string \<Rightarrow> bool" where
  "ends_with s p = starts_with (rev s) (rev p)"

text \<open>\<open>s.replace(/\s+/g, ' ')\<close>.\<close>

function collapse_ws :: "string \<Rightarrow> string" where
  "collapse_ws [] = []"
| "collapse_ws (c # cs) =
     (if is_space c then CHR '' '' # collapse_ws (dropWhile is_space cs) else c # collapse_ws cs)"
  by pat_completeness auto
termination
  by (relation "measure length") (auto simp: le_imp_less_Suc length_dropWhile_le)

text \<open>
  \<open>s.split(re)\<close> for a separator pattern \<open>p+\<close>: the fields between maximal runs, empty
  fields at the ends kept.
\<close>

lemma dropWhile_Cons_shorter:
  "dropWhile q s = c # cs \<Longrightarrow> length (dropWhile p cs) < length s"
proof -
  assume "dropWhile q s = c # cs"
  then have "length cs < length s"
    using length_dropWhile_le [of q s] by simp
  then show ?thesis
    using length_dropWhile_le [of p cs] by simp
qed

function split_runs :: "(char \<Rightarrow> bool) \<Rightarrow> string \<Rightarrow> string list" where
  "split_runs p s =
     (case dropWhile (\<lambda>c. \<not> p c) s of
        [] \<Rightarrow> [s]
      | c # cs \<Rightarrow> takeWhile (\<lambda>c. \<not> p c) s # split_runs p (dropWhile p cs))"
  by pat_completeness auto
termination
  by (relation "measure (\<lambda>(p, s). length s)") (auto simp: dropWhile_Cons_shorter)

declare split_runs.simps [simp del]

text \<open>\<open>s.split(c)\<close> for a single separator character.\<close>

fun split_char :: "char \<Rightarrow> string \<Rightarrow> string list" where
  "split_char c [] = [[]]"
| "split_char c (x # xs) =
     (if x = c then [] # split_char c xs
      else case split_char c xs of [] \<Rightarrow> [[x]] | w # ws \<Rightarrow> (x # w) # ws)"

text \<open>\<open>ws.join(sep)\<close>.\<close>

fun join :: "string \<Rightarrow> string list \<Rightarrow> string" where
  "join sep [] = []"
| "join sep [w] = w"
| "join sep (w # v # ws) = w @ sep @ join sep (v # ws)"

text \<open>Decimal printing of a natural number, as in a template literal, and \<open>Number(digits)\<close>.\<close>

definition digit_char :: "nat \<Rightarrow> char" where
  "digit_char d = char_of (48 + d)"

function show_nat :: "nat \<Rightarrow> string" where
  "show_nat n = (if n < 10 then [digit_char n] else show_nat (n div 10) @ [digit_char (n mod 10)])"
  by pat_completeness auto
termination
  by (relation "measure id") auto

declare show_nat.simps [simp del]

definition digit_val :: "char \<Rightarrow> nat" where
  "digit_val c = code_of c - 48"

definition read_nat :: "string \<Rightarrow> nat" where
  "read_nat ds = foldl (\<lambda>n c. 10 * n + digit_val c) 0 ds"

subsection \<open>Facts about strings\<close>

lemma length_trim_start: "length (trim_start s) \<le> length s"
  by (simp add: trim_start_def length_dropWhile_le)

lemma length_trim_end: "length (trim_end s) \<le> length s"
  by (metis length_dropWhile_le length_rev trim_end_def)

lemma trim_replicate: "\<not> is_space c \<Longrightarrow> trim (replicate n c) = replicate n c"
  by (simp add: trim_def trim_start_def trim_end_def)

lemma trim_tight: "s \<noteq> [] \<Longrightarrow> \<not> is_space (hd s) \<Longrightarrow> \<not> is_space (last s) \<Longrightarrow> trim s = s"
proof -
  assume s: "s \<noteq> []" "\<not> is_space (hd s)" "\<not> is_space (last s)"
  then have "dropWhile is_space s = s" by (cases s) auto
  moreover have "dropWhile is_space (rev s) = rev s" using s by (cases s rule: rev_cases) auto
  ultimately show ?thesis by (simp add: trim_def trim_start_def trim_end_def)
qed

lemma length_trim: "length (trim s) \<le> length s"
  unfolding trim_def by (rule order_trans [OF length_trim_end length_trim_start])

lemma length_collapse_ws: "length (collapse_ws s) \<le> length s"
proof (induction s rule: collapse_ws.induct)
  case 1
  then show ?case by simp
next
  case (2 c cs)
  show ?case
  proof (cases "is_space c")
    case True
    then show ?thesis
      using "2.IH"(1) [OF True] length_dropWhile_le [of is_space cs] by simp
  next
    case False
    then show ?thesis using "2.IH"(2) [OF False] by simp
  qed
qed

lemma starts_with_iff: "starts_with s p \<longleftrightarrow> (\<exists>r. s = p @ r)"
  by (induction s p rule: starts_with.induct) auto

lemma starts_with_take: "starts_with s p \<longleftrightarrow> take (length p) s = p"
  by (induction s p rule: starts_with.induct) auto

lemma length_take_last [simp]: "length (take_last n xs) = min n (length xs)"
  by (simp add: take_last_def)

lemma set_take_last: "set (take_last n xs) \<subseteq> set xs"
  by (simp add: take_last_def set_drop_subset)

lemma take_last_snoc:
  "0 < n \<Longrightarrow> take_last n (xs @ [x]) = take_last n (take_last (n - 1) xs @ [x])"
  by (auto simp: take_last_def)

lemma take_last_all: "length xs \<le> n \<Longrightarrow> take_last n xs = xs"
  by (simp add: take_last_def)

lemma to_lower_length [simp]: "length (to_lower s) = length s"
  by (simp add: to_lower_def)

lemma split_char_not_Nil [simp]: "split_char c s \<noteq> []"
  by (induction s) (auto split: list.splits)

lemma split_char_no_sep: "w \<in> set (split_char c s) \<Longrightarrow> c \<notin> set w"
  by (induction s arbitrary: w) (auto split: list.splits if_splits)

lemma split_char_none: "c \<notin> set s \<Longrightarrow> split_char c s = [s]"
  by (induction s) auto

lemma join_Cons_head: "join sep ((x # w) # ws) = x # join sep (w # ws)"
  by (cases ws) auto

lemma join_split_char: "join [c] (split_char c s) = s"
proof (induction s)
  case Nil
  then show ?case by simp
next
  case (Cons x xs)
  obtain w ws where "split_char c xs = w # ws"
    using split_char_not_Nil by (cases "split_char c xs") auto
  with Cons show ?case by (auto simp: join_Cons_head)
qed

lemma is_digit_digit_char: "d < 10 \<Longrightarrow> is_digit (digit_char d)"
  by (simp add: is_digit_def digit_char_def)

lemma digit_val_digit_char [simp]: "d < 10 \<Longrightarrow> digit_val (digit_char d) = d"
  by (simp add: digit_val_def digit_char_def)

lemma show_nat_digits: "list_all is_digit (show_nat n)"
proof (induction n rule: show_nat.induct)
  case (1 n)
  then show ?case
    by (subst show_nat.simps) (auto simp: is_digit_digit_char)
qed

lemma show_nat_not_Nil [simp]: "show_nat n \<noteq> []"
  by (subst show_nat.simps) simp

lemma read_nat_snoc: "read_nat (ds @ [d]) = 10 * read_nat ds + digit_val d"
  by (simp add: read_nat_def)

lemma read_show_nat [simp]: "read_nat (show_nat n) = n"
proof (induction n rule: show_nat.induct)
  case (1 n)
  show ?case
  proof (cases "n < 10")
    case True
    then show ?thesis by (simp add: show_nat.simps [of n] read_nat_def)
  next
    case False
    then show ?thesis
      using 1 by (simp add: show_nat.simps [of n] read_nat_snoc)
  qed
qed

lemma show_nat_inject [simp]: "show_nat m = show_nat n \<longleftrightarrow> m = n"
  by (metis read_show_nat)

section \<open>The ordered \<open>Map\<close> of JavaScript\<close>

text \<open>
  A JavaScript \<open>Map\<close> iterates in insertion order: setting a present key keeps its place,
  setting a new one appends it, deleting one removes it and a later insertion appends it again.
  The interface below states what its clients rely on; association lists with
  \<open>AList.update\<close> and \<open>AList.delete\<close> provide it.
\<close>

locale ordered_map =
  fixes get :: "'m \<Rightarrow> 'k \<Rightarrow> 'v option"
    and put :: "'k \<Rightarrow> 'v \<Rightarrow> 'm \<Rightarrow> 'm"
    and del :: "'k \<Rightarrow> 'm \<Rightarrow> 'm"
    and keys :: "'m \<Rightarrow> 'k list"
    and wf :: "'m \<Rightarrow> bool"
  assumes get_put: "get (put k v m) k' = (if k' = k then Some v else get m k')"
    and get_del: "get (del k m) k' = (if k' = k then None else get m k')"
    and keys_put: "keys (put k v m) = (if k \<in> set (keys m) then keys m else keys m @ [k])"
    and keys_del: "keys (del k m) = filter (\<lambda>k'. k' \<noteq> k) (keys m)"
    and key_get: "k \<in> set (keys m) \<longleftrightarrow> get m k \<noteq> None"
    and wf_distinct: "wf m \<longleftrightarrow> distinct (keys m)"
begin

lemma wf_put: "wf m \<Longrightarrow> wf (put k v m)"
  by (simp add: wf_distinct keys_put)

lemma wf_del: "wf m \<Longrightarrow> wf (del k m)"
  by (simp add: wf_distinct keys_del)

lemma put_old_keeps_order: "get m k \<noteq> None \<Longrightarrow> keys (put k v m) = keys m"
  by (simp add: keys_put key_get)

lemma put_new_appends: "get m k = None \<Longrightarrow> keys (put k v m) = keys m @ [k]"
  by (simp add: keys_put key_get)

lemma reinsert_moves_last: "keys (put k v (del k m)) = filter (\<lambda>k'. k' \<noteq> k) (keys m) @ [k]"
  by (simp add: keys_put keys_del)

lemma length_del:
  "wf m \<Longrightarrow> get m k \<noteq> None \<Longrightarrow> Suc (length (keys (del k m))) = length (keys m)"
proof -
  assume wf: "wf m" and "get m k \<noteq> None"
  then have k: "k \<in> set (keys m)" by (simp add: key_get)
  from wf have d: "distinct (keys m)" by (simp add: wf_distinct)
  have "length (filter (\<lambda>k'. k' \<noteq> k) (keys m)) = card (set (keys m) - {k})"
    using d by (simp add: distinct_length_filter Collect_conj_eq Int_commute set_diff_eq)
  also have "\<dots> = length (keys m) - 1"
    using d k by (simp add: distinct_card)
  finally show ?thesis
    using k by (cases "keys m") (auto simp: keys_del)
qed

lemma length_put_le: "length (keys (put k v m)) \<le> Suc (length (keys m))"
  by (simp add: keys_put)

end

definition om_keys :: "('k \<times> 'v) list \<Rightarrow> 'k list" where
  "om_keys m = map fst m"

definition om_wf :: "('k \<times> 'v) list \<Rightarrow> bool" where
  "om_wf m = distinct (map fst m)"

lemma set_update: "set (AList.update k v m) \<subseteq> insert (k, v) (set m)"
  by (induction m) auto

lemma om_keys_update:
  "om_keys (AList.update k v m) = (if k \<in> set (om_keys m) then om_keys m else om_keys m @ [k])"
  by (induction m) (auto simp: om_keys_def)

lemma om_keys_delete: "om_keys (AList.delete k m) = filter (\<lambda>k'. k' \<noteq> k) (om_keys m)"
  by (induction m) (auto simp: om_keys_def AList.delete_eq)

lemma om_get_delete: "map_of (AList.delete k m) k' = (if k' = k then None else map_of m k')"
  by (simp add: AList.delete_conv)

interpretation om: ordered_map map_of AList.update AList.delete om_keys om_wf
proof unfold_locales
  fix m :: "('a \<times> 'b) list" and k k' :: 'a and v :: 'b
  show "map_of (AList.update k v m) k' = (if k' = k then Some v else map_of m k')"
    by (simp add: update_conv')
  show "map_of (AList.delete k m) k' = (if k' = k then None else map_of m k')"
    by (rule om_get_delete)
  show "om_keys (AList.update k v m) = (if k \<in> set (om_keys m) then om_keys m else om_keys m @ [k])"
    by (rule om_keys_update)
  show "om_keys (AList.delete k m) = filter (\<lambda>k'. k' \<noteq> k) (om_keys m)"
    by (rule om_keys_delete)
  show "k \<in> set (om_keys m) \<longleftrightarrow> map_of m k \<noteq> None"
    by (simp add: om_keys_def map_of_eq_None_iff)
  show "om_wf m \<longleftrightarrow> distinct (om_keys m)"
    by (simp add: om_wf_def om_keys_def)
qed

text \<open>Counting occurrences in a \<open>Map\<close>: \<open>counts.set(k, (counts.get(k) ?? 0) + by)\<close>.\<close>

definition bump_by :: "nat \<Rightarrow> 'k \<Rightarrow> ('k \<times> nat) list \<Rightarrow> ('k \<times> nat) list" where
  "bump_by n k m = AList.update k (case map_of m k of None \<Rightarrow> n | Some c \<Rightarrow> c + n) m"

definition count_of :: "('k \<times> nat) list \<Rightarrow> 'k \<Rightarrow> nat" where
  "count_of m k = (case map_of m k of None \<Rightarrow> 0 | Some c \<Rightarrow> c)"

lemma count_of_bump_by [simp]:
  "count_of (bump_by n k m) k' = count_of m k' + (if k' = k then n else 0)"
  by (auto simp: count_of_def bump_by_def om.get_put split: option.splits)

lemma om_wf_bump_by: "om_wf m \<Longrightarrow> om_wf (bump_by n k m)"
  by (simp add: bump_by_def om.wf_put)

lemma om_keys_bump_by: "set (om_keys (bump_by n k m)) = insert k (set (om_keys m))"
  by (auto simp: bump_by_def om.keys_put)

lemma count_of_fold_bump:
  "count_of (fold (\<lambda>k. bump_by 1 k) ks m) k = count_of m k + count_list ks k"
  by (induction ks arbitrary: m) auto

section \<open>Sorting and minima\<close>

text \<open>\<open>xs.sort((a, b) => f(b) - f(a))\<close>: stable and descending.\<close>

definition sort_desc :: "('a \<Rightarrow> 'b::{linorder, ab_group_add}) \<Rightarrow> 'a list \<Rightarrow> 'a list" where
  "sort_desc f xs = sort_key (\<lambda>x. - f x) xs"

lemma set_sort_desc [simp]: "set (sort_desc f xs) = set xs"
  by (simp add: sort_desc_def)

lemma length_sort_desc [simp]: "length (sort_desc f xs) = length xs"
  by (simp add: sort_desc_def)

lemma distinct_sort_desc [simp]: "distinct (sort_desc f xs) = distinct xs"
  by (simp add: sort_desc_def)

lemma sort_desc_sorted:
  fixes f :: "'a \<Rightarrow> 'b::linordered_ab_group_add"
  shows "sorted_wrt (\<lambda>x y. f y \<le> f x) (sort_desc f xs)"
proof -
  have "sorted (map (\<lambda>x. - f x) (sort_desc f xs))"
    by (simp add: sort_desc_def)
  then show ?thesis
    by (simp add: sorted_wrt_map)
qed

lemma sort_desc_hd_max:
  fixes f :: "'a \<Rightarrow> 'b::linordered_ab_group_add"
  assumes "sort_desc f xs = y # ys" and "x \<in> set xs"
  shows "f x \<le> f y"
proof -
  have "x \<in> set (y # ys)"
    using assms set_sort_desc [of f xs] by simp
  with sort_desc_sorted [of f xs] assms(1) show ?thesis by auto
qed

text \<open>\<open>Math.min(...xs)\<close> of a non-empty list given as head and tail.\<close>

definition min_of :: "'a::linorder \<Rightarrow> 'a list \<Rightarrow> 'a" where
  "min_of x xs = fold min xs x"

lemma min_of_le: "min_of x xs \<le> x"
  unfolding min_of_def
proof (induction xs arbitrary: x)
  case (Cons y ys)
  then show ?case using order_trans [OF Cons [of "min y x"]] by simp
qed simp

lemma min_of_le_elem: "y \<in> set xs \<Longrightarrow> min_of x xs \<le> y"
  unfolding min_of_def
proof (induction xs arbitrary: x)
  case (Cons z zs)
  then show ?case
    using min_of_le [of "min z x" zs, unfolded min_of_def] by (auto intro: order_trans)
qed simp

lemma min_of_mem: "min_of x xs \<in> insert x (set xs)"
  unfolding min_of_def
proof (induction xs arbitrary: x)
  case (Cons z zs)
  then show ?case by (auto simp: min_def)
qed simp

end
