(* ===== verification/Regex.thy ===== *)
theory Regex
  imports Prelude
begin

text \<open>
  The part of JavaScript's \<open>RegExp\<close> the program uses: character classes, sequences,
  alternatives, greedy and lazy bounded repetition, word boundaries, anchors and captures,
  without flags that change the unit (no \<open>u\<close>, no \<open>m\<close>, no look-behind).
  \<open>rx_match\<close> lists the final states of a match attempt in backtracking order, so its
  head is the match JavaScript reports; \<open>rx_rel\<close> is the declarative reading of a pattern
  and \<open>rx_match_iff\<close> shows that the two agree.
\<close>

section \<open>Patterns\<close>

datatype rx =
    REps
  | RCh "char \<Rightarrow> bool"
  | RSeq rx rx
  | RAlt rx rx
  | RRep bool rx nat "nat option"
  | RWordB
  | RBos
  | REos
  | RGrp nat rx

text \<open>A match state: the position and the captures, each with its start and end.\<close>

type_synonym rx_state = "nat \<times> (nat \<times> nat \<times> nat) list"

definition word_at :: "string \<Rightarrow> nat \<Rightarrow> bool" where
  "word_at s i = (i < length s \<and> is_word (s ! i))"

definition word_boundary :: "string \<Rightarrow> nat \<Rightarrow> bool" where
  "word_boundary s i = ((0 < i \<and> word_at s (i - 1)) \<noteq> word_at s i)"

definition pred_opt :: "nat option \<Rightarrow> nat option" where
  "pred_opt hi = map_option (\<lambda>n. n - 1) hi"

text \<open>
  Repetition: the counts go down, an optional iteration that consumes nothing is refused (as
  ECMAScript does), and a greedy repetition tries one more iteration first.
\<close>

fun rep_states ::
    "bool \<Rightarrow> (rx_state \<Rightarrow> rx_state list) \<Rightarrow> nat \<Rightarrow> nat \<Rightarrow> nat option \<Rightarrow> rx_state \<Rightarrow> rx_state list" where
  "rep_states g f 0 lo hi st = (if lo = 0 then [st] else [])"
| "rep_states g f (Suc n) lo hi st =
     (let more = (if hi = Some 0 then []
                  else concat (map (\<lambda>t. if lo = 0 \<and> fst t = fst st then []
                                        else rep_states g f n (lo - 1) (pred_opt hi) t) (f st)))
      in if 0 < lo then more else if g then more @ [st] else st # more)"

primrec rx_match :: "rx \<Rightarrow> string \<Rightarrow> rx_state \<Rightarrow> rx_state list" where
  "rx_match REps s st = [st]"
| "rx_match (RCh p) s st =
     (if fst st < length s \<and> p (s ! fst st) then [(Suc (fst st), snd st)] else [])"
| "rx_match (RSeq a b) s st = concat (map (rx_match b s) (rx_match a s st))"
| "rx_match (RAlt a b) s st = rx_match a s st @ rx_match b s st"
| "rx_match (RRep g a lo hi) s st =
     rep_states g (rx_match a s) (lo + Suc (length s)) lo hi st"
| "rx_match RWordB s st = (if word_boundary s (fst st) then [st] else [])"
| "rx_match RBos s st = (if fst st = 0 then [st] else [])"
| "rx_match REos s st = (if fst st = length s then [st] else [])"
| "rx_match (RGrp k a) s st =
     map (\<lambda>t. (fst t, AList.update k (fst st, fst t) (snd t))) (rx_match a s st)"

section \<open>The declarative reading\<close>

inductive rx_rel :: "string \<Rightarrow> rx \<Rightarrow> nat \<Rightarrow> nat \<Rightarrow> bool" for s where
  eps: "rx_rel s REps i i"
| chr: "i < length s \<Longrightarrow> p (s ! i) \<Longrightarrow> rx_rel s (RCh p) i (Suc i)"
| seq: "rx_rel s a i j \<Longrightarrow> rx_rel s b j k \<Longrightarrow> rx_rel s (RSeq a b) i k"
| altL: "rx_rel s a i j \<Longrightarrow> rx_rel s (RAlt a b) i j"
| altR: "rx_rel s b i j \<Longrightarrow> rx_rel s (RAlt a b) i j"
| rep_done: "rx_rel s (RRep g a 0 hi) i i"
| rep_step: "rx_rel s a i j \<Longrightarrow> hi \<noteq> Some 0 \<Longrightarrow> \<not> (lo = 0 \<and> i = j) \<Longrightarrow>
     rx_rel s (RRep g a (lo - 1) (pred_opt hi)) j k \<Longrightarrow> rx_rel s (RRep g a lo hi) i k"
| wordb: "word_boundary s i \<Longrightarrow> rx_rel s RWordB i i"
| bos: "rx_rel s RBos 0 0"
| eos: "rx_rel s REos (length s) (length s)"
| grp: "rx_rel s a i j \<Longrightarrow> rx_rel s (RGrp k a) i j"

inductive_simps rx_rel_simps:
  "rx_rel s REps i j"
  "rx_rel s (RCh p) i j"
  "rx_rel s (RSeq a b) i j"
  "rx_rel s (RAlt a b) i j"
  "rx_rel s RWordB i j"
  "rx_rel s RBos i j"
  "rx_rel s REos i j"
  "rx_rel s (RGrp k a) i j"

inductive_cases rx_rel_RRepE: "rx_rel s (RRep g a lo hi) i j"

lemma rx_rel_mono: "rx_rel s r i j \<Longrightarrow> i \<le> j"
  by (induction rule: rx_rel.induct) auto

lemma rx_rel_bound: "rx_rel s r i j \<Longrightarrow> i \<le> length s \<Longrightarrow> j \<le> length s"
  by (induction rule: rx_rel.induct) auto

lemma set_rep_states_Suc:
  "set (rep_states g f (Suc n) lo hi st) =
     (if lo = 0 then {st} else {}) \<union>
     (if hi = Some 0 then {}
      else (\<Union>t\<in>set (f st). if lo = 0 \<and> fst t = fst st then {}
              else set (rep_states g f n (lo - 1) (pred_opt hi) t)))"
  by (auto simp: Let_def split: if_splits)

declare rep_states.simps(2) [simp del]

lemma rep_states_sound:
  assumes "\<And>st t. t \<in> set (f st) \<Longrightarrow> rx_rel s a (fst st) (fst t)"
  shows "t \<in> set (rep_states g f n lo hi st) \<Longrightarrow> rx_rel s (RRep g a lo hi) (fst st) (fst t)"
proof (induction n arbitrary: lo hi st)
  case 0
  then show ?case by (auto split: if_splits intro: rx_rel.rep_done)
next
  case (Suc n)
  then consider (stop) "lo = 0" "t = st"
    | (step) u where "hi \<noteq> Some 0" "u \<in> set (f st)" "\<not> (lo = 0 \<and> fst u = fst st)"
        "t \<in> set (rep_states g f n (lo - 1) (pred_opt hi) u)"
    by (auto simp: set_rep_states_Suc split: if_splits)
  then show ?case
  proof cases
    case stop
    then show ?thesis by (auto intro: rx_rel.rep_done)
  next
    case step
    from step(4) have "rx_rel s (RRep g a (lo - 1) (pred_opt hi)) (fst u) (fst t)"
      by (rule Suc.IH)
    with step show ?thesis
      by (intro rx_rel.rep_step [OF assms [OF step(2)]]) auto
  qed
qed

lemma rx_match_sound: "t \<in> set (rx_match r s st) \<Longrightarrow> rx_rel s r (fst st) (fst t)"
proof (induction r arbitrary: st t)
  case (RSeq a b)
  then obtain u where "u \<in> set (rx_match a s st)" "t \<in> set (rx_match b s u)" by auto
  then show ?case using RSeq.IH by (blast intro: rx_rel.seq)
next
  case (RRep g a lo hi)
  show ?case
    using rep_states_sound [of "rx_match a s" s a, OF RRep.IH] RRep.prems by simp
qed (auto simp: rx_rel_simps split: if_splits)

lemma rx_match_mono: "t \<in> set (rx_match r s st) \<Longrightarrow> fst st \<le> fst t"
  using rx_match_sound rx_rel_mono by blast

lemma rep_states_complete:
  assumes f: "\<And>st j. fst st \<le> length s \<Longrightarrow> rx_rel s a (fst st) j \<Longrightarrow> \<exists>t \<in> set (f st). fst t = j"
  assumes "rx_rel s (RRep g a lo hi) i k" and "i \<le> length s" and "fst st = i"
    and "lo + Suc (length s) - i \<le> n"
  shows "\<exists>t \<in> set (rep_states g f n lo hi st). fst t = k"
  using assms(2-)
proof (induction n arbitrary: lo hi i st)
  case 0
  then show ?case by simp
next
  case (Suc n)
  from Suc.prems(1) show ?case
  proof (rule rx_rel_RRepE)
    assume "lo = 0" "k = i"
    with Suc.prems show ?thesis by (simp add: set_rep_states_Suc)
  next
    fix j
    assume step: "rx_rel s a i j" "hi \<noteq> Some 0" "0 < lo \<or> i \<noteq> j"
      "rx_rel s (RRep g a (lo - Suc 0) (pred_opt hi)) j k"
    from f [of st j] step(1) Suc.prems obtain t where t: "t \<in> set (f st)" "fst t = j" by auto
    have "i \<le> j" and "j \<le> length s"
      using rx_rel_mono [OF step(1)] rx_rel_bound [OF step(1) Suc.prems(2)] by auto
    moreover have "lo - Suc 0 + Suc (length s) - j \<le> n"
      using Suc.prems(4) step(3) \<open>i \<le> j\<close> \<open>j \<le> length s\<close> by (cases lo) auto
    ultimately obtain u where "u \<in> set (rep_states g f n (lo - Suc 0) (pred_opt hi) t)" "fst u = k"
      using Suc.IH [OF step(4)] t by blast
    moreover have "\<not> (lo = 0 \<and> fst t = fst st)"
      using step(3) t Suc.prems(3) by auto
    ultimately show ?thesis
      using t step(2) unfolding set_rep_states_Suc by (intro bexI [of _ u]) auto
  qed
qed

lemma rx_match_complete:
  "rx_rel s r (fst st) j \<Longrightarrow> fst st \<le> length s \<Longrightarrow> \<exists>t \<in> set (rx_match r s st). fst t = j"
proof (induction r arbitrary: st j)
  case (RSeq a b)
  then obtain i where i: "rx_rel s a (fst st) i" "rx_rel s b i j" by (auto simp: rx_rel_simps)
  with RSeq obtain t where t: "t \<in> set (rx_match a s st)" "fst t = i" by blast
  moreover have "i \<le> length s" using rx_rel_bound [OF i(1)] RSeq.prems by simp
  ultimately obtain u where "u \<in> set (rx_match b s t)" "fst u = j"
    using RSeq.IH(2) [of t j] i by blast
  with t show ?case by auto
next
  case (RAlt a b)
  then consider "rx_rel s a (fst st) j" | "rx_rel s b (fst st) j" by (auto simp: rx_rel_simps)
  then show ?case
  proof cases
    case 1
    from RAlt.IH(1) [OF this RAlt.prems(2)] show ?thesis by auto
  next
    case 2
    from RAlt.IH(2) [OF this RAlt.prems(2)] show ?thesis by auto
  qed
next
  case (RRep g a lo hi)
  show ?case
    using rep_states_complete [of s a "rx_match a s", OF RRep.IH] RRep.prems by auto
qed (auto simp: rx_rel_simps)

theorem rx_match_iff:
  "i \<le> length s \<Longrightarrow> fst ` set (rx_match r s (i, cs)) = {j. rx_rel s r i j}"
  using rx_match_sound [of _ r s "(i, cs)"] rx_match_complete [of s r "(i, cs)"] by force

section \<open>Searching and replacing\<close>

text \<open>\<open>re.test(s)\<close> without the \<open>g\<close> flag.\<close>

definition rx_test :: "rx \<Rightarrow> string \<Rightarrow> bool" where
  "rx_test r s = list_ex (\<lambda>i. rx_match r s (i, []) \<noteq> []) [0..<Suc (length s)]"

text \<open>\<open>re.exec(s)\<close> from a start position: start, end and captures of the leftmost match.\<close>

type_synonym rx_hit = "nat \<times> nat \<times> (nat \<times> nat \<times> nat) list"

fun rx_first :: "rx \<Rightarrow> string \<Rightarrow> nat list \<Rightarrow> rx_hit option" where
  "rx_first r s [] = None"
| "rx_first r s (i # is) =
     (case rx_match r s (i, []) of
        [] \<Rightarrow> rx_first r s is
      | t # _ \<Rightarrow> Some (i, fst t, snd t))"

definition rx_exec :: "rx \<Rightarrow> string \<Rightarrow> nat \<Rightarrow> rx_hit option" where
  "rx_exec r s i = rx_first r s [i..<Suc (length s)]"

definition substring :: "string \<Rightarrow> nat \<Rightarrow> nat \<Rightarrow> string" where
  "substring s a b = take (b - a) (drop a s)"

definition rx_group :: "string \<Rightarrow> (nat \<times> nat \<times> nat) list \<Rightarrow> nat \<Rightarrow> string option" where
  "rx_group s cs k = map_option (\<lambda>(a, b). substring s a b) (map_of cs k)"

lemma rx_first_Some:
  "rx_first r s is = Some (b, e, cs) \<Longrightarrow> b \<in> set is \<and> (e, cs) \<in> set (rx_match r s (b, []))"
  by (induction "is") (auto split: list.splits)

lemma rx_first_eq_None: "rx_first r s is = None \<longleftrightarrow> (\<forall>i\<in>set is. rx_match r s (i, []) = [])"
  by (induction "is") (auto split: list.splits)

lemma rx_exec_bounds:
  assumes "rx_exec r s i = Some (b, e, cs)"
  shows "i \<le> b \<and> b \<le> e \<and> e \<le> length s"
proof -
  from rx_first_Some [OF assms [unfolded rx_exec_def]]
  have b: "i \<le> b" "b \<le> length s" and m: "(e, cs) \<in> set (rx_match r s (b, []))" by auto
  from rx_match_sound [OF m] have "rx_rel s r b e" by simp
  with b show ?thesis using rx_rel_mono rx_rel_bound by blast
qed

lemma rx_test_iff: "rx_test r s \<longleftrightarrow> (\<exists>i j. i \<le> length s \<and> rx_rel s r i j)"
proof -
  have "rx_test r s \<longleftrightarrow> (\<exists>i \<le> length s. rx_match r s (i, []) \<noteq> [])"
    by (simp add: rx_test_def list_ex_iff del: upt_Suc) (auto simp: less_Suc_eq_le)
  also have "\<dots> \<longleftrightarrow> (\<exists>i \<le> length s. \<exists>j. rx_rel s r i j)"
    using rx_match_iff [of _ s r "[]"] by (metis (no_types, lifting) empty_Collect_eq image_is_empty set_empty)
  finally show ?thesis by blast
qed

text \<open>\<open>s.matchAll(re)\<close> for a global pattern: an empty match advances by one.\<close>

function rx_all :: "rx \<Rightarrow> string \<Rightarrow> nat \<Rightarrow> rx_hit list" where
  "rx_all r s i =
     (case rx_exec r s i of
        None \<Rightarrow> []
      | Some (b, e, cs) \<Rightarrow> (b, e, cs) # rx_all r s (if e = b then Suc e else e))"
  by pat_completeness auto
termination
  by (relation "measure (\<lambda>(r, s, i). Suc (length s) - i)") (auto dest!: rx_exec_bounds)

declare rx_all.simps [simp del]

text \<open>\<open>s.replace(re, w)\<close> for a global pattern, and for one that replaces once.\<close>

fun rx_splice :: "string \<Rightarrow> string \<Rightarrow> nat \<Rightarrow> rx_hit list \<Rightarrow> string" where
  "rx_splice s w i [] = drop i s"
| "rx_splice s w i ((b, e, cs) # hs) = substring s i b @ w @ rx_splice s w e hs"

definition rx_replace_all :: "rx \<Rightarrow> string \<Rightarrow> string \<Rightarrow> string" where
  "rx_replace_all r w s = rx_splice s w 0 (rx_all r s 0)"

definition rx_replace :: "rx \<Rightarrow> string \<Rightarrow> string \<Rightarrow> string" where
  "rx_replace r w s = (case rx_exec r s 0 of None \<Rightarrow> s | Some h \<Rightarrow> rx_splice s w 0 [h])"

lemma rx_all_bounds: "(b, e, cs) \<in> set (rx_all r s i) \<Longrightarrow> i \<le> b \<and> b \<le> e \<and> e \<le> length s"
proof (induction r s i rule: rx_all.induct)
  case (1 r s i)
  then obtain b' e' cs' where x: "rx_exec r s i = Some (b', e', cs')"
    by (cases "rx_exec r s i") (auto simp: rx_all.simps [of r s i])
  note bounds = rx_exec_bounds [OF x]
  from 1(2) x consider "b = b'" "e = e'"
    | "(b, e, cs) \<in> set (rx_all r s (if e' = b' then Suc e' else e'))"
    by (auto simp: rx_all.simps [of r s i])
  then show ?case
  proof cases
    case 1
    with bounds show ?thesis by simp
  next
    case 2
    from "1.IH" [OF x refl refl 2] bounds show ?thesis by (auto split: if_splits)
  qed
qed

lemma rx_replace_empty_length: "length (rx_replace r [] s) \<le> length s"
  by (auto simp: rx_replace_def substring_def split: option.splits dest!: rx_exec_bounds)

section \<open>Building patterns\<close>

abbreviation rx_cls :: "(char \<Rightarrow> bool) \<Rightarrow> rx" where
  "rx_cls p \<equiv> RCh p"

definition rx_in :: "string \<Rightarrow> rx" where
  "rx_in cs = RCh (\<lambda>c. c \<in> set cs)"

definition rx_not_in :: "string \<Rightarrow> rx" where
  "rx_not_in cs = RCh (\<lambda>c. c \<notin> set cs)"

fun rx_seq :: "rx list \<Rightarrow> rx" where
  "rx_seq [] = REps"
| "rx_seq [r] = r"
| "rx_seq (r # q # rs) = RSeq r (rx_seq (q # rs))"

fun rx_alts :: "rx list \<Rightarrow> rx" where
  "rx_alts [] = RCh (\<lambda>_. False)"
| "rx_alts [r] = r"
| "rx_alts (r # q # rs) = RAlt r (rx_alts (q # rs))"

definition rx_lit :: "string \<Rightarrow> rx" where
  "rx_lit w = rx_seq (map (\<lambda>d. RCh (\<lambda>c. c = d)) w)"

text \<open>A literal under the \<open>i\<close> flag; the argument is written in lower case.\<close>

definition rx_ci :: "string \<Rightarrow> rx" where
  "rx_ci w = rx_seq (map (\<lambda>d. RCh (\<lambda>c. lower_char c = d)) w)"

abbreviation rx_opt :: "rx \<Rightarrow> rx" where
  "rx_opt r \<equiv> RRep True r 0 (Some 1)"

abbreviation rx_star :: "rx \<Rightarrow> rx" where
  "rx_star r \<equiv> RRep True r 0 None"

abbreviation rx_plus :: "rx \<Rightarrow> rx" where
  "rx_plus r \<equiv> RRep True r 1 None"

abbreviation rx_between :: "rx \<Rightarrow> nat \<Rightarrow> nat \<Rightarrow> rx" where
  "rx_between r lo hi \<equiv> RRep True r lo (Some hi)"

abbreviation rx_between_lazy :: "rx \<Rightarrow> nat \<Rightarrow> nat \<Rightarrow> rx" where
  "rx_between_lazy r lo hi \<equiv> RRep False r lo (Some hi)"

abbreviation rx_digit :: rx where
  "rx_digit \<equiv> RCh is_digit"

abbreviation rx_space :: rx where
  "rx_space \<equiv> RCh is_space"

abbreviation rx_wordch :: rx where
  "rx_wordch \<equiv> RCh is_word"

section \<open>What a match has read\<close>

lemma substring_append: "a \<le> b \<Longrightarrow> b \<le> c \<Longrightarrow> substring s a b @ substring s b c = substring s a c"
proof -
  assume "a \<le> b" "b \<le> c"
  then have "drop b s = drop (b - a) (drop a s)" and "c - a = (b - a) + (c - b)" by simp_all
  then show ?thesis unfolding substring_def by (simp only: take_add)
qed

lemma substring_self [simp]: "substring s a a = []"
  by (simp add: substring_def)

lemma substring_one: "a < length s \<Longrightarrow> substring s a (Suc a) = [s ! a]"
  by (simp add: substring_def take_Suc hd_drop_conv_nth)

lemma length_substring: "b \<le> length s \<Longrightarrow> length (substring s a b) = b - a"
  by (simp add: substring_def)

lemma substring_whole: "a \<le> length s \<Longrightarrow> take a s @ substring s a (length s) = s"
  by (simp add: substring_def)

text \<open>
  A repeated character class reads characters of it, as many as its bounds allow, and captures
  nothing; a greedy star tries first to read all there are.
\<close>

lemma rep_class_step:
  assumes f: "\<And>st. f st = (if fst st < length s \<and> p (s ! fst st) then [(Suc (fst st), snd st)] else [])"
    and "t \<in> set (rep_states g f n lo hi st)" and "fst st \<le> length s"
  shows "snd t = snd st \<and> fst st + lo \<le> fst t \<and> fst t \<le> length s \<and> list_all p (substring s (fst st) (fst t))
    \<and> (\<forall>h. hi = Some h \<longrightarrow> fst t \<le> fst st + h)"
  using assms(2,3)
proof (induction n arbitrary: lo hi st)
  case 0
  then show ?case by (auto split: if_splits)
next
  case (Suc n)
  show ?case
  proof (cases "t = st \<and> lo = 0")
    case True
    with Suc.prems show ?thesis by auto
  next
    case False
    with Suc.prems have u: "hi \<noteq> Some 0" "fst st < length s" "p (s ! fst st)"
      "t \<in> set (rep_states g f n (lo - 1) (pred_opt hi) (Suc (fst st), snd st))"
      by (auto simp: set_rep_states_Suc f [of st] split: if_splits)
    note ih = Suc.IH [OF u(4)]
    have "substring s (fst st) (fst t) = substring s (fst st) (Suc (fst st)) @ substring s (Suc (fst st)) (fst t)"
      using ih u(2) by (intro substring_append [symmetric]) auto
    with ih u show ?thesis
      by (cases hi) (auto simp: substring_one pred_opt_def)
  qed
qed

lemma rep_class:
  assumes "t \<in> set (rep_states g (rx_match (RCh p) s) n lo hi st)" and "fst st \<le> length s"
  shows "snd t = snd st" "fst st + lo \<le> fst t" "fst t \<le> length s" "list_all p (substring s (fst st) (fst t))"
    "hi = Some h \<Longrightarrow> fst t \<le> fst st + h"
  using rep_class_step [of "rx_match (RCh p) s" s p, OF rx_match.simps(2) assms] by auto

lemma rep_star_step:
  assumes f: "\<And>st. f st = (if fst st < length s \<and> p (s ! fst st) then [(Suc (fst st), snd st)] else [])"
    and "length s - fst st < n"
  shows "\<exists>ts. rep_states True f n 0 None st
    = (fst st + length (takeWhile p (drop (fst st) s)), snd st) # ts"
  using assms(2)
proof (induction n arbitrary: st)
  case (Suc n)
  show ?case
  proof (cases "fst st < length s \<and> p (s ! fst st)")
    case True
    have "drop (fst st) s = s ! fst st # drop (Suc (fst st)) s" using True by (simp add: Cons_nth_drop_Suc)
    moreover have "length s - Suc (fst st) < n" using Suc.prems True by linarith
    ultimately show ?thesis using True Suc.IH [of "(Suc (fst st), snd st)"]
      by (auto simp: rep_states.simps(2) f [of st] pred_opt_def)
  next
    case False
    then have "takeWhile p (drop (fst st) s) = []"
      by (cases "fst st < length s") (auto simp: Cons_nth_drop_Suc [symmetric])
    with False show ?thesis by (auto simp: rep_states.simps(2) f [of st])
  qed
qed simp

lemma rep_star_first:
  "\<exists>ts. rx_match (rx_star (RCh p)) s st = (fst st + length (takeWhile p (drop (fst st) s)), snd st) # ts"
  using rep_star_step [of "rx_match (RCh p) s" s p, OF rx_match.simps(2)] by simp

lemma rep_opt:
  "rep_states True f (Suc (Suc n)) 0 (Some (Suc 0)) st = filter (\<lambda>t. fst t \<noteq> fst st) (f st) @ [st]"
proof -
  have one: "rep_states True f (Suc n) 0 (Some 0) t = [t]" for t by (simp add: rep_states.simps(2))
  have "rep_states True f (Suc (Suc n)) 0 (Some (Suc 0)) st
      = concat (map (\<lambda>t. if fst t = fst st then [] else rep_states True f (Suc n) 0 (Some 0) t) (f st)) @ [st]"
    by (subst rep_states.simps(2)) (simp add: pred_opt_def cong: if_cong)
  also have "\<dots> = concat (map (\<lambda>t. if fst t = fst st then [] else [t]) (f st)) @ [st]"
    unfolding one ..
  also have "concat (map (\<lambda>t. if fst t = fst st then [] else [t]) xs) = filter (\<lambda>t. fst t \<noteq> fst st) xs" for xs
    by (induction xs) auto
  finally show ?thesis .
qed

text \<open>The first match of a sequence is the first match of its rest behind some match of its head.\<close>

lemma seq_first:
  assumes "rx_match (RSeq a b) s st = t # ts"
  obtains u us where "u \<in> set (rx_match a s st)" "rx_match b s u = t # us"
proof -
  have "concat (map f xs) = t # ts \<Longrightarrow> \<exists>u\<in>set xs. \<exists>us. f u = t # us"
    for f :: "rx_state \<Rightarrow> rx_state list" and xs ts
  proof (induction xs)
    case (Cons x xs)
    then show ?case by (cases "f x") auto
  qed simp
  from this [of "rx_match b s" "rx_match a s st"] assms that show thesis by auto
qed

text \<open>A literal without regard to case.\<close>

lemma rx_seq_Cons: "rs \<noteq> [] \<Longrightarrow> rx_seq (r # rs) = RSeq r (rx_seq rs)"
  by (cases rs) auto

lemma rx_ci_reads:
  assumes "t \<in> set (rx_match (rx_ci w) s st)" and "fst st \<le> length s"
  shows "snd t = snd st \<and> fst st \<le> fst t \<and> fst t \<le> length s \<and> to_lower (substring s (fst st) (fst t)) = w"
  using assms
proof (induction w arbitrary: st)
  case (Cons c w)
  obtain u where u: "u = (Suc (fst st), snd st)" "fst st < length s" "lower_char (s ! fst st) = c"
    "t \<in> set (rx_match (rx_ci w) s u)"
    using Cons.prems(1) by (cases w) (auto simp: rx_ci_def split: if_splits)
  from Cons.IH [OF u(4)] u(1,2) have ih: "snd t = snd st" "Suc (fst st) \<le> fst t" "fst t \<le> length s"
    "to_lower (substring s (Suc (fst st)) (fst t)) = w" by auto
  have "substring s (fst st) (fst t) = s ! fst st # substring s (Suc (fst st)) (fst t)"
    using substring_append [of "fst st" "Suc (fst st)" "fst t" s] ih(2) u(2) by (simp add: substring_one)
  with ih u(3) show ?case by (simp add: to_lower_def)
qed (simp add: rx_ci_def to_lower_def)

lemma rx_ci_first2:
  "rx_match (rx_ci [a, b]) s st =
     (if to_lower (take 2 (drop (fst st) s)) = [a, b] then [(fst st + 2, snd st)] else [])"
proof -
  have "to_lower (take 2 (drop i s)) = [a, b] \<longleftrightarrow> Suc i < length s \<and> lower_char (s ! i) = a \<and> lower_char (s ! Suc i) = b" for i
  proof (cases "Suc i < length s")
    case True
    then have "drop i s = s ! i # s ! Suc i # drop (Suc (Suc i)) s" by (simp add: Cons_nth_drop_Suc)
    with True show ?thesis by (simp add: to_lower_def)
  next
    case False
    then have "length (take 2 (drop i s)) < 2" by simp
    with False show ?thesis by (auto simp: to_lower_def dest: arg_cong [of _ _ length])
  qed
  then show ?thesis by (simp add: rx_ci_def numeral_2_eq_2)
qed

text \<open>A captured run of digits, and the first match of a search.\<close>

lemma digits_group:
  assumes "t \<in> set (rx_match (RGrp k (rx_between rx_digit lo hi)) w u)" and "fst u \<le> length w"
  shows "fst u + lo \<le> fst t" "fst t \<le> length w" "fst t \<le> fst u + hi"
    and "list_all is_digit (substring w (fst u) (fst t))" "snd t = AList.update k (fst u, fst t) (snd u)"
proof -
  obtain v where v: "v \<in> set (rep_states True (rx_match rx_digit w) (lo + Suc (length w)) lo (Some hi) u)"
    "fst t = fst v" "snd t = AList.update k (fst u, fst v) (snd v)"
    using assms(1) by auto
  note r = rep_class [OF v(1) assms(2)]
  show "fst u + lo \<le> fst t" "fst t \<le> length w" "fst t \<le> fst u + hi"
    "list_all is_digit (substring w (fst u) (fst t))" "snd t = AList.update k (fst u, fst t) (snd u)"
    using r v(2,3) by auto
qed

lemma rx_first_hit:
  "rx_first r s is = Some (b, e, cs) \<Longrightarrow> b \<in> set is \<and> (\<exists>ts. rx_match r s (b, []) = (e, cs) # ts)"
  by (induction "is") (auto split: list.splits)

end
