(* ===== verification/NodePath.thy ===== *)
theory NodePath
  imports Prelude
begin

text \<open>
  Node's \<open>path\<close> module on POSIX, as far as the program uses it: \<open>normalize\<close>, \<open>join\<close>,
  \<open>basename\<close>, \<open>dirname\<close>, \<open>isAbsolute\<close>, \<open>resolve\<close>.
\<close>

definition slash :: char where "slash = CHR ''/''"

definition is_absolute :: "string \<Rightarrow> bool" where
  "is_absolute p = (p \<noteq> [] \<and> hd p = slash)"

text \<open>One segment of \<open>normalizeString\<close>; the list holds the segments kept, last one first.\<close>

definition norm_seg :: "bool \<Rightarrow> string list \<Rightarrow> string \<Rightarrow> string list" where
  "norm_seg up acc seg =
     (if seg = [] \<or> seg = ''.'' then acc
      else if seg = ''..'' then
        (case acc of
           [] \<Rightarrow> if up then [''..''] else []
         | s # rest \<Rightarrow> if s = ''..'' then ''..'' # acc else rest)
      else seg # acc)"

definition norm_segments :: "bool \<Rightarrow> string list \<Rightarrow> string list" where
  "norm_segments up segs = rev (foldl (norm_seg up) [] segs)"

definition path_normalize :: "string \<Rightarrow> string" where
  "path_normalize p =
     (if p = [] then ''.''
      else let absol = is_absolute p;
               trailing = (last p = slash);
               body = join [slash] (norm_segments (\<not> absol) (split_char slash p))
           in if body = [] then (if absol then [slash] else if trailing then ''./'' else ''.'')
              else (if absol then [slash] else []) @ body @ (if trailing then [slash] else []))"

definition path_join :: "string list \<Rightarrow> string" where
  "path_join ps =
     (let qs = filter (\<lambda>p. p \<noteq> []) ps in if qs = [] then ''.'' else path_normalize (join [slash] qs))"

text \<open>Trailing slashes are ignored by both.\<close>

definition strip_slashes :: "string \<Rightarrow> string" where
  "strip_slashes p = rev (dropWhile (\<lambda>c. c = slash) (rev p))"

definition path_basename :: "string \<Rightarrow> string" where
  "path_basename p = last (split_char slash (strip_slashes p))"

definition path_dirname :: "string \<Rightarrow> string" where
  "path_dirname p =
     (if p = [] then ''.''
      else let q = strip_slashes p; segs = split_char slash q
           in if q = [] then [slash]
              else if length segs = 1 then ''.''
              else let d = join [slash] (butlast segs) in
                if strip_slashes d = [] then [slash] else strip_slashes d)"

text \<open>\<open>path.resolve(p)\<close> in the working directory \<open>cwd\<close>, an absolute path.\<close>

definition path_resolve :: "string \<Rightarrow> string \<Rightarrow> string" where
  "path_resolve cwd p =
     (let full = (if is_absolute p then p else cwd @ [slash] @ p)
      in slash # join [slash] (norm_segments False (split_char slash full)))"

section \<open>Laws\<close>

definition plain_seg :: "string \<Rightarrow> bool" where
  "plain_seg s = (s \<noteq> [] \<and> s \<noteq> ''.'' \<and> s \<noteq> ''..'' \<and> slash \<notin> set s)"

lemma norm_seg_absolute:
  "list_all plain_seg acc \<Longrightarrow> slash \<notin> set seg \<Longrightarrow> list_all plain_seg (norm_seg False acc seg)"
  by (auto simp: norm_seg_def plain_seg_def split: list.splits)

text \<open>The normal form of an absolute path has no \<open>..\<close> left: it stays below the root.\<close>

lemma norm_segments_absolute:
  assumes "\<And>s. s \<in> set segs \<Longrightarrow> slash \<notin> set s"
  shows "list_all plain_seg (norm_segments False segs)"
proof -
  have "list_all plain_seg acc \<Longrightarrow> (\<And>s. s \<in> set segs \<Longrightarrow> slash \<notin> set s) \<Longrightarrow>
      list_all plain_seg (foldl (norm_seg False) acc segs)" for acc
    by (induction segs arbitrary: acc) (simp_all add: norm_seg_absolute)
  from this [of "[]"] assms show ?thesis by (simp add: norm_segments_def)
qed

lemma foldl_norm_plain: "list_all plain_seg segs \<Longrightarrow> foldl (norm_seg up) acc segs = rev segs @ acc"
  by (induction segs arbitrary: acc) (auto simp: norm_seg_def plain_seg_def)

lemma norm_plain: "list_all plain_seg segs \<Longrightarrow> norm_segments up segs = segs"
  by (simp add: norm_segments_def foldl_norm_plain)

section \<open>Joining one segment\<close>

lemma split_char_snoc_part: "c \<notin> set w \<Longrightarrow> split_char c (d @ c # w) = split_char c d @ [w]"
proof (induction d)
  case Nil
  then show ?case by (simp add: split_char_none)
next
  case (Cons x d)
  then show ?case by (cases "split_char c d") auto
qed

lemma join_snoc: "join sep (ws @ [w]) = (if ws = [] then w else join sep ws @ sep @ w)"
proof (induction ws)
  case (Cons v ws)
  then show ?case by (cases ws) auto
qed simp

lemma path_join_segment:
  assumes "d \<noteq> []" and "plain_seg x"
  shows "path_join [d, x] =
    (if is_absolute d then [slash] else []) @
    join [slash] (norm_segments (\<not> is_absolute d) (split_char slash d) @ [x])"
proof -
  have x: "x \<noteq> []" "slash \<notin> set x" using assms(2) by (auto simp: plain_seg_def)
  have j: "join [slash] [d, x] = d @ slash # x" by simp
  have "norm_segments up (split_char slash d @ [x]) = norm_segments up (split_char slash d) @ [x]" for up
    using assms(2) by (simp add: norm_segments_def norm_seg_def plain_seg_def)
  moreover have "join [slash] (norm_segments up (split_char slash d) @ [x]) \<noteq> []" for up
    using x by (simp add: join_snoc)
  moreover have "last (d @ slash # x) \<noteq> slash" using x last_in_set [of x] by (metis append_is_Nil_conv last.simps last_appendR list.distinct(1))
  moreover have "is_absolute (d @ slash # x) = is_absolute d" using assms(1) by (simp add: is_absolute_def)
  ultimately show ?thesis
    using assms(1) x by (simp add: path_join_def path_normalize_def split_char_snoc_part Let_def)
qed

lemma path_join_inject:
  assumes "d \<noteq> []" and "plain_seg x" and "plain_seg y"
  shows "path_join [d, x] = path_join [d, y] \<longleftrightarrow> x = y"
  using assms by (auto simp: path_join_segment join_snoc split: if_splits)

lemma path_join_not_Nil: "path_join ps \<noteq> []"
  by (auto simp: path_join_def path_normalize_def Let_def)

section \<open>Resolving\<close>

lemma split_char_Cons: "split_char c (c # w) = [] # split_char c w"
  by simp

lemma split_char_join:
  "ws \<noteq> [] \<Longrightarrow> (\<And>w. w \<in> set ws \<Longrightarrow> c \<notin> set w) \<Longrightarrow> split_char c (join [c] ws) = ws"
proof (induction ws rule: rev_induct)
  case (snoc w ws)
  show ?case
  proof (cases "ws = []")
    case True
    with snoc.prems show ?thesis by (simp add: split_char_none)
  next
    case False
    then have "split_char c (join [c] ws) = ws" using snoc by simp
    with False snoc.prems split_char_snoc_part [of c w "join [c] ws"] show ?thesis by (simp add: join_snoc)
  qed
qed simp

lemma path_resolve_idem: "path_resolve pwd (path_resolve pwd p) = path_resolve pwd p"
proof -
  have "path_resolve pwd (slash # join [slash] ws) = slash # join [slash] ws" if "list_all plain_seg ws" for ws
  proof (cases "ws = []")
    case True
    then show ?thesis by (simp add: path_resolve_def is_absolute_def norm_segments_def norm_seg_def)
  next
    case False
    then have "split_char slash (join [slash] ws) = ws"
      using that by (intro split_char_join) (auto simp: list_all_iff plain_seg_def)
    then have "norm_segments False (split_char slash (slash # join [slash] ws)) = norm_segments False ws"
      by (simp add: norm_segments_def norm_seg_def)
    with norm_plain [OF that] show ?thesis by (simp add: path_resolve_def is_absolute_def)
  qed
  moreover have "list_all plain_seg (norm_segments False (split_char slash q))" for q
    by (rule norm_segments_absolute) (auto dest: split_char_no_sep)
  ultimately show ?thesis unfolding path_resolve_def [of pwd p] Let_def by blast
qed

lemma normalize_resolves: "is_absolute p \<Longrightarrow> last p \<noteq> slash \<Longrightarrow> path_normalize p = path_resolve pwd p"
  by (auto simp: path_normalize_def path_resolve_def Let_def is_absolute_def)

lemma join_absolute: "is_absolute (join sep (p # ps)) = is_absolute p" if "p \<noteq> []"
  using that by (cases ps) (simp_all add: is_absolute_def)

lemma last_join: "ws \<noteq> [] \<Longrightarrow> last ws \<noteq> [] \<Longrightarrow> last (join sep ws) = last (last ws)"
  by (cases ws rule: rev_cases) (simp_all add: join_snoc)

lemma last_filter: "xs \<noteq> [] \<Longrightarrow> P (last xs) \<Longrightarrow> filter P xs \<noteq> [] \<and> last (filter P xs) = last xs"
  by (cases xs rule: rev_cases) simp_all

lemma path_resolve_join:
  assumes "is_absolute p" and "last (p # ps) \<noteq> []" and "last (last (p # ps)) \<noteq> slash"
  shows "path_resolve pwd (path_join (p # ps)) = path_join (p # ps)"
proof -
  let ?qs = "filter (\<lambda>p. p \<noteq> []) ps"
  have n: "p \<noteq> []" using assms(1) by (simp add: is_absolute_def)
  then have "filter (\<lambda>p. p \<noteq> []) (p # ps) = p # ?qs" by simp
  then have j: "path_join (p # ps) = path_normalize (join [slash] (p # ?qs))"
    by (simp only: path_join_def Let_def) simp
  have l: "last (p # ?qs) = last (p # ps)"
    using last_filter [of "p # ps" "\<lambda>p. p \<noteq> []"] assms(2) n by simp
  have "path_normalize (join [slash] (p # ?qs)) = path_resolve pwd (join [slash] (p # ?qs))"
  proof (rule normalize_resolves)
    show "is_absolute (join [slash] (p # ?qs))" using assms(1) n by (simp add: join_absolute)
    show "last (join [slash] (p # ?qs)) \<noteq> slash" using assms(2,3) last_join [of "p # ?qs" "[slash]", OF list.distinct(2), unfolded l] by metis
  qed
  then show ?thesis by (simp add: j path_resolve_idem)
qed

lemma path_join_absolute:
  assumes "is_absolute p" and "last (p # ps) \<noteq> []" and "last (last (p # ps)) \<noteq> slash"
  shows "is_absolute (path_join (p # ps))"
  using path_resolve_join [OF assms, of "[]"] by (metis is_absolute_def list.sel(1) list.simps(3) path_resolve_def)

text \<open>Joining plain segments to an absolute path: its normal form, and the segments behind it.\<close>

definition path_base :: "string \<Rightarrow> string" where
  "path_base p =
     (let ws = norm_segments False (split_char slash p)
      in slash # (if ws = [] then [] else join [slash] ws @ [slash]))"

lemma join_appended: "vs \<noteq> [] \<Longrightarrow> ws \<noteq> [] \<Longrightarrow> join sep (vs @ ws) = join sep vs @ sep @ join sep ws"
proof (induction vs)
  case (Cons v vs)
  then show ?case by (cases vs; cases ws) auto
qed simp

lemma split_char_joined:
  "(\<And>w. w \<in> set ws \<Longrightarrow> c \<notin> set w) \<Longrightarrow> split_char c (join [c] (d # ws)) = split_char c d @ ws"
proof (induction ws rule: rev_induct)
  case (snoc w ws)
  have "join [c] (d # ws @ [w]) = join [c] (d # ws) @ c # w" using join_snoc [of "[c]" "d # ws" w] by simp
  moreover have "c \<notin> set w" using snoc.prems by simp
  moreover have "split_char c (join [c] (d # ws)) = split_char c d @ ws" using snoc by simp
  ultimately show ?case by (simp add: split_char_snoc_part)
qed simp

lemma path_join_below:
  assumes "is_absolute d" and "filter (\<lambda>w. w \<noteq> []) ps \<noteq> []"
    and "list_all (\<lambda>w. w = [] \<or> plain_seg w) ps"
  shows "path_join (d # ps) = path_base d @ join [slash] (filter (\<lambda>w. w \<noteq> []) ps)"
proof -
  let ?qs = "filter (\<lambda>w. w \<noteq> []) ps" and ?ns = "norm_segments False (split_char slash d)"
  have qs: "list_all plain_seg ?qs" using assms(3) by (auto simp: list_all_iff)
  have d: "d \<noteq> []" using assms(1) by (simp add: is_absolute_def)
  have s: "split_char slash (join [slash] (d # ?qs)) = split_char slash d @ ?qs"
    by (rule split_char_joined) (use qs in \<open>auto simp: list_all_iff plain_seg_def\<close>)
  have n: "norm_segments False (split_char slash d @ ?qs) = ?ns @ ?qs"
    using norm_plain [OF qs, of False] foldl_norm_plain [OF qs] by (simp add: norm_segments_def)
  have l: "last ?qs \<noteq> []" "slash \<notin> set (last ?qs)"
    using qs last_in_set [OF assms(2)] by (auto simp: list_all_iff plain_seg_def)
  have "last (join [slash] (d # ?qs)) = last (last ?qs)"
    using last_join [of "d # ?qs" "[slash]"] assms(2) l by simp
  then have e: "last (join [slash] (d # ?qs)) \<noteq> slash" using l last_in_set by metis
  have b: "join [slash] (?ns @ ?qs) \<noteq> []"
    using l assms(2) by (cases ?qs rule: rev_cases) (auto simp: join_snoc simp flip: append_assoc)
  have a: "is_absolute (join [slash] (d # ?qs))" using assms(1) d by (simp add: join_absolute)
  have "path_join (d # ps) = path_normalize (join [slash] (d # ?qs))"
    using d by (simp add: path_join_def Let_def)
  also have "\<dots> = slash # join [slash] (?ns @ ?qs)"
    using a b e by (simp add: path_normalize_def Let_def s n is_absolute_def)
  also have "\<dots> = path_base d @ join [slash] ?qs"
    using assms(2) by (cases "?ns = []") (simp_all add: path_base_def Let_def join_appended)
  finally show ?thesis .
qed

end
