(* ===== verification/Protocol.thy ===== *)
theory Protocol
  imports Prelude
begin

text \<open>
  The data of the wire protocol (\<open>shared/src/protocol.ts\<close>) the components exchange: session
  status, attachments, chat events as they are persisted, the plan's rate-limit windows, accounts
  and agents. A TypeScript union of literals is a datatype with one constructor per literal, an
  optional field is an \<open>option\<close>.
\<close>

section \<open>Sessions\<close>

datatype session_status = Idle | Running | Status_error

datatype permission_mode = Mode_default | Accept_edits | Bypass_permissions | Plan_mode

datatype effort_level = Effort_low | Effort_medium | Effort_high | Effort_xhigh | Effort_max

section \<open>Attachments and chat events\<close>

datatype attachment =
    Image_att (att_name: string) (att_media: string) (att_data: string) (att_saved: "string option")
  | File_att (att_path: string)

datatype ref_kind = Ref_image | Ref_file

record attachment_ref =
  ref_kind :: ref_kind
  ref_label :: string
  ref_path :: "string option"
  ref_media :: "string option"

text \<open>
  Event payloads that come from the SDK as arbitrary JSON (tool inputs, questions, answers) stay
  \<open>jsval\<close>.
\<close>

datatype event_action = Action_signin

datatype chat_event =
    User_message string "attachment_ref list" "string option"
  | Assistant_text string "string option"
  | Tool_use "string option" string jsval "string option"
  | Tool_result "string option" string bool "string option"
  | Permission_request string string jsval
  | Question_request string jsval
  | Permission_resolved string bool "(string \<times> string) list option"
  | Status_event session_status "string option" "event_action option" "string option option"
  | Result_event string "num option" "num option" "num option" "num option" "num option"

record persisted_event =
  pe_seq :: nat
  pe_ts :: time_ms
  pe_event :: chat_event

section \<open>Plan rate limits\<close>

datatype window_kind =
    Five_hour | Seven_day | Seven_day_opus | Seven_day_sonnet | Seven_day_overage_included | Overage

datatype limit_status = Allowed | Allowed_warning | Rejected

record rate_limit_window =
  utilization :: "num option"
  resetsAt :: "time_ms option"
  w_status :: limit_status

type_synonym rate_limits = "(window_kind \<times> rate_limit_window) list"

record usage_snapshot =
  windows :: rate_limits
  subscriptionType :: "string option"
  available :: bool

section \<open>Accounts and agents\<close>

record account_info =
  acc_name :: string
  configDir :: "string option"
  acc_active :: bool
  signedIn :: bool
  loginExpired :: bool

record active_agent =
  aa_id :: string
  aa_description :: string
  aa_taskId :: "string option"
  aa_kind :: "string option"

end
