(* ===== verification/Rotation.thy ===== *)
theory Rotation
  imports Protocol
begin

text \<open>
  Choosing an account after a refusal (\<open>daemon/src/rotation.ts\<close>). The daemon's rotation state
  is the table of limits, the logins given up on and the instant of the last switch; every decision
  is a function of it. The lemmas show that the choice is the first eligible account in cyclic
  order, that it is made whenever there is one, and what each plan's retry instant means.
\<close>

section \<open>State and plans\<close>

record rotation_state =
  limited :: "(string \<times> time_ms) list"
  unusable :: "string set"
  lastSwitchAt :: time_ms

datatype plan_why =
    Switched | Cooldown | Cooldown_limited | All_limited | Disabled | Single_account

record rotation_plan =
  switchTo :: "account_info option"
  plan_retryAt :: time_ms
  why :: plan_why

type_synonym identity_of = "account_info \<Rightarrow> string"

definition SWITCH_COOLDOWN_MS :: time_ms where "SWITCH_COOLDOWN_MS = 30000"
definition SWITCH_SETTLE_MS :: time_ms where "SWITCH_SETTLE_MS = 5000"

lemmas switch_const_defs [bound_simps] = SWITCH_COOLDOWN_MS_def SWITCH_SETTLE_MS_def

definition accountKey :: "string option \<Rightarrow> string" where
  "accountKey dir = (case dir of None \<Rightarrow> '''' | Some d \<Rightarrow> d)"

definition byConfigDir :: identity_of where
  "byConfigDir a = accountKey (configDir a)"

section \<open>Decisions\<close>

definition usable :: "account_info \<Rightarrow> rotation_state \<Rightarrow> time_ms \<Rightarrow> identity_of \<Rightarrow> bool" where
  "usable account state now identityOf =
     (if identityOf account \<in> unusable state then False
      else case map_of (limited state) (identityOf account) of
             None \<Rightarrow> True
           | Some until \<Rightarrow> until \<le> now)"

text \<open>\<open>accounts.findIndex(...)\<close>, \<open>None\<close> for \<open>-1\<close>.\<close>

fun find_index :: "('a \<Rightarrow> bool) \<Rightarrow> 'a list \<Rightarrow> nat option" where
  "find_index P [] = None"
| "find_index P (x # xs) = (if P x then Some 0 else map_option Suc (find_index P xs))"

definition has_key :: "string option \<Rightarrow> account_info \<Rightarrow> bool" where
  "has_key current a = (accountKey (configDir a) = accountKey current)"

definition candidates :: "account_info list \<Rightarrow> string option \<Rightarrow> account_info list" where
  "candidates accounts current =
     (let from = (case find_index (has_key current) accounts of Some i \<Rightarrow> int i | None \<Rightarrow> - 1);
          n = length accounts
      in map (\<lambda>step. accounts ! nat ((from + int step + int n) mod int n)) [1..<Suc n])"

definition eligible ::
    "account_info list \<Rightarrow> string option \<Rightarrow> rotation_state \<Rightarrow> time_ms \<Rightarrow> identity_of \<Rightarrow>
     account_info \<Rightarrow> bool" where
  "eligible accounts current state now identityOf c =
     (\<not> has_key current c
      \<and> (case List.find (has_key current) accounts of
            None \<Rightarrow> True
          | Some cur \<Rightarrow> identityOf c \<noteq> identityOf cur)
      \<and> usable c state now identityOf)"

definition nextUsableAccount ::
    "account_info list \<Rightarrow> string option \<Rightarrow> rotation_state \<Rightarrow> time_ms \<Rightarrow> identity_of \<Rightarrow>
     account_info option" where
  "nextUsableAccount accounts current state now identityOf =
     (if length accounts < 2 then None
      else List.find (eligible accounts current state now identityOf) (candidates accounts current))"

definition planAfterLimit ::
    "account_info list \<Rightarrow> string option \<Rightarrow> rotation_state \<Rightarrow> time_ms \<Rightarrow> time_ms \<Rightarrow> bool \<Rightarrow>
     identity_of \<Rightarrow> rotation_plan" where
  "planAfterLimit accounts current state now ownResetAt enabled identityOf =
     (if \<not> enabled then
        \<lparr>switchTo = None, plan_retryAt = ownResetAt, why = Disabled\<rparr>
      else if length accounts < 2 then
        \<lparr>switchTo = None, plan_retryAt = ownResetAt, why = Single_account\<rparr>
      else if now - lastSwitchAt state < SWITCH_COOLDOWN_MS then
        (case List.find (has_key current) accounts of
           Some cur \<Rightarrow>
             if \<not> usable cur state now identityOf then
               \<lparr>switchTo = None,
                plan_retryAt = lastSwitchAt state + SWITCH_COOLDOWN_MS + SWITCH_SETTLE_MS,
                why = Cooldown_limited\<rparr>
             else \<lparr>switchTo = None, plan_retryAt = now + SWITCH_SETTLE_MS, why = Cooldown\<rparr>
         | None \<Rightarrow> \<lparr>switchTo = None, plan_retryAt = now + SWITCH_SETTLE_MS, why = Cooldown\<rparr>)
      else case nextUsableAccount accounts current state now identityOf of
        Some next \<Rightarrow>
          \<lparr>switchTo = Some next, plan_retryAt = now + SWITCH_SETTLE_MS, why = Switched\<rparr>
      | None \<Rightarrow>
          \<lparr>switchTo = None,
           plan_retryAt = min_of ownResetAt (filter (\<lambda>until. now < until) (map snd (limited state))),
           why = All_limited\<rparr>)"

definition accountForRetry ::
    "account_info list \<Rightarrow> string option \<Rightarrow> rotation_state \<Rightarrow> time_ms \<Rightarrow> bool \<Rightarrow> identity_of \<Rightarrow>
     account_info option" where
  "accountForRetry accounts current state now enabled identityOf =
     (if \<not> enabled \<or> length accounts < 2 then None
      else case List.find (has_key current) accounts of
             Some cur \<Rightarrow>
               if usable cur state now identityOf then None
               else nextUsableAccount accounts current state now identityOf
           | None \<Rightarrow> nextUsableAccount accounts current state now identityOf)"

definition withLoginExpiry ::
    "account_info list \<Rightarrow> rotation_state \<Rightarrow> identity_of \<Rightarrow> account_info list" where
  "withLoginExpiry accounts state identityOf =
     map (\<lambda>a. a\<lparr>loginExpired := identityOf a \<in> unusable state\<rparr>) accounts"

section \<open>Facts\<close>

lemma find_index_Some:
  "find_index P xs = Some i \<Longrightarrow> i < length xs \<and> P (xs ! i) \<and> List.find P xs = Some (xs ! i)"
  by (induction xs arbitrary: i) (auto split: if_splits)

lemma find_index_None: "find_index P xs = None \<longleftrightarrow> List.find P xs = None"
  by (induction xs) auto

lemma length_candidates [simp]: "length (candidates accounts current) = length accounts"
  by (simp add: candidates_def Let_def del: upt_Suc)

text \<open>The visiting order is the list rotated past the current account.\<close>

lemma candidates_rotate:
  "candidates accounts current =
     (case find_index (has_key current) accounts of
        Some i \<Rightarrow> rotate (Suc i) accounts
      | None \<Rightarrow> accounts)"
proof (cases "accounts = []")
  case True
  then show ?thesis by (simp add: candidates_def)
next
  case False
  define n where "n = length accounts"
  have n: "0 < n" using False by (simp add: n_def)
  have idx: "nat ((int i + int (Suc k) + int n) mod int n) = (Suc i + k) mod n" for i k
  proof -
    have "int i + int (Suc k) + int n = int (Suc i + k + n)" by simp
    then have "(int i + int (Suc k) + int n) mod int n = int ((Suc i + k + n) mod n)"
      by (simp only: zmod_int)
    then have "nat ((int i + int (Suc k) + int n) mod int n) = (Suc i + k + n) mod n"
      by (simp only: nat_int)
    also have "\<dots> = (Suc i + k) mod n" by (rule mod_add_self2)
    finally show ?thesis .
  qed
  show ?thesis
  proof (cases "find_index (has_key current) accounts")
    case (Some i)
    have "candidates accounts current ! k = rotate (Suc i) accounts ! k" if "k < n" for k
    proof -
      have "candidates accounts current ! k = accounts ! nat ((int i + int (Suc k) + int n) mod int n)"
        using that Some by (simp add: candidates_def Let_def n_def del: upt_Suc of_nat_Suc)
      also have "\<dots> = accounts ! ((Suc i + k) mod n)" by (simp only: idx)
      also have "\<dots> = rotate (Suc i) accounts ! k"
        using that nth_rotate [of k accounts "Suc i"] by (simp only: n_def)
      finally show ?thesis .
    qed
    then have "candidates accounts current = rotate (Suc i) accounts"
      by (intro nth_equalityI) (simp_all add: n_def del: rotate_Suc)
    with Some show ?thesis by simp
  next
    case None
    have "(- 1 + int (Suc k) + int n) mod int n = int k" if "k < n" for k
      using that by simp
    then have "candidates accounts current ! k = accounts ! k" if "k < n" for k
      using that None by (simp add: candidates_def Let_def n_def del: upt_Suc)
    then have "candidates accounts current = accounts"
      by (intro nth_equalityI) (simp_all add: n_def)
    with None show ?thesis by simp
  qed
qed

lemma set_candidates [simp]: "set (candidates accounts current) = set accounts"
  by (simp add: candidates_rotate split: option.splits)

lemma find_Some_set: "List.find P xs = Some x \<Longrightarrow> x \<in> set xs \<and> P x"
  by (auto simp: find_Some_iff)

lemma nextUsable_sound:
  "nextUsableAccount accounts current state now idof = Some a \<Longrightarrow>
     a \<in> set accounts \<and> eligible accounts current state now idof a"
  using set_candidates [of accounts current]
  by (auto simp: nextUsableAccount_def simp del: set_candidates dest!: find_Some_set split: if_splits)

lemma nextUsable_None:
  "nextUsableAccount accounts current state now idof = None \<longleftrightarrow>
     length accounts < 2 \<or> (\<forall>a\<in>set accounts. \<not> eligible accounts current state now idof a)"
  by (auto simp: nextUsableAccount_def find_None_iff)

lemma eligible_usable: "eligible accounts current state now idof a \<Longrightarrow> usable a state now idof"
  by (simp add: eligible_def)

lemma usable_iff:
  "usable a state now idof \<longleftrightarrow>
     idof a \<notin> unusable state \<and> (\<forall>u. map_of (limited state) (idof a) = Some u \<longrightarrow> u \<le> now)"
  by (auto simp: usable_def split: option.splits)

lemma usable_mono: "usable a state now idof \<Longrightarrow> now \<le> later \<Longrightarrow> usable a state later idof"
  by (auto simp: usable_iff)

lemmas plan_defs = planAfterLimit_def

lemma plan_switch:
  "switchTo (planAfterLimit accounts current state now own enabled idof) = Some a \<Longrightarrow>
     enabled \<and> SWITCH_COOLDOWN_MS \<le> now - lastSwitchAt state
     \<and> nextUsableAccount accounts current state now idof = Some a
     \<and> planAfterLimit accounts current state now own enabled idof =
        \<lparr>switchTo = Some a, plan_retryAt = now + SWITCH_SETTLE_MS, why = Switched\<rparr>"
  by (auto simp: plan_defs split: if_splits option.splits)

lemma plan_all_limited:
  "why (planAfterLimit accounts current state now own enabled idof) = All_limited \<Longrightarrow>
     enabled \<and> 2 \<le> length accounts
     \<and> nextUsableAccount accounts current state now idof = None
     \<and> plan_retryAt (planAfterLimit accounts current state now own enabled idof) =
        min_of own (filter (\<lambda>u. now < u) (map snd (limited state)))"
  by (auto simp: plan_defs split: if_splits option.splits)

lemma plan_retry_future:
  assumes "now < own"
  shows "now < plan_retryAt (planAfterLimit accounts current state now own enabled idof)"
proof -
  let ?us = "filter (\<lambda>u. now < u) (map snd (limited state))"
  have "min_of own ?us \<in> insert own (set ?us)" by (rule min_of_mem)
  with assms have "now < min_of own ?us" by auto
  with assms show ?thesis
    by (auto simp: plan_defs bound_simps split: option.splits)
qed

lemma withLoginExpiry_expired:
  "a \<in> set (withLoginExpiry accounts state idof) \<Longrightarrow>
     \<exists>b\<in>set accounts. a = b\<lparr>loginExpired := idof b \<in> unusable state\<rparr>"
  by (auto simp: withLoginExpiry_def)

lemma nextUsable_first:
  assumes "nextUsableAccount accounts current state now idof = Some a"
  shows "\<exists>before after. candidates accounts current = before @ a # after
    \<and> (\<forall>b\<in>set before. \<not> eligible accounts current state now idof b)"
proof -
  have "List.find (eligible accounts current state now idof) (candidates accounts current) = Some a"
    using assms by (auto simp: nextUsableAccount_def split: if_splits)
  then obtain i where i: "i < length (candidates accounts current)" "candidates accounts current ! i = a"
    "\<forall>j<i. \<not> eligible accounts current state now idof (candidates accounts current ! j)"
    by (auto simp: find_Some_iff)
  have "candidates accounts current =
      take i (candidates accounts current) @ a # drop (Suc i) (candidates accounts current)"
    using i id_take_nth_drop by metis
  moreover have "\<forall>b\<in>set (take i (candidates accounts current)). \<not> eligible accounts current state now idof b"
    using i by (auto simp: in_set_conv_nth)
  ultimately show ?thesis by blast
qed

lemma plan_complete:
  assumes "2 \<le> length accounts" and "SWITCH_COOLDOWN_MS \<le> now - lastSwitchAt state"
  shows "(\<exists>a. switchTo (planAfterLimit accounts current state now own True idof) = Some a)
      \<longleftrightarrow> (\<exists>a\<in>set accounts. eligible accounts current state now idof a)"
    and "switchTo (planAfterLimit accounts current state now own True idof) = None \<Longrightarrow>
      plan_retryAt (planAfterLimit accounts current state now own True idof) \<le> own
      \<and> (\<forall>k u. (k, u) \<in> set (limited state) \<and> now < u \<longrightarrow>
           plan_retryAt (planAfterLimit accounts current state now own True idof) \<le> u)"
proof -
  have l: "\<not> length accounts < 2" and c: "\<not> now - lastSwitchAt state < SWITCH_COOLDOWN_MS"
    using assms by simp_all
  have "(\<exists>a. switchTo (planAfterLimit accounts current state now own True idof) = Some a)
      \<longleftrightarrow> nextUsableAccount accounts current state now idof \<noteq> None"
    using l c by (simp add: plan_defs split: option.split)
  then show "(\<exists>a. switchTo (planAfterLimit accounts current state now own True idof) = Some a)
      \<longleftrightarrow> (\<exists>a\<in>set accounts. eligible accounts current state now idof a)"
    using l by (simp only: nextUsable_None not_Some_eq) auto
  let ?us = "filter (\<lambda>u. now < u) (map snd (limited state))"
  assume "switchTo (planAfterLimit accounts current state now own True idof) = None"
  then have r: "plan_retryAt (planAfterLimit accounts current state now own True idof) = min_of own ?us"
    using l c by (simp add: plan_defs split: option.splits)
  have "u \<in> set ?us" if "(k, u) \<in> set (limited state)" "now < u" for k u using that by force
  then show "plan_retryAt (planAfterLimit accounts current state now own True idof) \<le> own
      \<and> (\<forall>k u. (k, u) \<in> set (limited state) \<and> now < u \<longrightarrow>
           plan_retryAt (planAfterLimit accounts current state now own True idof) \<le> u)"
    unfolding r using min_of_le min_of_le_elem by metis
qed

end
