(* ===== verification/Naming.thy ===== *)
theory Naming
  imports Regex NodePath Rotation
begin

text \<open>
  The name half of \<open>daemon/src/titler.ts\<close>: cleaning what the model answered, the project tag,
  whether a new name is worth a rename, and the memory of past names. The lemmas: a cleaned name
  is short, a tag goes on once, and a name the conversation has worn never comes back.
\<close>

definition RETITLE_AFTER_MS :: time_ms where "RETITLE_AFTER_MS = 15 * 60000"
definition MAX_NAME_CHARS :: nat where "MAX_NAME_CHARS = 32"
definition MAX_TITLE_WORDS :: nat where "MAX_TITLE_WORDS = 12"
definition MAX_PAST_TITLES :: nat where "MAX_PAST_TITLES = 20"

section \<open>When a name is due\<close>

record title_state =
  ts_turns :: nat
  ts_titledAt :: "time_ms option"
  ts_now :: time_ms
  ts_titleSetByUser :: bool
  ts_parked :: bool

definition titleIsDue :: "title_state \<Rightarrow> bool" where
  "titleIsDue s =
     (if ts_titleSetByUser s then False
      else if ts_parked s then False
      else if ts_turns s < 1 then False
      else case ts_titledAt s of
        None \<Rightarrow> True
      | Some at_ms \<Rightarrow> RETITLE_AFTER_MS \<le> ts_now s - at_ms)"

definition CLEARS_PATTERN :: rx where
  "CLEARS_PATTERN =
     rx_seq [RBos, rx_lit ''/'', rx_alts [rx_lit ''new'', rx_lit ''clear''], RAlt rx_space REos]"

definition clearsHistory :: "string \<Rightarrow> bool" where
  "clearsHistory text = rx_test CLEARS_PATTERN (trim text)"

section \<open>The project tag\<close>

definition is_vowel :: "char \<Rightarrow> bool" where
  "is_vowel c = (lower_char c \<in> set ''aeiou'')"

definition projectTag :: "string \<Rightarrow> string" where
  "projectTag cwd =
     (let clean = filter is_alnum (path_basename cwd);
          letters = filter is_alpha clean;
          source = (if 2 \<le> length letters then letters else clean)
      in case source of
           [] \<Rightarrow> []
         | first # rest \<Rightarrow>
             let skeleton = first # filter (\<lambda>c. \<not> is_vowel c) rest;
                 tag = (if 3 \<le> length skeleton then skeleton else source)
             in to_lower (take 3 tag))"

definition composeTitle :: "string \<Rightarrow> string \<Rightarrow> string" where
  "composeTitle tag name = (if tag = [] then name else tag @ ''|'' @ name)"

text \<open>
  \<open>title.replace(/^\s*(?:[a-z0-9]{1,4}\|\s*)+/i, '').trim()\<close>. A letter, a digit, the bar and
  white space exclude each other, so the pattern matches in one way only and is written as the
  loop it runs.
\<close>

function strip_tags :: "string \<Rightarrow> string" where
  "strip_tags s =
     (let t = takeWhile is_alnum s in
      case dropWhile is_alnum s of
        [] \<Rightarrow> s
      | c # r \<Rightarrow>
          if c = CHR ''|'' \<and> 1 \<le> length t \<and> length t \<le> 4 then strip_tags (dropWhile is_space r) else s)"
  by pat_completeness auto
termination
  by (relation "measure length") (auto simp: dropWhile_Cons_shorter)

declare strip_tags.simps [simp del]

definition withoutTag :: "string \<Rightarrow> string" where
  "withoutTag title = trim (strip_tags (trim_start title))"

section \<open>Cleaning the answer\<close>

definition NOT_A_TITLE :: rx where
  "NOT_A_TITLE =
     rx_seq [RBos,
       rx_alts (map rx_ci [''i'', ''i'' @ [CHR 0x27] @ ''m'', ''im'', ''sure'', ''certainly'', ''of course'',
                           ''okay'', ''ok'', ''sorry'', ''here'', ''hi'', ''hello'', ''apologies'']),
       RWordB]"

definition LABEL_PATTERN :: rx where
  "LABEL_PATTERN =
     rx_seq [RBos, rx_alts [rx_ci ''title'', rx_ci ''name''], rx_star rx_space, rx_in '':-'',
             rx_star rx_space]"

text \<open>The straight quotes, the backtick and the four curly quotes.\<close>

definition is_quote :: "char \<Rightarrow> bool" where
  "is_quote c = (let n = code_of c in n = 0x22 \<or> n = 0x27 \<or> n = 0x60 \<or> (0x91 \<le> n \<and> n \<le> 0x94))"

definition drop_end :: "(char \<Rightarrow> bool) \<Rightarrow> string \<Rightarrow> string" where
  "drop_end p s = rev (dropWhile p (rev s))"

definition strip_quotes :: "string \<Rightarrow> string" where
  "strip_quotes s = drop_end is_quote (dropWhile is_quote s)"

text \<open>\<open>s.replace(/[,;:-]$/, '')\<close>.\<close>

definition drop_last_mark :: "string \<Rightarrow> string" where
  "drop_last_mark s = (if s \<noteq> [] \<and> last s \<in> set '',;:-'' then butlast s else s)"

text \<open>\<open>cut.lastIndexOf(' ') > 0 ? cut.slice(0, lastIndexOf) : cut\<close>.\<close>

definition before_last_space :: "string \<Rightarrow> string" where
  "before_last_space s =
     (let w = rev (dropWhile (\<lambda>c. c \<noteq> CHR '' '') (rev s)) in if 1 < length w then butlast w else s)"

definition first_line :: "string \<Rightarrow> string option" where
  "first_line raw = List.find (\<lambda>l. 0 < length l) (map trim (split_char (CHR 0x0A) raw))"

definition cleanTitle :: "string \<Rightarrow> string option" where
  "cleanTitle raw =
     (case first_line raw of
        None \<Rightarrow> None
      | Some l \<Rightarrow>
          let stripped = trim (drop_end (\<lambda>c. c \<in> set ''.!'')
                (collapse_ws (strip_quotes (withoutTag (rx_replace LABEL_PATTERN [] l)))))
          in if stripped = [] then None
             else if MAX_TITLE_WORDS < length (split_char (CHR '' '') stripped) then None
             else if rx_test NOT_A_TITLE stripped then None
             else if length stripped \<le> MAX_NAME_CHARS then Some stripped
             else Some (trim (drop_last_mark (before_last_space (take MAX_NAME_CHARS stripped)))))"

section \<open>Tidying\<close>

definition FILLER :: "string list" where
  "FILLER =
     [''work'', ''works'', ''working'', ''fix'', ''fixes'', ''fixing'', ''issue'', ''issues'',
      ''task'', ''tasks'', ''testing'', ''tests'', ''test'', ''update'', ''updates'', ''updating'',
      ''change'', ''changes'', ''review'', ''reviewing'', ''improvement'', ''improvements'',
      ''refactor'', ''refactoring'', ''implementation'', ''implementing'', ''support'',
      ''session'', ''conversation'', ''debug'', ''debugging'', ''investigation'', ''stuff'']"

definition is_low_alnum :: "char \<Rightarrow> bool" where
  "is_low_alnum c = (is_lower c \<or> is_digit c)"

definition bare :: "string \<Rightarrow> string" where
  "bare w = filter is_low_alnum (to_lower w)"

definition stem :: "string \<Rightarrow> string" where
  "stem w = take 5 (bare w)"

definition case_word :: "bool \<Rightarrow> string \<Rightarrow> string" where
  "case_word first w =
     (if w = to_upper w then w
      else let l = to_lower w in if first then to_upper (take 1 l) @ drop 1 l else l)"

fun case_words :: "bool \<Rightarrow> string list \<Rightarrow> string list" where
  "case_words first [] = []"
| "case_words first (w # ws) = case_word first w # case_words False ws"

definition sentenceCase :: "string list \<Rightarrow> string option" where
  "sentenceCase ws = (if ws = [] then None else Some (join '' '' (case_words True ws)))"

definition project_stems :: "string \<Rightarrow> string list" where
  "project_stems project =
     map stem (filter (\<lambda>w. 2 < length w) (split_runs (\<lambda>c. \<not> is_lower c) (to_lower project)))"

definition not_project :: "string \<Rightarrow> string \<Rightarrow> bool" where
  "not_project project w = (stem w \<notin> set (project_stems project))"

definition telling :: "string \<Rightarrow> string \<Rightarrow> bool" where
  "telling project w = (bare w \<noteq> [] \<and> bare w \<notin> set FILLER \<and> not_project project w)"

text \<open>\<open>name.replace(/[_]+/g, ' ').split(/\s+/).filter(Boolean)\<close>.\<close>

definition name_words :: "string \<Rightarrow> string list" where
  "name_words name =
     filter (\<lambda>w. w \<noteq> []) (split_runs (\<lambda>c. is_space c \<or> c = CHR ''_'') name)"

definition tidyName :: "string \<Rightarrow> string \<Rightarrow> string option" where
  "tidyName name project =
     (let ws = name_words name; kept = filter (telling project) ws
      in if kept = [] then None
         else if length kept < 2 \<and> 2 \<le> length ws
              then sentenceCase (filter (not_project project) ws)
         else sentenceCase kept)"

text \<open>
  The tail of \<open>generateTitle\<close>: what the namer's \<open>result\<close> message becomes. \<open>None\<close> for the
  message stands for a query that threw or ended without one.
\<close>

definition titleOfResult :: "jsval option \<Rightarrow> string \<Rightarrow> string option" where
  "titleOfResult message project =
     (case message of
        None \<Rightarrow> None
      | Some m \<Rightarrow>
          if js_truthy (js_prop m ''is_error'') \<or> js_prop m ''subtype'' \<noteq> JStr ''success'' then None
          else case cleanTitle (case js_prop m ''result'' of JStr s \<Rightarrow> s | _ \<Rightarrow> []) of
                 None \<Rightarrow> None
               | Some cleaned \<Rightarrow> tidyName cleaned project)"

section \<open>Renaming\<close>

text \<open>The lower-case tag \<open>isMaterialChange\<close> strips: at most three characters, once.\<close>

definition strip_low_tag :: "string \<Rightarrow> string" where
  "strip_low_tag s =
     (let t = takeWhile is_low_alnum s in
      case dropWhile is_low_alnum s of
        [] \<Rightarrow> s
      | c # r \<Rightarrow> if c = CHR ''|'' \<and> 1 \<le> length t \<and> length t \<le> 3 then r else s)"

definition significant :: "string \<Rightarrow> string list" where
  "significant t =
     remdups (map stem (filter (\<lambda>w. 3 < length w)
       (split_runs (\<lambda>c. \<not> is_low_alnum c) (strip_low_tag (to_lower t)))))"

definition isMaterialChange :: "string \<Rightarrow> string \<Rightarrow> bool" where
  "isMaterialChange current next =
     (let before = significant current; after = significant next;
          shared = length (filter (\<lambda>w. w \<in> set before) after)
      in if after = [] then False else shared * 2 < length after)"

record rename_memory =
  rm_current :: string
  rm_past :: "string list"
  rm_pending :: "string option"
  rm_firstNaming :: bool

datatype rename_reason = Reason_first | Reason_confirmed | Reason_same | Reason_returns | Reason_unconfirmed

record rename_decision =
  rd_rename :: bool
  rd_pending :: "string option"
  rd_reason :: rename_reason

definition decideRename :: "rename_memory \<Rightarrow> string \<Rightarrow> rename_decision" where
  "decideRename m proposed =
     (if proposed = rm_current m \<or> \<not> isMaterialChange (rm_current m) proposed
      then \<lparr>rd_rename = False, rd_pending = None, rd_reason = Reason_same\<rparr>
      else if rm_firstNaming m
      then \<lparr>rd_rename = True, rd_pending = None, rd_reason = Reason_first\<rparr>
      else if list_ex (\<lambda>earlier. \<not> isMaterialChange earlier proposed) (rm_past m)
      then \<lparr>rd_rename = False, rd_pending = None, rd_reason = Reason_returns\<rparr>
      else if (case rm_pending m of
                 None \<Rightarrow> False
               | Some p \<Rightarrow> p \<noteq> [] \<and> \<not> isMaterialChange p proposed)
      then \<lparr>rd_rename = True, rd_pending = None, rd_reason = Reason_confirmed\<rparr>
      else \<lparr>rd_rename = False, rd_pending = Some proposed, rd_reason = Reason_unconfirmed\<rparr>)"

definition rememberTitle :: "string list \<Rightarrow> string \<Rightarrow> string list" where
  "rememberTitle past title =
     take_last MAX_PAST_TITLES (filter (\<lambda>earlier. isMaterialChange earlier title) past @ [title])"

section \<open>Lengths\<close>

lemma length_drop_end: "length (drop_end p s) \<le> length s"
  by (metis drop_end_def length_dropWhile_le length_rev)

lemma length_drop_last_mark: "length (drop_last_mark s) \<le> length s"
  by (simp add: drop_last_mark_def)

lemma length_before_last_space: "length (before_last_space s) \<le> length s"
proof -
  have "length (dropWhile (\<lambda>c. c \<noteq> CHR '' '') (rev s)) \<le> length s"
    using length_dropWhile_le [of _ "rev s"] by simp
  then show ?thesis by (auto simp: before_last_space_def Let_def)
qed

lemma cleanTitle_length:
  assumes "cleanTitle raw = Some t"
  shows "length t \<le> MAX_NAME_CHARS"
proof -
  have cut: "length (trim (drop_last_mark (before_last_space (take MAX_NAME_CHARS s)))) \<le> MAX_NAME_CHARS" for s
    using length_trim [of "drop_last_mark (before_last_space (take MAX_NAME_CHARS s))"]
      length_drop_last_mark [of "before_last_space (take MAX_NAME_CHARS s)"]
      length_before_last_space [of "take MAX_NAME_CHARS s"] by simp
  show ?thesis using assms cut by (auto simp: cleanTitle_def Let_def split: option.splits if_splits)
qed

text \<open>The room a list of words takes on one line, counting the spaces between them.\<close>

definition room :: "string list \<Rightarrow> nat" where
  "room ws = sum_list (map (\<lambda>w. if w = [] then 0 else Suc (length w)) ws)"

lemma room_simps [simp]:
  "room [] = 0" "room (w # ws) = (if w = [] then 0 else Suc (length w)) + room ws"
  by (simp_all add: room_def)

lemma room_filter: "room (filter P ws) \<le> room ws"
  by (induction ws) auto

lemma room_split_runs: "room (split_runs p s) \<le> Suc (length s)"
proof (induction p s rule: split_runs.induct)
  case (1 p s)
  show ?case
  proof (cases "dropWhile (\<lambda>c. \<not> p c) s")
    case Nil
    then have "split_runs p s = [s]" by (subst split_runs.simps) (simp only: list.case)
    then show ?thesis by simp
  next
    case (Cons c cs)
    have "s = takeWhile (\<lambda>c. \<not> p c) s @ c # cs" using Cons by (metis takeWhile_dropWhile_id)
    then have "length s = length (takeWhile (\<lambda>c. \<not> p c) s) + Suc (length cs)"
      by (metis length_Cons length_append)
    moreover have "room (split_runs p (dropWhile p cs)) \<le> Suc (length cs)"
      using 1 [OF Cons] length_dropWhile_le [of p cs] by simp
    ultimately show ?thesis using Cons by (simp add: split_runs.simps [of p s])
  qed
qed

lemma length_join_room: "[] \<notin> set ws \<Longrightarrow> length (join '' '' ws) = room ws - 1"
  by (induction "'' ''" ws rule: join.induct) auto

lemma length_to_upper1: "length (to_upper (take 1 l)) \<le> Suc (length (take 1 l))"
  by (cases l) (auto simp: to_upper_def)

lemma case_word_length:
  "length (case_word False w) = length w" "length (case_word True w) \<le> Suc (length w)"
proof -
  show "length (case_word False w) = length w" by (simp add: case_word_def)
  have "length (to_upper (take 1 (to_lower w)) @ drop 1 (to_lower w)) \<le> Suc (length w)"
    using length_to_upper1 [of "to_lower w"] by (cases "to_lower w = []") (auto simp: Let_def)
  then show "length (case_word True w) \<le> Suc (length w)" by (simp add: case_word_def Let_def)
qed

lemma case_word_empty: "case_word b w = [] \<longleftrightarrow> w = []"
proof -
  have "to_upper [c] \<noteq> []" for c by (simp add: to_upper_def)
  then show ?thesis
    by (cases w) (auto simp: case_word_def Let_def to_lower_def to_upper_def)
qed

lemma room_case_words_False: "room (case_words False ws) = room ws"
  by (induction ws) (auto simp: case_word_length(1) case_word_empty)

lemma room_case_words_True: "room (case_words True ws) \<le> Suc (room ws)"
  by (cases ws) (auto simp: room_case_words_False case_word_empty intro: le_trans [OF case_word_length(2)])

lemma case_words_not_empty: "[] \<notin> set ws \<Longrightarrow> [] \<notin> set (case_words b ws)"
proof (induction ws arbitrary: b)
  case (Cons w ws)
  then show ?case using case_word_empty [of b w] by auto
qed simp

lemma sentenceCase_length:
  assumes "sentenceCase ws = Some t" and "[] \<notin> set ws"
  shows "length t \<le> room ws"
  using assms room_case_words_True [of ws] case_words_not_empty [OF assms(2), of True]
  by (auto simp: sentenceCase_def length_join_room split: if_splits)

lemma tidyName_length:
  assumes "tidyName name project = Some t"
  shows "length t \<le> Suc (length name)"
proof -
  let ?ws = "name_words name"
  have ne: "[] \<notin> set ?ws" by (simp add: name_words_def)
  have ws: "room (filter P ?ws) \<le> Suc (length name)" for P
    using order_trans [OF room_filter [of P] order_trans [OF room_filter room_split_runs]]
    by (simp_all add: name_words_def)
  show ?thesis
    using assms ws ne by (auto simp: tidyName_def Let_def split: if_splits
        dest!: sentenceCase_length intro: le_trans)
qed

lemma titleOfResult_length:
  assumes "titleOfResult message project = Some t"
  shows "length t \<le> Suc MAX_NAME_CHARS"
proof -
  from assms obtain raw c where "cleanTitle raw = Some c" "tidyName c project = Some t"
    by (auto simp: titleOfResult_def split: option.splits if_splits)
  with cleanTitle_length tidyName_length show ?thesis by fastforce
qed

section \<open>One tag\<close>

lemma strip_tags_tag:
  assumes "list_all is_alnum t" and "1 \<le> length t" and "length t \<le> 4"
  shows "strip_tags (t @ ''|'' @ r) = strip_tags (dropWhile is_space r)"
proof -
  have bar: "\<not> is_alnum (CHR ''|'')"
    by (simp add: is_alnum_def is_alpha_def is_lower_def is_upper_def is_digit_def)
  have "takeWhile is_alnum (t @ ''|'' @ r) = t" "dropWhile is_alnum (t @ ''|'' @ r) = CHR ''|'' # r"
    using assms(1) bar by (auto simp: takeWhile_append2 dropWhile_append2 list_all_iff)
  then show ?thesis using assms(2,3) by (simp add: strip_tags.simps [of "t @ _"] Let_def)
qed

lemma alnum_not_space: "is_alnum c \<Longrightarrow> \<not> is_space c"
  by (auto simp: is_alnum_def is_alpha_def is_lower_def is_upper_def is_digit_def is_space_def Let_def)

lemma withoutTag_compose:
  assumes "list_all is_alnum tag" and "length tag \<le> 4"
  shows "withoutTag (composeTitle tag name) = withoutTag name"
proof (cases tag)
  case Nil
  then show ?thesis by (simp add: composeTitle_def)
next
  case (Cons c cs)
  then have "\<not> is_space c" using assms(1) by (simp add: alnum_not_space)
  then have "trim_start (tag @ ''|'' @ name) = tag @ ''|'' @ name"
    using Cons by (simp add: trim_start_def)
  then show ?thesis
    using assms Cons strip_tags_tag [OF assms(1), of name]
    by (simp add: withoutTag_def composeTitle_def trim_start_def)
qed

lemma alnum_lower: "list_all is_alnum w \<Longrightarrow> list_all is_alnum (to_lower w)"
  by (auto simp: to_lower_def list_all_iff is_alnum_def is_alpha_def is_lower_def is_upper_def
      is_digit_def lower_char_def Let_def)

lemma projectTag_alnum: "list_all is_alnum (projectTag cwd)"
proof -
  define clean where "clean = filter is_alnum (path_basename cwd)"
  define source where
    "source = (if 2 \<le> length (filter is_alpha clean) then filter is_alpha clean else clean)"
  have src: "list_all is_alnum source" by (auto simp: source_def clean_def list_all_iff)
  show ?thesis
  proof (cases source)
    case Nil
    then show ?thesis
      unfolding projectTag_def Let_def clean_def [symmetric] source_def [symmetric] by simp
  next
    case (Cons first rest)
    define tag where "tag = (if 3 \<le> length (first # filter (\<lambda>c. \<not> is_vowel c) rest)
        then first # filter (\<lambda>c. \<not> is_vowel c) rest else source)"
    have "projectTag cwd = to_lower (take 3 tag)"
      using Cons unfolding projectTag_def Let_def clean_def [symmetric] source_def [symmetric] tag_def
      by simp
    moreover have "list_all is_alnum (take 3 tag)"
      using src Cons by (auto simp: tag_def list_all_iff dest: in_set_takeD)
    ultimately show ?thesis by (simp add: alnum_lower)
  qed
qed

lemma projectTag_length: "length (projectTag cwd) \<le> 3"
  by (simp add: projectTag_def Let_def split: list.split)

text \<open>A stripped title has no tag left.\<close>

definition tag_before :: "string \<Rightarrow> string \<Rightarrow> bool" where
  "tag_before s r =
     (dropWhile is_alnum s = CHR ''|'' # r \<and> 1 \<le> length (takeWhile is_alnum s)
      \<and> length (takeWhile is_alnum s) \<le> 4)"

lemma strip_tags_step: "tag_before s r \<Longrightarrow> strip_tags s = strip_tags (dropWhile is_space r)"
  by (simp add: strip_tags.simps [of s] tag_before_def Let_def)

lemma strip_tags_stop: "(\<And>r. \<not> tag_before s r) \<Longrightarrow> strip_tags s = s"
  by (auto simp: strip_tags.simps [of s] tag_before_def Let_def split: list.split)

lemma tag_before_shorter: "tag_before s r \<Longrightarrow> length (dropWhile is_space r) < length s"
  unfolding tag_before_def by (blast intro: dropWhile_Cons_shorter)

lemma strip_tags_rule:
  assumes "\<And>s r. tag_before s r \<Longrightarrow> P (dropWhile is_space r) \<Longrightarrow> P s"
    and "\<And>s. (\<And>r. \<not> tag_before s r) \<Longrightarrow> P s"
  shows "P s"
proof (induction s rule: length_induct)
  case (1 s)
  show ?case
  proof (cases "\<exists>r. tag_before s r")
    case True
    then obtain r where r: "tag_before s r" by blast
    with 1 tag_before_shorter have "P (dropWhile is_space r)" by blast
    with r show ?thesis by (rule assms(1))
  next
    case False
    then show ?thesis using assms(2) by blast
  qed
qed

lemma strip_tags_head:
  "s = [] \<or> \<not> is_space (hd s) \<Longrightarrow> strip_tags s = [] \<or> \<not> is_space (hd (strip_tags s))"
proof (induction s rule: strip_tags_rule)
  case (1 s r)
  have "dropWhile is_space r = [] \<or> \<not> is_space (hd (dropWhile is_space r))"
    using hd_dropWhile [of is_space r] by blast
  with 1 show ?case by (simp add: strip_tags_step)
qed (simp add: strip_tags_stop)

lemma strip_tags_tagless: "\<not> tag_before (strip_tags s) r"
  by (induction s rule: strip_tags_rule) (simp_all add: strip_tags_step strip_tags_stop)

lemma tag_before_extend: "tag_before p r \<Longrightarrow> tag_before (p @ q) (r @ q)"
proof -
  assume t: "tag_before p r"
  then have "CHR ''|'' \<in> set p"
    unfolding tag_before_def by (metis list.set_intros(1) set_dropWhileD)
  moreover have "\<not> is_alnum (CHR ''|'')"
    by (simp add: is_alnum_def is_alpha_def is_lower_def is_upper_def is_digit_def)
  ultimately have "takeWhile is_alnum (p @ q) = takeWhile is_alnum p"
    "dropWhile is_alnum (p @ q) = dropWhile is_alnum p @ q"
    by (simp_all add: takeWhile_append1 dropWhile_append1)
  with t show ?thesis by (simp add: tag_before_def)
qed

lemma trim_end_prefix: "\<exists>q. s = trim_end s @ q"
proof -
  have "rev s = takeWhile is_space (rev s) @ dropWhile is_space (rev s)" by simp
  then have "s = rev (dropWhile is_space (rev s)) @ rev (takeWhile is_space (rev s))"
    by (metis rev_append rev_rev_ident)
  then show ?thesis unfolding trim_end_def by blast
qed

lemma trim_start_id: "s = [] \<or> \<not> is_space (hd s) \<Longrightarrow> trim_start s = s"
  by (cases s) (auto simp: trim_start_def)

lemma trim_start_head: "trim_start s = [] \<or> \<not> is_space (hd (trim_start s))"
  using hd_dropWhile [of is_space s] by (auto simp: trim_start_def)

lemma trim_end_idem [simp]: "trim_end (trim_end s) = trim_end s"
  by (simp add: trim_end_def)

lemma trim_end_head:
  "s = [] \<or> \<not> is_space (hd s) \<Longrightarrow> trim_end s = [] \<or> \<not> is_space (hd (trim_end s))"
proof (cases "trim_end s")
  case (Cons c cs)
  obtain q where "s = trim_end s @ q" using trim_end_prefix by blast
  then have "s = c # cs @ q" using Cons by simp
  moreover assume "s = [] \<or> \<not> is_space (hd s)"
  ultimately show ?thesis using Cons by simp
qed simp

lemma trim_headed: "s = [] \<or> \<not> is_space (hd s) \<Longrightarrow> trim s = trim_end s"
  by (simp add: trim_def trim_start_id)

lemma withoutTag_idem: "withoutTag (withoutTag t) = withoutTag t"
proof -
  define u where "u = strip_tags (trim_start t)"
  have hd: "u = [] \<or> \<not> is_space (hd u)"
    unfolding u_def using trim_start_head by (rule strip_tags_head)
  define v where "v = trim_end u"
  have w: "withoutTag t = v" by (simp add: withoutTag_def u_def [symmetric] v_def trim_headed [OF hd])
  have hd': "v = [] \<or> \<not> is_space (hd v)" unfolding v_def using hd by (rule trim_end_head)
  obtain q where q: "u = v @ q" unfolding v_def using trim_end_prefix by blast
  have "\<not> tag_before v r" for r
    using strip_tags_tagless [of "trim_start t" "r @ q"] tag_before_extend [of v r q] q u_def by auto
  then have strip: "strip_tags v = v" by (rule strip_tags_stop)
  have "withoutTag v = trim_end v"
    unfolding withoutTag_def trim_start_id [OF hd'] strip trim_headed [OF hd'] ..
  then show ?thesis unfolding w by (simp add: v_def)
qed

section \<open>Stability of names\<close>

lemma not_material_self: "\<not> isMaterialChange t t"
proof -
  have "filter (\<lambda>w. w \<in> set (significant t)) (significant t) = significant t" by (simp add: filter_id_conv)
  then show ?thesis by (simp add: isMaterialChange_def Let_def)
qed

lemma decide_rename_cases:
  assumes "rd_rename (decideRename m p)"
  shows "isMaterialChange (rm_current m) p"
    and "\<not> rm_firstNaming m \<Longrightarrow> e \<in> set (rm_past m) \<Longrightarrow> isMaterialChange e p"
    and "\<not> rm_firstNaming m \<Longrightarrow> \<exists>q. rm_pending m = Some q \<and> \<not> isMaterialChange q p"
  using assms by (auto simp: decideRename_def list_ex_iff split: if_splits option.splits)

lemma worn_never_returns:
  assumes "\<not> rm_firstNaming m" and "p \<in> set (rm_past m) \<or> p = rm_current m"
  shows "\<not> rd_rename (decideRename m p)"
  using assms decide_rename_cases(1,2) [of m p] not_material_self [of p] by metis

lemma decide_pending: "\<not> rd_rename (decideRename m p) \<Longrightarrow>
    rd_pending (decideRename m p) = None \<or> rd_pending (decideRename m p) = Some p"
  by (simp add: decideRename_def)

lemma rememberTitle_length: "length (rememberTitle past t) \<le> MAX_PAST_TITLES"
  by (simp add: rememberTitle_def)

lemma rememberTitle_last: "t \<in> set (rememberTitle past t)"
  by (auto simp: rememberTitle_def take_last_def MAX_PAST_TITLES_def)

lemma rememberTitle_subset: "set (rememberTitle past t) \<subseteq> insert t (set past)"
  using set_take_last [of MAX_PAST_TITLES "filter (\<lambda>e. isMaterialChange e t) past @ [t]"]
  by (auto simp: rememberTitle_def)

text \<open>Within its budget the memory forgets only names the new one stands for.\<close>

lemma rememberTitle_keeps:
  assumes "e \<in> set past" and "isMaterialChange e t" and "length past < MAX_PAST_TITLES"
  shows "e \<in> set (rememberTitle past t)"
proof -
  have "length (filter (\<lambda>e. isMaterialChange e t) past @ [t]) \<le> MAX_PAST_TITLES"
    using assms(3) length_filter_le [of "\<lambda>e. isMaterialChange e t" past]
    by (simp del: length_filter_le)
  then show ?thesis using assms by (simp add: rememberTitle_def take_last_all)
qed

end
