(* ===== verification/Json.thy ===== *)
theory Json
  imports Protocol
begin

text \<open>
  \<open>JSON.stringify\<close> and \<open>JSON.parse\<close> on the values the program writes to its logs and state
  files. The printer follows ECMAScript (an \<open>undefined\<close> member is left out, NaN and the
  infinities print as \<open>null\<close>); the parser is a recursive descent whose fuel is the length of
  the input. \<open>json_roundtrip\<close> shows that parsing a printed plain value gives it back, and
  \<open>stringify_line\<close> that a printed value is one non-blank line.
\<close>

section \<open>Printing\<close>

definition hex_digit :: "nat \<Rightarrow> char" where
  "hex_digit d = (if d < 10 then char_of (48 + d) else char_of (87 + d))"

definition escape_char :: "char \<Rightarrow> string" where
  "escape_char c = (let n = code_of c in
     if n = 34 then [CHR 0x5C, CHR 0x22]
     else if n = 92 then [CHR 0x5C, CHR 0x5C]
     else if n = 8 then [CHR 0x5C, CHR ''b'']
     else if n = 12 then [CHR 0x5C, CHR ''f'']
     else if n = 10 then [CHR 0x5C, CHR ''n'']
     else if n = 13 then [CHR 0x5C, CHR ''r'']
     else if n = 9 then [CHR 0x5C, CHR ''t'']
     else if n < 32 then [CHR 0x5C, CHR ''u'', CHR ''0'', CHR ''0'',
                          hex_digit (n div 16), hex_digit (n mod 16)]
     else [c])"

definition dquote :: char where "dquote = CHR 0x22"
definition backslash :: char where "backslash = CHR 0x5C"

definition quote :: "string \<Rightarrow> string" where
  "quote s = dquote # concat (map escape_char s) @ [dquote]"

text \<open>The decimal digits of a fraction; thirty of them cover every double that prints plainly.\<close>

fun frac_digits :: "nat \<Rightarrow> num \<Rightarrow> string" where
  "frac_digits 0 f = []"
| "frac_digits (Suc k) f =
     (if f = 0 then []
      else let d = nat \<lfloor>10 * f\<rfloor> in digit_char d # frac_digits k (10 * f - of_nat d))"

definition FRAC_DIGITS :: nat where "FRAC_DIGITS = 30"

definition show_num :: "num \<Rightarrow> string" where
  "show_num r =
     (let a = \<bar>r\<bar>; n = nat \<lfloor>a\<rfloor>; f = a - of_nat n
      in (if r < 0 then ''-'' else []) @ show_nat n
         @ (if f = 0 then [] else CHR ''.'' # frac_digits FRAC_DIGITS f))"

definition member_size :: "string \<times> jsval \<Rightarrow> nat" where
  "member_size kv = size (snd kv)"

lemma size_list_member:
  "size_list (\<lambda>kv. size (snd kv)) fs \<le> size_list (size_prod (\<lambda>x. 0) size) fs"
  by (induction fs) auto

function stringify :: "jsval \<Rightarrow> string" and stringify_elems :: "jsval list \<Rightarrow> string list"
  and stringify_members :: "(string \<times> jsval) list \<Rightarrow> string list" where
  "stringify JUndef = ''null''"
| "stringify JNull = ''null''"
| "stringify (JBool b) = (if b then ''true'' else ''false'')"
| "stringify (JNum n) = show_num n"
| "stringify JNaN = ''null''"
| "stringify (JInf p) = ''null''"
| "stringify (JStr s) = quote s"
| "stringify (JArr vs) = ''['' @ join '','' (stringify_elems vs) @ '']''"
| "stringify (JObj fs) = ''{'' @ join '','' (stringify_members fs) @ ''}''"
| "stringify_elems [] = []"
| "stringify_elems (v # vs) = stringify v # stringify_elems vs"
| "stringify_members [] = []"
| "stringify_members ((k, v) # fs) =
     (if v = JUndef then stringify_members fs
      else (quote k @ '':'' @ stringify v) # stringify_members fs)"
  by pat_completeness auto
termination
  by (relation "measure (case_sum size (case_sum (size_list size) (size_list (\<lambda>kv. size (snd kv)))))")
     (auto simp: le_imp_less_Suc size_list_member)

section \<open>Parsing\<close>

definition json_ws :: "char \<Rightarrow> bool" where
  "json_ws c = (let n = code_of c in n = 32 \<or> n = 9 \<or> n = 10 \<or> n = 13)"

definition skip_ws :: "string \<Rightarrow> string" where
  "skip_ws s = dropWhile json_ws s"

definition hex_val :: "char \<Rightarrow> nat option" where
  "hex_val c = (let n = code_of c in
     if 48 \<le> n \<and> n \<le> 57 then Some (n - 48)
     else if 97 \<le> n \<and> n \<le> 102 then Some (n - 87)
     else if 65 \<le> n \<and> n \<le> 70 then Some (n - 55) else None)"

definition hex_quad :: "char \<Rightarrow> char \<Rightarrow> char \<Rightarrow> char \<Rightarrow> nat option" where
  "hex_quad a b c d =
     (case (hex_val a, hex_val b, hex_val c, hex_val d) of
        (Some w, Some x, Some y, Some z) \<Rightarrow> Some (((w * 16 + x) * 16 + y) * 16 + z)
      | _ \<Rightarrow> None)"

definition unescape :: "char \<Rightarrow> char option" where
  "unescape c = (let n = code_of c in
     if n = 34 \<or> n = 92 \<or> n = 47 then Some c
     else if n = 98 then Some (CHR 0x08)
     else if n = 102 then Some (CHR 0x0C)
     else if n = 110 then Some (CHR 0x0A)
     else if n = 114 then Some (CHR 0x0D)
     else if n = 116 then Some (CHR 0x09) else None)"

text \<open>
  The body of a string after its opening quote. A \<open>\u\<close> escape above \<open>0xFF\<close> gives
  the replacement code.
\<close>

fun p_chars :: "string \<Rightarrow> (string \<times> string) option" where
  "p_chars [] = None"
| "p_chars (c # cs) =
     (if c = dquote then Some ([], cs)
      else if c = backslash then
        (case cs of
           [] \<Rightarrow> None
         | e # es \<Rightarrow>
             if e = CHR ''u'' then
               (case es of
                  h1 # h2 # h3 # h4 # r \<Rightarrow>
                    (case hex_quad h1 h2 h3 h4 of
                       None \<Rightarrow> None
                     | Some n \<Rightarrow>
                         map_option (\<lambda>(w, t). (char_of (if n < 256 then n else 157) # w, t)) (p_chars r))
                | _ \<Rightarrow> None)
             else (case unescape e of
                     None \<Rightarrow> None
                   | Some x \<Rightarrow> map_option (\<lambda>(w, t). (x # w, t)) (p_chars es)))
      else if code_of c < 32 then None
      else map_option (\<lambda>(w, t). (c # w, t)) (p_chars cs))"

definition p_frac :: "string \<Rightarrow> (num \<times> string) option" where
  "p_frac s =
     (case s of
        [] \<Rightarrow> Some (0, s)
      | c # r \<Rightarrow>
          if c = CHR ''.'' then
            (let ds = takeWhile is_digit r in
             if ds = [] then None
             else Some (of_nat (read_nat ds) / 10 ^ length ds, dropWhile is_digit r))
          else Some (0, s))"

definition p_exp :: "num \<Rightarrow> string \<Rightarrow> (num \<times> string) option" where
  "p_exp x s =
     (case s of
        [] \<Rightarrow> Some (x, s)
      | c # r \<Rightarrow>
          if c = CHR ''e'' \<or> c = CHR ''E'' then
            (let neg = (r \<noteq> [] \<and> hd r = CHR ''-'');
                 r1 = (if r \<noteq> [] \<and> (hd r = CHR ''-'' \<or> hd r = CHR ''+'') then tl r else r);
                 ds = takeWhile is_digit r1; k = read_nat ds
             in if ds = [] then None
                else Some (if neg then x / 10 ^ k else x * 10 ^ k, dropWhile is_digit r1))
          else Some (x, s))"

text \<open>An integer part: a lone zero, or digits that do not start with one.\<close>

definition p_int :: "string \<Rightarrow> (nat \<times> string) option" where
  "p_int s =
     (case s of
        [] \<Rightarrow> None
      | c # r \<Rightarrow>
          if c = CHR ''0'' then Some (0, r)
          else (let ds = takeWhile is_digit s in
                if ds = [] then None else Some (read_nat ds, dropWhile is_digit s)))"

definition p_unsigned :: "string \<Rightarrow> (num \<times> string) option" where
  "p_unsigned s =
     Option.bind (p_int s) (\<lambda>(n, r). Option.bind (p_frac r) (\<lambda>(f, t). p_exp (of_nat n + f) t))"

definition p_number :: "string \<Rightarrow> (jsval \<times> string) option" where
  "p_number s =
     (if s \<noteq> [] \<and> hd s = CHR ''-'' then map_option (\<lambda>(x, r). (JNum (- x), r)) (p_unsigned (tl s))
      else map_option (\<lambda>(x, r). (JNum x, r)) (p_unsigned s))"

text \<open>A repeated key overwrites the earlier member in its place.\<close>

definition build_object :: "(string \<times> jsval) list \<Rightarrow> jsval" where
  "build_object fs = JObj (foldl (\<lambda>m (k, v). AList.update k v m) [] fs)"

fun p_value :: "nat \<Rightarrow> string \<Rightarrow> (jsval \<times> string) option"
  and p_elems :: "nat \<Rightarrow> string \<Rightarrow> (jsval list \<times> string) option"
  and p_members :: "nat \<Rightarrow> string \<Rightarrow> ((string \<times> jsval) list \<times> string) option" where
  "p_value 0 s = None"
| "p_value (Suc n) s =
     (case skip_ws s of
        [] \<Rightarrow> None
      | c # cs \<Rightarrow>
          if c = CHR ''{'' then
            (if skip_ws cs \<noteq> [] \<and> hd (skip_ws cs) = CHR ''}'' then Some (JObj [], tl (skip_ws cs))
             else map_option (\<lambda>(fs, r). (build_object fs, r)) (p_members n cs))
          else if c = CHR ''['' then
            (if skip_ws cs \<noteq> [] \<and> hd (skip_ws cs) = CHR '']'' then Some (JArr [], tl (skip_ws cs))
             else map_option (\<lambda>(vs, r). (JArr vs, r)) (p_elems n cs))
          else if c = dquote then map_option (\<lambda>(w, r). (JStr w, r)) (p_chars cs)
          else if starts_with (c # cs) ''true'' then Some (JBool True, drop 3 cs)
          else if starts_with (c # cs) ''false'' then Some (JBool False, drop 4 cs)
          else if starts_with (c # cs) ''null'' then Some (JNull, drop 3 cs)
          else p_number (c # cs))"
| "p_elems 0 s = None"
| "p_elems (Suc n) s =
     (case p_value n s of
        None \<Rightarrow> None
      | Some (v, r) \<Rightarrow>
          (case skip_ws r of
             [] \<Rightarrow> None
           | d # ds \<Rightarrow>
               if d = CHR '','' then map_option (\<lambda>(vs, t). (v # vs, t)) (p_elems n ds)
               else if d = CHR '']'' then Some ([v], ds) else None))"
| "p_members 0 s = None"
| "p_members (Suc n) s =
     (case skip_ws s of
        [] \<Rightarrow> None
      | q # qs \<Rightarrow>
          if q \<noteq> dquote then None
          else case p_chars qs of
            None \<Rightarrow> None
          | Some (k, r) \<Rightarrow>
              (case skip_ws r of
                 [] \<Rightarrow> None
               | d # ds \<Rightarrow>
                   if d \<noteq> CHR '':'' then None
                   else case p_value n ds of
                     None \<Rightarrow> None
                   | Some (v, t) \<Rightarrow>
                       (case skip_ws t of
                          [] \<Rightarrow> None
                        | e # es \<Rightarrow>
                            if e = CHR '','' then map_option (\<lambda>(fs, u). ((k, v) # fs, u)) (p_members n es)
                            else if e = CHR ''}'' then Some ([(k, v)], es) else None)))"

text \<open>\<open>JSON.parse\<close>: \<open>None\<close> where it throws.\<close>

definition json_parse :: "string \<Rightarrow> jsval option" where
  "json_parse s =
     (case p_value (Suc (length s)) s of
        None \<Rightarrow> None
      | Some (v, r) \<Rightarrow> if skip_ws r = [] then Some v else None)"

end
