(* ===== verification/LogStore.thy ===== *)
theory LogStore
  imports Protocol
begin

text \<open>
  On-disk storage of a transcript (\<open>daemon/src/logStore.ts\<close>): the archive generations beside
  the active file, the chunked line reader, the bounded tail with its count, and the range reader.
  A directory is an ordered map from file names to their bytes. The lemmas show that the reader
  does not depend on the chunk size, that the tail and the ranges are what the whole log says they
  are, and that rotation loses nothing and overwrites nothing.
\<close>

section \<open>Bytes and text\<close>

text \<open>
  UTF-8 for code units below 256. A byte sequence that is not valid decodes to the replacement
  character, given the otherwise unused code \<open>0x9D\<close>.
\<close>

definition utf8_char :: "char \<Rightarrow> string" where
  "utf8_char c = (let n = code_of c in
     if n < 128 then [c] else [char_of (192 + n div 64), char_of (128 + n mod 64)])"

definition utf8_encode :: "string \<Rightarrow> string" where
  "utf8_encode s = concat (map utf8_char s)"

definition replacement :: char where
  "replacement = CHR 0x9D"

fun utf8_decode :: "string \<Rightarrow> string" where
  "utf8_decode [] = []"
| "utf8_decode (a # bs) =
     (if code_of a < 128 then a # utf8_decode bs
      else case bs of
        [] \<Rightarrow> [replacement]
      | b # cs \<Rightarrow>
          if (code_of a = 194 \<or> code_of a = 195) \<and> 128 \<le> code_of b \<and> code_of b < 192
          then char_of ((code_of a - 192) * 64 + (code_of b - 128)) # utf8_decode cs
          else replacement # utf8_decode bs)"

definition newline :: char where
  "newline = CHR 0x0A"

section \<open>Files of a session\<close>

type_synonym log_dir = "(string \<times> string) list"

definition ROTATE_THRESHOLD :: nat where "ROTATE_THRESHOLD = 2000"

definition activeLogPath :: "string \<Rightarrow> string" where
  "activeLogPath sessionId = sessionId @ ''.jsonl''"

definition archiveLogPath :: "string \<Rightarrow> nat \<Rightarrow> string" where
  "archiveLogPath sessionId gen = sessionId @ ''.jsonl.'' @ show_nat gen"

text \<open>The match of \<open>^id\.jsonl\.(\d+)$\<close>.\<close>

definition archive_gen :: "string \<Rightarrow> string \<Rightarrow> nat option" where
  "archive_gen sessionId name =
     (let p = sessionId @ ''.jsonl.''; r = drop (length p) name in
      if starts_with name p \<and> r \<noteq> [] \<and> list_all is_digit r then Some (read_nat r) else None)"

definition listArchiveGenerations :: "string \<Rightarrow> log_dir \<Rightarrow> nat list" where
  "listArchiveGenerations sessionId dir =
     sort (List.map_filter (archive_gen sessionId) (map fst dir))"

definition allLogFiles :: "string \<Rightarrow> log_dir \<Rightarrow> string list" where
  "allLogFiles sessionId dir =
     map (archiveLogPath sessionId) (listArchiveGenerations sessionId dir) @ [activeLogPath sessionId]"

definition next_gen :: "string \<Rightarrow> log_dir \<Rightarrow> nat" where
  "next_gen sessionId dir =
     (let gens = listArchiveGenerations sessionId dir in if gens \<noteq> [] then last gens + 1 else 1)"

text \<open>\<open>fs.renameSync(a, b)\<close>: the entry takes the new name, replacing what was there.\<close>

definition rename_file :: "string \<Rightarrow> string \<Rightarrow> log_dir \<Rightarrow> log_dir" where
  "rename_file a b dir =
     (case map_of dir a of None \<Rightarrow> dir | Some c \<Rightarrow> AList.update b c (AList.delete a dir))"

text \<open>\<open>rename_ok\<close> is whether the file system let the rename happen.\<close>

definition rotateActiveLog :: "bool \<Rightarrow> string \<Rightarrow> log_dir \<Rightarrow> bool \<times> log_dir" where
  "rotateActiveLog rename_ok sessionId dir =
     (let active = activeLogPath sessionId in
      if map_of dir active = None then (False, dir)
      else if rename_ok
           then (True, rename_file active (archiveLogPath sessionId (next_gen sessionId dir)) dir)
           else (False, dir))"

section \<open>Reading lines\<close>

text \<open>
  The consumer of a line returns its next state and whether to go on. \<open>drain\<close> is the inner
  loop over the newlines already buffered, \<open>read_loop\<close> the outer loop over the chunks; both
  return whether reading was stopped early.
\<close>

function drain ::
    "('s \<Rightarrow> string \<Rightarrow> 's \<times> bool) \<Rightarrow> 's \<Rightarrow> string \<Rightarrow> 's \<times> string \<times> bool" where
  "drain f s carry =
     (if newline \<in> set carry then
        (let line = takeWhile (\<lambda>c. c \<noteq> newline) carry;
             rest = drop (Suc (length line)) carry;
             (s', go) = f s (utf8_decode line)
         in if go then drain f s' rest else (s', rest, True))
      else (s, carry, False))"
  by pat_completeness auto
termination
  by (relation "measure (\<lambda>(f, s, c). length c)") (auto simp: neq_Nil_conv dest: length_pos_if_in_set)

declare drain.simps [simp del]

function read_loop ::
    "nat \<Rightarrow> ('s \<Rightarrow> string \<Rightarrow> 's \<times> bool) \<Rightarrow> 's \<Rightarrow> string \<Rightarrow> string \<Rightarrow> 's \<times> string \<times> bool" where
  "read_loop n f s carry bytes =
     (if take n bytes = [] then (s, carry, False)
      else case drain f s (carry @ take n bytes) of
             (s', carry', stopped) \<Rightarrow>
               if stopped then (s', carry', True) else read_loop n f s' carry' (drop n bytes))"
  by pat_completeness auto
termination
  by (relation "measure (\<lambda>(n, f, s, c, b). length b)") (auto simp: neq_Nil_conv)

declare read_loop.simps [simp del]

definition readLinesSync ::
    "nat \<Rightarrow> ('s \<Rightarrow> string \<Rightarrow> 's \<times> bool) \<Rightarrow> 's \<Rightarrow> string option \<Rightarrow> 's" where
  "readLinesSync chunkBytes f s file =
     (case file of
        None \<Rightarrow> s
      | Some bytes \<Rightarrow>
          (case read_loop chunkBytes f s [] bytes of
             (s', carry, stopped) \<Rightarrow>
               if \<not> stopped \<and> carry \<noteq> [] \<and> trim (utf8_decode carry) \<noteq> []
               then fst (f s' (utf8_decode carry)) else s'))"

definition READ_CHUNK_BYTES :: nat where "READ_CHUNK_BYTES = 64 * 1024"

section \<open>Events\<close>

text \<open>
  \<open>parse\<close> stands for \<open>JSON.parse\<close>: \<open>None\<close> where it throws or yields a falsy value.
\<close>

definition parseLine :: "(string \<Rightarrow> 'e option) \<Rightarrow> string \<Rightarrow> 'e option" where
  "parseLine parse line = (if trim line = [] then None else parse line)"

record 'e tail_and_count =
  tc_tail :: "'e list"
  tc_count :: nat
  tc_perFile :: "nat list"

definition push_capped :: "nat \<Rightarrow> 'e list \<Rightarrow> 'e \<Rightarrow> 'e list" where
  "push_capped maxTail tail e =
     (let t = tail @ [e] in if maxTail < length t then tl t else t)"

definition tail_line ::
    "(string \<Rightarrow> 'e option) \<Rightarrow> nat \<Rightarrow> 'e list \<times> nat \<times> nat \<Rightarrow> string \<Rightarrow> ('e list \<times> nat \<times> nat) \<times> bool" where
  "tail_line parse maxTail st line =
     (case (st, parseLine parse line) of
        (_, None) \<Rightarrow> (st, True)
      | ((tail, count, fileCount), Some e) \<Rightarrow>
          ((push_capped maxTail tail e, Suc count, Suc fileCount), True))"

fun load_files ::
    "(string \<Rightarrow> 'e option) \<Rightarrow> nat \<Rightarrow> string option list \<Rightarrow> 'e tail_and_count \<Rightarrow> 'e tail_and_count" where
  "load_files parse maxTail [] acc = acc"
| "load_files parse maxTail (file # files) acc =
     (case readLinesSync READ_CHUNK_BYTES (tail_line parse maxTail) (tc_tail acc, tc_count acc, 0) file of
        (tail, count, fileCount) \<Rightarrow>
          load_files parse maxTail files
            \<lparr>tc_tail = tail, tc_count = count, tc_perFile = tc_perFile acc @ [fileCount]\<rparr>)"

definition loadTailAndCount ::
    "(string \<Rightarrow> 'e option) \<Rightarrow> log_dir \<Rightarrow> string list \<Rightarrow> nat \<Rightarrow> 'e tail_and_count" where
  "loadTailAndCount parse dir filePaths maxTail =
     load_files parse maxTail (map (map_of dir) filePaths)
       \<lparr>tc_tail = [], tc_count = 0, tc_perFile = []\<rparr>"

definition range_line ::
    "(string \<Rightarrow> 'e option) \<Rightarrow> nat \<Rightarrow> nat \<Rightarrow> 'e list \<times> nat \<Rightarrow> string \<Rightarrow> ('e list \<times> nat) \<times> bool" where
  "range_line parse start stop st line =
     (case (st, parseLine parse line) of
        (_, None) \<Rightarrow> (st, True)
      | ((out, idx), Some e) \<Rightarrow>
          ((if start \<le> idx then out @ [e] else out, Suc idx), \<not> stop \<le> Suc idx))"

fun range_files ::
    "(string \<Rightarrow> 'e option) \<Rightarrow> nat \<Rightarrow> nat \<Rightarrow> string option list \<Rightarrow> 'e list \<times> nat \<Rightarrow> 'e list \<times> nat" where
  "range_files parse start stop [] st = st"
| "range_files parse start stop (file # files) st =
     (if stop \<le> snd st then st
      else range_files parse start stop files
             (readLinesSync READ_CHUNK_BYTES (range_line parse start stop) st file))"

definition readRange ::
    "(string \<Rightarrow> 'e option) \<Rightarrow> log_dir \<Rightarrow> string list \<Rightarrow> nat \<Rightarrow> nat \<Rightarrow> 'e list" where
  "readRange parse dir filePaths start stop =
     fst (range_files parse start stop (map (map_of dir) filePaths) ([], 0))"

section \<open>The reader delivers the lines of the file, whatever the chunk size\<close>

text \<open>The reference reading: split at newlines; what follows the last newline counts unless blank.\<close>

definition file_lines :: "string \<Rightarrow> string list" where
  "file_lines bytes =
     (let parts = split_char newline bytes; r = utf8_decode (last parts)
      in map utf8_decode (butlast parts) @ (if trim r \<noteq> [] then [r] else []))"

fun fold_until :: "('s \<Rightarrow> 'l \<Rightarrow> 's \<times> bool) \<Rightarrow> 's \<Rightarrow> 'l list \<Rightarrow> 's \<times> bool" where
  "fold_until f s [] = (s, False)"
| "fold_until f s (l # ls) = (case f s l of (s', go) \<Rightarrow> if go then fold_until f s' ls else (s', True))"

lemma fold_until_append:
  "fold_until f s (xs @ ys) =
     (case fold_until f s xs of (s', stopped) \<Rightarrow> if stopped then (s', True) else fold_until f s' ys)"
  by (induction xs arbitrary: s) (auto split: prod.splits)

lemma split_char_append:
  "split_char c (a @ b) = butlast (split_char c a) @ split_char c (last (split_char c a) @ b)"
proof (induction a)
  case (Cons x xs)
  obtain w ws where w: "split_char c xs = w # ws"
    using split_char_not_Nil by (cases "split_char c xs") auto
  obtain v vs where v: "split_char c (last (w # ws) @ b) = v # vs"
    using split_char_not_Nil by (cases "split_char c (last (w # ws) @ b)") auto
  from Cons w v show ?case by (cases ws) auto
qed simp

lemma split_char_first:
  "c \<in> set s \<Longrightarrow>
   split_char c s = takeWhile (\<lambda>x. x \<noteq> c) s # split_char c (drop (Suc (length (takeWhile (\<lambda>x. x \<noteq> c) s))) s)"
  by (induction s) auto

lemma last_split_no_sep: "c \<notin> set (last (split_char c s))"
  using split_char_no_sep split_char_not_Nil last_in_set by metis

lemma drain_spec:
  "case fold_until f s (map utf8_decode (butlast (split_char newline carry))) of
     (s', stopped) \<Rightarrow> \<exists>r. drain f s carry = (s', r, stopped)
        \<and> (\<not> stopped \<longrightarrow> r = last (split_char newline carry))"
proof (induction f s carry rule: drain.induct)
  case (1 f s carry)
  show ?case
  proof (cases "newline \<in> set carry")
    case True
    let ?line = "takeWhile (\<lambda>c. c \<noteq> newline) carry"
    let ?rest = "drop (Suc (length ?line)) carry"
    obtain s' go where f: "f s (utf8_decode ?line) = (s', go)" by fastforce
    note parts = split_char_first [OF True]
    show ?thesis
    proof (cases go)
      case go: True
      have "drain f s carry = drain f s' ?rest"
        using True f go by (subst drain.simps) (simp add: Let_def)
      with "1.IH" [OF True refl refl f [symmetric] refl go] parts f go show ?thesis
        by simp
    next
      case False
      then show ?thesis
        using True f parts by (subst drain.simps) (simp add: Let_def)
    qed
  next
    case False
    then show ?thesis
      by (subst drain.simps) (simp add: split_char_none)
  qed
qed

lemma read_loop_spec:
  assumes "0 < n" and "newline \<notin> set carry"
  shows "case fold_until f s (map utf8_decode (butlast (split_char newline (carry @ bytes)))) of
     (s', stopped) \<Rightarrow> \<exists>r. read_loop n f s carry bytes = (s', r, stopped)
        \<and> (\<not> stopped \<longrightarrow> r = last (split_char newline (carry @ bytes)))"
  using assms
proof (induction n f s carry bytes rule: read_loop.induct)
  case (1 n f s carry bytes)
  show ?case
  proof (cases "take n bytes = []")
    case True
    then show ?thesis
      using 1(2,3) by (subst read_loop.simps) (auto simp: split_char_none)
  next
    case False
    let ?c = "carry @ take n bytes" and ?d = "drop n bytes"
    let ?front = "map utf8_decode (butlast (split_char newline ?c))"
    obtain s' stopped where f: "fold_until f s ?front = (s', stopped)" by fastforce
    with drain_spec [of f s ?c] obtain r where
      d: "drain f s ?c = (s', r, stopped)" and r: "\<not> stopped \<Longrightarrow> r = last (split_char newline ?c)"
      by auto
    have parts: "split_char newline (carry @ bytes) =
        butlast (split_char newline ?c) @ split_char newline (last (split_char newline ?c) @ ?d)"
      using split_char_append [of newline ?c ?d] by simp
    show ?thesis
    proof (cases stopped)
      case True
      with f d False parts show ?thesis
        by (subst read_loop.simps) (simp add: butlast_append fold_until_append)
    next
      case go: False
      have "newline \<notin> set r" using r [OF go] last_split_no_sep by simp
      with "1.IH" [OF False d [symmetric] refl go "1.prems"(1)] f d False go parts r [OF go]
      show ?thesis
        by (subst read_loop.simps) (simp add: butlast_append fold_until_append)
    qed
  qed
qed

lemma readLinesSync_lines:
  assumes "0 < n"
  shows "readLinesSync n f s (Some bytes) = fst (fold_until f s (file_lines bytes))"
proof -
  let ?front = "map utf8_decode (butlast (split_char newline bytes))"
  let ?l = "last (split_char newline bytes)"
  obtain s' stopped where f: "fold_until f s ?front = (s', stopped)" by fastforce
  with read_loop_spec [OF assms, of "[]" f s bytes] obtain r where
    r: "read_loop n f s [] bytes = (s', r, stopped)" "\<not> stopped \<Longrightarrow> r = ?l" by auto
  have blank: "?l = [] \<Longrightarrow> trim (utf8_decode ?l) = []"
    by (simp add: trim_def trim_start_def trim_end_def)
  obtain s2 go where "f s' (utf8_decode ?l) = (s2, go)" by fastforce
  with f r blank show ?thesis
    by (cases stopped) (auto simp: readLinesSync_def file_lines_def Let_def fold_until_append)
qed

section \<open>Events of a file, tails and ranges\<close>

definition file_events :: "(string \<Rightarrow> 'e option) \<Rightarrow> string option \<Rightarrow> 'e list" where
  "file_events parse file =
     (case file of None \<Rightarrow> [] | Some b \<Rightarrow> List.map_filter (parseLine parse) (file_lines b))"

definition log_events :: "(string \<Rightarrow> 'e option) \<Rightarrow> log_dir \<Rightarrow> string list \<Rightarrow> 'e list" where
  "log_events parse dir filePaths = concat (map (\<lambda>p. file_events parse (map_of dir p)) filePaths)"

lemma READ_CHUNK_pos [simp]: "0 < READ_CHUNK_BYTES"
  by (simp add: READ_CHUNK_BYTES_def)

lemma map_filter_Cons:
  "List.map_filter f (x # xs) =
     (case f x of None \<Rightarrow> List.map_filter f xs | Some y \<Rightarrow> y # List.map_filter f xs)"
  by (simp add: List.map_filter_def split: option.splits)

lemma map_filter_Nil [simp]: "List.map_filter f [] = []"
  by (simp add: List.map_filter_def)

lemma map_filter_append [simp]:
  "List.map_filter f (xs @ ys) = List.map_filter f xs @ List.map_filter f ys"
  by (simp add: List.map_filter_def)

lemma take_last_absorb: "take_last k (take_last k xs @ ys) = take_last k (xs @ ys)"
  by (cases "k \<le> length xs") (auto simp: take_last_def min_def add.commute)

lemma push_capped_take_last: "length t \<le> k \<Longrightarrow> push_capped k t e = take_last k (t @ [e])"
  by (cases t) (auto simp: push_capped_def take_last_def Let_def Suc_diff_le)

lemma tail_lines_fold:
  assumes "length tail \<le> k"
  shows "fold_until (tail_line parse k) (tail, count, fc) ls =
    (let es = List.map_filter (parseLine parse) ls
     in ((take_last k (tail @ es), count + length es, fc + length es), False))"
  using assms
proof (induction ls arbitrary: tail count fc)
  case Nil
  then show ?case by (simp add: List.map_filter_def take_last_all)
next
  case (Cons l ls)
  show ?case
  proof (cases "parseLine parse l")
    case None
    with Cons show ?thesis by (simp add: tail_line_def map_filter_Cons)
  next
    case (Some e)
    have "length (push_capped k tail e) \<le> k"
      using Cons.prems by (simp add: push_capped_take_last)
    from Cons.IH [OF this] Some Cons.prems show ?thesis
      by (simp add: tail_line_def map_filter_Cons push_capped_take_last Let_def take_last_absorb)
  qed
qed

lemma read_tail:
  "length tail \<le> k \<Longrightarrow>
   readLinesSync READ_CHUNK_BYTES (tail_line parse k) (tail, count, 0) fl =
     (take_last k (tail @ file_events parse fl), count + length (file_events parse fl),
      length (file_events parse fl))"
  by (cases fl)
     (simp_all add: readLinesSync_lines tail_lines_fold Let_def file_events_def take_last_all,
      simp add: readLinesSync_def)

lemma load_files_spec:
  "length (tc_tail acc) \<le> k \<Longrightarrow>
   load_files parse k files acc =
     \<lparr>tc_tail = take_last k (tc_tail acc @ concat (map (file_events parse) files)),
      tc_count = tc_count acc + length (concat (map (file_events parse) files)),
      tc_perFile = tc_perFile acc @ map (\<lambda>f. length (file_events parse f)) files\<rparr>"
proof (induction files arbitrary: acc)
  case Nil
  then show ?case by (simp add: take_last_all)
next
  case (Cons f files)
  then show ?case
    by (simp add: read_tail take_last_absorb [of k "tc_tail acc @ _", simplified] take_last_absorb)
qed

lemma loadTailAndCount_spec:
  "loadTailAndCount parse dir paths k =
     \<lparr>tc_tail = take_last k (log_events parse dir paths),
      tc_count = length (log_events parse dir paths),
      tc_perFile = map (\<lambda>p. length (file_events parse (map_of dir p))) paths\<rparr>"
  by (simp add: loadTailAndCount_def load_files_spec log_events_def comp_def)

text \<open>
  Ranges: after reading \<open>idx\<close> events the output holds those of them in \<open>[start, stop)\<close>.
\<close>

lemma range_lines_fold:
  assumes "idx < stop"
  shows "fold_until (range_line parse start stop) (out, idx) ls =
    (let es = List.map_filter (parseLine parse) ls; n = stop - idx
     in ((out @ drop (start - idx) (take n es), idx + min n (length es)), n \<le> length es))"
  using assms
proof (induction ls arbitrary: out idx)
  case Nil
  then show ?case by (simp add: List.map_filter_def)
next
  case (Cons l ls)
  show ?case
  proof (cases "parseLine parse l")
    case None
    with Cons show ?thesis by (simp add: range_line_def map_filter_Cons)
  next
    case (Some e)
    show ?thesis
    proof (cases "stop \<le> Suc idx")
      case True
      then have "stop - idx = 1" using Cons.prems by simp
      with True Some show ?thesis
        by (cases "start \<le> idx") (simp_all add: range_line_def map_filter_Cons Let_def)
    next
      case False
      then have n: "stop - idx = Suc (stop - Suc idx)" by simp
      show ?thesis
      proof (cases "start \<le> idx")
        case True
        with Cons.IH [of "Suc idx" "out @ [e]"] False Some n show ?thesis
          by (simp add: range_line_def map_filter_Cons Let_def)
      next
        case late: False
        then have "start - idx = Suc (start - Suc idx)" by simp
        with Cons.IH [of "Suc idx" out] False Some n late show ?thesis
          by (simp add: range_line_def map_filter_Cons Let_def)
      qed
    qed
  qed
qed

lemma range_files_spec:
  "range_files parse start stop files (out, idx) =
     (let es = concat (map (file_events parse) files); n = stop - idx
      in (out @ drop (start - idx) (take n es), idx + min n (length es)))"
proof (induction files arbitrary: out idx)
  case Nil
  then show ?case by simp
next
  case (Cons f files)
  show ?case
  proof (cases "stop \<le> idx")
    case True
    then show ?thesis by simp
  next
    case False
    let ?es = "file_events parse f" and ?n = "stop - idx"
    have read: "readLinesSync READ_CHUNK_BYTES (range_line parse start stop) (out, idx) f =
        (out @ drop (start - idx) (take ?n ?es), idx + min ?n (length ?es))"
      using False
      by (cases f) (simp_all add: readLinesSync_lines range_lines_fold file_events_def Let_def,
                    simp add: readLinesSync_def)
    have "drop (start - idx) (take ?n ?es) @
            drop (start - (idx + min ?n (length ?es)))
              (take (stop - (idx + min ?n (length ?es))) xs) =
          drop (start - idx) (take ?n (?es @ xs))" for xs :: "'a list"
      by (cases "?n \<le> length ?es") (auto simp: min_def drop_append)
    with False read Cons.IH show ?thesis
      by (simp add: Let_def)
  qed
qed

lemma readRange_spec:
  "readRange parse dir paths start stop = drop start (take stop (log_events parse dir paths))"
  by (simp add: readRange_def range_files_spec Let_def log_events_def comp_def)

section \<open>Appending a line\<close>

definition append_file :: "string \<Rightarrow> string \<Rightarrow> log_dir \<Rightarrow> log_dir" where
  "append_file name bytes dir =
     AList.update name ((case map_of dir name of None \<Rightarrow> [] | Some b \<Rightarrow> b) @ bytes) dir"

definition terminated :: "string option \<Rightarrow> bool" where
  "terminated fl = (case fl of None \<Rightarrow> True | Some b \<Rightarrow> b = [] \<or> last b = newline)"

lemma utf8_char_decode: "utf8_decode (utf8_char c @ r) = c # utf8_decode r"
proof (cases "code_of c < 128")
  case True
  then show ?thesis by (simp add: utf8_char_def)
next
  case False
  have c: "code_of c < 256" by (metis of_char_of char_of_char mod_less_divisor zero_less_numeral)
  let ?n = "code_of c"
  have d: "?n div 64 = 2 \<or> ?n div 64 = 3" using False c by linarith
  have m: "?n mod 64 < 64" by simp
  have b1: "code_of (char_of (192 + ?n div 64)) = 192 + ?n div 64" using d by auto
  have b2: "code_of (char_of (128 + ?n mod 64)) = 128 + ?n mod 64" using m by simp
  have "(?n div 64) * 64 + ?n mod 64 = ?n" by simp
  then have "char_of ((192 + ?n div 64 - 192) * 64 + (128 + ?n mod 64 - 128)) = c"
    by (metis add_diff_cancel_left' char_of_char)
  with False b1 b2 d m show ?thesis by (auto simp: utf8_char_def Let_def simp del: char_of_nat)
qed

lemma utf8_roundtrip [simp]: "utf8_decode (utf8_encode s) = s"
  by (induction s) (simp_all add: utf8_encode_def utf8_char_decode)

lemma utf8_newline: "newline \<in> set (utf8_encode s) \<longleftrightarrow> newline \<in> set s"
proof -
  have "newline \<in> set (utf8_char c) \<longleftrightarrow> newline = c" for c
  proof (cases "code_of c < 128")
    case True
    then show ?thesis by (auto simp: utf8_char_def)
  next
    case False
    have c: "code_of c < 256" by (metis of_char_of char_of_char mod_less_divisor zero_less_numeral)
    have "code_of c div 64 < 4" using c by (intro less_mult_imp_div_less) simp
    then have "code_of (char_of (192 + code_of c div 64)) \<noteq> code_of newline"
      "code_of (char_of (128 + code_of c mod 64)) \<noteq> code_of newline"
      by (simp_all add: newline_def)
    then have "newline \<noteq> char_of (192 + code_of c div 64)"
      "newline \<noteq> char_of (128 + code_of c mod 64)"
      by metis+
    moreover have "newline \<noteq> c" using False by (auto simp: newline_def)
    ultimately show ?thesis using False by (simp add: utf8_char_def Let_def)
  qed
  then show ?thesis by (auto simp: utf8_encode_def)
qed

lemma split_char_snoc_sep: "c \<notin> set w \<Longrightarrow> split_char c (w @ [c]) = [w, []]"
  by (induction w) auto

lemma split_char_terminated: "b = [] \<or> last b = c \<Longrightarrow> last (split_char c b) = []"
proof (cases b rule: rev_cases)
  case (snoc w x)
  assume "b = [] \<or> last b = c"
  with snoc have "b = w @ [c]" by simp
  then show ?thesis
    using split_char_append [of c w "[c]"] split_char_snoc_sep [OF last_split_no_sep, of c w] by simp
qed simp

lemma file_lines_append:
  assumes "terminated (Some b)" and "newline \<notin> set l"
  shows "file_lines (b @ utf8_encode l @ [newline]) = file_lines b @ [l]"
proof -
  have last: "last (split_char newline b) = []"
    using assms(1) split_char_terminated by (simp add: terminated_def)
  have n: "newline \<notin> set (utf8_encode l)" using assms(2) by (simp add: utf8_newline)
  have "split_char newline (utf8_encode l @ [newline]) = [utf8_encode l, []]"
    using n by (rule split_char_snoc_sep)
  then have "split_char newline (b @ utf8_encode l @ [newline]) =
      butlast (split_char newline b) @ [utf8_encode l, []]"
    using split_char_append [of newline b "utf8_encode l @ [newline]"] last by simp
  then show ?thesis
    using last by (simp add: file_lines_def Let_def butlast_append trim_def trim_start_def trim_end_def)
qed

text \<open>What the log store needs of the encoding of an event on a line.\<close>

locale line_codec =
  fixes enc :: "'e \<Rightarrow> string" and dec :: "string \<Rightarrow> 'e option" and ok :: "'e \<Rightarrow> bool"
  assumes dec_enc: "ok e \<Longrightarrow> dec (enc e) = Some e"
    and enc_one_line: "ok e \<Longrightarrow> newline \<notin> set (enc e)"
    and enc_not_blank: "ok e \<Longrightarrow> trim (enc e) \<noteq> []"
begin

lemma parseLine_enc: "ok e \<Longrightarrow> parseLine dec (enc e) = Some e"
  by (simp add: parseLine_def enc_not_blank dec_enc)

lemma file_events_append:
  assumes "terminated (map_of dir name)" and "ok e"
  shows "file_events dec (map_of (append_file name (utf8_encode (enc e) @ [newline]) dir) name) =
     file_events dec (map_of dir name) @ [e]"
proof (cases "map_of dir name")
  case None
  have "file_lines ([] @ utf8_encode (enc e) @ [newline]) = file_lines [] @ [enc e]"
    using assms(2) by (intro file_lines_append) (simp_all add: terminated_def enc_one_line)
  moreover have "file_lines [] = []"
    by (simp add: file_lines_def trim_def trim_start_def trim_end_def)
  ultimately show ?thesis
    using None assms(2)
    by (simp add: append_file_def om.get_put file_events_def map_filter_Cons parseLine_enc)
next
  case (Some b)
  have "file_lines (b @ utf8_encode (enc e) @ [newline]) = file_lines b @ [enc e]"
    using assms Some by (intro file_lines_append) (simp_all add: enc_one_line)
  with Some assms(2) show ?thesis
    by (simp add: append_file_def om.get_put file_events_def map_filter_Cons parseLine_enc)
qed

end

section \<open>The set of files under appends and rotations\<close>

lemma archive_gen_archive [simp]: "archive_gen i (archiveLogPath i g) = Some g"
  using show_nat_digits [of g] by (simp add: archive_gen_def archiveLogPath_def Let_def starts_with_iff)

lemma archive_gen_active [simp]: "archive_gen i (activeLogPath i) = None"
  by (auto simp: archive_gen_def activeLogPath_def Let_def starts_with_iff)

lemma archive_not_active [simp]: "archiveLogPath i g \<noteq> activeLogPath i"
  by (metis archive_gen_archive archive_gen_active option.discI)

lemma active_not_archive [simp]: "activeLogPath i \<noteq> archiveLogPath i g"
  using archive_not_active [of i g] by (rule not_sym)

lemma archive_inject [simp]: "archiveLogPath i g = archiveLogPath i h \<longleftrightarrow> g = h"
  by (simp add: archiveLogPath_def)

lemma set_generations:
  "set (listArchiveGenerations i dir) = {g. \<exists>n\<in>fst ` set dir. archive_gen i n = Some g}"
  by (force simp: listArchiveGenerations_def List.map_filter_def)

lemma generation_lt_next: "g \<in> set (listArchiveGenerations i dir) \<Longrightarrow> g < next_gen i dir"
proof -
  assume g: "g \<in> set (listArchiveGenerations i dir)"
  have "sorted (listArchiveGenerations i dir)" by (simp add: listArchiveGenerations_def)
  with g have "g \<le> last (listArchiveGenerations i dir)"
    by (cases "listArchiveGenerations i dir" rule: rev_cases) (auto simp: sorted_append)
  with g show ?thesis by (auto simp: next_gen_def Let_def)
qed

text \<open>Rotation never renames onto an existing file.\<close>

lemma next_archive_fresh: "map_of dir (archiveLogPath i (next_gen i dir)) = None"
proof (rule ccontr)
  assume "map_of dir (archiveLogPath i (next_gen i dir)) \<noteq> None"
  then have "archiveLogPath i (next_gen i dir) \<in> fst ` set dir"
    by (simp add: map_of_eq_None_iff)
  then have "next_gen i dir \<in> set (listArchiveGenerations i dir)"
    unfolding set_generations using archive_gen_archive by blast
  from generation_lt_next [OF this] show False by simp
qed

lemma insort_snoc: "x \<le> g \<Longrightarrow> insort x (ys @ [g]) = insort x ys @ [g :: nat]"
  by (induction ys) auto

lemma sort_snoc_max: "\<forall>x\<in>set xs. x \<le> g \<Longrightarrow> sort (xs @ [g]) = sort xs @ [g :: nat]"
  by (induction xs) (auto simp: insort_snoc)

lemma generations_update_other:
  "archive_gen i n = None \<Longrightarrow>
   listArchiveGenerations i (AList.update n c dir) = listArchiveGenerations i dir"
  using om_keys_update [of n c dir]
  by (auto simp: om_keys_def listArchiveGenerations_def map_filter_Cons)

lemma generations_update_fresh:
  assumes "archive_gen i n = Some g" and "map_of dir n = None"
    and "\<And>h. h \<in> set (listArchiveGenerations i dir) \<Longrightarrow> h < g"
  shows "listArchiveGenerations i (AList.update n c dir) = listArchiveGenerations i dir @ [g]"
proof -
  have "n \<notin> set (om_keys dir)" using assms(2) by (simp add: om_keys_def map_of_eq_None_iff)
  then have "map fst (AList.update n c dir) = map fst dir @ [n]"
    using om_keys_update [of n c dir] by (simp add: om_keys_def)
  then have "listArchiveGenerations i (AList.update n c dir) =
      sort (List.map_filter (archive_gen i) (map fst dir) @ [g])"
    using assms(1) by (simp add: listArchiveGenerations_def map_filter_Cons)
  also have "\<dots> = listArchiveGenerations i dir @ [g]"
    using assms(3) by (subst sort_snoc_max) (auto simp: listArchiveGenerations_def less_imp_le)
  finally show ?thesis .
qed

lemma map_filter_filter_irrelevant:
  "(\<And>x. \<not> P x \<Longrightarrow> f x = None) \<Longrightarrow> List.map_filter f (filter P xs) = List.map_filter f xs"
  by (induction xs) (auto simp: map_filter_Cons split: option.splits)

lemma generations_delete_other:
  "archive_gen i n = None \<Longrightarrow>
   listArchiveGenerations i (AList.delete n dir) = listArchiveGenerations i dir"
  using om_keys_delete [of n dir] map_filter_filter_irrelevant [of "\<lambda>k'. k' \<noteq> n" "archive_gen i"]
  by (simp add: om_keys_def listArchiveGenerations_def)

lemma append_file_get:
  "map_of (append_file n b dir) m = (if m = n then Some ((case map_of dir n of None \<Rightarrow> [] | Some x \<Rightarrow> x) @ b)
     else map_of dir m)"
  by (simp add: append_file_def om.get_put)

lemma append_file_generations [simp]:
  "listArchiveGenerations i (append_file (activeLogPath i) b dir) = listArchiveGenerations i dir"
  by (simp add: append_file_def generations_update_other)

lemma log_events_all:
  "log_events parse dir (allLogFiles i dir) =
     concat (map (\<lambda>g. file_events parse (map_of dir (archiveLogPath i g))) (listArchiveGenerations i dir))
     @ file_events parse (map_of dir (activeLogPath i))"
  by (simp add: log_events_def allLogFiles_def comp_def)

lemma file_events_None [simp]: "file_events parse None = []"
  by (simp add: file_events_def)

text \<open>A rotation keeps the whole sequence of events and empties the active file.\<close>

lemma rotate_keeps_events:
  assumes "rotateActiveLog ok i dir = (done, dir')"
  shows "log_events parse dir' (allLogFiles i dir') = log_events parse dir (allLogFiles i dir)"
    and "done \<Longrightarrow> map_of dir' (activeLogPath i) = None"
    and "\<not> done \<Longrightarrow> dir' = dir"
proof -
  let ?a = "activeLogPath i" and ?g = "next_gen i dir"
  let ?n = "archiveLogPath i ?g"
  have *: "log_events parse dir' (allLogFiles i dir') = log_events parse dir (allLogFiles i dir)
      \<and> (done \<longrightarrow> map_of dir' ?a = None) \<and> (\<not> done \<longrightarrow> dir' = dir)"
  proof (cases "ok \<and> map_of dir ?a \<noteq> None")
    case False
    then have "dir' = dir \<and> \<not> done"
      using assms by (auto simp: rotateActiveLog_def Let_def split: if_splits)
    then show ?thesis by simp
  next
    case True
    then obtain c where c: "map_of dir ?a = Some c" by auto
    with True assms have d: "done" "dir' = AList.update ?n c (AList.delete ?a dir)"
      by (auto simp: rotateActiveLog_def rename_file_def Let_def)
    have fresh: "map_of (AList.delete ?a dir) ?n = None"
      using next_archive_fresh [of dir i] by (simp add: om.get_del)
    have gens: "listArchiveGenerations i dir' = listArchiveGenerations i dir @ [?g]"
      unfolding d(2)
      by (subst generations_update_fresh [OF archive_gen_archive fresh])
         (simp_all add: generations_delete_other generation_lt_next)
    have look: "map_of dir' m = (if m = ?n then Some c else if m = ?a then None else map_of dir m)" for m
      by (simp add: d(2) om.get_put om.get_del)
    have old: "g \<in> set (listArchiveGenerations i dir) \<Longrightarrow> g \<noteq> ?g" for g
      using generation_lt_next by fastforce
    have maps: "map (\<lambda>g. file_events parse (map_of dir' (archiveLogPath i g))) (listArchiveGenerations i dir) =
        map (\<lambda>g. file_events parse (map_of dir (archiveLogPath i g))) (listArchiveGenerations i dir)"
      using old by (intro map_cong) (simp_all add: look)
    have "log_events parse dir' (allLogFiles i dir') =
        concat (map (\<lambda>g. file_events parse (map_of dir' (archiveLogPath i g))) (listArchiveGenerations i dir))
        @ file_events parse (map_of dir' ?n) @ file_events parse (map_of dir' ?a)"
      by (simp add: log_events_all gens)
    then show ?thesis
      unfolding maps using d(1) c by (simp add: log_events_all look)
  qed
  from * show "log_events parse dir' (allLogFiles i dir') = log_events parse dir (allLogFiles i dir)"
    and "done \<Longrightarrow> map_of dir' (activeLogPath i) = None"
    and "\<not> done \<Longrightarrow> dir' = dir" by auto
qed

text \<open>The archives keep their bytes.\<close>

lemma rotate_keeps_archives:
  assumes "rotateActiveLog ok i dir = (done, dir')" and "map_of dir (archiveLogPath i g) = Some b"
  shows "map_of dir' (archiveLogPath i g) = Some b"
proof -
  have "archiveLogPath i g \<noteq> archiveLogPath i (next_gen i dir)"
    using next_archive_fresh [of dir i] assms(2) by (metis option.discI)
  then show ?thesis
    using assms by (auto simp: rotateActiveLog_def rename_file_def Let_def om.get_put om.get_del
        split: if_splits option.splits)
qed

end
