(* ===== verification/Json_Facts.thy ===== *)
theory Json_Facts
  imports Json LogStore
begin

text \<open>
  What the logs rely on about JSON: a printed plain value is one non-blank line of printable
  characters, and parsing it gives the value back. The \<open>line_codec\<close> interface of the log
  store is stated here and interpreted on \<open>stringify\<close> and \<open>json_parse\<close>.
\<close>

section \<open>Characters\<close>

lemma char_eq_iff_code: "n < 256 \<Longrightarrow> c = char_of (n::nat) \<longleftrightarrow> code_of c = n"
  by (metis char_of_char mod_less of_char_of)

lemma code_lt_256 [simp]: "code_of c < 256"
  by (metis of_char_of char_of_char mod_less_divisor zero_less_numeral)

lemmas json_chars = dquote_def backslash_def

lemma hex_val_digit: "d < 16 \<Longrightarrow> hex_val (hex_digit d) = Some d"
  by (auto simp: hex_val_def hex_digit_def Let_def)

lemma code_eq_lit: "code_of d = n \<Longrightarrow> code_of c = n \<longleftrightarrow> c = d"
  by auto

lemma p_chars_escape:
  "p_chars (escape_char c @ rest) = map_option (\<lambda>(w, t). (c # w, t)) (p_chars rest)"
proof -
  have control: "hex_quad (CHR ''0'') (CHR ''0'') (hex_digit (n div 16)) (hex_digit (n mod 16)) = Some n"
    if "n < 32" for n
  proof -
    have "n div 16 < 16" "n mod 16 < 16" using that by auto
    then show ?thesis by (simp add: hex_quad_def hex_val_digit) (simp add: hex_val_def)
  qed
  have "code_of c = 34 \<longleftrightarrow> c = CHR 0x22" "code_of c = 92 \<longleftrightarrow> c = CHR 0x5C"
    "code_of c = 8 \<longleftrightarrow> c = CHR 0x08" "code_of c = 12 \<longleftrightarrow> c = CHR 0x0C"
    "code_of c = 10 \<longleftrightarrow> c = CHR 0x0A" "code_of c = 13 \<longleftrightarrow> c = CHR 0x0D"
    "code_of c = 9 \<longleftrightarrow> c = CHR 0x09"
    by (rule code_eq_lit, simp)+
  then consider "c = CHR 0x22" | "c = CHR 0x5C" | "c = CHR 0x08" | "c = CHR 0x0C"
    | "c = CHR 0x0A" | "c = CHR 0x0D" | "c = CHR 0x09"
    | "code_of c < 32" "code_of c \<notin> {8, 9, 10, 12, 13}"
    | "32 \<le> code_of c" "code_of c \<noteq> 34" "code_of c \<noteq> 92"
    by force
  then show ?thesis
  proof cases
    case 8
    then show ?thesis
      using control [of "code_of c"] by (simp add: escape_char_def json_chars Let_def)
  next
    case 9
    then have "c \<noteq> CHR 0x22" "c \<noteq> CHR 0x5C" by auto
    with 9 show ?thesis
      by (simp add: escape_char_def json_chars Let_def)
  qed (simp_all add: escape_char_def json_chars unescape_def Let_def)
qed

lemma p_chars_body:
  "p_chars (concat (map escape_char s) @ dquote # rest) = Some (s, rest)"
  by (induction s) (simp_all add: p_chars_escape)

lemma escape_char_printable: "d \<in> set (escape_char c) \<Longrightarrow> 32 \<le> code_of d"
  by (auto simp: escape_char_def hex_digit_def Let_def split: if_splits)

lemma escape_char_not_Nil: "escape_char c \<noteq> []"
  by (simp add: escape_char_def Let_def)

section \<open>Numbers\<close>

text \<open>A number that prints without an exponent and within the digits the printer has.\<close>

fun frac_ends :: "nat \<Rightarrow> num \<Rightarrow> bool" where
  "frac_ends 0 f = (f = 0)"
| "frac_ends (Suc k) f =
     (f = 0 \<or> frac_ends k (10 * f - of_nat (nat \<lfloor>10 * f\<rfloor>)))"

definition num_plain :: "num \<Rightarrow> bool" where
  "num_plain r = frac_ends FRAC_DIGITS (\<bar>r\<bar> - of_nat (nat \<lfloor>\<bar>r\<bar>\<rfloor>))"

lemma num_plain_of_nat [simp]: "num_plain (of_nat n)"
  by (simp add: num_plain_def FRAC_DIGITS_def numeral_eq_Suc)

lemma frac_ends_iff:
  assumes "0 \<le> f" and "f < 1"
  shows "frac_ends k f \<longleftrightarrow> f * 10 ^ k \<in> \<int>"
  using assms
proof (induction k arbitrary: f)
  case 0
  have "f = 0" if "f \<in> \<int>" using that 0 by (auto elim!: Ints_cases)
  then show ?case by auto
next
  case (Suc k)
  let ?d = "nat \<lfloor>10 * f\<rfloor>"
  have d: "of_nat ?d = (of_int \<lfloor>10 * f\<rfloor> :: num)" using Suc.prems(1) by simp
  then have "0 \<le> 10 * f - of_nat ?d" "10 * f - of_nat ?d < 1" by linarith+
  note IH = Suc.IH [OF this]
  have "(10 * f - of_nat ?d) * 10 ^ k = f * 10 ^ Suc k - of_nat (?d * 10 ^ k)"
    by (simp add: algebra_simps)
  then have "(10 * f - of_nat ?d) * 10 ^ k \<in> \<int> \<longleftrightarrow> f * 10 ^ Suc k \<in> \<int>"
    by (metis Ints_add Ints_diff Ints_of_nat diff_add_cancel)
  with IH show ?case by auto
qed

lemma num_plain_iff: "num_plain r \<longleftrightarrow> r * 10 ^ FRAC_DIGITS \<in> \<int>"
proof -
  let ?a = "\<bar>r\<bar>" and ?n = "nat \<lfloor>\<bar>r\<bar>\<rfloor>"
  have n: "of_nat ?n = (of_int \<lfloor>?a\<rfloor> :: num)" by simp
  then have "0 \<le> ?a - of_nat ?n" "?a - of_nat ?n < 1" by linarith+
  then have "num_plain r \<longleftrightarrow> (?a - of_nat ?n) * 10 ^ FRAC_DIGITS \<in> \<int>"
    by (simp only: num_plain_def frac_ends_iff)
  also have "(?a - of_nat ?n) * 10 ^ FRAC_DIGITS = ?a * 10 ^ FRAC_DIGITS - of_nat (?n * 10 ^ FRAC_DIGITS)"
    by (simp add: algebra_simps)
  also have "\<dots> \<in> \<int> \<longleftrightarrow> ?a * 10 ^ FRAC_DIGITS \<in> \<int>"
    by (metis Ints_add Ints_diff Ints_of_nat diff_add_cancel)
  also have "\<dots> \<longleftrightarrow> r * 10 ^ FRAC_DIGITS \<in> \<int>"
    by (cases "0 \<le> r") (auto simp: Ints_minus minus_in_Ints_iff)
  finally show ?thesis .
qed

lemma num_plain_add: "num_plain a \<Longrightarrow> num_plain b \<Longrightarrow> num_plain (a + b)"
  by (simp add: num_plain_iff distrib_right)

lemma num_plain_of_int [simp]: "num_plain (of_int n)"
proof -
  have "\<bar>of_int n :: num\<bar> = of_nat (nat \<bar>n\<bar>)" by simp
  then show ?thesis
    using num_plain_of_nat [of "nat \<bar>n\<bar>"] unfolding num_plain_def by (simp only: abs_of_nat)
qed

lemma frac_step:
  fixes f :: num
  assumes "0 \<le> f" "f < 1"
  defines "d \<equiv> nat \<lfloor>10 * f\<rfloor>"
  shows "d < 10" "0 \<le> 10 * f - of_nat d" "10 * f - of_nat d < 1"
proof -
  have z: "0 \<le> \<lfloor>10 * f\<rfloor>" "\<lfloor>10 * f\<rfloor> < 10"
    using assms by (simp_all add: floor_less_iff)
  then have "(of_nat d :: num) = of_int \<lfloor>10 * f\<rfloor>"
    unfolding d_def by (simp add: of_nat_nat)
  moreover have "of_int \<lfloor>10 * f\<rfloor> \<le> 10 * f" "10 * f < of_int \<lfloor>10 * f\<rfloor> + 1"
    by linarith+
  ultimately show "0 \<le> 10 * f - of_nat d" "10 * f - of_nat d < 1"
    by linarith+
  show "d < 10" using z unfolding d_def by linarith
qed

lemma read_nat_Cons: "read_nat (c # ds) = digit_val c * 10 ^ length ds + read_nat ds"
proof (induction ds rule: rev_induct)
  case Nil
  then show ?case by (simp add: read_nat_def)
next
  case (snoc d ds)
  then show ?case
    using read_nat_snoc [of "c # ds" d] by (simp add: read_nat_snoc algebra_simps)
qed

lemma frac_digits_value:
  assumes "0 \<le> f" "f < 1" "frac_ends k f"
  shows "of_nat (read_nat (frac_digits k f)) / 10 ^ length (frac_digits k f) = f
     \<and> list_all is_digit (frac_digits k f)"
  using assms
proof (induction k arbitrary: f)
  case 0
  then show ?case by (simp add: read_nat_def)
next
  case (Suc k)
  show ?case
  proof (cases "f = 0")
    case True
    then show ?thesis by (simp add: read_nat_def)
  next
    case False
    let ?d = "nat \<lfloor>10 * f\<rfloor>" and ?g = "10 * f - of_nat (nat \<lfloor>10 * f\<rfloor>)"
    note st = frac_step [OF Suc.prems(1,2)]
    have "frac_ends k ?g" using Suc.prems(3) False by simp
    with Suc.IH [of ?g] st have
      IH: "of_nat (read_nat (frac_digits k ?g)) = ?g * 10 ^ length (frac_digits k ?g)"
        "list_all is_digit (frac_digits k ?g)"
      by (simp_all add: field_simps)
    then show ?thesis
      using False st(1)
      by (simp add: Let_def read_nat_Cons is_digit_digit_char field_simps)
  qed
qed

lemma digit_zero: "digit_char 0 = CHR ''0''"
  unfolding digit_char_def by (subst eq_commute, subst char_eq_iff_code) simp_all

lemma show_nat_head: "hd (show_nat n) = CHR ''0'' \<longleftrightarrow> n = 0"
proof (induction n rule: show_nat.induct)
  case (1 n)
  show ?case
  proof (cases "n < 10")
    case True
    then have "digit_char n = digit_char 0 \<longleftrightarrow> n = 0"
      by (metis digit_val_digit_char zero_less_numeral)
    then have "digit_char n = CHR ''0'' \<longleftrightarrow> n = 0" by (simp add: digit_zero)
    with True show ?thesis by (simp add: show_nat.simps [of n])
  next
    case False
    with 1 show ?thesis by (simp add: show_nat.simps [of n])
  qed
qed

definition num_end :: "string \<Rightarrow> bool" where
  "num_end r = (r = [] \<or> (\<not> is_digit (hd r) \<and> hd r \<notin> set ''.eE''))"

lemma is_digit_nonspecial:
  "is_digit c \<Longrightarrow> c \<notin> set ''-.eE{[]},:tfn '' \<and> c \<noteq> dquote \<and> \<not> json_ws c \<and> \<not> is_space c"
  by (auto simp: is_digit_def json_chars json_ws_def is_space_def Let_def)

lemma takeWhile_digits:
  "list_all is_digit ds \<Longrightarrow> r = [] \<or> \<not> is_digit (hd r) \<Longrightarrow>
     takeWhile is_digit (ds @ r) = ds \<and> dropWhile is_digit (ds @ r) = r"
  by (induction ds) (cases r; auto)+

lemma show_nat_Cons: "\<exists>c cs. show_nat n = c # cs \<and> is_digit c"
  using show_nat_digits [of n] show_nat_not_Nil [of n] by (cases "show_nat n") auto

lemma p_int_show:
  assumes "r = [] \<or> \<not> is_digit (hd r)"
  shows "p_int (show_nat n @ r) = Some (n, r)"
proof (cases "n = 0")
  case True
  then have "show_nat n = ''0''"
    by (simp add: show_nat.simps [of 0] digit_zero)
  with True show ?thesis by (simp add: p_int_def)
next
  case False
  obtain c cs where c: "show_nat n = c # cs" "is_digit c" using show_nat_Cons by blast
  with False show_nat_head [of n] have "c \<noteq> CHR ''0''" by simp
  with c have "p_int (show_nat n @ r) =
      (let ds = takeWhile is_digit (show_nat n @ r)
       in if ds = [] then None else Some (read_nat ds, dropWhile is_digit (show_nat n @ r)))"
    by (simp add: p_int_def)
  then show ?thesis
    unfolding takeWhile_digits [OF show_nat_digits assms, of n, THEN conjunct1]
      takeWhile_digits [OF show_nat_digits assms, of n, THEN conjunct2] by simp
qed

lemma p_exp_end: "num_end r \<Longrightarrow> p_exp x r = Some (x, r)"
  by (cases r) (auto simp: num_end_def p_exp_def)

lemma p_frac_end: "num_end r \<Longrightarrow> p_frac r = Some (0, r)"
  by (cases r) (auto simp: num_end_def p_frac_def)

lemma p_unsigned_show:
  assumes "0 \<le> a" and "num_plain a" and r: "num_end r"
  defines "n \<equiv> nat \<lfloor>a\<rfloor>"
  defines "f \<equiv> a - of_nat n"
  shows "p_unsigned (show_nat n @ (if f = 0 then [] else CHR ''.'' # frac_digits FRAC_DIGITS f) @ r)
           = Some (a, r)"
proof (cases "f = 0")
  case True
  have "r = [] \<or> \<not> is_digit (hd r)" using r by (auto simp: num_end_def)
  with True r show ?thesis
    by (simp add: p_unsigned_def p_int_show p_frac_end p_exp_end f_def)
next
  case False
  let ?fd = "frac_digits FRAC_DIGITS f"
  have "of_nat n = (of_int \<lfloor>a\<rfloor> :: num)" using assms(1) by (simp add: n_def)
  then have f: "0 \<le> f" "f < 1" unfolding f_def by linarith+
  have "frac_ends FRAC_DIGITS f" using assms(1,2) by (simp add: num_plain_def f_def n_def)
  note v = frac_digits_value [OF f this]
  have ne: "?fd \<noteq> []" using False by (auto simp: FRAC_DIGITS_def numeral_eq_Suc Let_def)
  have dot: "\<not> is_digit (CHR ''.'')" by (simp add: is_digit_def)
  have "r = [] \<or> \<not> is_digit (hd r)" using r by (auto simp: num_end_def)
  note tw = takeWhile_digits [OF v [THEN conjunct2] this]
  have "p_frac (CHR ''.'' # ?fd @ r) = Some (f, r)"
    unfolding p_frac_def list.case Let_def tw [THEN conjunct1] tw [THEN conjunct2]
    using v ne by simp
  then show ?thesis
    using False p_int_show [of "CHR ''.'' # ?fd @ r" n] dot r
    by (simp add: p_unsigned_def p_exp_end f_def)
qed

lemma p_number_show:
  assumes "num_plain x" and "num_end r"
  shows "p_number (show_num x @ r) = Some (JNum x, r)"
proof -
  have pa: "num_plain \<bar>x\<bar>" using assms(1) by (simp add: num_plain_def)
  obtain c cs where c: "show_nat (nat \<lfloor>\<bar>x\<bar>\<rfloor>) = c # cs" "is_digit c" using show_nat_Cons by blast
  then have nm: "c \<noteq> CHR ''-''" using is_digit_nonspecial by auto
  from p_unsigned_show [OF abs_ge_zero pa assms(2)] c nm show ?thesis
    by (auto simp: p_number_def show_num_def Let_def)
qed

section \<open>Plain values and the round trip\<close>

function json_plain :: "jsval \<Rightarrow> bool" where
  "json_plain JUndef = False"
| "json_plain JNull = True"
| "json_plain (JBool b) = True"
| "json_plain (JNum n) = num_plain n"
| "json_plain JNaN = False"
| "json_plain (JInf p) = False"
| "json_plain (JStr s) = True"
| "json_plain (JArr vs) = (\<forall>v\<in>set vs. json_plain v)"
| "json_plain (JObj fs) = (distinct (map fst fs) \<and> (\<forall>kv\<in>set fs. json_plain (snd kv)))"
  by pat_completeness auto

lemma size_elem_less: "v \<in> set vs \<Longrightarrow> size v < Suc (size_list size vs)"
  by (induction vs) auto

lemma size_member_less:
  "kv \<in> set fs \<Longrightarrow> size (snd kv) < Suc (size_list (size_prod (\<lambda>x. 0) size) fs)"
  by (induction fs) auto

termination json_plain
  by (relation "measure size") (auto dest: size_elem_less size_member_less)

lemma skip_ws_id: "s = [] \<or> \<not> json_ws (hd s) \<Longrightarrow> skip_ws s = s"
  by (cases s) (auto simp: skip_ws_def)

definition value_head :: "char \<Rightarrow> bool" where
  "value_head c = (\<not> json_ws c \<and> \<not> is_space c \<and> c \<notin> set '']},:'')"

lemma stringify_head: "\<exists>c cs. stringify v = c # cs \<and> value_head c"
proof (cases v)
  case (JNum n)
  obtain c cs where c: "show_nat (nat \<lfloor>\<bar>n\<bar>\<rfloor>) = c # cs" "is_digit c" using show_nat_Cons by blast
  with is_digit_nonspecial [OF c(2)] show ?thesis
    using JNum by (auto simp: show_num_def Let_def value_head_def json_ws_def is_space_def)
qed (auto simp: value_head_def json_ws_def is_space_def quote_def dquote_def
       intro: exI)

lemma stringify_not_Nil [simp]: "stringify v \<noteq> []"
  using stringify_head [of v] by auto

lemma skip_ws_stringify [simp]: "skip_ws (stringify v @ r) = stringify v @ r"
  using stringify_head [of v] by (auto simp: skip_ws_def value_head_def)

lemma json_ws_marks [simp]:
  "\<not> json_ws (CHR '','')" "\<not> json_ws (CHR '']'')" "\<not> json_ws (CHR ''}'')" "\<not> json_ws (CHR '':'')"
  "\<not> json_ws (CHR ''['')" "\<not> json_ws (CHR ''{'')" "\<not> json_ws dquote"
  "\<not> json_ws (CHR 0x22)"
  by (simp_all add: json_ws_def dquote_def)

lemma skip_ws_Cons [simp]: "\<not> json_ws c \<Longrightarrow> skip_ws (c # r) = c # r"
  by (simp add: skip_ws_def)

lemma num_end_marks [simp]:
  "num_end []" "num_end (CHR '','' # r)" "num_end (CHR '']'' # r)" "num_end (CHR ''}'' # r)"
  by (simp_all add: num_end_def is_digit_def)

lemma show_num_head: "\<exists>c cs. show_num x = c # cs \<and> (is_digit c \<or> c = CHR ''-'')"
proof -
  obtain c cs where "show_nat (nat \<lfloor>\<bar>x\<bar>\<rfloor>) = c # cs" "is_digit c" using show_nat_Cons by blast
  then show ?thesis by (auto simp: show_num_def Let_def)
qed

lemma p_value_num:
  assumes "num_plain x" and "num_end r" and "n \<noteq> 0"
  shows "p_value n (show_num x @ r) = Some (JNum x, r)"
proof -
  obtain c cs where c: "show_num x = c # cs" and d: "is_digit c \<or> c = CHR ''-''"
    using show_num_head by blast
  from d have k: "\<not> json_ws c \<and> c \<notin> set ''{[tfn'' \<and> c \<noteq> dquote"
  proof
    assume "is_digit c"
    from is_digit_nonspecial [OF this] show ?thesis by simp
  next
    assume "c = CHR ''-''"
    then show ?thesis by (simp add: json_ws_def dquote_def)
  qed
  obtain m where "n = Suc m" using assms(3) by (cases n) auto
  then have "p_value n (show_num x @ r) = p_number (show_num x @ r)"
    using c k by simp
  then show ?thesis using p_number_show [OF assms(1,2)] by simp
qed

lemma p_value_str: "n \<noteq> 0 \<Longrightarrow> p_value n (quote w @ r) = Some (JStr w, r)"
  by (cases n) (simp_all add: quote_def p_chars_body, simp add: dquote_def)

lemma length_quote: "2 \<le> length (quote w)"
  by (simp add: quote_def)

lemma fold_update_distinct:
  "distinct (map fst fs) \<Longrightarrow> set (map fst m) \<inter> set (map fst fs) = {} \<Longrightarrow>
   foldl (\<lambda>m (k, v). AList.update k v m) m fs = m @ fs"
proof (induction fs arbitrary: m)
  case (Cons kv fs)
  obtain k v where kv: "kv = (k, v)" by fastforce
  then have k: "k \<notin> fst ` set m" using Cons.prems(2) by auto
  then have upd: "AList.update k v m = m @ [(k, v)]"
    by (induction m) auto
  have "foldl (\<lambda>m (k, v). AList.update k v m) (m @ [(k, v)]) fs = (m @ [(k, v)]) @ fs"
    using Cons.prems kv by (intro Cons.IH) auto
  with kv upd show ?case by simp
qed simp

lemma build_object_distinct: "distinct (map fst fs) \<Longrightarrow> build_object fs = JObj fs"
  using fold_update_distinct [of fs "[]"] by (simp add: build_object_def)

lemma p_elems_one:
  "p_value n (s @ CHR '']'' # r) = Some (v, CHR '']'' # r) \<Longrightarrow>
   p_elems (Suc n) (s @ CHR '']'' # r) = Some ([v], r)"
  by simp

lemma p_elems_more:
  "p_value n (s @ CHR '','' # t) = Some (v, CHR '','' # t) \<Longrightarrow> p_elems n t = Some (vs, r) \<Longrightarrow>
   p_elems (Suc n) (s @ CHR '','' # t) = Some (v # vs, r)"
  by simp

lemma p_members_step:
  assumes "p_value n (stringify v @ e # t) = Some (v, e # t)" and "\<not> json_ws e"
  shows "p_members (Suc n) (quote k @ CHR '':'' # stringify v @ e # t) =
    (if e = CHR '','' then map_option (\<lambda>(fs, u). ((k, v) # fs, u)) (p_members n t)
     else if e = CHR ''}'' then Some ([(k, v)], t) else None)"
  using assms by (simp add: quote_def p_chars_body)

lemma plain_not_undef: "json_plain v \<Longrightarrow> v \<noteq> JUndef"
  by auto

lemma parse_stringify:
  "json_plain v \<Longrightarrow> num_end r \<Longrightarrow> length (stringify v) \<le> n \<Longrightarrow>
     p_value n (stringify v @ r) = Some (v, r)"
  "vs \<noteq> [] \<Longrightarrow> list_all json_plain vs \<Longrightarrow> length (join '','' (stringify_elems vs)) < n \<Longrightarrow>
     p_elems n (join '','' (stringify_elems vs) @ CHR '']'' # r) = Some (vs, r)"
  "fs \<noteq> [] \<Longrightarrow> list_all (\<lambda>kv. json_plain (snd kv)) fs \<Longrightarrow>
     length (join '','' (stringify_members fs)) < n \<Longrightarrow>
     p_members n (join '','' (stringify_members fs) @ CHR ''}'' # r) = Some (fs, r)"
proof (induction v and vs and fs arbitrary: n r and n r and n r
    rule: stringify_stringify_elems_stringify_members.induct)
  case 1
  then show ?case by simp
next
  case 2
  then show ?case by (cases n) (simp_all add: dquote_def json_ws_def)
next
  case (3 b)
  then show ?case by (cases n; cases b) (simp_all add: dquote_def json_ws_def)
next
  case (4 x)
  have "n \<noteq> 0" using 4(3) stringify_not_Nil [of "JNum x"] by (cases n) auto
  with 4 show ?case by (simp add: p_value_num)
next
  case 5
  then show ?case by simp
next
  case (6 p)
  then show ?case by simp
next
  case (7 w)
  then have "n \<noteq> 0" using length_quote [of w] by auto
  then show ?case by (simp add: p_value_str)
next
  case (8 vs)
  from 8(4) obtain m where n: "n = Suc m" by (cases n) auto
  show ?case
  proof (cases vs)
    case Nil
    then show ?thesis using n by (simp add: dquote_def)
  next
    case (Cons v ws)
    obtain c cs where c: "stringify v = c # cs" "value_head c" using stringify_head by blast
    have h: "join '','' (stringify_elems vs) = c # cs @ drop (length (stringify v)) (join '','' (stringify_elems vs))"
      using Cons c by (cases ws) simp_all
    have "p_elems m (join '','' (stringify_elems vs) @ CHR '']'' # r) = Some (vs, r)"
      using 8 n Cons by (intro "8.IH") (auto simp: list_all_iff)
    moreover have "skip_ws (join '','' (stringify_elems vs) @ CHR '']'' # r) \<noteq> []
        \<and> hd (skip_ws (join '','' (stringify_elems vs) @ CHR '']'' # r)) \<noteq> CHR '']''"
      using h c(2) by (metis append_Cons list.discI list.sel(1) skip_ws_Cons value_head_def
          insertI1 list.set(2))
    ultimately show ?thesis using n by (simp add: dquote_def)
  qed
next
  case (9 fs)
  from 9(4) obtain m where n: "n = Suc m" by (cases n) auto
  show ?case
  proof (cases fs)
    case Nil
    then show ?thesis using n by (simp add: dquote_def)
  next
    case (Cons kv ws)
    obtain k v where kv: "kv = (k, v)" by fastforce
    have v: "v \<noteq> JUndef" using 9(2) Cons kv by auto
    have "\<exists>t. join '','' (stringify_members fs) = dquote # t"
      using Cons kv v by (cases "stringify_members ws") (simp_all add: quote_def)
    then obtain t where h: "join '','' (stringify_members fs) = dquote # t" ..
    have "p_members m (join '','' (stringify_members fs) @ CHR ''}'' # r) = Some (fs, r)"
      using 9 n Cons by (intro "9.IH") (auto simp: list_all_iff)
    moreover have "build_object fs = JObj fs" using 9(2) by (simp add: build_object_distinct)
    ultimately show ?thesis using n h by (simp add: dquote_def)
  qed
next
  case 10
  then show ?case by simp
next
  case (11 v vs)
  from 11(5) obtain m where n: "n = Suc m" by (cases n) auto
  show ?case
  proof (cases vs)
    case Nil
    have "p_value m (stringify v @ CHR '']'' # r) = Some (v, CHR '']'' # r)"
      using 11 n Nil by (intro "11.IH"(1)) auto
    from p_elems_one [OF this] n Nil show ?thesis by simp
  next
    case (Cons w ws)
    let ?t = "join '','' (stringify_elems vs) @ CHR '']'' # r"
    have len: "length (stringify v) \<le> m" "length (join '','' (stringify_elems vs)) < m"
      using 11(5) n Cons by auto
    have "p_value m (stringify v @ CHR '','' # ?t) = Some (v, CHR '','' # ?t)"
      using 11 len by (intro "11.IH"(1)) auto
    moreover have "p_elems m ?t = Some (vs, r)"
      using 11 len Cons by (intro "11.IH"(2)) auto
    ultimately show ?thesis
      using p_elems_more [of m "stringify v"] n Cons by simp
  qed
next
  case 12
  then show ?case by simp
next
  case (13 k v fs)
  have v: "v \<noteq> JUndef" "json_plain v" using 13(5) by (auto dest: plain_not_undef)
  from 13(6) obtain m where n: "n = Suc m" by (cases n) auto
  show ?case
  proof (cases fs)
    case Nil
    have "p_value m (stringify v @ CHR ''}'' # r) = Some (v, CHR ''}'' # r)"
      using 13 n Nil v by (intro "13.IH"(2)) auto
    from p_members_step [OF this] n Nil v show ?thesis by simp
  next
    case (Cons kw ws)
    obtain k2 w where kw: "kw = (k2, w)" by fastforce
    have w: "w \<noteq> JUndef" using 13(5) Cons kw by (auto dest: plain_not_undef)
    let ?t = "join '','' (stringify_members fs) @ CHR ''}'' # r"
    have jn: "join '','' (stringify_members ((k, v) # fs)) =
        quote k @ CHR '':'' # stringify v @ CHR '','' # join '','' (stringify_members fs)"
      using v w Cons kw by simp
    then have len: "length (stringify v) \<le> m" "length (join '','' (stringify_members fs)) < m"
      using 13(6) n by auto
    have "p_value m (stringify v @ CHR '','' # ?t) = Some (v, CHR '','' # ?t)"
      using v len by (intro "13.IH"(2)) auto
    from p_members_step [OF this] have "p_members (Suc m) (quote k @ CHR '':'' # stringify v @ CHR '','' # ?t) =
        map_option (\<lambda>(fs, u). ((k, v) # fs, u)) (p_members m ?t)" by simp
    moreover have "p_members m ?t = Some (fs, r)"
      using 13(5) v len Cons by (intro "13.IH"(3)) auto
    ultimately show ?thesis using n jn by simp
  qed
qed

theorem json_roundtrip: "json_plain v \<Longrightarrow> json_parse (stringify v) = Some v"
  using parse_stringify(1) [of v "[]" "Suc (length (stringify v))"]
  by (simp add: json_parse_def skip_ws_def)

section \<open>A printed value is one line\<close>

lemma join_set: "c \<in> set (join d ws) \<Longrightarrow> c \<in> set d \<or> (\<exists>w\<in>set ws. c \<in> set w)"
  by (induction ws rule: join.induct) auto

lemma quote_printable: "c \<in> set (quote w) \<Longrightarrow> 32 \<le> code_of c"
  by (auto simp: quote_def dquote_def dest: escape_char_printable)

lemma digit_char_printable: "d < 10 \<Longrightarrow> 32 \<le> code_of (digit_char d)"
  by (simp add: digit_char_def)

lemma frac_digits_printable:
  "0 \<le> f \<Longrightarrow> f < 1 \<Longrightarrow> c \<in> set (frac_digits k f) \<Longrightarrow> 32 \<le> code_of c"
proof (induction k arbitrary: f)
  case (Suc k)
  let ?d = "nat \<lfloor>10 * f\<rfloor>"
  have d: "?d < 10" using Suc.prems by (simp add: nat_less_iff floor_less_iff)
  have "of_nat ?d = (of_int \<lfloor>10 * f\<rfloor> :: num)" using Suc.prems(1) by simp
  then have "0 \<le> 10 * f - of_nat ?d" "10 * f - of_nat ?d < 1" by linarith+
  note IH = Suc.IH [OF this]
  show ?case
    using Suc.prems(3) IH digit_char_printable [OF d] by (auto simp: Let_def split: if_splits)
qed simp

lemma show_num_printable: "c \<in> set (show_num x) \<Longrightarrow> 32 \<le> code_of c"
proof -
  let ?a = "\<bar>x\<bar>"
  have "of_nat (nat \<lfloor>?a\<rfloor>) = (of_int \<lfloor>?a\<rfloor> :: num)" by simp
  then have f: "0 \<le> ?a - of_nat (nat \<lfloor>?a\<rfloor>)" "?a - of_nat (nat \<lfloor>?a\<rfloor>) < 1" by linarith+
  have dig: "is_digit d \<Longrightarrow> 32 \<le> code_of d" for d by (simp add: is_digit_def Let_def)
  have nat: "d \<in> set (show_nat (nat \<lfloor>?a\<rfloor>)) \<Longrightarrow> 32 \<le> code_of d" for d
    using show_nat_digits [of "nat \<lfloor>?a\<rfloor>"] dig by (auto simp: list_all_iff simp del: nat_eq_iff)
  show "c \<in> set (show_num x) \<Longrightarrow> 32 \<le> code_of c"
    using frac_digits_printable [OF f, of c] nat [of c]
    by (auto simp: show_num_def Let_def split: if_splits)
qed

lemma stringify_printable:
  "c \<in> set (stringify v) \<Longrightarrow> 32 \<le> code_of c"
  "w \<in> set (stringify_elems vs) \<Longrightarrow> c \<in> set w \<Longrightarrow> 32 \<le> code_of c"
  "w \<in> set (stringify_members fs) \<Longrightarrow> c \<in> set w \<Longrightarrow> 32 \<le> code_of c"
proof (induction v and vs and fs arbitrary: c and w c and w c
    rule: stringify_stringify_elems_stringify_members.induct)
  case (4 n)
  then show ?case by (auto dest: show_num_printable)
next
  case (7 s)
  then show ?case by (auto dest: quote_printable)
next
  case (8 vs)
  then show ?case by (auto dest!: join_set)
next
  case (9 fs)
  then show ?case by (auto dest!: join_set)
next
  case (13 k v fs)
  then show ?case by (auto dest: quote_printable split: if_splits)
qed (auto split: if_splits)

lemma stringify_one_line: "newline \<notin> set (stringify v)"
  using stringify_printable(1) [of newline v] by (auto simp: newline_def)

lemma stringify_not_blank: "trim (stringify v) \<noteq> []"
proof -
  obtain c cs where c: "stringify v = c # cs" "value_head c" using stringify_head by blast
  then have "\<not> is_space c" by (simp add: value_head_def)
  then show ?thesis
    using c by (auto simp: trim_def trim_start_def trim_end_def dropWhile_eq_Nil_conv)
qed

section \<open>The code's line format is a line codec\<close>

text \<open>What \<open>parseLine\<close> makes of a line: \<open>JSON.parse\<close>, dropped when it throws or is falsy.\<close>

definition parse_event :: "string \<Rightarrow> jsval option" where
  "parse_event line =
     (case json_parse line of None \<Rightarrow> None | Some v \<Rightarrow> if js_truthy v then Some v else None)"

definition loggable :: "jsval \<Rightarrow> bool" where
  "loggable v = (json_plain v \<and> js_truthy v)"

interpretation jl: line_codec stringify parse_event loggable
  by unfold_locales
    (simp_all add: parse_event_def loggable_def json_roundtrip stringify_one_line stringify_not_blank)

end
