(* ===== verification/Transcript.thy ===== *)
theory Transcript
  imports Json_Facts
begin

text \<open>
  A session's transcript (the log half of \<open>daemon/src/session.ts\<close>): the capped in-memory tail,
  the counters, the append-only active log file and its rotation. Events are the JSON values the
  code keeps and writes; \<open>event_json\<close> builds them from \<open>chat_event\<close>. The lemmas refine the
  whole thing to a plain list of events: appending adds one at the end, a rotation and a restart
  change nothing, and the two queries return slices of that list.
\<close>

section \<open>Events as JSON\<close>

definition opt_member :: "string \<Rightarrow> ('a \<Rightarrow> jsval) \<Rightarrow> 'a option \<Rightarrow> (string \<times> jsval) list" where
  "opt_member k f x = (case x of None \<Rightarrow> [] | Some v \<Rightarrow> [(k, f v)])"

text \<open>A member that is \<open>undefined\<close> is as good as absent: nothing tells the two apart.\<close>

definition def_member :: "string \<Rightarrow> jsval \<Rightarrow> (string \<times> jsval) list" where
  "def_member k v = (if v = JUndef then [] else [(k, v)])"

definition ref_json :: "attachment_ref \<Rightarrow> jsval" where
  "ref_json r = JObj
     ([(''kind'', JStr (case ref_kind r of Ref_image \<Rightarrow> ''image'' | Ref_file \<Rightarrow> ''file'')),
       (''label'', JStr (ref_label r))]
      @ opt_member ''path'' JStr (ref_path r) @ opt_member ''mediaType'' JStr (ref_media r))"

definition status_name :: "session_status \<Rightarrow> string" where
  "status_name s = (case s of Idle \<Rightarrow> ''idle'' | Running \<Rightarrow> ''running'' | Status_error \<Rightarrow> ''error'')"

definition answers_json :: "(string \<times> string) list \<Rightarrow> jsval" where
  "answers_json a = JObj (map (\<lambda>(k, v). (k, JStr v)) a)"

definition nullable :: "string option \<Rightarrow> jsval" where
  "nullable x = (case x of None \<Rightarrow> JNull | Some s \<Rightarrow> JStr s)"

fun event_json :: "chat_event \<Rightarrow> jsval" where
  "event_json (User_message t refs cid) = JObj
     ([(''type'', JStr ''user_message''), (''text'', JStr t)]
      @ (if refs = [] then [] else [(''attachments'', JArr (map ref_json refs))])
      @ opt_member ''clientMessageId'' JStr cid)"
| "event_json (Assistant_text t agent) = JObj
     ([(''type'', JStr ''assistant_text''), (''text'', JStr t)] @ opt_member ''agent'' JStr agent)"
| "event_json (Tool_use tid name inp agent) = JObj
     ([(''type'', JStr ''tool_use'')] @ opt_member ''toolUseId'' JStr tid
      @ [(''toolName'', JStr name)] @ def_member ''input'' inp @ opt_member ''agent'' JStr agent)"
| "event_json (Tool_result tid summ err agent) = JObj
     ([(''type'', JStr ''tool_result'')] @ opt_member ''toolUseId'' JStr tid
      @ [(''summary'', JStr summ), (''isError'', JBool err)] @ opt_member ''agent'' JStr agent)"
| "event_json (Permission_request rid name inp) = JObj
     ([(''type'', JStr ''permission_request''), (''requestId'', JStr rid),
      (''toolName'', JStr name)] @ def_member ''input'' inp)"
| "event_json (Question_request rid qs) = JObj
     [(''type'', JStr ''question_request''), (''requestId'', JStr rid), (''questions'', qs)]"
| "event_json (Permission_resolved rid allowed answers) = JObj
     ([(''type'', JStr ''permission_resolved''), (''requestId'', JStr rid),
       (''allowed'', JBool allowed)] @ opt_member ''answers'' answers_json answers)"
| "event_json (Status_event st detail act acct) = JObj
     ([(''type'', JStr ''status''), (''status'', JStr (status_name st))]
      @ opt_member ''detail'' JStr detail
      @ opt_member ''action'' (\<lambda>a. JStr ''signin'') act
      @ opt_member ''account'' nullable acct)"
| "event_json (Result_event summ cost dur ctx win turn) = JObj
     ([(''type'', JStr ''result''), (''summary'', JStr summ)]
      @ opt_member ''costUsd'' JNum cost @ opt_member ''durationMs'' JNum dur
      @ opt_member ''contextTokens'' JNum ctx @ opt_member ''contextWindow'' JNum win
      @ opt_member ''turnTokens'' JNum turn)"

text \<open>The SDK's own payloads and the numbers of an event, which must be plain JSON to be logged.\<close>

fun event_plain :: "chat_event \<Rightarrow> bool" where
  "event_plain (Tool_use tid name inp agent) = (inp = JUndef \<or> json_plain inp)"
| "event_plain (Permission_request rid name inp) = (inp = JUndef \<or> json_plain inp)"
| "event_plain (Question_request rid qs) = json_plain qs"
| "event_plain (Permission_resolved rid allowed answers) =
     (case answers of None \<Rightarrow> True | Some a \<Rightarrow> distinct (map fst a))"
| "event_plain (Result_event summ cost dur ctx win turn) =
     (pred_option num_plain cost \<and> pred_option num_plain dur \<and> pred_option num_plain ctx
      \<and> pred_option num_plain win \<and> pred_option num_plain turn)"
| "event_plain e = True"

definition persisted_json :: "nat \<Rightarrow> time_ms \<Rightarrow> jsval \<Rightarrow> jsval" where
  "persisted_json sq now e = JObj [(''seq'', JNum (of_nat sq)), (''ts'', JNum now), (''event'', e)]"

lemma opt_member_simps [simp]:
  "opt_member k f None = []" "opt_member k f (Some v) = [(k, f v)]"
  by (simp_all add: opt_member_def)

lemma json_plain_ref [simp]: "json_plain (ref_json r)"
  by (cases "ref_path r"; cases "ref_media r") (simp_all add: ref_json_def)

lemma json_plain_answers [simp]: "json_plain (answers_json a) \<longleftrightarrow> distinct (map fst a)"
  by (auto simp: answers_json_def comp_def case_prod_beta)

lemma json_plain_nullable [simp]: "json_plain (nullable x)"
  by (simp add: nullable_def split: option.split)

lemma event_json_plain: "event_plain e \<Longrightarrow> json_plain (event_json e)"
  by (cases e) (auto simp: opt_member_def def_member_def split: option.splits)

lemma persisted_loggable:
  "json_plain e \<Longrightarrow> num_plain now \<Longrightarrow> loggable (persisted_json sq now e)"
  by (simp add: persisted_json_def loggable_def)

section \<open>State and operations\<close>

definition MAX_TAIL :: nat where "MAX_TAIL = 1000"

text \<open>
  \<open>tr_fd\<close> tells whether the active file is open (\<open>logFd\<close>); the descriptor always refers to the
  file at the active path, since a rotation closes it first.
\<close>

record transcript =
  tr_id :: string
  tr_dir :: log_dir
  tr_tail :: "jsval list"
  tr_total :: nat
  tr_active :: nat
  tr_fd :: bool

text \<open>\<open>ren\<close> is whether \<open>fs.renameSync\<close> succeeds when the rotation reaches it.\<close>

definition rotateIfNeeded :: "bool \<Rightarrow> transcript \<Rightarrow> transcript" where
  "rotateIfNeeded ren t =
     (if tr_active t < ROTATE_THRESHOLD then t
      else let (done, dir) = rotateActiveLog ren (tr_id t) (tr_dir t)
           in t \<lparr>tr_fd := False, tr_dir := dir, tr_active := (if done then 0 else tr_active t)\<rparr>)"

definition transcript_open :: "bool \<Rightarrow> string \<Rightarrow> log_dir \<Rightarrow> transcript" where
  "transcript_open ren i dir =
     (let tc = loadTailAndCount parse_event dir (allLogFiles i dir) MAX_TAIL;
          per = tc_perFile tc
      in rotateIfNeeded ren
           \<lparr>tr_id = i, tr_dir = dir, tr_tail = tc_tail tc, tr_total = tc_count tc,
            tr_active = (if per = [] then 0 else last per), tr_fd = False\<rparr>)"

text \<open>
  How opening and writing the active file ends: everything written, the file not opened, or a
  write that stopped after some bytes and threw (a full disk).
\<close>

datatype write_outcome = Written | Open_failed | Write_failed nat

datatype log_error = Log_io

text \<open>
  The second half of \<open>appendEvent\<close>. The tail and the counter move before the file is written, so
  an error leaves them moved. The result carries the persisted event for \<open>onEvent\<close>.
\<close>

definition append_persisted ::
    "bool \<Rightarrow> write_outcome \<Rightarrow> time_ms \<Rightarrow> jsval \<Rightarrow> transcript \<Rightarrow> (log_error + jsval) \<times> transcript" where
  "append_persisted ren w now e t =
     (let p = persisted_json (tr_total t) now e;
          line = utf8_encode (stringify p) @ [newline];
          t1 = t \<lparr>tr_total := Suc (tr_total t), tr_tail := push_capped MAX_TAIL (tr_tail t) p\<rparr>;
          put = (\<lambda>bytes. t1 \<lparr>tr_fd := True,
                    tr_dir := append_file (activeLogPath (tr_id t)) bytes (tr_dir t)\<rparr>)
      in case (if tr_fd t \<and> w = Open_failed then Written else w) of
           Open_failed \<Rightarrow> (Inl Log_io, t1)
         | Write_failed n \<Rightarrow> (Inl Log_io, put (take n (butlast line)))
         | Written \<Rightarrow>
             (Inr p, rotateIfNeeded ren ((put line) \<lparr>tr_active := Suc (tr_active t)\<rparr>)))"

definition slice :: "'a list \<Rightarrow> nat \<Rightarrow> nat \<Rightarrow> 'a list" where
  "slice xs i j = drop i (take j xs)"

record page =
  pg_events :: "jsval list"
  pg_hasEarlier :: bool

definition eventsBefore :: "int \<Rightarrow> int \<Rightarrow> transcript \<Rightarrow> page" where
  "eventsBefore beforeSeq limit t =
     (let total = int (tr_total t);
          stop = min (max 0 beforeSeq) total;
          start = max 0 (stop - max 1 limit);
          tailStart = total - int (length (tr_tail t))
      in if stop \<le> start then \<lparr>pg_events = [], pg_hasEarlier = False\<rparr>
         else \<lparr>pg_events =
                 (if tailStart \<le> start
                  then slice (tr_tail t) (nat (start - tailStart)) (nat (stop - tailStart))
                  else readRange parse_event (tr_dir t) (allLogFiles (tr_id t) (tr_dir t))
                         (nat start) (nat stop)),
               pg_hasEarlier = (0 < start)\<rparr>)"

definition eventsSince :: "int \<Rightarrow> int \<Rightarrow> transcript \<Rightarrow> page" where
  "eventsSince sq limit t =
     (let start = max 0 sq; total = int (tr_total t) in
      if total \<le> start then \<lparr>pg_events = [], pg_hasEarlier = False\<rparr>
      else let effectiveStart = max start (total - limit);
               tailStart = total - int (length (tr_tail t))
           in \<lparr>pg_events =
                 (if tailStart \<le> effectiveStart
                  then drop (nat (effectiveStart - tailStart)) (tr_tail t)
                  else readRange parse_event (tr_dir t) (allLogFiles (tr_id t) (tr_dir t))
                         (nat effectiveStart) (nat total)),
               pg_hasEarlier = (start < effectiveStart)\<rparr>)"

definition is_client_message :: "string \<Rightarrow> jsval \<Rightarrow> bool" where
  "is_client_message cid p =
     (js_prop (js_prop p ''event'') ''type'' = JStr ''user_message''
      \<and> js_prop (js_prop p ''event'') ''clientMessageId'' = JStr cid)"

definition hasClientMessage :: "string \<Rightarrow> transcript \<Rightarrow> bool" where
  "hasClientMessage cid t = (\<exists>p\<in>set (tr_tail t). is_client_message cid p)"

section \<open>Refinement to a list of events\<close>

definition transcript_events :: "transcript \<Rightarrow> jsval list" where
  "transcript_events t = log_events parse_event (tr_dir t) (allLogFiles (tr_id t) (tr_dir t))"

definition active_events :: "transcript \<Rightarrow> jsval list" where
  "active_events t = file_events parse_event (map_of (tr_dir t) (activeLogPath (tr_id t)))"

definition transcript_ok :: "transcript \<Rightarrow> bool" where
  "transcript_ok t =
     (terminated (map_of (tr_dir t) (activeLogPath (tr_id t)))
      \<and> tr_total t = length (transcript_events t)
      \<and> tr_tail t = take_last MAX_TAIL (transcript_events t)
      \<and> tr_active t = length (active_events t))"

lemma rotateIfNeeded_same [simp]:
  "tr_id (rotateIfNeeded ren t) = tr_id t" "tr_tail (rotateIfNeeded ren t) = tr_tail t"
  "tr_total (rotateIfNeeded ren t) = tr_total t"
  by (simp_all add: rotateIfNeeded_def split: prod.split)

lemma rotateIfNeeded_events [simp]:
  "transcript_events (rotateIfNeeded ren t) = transcript_events t"
  using rotate_keeps_events(1) [of ren "tr_id t" "tr_dir t" _ _ parse_event]
  by (cases "rotateActiveLog ren (tr_id t) (tr_dir t)")
     (simp add: rotateIfNeeded_def transcript_events_def)

lemma rotateIfNeeded_ok:
  assumes "transcript_ok t"
  shows "transcript_ok (rotateIfNeeded ren t)"
proof (cases "tr_active t < ROTATE_THRESHOLD")
  case True
  with assms show ?thesis by (simp add: rotateIfNeeded_def)
next
  case False
  obtain don dir' where r: "rotateActiveLog ren (tr_id t) (tr_dir t) = (don, dir')"
    by (cases "rotateActiveLog ren (tr_id t) (tr_dir t)") auto
  have ev: "transcript_events (rotateIfNeeded ren t) = transcript_events t" by simp
  have t': "rotateIfNeeded ren t =
      t \<lparr>tr_fd := False, tr_dir := dir', tr_active := (if don then 0 else tr_active t)\<rparr>"
    using False r by (simp add: rotateIfNeeded_def)
  note k = rotate_keeps_events(2,3) [OF r]
  show ?thesis
    using assms ev k by (cases don) (auto simp: t' transcript_ok_def active_events_def terminated_def)
qed

lemma transcript_open_ok:
  assumes "terminated (map_of dir (activeLogPath i))"
  shows "transcript_ok (transcript_open ren i dir)"
    and "transcript_events (transcript_open ren i dir) = log_events parse_event dir (allLogFiles i dir)"
proof -
  let ?t = "\<lparr>tr_id = i, tr_dir = dir,
      tr_tail = take_last MAX_TAIL (log_events parse_event dir (allLogFiles i dir)),
      tr_total = length (log_events parse_event dir (allLogFiles i dir)),
      tr_active = length (file_events parse_event (map_of dir (activeLogPath i))), tr_fd = False\<rparr>"
  have t: "transcript_open ren i dir = rotateIfNeeded ren ?t"
    by (simp add: transcript_open_def loadTailAndCount_spec Let_def allLogFiles_def)
  have "transcript_ok ?t"
    using assms by (simp add: transcript_ok_def transcript_events_def active_events_def)
  then show "transcript_ok (transcript_open ren i dir)" by (simp add: t rotateIfNeeded_ok)
  show "transcript_events (transcript_open ren i dir) = log_events parse_event dir (allLogFiles i dir)"
    by (simp add: t) (simp add: transcript_events_def)
qed

definition next_event :: "time_ms \<Rightarrow> jsval \<Rightarrow> transcript \<Rightarrow> jsval" where
  "next_event now e t = persisted_json (tr_total t) now e"

text \<open>The transcript once the line is written, before the rotation that may follow.\<close>

definition written :: "time_ms \<Rightarrow> jsval \<Rightarrow> transcript \<Rightarrow> transcript" where
  "written now e t =
     t \<lparr>tr_total := Suc (tr_total t), tr_tail := push_capped MAX_TAIL (tr_tail t) (next_event now e t),
        tr_fd := True,
        tr_dir := append_file (activeLogPath (tr_id t))
          (utf8_encode (stringify (next_event now e t)) @ [newline]) (tr_dir t),
        tr_active := Suc (tr_active t)\<rparr>"

lemma append_persisted_written_eq:
  "append_persisted ren Written now e t = (Inr (next_event now e t), rotateIfNeeded ren (written now e t))"
  by (simp add: append_persisted_def next_event_def written_def Let_def)

lemma written_events:
  assumes "terminated (map_of (tr_dir t) (activeLogPath (tr_id t)))" and "json_plain e" and "num_plain now"
  shows "transcript_events (written now e t) = transcript_events t @ [next_event now e t]"
    and "active_events (written now e t) = active_events t @ [next_event now e t]"
proof -
  let ?p = "next_event now e t"
  let ?a = "activeLogPath (tr_id t)"
  let ?dir = "append_file ?a (utf8_encode (stringify ?p) @ [newline]) (tr_dir t)"
  have p: "loggable ?p" using assms(2,3) by (simp add: next_event_def persisted_loggable)
  have act: "file_events parse_event (map_of ?dir ?a) =
      file_events parse_event (map_of (tr_dir t) ?a) @ [?p]"
    using jl.file_events_append [OF assms(1) p] .
  have arch: "map (\<lambda>g. file_events parse_event (map_of ?dir (archiveLogPath (tr_id t) g))) gs =
      map (\<lambda>g. file_events parse_event (map_of (tr_dir t) (archiveLogPath (tr_id t) g))) gs" for gs
    by (rule map_cong) (simp_all add: append_file_get)
  show "transcript_events (written now e t) = transcript_events t @ [?p]"
    using act by (simp add: transcript_events_def written_def log_events_all arch)
  show "active_events (written now e t) = active_events t @ [?p]"
    using act by (simp add: active_events_def written_def)
qed

lemma append_written:
  assumes "transcript_ok t" and "json_plain e" and "num_plain now"
  obtains t' where
    "append_persisted ren Written now e t = (Inr (next_event now e t), t')"
    "transcript_ok t'" "transcript_events t' = transcript_events t @ [next_event now e t]"
    "tr_id t' = tr_id t" "tr_total t' = Suc (tr_total t)"
proof -
  let ?p = "next_event now e t"
  have "terminated (map_of (tr_dir t) (activeLogPath (tr_id t)))"
    using assms(1) by (simp add: transcript_ok_def)
  note ev = written_events [OF this assms(2,3)]
  have "length (tr_tail t) \<le> MAX_TAIL" using assms(1) by (simp add: transcript_ok_def take_last_def)
  then have "push_capped MAX_TAIL (tr_tail t) ?p = take_last MAX_TAIL (transcript_events t @ [?p])"
    using assms(1) by (simp add: push_capped_take_last transcript_ok_def take_last_absorb)
  moreover have "terminated (map_of (tr_dir (written now e t)) (activeLogPath (tr_id t)))"
    by (simp add: written_def append_file_get terminated_def split: option.split)
  ultimately have "transcript_ok (written now e t)"
    using assms(1) ev by (simp add: transcript_ok_def) (simp add: written_def)
  then show ?thesis
    using that [OF append_persisted_written_eq] ev by (simp add: rotateIfNeeded_ok) (simp add: written_def)
qed

text \<open>A file that cannot be opened: the event is lost, its number is spent.\<close>

lemma failed_open_drift:
  assumes "transcript_ok t" and "\<not> tr_fd t" and "json_plain e" and "num_plain now"
  shows "\<exists>t1 t2 p. append_persisted ren Open_failed now lost t = (Inl Log_io, t1)
    \<and> transcript_events t1 = transcript_events t
    \<and> append_persisted ren Written now e t1 = (Inr p, t2)
    \<and> transcript_events t2 = transcript_events t @ [p]
    \<and> js_prop p ''seq'' = JNum (of_nat (Suc (length (transcript_events t))))"
proof -
  let ?t1 = "t \<lparr>tr_total := Suc (tr_total t),
      tr_tail := push_capped MAX_TAIL (tr_tail t) (persisted_json (tr_total t) now lost)\<rparr>"
  have t1: "append_persisted ren Open_failed now lost t = (Inl Log_io, ?t1)"
    using assms(2) by (simp add: append_persisted_def Let_def)
  have same: "transcript_events ?t1 = transcript_events t" by (simp add: transcript_events_def)
  have "terminated (map_of (tr_dir ?t1) (activeLogPath (tr_id ?t1)))"
    using assms(1) by (simp add: transcript_ok_def)
  note ev = written_events(1) [OF this assms(3,4)]
  have "js_prop (next_event now e ?t1) ''seq'' = JNum (of_nat (Suc (length (transcript_events t))))"
    using assms(1) by (simp add: next_event_def persisted_json_def transcript_ok_def)
  then show ?thesis
    using t1 same ev append_persisted_written_eq [of ren now e ?t1] by (metis rotateIfNeeded_events)
qed

section \<open>The queries\<close>

lemma drop_take_last:
  assumes "length xs - k \<le> i"
  shows "drop (i - (length xs - length (take_last k xs))) (take_last k xs) = drop i xs"
  using assms by (simp add: take_last_def)

lemma slice_empty: "j \<le> i \<Longrightarrow> slice xs i j = []"
  by (simp add: slice_def)

lemma slice_drop: "d \<le> i \<Longrightarrow> slice (drop d xs) (i - d) (j - d) = slice xs i j"
  by (cases "d \<le> j") (simp_all add: slice_def take_drop)

lemma slice_take_last:
  assumes "length xs - k \<le> i"
  shows "slice (take_last k xs) (i - (length xs - length (take_last k xs)))
           (j - (length xs - length (take_last k xs))) = slice xs i j"
proof -
  have "length xs - length (take_last k xs) = length xs - k" by (simp add: take_last_def)
  then show ?thesis using slice_drop [OF assms] by (simp add: take_last_def)
qed

lemma tail_start:
  assumes "transcript_ok t"
  shows "tr_total t - length (tr_tail t) = length (transcript_events t) - MAX_TAIL"
    and "length (tr_tail t) \<le> tr_total t"
  using assms by (simp_all add: transcript_ok_def take_last_def)

lemma readRange_transcript:
  "readRange parse_event (tr_dir t) (allLogFiles (tr_id t) (tr_dir t)) i j = slice (transcript_events t) i j"
  by (simp add: readRange_spec transcript_events_def slice_def)

lemma nat_sub: "nat (x - int k) = nat x - k"
  by linarith

text \<open>Whether a page comes from memory or from the files makes no difference.\<close>

lemma eventsBefore_slice:
  assumes "transcript_ok t"
  shows "eventsBefore b n t =
    (let total = int (length (transcript_events t));
         stop = min (max 0 b) total; start = max 0 (stop - max 1 n)
     in \<lparr>pg_events = slice (transcript_events t) (nat start) (nat stop),
         pg_hasEarlier = (0 < start \<and> start < stop)\<rparr>)"
proof -
  define xs where "xs = transcript_events t"
  define stop where "stop = min (max 0 b) (int (length xs))"
  define start where "start = max 0 (stop - max 1 n)"
  define off where "off = length xs - MAX_TAIL"
  have total: "tr_total t = length xs" and tail: "tr_tail t = take_last MAX_TAIL xs"
    using assms by (simp_all add: transcript_ok_def xs_def)
  have off: "int (length xs) - int (length (take_last MAX_TAIL xs)) = int off"
    by (simp add: take_last_def off_def)
  have off': "length xs - length (take_last MAX_TAIL xs) = off" by (simp add: take_last_def off_def)
  have mem: "slice (take_last MAX_TAIL xs) (nat (start - int off)) (nat (stop - int off))
      = slice xs (nat start) (nat stop)" if "int off \<le> start"
  proof -
    have "length xs - MAX_TAIL \<le> nat start" using that off_def by linarith
    from slice_take_last [OF this, of "nat stop"] show ?thesis
      unfolding off' by (simp only: nat_sub)
  qed
  have files: "readRange parse_event (tr_dir t) (allLogFiles (tr_id t) (tr_dir t)) i j = slice xs i j" for i j
    by (simp add: readRange_transcript xs_def)
  have "eventsBefore b n t =
      (if stop \<le> start then \<lparr>pg_events = [], pg_hasEarlier = False\<rparr>
       else \<lparr>pg_events = (if int off \<le> start
               then slice (take_last MAX_TAIL xs) (nat (start - int off)) (nat (stop - int off))
               else slice xs (nat start) (nat stop)), pg_hasEarlier = (0 < start)\<rparr>)"
    unfolding eventsBefore_def Let_def total tail off files stop_def start_def ..
  moreover have "stop \<le> start \<Longrightarrow> slice xs (nat start) (nat stop) = []"
    by (intro slice_empty nat_mono)
  ultimately have "eventsBefore b n t =
      \<lparr>pg_events = slice xs (nat start) (nat stop), pg_hasEarlier = (0 < start \<and> start < stop)\<rparr>"
    using mem by simp
  then show ?thesis unfolding Let_def start_def stop_def xs_def .
qed

lemma eventsSince_slice:
  assumes "transcript_ok t"
  shows "eventsSince sq n t =
    (let total = int (length (transcript_events t)); start = max 0 sq; eff = max start (total - n)
     in \<lparr>pg_events = drop (nat eff) (transcript_events t),
         pg_hasEarlier = (start < total \<and> start < eff)\<rparr>)"
proof -
  define xs where "xs = transcript_events t"
  define start where "start = max 0 sq"
  define eff where "eff = max start (int (length xs) - n)"
  define off where "off = length xs - MAX_TAIL"
  have total: "tr_total t = length xs" and tail: "tr_tail t = take_last MAX_TAIL xs"
    using assms by (simp_all add: transcript_ok_def xs_def)
  have off: "int (length xs) - int (length (take_last MAX_TAIL xs)) = int off"
    by (simp add: take_last_def off_def)
  have off': "length xs - length (take_last MAX_TAIL xs) = off" by (simp add: take_last_def off_def)
  have mem: "drop (nat (eff - int off)) (take_last MAX_TAIL xs) = drop (nat eff) xs" if "int off \<le> eff"
  proof -
    have "length xs - MAX_TAIL \<le> nat eff" using that off_def by linarith
    from drop_take_last [OF this] show ?thesis unfolding off' by (simp only: nat_sub)
  qed
  have files: "readRange parse_event (tr_dir t) (allLogFiles (tr_id t) (tr_dir t)) i (nat (int (length xs)))
      = drop i xs" for i
    by (simp add: readRange_transcript xs_def slice_def)
  have "eventsSince sq n t =
      (if int (length xs) \<le> start then \<lparr>pg_events = [], pg_hasEarlier = False\<rparr>
       else \<lparr>pg_events = (if int off \<le> eff
               then drop (nat (eff - int off)) (take_last MAX_TAIL xs) else drop (nat eff) xs),
             pg_hasEarlier = (start < eff)\<rparr>)"
    unfolding eventsSince_def Let_def total tail off files start_def eff_def ..
  moreover have "drop (nat eff) xs = []" if "int (length xs) \<le> start"
  proof -
    have "length xs \<le> nat eff" using that unfolding eff_def by linarith
    then show ?thesis by simp
  qed
  ultimately have "eventsSince sq n t =
      \<lparr>pg_events = drop (nat eff) xs, pg_hasEarlier = (start < int (length xs) \<and> start < eff)\<rparr>"
    using mem by simp
  then show ?thesis unfolding Let_def start_def eff_def xs_def .
qed

section \<open>Sequence numbers and repeated messages\<close>

text \<open>Event number \<open>n\<close> of the transcript carries the sequence number \<open>n\<close>.\<close>

definition numbered :: "jsval list \<Rightarrow> bool" where
  "numbered es = (\<forall>n<length es. js_prop (es ! n) ''seq'' = JNum (of_nat n))"

lemma numbered_Nil [simp]: "numbered []"
  by (simp add: numbered_def)

lemma seq_next_event [simp]: "js_prop (next_event now e t) ''seq'' = JNum (of_nat (tr_total t))"
  by (simp add: next_event_def persisted_json_def)

lemma numbered_append:
  assumes "numbered es" and "js_prop e ''seq'' = JNum (of_nat (length es))"
  shows "numbered (es @ [e])"
  using assms by (auto simp: numbered_def nth_append less_Suc_eq)

text \<open>A run of appended events, each written completely, with the renames given.\<close>

fun append_all :: "(bool \<times> time_ms \<times> chat_event) list \<Rightarrow> transcript \<Rightarrow> transcript" where
  "append_all [] t = t"
| "append_all ((ren, now, e) # es) t =
     append_all es (snd (append_persisted ren Written now (event_json e) t))"

definition entry_plain :: "bool \<times> time_ms \<times> chat_event \<Rightarrow> bool" where
  "entry_plain = (\<lambda>(ren, now, e). num_plain now \<and> event_plain e)"

fun stamped :: "nat \<Rightarrow> (bool \<times> time_ms \<times> chat_event) list \<Rightarrow> jsval list" where
  "stamped n [] = []"
| "stamped n ((ren, now, e) # es) = persisted_json n now (event_json e) # stamped (Suc n) es"

lemma append_all_events:
  assumes "transcript_ok t" and "list_all entry_plain es"
  shows "transcript_ok (append_all es t) \<and>
    transcript_events (append_all es t) = transcript_events t @ stamped (tr_total t) es \<and>
    tr_id (append_all es t) = tr_id t"
  using assms
proof (induction es arbitrary: t)
  case (Cons x es)
  obtain ren now e where x: "x = (ren, now, e)" by (cases x)
  with Cons.prems have p: "json_plain (event_json e)" "num_plain now"
    by (simp_all add: entry_plain_def event_json_plain)
  obtain t' where t': "append_persisted ren Written now (event_json e) t =
      (Inr (next_event now (event_json e) t), t')" "transcript_ok t'"
    "transcript_events t' = transcript_events t @ [next_event now (event_json e) t]"
    "tr_id t' = tr_id t" "tr_total t' = Suc (tr_total t)"
    using append_written [OF Cons.prems(1) p] by metis
  with Cons.IH [OF t'(2)] Cons.prems x show ?case by (simp add: next_event_def)
qed simp

lemma length_stamped [simp]: "length (stamped n es) = length es"
  by (induction n es rule: stamped.induct) auto

lemma numbered_stamped: "numbered xs \<Longrightarrow> numbered (xs @ stamped (length xs) es)"
proof (induction es arbitrary: xs)
  case (Cons x es)
  obtain ren now e where x: "x = (ren, now, e)" by (cases x)
  let ?p = "persisted_json (length xs) now (event_json e)"
  have "numbered (xs @ [?p])"
    using Cons.prems by (rule numbered_append) (simp add: persisted_json_def)
  from Cons.IH [OF this] show ?case by (simp add: x)
qed simp

lemma in_take_last: "length ys < k \<Longrightarrow> x \<in> set (take_last k (xs @ x # ys))"
  by (cases "k \<le> length xs + Suc (length ys)") (auto simp: take_last_def drop_append Cons_eq_append_conv drop_Cons split: nat.split)

text \<open>A message with a client id is known while fewer than \<open>MAX_TAIL\<close> events came after it.\<close>

lemma is_client_message_logged: "is_client_message cid (persisted_json n now (event_json (User_message w refs (Some cid))))"
  by (simp add: is_client_message_def persisted_json_def)

lemma message_known:
  assumes "transcript_ok t" and "num_plain now" and "list_all entry_plain es" and "length es < MAX_TAIL"
    and t'_def: "t' = append_all ((ren, now, User_message w refs (Some cid)) # es) t"
  shows "hasClientMessage cid t'" and "hasClientMessage cid (transcript_open ren' (tr_id t') (tr_dir t'))"
proof -
  let ?e = "(ren, now, User_message w refs (Some cid))"
  have p: "list_all entry_plain (?e # es)" using assms(2,3) by (simp add: entry_plain_def)
  from append_all_events [OF assms(1) p]
  have ok: "transcript_ok t'" and ev: "transcript_events t' = transcript_events t @ stamped (tr_total t) (?e # es)"
    by (simp_all only: t'_def)
  let ?m = "persisted_json (tr_total t) now (event_json (User_message w refs (Some cid)))"
  have "?m \<in> set (take_last MAX_TAIL (transcript_events t @ ?m # stamped (Suc (tr_total t)) es))"
    using assms(4) in_take_last [of "stamped (Suc (tr_total t)) es" MAX_TAIL ?m "transcript_events t"] by simp
  then have m: "?m \<in> set (take_last MAX_TAIL (transcript_events t'))" by (simp add: ev)
  then show "hasClientMessage cid t'"
    using ok is_client_message_logged unfolding hasClientMessage_def transcript_ok_def by metis
  have "terminated (map_of (tr_dir t') (activeLogPath (tr_id t')))" using ok by (simp add: transcript_ok_def)
  note o = transcript_open_ok [OF this, of ren']
  have "tr_tail (transcript_open ren' (tr_id t') (tr_dir t')) = take_last MAX_TAIL (transcript_events t')"
    using o unfolding transcript_ok_def by (simp add: transcript_events_def)
  with m show "hasClientMessage cid (transcript_open ren' (tr_id t') (tr_dir t'))"
    using is_client_message_logged unfolding hasClientMessage_def by metis
qed

end
