(* ===== verification/Evidence.thy ===== *)
theory Evidence
  imports Naming Transcript
begin

text \<open>
  The evidence half of \<open>daemon/src/titler.ts\<close>: which part of the log is read for a name, the
  exchanges picked from it, the branches, the vocabulary and the issue of a session, and the
  prompt made of them. An event is the JSON value of the log. The lemmas bound what is read and
  what is kept, and show that every counted word, branch and issue comes from the events.
\<close>

definition MAX_EXCHANGE_CHARS :: nat where "MAX_EXCHANGE_CHARS = 300"
definition MIN_SUBSTANCE_CHARS :: nat where "MIN_SUBSTANCE_CHARS = 16"
definition OPENING_EVENTS :: nat where "OPENING_EVENTS = 40"
definition SLICE_EVENTS :: nat where "SLICE_EVENTS = 150"

section \<open>What to read\<close>

record naming_window =
  nw_opening :: "nat \<times> nat"
  nw_spread :: "(nat \<times> nat) list"

text \<open>
  \<open>Math.floor(span * 0.34)\<close> in doubles is \<open>span * 34 div 100\<close>: the double nearest to 0.34
  lies above it by less than one part in ten to the sixteenth, and likewise for 0.67.
\<close>

definition namingWindow :: "nat \<Rightarrow> nat option \<Rightarrow> naming_window" where
  "namingWindow tot clearedAt =
     (let from_ev = min (case clearedAt of None \<Rightarrow> 0 | Some c \<Rightarrow> c) tot;
          span = tot - from_ev;
          range = (\<lambda>start len. (start, min tot (start + len)))
      in \<lparr>nw_opening = range from_ev OPENING_EVENTS,
          nw_spread = map (\<lambda>pc. range (from_ev + span * pc div 100) SLICE_EVENTS) [0, 34, 67]\<rparr>)"

section \<open>Messages\<close>

datatype speaker = User | Assistant

record exchange =
  ex_role :: speaker
  ex_text :: string

definition event_type :: "jsval \<Rightarrow> string" where
  "event_type e = (case js_prop e ''type'' of JStr t \<Rightarrow> t | _ \<Rightarrow> [])"

definition event_text :: "jsval \<Rightarrow> string" where
  "event_text e = (case js_prop e ''text'' of JStr t \<Rightarrow> t | _ \<Rightarrow> [])"

definition message_of :: "jsval \<Rightarrow> exchange option" where
  "message_of e =
     (let role = (if event_type e = ''user_message'' then Some User
                  else if event_type e = ''assistant_text'' then Some Assistant else None)
      in case role of
           None \<Rightarrow> None
         | Some r \<Rightarrow>
             let text = trim (event_text e) in
             if text = [] \<or> starts_with text ''/'' then None
             else Some \<lparr>ex_role = r, ex_text = take MAX_EXCHANGE_CHARS text\<rparr>)"

definition messagesOf :: "jsval list \<Rightarrow> exchange list" where
  "messagesOf events = List.map_filter message_of events"

section \<open>Branches\<close>

definition NOT_A_SUBJECT :: "string list" where
  "NOT_A_SUBJECT =
    [''the'', ''a'', ''an'', ''and'', ''or'', ''but'', ''if'', ''then'', ''than'', ''that'',
     ''this'', ''these'', ''those'', ''there'', ''here'', ''it'', ''its'', ''is'', ''are'',
     ''was'', ''were'', ''be'', ''been'', ''being'', ''do'', ''does'', ''did'', ''doing'',
     ''have'', ''has'', ''had'', ''having'', ''will'', ''would'', ''can'', ''could'', ''should'',
     ''may'', ''might'', ''must'', ''not'', ''no'', ''yes'', ''so'', ''as'', ''of'', ''to'',
     ''in'', ''on'', ''at'', ''by'', ''for'', ''with'', ''from'', ''into'', ''out'', ''up'',
     ''down'', ''over'', ''under'', ''again'', ''once'', ''all'', ''any'', ''both'', ''each'',
     ''few'', ''more'', ''most'', ''other'', ''some'', ''such'', ''only'', ''own'', ''same'',
     ''too'', ''very'', ''just'', ''now'', ''also'', ''i'', ''you'', ''we'', ''they'', ''he'',
     ''she'', ''them'', ''us'', ''our'', ''your'', ''my'', ''me'', ''file'', ''files'', ''line'',
     ''lines'', ''code'', ''test'', ''tests'', ''testing'', ''fix'', ''fixes'', ''fixed'',
     ''run'', ''runs'', ''running'', ''check'', ''checks'', ''add'', ''added'', ''adds'', ''use'',
     ''used'', ''uses'', ''using'', ''make'', ''makes'', ''made'', ''need'', ''needs'',
     ''needed'', ''want'', ''get'', ''gets'', ''got'', ''put'', ''see'', ''look'', ''looks'',
     ''looking'', ''work'', ''works'', ''working'', ''error'', ''errors'', ''fail'', ''fails'',
     ''failed'', ''failing'', ''pass'', ''passes'', ''passed'', ''green'', ''red'', ''build'',
     ''builds'', ''commit'', ''commits'', ''branch'', ''main'', ''pr'', ''prs'', ''review'',
     ''ci'', ''npm'', ''node'', ''git'', ''diff'', ''patch'', ''merge'', ''merged'', ''log'',
     ''logs'', ''function'', ''const'', ''let'', ''var'', ''return'', ''type'', ''types'',
     ''import'', ''export'', ''class'', ''async'', ''await'', ''null'', ''true'', ''false'',
     ''undefined'', ''string'', ''number'', ''boolean'', ''one'', ''two'', ''three'', ''first'',
     ''second'', ''next'', ''last'', ''new'', ''old'', ''good'', ''bad'', ''sure'', ''okay'',
     ''well'', ''right'', ''wrong'', ''thing'', ''things'', ''way'', ''ways'', ''time'',
     ''times'', ''command'', ''description'', ''grep'', ''head'', ''echo'', ''tmp'', ''src'',
     ''app'', ''apps'', ''home'', ''coder'', ''timeout'', ''sed'', ''awk'', ''cat'', ''mkdir'',
     ''npx'', ''python'', ''bash'', ''tsx'', ''json'', ''path'', ''dir'', ''index'', ''utils'',
     ''lib'', ''components'', ''pages'', ''shared'', ''common'', ''config'', ''scripts'',
     ''frontend'', ''backend'', ''widgets'', ''entities'', ''features'', ''services'', ''rest'',
     ''docs'', ''probably'', ''actually'', ''really'', ''maybe'', ''still'', ''already'',
     ''instead'', ''perhaps'', ''quite'', ''rather'', ''almost'', ''always'', ''never'',
     ''let'' @ [CHR 0x27] @ ''s'', ''lets'', ''please'', ''thanks'', ''okay'', ''sorry'',
     ''yeah'', ''nope'']"

definition NOT_A_BRANCH :: rx where
  "NOT_A_BRANCH =
     rx_seq [RBos,
       rx_alts (map rx_ci [''main'', ''master'', ''trunk'', ''dev'', ''develop'', ''head'', ''origin'',
                           ''upstream'', ''staging'', ''prod'', ''production'', ''above'', ''deleted'']
                @ [rx_seq [rx_lit ''--'', rx_star (RCh (\<lambda>c. code_of c \<noteq> 10 \<and> code_of c \<noteq> 13))]]),
       REos]"

definition FILE_PATTERN :: rx where
  "FILE_PATTERN =
     rx_seq [rx_lit ''.'',
       rx_alts [rx_ci ''md'', rx_ci ''ts'', rx_ci ''tsx'', rx_ci ''js'', rx_ci ''json'', rx_ci ''py'',
                rx_ci ''sql'', rx_seq [rx_ci ''y'', rx_opt (rx_ci ''a''), rx_ci ''ml''], rx_ci ''txt'',
                rx_ci ''sh'', rx_ci ''toml'', rx_ci ''lock''],
       REos]"

definition AGENT_PATTERN :: rx where
  "AGENT_PATTERN =
     rx_seq [RBos, rx_ci ''agent'', rx_opt (rx_lit ''-''),
             rx_star (RCh (\<lambda>c. is_digit c \<or> lower_char c \<in> set ''abcdef'')), REos]"

definition REMOTE_PATTERN :: rx where
  "REMOTE_PATTERN = rx_seq [RBos, rx_alts [rx_lit ''origin'', rx_lit ''upstream''], rx_lit ''/'']"

definition contains :: "string \<Rightarrow> string \<Rightarrow> bool" where
  "contains s w = rx_test (rx_lit w) s"

text \<open>The key \<open>bump\<close> counts a raw ref under, when it counts it.\<close>

definition branch_key :: "string \<Rightarrow> string option" where
  "branch_key raw =
     (if contains raw ''..'' then None
      else let name0 = rx_replace REMOTE_PATTERN [] raw;
               name = (if name0 \<noteq> [] \<and> last name0 = CHR ''.'' then butlast name0 else name0);
               leaf = last (split_char slash name)
           in if leaf = [] \<or> length leaf < 4 \<or> rx_test NOT_A_BRANCH name \<or> rx_test NOT_A_BRANCH leaf
              then None
              else if rx_test FILE_PATTERN leaf then None
              else if rx_test AGENT_PATTERN leaf then None
              else Some leaf)"

definition ref_char :: "char \<Rightarrow> bool" where
  "ref_char c = (is_word c \<or> c \<in> set ''.-'')"

definition BRANCH_PATTERNS :: "rx list" where
  "BRANCH_PATTERNS =
     [rx_seq [rx_alts [rx_seq [rx_lit ''checkout'', rx_plus rx_space, rx_lit ''-b''],
                       rx_seq [rx_lit ''switch'', rx_plus rx_space, rx_lit ''-c''],
                       rx_lit ''--head'', rx_lit ''--branch''],
              rx_plus rx_space, RGrp 1 (rx_plus (RCh (\<lambda>c. ref_char c \<or> c = slash)))],
      rx_seq [rx_lit ''worktrees/'', RGrp 1 (rx_plus (RCh ref_char))],
      rx_seq [RWordB, rx_alts (map rx_lit [''feat'', ''fix'', ''chore'', ''refactor'', ''probe'', ''perf'']),
              rx_lit ''/'', RGrp 1 (rx_plus (RCh ref_char))]]"

definition captures :: "rx \<Rightarrow> nat \<Rightarrow> string \<Rightarrow> string list" where
  "captures r k s = List.map_filter (\<lambda>(b, e, cs). rx_group s cs k) (rx_all r s 0)"

text \<open>\<open>JSON.stringify(event.input ?? '')\<close>.\<close>

definition input_blob :: "jsval \<Rightarrow> string" where
  "input_blob e =
     (let i = js_prop e ''input'' in stringify (if i = JUndef \<or> i = JNull then JStr [] else i))"

definition branch_mentions :: "jsval list \<Rightarrow> string list" where
  "branch_mentions events =
     List.map_filter branch_key
       (concat (map (\<lambda>e. if event_type e \<noteq> ''tool_use'' then []
                         else concat (map (\<lambda>r. captures r 1 (input_blob e)) BRANCH_PATTERNS)) events))"

text \<open>Insertion-ordered counts, most frequent first, ties in insertion order.\<close>

definition tally :: "('k \<times> nat) list \<Rightarrow> ('k \<times> nat) list" where
  "tally bumps = foldl (\<lambda>m (k, n). bump_by n k m) [] bumps"

definition tally_ones :: "'k list \<Rightarrow> ('k \<times> nat) list" where
  "tally_ones ks = tally (map (\<lambda>k. (k, 1)) ks)"

definition ranked :: "('k \<times> nat) list \<Rightarrow> ('k \<times> nat) list" where
  "ranked m = sort_desc (\<lambda>kv. int (snd kv)) m"

definition branch_words :: "string \<Rightarrow> string" where
  "branch_words name = trim (rx_replace_all (rx_plus (rx_in ''-_.'')) '' '' name)"

definition sessionBranches :: "nat \<Rightarrow> jsval list \<Rightarrow> string list" where
  "sessionBranches limit events =
     map (\<lambda>kv. branch_words (fst kv))
       (take limit (ranked (tally_ones (branch_mentions events))))"

section \<open>Vocabulary\<close>

definition vocab_word :: "string \<Rightarrow> string option" where
  "vocab_word w0 =
     (let w = to_lower w0 in
      if length w < 3 \<or> w \<in> set NOT_A_SUBJECT \<or> list_all is_digit w then None else Some w)"

definition file_name_pattern :: rx where
  "file_name_pattern =
     rx_seq [rx_star (RCh (\<lambda>c. is_word c \<or> c \<in> set ''./-'')), rx_lit ''/'',
             RGrp 1 (rx_plus (RCh (\<lambda>c. is_word c \<or> c = CHR ''-''))), rx_lit ''.'',
             rx_alts (map rx_lit [''ts'', ''tsx'', ''js'', ''py'', ''sql'', ''md'', ''vue'', ''go'',
                                  ''rs'', ''java'', ''rb''])]"

definition dir_name_pattern :: rx where
  "dir_name_pattern =
     rx_seq [rx_lit ''/'',
             RGrp 1 (RSeq (RCh is_alpha) (RRep True (RCh (\<lambda>c. is_word c \<or> c = CHR ''-'')) 3 None)),
             rx_lit ''/'']"

definition vocab_bumps :: "jsval \<Rightarrow> (string \<times> nat) list" where
  "vocab_bumps e =
     (if event_type e = ''user_message'' \<or> event_type e = ''assistant_text'' then
        (let weight = (if event_type e = ''user_message'' then 3 else 1)
         in map (\<lambda>w. (w, weight))
              (split_runs (\<lambda>c. \<not> (is_alpha c \<or> c \<in> set ''_-'')) (take 1200 (event_text e))))
      else if event_type e = ''tool_use'' then
        map (\<lambda>w. (w, 2)) (captures file_name_pattern 1 (input_blob e)
                           @ captures dir_name_pattern 1 (input_blob e))
      else [])"

definition counted :: "(string \<times> nat) list \<Rightarrow> (string \<times> nat) list" where
  "counted bumps = List.map_filter (\<lambda>(w, n). map_option (\<lambda>v. (v, n)) (vocab_word w)) bumps"

definition sessionVocabulary :: "nat \<Rightarrow> jsval list \<Rightarrow> string list" where
  "sessionVocabulary limit events =
     (let bumps = counted (concat (map vocab_bumps events));
          counts = tally bumps;
          mentions = tally_ones (map fst bumps)
      in map (\<lambda>(w, n). w @ '' ('' @ show_nat n @ '')'')
           (take limit (ranked (filter (\<lambda>(w, n). 2 \<le> count_of mentions w) counts))))"

section \<open>Exchanges\<close>

definition CONTROL_UTTERANCE :: rx where
  "CONTROL_UTTERANCE =
     rx_seq [RBos,
       rx_alts [rx_ci ''status'', rx_ci ''go'', rx_seq [rx_ci ''ok'', rx_opt (rx_ci ''ay'')],
                rx_seq [rx_ci ''ye'', rx_plus (rx_ci ''s'')], rx_ci ''no'', rx_ci ''next'', rx_ci ''do it'',
                rx_ci ''proceed'', rx_ci ''continue'', rx_ci ''restart and continue'',
                rx_seq [rx_ci ''thank'', rx_opt (rx_ci ''s'')], rx_ci ''ty'', rx_ci ''nice'',
                rx_ci ''good'', rx_ci ''great'', rx_ci ''cool'', rx_ci ''stop'', rx_ci ''wait'',
                rx_ci ''why'', rx_ci ''how'', rx_seq [rx_ci ''what'', rx_opt (rx_lit ''?'')],
                rx_seq [rx_ci ''h'', rx_plus (rx_ci ''m'')],
                rx_seq [rx_digit, rx_star (RCh (\<lambda>c. is_space c \<or> is_digit c \<or> c = CHR '','')),
                        rx_opt (rx_seq [rx_ci ''then'', rx_star rx_space, rx_plus rx_digit])],
                rx_seq [rx_ci ''so what should we do'', rx_opt (rx_lit ''?'')],
                rx_seq [rx_ci ''what '', rx_opt (rx_ci ''do ''), rx_ci ''you need'',
                        rx_star (RCh (\<lambda>c. code_of c \<noteq> 10 \<and> code_of c \<noteq> 13))],
                rx_seq [rx_ci ''and'', rx_opt (rx_lit ''?'')], rx_ci ''more'', rx_ci ''again'',
                rx_ci ''fix it'', rx_ci ''try again''],
       rx_star (rx_in ''.!?''), REos]"

definition isSubstantive :: "string \<Rightarrow> bool" where
  "isSubstantive text = (MIN_SUBSTANCE_CHARS \<le> length text \<and> \<not> rx_test CONTROL_UTTERANCE text)"

fun unique_texts :: "string list \<Rightarrow> exchange list \<Rightarrow> exchange list" where
  "unique_texts seen [] = []"
| "unique_texts seen (e # es) =
     (if ex_text e \<in> set seen then unique_texts seen es
      else e # unique_texts (ex_text e # seen) es)"

fun position :: "string \<Rightarrow> exchange list \<Rightarrow> nat" where
  "position t [] = 0"
| "position t (e # es) = (if ex_text e = t then 0 else Suc (position t es))"

definition top_by_substance :: "exchange list \<Rightarrow> nat \<Rightarrow> exchange list \<Rightarrow> exchange list" where
  "top_by_substance unique n es =
     sort_key (\<lambda>e. position (ex_text e) unique) (take n (sort_desc (\<lambda>e. int (length (ex_text e))) es))"

definition pickExchanges :: "nat \<Rightarrow> jsval list \<Rightarrow> jsval list \<Rightarrow> exchange list" where
  "pickExchanges limit opening recent =
     (let unique = unique_texts [] (messagesOf opening @ messagesOf recent);
          asked = filter (\<lambda>e. ex_role e = User \<and> isSubstantive (ex_text e)) unique;
          replied = filter (\<lambda>e. ex_role e = Assistant \<and> isSubstantive (ex_text e)) unique
      in if asked \<noteq> [] then top_by_substance unique limit asked else top_by_substance unique 2 replied)"

section \<open>The issue\<close>

definition ISSUE_PATTERN :: rx where
  "ISSUE_PATTERN =
     rx_seq [RAlt (rx_seq [rx_lit ''#'', RGrp 1 (rx_between rx_digit 2 6)])
               (rx_seq [rx_alts [rx_seq [rx_ci ''issue'', rx_opt (rx_ci ''s'')], rx_ci ''pull'', rx_ci ''pr''],
                        RWordB,
                        rx_between_lazy (RCh (\<lambda>c. \<not> is_digit c \<and> code_of c \<noteq> 10)) 0 14,
                        RGrp 2 (rx_between rx_digit 2 6)]),
             RWordB]"

definition issue_numbers :: "string \<Rightarrow> string list" where
  "issue_numbers text =
     List.map_filter (\<lambda>(b, e, cs). case rx_group text cs 1 of Some n \<Rightarrow> Some n | None \<Rightarrow> rx_group text cs 2)
       (rx_all ISSUE_PATTERN text 0)"

definition issue_text :: "jsval \<Rightarrow> string" where
  "issue_text e = (if event_type e = ''tool_use'' then input_blob e else event_text e)"

definition sessionIssue :: "nat \<Rightarrow> jsval list \<Rightarrow> string" where
  "sessionIssue least events =
     (let rank = ranked (tally_ones (concat (map (\<lambda>e. issue_numbers (issue_text e)) events)))
      in case rank of
           [] \<Rightarrow> []
         | (n, c) # rest \<Rightarrow>
             if c < least then []
             else if (case rest of [] \<Rightarrow> True | (_, c2) # _ \<Rightarrow> c2 * 2 \<le> c) then ''#'' @ n
             else ''#'' @ n @ ''+'')"

section \<open>The prompt\<close>

definition nl :: string where "nl = [CHR 0x0A]"

definition role_name :: "speaker \<Rightarrow> string" where
  "role_name r = (case r of User \<Rightarrow> ''user'' | Assistant \<Rightarrow> ''assistant'')"

definition bullet_list :: "string list \<Rightarrow> string" where
  "bullet_list ws = join nl (map (\<lambda>w. ''- '' @ w) ws)"

definition exchange_block :: "exchange \<Rightarrow> string" where
  "exchange_block e =
     ''<'' @ role_name (ex_role e) @ ''>'' @ nl @ ex_text e @ nl @ ''</'' @ role_name (ex_role e) @ ''>''"

definition titlePrompt ::
    "exchange list \<Rightarrow> string list \<Rightarrow> string list \<Rightarrow> string list \<Rightarrow> string \<Rightarrow> string \<Rightarrow> string" where
  "titlePrompt exchanges siblings vocabulary branches issue current =
     (let body = join (nl @ nl) (map exchange_block exchanges);
          others = (if siblings = [] then []
            else nl @ nl @ ''Other tabs already open in this project, which your name must not be confusable with:''
                 @ nl @ bullet_list siblings);
          worked = (if branches = [] then []
            else nl @ nl @ ''Branches this session has worked in. Someone named these to describe the change, so they are the best evidence of the subject:''
                 @ nl @ bullet_list branches);
          many = (if issue \<noteq> [] \<and> last issue = CHR ''+''
            then nl @ nl @ ''Several issues are in play ('' @ butlast issue
                 @ '' and others). That usually means a run of bug fixes rather than one subject: if they share a theme, name the theme; if they only share being broken, say what the run is over. It is not always bug fixing, so weigh this against everything else here.''
            else []);
          already = (if current = [] then []
            else nl @ nl @ ''This conversation is currently called '' @ [CHR 0x22] @ current @ [CHR 0x22]
                 @ ''. It has been working for a while since that was chosen. If it is still about the same thing, reply with that name unchanged. Give a different name only if the subject has genuinely become something else.'');
          subject = (if vocabulary = [] then []
            else nl @ nl @ ''Words this session keeps returning to, most frequent first:'' @ nl @ join '', '' vocabulary)
      in ''Name this conversation for a tab strip.'' @ already @ worked @ many @ subject @ nl @ nl @ body @ others)"

section \<open>Facts\<close>

text \<open>Every part that is read lies in the conversation that is still going on.\<close>

lemma namingWindow_range:
  assumes "(a, b) \<in> set (nw_opening (namingWindow n c) # nw_spread (namingWindow n c))"
  shows "min (case c of None \<Rightarrow> 0 | Some k \<Rightarrow> k) n \<le> a" and "a \<le> b" and "b \<le> n"
    and "b - a \<le> SLICE_EVENTS"
proof -
  define f where "f = min (case c of None \<Rightarrow> 0 | Some k \<Rightarrow> k) n"
  have fn: "f \<le> n" by (simp add: f_def)
  have pc: "f + (n - f) * p div 100 \<le> n" if "p \<le> 100" for p
  proof -
    have "(n - f) * p div 100 \<le> (n - f) * 100 div 100"
      using that by (intro div_le_mono mult_le_mono2)
    with fn show ?thesis by simp
  qed
  have w: "namingWindow n c = \<lparr>nw_opening = (f, min n (f + OPENING_EVENTS)),
      nw_spread = map (\<lambda>p. (f + (n - f) * p div 100, min n (f + (n - f) * p div 100 + SLICE_EVENTS)))
        [0, 34, 67]\<rparr>"
    unfolding namingWindow_def Let_def f_def [symmetric] ..
  obtain k where k: "f \<le> a" "a \<le> n" "b = min n (a + k)" "k \<le> SLICE_EVENTS"
  proof -
    from assms consider "(a, b) = (f, min n (f + OPENING_EVENTS))"
      | p where "p \<in> {0, 34, 67}"
          "(a, b) = (f + (n - f) * p div 100, min n (f + (n - f) * p div 100 + SLICE_EVENTS))"
      unfolding w naming_window.simps list.set list.set_map insert_iff image_iff by blast
    then show thesis
    proof cases
      case 1
      then show ?thesis using that [of OPENING_EVENTS] fn by (simp add: OPENING_EVENTS_def SLICE_EVENTS_def)
    next
      case (2 p)
      then have "p \<le> 100" by auto
      from pc [OF this] 2(2) show ?thesis using that [of SLICE_EVENTS] by simp
    qed
  qed
  show "min (case c of None \<Rightarrow> 0 | Some k \<Rightarrow> k) n \<le> a" using k(1) by (simp add: f_def)
  show "a \<le> b" "b \<le> n" "b - a \<le> SLICE_EVENTS" using k by auto
qed

lemma map_filter_mem: "y \<in> set (List.map_filter f xs) \<longleftrightarrow> (\<exists>x\<in>set xs. f x = Some y)"
  by (force simp: List.map_filter_def)

lemma messagesOf_short: "e \<in> set (messagesOf es) \<Longrightarrow> length (ex_text e) \<le> MAX_EXCHANGE_CHARS"
  by (auto simp: messagesOf_def map_filter_mem message_of_def Let_def split: if_splits)

lemma unique_texts_distinct:
  "distinct (map ex_text (unique_texts seen es)) \<and> set (map ex_text (unique_texts seen es)) \<inter> set seen = {}
   \<and> set (unique_texts seen es) \<subseteq> set es"
  by (induction es arbitrary: seen) (auto, force+)

lemma set_top_by_substance: "set (top_by_substance u n es) \<subseteq> set es"
  using set_take_subset [of n "sort_desc (\<lambda>e. int (length (ex_text e))) es"]
  by (simp add: top_by_substance_def)

lemma length_top_by_substance: "length (top_by_substance u n es) \<le> n"
  by (simp add: top_by_substance_def)

lemma pickExchanges_sound:
  assumes "e \<in> set (pickExchanges n opening recent)"
  shows "e \<in> set (messagesOf opening) \<union> set (messagesOf recent)" and "isSubstantive (ex_text e)"
proof -
  define u where "u = unique_texts [] (messagesOf opening @ messagesOf recent)"
  have u: "set u \<subseteq> set (messagesOf opening @ messagesOf recent)"
    unfolding u_def using unique_texts_distinct by blast
  have "e \<in> set u \<and> isSubstantive (ex_text e)"
    using assms set_top_by_substance
    unfolding pickExchanges_def Let_def u_def [symmetric] by (fastforce split: if_splits)
  with u show "e \<in> set (messagesOf opening) \<union> set (messagesOf recent)" "isSubstantive (ex_text e)" by auto
qed

lemma pickExchanges_length: "length (pickExchanges n opening recent) \<le> max n 2"
  unfolding pickExchanges_def Let_def
  by (simp add: le_max_iff_disj length_top_by_substance)

lemma sort_key_distinct_map: "distinct (map f xs) \<Longrightarrow> distinct (map f (sort_key g xs))"
  by (simp add: distinct_map)

lemma pickExchanges_distinct: "distinct (map ex_text (pickExchanges n opening recent))"
proof -
  define u where "u = unique_texts [] (messagesOf opening @ messagesOf recent)"
  have u: "distinct (map ex_text u)" unfolding u_def using unique_texts_distinct by blast
  have f: "distinct (map ex_text (filter P u))" for P
    using u by (auto simp: distinct_map inj_on_def)
  have "distinct (map ex_text (top_by_substance v k es))" if "distinct (map ex_text es)" for v k es
  proof -
    have "distinct (map ex_text (sort_desc (\<lambda>e. int (length (ex_text e))) es))"
      unfolding sort_desc_def using that by (rule sort_key_distinct_map)
    then have "distinct (map ex_text (take k (sort_desc (\<lambda>e. int (length (ex_text e))) es)))"
      by (simp add: take_map [symmetric])
    then show ?thesis unfolding top_by_substance_def by (rule sort_key_distinct_map)
  qed
  with f show ?thesis unfolding pickExchanges_def Let_def u_def [symmetric] by simp
qed

lemma count_of_foldl_bump:
  "count_of (foldl (\<lambda>m (k, n). bump_by n k m) m (map (\<lambda>k. (k, 1)) ks)) k = count_of m k + count_list ks k"
  by (induction ks arbitrary: m) auto

lemma tally_count: "count_of (tally_ones ks) k = count_list ks k"
  using count_of_foldl_bump [of "[]" ks k] by (simp add: tally_ones_def tally_def count_of_def)

lemma tally_wf: "om_wf (tally_ones ks)"
proof -
  have "om_wf m \<Longrightarrow> om_wf (foldl (\<lambda>m (k, n). bump_by n k m) m bumps)" for m :: "('a \<times> nat) list" and bumps
    by (induction bumps arbitrary: m) (auto simp: om_wf_bump_by)
  then show ?thesis by (simp add: tally_ones_def tally_def om_wf_def om_keys_def)
qed

lemma ranked_entry: "(k, c) \<in> set (ranked m) \<longleftrightarrow> (k, c) \<in> set m"
  by (simp add: ranked_def)

lemma tally_entry: "(k, c) \<in> set (tally_ones ks) \<Longrightarrow> c = count_list ks k"
proof -
  assume "(k, c) \<in> set (tally_ones ks)"
  then have "map_of (tally_ones ks) k = Some c"
    using tally_wf [of ks] by (simp add: om_wf_def om_keys_def)
  then have "count_of (tally_ones ks) k = c" by (simp add: count_of_def)
  then show ?thesis by (simp only: tally_count)
qed

lemma tally_keys:
  assumes "k \<in> set ks"
  shows "\<exists>c. (k, c) \<in> set (tally_ones ks)"
proof -
  have "count_list ks k \<noteq> 0" using assms by (simp add: count_list_0_iff)
  then have "count_of (tally_ones ks) k \<noteq> 0" by (simp add: tally_count)
  then obtain c where "map_of (tally_ones ks) k = Some c" by (auto simp: count_of_def split: option.splits)
  then show ?thesis using map_of_SomeD by fast
qed

definition all_issue_numbers :: "jsval list \<Rightarrow> string list" where
  "all_issue_numbers events = concat (map (\<lambda>e. issue_numbers (issue_text e)) events)"

text \<open>The issue in the title was mentioned often enough, and no other more often.\<close>

lemma ranked_top:
  assumes "ranked m = (n, c) # rest" and "(k, d) \<in> set m"
  shows "d \<le> c"
  using sort_desc_hd_max [of "\<lambda>kv. int (snd kv)" m "(n, c)" rest "(k, d)"] assms
  by (simp add: ranked_def)

lemma sessionIssue_sound:
  assumes "sessionIssue least events \<noteq> []"
  obtains n where "sessionIssue least events \<in> {''#'' @ n, ''#'' @ n @ ''+''}"
    "least \<le> count_list (all_issue_numbers events) n"
    "\<And>k. count_list (all_issue_numbers events) k \<le> count_list (all_issue_numbers events) n"
proof -
  define ks where "ks = all_issue_numbers events"
  have def: "sessionIssue least events = (case ranked (tally_ones ks) of [] \<Rightarrow> []
       | (n, c) # rest \<Rightarrow> if c < least then []
             else if (case rest of [] \<Rightarrow> True | (_, c2) # _ \<Rightarrow> c2 * 2 \<le> c) then ''#'' @ n
             else ''#'' @ n @ ''+'')"
    by (simp add: sessionIssue_def ks_def all_issue_numbers_def Let_def)
  from assms def obtain n c rest where r: "ranked (tally_ones ks) = (n, c) # rest" "least \<le> c"
    by (auto split: list.splits prod.splits if_splits)
  have "(n, c) \<in> set (ranked (tally_ones ks))" using r(1) by simp
  then have c: "c = count_list ks n" unfolding ranked_entry by (rule tally_entry)
  have top: "count_list ks k \<le> c" for k
  proof (cases "k \<in> set ks")
    case True
    then obtain d where d: "(k, d) \<in> set (tally_ones ks)" using tally_keys by fast
    then have "d = count_list ks k" by (rule tally_entry)
    with ranked_top [OF r(1) d] show ?thesis by simp
  qed simp
  have "sessionIssue least events \<in> {''#'' @ n, ''#'' @ n @ ''+''}"
    using def r by (cases rest) auto
  then show thesis using that r(2) c top by (simp add: ks_def)
qed

end
