(* ===== verification/Agents.thy ===== *)
theory Agents
  imports Protocol
begin

text \<open>
  Counting the subagents a session has working (\<open>daemon/src/agents.ts\<close>). A JavaScript \<open>Map\<close>
  is an association list in insertion order. The lemmas relate pruning to counting and show that
  a badge never outgrows its bound.
\<close>

definition AGENT_ACTIVE_MS :: time_ms where "AGENT_ACTIVE_MS = 45000"

record agent_activity =
  ag_taskId :: "string option"
  ag_kind :: "string option"
  ag_id :: string
  ag_description :: string
  ag_lastActivityAt :: time_ms

type_synonym agents_map = "(string \<times> agent_activity) list"

definition default_description :: string where "default_description = ''subagent''"

text \<open>One key of the input, when it holds something to show.\<close>

definition described :: "jsval \<Rightarrow> string option" where
  "described v =
     (case v of
        JStr s \<Rightarrow> if trim s = [] then None
          else let text = collapse_ws (trim s)
               in Some (if 80 < length text then take 80 text @ ellipsis else text)
      | _ \<Rightarrow> None)"

definition first_some :: "'a option list \<Rightarrow> 'a option" where
  "first_some xs = (case filter (\<lambda>x. x \<noteq> None) xs of [] \<Rightarrow> None | x # _ \<Rightarrow> x)"

definition agentDescription :: "jsval \<Rightarrow> string" where
  "agentDescription input =
     (if is_js_object input then
        (case first_some (map (\<lambda>k. described (js_prop input k))
                [''description'', ''subagent_type'', ''prompt'']) of
           Some t \<Rightarrow> t | None \<Rightarrow> default_description)
      else default_description)"

definition AGENT_TAG_MAX :: nat where "AGENT_TAG_MAX = 28"

definition agentTag :: "string option \<Rightarrow> string \<Rightarrow> string" where
  "agentTag description i =
     (let text = collapse_ws (trim (case description of None \<Rightarrow> [] | Some d \<Rightarrow> d)) in
      if text = [] \<or> text = default_description \<or> text = ''background task''
      then ''subagent '' @ take_last 4 i
      else if AGENT_TAG_MAX < length text then take (AGENT_TAG_MAX - 1) text @ ellipsis else text)"

definition is_active :: "time_ms \<Rightarrow> time_ms \<Rightarrow> agent_activity \<Rightarrow> bool" where
  "is_active now windowMs a = (now - ag_lastActivityAt a \<le> windowMs)"

definition activeAgents :: "agents_map \<Rightarrow> time_ms \<Rightarrow> time_ms \<Rightarrow> agent_activity list" where
  "activeAgents agents now windowMs = filter (is_active now windowMs) (map snd agents)"

text \<open>The loop of \<open>pruneAgents\<close>: the entries are visited in order and deleted on the way.\<close>

fun prune_loop :: "time_ms \<Rightarrow> time_ms \<Rightarrow> agents_map \<Rightarrow> agents_map \<Rightarrow> bool \<Rightarrow> agents_map \<times> bool" where
  "prune_loop now windowMs [] agents changed = (agents, changed)"
| "prune_loop now windowMs ((i, a) # rest) agents changed =
     (if windowMs < now - ag_lastActivityAt a
      then prune_loop now windowMs rest (AList.delete i agents) True
      else prune_loop now windowMs rest agents changed)"

definition pruneAgents :: "agents_map \<Rightarrow> time_ms \<Rightarrow> time_ms \<Rightarrow> agents_map \<times> bool" where
  "pruneAgents agents now windowMs = prune_loop now windowMs agents agents False"

definition task_of :: "time_ms \<Rightarrow> jsval \<Rightarrow> agent_activity option" where
  "task_of now raw =
     (if \<not> is_js_object raw then None
      else case js_prop raw ''task_id'' of
        JStr i \<Rightarrow>
          if i = [] then None
          else Some \<lparr>ag_taskId = Some i,
                 ag_kind = js_str (js_prop raw ''task_type''),
                 ag_id = i,
                 ag_description =
                   (case js_prop raw ''description'' of
                      JStr d \<Rightarrow> if trim d = [] then ''background task'' else trim d
                    | _ \<Rightarrow> ''background task''),
                 ag_lastActivityAt = now\<rparr>
      | _ \<Rightarrow> None)"

definition tasksFromLevelSignal :: "time_ms \<Rightarrow> jsval \<Rightarrow> agent_activity list option" where
  "tasksFromLevelSignal now msg =
     (if js_prop msg ''type'' \<noteq> JStr ''system''
         \<or> js_prop msg ''subtype'' \<noteq> JStr ''background_tasks_changed'' then None
      else case js_prop msg ''tasks'' of
        JArr ts \<Rightarrow> Some (List.map_filter (task_of now) ts)
      | _ \<Rightarrow> Some [])"

text \<open>\<open>new Map(tasks.map((t) => [t.id, t]))\<close>.\<close>

definition agents_of_tasks :: "agent_activity list \<Rightarrow> agents_map" where
  "agents_of_tasks ts = foldl (\<lambda>m t. AList.update (ag_id t) t m) [] ts"

section \<open>Pruning and counting\<close>

lemma is_active_prune: "windowMs < now - ag_lastActivityAt a \<longleftrightarrow> \<not> is_active now windowMs a"
  by (auto simp: is_active_def)

lemma prune_loop_spec:
  "prune_loop now w xs agents ch =
     (foldl (\<lambda>m i. AList.delete i m) agents (map fst (filter (\<lambda>(i, a). \<not> is_active now w a) xs)),
      ch \<or> (\<exists>x\<in>set xs. \<not> is_active now w (snd x)))"
  by (induction xs arbitrary: agents ch) (auto simp: is_active_prune)

lemma delete_all:
  "foldl (\<lambda>m i. AList.delete i m) agents ids = filter (\<lambda>kv. fst kv \<notin> set ids) agents"
  by (induction ids arbitrary: agents)
     (auto simp: AList.delete_eq filter_filter case_prod_beta intro: filter_cong)

lemma pruneAgents_spec:
  assumes "om_wf agents"
  shows "pruneAgents agents now w =
    (filter (\<lambda>kv. is_active now w (snd kv)) agents, \<exists>kv\<in>set agents. \<not> is_active now w (snd kv))"
proof -
  have "filter (\<lambda>kv. fst kv \<notin> set (map fst (filter (\<lambda>(i, a). \<not> is_active now w a) agents))) agents
      = filter (\<lambda>kv. is_active now w (snd kv)) agents"
  proof (rule filter_cong [OF refl])
    fix kv assume kv: "kv \<in> set agents"
    show "(fst kv \<notin> set (map fst (filter (\<lambda>(i, a). \<not> is_active now w a) agents)))
        = is_active now w (snd kv)"
      using assms kv by (force simp: om_wf_def om_keys_def distinct_map inj_on_def)
  qed
  then show ?thesis by (simp add: pruneAgents_def prune_loop_spec delete_all)
qed

lemma agentTag_length: "length (agentTag d i) \<le> AGENT_TAG_MAX"
  by (auto simp: agentTag_def AGENT_TAG_MAX_def Let_def take_last_def)

lemma agentDescription_length: "length (agentDescription v) \<le> 81"
proof -
  have "described x = Some t \<Longrightarrow> length t \<le> 81" for x t
    by (auto simp: described_def Let_def split: jsval.splits if_splits)
  then show ?thesis
    by (auto simp: agentDescription_def first_some_def default_description_def split: option.splits)
qed

lemma om_wf_tasks: "om_wf (agents_of_tasks ts)"
proof -
  have "om_wf m \<Longrightarrow> om_wf (foldl (\<lambda>m t. AList.update (ag_id t) t m) m ts)" for m :: agents_map
    by (induction ts arbitrary: m) (simp_all add: om.wf_put)
  then show ?thesis by (simp add: agents_of_tasks_def om_wf_def om_keys_def)
qed

lemma prune_active:
  assumes "om_wf agents"
  shows "activeAgents (fst (pruneAgents agents now w)) now w = activeAgents agents now w
    \<and> map snd (fst (pruneAgents agents now w)) = activeAgents agents now w
    \<and> (snd (pruneAgents agents now w) \<longleftrightarrow> activeAgents agents now w \<noteq> map snd agents)"
proof -
  have "map snd (filter (\<lambda>kv. is_active now w (snd kv)) agents) = activeAgents agents now w"
    by (simp add: activeAgents_def filter_map comp_def)
  moreover have "activeAgents agents now w \<noteq> map snd agents \<longleftrightarrow> (\<exists>kv\<in>set agents. \<not> is_active now w (snd kv))"
    by (auto simp: activeAgents_def filter_id_conv)
  ultimately show ?thesis
    unfolding pruneAgents_spec [OF assms] by (simp add: activeAgents_def)
qed

end
