(* ===== verification/ErrorHints.thy ===== *)
theory ErrorHints
  imports Regex NodePath
begin

text \<open>
  Finding the \<open>claude\<close> binary (\<open>daemon/src/claudeExecutable.ts\<close>) and turning the SDK's
  failures into something a user can act on (\<open>daemon/src/errorHints.ts\<close>). The machine is the
  record \<open>executable_probe\<close>, as the code injects it. The lemmas: a binary that is found exists
  and comes before every other existing candidate, nothing is found exactly when no candidate
  exists, and a friendly error keeps the original text.
\<close>

section \<open>The executable\<close>

record executable_probe =
  pr_platform :: string
  pr_arch :: string
  bundleDir :: "string option"
  pathEntries :: "string list"
  pr_home :: string
  isFile :: "string \<Rightarrow> bool"

definition binaryNames :: "string \<Rightarrow> string list" where
  "binaryNames platform =
     (if platform = ''win32'' then [''claude.exe'', ''claude.cmd'', ''claude''] else [''claude''])"

definition platformPackages :: "string \<Rightarrow> string \<Rightarrow> bool \<Rightarrow> string list" where
  "platformPackages platform arch musl =
     (let cpu = (if arch = ''arm64'' then Some ''arm64'' else if arch = ''x64'' then Some ''x64'' else None)
      in case cpu of
           None \<Rightarrow> []
         | Some c \<Rightarrow>
             if platform = ''linux'' then
               (let glibc = ''claude-agent-sdk-linux-'' @ c;
                    alpine = ''claude-agent-sdk-linux-'' @ c @ ''-musl''
                in if musl then [alpine, glibc] else [glibc, alpine])
             else if platform = ''darwin'' then [''claude-agent-sdk-darwin-'' @ c]
             else if platform = ''win32'' then
               (if c = ''x64'' then [''claude-agent-sdk-win32-x64''] else [])
             else [])"

definition detectMusl :: "(string \<Rightarrow> bool) \<Rightarrow> string \<Rightarrow> bool" where
  "detectMusl is_file platform =
     (platform = ''linux''
      \<and> list_ex is_file [''/lib/ld-musl-x86_64.so.1'', ''/lib/ld-musl-aarch64.so.1''])"

definition wellKnownDirs :: "string \<Rightarrow> string list" where
  "wellKnownDirs home =
     [path_join [home, ''.local'', ''bin''], path_join [home, ''.claude'', ''local''],
      path_join [home, ''bin''], ''/usr/local/bin'', ''/opt/homebrew/bin'']"

text \<open>The candidates in the order the nested loops try them.\<close>

definition bundled_candidates :: "executable_probe \<Rightarrow> string list" where
  "bundled_candidates p =
     (case bundleDir p of
        None \<Rightarrow> []
      | Some d \<Rightarrow>
          if d = [] then []
          else concat (map (\<lambda>pkg. map (\<lambda>name. path_join [d, pkg, name]) (binaryNames (pr_platform p)))
                 (platformPackages (pr_platform p) (pr_arch p)
                    (detectMusl (isFile p) (pr_platform p)))))"

definition installed_candidates :: "executable_probe \<Rightarrow> string list" where
  "installed_candidates p =
     concat (map (\<lambda>dir. if dir = [] then []
                        else map (\<lambda>name. path_join [dir, name]) (binaryNames (pr_platform p)))
       (pathEntries p @ wellKnownDirs (pr_home p)))"

definition findClaudeExecutable :: "executable_probe \<Rightarrow> string option" where
  "findClaudeExecutable p = List.find (isFile p) (bundled_candidates p @ installed_candidates p)"

definition NO_CLAUDE_MESSAGE :: string where
  "NO_CLAUDE_MESSAGE =
     ''Claude Code was not found on this machine. Install it from https://claude.com/download ''
     @ ''(or `npm i -g @anthropic-ai/claude-code`) and reload the window. ''
     @ ''The bundled copy only ships for the platform this extension was packaged for.''"

lemma find_split:
  "List.find P xs = Some c \<Longrightarrow> \<exists>b a. xs = b @ c # a \<and> P c \<and> (\<forall>x\<in>set b. \<not> P x)"
proof (induction xs)
  case (Cons y ys)
  show ?case
  proof (cases "P y")
    case True
    with Cons.prems have "y # ys = [] @ c # ys \<and> P c" by simp
    then show ?thesis by fastforce
  next
    case False
    with Cons obtain b a where "ys = b @ c # a" "P c" "\<forall>x\<in>set b. \<not> P x" by auto
    with False have "y # ys = (y # b) @ c # a \<and> P c \<and> (\<forall>x\<in>set (y # b). \<not> P x)" by simp
    then show ?thesis by blast
  qed
qed simp

lemma find_claude_first:
  assumes "findClaudeExecutable p = Some c"
  obtains before after where
    "bundled_candidates p @ installed_candidates p = before @ c # after"
    "isFile p c" "\<And>x. x \<in> set before \<Longrightarrow> \<not> isFile p x"
  using find_split [OF assms [unfolded findClaudeExecutable_def]] that by blast

lemma find_claude_none:
  "findClaudeExecutable p = None \<longleftrightarrow>
     (\<forall>c\<in>set (bundled_candidates p) \<union> set (installed_candidates p). \<not> isFile p c)"
  by (auto simp: findClaudeExecutable_def find_None_iff)

section \<open>Error hints\<close>

definition SIGN_IN_HINT :: string where
  "SIGN_IN_HINT =
     ''Not signed in to Claude. Run '' @ [CHR 0x22] @ ''Claude Persist: Add Account (Sign In)'' @ [CHR 0x22]
     @ '' from the Command Palette, or open the model pill at the bottom of this chat and choose ''
     @ [CHR 0x22] @ ''Log in to another account'' @ ellipsis @ [CHR 0x22] @ ''.''"

text \<open>\<open>.\<close> stops at a line terminator.\<close>

definition rx_dot :: rx where
  "rx_dot = RCh (\<lambda>c. code_of c \<noteq> 10 \<and> code_of c \<noteq> 13)"

definition AUTH :: "rx list" where
  "AUTH =
     [rx_ci ''invalid api key'', rx_ci ''oauth session expired'', rx_ci ''could not be refreshed'',
      rx_ci ''failed to authenticate'', rx_ci ''please run /login'',
      rx_seq [RWordB, rx_ci ''not logged in'', RWordB],
      rx_seq [rx_ci ''authentication'', rx_opt (rx_in ''_ ''), rx_ci ''error''],
      rx_seq [RWordB, rx_ci ''unauthorized'', RWordB],
      rx_seq [RWordB, rx_ci ''oauth'', RWordB, rx_star rx_dot, RWordB, rx_ci ''expired'', RWordB],
      rx_seq [RWordB, rx_ci ''log'', rx_opt (rx_lit '' ''), rx_ci ''in'', RWordB, rx_star rx_dot,
              RWordB, rx_ci ''required'', RWordB]]"

definition MISSING_BINARY :: "rx list" where
  "MISSING_BINARY =
     [rx_ci ''native cli binary'', rx_ci ''claude code executable not found'',
      rx_seq [rx_ci ''spawn '', rx_star rx_dot, rx_ci ''claude'', rx_star rx_dot, rx_ci '' enoent'']]"

definition matches_any :: "rx list \<Rightarrow> string \<Rightarrow> bool" where
  "matches_any rs text = list_ex (\<lambda>r. rx_test r text) rs"

definition hinted :: "string \<Rightarrow> string \<Rightarrow> string" where
  "hinted hint text = hint @ [CHR 0x0A, CHR 0x0A] @ ''('' @ text @ '')''"

definition friendlyError :: "string \<Rightarrow> string" where
  "friendlyError text =
     (if trim text = [] then text
      else if matches_any MISSING_BINARY text then hinted NO_CLAUDE_MESSAGE text
      else if matches_any AUTH text then hinted SIGN_IN_HINT text
      else text)"

definition isSetupFailure :: "string \<Rightarrow> bool" where
  "isSetupFailure text = matches_any (AUTH @ MISSING_BINARY) text"

definition needsSignIn :: "string \<Rightarrow> bool" where
  "needsSignIn text = matches_any AUTH text"

lemma friendlyError_keeps: "\<exists>pre post. friendlyError text = pre @ text @ post"
proof -
  have "text = [] @ text @ []" by simp
  moreover have "hinted h text = (h @ [CHR 0x0A, CHR 0x0A] @ ''('') @ text @ '')''" for h
    by (simp add: hinted_def)
  ultimately show ?thesis unfolding friendlyError_def by metis
qed

lemma isSetupFailure_iff:
  "isSetupFailure text \<longleftrightarrow> needsSignIn text \<or> matches_any MISSING_BINARY text"
  by (simp add: isSetupFailure_def needsSignIn_def matches_any_def)

end
