(* ===== verification/Usage.thy ===== *)
theory Usage
  imports Protocol
begin

text \<open>
  Merging plan-usage data (\<open>daemon/src/usage.ts\<close>): the live push carries status and reset
  times, the usage call carries utilization; neither may erase what the other reported. The lemmas
  show that, and that unknown window kinds never enter the table.
\<close>

section \<open>Instants\<close>

text \<open>
  \<open>Date.parse\<close> on the date-time format ECMAScript fixes (\<open>YYYY-MM-DD\<close>, optionally
  with \<open>THH:mm[:ss[.s+]]\<close> and \<open>Z\<close> or an offset); any other string gives NaN here.
\<close>

definition days_from_civil :: "int \<Rightarrow> int \<Rightarrow> int \<Rightarrow> int" where
  "days_from_civil y m d =
     (let y' = (if m \<le> 2 then y - 1 else y); era = y' div 400; yoe = y' - era * 400;
          doy = (153 * (m + (if m > 2 then - 3 else 9)) + 2) div 5 + d - 1;
          doe = yoe * 365 + yoe div 4 - yoe div 100 + doy
      in era * 146097 + doe - 719468)"

definition all_digits :: "string \<Rightarrow> bool" where
  "all_digits s = (s \<noteq> [] \<and> list_all is_digit s)"

definition month_days :: "nat \<Rightarrow> nat \<Rightarrow> nat" where
  "month_days y m =
     (if m = 2 then (if y mod 4 = 0 \<and> (y mod 100 \<noteq> 0 \<or> y mod 400 = 0) then 29 else 28)
      else if m \<in> {4, 6, 9, 11} then 30 else 31)"

definition parse_zone :: "string \<Rightarrow> int option" where
  "parse_zone z =
     (case z of
        [] \<Rightarrow> None
      | c # r \<Rightarrow>
          if c = CHR ''Z'' \<and> r = [] then Some 0
          else if (c = CHR ''+'' \<or> c = CHR ''-'') \<and> length r = 5 \<and> all_digits (take 2 r)
                  \<and> r ! 2 = CHR '':'' \<and> all_digits (drop 3 r)
                  \<and> read_nat (take 2 r) \<le> 23 \<and> read_nat (drop 3 r) \<le> 59
               then Some ((if c = CHR ''+'' then 1 else - 1) *
                          int (60 * read_nat (take 2 r) + read_nat (drop 3 r)))
               else None)"

text \<open>Seconds and the zone: \<open>:ss\<close>, then \<open>.s+\<close>, each optional.\<close>

definition parse_seconds :: "string \<Rightarrow> (num \<times> string) option" where
  "parse_seconds s =
     (if s \<noteq> [] \<and> hd s = CHR '':'' then
        (if length s \<ge> 3 \<and> all_digits (take 2 (tl s)) \<and> read_nat (take 2 (tl s)) \<le> 59 then
           (let sec = of_nat (read_nat (take 2 (tl s))); r = drop 3 s in
            if r \<noteq> [] \<and> hd r = CHR ''.'' then
              (let f = takeWhile is_digit (tl r) in
               if f = [] then None
               else Some (sec + of_nat (read_nat f) / 10 ^ length f, dropWhile is_digit (tl r)))
            else Some (sec, r))
         else None)
      else Some (0, s))"

definition date_parse :: "string \<Rightarrow> num option" where
  "date_parse s =
     (let y = take 4 s; m = take 2 (drop 5 s); d = take 2 (drop 8 s); t = drop 10 s in
      if length s \<ge> 10 \<and> all_digits y \<and> s ! 4 = CHR ''-'' \<and> all_digits m \<and> s ! 7 = CHR ''-''
         \<and> all_digits d \<and> 1 \<le> read_nat m \<and> read_nat m \<le> 12
         \<and> 1 \<le> read_nat d \<and> read_nat d \<le> month_days (read_nat y) (read_nat m)
      then
        (let day = 86400000 * of_int (days_from_civil (read_nat y) (read_nat m) (read_nat d)) in
         if t = [] then Some day
         else if length t \<ge> 6 \<and> hd t = CHR ''T'' \<and> all_digits (take 2 (tl t)) \<and> t ! 3 = CHR '':''
                 \<and> all_digits (take 2 (drop 4 t))
                 \<and> read_nat (take 2 (tl t)) \<le> 23 \<and> read_nat (take 2 (drop 4 t)) \<le> 59
              then case parse_seconds (drop 6 t) of
                     None \<Rightarrow> None
                   | Some (sec, z) \<Rightarrow>
                       (case parse_zone z of
                          None \<Rightarrow> None
                        | Some off \<Rightarrow>
                            Some (day + 3600000 * of_nat (read_nat (take 2 (tl t)))
                                  + 60000 * of_nat (read_nat (take 2 (drop 4 t)))
                                  + 1000 * sec - 60000 * of_int off))
              else None)
      else None)"

definition EPOCH_MS_FLOOR :: num where
  "EPOCH_MS_FLOOR = 100000000000"

fun toEpochMs :: "jsval \<Rightarrow> time_ms option" where
  "toEpochMs (JNum v) = Some (if v < EPOCH_MS_FLOOR then v * 1000 else v)"
| "toEpochMs (JStr s) = date_parse s"
| "toEpochMs _ = None"

section \<open>Window kinds and statuses\<close>

definition RATE_LIMIT_WINDOW_KINDS :: "(string \<times> window_kind) list" where
  "RATE_LIMIT_WINDOW_KINDS =
     [(''five_hour'', Five_hour), (''seven_day'', Seven_day), (''seven_day_opus'', Seven_day_opus),
      (''seven_day_sonnet'', Seven_day_sonnet),
      (''seven_day_overage_included'', Seven_day_overage_included), (''overage'', Overage)]"

definition kind_of :: "string \<Rightarrow> window_kind option" where
  "kind_of k = map_of RATE_LIMIT_WINDOW_KINDS k"

definition RATE_LIMIT_STATUSES :: "(string \<times> limit_status) list" where
  "RATE_LIMIT_STATUSES =
     [(''allowed'', Allowed), (''allowed_warning'', Allowed_warning), (''rejected'', Rejected)]"

definition status_of :: "jsval \<Rightarrow> limit_status" where
  "status_of v =
     (case js_str v of
        None \<Rightarrow> Allowed
      | Some s \<Rightarrow> (case map_of RATE_LIMIT_STATUSES s of None \<Rightarrow> Allowed | Some st \<Rightarrow> st))"

text \<open>
  \<open>typeof v === 'number' ? v : before\<close>. The values come from JSON, which has no NaN and no
  infinity.
\<close>

fun num_or :: "jsval \<Rightarrow> num option \<Rightarrow> num option" where
  "num_or (JNum n) before = Some n"
| "num_or _ before = before"

definition ms_or :: "jsval \<Rightarrow> time_ms option \<Rightarrow> time_ms option" where
  "ms_or v before = (case toEpochMs v of Some t \<Rightarrow> Some t | None \<Rightarrow> before)"

definition prev_util :: "rate_limits \<Rightarrow> window_kind \<Rightarrow> num option" where
  "prev_util ws k = Option.bind (map_of ws k) utilization"

definition prev_reset :: "rate_limits \<Rightarrow> window_kind \<Rightarrow> time_ms option" where
  "prev_reset ws k = Option.bind (map_of ws k) resetsAt"

definition prev_status :: "rate_limits \<Rightarrow> window_kind \<Rightarrow> limit_status" where
  "prev_status ws k = (case map_of ws k of None \<Rightarrow> Allowed | Some w \<Rightarrow> w_status w)"

section \<open>The two sources\<close>

definition applyRateLimitEvent :: "rate_limits \<Rightarrow> jsval \<Rightarrow> rate_limits" where
  "applyRateLimitEvent ws info =
     (case Option.bind (js_str (js_prop info ''rateLimitType'')) kind_of of
        None \<Rightarrow> ws
      | Some k \<Rightarrow>
          AList.update k
            \<lparr>utilization = num_or (js_prop info ''utilization'') (prev_util ws k),
             resetsAt = ms_or (js_prop info ''resetsAt'') (prev_reset ws k),
             w_status = status_of (js_prop info ''status'')\<rparr> ws)"

definition apply_usage_entry :: "rate_limits \<Rightarrow> string \<times> jsval \<Rightarrow> rate_limits" where
  "apply_usage_entry ws kv =
     (case kind_of (fst kv) of
        None \<Rightarrow> ws
      | Some k \<Rightarrow>
          if is_js_object (snd kv) then
            AList.update k
              \<lparr>utilization = num_or (js_prop (snd kv) ''utilization'') (prev_util ws k),
               resetsAt = ms_or (js_prop (snd kv) ''resets_at'') (prev_reset ws k),
               w_status = prev_status ws k\<rparr> ws
          else ws)"

fun object_entries :: "jsval \<Rightarrow> (string \<times> jsval) list" where
  "object_entries (JObj fs) = fs"
| "object_entries (JArr vs) = zip (map show_nat [0..<length vs]) vs"
| "object_entries _ = []"

definition applyUsageResponse :: "usage_snapshot \<Rightarrow> jsval \<Rightarrow> usage_snapshot" where
  "applyUsageResponse previous usage =
     (let n1 = (case js_prop usage ''subscription_type'' of
                  JStr s \<Rightarrow> previous\<lparr>subscriptionType := Some s\<rparr>
                | JNull \<Rightarrow> previous\<lparr>subscriptionType := None\<rparr>
                | _ \<Rightarrow> previous);
          n2 = (case js_prop usage ''rate_limits_available'' of
                  JBool b \<Rightarrow> n1\<lparr>available := b\<rparr>
                | _ \<Rightarrow> n1)
      in n2\<lparr>windows := foldl apply_usage_entry (windows n2)
                          (object_entries (js_prop usage ''rate_limits''))\<rparr>)"

section \<open>Facts about the merge\<close>

lemmas window_field_defs = prev_util_def prev_reset_def prev_status_def

lemma prev_update [simp]:
  "prev_util (AList.update k w ws) k' = (if k' = k then utilization w else prev_util ws k')"
  "prev_reset (AList.update k w ws) k' = (if k' = k then resetsAt w else prev_reset ws k')"
  "prev_status (AList.update k w ws) k' = (if k' = k then w_status w else prev_status ws k')"
  by (simp_all add: window_field_defs om.get_put)

lemma event_unknown_kind:
  "Option.bind (js_str (js_prop info ''rateLimitType'')) kind_of = None \<Longrightarrow>
   applyRateLimitEvent ws info = ws"
  by (simp add: applyRateLimitEvent_def)

lemma event_prev_util:
  "prev_util (applyRateLimitEvent ws info) k =
     (if Option.bind (js_str (js_prop info ''rateLimitType'')) kind_of = Some k
      then num_or (js_prop info ''utilization'') (prev_util ws k) else prev_util ws k)"
  by (auto simp: applyRateLimitEvent_def split: option.splits)

lemma event_prev_status:
  "prev_status (applyRateLimitEvent ws info) k =
     (if Option.bind (js_str (js_prop info ''rateLimitType'')) kind_of = Some k
      then status_of (js_prop info ''status'') else prev_status ws k)"
  by (auto simp: applyRateLimitEvent_def split: option.splits)

lemma usage_entry_status: "prev_status (apply_usage_entry ws kv) k = prev_status ws k"
  by (auto simp: apply_usage_entry_def split: option.splits)

lemma usage_entries_status: "prev_status (foldl apply_usage_entry ws es) k = prev_status ws k"
  by (induction es arbitrary: ws) (simp_all add: usage_entry_status)

lemma usage_response_windows:
  "windows (applyUsageResponse p u) =
     foldl apply_usage_entry (windows p) (object_entries (js_prop u ''rate_limits''))"
  by (auto simp: applyUsageResponse_def Let_def split: jsval.splits)

lemma num_or_some [simp]: "num_or v (Some y) \<noteq> None" "\<exists>z. num_or v (Some y) = Some z"
  by (cases v; simp)+

lemma usage_entry_keeps_util:
  "prev_util ws k \<noteq> None \<Longrightarrow> prev_util (apply_usage_entry ws kv) k \<noteq> None"
  by (auto simp: apply_usage_entry_def split: option.splits)

text \<open>
  The utilization the usage call reports depends on the table only through what it falls back to,
  so an event that reports none commutes with it.
\<close>

fun last_util :: "window_kind \<Rightarrow> (string \<times> jsval) list \<Rightarrow> num option \<Rightarrow> num option" where
  "last_util k [] u = u"
| "last_util k ((n, v) # es) u =
     last_util k es (if kind_of n = Some k \<and> is_js_object v
                     then num_or (js_prop v ''utilization'') u else u)"

lemma usage_entries_util:
  "prev_util (foldl apply_usage_entry ws es) k = last_util k es (prev_util ws k)"
proof (induction es arbitrary: ws)
  case (Cons kv es)
  have "prev_util (apply_usage_entry ws kv) k =
      (if kind_of (fst kv) = Some k \<and> is_js_object (snd kv)
       then num_or (js_prop (snd kv) ''utilization'') (prev_util ws k) else prev_util ws k)"
    by (auto simp: apply_usage_entry_def split: option.splits)
  then show ?case
    using Cons.IH by (cases kv) simp
qed simp

lemma toEpochMs_number_floor:
  "0 \<le> v \<Longrightarrow> toEpochMs (JNum v) = Some t \<Longrightarrow> v \<le> t \<and> (v < EPOCH_MS_FLOOR \<longrightarrow> t = 1000 * v)"
  by (auto split: if_splits)

lemma event_keeps_util:
  "prev_util ws k \<noteq> None \<Longrightarrow> prev_util (applyRateLimitEvent ws info) k \<noteq> None"
  by (auto simp: event_prev_util)

lemma event_unknown:
  assumes "\<And>n. js_prop info ''rateLimitType'' = JStr n \<Longrightarrow> kind_of n = None"
  shows "applyRateLimitEvent ws info = ws"
proof (rule event_unknown_kind)
  show "Option.bind (js_str (js_prop info ''rateLimitType'')) kind_of = None"
    using assms by (cases "js_prop info ''rateLimitType''") simp_all
qed

end
