(* ===== verification/StatusPage.thy ===== *)
theory StatusPage
  imports Usage
begin

text \<open>
  What the status page says is wrong (\<open>daemon/src/statusPage.ts\<close>). The HTTP exchange is the
  datatype \<open>fetch_outcome\<close>; reading the body, choosing the incident and wording it are
  definitions. The lemmas: only a well-formed answer counts as "no incident", and the incident
  named has the worst impact among those with a known grade.
\<close>

record status_incident =
  in_id :: string
  in_name :: string
  in_impact :: string
  in_startedAt :: string

text \<open>
  How \<open>fetchImpl\<close> ends: it throws or times out, it answers with an HTTP status, and a body
  that is JSON or not.
\<close>

datatype fetch_outcome = Fetch_threw | Answered bool "jsval option"

definition string_or :: "jsval \<Rightarrow> string \<Rightarrow> string" where
  "string_or v d = (case v of JStr s \<Rightarrow> s | _ \<Rightarrow> d)"

definition read_incident :: "jsval \<Rightarrow> status_incident option" where
  "read_incident raw =
     (case (js_prop raw ''id'', js_prop raw ''name'') of
        (JStr i, JStr n) \<Rightarrow>
          Some \<lparr>in_id = i, in_name = n, in_impact = string_or (js_prop raw ''impact'') ''unknown'',
                in_startedAt = string_or (js_prop raw ''created_at'') []\<rparr>
      | _ \<Rightarrow> None)"

text \<open>A \<open>null\<close> entry makes the property read throw, which the handler turns into \<open>null\<close>.\<close>

definition fetchOpenIncidents :: "fetch_outcome \<Rightarrow> status_incident list option" where
  "fetchOpenIncidents r =
     (case r of
        Answered True (Some body) \<Rightarrow>
          (case js_prop body ''incidents'' of
             JArr raws \<Rightarrow>
               if \<exists>v\<in>set raws. v = JNull then None else Some (List.map_filter read_incident raws)
           | _ \<Rightarrow> None)
      | _ \<Rightarrow> None)"

definition pad2 :: "nat \<Rightarrow> string" where
  "pad2 n = (if length (show_nat n) < 2 then ''0'' @ show_nat n else show_nat n)"

definition clockUtc :: "string \<Rightarrow> string" where
  "clockUtc stamp =
     (case date_parse stamp of
        None \<Rightarrow> []
      | Some ms \<Rightarrow>
          let mins = nat (\<lfloor>ms / 60000\<rfloor> mod 1440)
          in pad2 (mins div 60) @ '':'' @ pad2 (mins mod 60) @ '' UTC'')"

definition IMPACT_ORDER :: "string list" where
  "IMPACT_ORDER = [''critical'', ''major'', ''minor'', ''none'', ''unknown'']"

text \<open>\<open>xs.indexOf(x)\<close>, \<open>-1\<close> when absent.\<close>

fun index_of :: "'a list \<Rightarrow> 'a \<Rightarrow> int" where
  "index_of [] y = -1"
| "index_of (x # xs) y = (if x = y then 0 else let i = index_of xs y in if i < 0 then -1 else i + 1)"

definition impact_rank :: "status_incident \<Rightarrow> int" where
  "impact_rank i = index_of IMPACT_ORDER (in_impact i)"

definition pickWorst :: "status_incident list \<Rightarrow> status_incident option" where
  "pickWorst incidents =
     (case sort_key impact_rank incidents of [] \<Rightarrow> None | i # _ \<Rightarrow> Some i)"

definition incidentNotice :: "status_incident list \<Rightarrow> string option" where
  "incidentNotice incidents =
     (case pickWorst incidents of
        None \<Rightarrow> None
      | Some w \<Rightarrow>
          let since = clockUtc (in_startedAt w);
              impact = (if in_impact w \<noteq> [] \<and> in_impact w \<noteq> ''unknown''
                        then '' ('' @ in_impact w @ '')'' else [])
          in Some (''Anthropic reports: '' @ [CHR 0x22] @ in_name w @ [CHR 0x22] @ impact
                   @ (if since = [] then [] else '', since '' @ since) @ ''.''))"

lemma pickWorst_least:
  assumes "pickWorst xs = Some w"
  shows "w \<in> set xs" and "i \<in> set xs \<Longrightarrow> impact_rank w \<le> impact_rank i"
proof -
  from assms obtain ws where s: "sort_key impact_rank xs = w # ws"
    by (auto simp: pickWorst_def split: list.splits)
  then show "w \<in> set xs" by (metis list.set_intros(1) set_sort)
  have "sorted (map impact_rank (w # ws))" using s by (metis sorted_sort_key)
  moreover have "i \<in> set xs \<Longrightarrow> i \<in> set (w # ws)" using s by (metis set_sort)
  ultimately show "i \<in> set xs \<Longrightarrow> impact_rank w \<le> impact_rank i" by auto
qed

lemma pickWorst_None: "pickWorst xs = None \<longleftrightarrow> xs = []"
proof -
  have "length (sort_key impact_rank xs) = length xs" by simp
  then show ?thesis by (cases "sort_key impact_rank xs") (auto simp: pickWorst_def)
qed

lemma incidentNotice_None: "incidentNotice xs = None \<longleftrightarrow> xs = []"
  using pickWorst_None [of xs] by (auto simp: incidentNotice_def Let_def split: option.splits)

text \<open>"Could not find out" and "nothing open" are different answers.\<close>

lemma no_incidents_answered:
  "fetchOpenIncidents r = Some [] \<Longrightarrow>
   \<exists>body raws. r = Answered True (Some body) \<and> js_prop body ''incidents'' = JArr raws
     \<and> list_all (\<lambda>v. read_incident v = None) raws"
proof -
  assume a: "fetchOpenIncidents r = Some []"
  then obtain body raws where r: "r = Answered True (Some body)"
    "js_prop body ''incidents'' = JArr raws" "List.map_filter read_incident raws = []"
    by (auto simp: fetchOpenIncidents_def split: fetch_outcome.splits bool.splits option.splits
        jsval.splits if_splits)
  have "List.map_filter read_incident raws = [] \<Longrightarrow> list_all (\<lambda>v. read_incident v = None) raws"
    by (induction raws) (auto simp: List.map_filter_def split: if_splits)
  with r show ?thesis by blast
qed

lemma index_of_absent: "y \<notin> set xs \<Longrightarrow> index_of xs y = - 1"
  by (induction xs) (auto simp: Let_def)

lemma index_of_present: "y \<in> set xs \<Longrightarrow> 0 \<le> index_of xs y"
  by (induction xs) (auto simp: Let_def)

text \<open>An impact outside the list ranks before every listed one.\<close>

lemma pickWorst_unlisted:
  assumes "pickWorst xs = Some w" and "i \<in> set xs" and "in_impact i \<notin> set IMPACT_ORDER"
  shows "in_impact w \<notin> set IMPACT_ORDER"
proof
  assume "in_impact w \<in> set IMPACT_ORDER"
  then have "0 \<le> impact_rank w" by (simp add: impact_rank_def index_of_present)
  moreover have "impact_rank w \<le> impact_rank i" using pickWorst_least(2) [OF assms(1,2)] .
  ultimately show False using assms(3) by (simp add: impact_rank_def index_of_absent)
qed

end
