(* ===== verification/RateLimits.thy ===== *)
theory RateLimits
  imports Usage Regex
begin

text \<open>
  Recognising a refusal and deciding when to try again (\<open>daemon/src/limits.ts\<close>): the notice
  classifiers with their regular expressions, the corroboration by the measured windows, the reset
  time parsed out of the text, the back-off ladder, the per-session spread and the retry plan. The
  lemmas bound every wait and say which evidence decides it.
\<close>

section \<open>Constants\<close>

definition MAX_WAIT_MS :: time_ms where "MAX_WAIT_MS = 6 * 60 * 60 * 1000"
definition MIN_WAIT_MS :: time_ms where "MIN_WAIT_MS = 30000"
definition RESET_BUFFER_MS :: time_ms where "RESET_BUFFER_MS = 60000"
definition MAX_ATTEMPTS :: nat where "MAX_ATTEMPTS = 5"
definition STALL_MS :: time_ms where "STALL_MS = 20 * 60 * 1000"
definition STALL_RETRY_MS :: time_ms where "STALL_RETRY_MS = 2 * 60 * 1000"
definition RESTART_RESUME_MS :: time_ms where "RESTART_RESUME_MS = 5000"
definition OVERLOAD_RETRY_MS :: time_ms where "OVERLOAD_RETRY_MS = 2 * 60 * 1000"
definition MAX_OVERLOAD_ATTEMPTS :: nat where "MAX_OVERLOAD_ATTEMPTS = 360"
definition STATUS_POLL_MS :: time_ms where "STATUS_POLL_MS = 60000"
definition LAUNCH_RETRY_MS :: time_ms where "LAUNCH_RETRY_MS = 20000"
definition MAX_LAUNCH_ATTEMPTS :: nat where "MAX_LAUNCH_ATTEMPTS = 5"
definition MAX_NOTICE_LENGTH :: nat where "MAX_NOTICE_LENGTH = 300"

lemmas limits_const_defs [bound_simps] =
  MAX_WAIT_MS_def MIN_WAIT_MS_def RESET_BUFFER_MS_def MAX_ATTEMPTS_def STALL_MS_def
  STALL_RETRY_MS_def RESTART_RESUME_MS_def OVERLOAD_RETRY_MS_def MAX_OVERLOAD_ATTEMPTS_def
  STATUS_POLL_MS_def LAUNCH_RETRY_MS_def MAX_LAUNCH_ATTEMPTS_def

definition RESUME_MESSAGE :: string where
  "RESUME_MESSAGE = ''restart and continue''"

section \<open>Notices\<close>

definition OVERLOAD_PATTERNS :: "rx list" where
  "OVERLOAD_PATTERNS =
     [rx_seq [RWordB, rx_lit ''529'', RWordB],
      rx_seq [RWordB, rx_ci ''overloaded'', RWordB],
      rx_seq [RWordB, rx_ci ''overloaded_error'', RWordB]]"

definition rx_limits :: rx where
  "rx_limits = rx_seq [RWordB, rx_ci ''limit'', rx_opt (rx_ci ''s''), RWordB]"

definition LIMIT_PATTERNS :: "rx list" where
  "LIMIT_PATTERNS =
     [rx_seq [RWordB, rx_ci ''rate'', rx_in ''- '', rx_ci ''limited'', RWordB],
      rx_seq [RWordB, rx_alts [rx_ci ''usage'', rx_ci ''session'', rx_ci ''weekly'', rx_ci ''spend''],
              rx_in ''- '', rx_ci ''limit'', rx_opt (rx_ci ''s''), RWordB],
      rx_seq [RWordB, rx_ci ''hit'', RWordB, rx_between (rx_not_in ''.!?'') 0 40, rx_limits],
      rx_seq [RWordB, rx_alts [rx_ci ''reached'', rx_ci ''exceeded''], RWordB,
              rx_between (rx_not_in ''.!?'') 0 40, rx_limits],
      rx_seq [rx_limits, rx_between (rx_not_in ''.!?'') 0 25, RWordB,
              rx_alts [rx_ci ''reached'', rx_ci ''exceeded''], RWordB],
      rx_seq [RWordB, rx_ci ''out of'', RWordB, rx_between (rx_not_in ''.!?'') 0 40, rx_limits]]"

text \<open>
  The three classifiers share their guard: the value is a string and, trimmed, neither empty nor
  longer than a notice.
\<close>

definition notice_text :: "jsval \<Rightarrow> string option" where
  "notice_text v =
     (case js_str v of
        None \<Rightarrow> None
      | Some s \<Rightarrow> (let t = trim s in
                    if length t = 0 \<or> MAX_NOTICE_LENGTH < length t then None else Some t))"

definition isLimitNotice :: "jsval \<Rightarrow> bool" where
  "isLimitNotice v =
     (case notice_text v of None \<Rightarrow> False | Some t \<Rightarrow> list_ex (\<lambda>r. rx_test r t) LIMIT_PATTERNS)"

definition isOverloadNotice :: "jsval \<Rightarrow> bool" where
  "isOverloadNotice v =
     (case notice_text v of None \<Rightarrow> False | Some t \<Rightarrow> list_ex (\<lambda>r. rx_test r t) OVERLOAD_PATTERNS)"

definition NO_BINARY_PATTERN :: rx where
  "NO_BINARY_PATTERN =
     rx_alts [rx_ci ''not found'', rx_ci ''reinstall'', rx_ci ''without --omit=optional'']"

definition LAUNCH_PATTERN :: rx where
  "LAUNCH_PATTERN =
     rx_alts [rx_ci ''failed to launch'', rx_ci ''etxtbsy'', rx_ci ''enoexec'', rx_ci ''eagain'',
              rx_ci ''enomem'',
              rx_seq [rx_ci ''spawn '', rx_plus (RCh (\<lambda>c. \<not> is_space c)), rx_lit '' '',
                      rx_alts [rx_ci ''eacces'', rx_ci ''enoent'']]]"

definition isLaunchFailure :: "jsval \<Rightarrow> bool" where
  "isLaunchFailure v =
     (case notice_text v of
        None \<Rightarrow> False
      | Some t \<Rightarrow> \<not> rx_test NO_BINARY_PATTERN t \<and> rx_test LAUNCH_PATTERN t)"

section \<open>Corroboration by the measured windows\<close>

definition window_blocks :: "rate_limit_window \<Rightarrow> bool" where
  "window_blocks w =
     (w_status w = Rejected \<or> (case utilization w of None \<Rightarrow> False | Some u \<Rightarrow> 95 \<le> u))"

definition windowsLookLimited :: "rate_limits \<Rightarrow> bool" where
  "windowsLookLimited ws = (ws = [] \<or> list_ex window_blocks (map snd ws))"

section \<open>When to try again\<close>

definition UTC_PATTERN :: rx where
  "UTC_PATTERN =
     rx_alts [rx_seq [RWordB, rx_ci ''utc'', RWordB], rx_seq [RWordB, rx_ci ''z'', RWordB],
              rx_seq [rx_lit ''+00'', rx_opt (rx_lit '':''), rx_lit ''00'']]"

definition RESET_PATTERN :: rx where
  "RESET_PATTERN =
     rx_seq [RWordB, rx_ci ''reset'', rx_opt (rx_ci ''s''), RWordB,
             rx_between (RCh (\<lambda>c. \<not> is_digit c)) 0 12,
             RGrp 1 (rx_between rx_digit 1 2), rx_lit '':'', RGrp 2 (rx_between rx_digit 2 2),
             rx_star rx_space, rx_opt (RGrp 3 (rx_alts [rx_ci ''am'', rx_ci ''pm'']))]"

definition DAY_MS :: time_ms where "DAY_MS = 24 * 60 * 60 * 1000"

text \<open>\<open>at.setUTCHours(h, m, 0, 0)\<close> on the day of \<open>now\<close>.\<close>

definition utc_at :: "time_ms \<Rightarrow> nat \<Rightarrow> nat \<Rightarrow> time_ms" where
  "utc_at now h m = DAY_MS * of_int \<lfloor>now / DAY_MS\<rfloor> + of_nat (h * 60 + m) * 60000"

text \<open>Twelve-hour clock to hours: \<open>pm\<close> adds twelve below twelve, \<open>12 am\<close> is midnight.\<close>

definition clock_hour :: "nat \<Rightarrow> string option \<Rightarrow> nat" where
  "clock_hour h meridiem =
     (let h1 = (if meridiem = Some ''pm'' \<and> h < 12 then h + 12 else h)
      in if meridiem = Some ''am'' \<and> h1 = 12 then 0 else h1)"

definition parseResetTime :: "string \<Rightarrow> time_ms \<Rightarrow> time_ms option" where
  "parseResetTime text now =
     (if \<not> rx_test UTC_PATTERN text then None
      else case rx_exec RESET_PATTERN text 0 of
        None \<Rightarrow> None
      | Some (b, e, cs) \<Rightarrow>
          (let hour = read_nat (the (rx_group text cs 1));
               minute = read_nat (the (rx_group text cs 2));
               h = clock_hour hour (map_option to_lower (rx_group text cs 3))
           in if 59 < minute then None
              else if 23 < h then None
              else let w = utc_at now h minute
                   in Some (if w \<le> now then w + 24 * 60 * 60 * 1000 else w)))"

definition backoff_ladder :: "time_ms list" where
  "backoff_ladder = map (\<lambda>m. m * 60000) [5, 15, 30, 60]"

text \<open>\<open>ladder[min(attempts, 4) - 1] ?? ladder[3]\<close>: index \<open>-1\<close> is undefined.\<close>

definition backoffMs :: "nat \<Rightarrow> time_ms" where
  "backoffMs attempts =
     (if attempts = 0 then backoff_ladder ! (length backoff_ladder - 1)
      else backoff_ladder ! (min attempts (length backoff_ladder) - 1))"

definition spreadMs :: "string \<Rightarrow> nat \<Rightarrow> nat" where
  "spreadMs sessionId windowMs =
     foldl (\<lambda>hash c. (hash * 31 + code_of c) mod 1000003) 0 sessionId mod windowMs"

datatype retry_source = From_window | From_text | From_backoff

record retry_plan =
  rp_at :: time_ms
  rp_source :: retry_source

definition future_resets :: "rate_limits \<Rightarrow> time_ms \<Rightarrow> (time_ms \<times> limit_status) list" where
  "future_resets ws now =
     filter (\<lambda>(t, st). now < t)
       (List.map_filter (\<lambda>w. map_option (\<lambda>t. (t, w_status w)) (resetsAt w)) (map snd ws))"

definition soonest_reset :: "rate_limits \<Rightarrow> time_ms \<Rightarrow> time_ms option" where
  "soonest_reset ws now =
     (let resets = future_resets ws now;
          rejected = filter (\<lambda>(t, st). st = Rejected) resets;
          pool = (if rejected \<noteq> [] then rejected else resets)
      in case map fst pool of [] \<Rightarrow> None | t # ts \<Rightarrow> Some (min_of t ts))"

definition planRetry ::
    "rate_limits \<Rightarrow> string \<Rightarrow> time_ms \<Rightarrow> nat \<Rightarrow> string \<Rightarrow> retry_plan" where
  "planRetry ws text now attempts sessionId =
     (let (t, src) =
        (case soonest_reset ws now of
           Some soonest \<Rightarrow> (soonest + RESET_BUFFER_MS, From_window)
         | None \<Rightarrow>
             (case parseResetTime text now of
                Some parsed \<Rightarrow> (parsed + RESET_BUFFER_MS, From_text)
              | None \<Rightarrow> (now + backoffMs attempts, From_backoff)));
        t1 = t + of_nat (spreadMs sessionId 60000);
        t2 = min t1 (now + MAX_WAIT_MS);
        t3 = max t2 (now + MIN_WAIT_MS)
      in \<lparr>rp_at = t3, rp_source = src\<rparr>)"

section \<open>Facts\<close>

lemma notice_text_Some:
  "notice_text v = Some t \<Longrightarrow> t \<noteq> [] \<and> length t \<le> MAX_NOTICE_LENGTH \<and> (\<exists>s. v = JStr s \<and> t = trim s)"
  by (auto simp: notice_text_def Let_def split: option.splits if_splits)

lemma long_text_no_notice:
  "MAX_NOTICE_LENGTH < length (trim s) \<Longrightarrow> notice_text (JStr s) = None"
  by (simp add: notice_text_def Let_def)

lemmas notice_defs = isLimitNotice_def isOverloadNotice_def isLaunchFailure_def

lemma DAY_MS_pos [simp]: "0 < DAY_MS" "DAY_MS \<noteq> 0"
  by (simp_all add: DAY_MS_def)

lemma clock_hour_am_pm: "h \<le> 23 \<Longrightarrow> clock_hour h mer \<le> 23"
  by (auto simp: clock_hour_def Let_def)

lemma day_floor_bounds:
  fixes now :: time_ms
  shows "DAY_MS * of_int \<lfloor>now / DAY_MS\<rfloor> \<le> now \<and> now < DAY_MS * of_int \<lfloor>now / DAY_MS\<rfloor> + DAY_MS"
proof -
  have "of_int \<lfloor>now / DAY_MS\<rfloor> * DAY_MS \<le> now"
    using pos_le_divide_eq [THEN iffD1, OF DAY_MS_pos(1) of_int_floor_le] .
  moreover have "now / DAY_MS < of_int \<lfloor>now / DAY_MS\<rfloor> + 1" by linarith
  then have "now < (of_int \<lfloor>now / DAY_MS\<rfloor> + 1) * DAY_MS"
    by (rule pos_divide_less_eq [THEN iffD1, OF DAY_MS_pos(1)])
  ultimately show ?thesis
    by (simp add: algebra_simps)
qed

lemma utc_at_next:
  fixes now :: time_ms
  assumes "h \<le> 23" and "m \<le> 59"
  defines "w \<equiv> (if utc_at now h m \<le> now then utc_at now h m + 24 * 60 * 60 * 1000 else utc_at now h m)"
  shows "now < w \<and> w \<le> now + DAY_MS"
proof -
  let ?d = "DAY_MS * of_int \<lfloor>now / DAY_MS\<rfloor>" and ?o = "of_nat (h * 60 + m) * 60000 :: time_ms"
  have "h * 60 + m \<le> 1439" using assms by simp
  then have "of_nat (h * 60 + m) \<le> (1439 :: time_ms)"
    by (metis of_nat_le_iff of_nat_numeral)
  then have o: "0 \<le> ?o" "?o < DAY_MS" by (simp_all add: DAY_MS_def)
  have "utc_at now h m = ?d + ?o" by (simp add: utc_at_def)
  moreover note day_floor_bounds [of now] o
  moreover have "DAY_MS = 24 * 60 * 60 * 1000" by (simp add: DAY_MS_def)
  ultimately show ?thesis
    unfolding w_def by (simp only: split: if_split) linarith
qed

lemma spreadMs_bound: "0 < w \<Longrightarrow> spreadMs i w < w"
  by (simp add: spreadMs_def)

lemma backoffMs_cases:
  "backoffMs n \<in> {300000, 900000, 1800000, 3600000}"
proof -
  consider "n = 0" | "n = 1" | "n = 2" | "n = 3" | "4 \<le> n" by linarith
  then show ?thesis
    by cases (auto simp: backoffMs_def backoff_ladder_def min_def numeral_eq_Suc)
qed

lemma backoffMs_mono: "1 \<le> m \<Longrightarrow> m \<le> n \<Longrightarrow> backoffMs m \<le> backoffMs n"
proof -
  assume "1 \<le> m" "m \<le> n"
  then have "min m 4 \<in> {1, 2, 3, 4}" "min n 4 \<in> {1, 2, 3, 4}" "min m 4 \<le> min n 4"
    "m \<noteq> 0" "n \<noteq> 0" by auto
  then show ?thesis
    by (auto simp: backoffMs_def backoff_ladder_def numeral_eq_Suc)
qed

lemma future_resets_iff:
  "(t, st) \<in> set (future_resets ws now) \<longleftrightarrow>
     now < t \<and> (\<exists>k w. (k, w) \<in> set ws \<and> resetsAt w = Some t \<and> w_status w = st)"
  by (force simp: future_resets_def map_filter_def)

lemma soonest_reset_Some:
  assumes "soonest_reset ws now = Some t"
  shows "now < t" and "\<exists>st. (t, st) \<in> set (future_resets ws now)"
    and "(t', Rejected) \<in> set (future_resets ws now) \<Longrightarrow> t \<le> t'"
proof -
  let ?R = "future_resets ws now"
  let ?J = "filter (\<lambda>(t, st). st = Rejected) ?R"
  let ?P = "if ?J \<noteq> [] then ?J else ?R"
  from assms obtain a as where p: "map fst ?P = a # as" and t: "t = min_of a as"
    by (auto simp: soonest_reset_def Let_def split: list.splits if_splits)
  from min_of_mem [of a as] p t have m: "t \<in> fst ` set ?P"
    by (metis list.set_map list.simps(15))
  then show st: "\<exists>st. (t, st) \<in> set ?R" by (auto split: if_splits)
  then show "now < t" by (auto simp: future_resets_iff)
  assume r: "(t', Rejected) \<in> set ?R"
  then have "t' \<in> fst ` set ?J" by force
  then have "t' \<in> set (map fst ?P)" by (auto split: if_splits)
  then have "t' \<in> set (a # as)" using p by simp
  then show "t \<le> t'" using t min_of_le [of a as] min_of_le_elem [of t' as a] by auto
qed

lemma soonest_reset_None: "soonest_reset ws now = None \<longleftrightarrow> future_resets ws now = []"
  by (auto simp: soonest_reset_def Let_def split: list.splits)

section \<open>The clock time in a text\<close>

text \<open>What stands where in a text with a reset time: the word, the clock time, and what follows it.\<close>

definition meridiem_of :: "string \<Rightarrow> string option" where
  "meridiem_of post =
     (let a = to_lower (take 2 (dropWhile is_space post)) in if a = ''am'' \<or> a = ''pm'' then Some a else None)"

definition reset_text :: "string \<Rightarrow> string \<Rightarrow> string \<Rightarrow> string \<Rightarrow> bool" where
  "reset_text w hh mm post =
     (\<exists>pre word gap. w = pre @ word @ gap @ hh @ '':'' @ mm @ post
        \<and> to_lower word \<in> {''reset'', ''resets''} \<and> length gap \<le> 12 \<and> list_all (\<lambda>c. \<not> is_digit c) gap
        \<and> length hh \<in> {1, 2} \<and> list_all is_digit hh \<and> length mm = 2 \<and> list_all is_digit mm)"

lemma meridiem_tail:
  assumes "rx_match (RSeq (rx_star rx_space) (rx_opt (RGrp 3 (rx_alts [rx_ci ''am'', rx_ci ''pm''])))) w u = t # ts"
    and "fst u \<le> length w" and "map_of (snd u) 3 = None"
  shows "map_option to_lower (rx_group w (snd t) 3) = meridiem_of (drop (fst u) w)"
    and "k \<noteq> 3 \<Longrightarrow> rx_group w (snd t) k = rx_group w (snd u) k"
proof -
  let ?i = "fst u + length (takeWhile is_space (drop (fst u) w))"
  let ?a = "to_lower (take 2 (drop ?i w))"
  obtain vs where star: "rx_match (rx_star rx_space) w u = (?i, snd u) # vs"
    using rep_star_first [of is_space w u] by blast
  have d: "drop ?i w = dropWhile is_space (drop (fst u) w)"
    by (metis add.commute drop_drop dropWhile_eq_drop)
  have "t = hd (rx_match (rx_opt (RGrp 3 (rx_alts [rx_ci ''am'', rx_ci ''pm'']))) w (?i, snd u))"
  proof -
    let ?r = "rx_match (rx_opt (RGrp 3 (rx_alts [rx_ci ''am'', rx_ci ''pm'']))) w (?i, snd u)"
    have "?r \<noteq> []" by (cases "length w") (auto simp: rep_states.simps(2))
    moreover have "t # ts = ?r @ concat (map (rx_match (rx_opt (RGrp 3 (rx_alts [rx_ci ''am'', rx_ci ''pm'']))) w) vs)"
      using assms(1) star by (simp only: rx_match.simps(3) list.map concat.simps)
    ultimately show ?thesis by (metis hd_append2 list.sel(1))
  qed
  also have "\<dots> = (if ?a = ''am'' \<or> ?a = ''pm'' then (?i + 2, AList.update 3 (?i, ?i + 2) (snd u)) else (?i, snd u))"
  proof (cases w)
    case Nil
    then show ?thesis by (simp add: rep_states.simps(2) rx_ci_first2 to_lower_def pred_opt_def)
  next
    case (Cons c v)
    then have "rx_match (rx_opt (RGrp 3 (rx_alts [rx_ci ''am'', rx_ci ''pm'']))) w (?i, snd u)
        = filter (\<lambda>t. fst t \<noteq> ?i) (rx_match (RGrp 3 (rx_alts [rx_ci ''am'', rx_ci ''pm''])) w (?i, snd u)) @ [(?i, snd u)]"
      by (simp add: rep_opt del: rx_alts.simps)
    then show ?thesis by (auto simp: rx_ci_first2 simp del: One_nat_def)
  qed
  finally have t: "t = (if ?a = ''am'' \<or> ?a = ''pm'' then (?i + 2, AList.update 3 (?i, ?i + 2) (snd u)) else (?i, snd u))" .
  show "map_option to_lower (rx_group w (snd t) 3) = meridiem_of (drop (fst u) w)"
    using assms(3) unfolding t d [symmetric] meridiem_of_def Let_def
    by (auto simp: rx_group_def substring_def update_conv' d)
  show "k \<noteq> 3 \<Longrightarrow> rx_group w (snd t) k = rx_group w (snd u) k"
    unfolding t by (auto simp: rx_group_def update_conv')
qed

lemma reset_head:
  assumes "u1 \<in> set (rx_match (rx_ci ''reset'') w (b, []))" and "b \<le> length w"
    and "u2 \<in> set (rx_match (rx_opt (rx_ci ''s'')) w u1)"
    and "u3 \<in> set (rx_match (rx_between (RCh (\<lambda>c. \<not> is_digit c)) 0 12) w u2)"
  shows "b \<le> fst u2" "fst u2 \<le> fst u3" "fst u3 \<le> length w" "snd u3 = []"
    and "to_lower (substring w b (fst u2)) \<in> {''reset'', ''resets''}"
    and "fst u3 - fst u2 \<le> 12" "list_all (\<lambda>c. \<not> is_digit c) (substring w (fst u2) (fst u3))"
proof -
  have 1: "snd u1 = []" "b \<le> fst u1" "fst u1 \<le> length w" "to_lower (substring w b (fst u1)) = ''reset''"
    using rx_ci_reads [OF assms(1)] assms(2) by auto
  have ci: "rx_ci ''s'' = RCh (\<lambda>c. lower_char c = CHR ''s'')" by (simp add: rx_ci_def)
  from assms(3) have m2: "u2 \<in> set (rep_states True (rx_match (RCh (\<lambda>c. lower_char c = CHR ''s'')) w) (Suc (length w)) 0 (Some 1) u1)"
    by (simp add: ci)
  note 2 = rep_class [OF m2 1(3)]
  from assms(4) have m3: "u3 \<in> set (rep_states True (rx_match (RCh (\<lambda>c. \<not> is_digit c)) w) (Suc (length w)) 0 (Some 12) u2)"
    by simp
  note 3 = rep_class [OF m3 2(3)]
  let ?s = "substring w (fst u1) (fst u2)"
  have "length ?s \<le> 1" using 2(3,5) by (simp add: length_substring)
  then have "?s = [] \<or> (\<exists>c. ?s = [c])" by (cases ?s) auto
  with 2(4) have s: "to_lower ?s = [] \<or> to_lower ?s = ''s''" by (auto simp: to_lower_def)
  have "substring w b (fst u2) = substring w b (fst u1) @ ?s"
    using 1(2) 2(2) by (simp add: substring_append)
  then have "to_lower (substring w b (fst u2)) = ''reset'' @ to_lower ?s" using 1(4) by (simp add: to_lower_def)
  with s show "to_lower (substring w b (fst u2)) \<in> {''reset'', ''resets''}" by auto
  show "b \<le> fst u2" "fst u2 \<le> fst u3" "fst u3 \<le> length w" "snd u3 = []" "fst u3 - fst u2 \<le> 12"
    "list_all (\<lambda>c. \<not> is_digit c) (substring w (fst u2) (fst u3))"
    using 1(1,2) 2(1,2) 3 by auto
qed

text \<open>The places a match of the pattern went through.\<close>

lemma reset_steps:
  assumes "rx_exec RESET_PATTERN w 0 = Some (b, e, cs)"
  obtains u1 u2 u3 u4 u5 u6 ts where "b \<le> length w"
    "u1 \<in> set (rx_match (rx_ci ''reset'') w (b, []))" "u2 \<in> set (rx_match (rx_opt (rx_ci ''s'')) w u1)"
    "u3 \<in> set (rx_match (rx_between (RCh (\<lambda>c. \<not> is_digit c)) 0 12) w u2)"
    "u4 \<in> set (rx_match (RGrp 1 (rx_between rx_digit 1 2)) w u3)" "u5 \<in> set (rx_match (rx_lit '':'') w u4)"
    "u6 \<in> set (rx_match (RGrp 2 (rx_between rx_digit 2 2)) w u5)"
    "rx_match (RSeq (rx_star rx_space) (rx_opt (RGrp 3 (rx_alts [rx_ci ''am'', rx_ci ''pm''])))) w u6 = (e, cs) # ts"
proof -
  let ?tail = "RSeq (rx_star rx_space) (rx_opt (RGrp 3 (rx_alts [rx_ci ''am'', rx_ci ''pm''])))"
  obtain ts where m: "rx_match RESET_PATTERN w (b, []) = (e, cs) # ts" and b: "b \<le> length w"
    using rx_first_hit [OF assms [unfolded rx_exec_def]] by auto
  have p: "RESET_PATTERN = RSeq RWordB (RSeq (rx_ci ''reset'') (RSeq (rx_opt (rx_ci ''s'')) (RSeq RWordB
      (RSeq (rx_between (RCh (\<lambda>c. \<not> is_digit c)) 0 12) (RSeq (RGrp 1 (rx_between rx_digit 1 2))
      (RSeq (rx_lit '':'') (RSeq (RGrp 2 (rx_between rx_digit 2 2)) ?tail)))))))"
    by (simp only: RESET_PATTERN_def rx_seq.simps)
  from m [unfolded p] obtain u0 ts where "u0 \<in> set (rx_match RWordB w (b, []))"
    and m: "rx_match (RSeq (rx_ci ''reset'') (RSeq (rx_opt (rx_ci ''s'')) (RSeq RWordB
      (RSeq (rx_between (RCh (\<lambda>c. \<not> is_digit c)) 0 12) (RSeq (RGrp 1 (rx_between rx_digit 1 2))
      (RSeq (rx_lit '':'') (RSeq (RGrp 2 (rx_between rx_digit 2 2)) ?tail))))))) w u0 = (e, cs) # ts"
    by (rule seq_first)
  then have u0: "u0 = (b, [])" by (auto split: if_splits)
  from m [unfolded u0] obtain u1 ts where u1: "u1 \<in> set (rx_match (rx_ci ''reset'') w (b, []))"
    and m: "rx_match (RSeq (rx_opt (rx_ci ''s'')) (RSeq RWordB
      (RSeq (rx_between (RCh (\<lambda>c. \<not> is_digit c)) 0 12) (RSeq (RGrp 1 (rx_between rx_digit 1 2))
      (RSeq (rx_lit '':'') (RSeq (RGrp 2 (rx_between rx_digit 2 2)) ?tail)))))) w u1 = (e, cs) # ts"
    by (rule seq_first)
  from m obtain u2 ts where u2: "u2 \<in> set (rx_match (rx_opt (rx_ci ''s'')) w u1)"
    and m: "rx_match (RSeq RWordB (RSeq (rx_between (RCh (\<lambda>c. \<not> is_digit c)) 0 12)
      (RSeq (RGrp 1 (rx_between rx_digit 1 2)) (RSeq (rx_lit '':'') (RSeq (RGrp 2 (rx_between rx_digit 2 2)) ?tail)))))
      w u2 = (e, cs) # ts" by (rule seq_first)
  from m obtain u2' ts where "u2' \<in> set (rx_match RWordB w u2)"
    and m: "rx_match (RSeq (rx_between (RCh (\<lambda>c. \<not> is_digit c)) 0 12)
      (RSeq (RGrp 1 (rx_between rx_digit 1 2)) (RSeq (rx_lit '':'') (RSeq (RGrp 2 (rx_between rx_digit 2 2)) ?tail))))
      w u2' = (e, cs) # ts" by (rule seq_first)
  then have "u2' = u2" by (auto split: if_splits)
  from m [unfolded this] obtain u3 ts where u3: "u3 \<in> set (rx_match (rx_between (RCh (\<lambda>c. \<not> is_digit c)) 0 12) w u2)"
    and m: "rx_match (RSeq (RGrp 1 (rx_between rx_digit 1 2)) (RSeq (rx_lit '':'')
      (RSeq (RGrp 2 (rx_between rx_digit 2 2)) ?tail))) w u3 = (e, cs) # ts" by (rule seq_first)
  from m obtain u4 ts where u4: "u4 \<in> set (rx_match (RGrp 1 (rx_between rx_digit 1 2)) w u3)"
    and m: "rx_match (RSeq (rx_lit '':'') (RSeq (RGrp 2 (rx_between rx_digit 2 2)) ?tail)) w u4 = (e, cs) # ts"
    by (rule seq_first)
  from m obtain u5 ts where u5: "u5 \<in> set (rx_match (rx_lit '':'') w u4)"
    and m: "rx_match (RSeq (RGrp 2 (rx_between rx_digit 2 2)) ?tail) w u5 = (e, cs) # ts" by (rule seq_first)
  from m obtain u6 ts where u6: "u6 \<in> set (rx_match (RGrp 2 (rx_between rx_digit 2 2)) w u5)"
    and m: "rx_match ?tail w u6 = (e, cs) # ts" by (rule seq_first)
  from that [OF b u1 u2 u3 u4 u5 u6 m] show thesis .
qed

lemma reset_reads:
  assumes "rx_exec RESET_PATTERN w 0 = Some (b, e, cs)"
  shows "\<exists>hh mm post. reset_text w hh mm post \<and> rx_group w cs 1 = Some hh \<and> rx_group w cs 2 = Some mm
    \<and> map_option to_lower (rx_group w cs 3) = meridiem_of post"
proof -
  from reset_steps [OF assms] obtain u1 u2 u3 u4 u5 u6 ts where b: "b \<le> length w"
    and u1: "u1 \<in> set (rx_match (rx_ci ''reset'') w (b, []))" and u2: "u2 \<in> set (rx_match (rx_opt (rx_ci ''s'')) w u1)"
    and u3: "u3 \<in> set (rx_match (rx_between (RCh (\<lambda>c. \<not> is_digit c)) 0 12) w u2)"
    and u4: "u4 \<in> set (rx_match (RGrp 1 (rx_between rx_digit 1 2)) w u3)" and u5: "u5 \<in> set (rx_match (rx_lit '':'') w u4)"
    and u6: "u6 \<in> set (rx_match (RGrp 2 (rx_between rx_digit 2 2)) w u5)"
    and m: "rx_match (RSeq (rx_star rx_space) (rx_opt (RGrp 3 (rx_alts [rx_ci ''am'', rx_ci ''pm''])))) w u6 = (e, cs) # ts" .
  note h = reset_head [OF u1 b u2 u3]
  note g1 = digits_group [OF u4 h(3)]
  have c5: "fst u4 < length w" "w ! fst u4 = CHR '':''" "u5 = (Suc (fst u4), snd u4)"
    using u5 by (auto simp: rx_lit_def split: if_splits)
  then have "fst u5 \<le> length w" by simp
  note g2 = digits_group [OF u6 this]
  let ?hh = "substring w (fst u3) (fst u4)" and ?mm = "substring w (fst u5) (fst u6)" and ?post = "drop (fst u6) w"
  have six: "snd u6 = [(1, fst u3, fst u4), (2, fst u5, fst u6)]" using g1(5) g2(5) h(4) c5(3) by simp
  then have "map_of (snd u6) 3 = None" by simp
  note tail = meridiem_tail [OF m g2(2) this]
  have "w = take b w @ substring w b (length w)" using b by (simp add: substring_whole)
  also have "substring w b (length w) = substring w b (fst u2) @ substring w (fst u2) (fst u3) @ ?hh @ '':'' @ ?mm @ ?post"
  proof -
    have "'':'' = substring w (fst u4) (fst u5)" using c5 by (simp add: substring_one)
    moreover have "?post = substring w (fst u6) (length w)" by (simp add: substring_def)
    ultimately show ?thesis using h(1-3) g1(1,2) g2(1,2) c5 by (simp add: substring_append)
  qed
  finally have "w = take b w @ substring w b (fst u2) @ substring w (fst u2) (fst u3) @ ?hh @ '':'' @ ?mm @ ?post" .
  moreover have "length ?hh \<in> {1, 2}" "length ?mm = 2" "length (substring w (fst u2) (fst u3)) \<le> 12"
    using g1(1-3) g2(1-3) h(3,6) by (auto simp: length_substring)
  ultimately have "reset_text w ?hh ?mm ?post"
    unfolding reset_text_def using h(5,7) g1(4) g2(4) by blast
  moreover have "rx_group w cs 1 = Some ?hh" "rx_group w cs 2 = Some ?mm"
    using tail(2) [of 1] tail(2) [of 2] six by (simp_all add: rx_group_def)
  ultimately show ?thesis using tail(1) by auto
qed

text \<open>The hour of the day such a text names: twelve hours are counted from midnight and from noon.\<close>

definition hour_of_day :: "string \<Rightarrow> string \<Rightarrow> nat" where
  "hour_of_day hh post =
     (case meridiem_of post of
        None \<Rightarrow> read_nat hh
      | Some a \<Rightarrow>
          if a = ''pm'' then (if read_nat hh < 12 then read_nat hh + 12 else read_nat hh)
          else (if read_nat hh = 12 then 0 else read_nat hh))"

lemma clock_hour_of_day: "clock_hour (read_nat hh) (meridiem_of post) = hour_of_day hh post"
  by (auto simp: clock_hour_def hour_of_day_def meridiem_of_def Let_def)

lemma parseResetTime_Some:
  assumes "parseResetTime text now = Some w"
  obtains hh mm post where "reset_text text hh mm post" "hour_of_day hh post \<le> 23" "read_nat mm \<le> 59"
    "w = (let u = utc_at now (hour_of_day hh post) (read_nat mm) in if u \<le> now then u + 24 * 60 * 60 * 1000 else u)"
    "rx_test UTC_PATTERN text"
proof -
  from assms obtain b e cs where
    u: "rx_test UTC_PATTERN text" and x: "rx_exec RESET_PATTERN text 0 = Some (b, e, cs)"
    unfolding parseResetTime_def
    by (cases "rx_exec RESET_PATTERN text 0") (auto split: if_splits)
  from reset_reads [OF x] obtain hh mm post where r: "reset_text text hh mm post"
    "rx_group text cs 1 = Some hh" "rx_group text cs 2 = Some mm"
    "map_option to_lower (rx_group text cs 3) = meridiem_of post" by blast
  from assms u x r(2-4) have "read_nat mm \<le> 59" "hour_of_day hh post \<le> 23"
    "w = (let u = utc_at now (hour_of_day hh post) (read_nat mm) in if u \<le> now then u + 24 * 60 * 60 * 1000 else u)"
    unfolding parseResetTime_def
    by (simp_all add: Let_def clock_hour_of_day del: One_nat_def split: if_splits)
  with u r(1) that show thesis by blast
qed

lemma parseResetTime_next:
  assumes "parseResetTime text now = Some r"
  shows "now < r \<and> r \<le> now + DAY_MS \<and> rx_test UTC_PATTERN text
    \<and> (\<exists>hh mm post d. reset_text text hh mm post \<and> hour_of_day hh post \<le> 23 \<and> read_nat mm \<le> 59
         \<and> r = DAY_MS * of_int d + of_nat (hour_of_day hh post * 60 + read_nat mm) * 60000)"
proof -
  obtain hh mm post where t: "reset_text text hh mm post" "hour_of_day hh post \<le> 23" "read_nat mm \<le> 59"
    "r = (let u = utc_at now (hour_of_day hh post) (read_nat mm) in if u \<le> now then u + 24 * 60 * 60 * 1000 else u)"
    "rx_test UTC_PATTERN text"
    using parseResetTime_Some [OF assms] by metis
  let ?h = "hour_of_day hh post" and ?m = "read_nat mm"
  define k where "k = \<lfloor>now / DAY_MS\<rfloor>"
  define d where "d = (if utc_at now ?h ?m \<le> now then k + 1 else k)"
  have u: "utc_at now ?h ?m = DAY_MS * of_int k + of_nat (?h * 60 + ?m) * 60000"
    by (simp only: utc_at_def k_def)
  have day: "24 * 60 * 60 * 1000 = DAY_MS" by (simp add: DAY_MS_def)
  have step: "DAY_MS * of_int (k + 1) = DAY_MS * of_int k + DAY_MS"
    by (simp only: of_int_add of_int_1 distrib_left mult_1_right)
  have r: "r = DAY_MS * of_int d + of_nat (?h * 60 + ?m) * 60000"
  proof (cases "utc_at now ?h ?m \<le> now")
    case True
    then have "r = utc_at now ?h ?m + DAY_MS" and d: "d = k + 1"
      by (simp_all only: t(4) d_def day Let_def if_True)
    then have "r = (DAY_MS * of_int k + DAY_MS) + of_nat (?h * 60 + ?m) * 60000"
      unfolding u by (simp only: add_ac)
    then show ?thesis unfolding d step .
  next
    case False
    then have "r = utc_at now ?h ?m" "d = k" by (simp_all only: t(4) d_def Let_def if_False)
    then show ?thesis unfolding u by (simp only:)
  qed
  have "now < r" "r \<le> now + DAY_MS"
    using utc_at_next [OF t(2,3), of now] unfolding t(4) Let_def by blast+
  with t(1-3,5) r show ?thesis by blast
qed

lemma clamp_bounds:
  fixes a :: time_ms
  assumes "lo \<le> hi"
  shows "lo \<le> max (min a hi) lo \<and> max (min a hi) lo \<le> hi"
  using assms by simp

lemma planRetry_bounds:
  "now + MIN_WAIT_MS \<le> rp_at (planRetry ws text now n sid)
   \<and> rp_at (planRetry ws text now n sid) \<le> now + MAX_WAIT_MS"
proof -
  have "now + MIN_WAIT_MS \<le> now + MAX_WAIT_MS" by (simp add: MIN_WAIT_MS_def MAX_WAIT_MS_def)
  from clamp_bounds [OF this] show ?thesis
    by (simp add: planRetry_def Let_def case_prod_beta)
qed

end
