(* ===== verification/SessionState.thy ===== *)
theory SessionState
  imports Evidence Agents ErrorHints StatusPage RateLimits
begin

text \<open>
  The state of a session (\<open>class DaemonSession\<close> of \<open>daemon/src/session.ts\<close>), its input queue,
  the answers its surroundings give during one call (\<open>env\<close>), the effects it has on them
  (\<open>effect\<close>), and the statements its methods are made of.

  A method is an \<open>op\<close>: a state transformer that ends normally or throws a message. Its statements
  are run by \<open>seqs\<close>, which stops at the first one that throws, as the code does. Everything the
  method learns from outside is in \<open>env\<close>: the clock, which stands still during a call; how each
  write to the log ends; what the host answers to a callback. Log lines of the daemon
  (\<open>callbacks.log\<close>) are not modelled.
\<close>

section \<open>Dates in messages\<close>

definition pad_to :: "nat \<Rightarrow> nat \<Rightarrow> string" where
  "pad_to k n = (let s = show_nat n in replicate (k - length s) (CHR ''0'') @ s)"

definition civil_from_days :: "int \<Rightarrow> int \<times> nat \<times> nat" where
  "civil_from_days z0 =
     (let z = z0 + 719468; era = z div 146097; doe = z - era * 146097;
          yoe = (doe - doe div 1460 + doe div 36524 - doe div 146096) div 365;
          doy = doe - (365 * yoe + yoe div 4 - yoe div 100);
          mp = (5 * doy + 2) div 153; d = doy - (153 * mp + 2) div 5 + 1;
          m = (if mp < 10 then mp + 3 else mp - 9)
      in (yoe + era * 400 + (if m \<le> 2 then 1 else 0), nat m, nat d))"

text \<open>\<open>new Date(ms).toISOString()\<close> for the years 0 to 9999.\<close>

definition iso_string :: "time_ms \<Rightarrow> string" where
  "iso_string t =
     (let ms = \<lfloor>t\<rfloor>; (y, m, d) = civil_from_days (ms div 86400000); r = nat (ms mod 86400000)
      in pad_to 4 (nat y) @ ''-'' @ pad_to 2 m @ ''-'' @ pad_to 2 d @ ''T''
         @ pad_to 2 (r div 3600000) @ '':'' @ pad_to 2 (r div 60000 mod 60) @ '':''
         @ pad_to 2 (r div 1000 mod 60) @ ''.'' @ pad_to 3 (r mod 1000) @ ''Z'')"

definition js_round :: "num \<Rightarrow> nat" where
  "js_round x = nat \<lfloor>x + 1 / 2\<rfloor>"

section \<open>Session data\<close>

record session_meta =
  mt_id :: string
  mt_title :: string
  mt_cwd :: string
  mt_sdkSessionId :: "string option"
  mt_permissionMode :: "permission_mode option"
  mt_model :: "string option"
  mt_effort :: "effort_level option"
  mt_createdAt :: time_ms
  mt_lastActivityAt :: time_ms
  mt_imageCount :: "nat option"
  mt_turns :: "nat option"
  mt_titledAt :: "time_ms option"
  mt_titleSetByUser :: bool
  mt_activeModel :: "string option"
  mt_clearedAt :: "nat option"
  mt_pastTitles :: "string list option"
  mt_pendingTitle :: "string option"

record pending_turn =
  pt_retryAt :: time_ms
  pt_attempts :: nat
  pt_text :: string

record permission =
  pm_isQuestion :: bool
  pm_input :: jsval

subsection \<open>The input queue\<close>

text \<open>
  \<open>InputQueue\<close>: what is buffered, how many \<open>next()\<close> promises wait, whether it was closed. An
  operation returns what the waiting promises are resolved with; \<open>None\<close> ends the iteration.
\<close>

record 'a input_queue =
  iq_buffer :: "'a list"
  iq_waiters :: nat
  iq_closed :: bool

definition iq_new :: "'a input_queue" where
  "iq_new = \<lparr>iq_buffer = [], iq_waiters = 0, iq_closed = False\<rparr>"

definition iq_push :: "'a \<Rightarrow> 'a input_queue \<Rightarrow> 'a input_queue \<times> 'a option list" where
  "iq_push x q =
     (case iq_waiters q of
        0 \<Rightarrow> (q \<lparr>iq_buffer := iq_buffer q @ [x]\<rparr>, [])
      | Suc n \<Rightarrow> (q \<lparr>iq_waiters := n\<rparr>, [Some x]))"

definition iq_close :: "'a input_queue \<Rightarrow> 'a input_queue \<times> 'a option list" where
  "iq_close q = (q \<lparr>iq_closed := True, iq_waiters := 0\<rparr>, replicate (iq_waiters q) None)"

definition iq_next :: "'a input_queue \<Rightarrow> 'a input_queue \<times> 'a option list" where
  "iq_next q =
     (case iq_buffer q of
        x # xs \<Rightarrow> (q \<lparr>iq_buffer := xs\<rparr>, [Some x])
      | [] \<Rightarrow> if iq_closed q then (q, [None]) else (q \<lparr>iq_waiters := Suc (iq_waiters q)\<rparr>, []))"

subsection \<open>The state\<close>

text \<open>What the SDK's \<open>query()\<close> is started with.\<close>

record query_options =
  qo_cwd :: string
  qo_resume :: "string option"
  qo_permissionMode :: permission_mode
  qo_model :: "string option"
  qo_effort :: "effort_level option"
  qo_executable :: "string option"
  qo_configDir :: string
  qo_session :: string

record title_request =
  tr_exchanges :: "exchange list"
  tr_vocabulary :: "string list"
  tr_branches :: "string list"
  tr_issue :: string
  tr_current :: string
  tr_siblings :: "string list"
  tr_project :: string
  tr_firstNaming :: bool

datatype effect =
    Event_sent jsval
  | Meta_changed
  | Retitled
  | Delta_sent string
  | Tokens_counted jsval "string option"
  | Rate_limit_seen jsval
  | Agents_published "active_agent list"
  | Limited_reported time_ms
  | Auth_failure_reported
  | Retry_announced
  | Incidents_asked
  | Name_asked title_request
  | Usage_polled nat
  | Transcript_synced "string option" string
  | Query_started nat query_options
  | Query_closed nat
  | Input_pushed nat jsval
  | Query_interrupted nat
  | Mode_applied nat permission_mode
  | Model_applied nat "string option"
  | Effort_applied nat "effort_level option"
  | Permission_settled string jsval

text \<open>
  \<open>s_file\<close> is the content of \<open>pendingTurnPath(id)\<close>, \<open>s_retryTimer\<close> the instant the retry timer
  fires, \<open>s_query\<close> the number of the live query, \<open>s_trace\<close> the effects so far, the oldest first.
\<close>

record session =
  s_meta :: session_meta
  s_status :: session_status
  s_effectiveCwd :: string
  s_cwdChecked :: bool
  s_statusTimer :: bool
  s_namedIncident :: "string option"
  s_pending :: "pending_turn option"
  s_retryTimer :: "time_ms option"
  s_retries :: nat
  s_agents :: agents_map
  s_levelSignal :: bool
  s_agentTimer :: bool
  s_agentSignature :: string
  s_lastSdkAt :: time_ms
  s_stallTimer :: bool
  s_transcript :: transcript
  s_input :: "jsval input_queue option"
  s_query :: "nat option"
  s_nextQuery :: nat
  s_permissions :: "(string \<times> permission) list"
  s_lastCallUsage :: "jsval option"
  s_agentNames :: "(string \<times> string) list"
  s_file :: "string option"
  s_trace :: "effect list"

subsection \<open>The surroundings\<close>

text \<open>
  A host's answer to \<open>onLimited\<close> or \<open>onAuthFailure\<close>. \<open>rp_activation\<close> holds the arguments of the
  \<open>parkForAccountSwitch\<close> the host calls on this very session before it answers, when it moves
  to another account: the time to resume, the account's name and the reason.
\<close>

record host_reply =
  rp_retryAt :: time_ms
  rp_switchedTo :: "string option"
  rp_why :: string
  rp_activation :: "(time_ms \<times> string \<times> string) option"

record env =
  e_now :: time_ms
  e_renames :: bool
  e_write :: "nat \<Rightarrow> write_outcome"
  e_ioError :: string
  e_persists :: bool
  e_windows :: rate_limits
  e_onLimited :: "time_ms \<Rightarrow> host_reply"
  e_onAuthFailure :: host_reply
  e_beforeRetry :: host_reply
  e_siblings :: "string list"
  e_claude :: "string option"
  e_sdkTranscript :: "string \<Rightarrow> string \<Rightarrow> bool"
  e_isDirectory :: "string \<Rightarrow> bool"
  e_home :: string
  e_configDir :: string
  e_activeName :: "string option"
  e_uuid :: string

section \<open>Statements\<close>

datatype outcome = Done | Threw string

type_synonym op = "session \<Rightarrow> session \<times> outcome"

definition skip :: op where
  "skip s = (s, Done)"

definition set_state :: "(session \<Rightarrow> session) \<Rightarrow> op" where
  "set_state f s = (f s, Done)"

definition throw :: "string \<Rightarrow> op" where
  "throw m s = (s, Threw m)"

definition emit :: "effect \<Rightarrow> op" where
  "emit e = set_state (s_trace_update (\<lambda>t. t @ [e]))"

fun seqs :: "op list \<Rightarrow> op" where
  "seqs [] s = (s, Done)"
| "seqs (p # ps) s = (case p s of (s1, Done) \<Rightarrow> seqs ps s1 | (s1, Threw m) \<Rightarrow> (s1, Threw m))"

definition if_do :: "(session \<Rightarrow> bool) \<Rightarrow> op \<Rightarrow> op \<Rightarrow> op" where
  "if_do c p q s = (if c s then p s else q s)"

definition when_do :: "(session \<Rightarrow> bool) \<Rightarrow> op \<Rightarrow> op" where
  "when_do c p = if_do c p skip"

text \<open>A statement that reads the state it starts in.\<close>

definition reading :: "(session \<Rightarrow> 'a) \<Rightarrow> ('a \<Rightarrow> op) \<Rightarrow> op" where
  "reading f p s = p (f s) s"

lemmas statement_defs =
  skip_def set_state_def throw_def emit_def if_do_def when_do_def reading_def

text \<open>What every statement of a method keeps, the method keeps, however it ends.\<close>

definition keeps :: "(session \<Rightarrow> bool) \<Rightarrow> op \<Rightarrow> bool" where
  "keeps I p = (\<forall>s. I s \<longrightarrow> I (fst (p s)))"

named_theorems keeps_intros \<open>invariants kept by statements and methods\<close>

lemma keepsI: "(\<And>s. I s \<Longrightarrow> I (fst (p s))) \<Longrightarrow> keeps I p"
  by (simp add: keeps_def)

lemma keepsD: "keeps I p \<Longrightarrow> I s \<Longrightarrow> I (fst (p s))"
  by (simp add: keeps_def)

lemma keeps_skip [keeps_intros]: "keeps I skip"
  by (simp add: keeps_def skip_def)

lemma keeps_throw [keeps_intros]: "keeps I (throw m)"
  by (simp add: keeps_def throw_def)

lemma keeps_set_state [keeps_intros]: "(\<And>s. I s \<Longrightarrow> I (f s)) \<Longrightarrow> keeps I (set_state f)"
  by (simp add: keeps_def set_state_def)

lemma keeps_Nil [keeps_intros]: "keeps I (seqs [])"
  by (simp add: keeps_def)

lemma keeps_Cons [keeps_intros]: "keeps I p \<Longrightarrow> keeps I (seqs ps) \<Longrightarrow> keeps I (seqs (p # ps))"
  by (auto simp: keeps_def split: prod.split outcome.split)

lemma keeps_if_do [keeps_intros]: "keeps I p \<Longrightarrow> keeps I q \<Longrightarrow> keeps I (if_do c p q)"
  by (simp add: keeps_def if_do_def)

lemma keeps_when_do [keeps_intros]: "keeps I p \<Longrightarrow> keeps I (when_do c p)"
  by (simp add: when_do_def keeps_if_do keeps_skip)

lemma keeps_reading [keeps_intros]: "(\<And>x. keeps I (p x)) \<Longrightarrow> keeps I (reading f p)"
  by (simp add: keeps_def reading_def)

lemma keeps_map [keeps_intros]: "(\<And>x. x \<in> set xs \<Longrightarrow> keeps I (f x)) \<Longrightarrow> keeps I (seqs (map f xs))"
  by (induction xs) (simp_all add: keeps_Nil keeps_Cons)

lemma seqs_single [simp]: "seqs [p] = p"
  by (rule ext) (simp split: prod.split outcome.split)

lemma seqs_append: "seqs (ps @ qs) s = (case seqs ps s of (s1, Done) \<Rightarrow> seqs qs s1 | (s1, Threw m) \<Rightarrow> (s1, Threw m))"
  by (induction ps arbitrary: s) (auto split: prod.split outcome.split)

lemma seqs_set_state: "seqs (set_state f # ps) s = seqs ps (f s)"
  by (simp add: set_state_def)

lemma seqs_done: "p s = (s1, Done) \<Longrightarrow> seqs (p # ps) s = seqs ps s1"
  by simp

lemma seqs_last: "seqs ps s = (s1, Done) \<Longrightarrow> seqs (ps @ [p]) s = p s1"
  by (simp add: seqs_append)

declare seqs.simps(2) [simp del]

section \<open>The input queue delivers in order\<close>

text \<open>An operation on the queue: what is pushed by it, what it hands out.\<close>

datatype 'a iq_op = Iq_push 'a | Iq_next | Iq_close

fun iq_step :: "'a iq_op \<Rightarrow> 'a input_queue \<Rightarrow> 'a input_queue \<times> 'a option list" where
  "iq_step (Iq_push x) q = iq_push x q"
| "iq_step Iq_next q = iq_next q"
| "iq_step Iq_close q = iq_close q"

fun iq_run :: "'a iq_op list \<Rightarrow> 'a input_queue \<Rightarrow> 'a input_queue \<times> 'a option list" where
  "iq_run [] q = (q, [])"
| "iq_run (p # ps) q = (let (q1, out1) = iq_step p q; (q2, out2) = iq_run ps q1 in (q2, out1 @ out2))"

fun iq_pushed :: "'a iq_op list \<Rightarrow> 'a list" where
  "iq_pushed [] = []"
| "iq_pushed (Iq_push x # ps) = x # iq_pushed ps"
| "iq_pushed (Iq_next # ps) = iq_pushed ps"
| "iq_pushed (Iq_close # ps) = iq_pushed ps"

definition delivered :: "'a option list \<Rightarrow> 'a list" where
  "delivered out = List.map_filter id out"

definition iq_ok :: "'a input_queue \<Rightarrow> bool" where
  "iq_ok q = (iq_waiters q = 0 \<or> iq_buffer q = [])"

lemma delivered_simps [simp]:
  "delivered [] = []" "delivered (Some x # out) = x # delivered out"
  "delivered (None # out) = delivered out" "delivered (a @ b) = delivered a @ delivered b"
  by (simp_all add: delivered_def map_filter_Cons)

lemma delivered_Nones [simp]: "delivered (replicate n None) = []"
  by (induction n) simp_all

lemma iq_step_spec:
  assumes "iq_ok q" and "iq_step p q = (q', out)"
  shows "delivered out @ iq_buffer q' = iq_buffer q @ iq_pushed [p]" and "iq_ok q'"
  using assms by (cases p; auto simp: iq_ok_def iq_push_def iq_next_def iq_close_def
      split: nat.splits list.splits if_splits)+

lemma iq_run_spec:
  "iq_ok q \<Longrightarrow> iq_run ps q = (q', out) \<Longrightarrow>
   delivered out @ iq_buffer q' = iq_buffer q @ iq_pushed ps \<and> iq_ok q'"
proof (induction ps arbitrary: q out)
  case (Cons p ps)
  obtain q1 out1 where s: "iq_step p q = (q1, out1)" by (cases "iq_step p q")
  obtain out2 where r: "iq_run ps q1 = (q', out2)" "out = out1 @ out2"
    using Cons.prems(2) s by (auto split: prod.splits)
  note step = iq_step_spec [OF Cons.prems(1) s]
  have "iq_pushed (p # ps) = iq_pushed [p] @ iq_pushed ps" by (cases p) auto
  with Cons.IH [OF step(2) r(1)] step(1) r(2) show ?case by (metis append.assoc delivered_simps(4))
qed simp

end
