(* ===== verification/Session.thy ===== *)
theory Session
  imports SessionState
begin

text \<open>
  The methods of \<open>class DaemonSession\<close> (\<open>daemon/src/session.ts\<close>) that run a turn: the log, sending
  a message, parking a refused, stalled or overloaded turn and retrying it, the watchdogs, the
  query and its input, permissions. A callback of a timer, a promise or the SDK is a method of its
  own, called when it fires. What the SDK sends is in theory SessionSdk.
\<close>

section \<open>The log\<close>

definition on_meta :: "(session_meta \<Rightarrow> session_meta) \<Rightarrow> op" where
  "on_meta f = set_state (s_meta_update f)"

definition count_images :: "attachment_ref list \<Rightarrow> nat" where
  "count_images refs = length (filter (\<lambda>r. ref_kind r = Ref_image) refs)"

definition note_user_message :: "string \<Rightarrow> attachment_ref list \<Rightarrow> op" where
  "note_user_message text refs =
     seqs
       [when_do (\<lambda>_. 0 < count_images refs)
          (seqs [on_meta (mt_imageCount_update
                   (\<lambda>n. Some ((case n of None \<Rightarrow> 0 | Some k \<Rightarrow> k) + count_images refs))),
                 emit Meta_changed]),
        when_do (\<lambda>_. clearsHistory text)
          (seqs [set_state (\<lambda>s. s \<lparr>s_meta := (s_meta s)
                   \<lparr>mt_clearedAt := Some (tr_total (s_transcript s)), mt_titledAt := None,
                    mt_pastTitles := None, mt_pendingTitle := None\<rparr>\<rparr>),
                 emit Meta_changed])]"

definition write_event :: "env \<Rightarrow> chat_event \<Rightarrow> op" where
  "write_event env ev s =
     (case append_persisted (e_renames env) (e_write env (tr_total (s_transcript s))) (e_now env)
             (event_json ev) (s_transcript s) of
        (Inl e, t) \<Rightarrow> (s \<lparr>s_transcript := t\<rparr>, Threw (e_ioError env))
      | (Inr p, t) \<Rightarrow> emit (Event_sent p) (s \<lparr>s_transcript := t\<rparr>))"

definition appendEvent :: "env \<Rightarrow> chat_event \<Rightarrow> op" where
  "appendEvent env ev =
     (case ev of
        User_message text refs cid \<Rightarrow> seqs [note_user_message text refs, write_event env ev]
      | _ \<Rightarrow> write_event env ev)"

definition status_event :: "session_status \<Rightarrow> string \<Rightarrow> chat_event" where
  "status_event st detail = Status_event st (Some detail) None None"

definition setStatus :: "env \<Rightarrow> session_status \<Rightarrow> string option \<Rightarrow> op" where
  "setStatus env st detail =
     when_do (\<lambda>s. s_status s \<noteq> st)
       (seqs [set_state (s_status_update (\<lambda>_. st)), appendEvent env (Status_event st detail None None)])"

section \<open>The parked turn on disk\<close>

definition pending_json :: "pending_turn \<Rightarrow> jsval" where
  "pending_json p = JObj [(''text'', JStr (pt_text p)), (''retryAt'', JNum (pt_retryAt p)),
                          (''attempts'', JNum (of_nat (pt_attempts p)))]"

definition persistPending :: "env \<Rightarrow> op" where
  "persistPending env =
     reading s_pending (\<lambda>p. case p of
        None \<Rightarrow> skip
      | Some t \<Rightarrow> if e_persists env then set_state (s_file_update (\<lambda>_. Some (stringify (pending_json t)))) else skip)"

definition clearPersistedPending :: op where
  "clearPersistedPending = set_state (s_file_update (\<lambda>_. None))"

section \<open>Timers\<close>

definition stopStatusWatch :: op where
  "stopStatusWatch = set_state (s_statusTimer_update (\<lambda>_. False))"

definition clearRetryTimer :: op where
  "clearRetryTimer = set_state (s_retryTimer_update (\<lambda>_. None))"

definition clearStallWatchdog :: op where
  "clearStallWatchdog = set_state (s_stallTimer_update (\<lambda>_. False))"

definition armStallWatchdog :: "env \<Rightarrow> op" where
  "armStallWatchdog env =
     seqs [clearStallWatchdog,
           set_state (\<lambda>s. s \<lparr>s_lastSdkAt := e_now env, s_stallTimer := True\<rparr>)]"

text \<open>
  A planned wait is at most six hours. An instant read back from a file is taken to be one that a
  \<open>Date\<close> can hold and less than \<open>setTimeout\<close>'s limit of some 24 days away.
\<close>

definition scheduleRetry :: "env \<Rightarrow> op" where
  "scheduleRetry env =
     set_state (\<lambda>s. s \<lparr>s_retryTimer :=
       (case s_pending s of
          None \<Rightarrow> None
        | Some p \<Rightarrow> Some (e_now env + max 0 (pt_retryAt p - e_now env)))\<rparr>)"

definition set_pending :: "pending_turn option \<Rightarrow> op" where
  "set_pending p = set_state (s_pending_update (\<lambda>_. p))"

definition cancel_detail :: "string \<Rightarrow> string" where
  "cancel_detail reason = ''Queued retry cancelled ('' @ reason @ '').''"

definition cancelPendingRetry :: "env \<Rightarrow> string \<Rightarrow> op" where
  "cancelPendingRetry env reason =
     seqs
       [stopStatusWatch, set_state (s_namedIncident_update (\<lambda>_. None)), clearRetryTimer,
        when_do (\<lambda>s. s_pending s \<noteq> None)
          (seqs [set_pending None, set_state (s_retries_update (\<lambda>_. 0)), clearPersistedPending,
                 appendEvent env (status_event Status_error (cancel_detail reason))])]"

section \<open>The live query\<close>

definition close_input :: op where
  "close_input = set_state (s_input_update (\<lambda>_. None))"

definition close_query :: op where
  "close_query =
     seqs [reading s_query (\<lambda>q. case q of None \<Rightarrow> skip | Some n \<Rightarrow> emit (Query_closed n)),
           set_state (s_query_update (\<lambda>_. None))]"

definition agent_view :: "agent_activity \<Rightarrow> active_agent" where
  "agent_view a =
     \<lparr>aa_id = ag_id a, aa_description = ag_description a, aa_taskId = ag_taskId a, aa_kind = ag_kind a\<rparr>"

definition publishAgents :: "env \<Rightarrow> op" where
  "publishAgents env =
     reading (\<lambda>s. (activeAgents (s_agents s) (e_now env) AGENT_ACTIVE_MS, s_agentSignature s))
       (\<lambda>(live, before). let signature = join '','' (map ag_id live) in
          if signature = before then skip
          else seqs [set_state (s_agentSignature_update (\<lambda>_. signature)),
                     emit (Agents_published (map agent_view live))])"

definition disposeActiveQuery :: "env \<Rightarrow> op" where
  "disposeActiveQuery env =
     seqs
       [when_do (\<lambda>s. s_agents s \<noteq> [])
          (seqs [set_state (\<lambda>s. s \<lparr>s_agents := [], s_levelSignal := False\<rparr>), publishAgents env]),
        close_input, close_query]"

definition elsewhere_detail :: "string \<Rightarrow> string \<Rightarrow> string" where
  "elsewhere_detail cwd home =
     ''This session'' @ [CHR 0x27] @ ''s folder '' @ cwd
     @ '' is not on this machine '' @ [CHR 0x97] @ '' it was imported from somewhere else. Running in ''
     @ home @ '' instead, so the conversation continues, but its files are not here.''"

definition workingDirectory :: "env \<Rightarrow> op" where
  "workingDirectory env =
     when_do (\<lambda>s. \<not> s_cwdChecked s)
       (seqs
         [set_state (\<lambda>s. s \<lparr>s_cwdChecked := True, s_effectiveCwd := mt_cwd (s_meta s)\<rparr>),
          when_do (\<lambda>s. \<not> e_isDirectory env (mt_cwd (s_meta s)))
            (seqs
              [set_state (s_effectiveCwd_update (\<lambda>_. e_home env)),
               reading (\<lambda>s. (mt_cwd (s_meta s), s_status s)) (\<lambda>(cwd, st).
                 appendEvent env (status_event st (elsewhere_detail cwd (e_home env))))])])"

text \<open>A string that is there and not empty: what JavaScript takes for true.\<close>

definition given :: "string option \<Rightarrow> string option" where
  "given x = (if x = Some [] then None else x)"

definition query_options_of :: "env \<Rightarrow> session \<Rightarrow> query_options" where
  "query_options_of env s =
     (let m = s_meta s in
      \<lparr>qo_cwd = s_effectiveCwd s, qo_resume = given (mt_sdkSessionId m),
       qo_permissionMode = (case mt_permissionMode m of None \<Rightarrow> Mode_default | Some p \<Rightarrow> p),
       qo_model = given (mt_model m), qo_effort = mt_effort m, qo_executable = e_claude env,
       qo_configDir = e_configDir env, qo_session = mt_id m\<rparr>)"

definition resumable :: "env \<Rightarrow> session \<Rightarrow> bool" where
  "resumable env s =
     (case mt_sdkSessionId (s_meta s) of
        None \<Rightarrow> False
      | Some i \<Rightarrow> i \<noteq> [] \<and> e_sdkTranscript env i (mt_cwd (s_meta s)))"

definition has_sdk_session :: "session \<Rightarrow> bool" where
  "has_sdk_session s = (case mt_sdkSessionId (s_meta s) of None \<Rightarrow> False | Some i \<Rightarrow> i \<noteq> [])"

text \<open>\<open>ensureQuery\<close> returns whether a query is live afterwards: \<open>s_query\<close> tells.\<close>

definition lost_detail :: "string \<Rightarrow> string" where
  "lost_detail i =
     ''Previous conversation context could not be found (session '' @ i @ '') ''
     @ [CHR 0x97] @ '' continuing as a new Claude session. The transcript above is preserved.''"

definition ensureQuery :: "env \<Rightarrow> op" where
  "ensureQuery env =
     when_do (\<lambda>s. s_query s = None)
       (if e_claude env = None then
          seqs [appendEvent env (status_event Status_error NO_CLAUDE_MESSAGE), setStatus env Idle None]
        else
          seqs
            [reading s_meta (\<lambda>m. emit (Transcript_synced (mt_sdkSessionId m) (mt_cwd m))),
             when_do (\<lambda>s. has_sdk_session s \<and> \<not> resumable env s)
               (seqs
                 [reading (\<lambda>s. the (mt_sdkSessionId (s_meta s))) (\<lambda>i.
                    appendEvent env (status_event Status_error (lost_detail i))),
                  on_meta (mt_sdkSessionId_update (\<lambda>_. None)), emit Meta_changed]),
             set_state (s_input_update (\<lambda>_. Some iq_new)),
             workingDirectory env,
             reading (\<lambda>s. (s_nextQuery s, query_options_of env s)) (\<lambda>(n, opts).
               seqs [emit (Query_started n opts),
                     set_state (\<lambda>s. s \<lparr>s_query := Some n, s_nextQuery := Suc n\<rparr>)])])"

section \<open>Sending a message\<close>

definition label_of :: "attachment \<Rightarrow> attachment_ref" where
  "label_of a =
     (case a of
        Image_att name media data path \<Rightarrow>
          \<lparr>ref_kind = Ref_image, ref_label = name,
           ref_path = (if path = Some [] then None else path), ref_media = Some media\<rparr>
      | File_att path \<Rightarrow>
          \<lparr>ref_kind = Ref_file, ref_label = path, ref_path = Some path, ref_media = None\<rparr>)"

definition image_block :: "attachment \<Rightarrow> jsval option" where
  "image_block a =
     (case a of
        Image_att name media data path \<Rightarrow>
          Some (JObj [(''type'', JStr ''image''),
                      (''source'', JObj [(''type'', JStr ''base64''), (''media_type'', JStr media),
                                         (''data'', JStr data)])])
      | File_att path \<Rightarrow> None)"

definition file_path :: "attachment \<Rightarrow> string option" where
  "file_path a = (case a of File_att p \<Rightarrow> Some p | _ \<Rightarrow> None)"

definition full_text :: "string \<Rightarrow> attachment list \<Rightarrow> string" where
  "full_text text atts =
     (let paths = List.map_filter file_path atts in
      if paths = [] then text
      else text @ nl @ nl @ ''Attached files (read them as needed):'' @ nl @ join nl paths)"

definition envelope :: "string \<Rightarrow> attachment list \<Rightarrow> session \<Rightarrow> jsval" where
  "envelope text atts s =
     JObj [(''type'', JStr ''user''),
           (''message'', JObj [(''role'', JStr ''user''),
              (''content'', JArr (List.map_filter image_block atts
                 @ [JObj [(''type'', JStr ''text''), (''text'', JStr (full_text text atts))]]))]),
           (''parent_tool_use_id'', JNull),
           (''session_id'', JStr (case mt_sdkSessionId (s_meta s) of None \<Rightarrow> [] | Some i \<Rightarrow> i))]"

definition push_input :: "jsval \<Rightarrow> op" where
  "push_input v =
     reading (\<lambda>s. (s_input s, s_query s)) (\<lambda>(inp, q).
       case (inp, q) of
         (Some iq, Some n) \<Rightarrow>
           seqs [set_state (s_input_update (\<lambda>_. Some (fst (iq_push v iq)))), emit (Input_pushed n v)]
       | _ \<Rightarrow> throw (''Cannot read properties of null (reading '' @ [CHR 0x27] @ ''push'' @ [CHR 0x27] @ '')''))"

text \<open>False, and nothing sent, for a message that is already in the transcript.\<close>

definition accepts :: "string option \<Rightarrow> session \<Rightarrow> bool" where
  "accepts cid s =
     (case given cid of None \<Rightarrow> True | Some c \<Rightarrow> \<not> hasClientMessage c (s_transcript s))"

definition sendMessage :: "env \<Rightarrow> string \<Rightarrow> attachment list \<Rightarrow> string option \<Rightarrow> op" where
  "sendMessage env text atts cid =
     when_do (accepts cid)
       (seqs
         [appendEvent env (User_message text (map label_of atts) (given cid)),
          when_do (\<lambda>s. s_pending s \<noteq> None) (cancelPendingRetry env ''superseded by a new message''),
          ensureQuery env,
          when_do (\<lambda>s. s_query s \<noteq> None)
            (seqs [reading (envelope text atts) push_input,
                   setStatus env Running None,
                   armStallWatchdog env])])"

section \<open>Is it working?\<close>

definition busy :: "time_ms \<Rightarrow> session \<Rightarrow> bool" where
  "busy now s =
     (s_status s = Running
      \<or> activeAgents (s_agents s) now AGENT_ACTIVE_MS \<noteq> []
      \<or> (0 < s_lastSdkAt s \<and> now - s_lastSdkAt s < AGENT_ACTIVE_MS))"

definition retryAt :: "session \<Rightarrow> time_ms option" where
  "retryAt s = map_option pt_retryAt (s_pending s)"

section \<open>What the panel says about a limit\<close>

definition humanSpan :: "num \<Rightarrow> string" where
  "humanSpan ms =
     (let mins = js_round (ms / 60000) in
      if mins < 60 \<or> mins mod 60 \<noteq> 0 then show_nat mins @ '' minutes''
      else let hours = mins div 60 in show_nat hours @ (if hours = 1 then '' hour'' else '' hours''))"

definition dq :: "string \<Rightarrow> string" where
  "dq w = [CHR 0x22] @ w @ [CHR 0x22]"

definition dash_back :: string where
  "dash_back = '' '' @ [CHR 0x97] @ '' you don'' @ [CHR 0x27] @ ''t need to come back.''"

definition limitNotice :: "string option \<Rightarrow> string \<Rightarrow> string \<Rightarrow> string" where
  "limitNotice switchedTo cause when =
     (let sent = dq RESUME_MESSAGE @ '' will be sent automatically at '' @ when @ dash_back in
      if cause = ''stalled'' then ''This turn stopped responding. '' @ sent
      else if cause = ''overloaded'' then
        (let mins = show_nat (js_round (OVERLOAD_RETRY_MS / 60000)) in
         ''Claude'' @ [CHR 0x27] @ ''s servers are overloaded. Nothing is wrong with this session or your quota. ''
         @ dq RESUME_MESSAGE @ '' will be sent again in '' @ mins @ '' minutes, and every '' @ mins
         @ '' minutes after that until it goes through'' @ dash_back)
      else if cause = ''launch-failed'' then
        ''Claude Code could not be started for this turn. Nothing was sent, so nothing is half-done. ''
        @ ''This is usually momentary rather than a broken install -- retrying in ''
        @ show_nat (js_round (LAUNCH_RETRY_MS / 1000)) @ '' seconds, up to ''
        @ show_nat MAX_LAUNCH_ATTEMPTS @ '' times.''
      else if cause = ''switched'' then
        ''Rate limit reached. Switched to account ''
        @ dq (case switchedTo of None \<Rightarrow> ''null'' | Some a \<Rightarrow> a) @ '' and continuing'' @ dash_back
      else if cause = ''cooldown'' then
        ''Rate limit reached. Another session just switched accounts, so retrying on that one ''
        @ [CHR 0x97] @ '' '' @ sent
      else if cause = ''cooldown-limited'' then
        ''Rate limit reached on this account too. Waiting for the account switch to settle, then trying another ''
        @ [CHR 0x97] @ '' '' @ sent
      else if cause = ''all-limited'' then ''Rate limit reached on every account. '' @ sent
      else ''Rate limit reached. '' @ sent)"

section \<open>Parking a turn\<close>

definition switch_detail :: "string option \<Rightarrow> string \<Rightarrow> string" where
  "switch_detail account reason =
     ''The active account changed''
     @ (case account of None \<Rightarrow> [] | Some a \<Rightarrow> if a = [] then [] else '' to '' @ dq a)
     @ '' mid-turn ('' @ reason @ ''). This turn will continue automatically'' @ dash_back"

definition parkForAccountSwitch :: "env \<Rightarrow> time_ms \<Rightarrow> string option \<Rightarrow> string \<Rightarrow> op" where
  "parkForAccountSwitch env retry_at account reason =
     when_do (\<lambda>s. busy (e_now env) s \<and> s_pending s = None)
       (seqs
         [set_pending (Some \<lparr>pt_retryAt = retry_at, pt_attempts = 0, pt_text = ''account switch''\<rparr>),
          persistPending env,
          appendEvent env (status_event Status_error
            (switch_detail account reason)),
          scheduleRetry env])"

text \<open>What the host does to this session when a callback makes it change accounts.\<close>

definition host_calls :: "env \<Rightarrow> host_reply \<Rightarrow> op" where
  "host_calls env r =
     (case rp_activation r of
        None \<Rightarrow> skip
      | Some (at_ms, name, reason) \<Rightarrow>
          seqs [parkForAccountSwitch env at_ms (Some name) reason, disposeActiveQuery env])"

datatype park_cause = Limit_cause | Stall_cause | Overload_cause | Launch_cause

definition max_attempts :: "park_cause \<Rightarrow> nat" where
  "max_attempts c =
     (case c of Overload_cause \<Rightarrow> MAX_OVERLOAD_ATTEMPTS | Launch_cause \<Rightarrow> MAX_LAUNCH_ATTEMPTS
      | _ \<Rightarrow> MAX_ATTEMPTS)"

definition give_up_detail :: "park_cause \<Rightarrow> string" where
  "give_up_detail c =
     (let n = show_nat (max_attempts c);
          ready = ''Send the message again when you'' @ [CHR 0x27] @ ''re ready.''
      in case c of
           Stall_cause \<Rightarrow>
             ''This turn stopped responding and did not recover after '' @ n
             @ '' automatic restarts '' @ [CHR 0x97] @ '' giving up. This is not a rate limit. '' @ ready
         | Overload_cause \<Rightarrow>
             ''Claude'' @ [CHR 0x27] @ ''s servers were still overloaded after '' @ n
             @ '' automatic retries over '' @ humanSpan (of_nat (max_attempts c) * OVERLOAD_RETRY_MS)
             @ '' '' @ [CHR 0x97] @ '' giving up. This is not a rate limit and not your quota. '' @ ready
         | _ \<Rightarrow>
             ''Still rate limited after '' @ n @ '' automatic retries '' @ [CHR 0x97] @ '' giving up. '' @ ready)"

definition plan_at :: "env \<Rightarrow> string \<Rightarrow> park_cause \<Rightarrow> nat \<Rightarrow> string \<Rightarrow> time_ms" where
  "plan_at env text c attempts sid =
     (case c of
        Stall_cause \<Rightarrow> e_now env + STALL_RETRY_MS
      | Overload_cause \<Rightarrow> e_now env + OVERLOAD_RETRY_MS
      | Launch_cause \<Rightarrow> e_now env + LAUNCH_RETRY_MS
      | Limit_cause \<Rightarrow> rp_at (planRetry (e_windows env) text (e_now env) attempts sid))"

definition cause_reply :: "time_ms \<Rightarrow> string \<Rightarrow> host_reply" where
  "cause_reply at_ms cause = \<lparr>rp_retryAt = at_ms, rp_switchedTo = None, rp_why = cause, rp_activation = None\<rparr>"

text \<open>The first poll of the status page; its answer arrives in \<open>incidentsAnswered\<close>.\<close>

definition pollStatusPage :: op where
  "pollStatusPage = if_do (\<lambda>s. s_pending s = None) stopStatusWatch (emit Incidents_asked)"

definition watchStatusPage :: op where
  "watchStatusPage =
     seqs [stopStatusWatch, pollStatusPage, set_state (s_statusTimer_update (\<lambda>_. True))]"

definition giveUp :: "env \<Rightarrow> park_cause \<Rightarrow> op" where
  "giveUp env c =
     seqs
       [set_state (s_retries_update (\<lambda>_. 0)), set_pending None, clearPersistedPending, stopStatusWatch,
        set_state (s_namedIncident_update (\<lambda>_. None)),
        appendEvent env (status_event Status_error (give_up_detail c))]"

definition parkTurn :: "env \<Rightarrow> string \<Rightarrow> park_cause \<Rightarrow> nat \<Rightarrow> host_reply \<Rightarrow> op" where
  "parkTurn env text c attempts decision =
     seqs
       [host_calls env decision,
        (if c = Stall_cause \<or> c = Launch_cause then disposeActiveQuery env else skip),
        set_state (s_retries_update (\<lambda>_. attempts)),
        set_pending (Some \<lparr>pt_retryAt = rp_retryAt decision, pt_attempts = attempts, pt_text = text\<rparr>),
        persistPending env,
        appendEvent env (status_event Status_error
          (limitNotice (rp_switchedTo decision) (rp_why decision) (iso_string (rp_retryAt decision)))),
        scheduleRetry env,
        (if c = Overload_cause then watchStatusPage else skip)]"

definition parkForLimit :: "env \<Rightarrow> string \<Rightarrow> park_cause \<Rightarrow> op" where
  "parkForLimit env text c =
     reading (\<lambda>s. (Suc (s_retries s), mt_id (s_meta s))) (\<lambda>(attempts, sid).
       if max_attempts c < attempts then giveUp env c
       else (let at_ms = plan_at env text c attempts sid in
         case c of
           Stall_cause \<Rightarrow> parkTurn env text c attempts (cause_reply at_ms ''stalled'')
         | Overload_cause \<Rightarrow> parkTurn env text c attempts (cause_reply at_ms ''overloaded'')
         | Launch_cause \<Rightarrow> parkTurn env text c attempts (cause_reply at_ms ''launch-failed'')
         | Limit_cause \<Rightarrow>
             seqs [emit (Limited_reported at_ms), parkTurn env text c attempts (e_onLimited env at_ms)]))"

section \<open>Retrying it\<close>

definition runPendingRetry :: "env \<Rightarrow> op" where
  "runPendingRetry env =
     when_do (\<lambda>s. s_pending s \<noteq> None)
       (seqs
         [stopStatusWatch, set_state (s_namedIncident_update (\<lambda>_. None)), emit Retry_announced,
          host_calls env (e_beforeRetry env), set_pending None, clearPersistedPending,
          sendMessage env RESUME_MESSAGE [] None])"

text \<open>The retry timer fires.\<close>

definition retryTimerFires :: "env \<Rightarrow> op" where
  "retryTimerFires env =
     when_do (\<lambda>s. s_retryTimer s \<noteq> None) (seqs [clearRetryTimer, runPendingRetry env])"

text \<open>The answer of the status page, \<open>None\<close> when it could not be had.\<close>

definition resolved_detail :: string where
  "resolved_detail = ''Anthropic reports the incident resolved. Sending '' @ dq RESUME_MESSAGE @ '' now.''"

definition incidentsAnswered :: "env \<Rightarrow> status_incident list option \<Rightarrow> op" where
  "incidentsAnswered env answer =
     (case answer of
        None \<Rightarrow> skip
      | Some [] \<Rightarrow>
          when_do (\<lambda>s. case s_namedIncident s of None \<Rightarrow> False | Some n \<Rightarrow> n \<noteq> [])
            (seqs
              [set_state (s_namedIncident_update (\<lambda>_. None)), stopStatusWatch, clearRetryTimer,
               appendEvent env (status_event Status_error resolved_detail),
               runPendingRetry env])
      | Some (i # others) \<Rightarrow>
          (case incidentNotice (i # others) of
             None \<Rightarrow> skip
           | Some notice \<Rightarrow>
               (let worst = (if others = [] then in_id i else notice) in
                when_do (\<lambda>s. s_namedIncident s \<noteq> Some worst)
                  (seqs [set_state (s_namedIncident_update (\<lambda>_. Some worst)),
                         appendEvent env (status_event Status_error notice)]))))"

text \<open>The status timer and the stall timer fire.\<close>

definition statusTimerFires :: op where
  "statusTimerFires = when_do s_statusTimer pollStatusPage"

definition stallTimerFires :: "env \<Rightarrow> op" where
  "stallTimerFires env =
     when_do s_stallTimer
       (if_do (\<lambda>s. s_status s \<noteq> Running) clearStallWatchdog
          (when_do (\<lambda>s. STALL_MS \<le> e_now env - s_lastSdkAt s)
             (seqs [clearStallWatchdog, parkForLimit env [] Stall_cause])))"

section \<open>Restarts, moves and the person's own commands\<close>

definition restart_detail :: string where
  "restart_detail =
     ''The daemon restarted mid-turn. '' @ dq RESUME_MESSAGE
     @ '' will be sent automatically once it is back'' @ dash_back"

definition parkForRestart :: "env \<Rightarrow> op" where
  "parkForRestart env =
     when_do (\<lambda>s. busy (e_now env) s \<and> s_pending s = None)
       (seqs
         [set_pending (Some \<lparr>pt_retryAt = e_now env + RESTART_RESUME_MS, pt_attempts = 0,
                             pt_text = ''daemon restart''\<rparr>),
          persistPending env,
          appendEvent env (status_event Status_error restart_detail)])"

definition move_detail :: "string \<Rightarrow> string" where
  "move_detail cwd = ''Working folder changed to '' @ cwd @ ''. The next message runs there.''"

definition moveTo :: "env \<Rightarrow> string \<Rightarrow> op" where
  "moveTo env cwd =
     if_do (\<lambda>s. busy (e_now env) s)
       (throw ''This chat is working. Stop it, or wait for it to finish, before moving it.'')
       (when_do (\<lambda>s. mt_cwd (s_meta s) \<noteq> cwd)
         (seqs
           [set_state (\<lambda>s. s \<lparr>s_meta := (s_meta s) \<lparr>mt_cwd := cwd\<rparr>, s_cwdChecked := False,
                             s_effectiveCwd := []\<rparr>),
            disposeActiveQuery env, emit Meta_changed,
            reading s_status (\<lambda>st. appendEvent env (status_event st (move_detail cwd)))]))"

definition read_pending :: "string \<Rightarrow> pending_turn option option" where
  "read_pending raw =
     (case json_parse raw of
        None \<Rightarrow> None
      | Some v \<Rightarrow> Some
          (case js_prop v ''retryAt'' of
             JNum at_ms \<Rightarrow>
               Some \<lparr>pt_retryAt = at_ms,
                     pt_attempts = (case js_prop v ''attempts'' of JNum n \<Rightarrow> nat \<lfloor>n\<rfloor> | _ \<Rightarrow> 0),
                     pt_text = string_or (js_prop v ''text'') []\<rparr>
           | _ \<Rightarrow> None))"

text \<open>
  \<open>restorePending\<close>: a file that is missing or not JSON is removed; one whose value has no numeric
  \<open>retryAt\<close> is left alone.
\<close>

definition restorePending :: "env \<Rightarrow> op" where
  "restorePending env =
     reading s_file (\<lambda>fl. case Option.bind fl read_pending of
        None \<Rightarrow> clearPersistedPending
      | Some None \<Rightarrow> skip
      | Some (Some p) \<Rightarrow>
          seqs [set_pending (Some p), set_state (s_retries_update (\<lambda>_. pt_attempts p)),
                set_state (s_status_update (\<lambda>_. Running)), scheduleRetry env])"

definition interrupt :: "env \<Rightarrow> op" where
  "interrupt env =
     seqs
       [when_do (\<lambda>s. s_pending s \<noteq> None) (cancelPendingRetry env ''interrupted''),
        reading s_query (\<lambda>q. case q of None \<Rightarrow> skip | Some n \<Rightarrow> emit (Query_interrupted n))]"

definition dispose :: op where
  "dispose =
     seqs [clearStallWatchdog, clearRetryTimer, close_input, close_query,
           set_state (\<lambda>s. s \<lparr>s_transcript := (s_transcript s) \<lparr>tr_fd := False\<rparr>\<rparr>)]"

section \<open>Permissions\<close>

definition settle_result :: "permission \<Rightarrow> bool \<Rightarrow> string option \<Rightarrow> (string \<times> string) list option \<Rightarrow> jsval" where
  "settle_result p allow message answers =
     (let deny = (\<lambda>d. JObj [(''behavior'', JStr ''deny''),
                    (''message'', JStr (case message of None \<Rightarrow> d | Some m \<Rightarrow> m))])
      in if pm_isQuestion p then
           (case (allow, answers) of
              (True, Some a) \<Rightarrow>
                JObj [(''behavior'', JStr ''allow''),
                      (''updatedInput'',
                        (case pm_input p of
                           JObj fs \<Rightarrow> JObj (AList.update ''answers'' (answers_json a) fs)
                         | _ \<Rightarrow> JObj [(''answers'', answers_json a)]))]
            | _ \<Rightarrow> deny ''User dismissed the question.'')
         else if allow then JObj [(''behavior'', JStr ''allow''), (''updatedInput'', pm_input p)]
         else deny ''User denied this tool use.'')"

definition resolvePermission ::
    "env \<Rightarrow> string \<Rightarrow> bool \<Rightarrow> string option \<Rightarrow> (string \<times> string) list option \<Rightarrow> op" where
  "resolvePermission env rid allow message answers =
     reading (\<lambda>s. map_of (s_permissions s) rid) (\<lambda>p. case p of
        None \<Rightarrow> skip
      | Some pm \<Rightarrow>
          seqs
            [set_state (s_permissions_update (AList.delete rid)),
             appendEvent env (Permission_resolved rid allow answers),
             emit (Permission_settled rid (settle_result pm allow message answers))])"

definition canUseTool :: "env \<Rightarrow> string \<Rightarrow> jsval \<Rightarrow> op" where
  "canUseTool env toolName inp =
     (let rid = e_uuid env;
          ask = (\<lambda>q. set_state (s_permissions_update
                   (AList.update rid \<lparr>pm_isQuestion = q, pm_input = inp\<rparr>)))
      in case (toolName = ''AskUserQuestion'', js_prop inp ''questions'') of
           (True, JArr qs) \<Rightarrow> seqs [appendEvent env (Question_request rid (JArr qs)), ask True]
         | _ \<Rightarrow> seqs [appendEvent env (Permission_request rid toolName inp), ask False])"

text \<open>\<open>failed\<close> is the message of the SDK call when it is rejected.\<close>

definition setPermissionMode :: "env \<Rightarrow> permission_mode \<Rightarrow> string option \<Rightarrow> op" where
  "setPermissionMode env mode failed =
     seqs
       [on_meta (mt_permissionMode_update (\<lambda>_. Some mode)), emit Meta_changed,
        (if mode = Bypass_permissions then
           reading s_permissions (\<lambda>ps. seqs (map
             (\<lambda>(rid, pm). if pm_isQuestion pm then skip else resolvePermission env rid True None None) ps))
         else skip),
        reading s_query (\<lambda>q. case q of
            None \<Rightarrow> skip
          | Some n \<Rightarrow>
              seqs
                [emit (Mode_applied n mode),
                 (case failed of
                    None \<Rightarrow> skip
                  | Some m \<Rightarrow> reading s_status (\<lambda>st. appendEvent env
                      (status_event st (''Could not switch permission mode: '' @ m))))])]"

text \<open>
  An option is left alone (\<open>None\<close>) or set to a value or the default (\<open>Some None\<close>). The two SDK
  calls are made in order; the first that is rejected, with the message given, is reported.
\<close>

definition setOptions ::
    "env \<Rightarrow> string option option \<Rightarrow> effort_level option option \<Rightarrow> string option \<Rightarrow> string option \<Rightarrow> op"
where
  "setOptions env model effort modelFails effortFails =
     (let report = (\<lambda>e. reading s_status (\<lambda>st. appendEvent env
            (status_event st (''Could not apply model/effort: '' @ e))))
      in seqs
       [(case model of None \<Rightarrow> skip | Some m \<Rightarrow> on_meta (mt_model_update (\<lambda>_. m))),
        (case effort of None \<Rightarrow> skip | Some e \<Rightarrow> on_meta (mt_effort_update (\<lambda>_. e))),
        emit Meta_changed,
        reading s_query (\<lambda>q. case q of
            None \<Rightarrow> skip
          | Some n \<Rightarrow>
              seqs
                [(case model of None \<Rightarrow> skip | Some m \<Rightarrow> emit (Model_applied n m)),
                 (case (model, modelFails) of
                    (Some m, Some e) \<Rightarrow> report e
                  | _ \<Rightarrow>
                      (case effort of
                         None \<Rightarrow> skip
                       | Some ef \<Rightarrow>
                           seqs [emit (Effort_applied n ef),
                                 (case effortFails of None \<Rightarrow> skip | Some e \<Rightarrow> report e)]))])])"

end
