(* ===== verification/SessionSdk.thy ===== *)
theory SessionSdk
  imports Session
begin

text \<open>
  What a session does with the SDK's messages (\<open>handleSdkMessage\<close>, \<open>consume\<close> and what they call in
  \<open>daemon/src/session.ts\<close>), and how it names itself. A message is the JSON value the SDK sends; its
  entries that the code takes for objects are objects.
\<close>

section \<open>Payloads\<close>

function js_string :: "jsval \<Rightarrow> string" where
  "js_string JUndef = ''undefined''"
| "js_string JNull = ''null''"
| "js_string (JBool b) = (if b then ''true'' else ''false'')"
| "js_string (JNum n) = show_num n"
| "js_string JNaN = ''NaN''"
| "js_string (JInf p) = (if p then ''Infinity'' else ''-Infinity'')"
| "js_string (JStr s) = s"
| "js_string (JArr vs) = join '','' (map (\<lambda>v. if v = JUndef \<or> v = JNull then [] else js_string v) vs)"
| "js_string (JObj fs) = ''[object Object]''"
  by pat_completeness auto
termination
  by (relation "measure size") (auto dest: size_elem_less)

text \<open>
  \<open>JSON.stringify\<close> yields \<open>undefined\<close> for an absent value, and reading its length throws: \<open>None\<close>.
\<close>

definition summarize :: "jsval \<Rightarrow> nat \<Rightarrow> string option" where
  "summarize value max_len =
     (case (case value of JStr s \<Rightarrow> Some s | JUndef \<Rightarrow> None | v \<Rightarrow> Some (stringify v)) of
        None \<Rightarrow> None
      | Some text \<Rightarrow>
          Some (if max_len < length text
                then take max_len text @ nl @ ellipsis @ '' [truncated]'' else text))"

definition length_error :: string where
  "length_error = ''Cannot read properties of undefined (reading '' @ [CHR 0x27] @ ''length'' @ [CHR 0x27] @ '')''"

definition num_of :: "jsval \<Rightarrow> num" where
  "num_of v = (case v of JNum n \<Rightarrow> n | _ \<Rightarrow> 0)"

definition opt_num :: "jsval \<Rightarrow> num option" where
  "opt_num v = (case v of JNum n \<Rightarrow> Some n | _ \<Rightarrow> None)"

definition list_of :: "jsval \<Rightarrow> jsval list" where
  "list_of v = (case v of JArr vs \<Rightarrow> vs | _ \<Rightarrow> [])"

definition values_of :: "jsval \<Rightarrow> jsval list" where
  "values_of v = (case v of JObj fs \<Rightarrow> map snd fs | JArr vs \<Rightarrow> vs | _ \<Rightarrow> [])"

section \<open>Subagents\<close>

definition AGENT_NAMES_MAX :: nat where "AGENT_NAMES_MAX = 256"

text \<open>Delete, insert at the end, and drop from the front while there are too many.\<close>

definition rememberAgentName :: "string \<Rightarrow> string \<Rightarrow> (string \<times> string) list \<Rightarrow> (string \<times> string) list" where
  "rememberAgentName i description names =
     take_last AGENT_NAMES_MAX (AList.update i description (AList.delete i names))"

definition agentTagFor :: "session \<Rightarrow> jsval \<Rightarrow> string option" where
  "agentTagFor s parent =
     (case parent of
        JStr p \<Rightarrow>
          if p = [] then None
          else Some (agentTag
            (case map_of (s_agentNames s) p of
               Some d \<Rightarrow> Some d
             | None \<Rightarrow> map_option ag_description (map_of (s_agents s) p)) p)
      | _ \<Rightarrow> None)"

definition touch_agent :: "time_ms \<Rightarrow> string \<Rightarrow> string option \<Rightarrow> agents_map \<Rightarrow> agents_map" where
  "touch_agent now i description agents =
     (case map_of agents i of
        Some a \<Rightarrow>
          AList.update i
            (a \<lparr>ag_lastActivityAt := now,
                ag_description := (case description of
                   Some d \<Rightarrow> if d = [] then ag_description a else d | None \<Rightarrow> ag_description a)\<rparr>) agents
      | None \<Rightarrow>
          AList.update i
            \<lparr>ag_taskId = None, ag_kind = None, ag_id = i,
             ag_description = (case description of None \<Rightarrow> default_description | Some d \<Rightarrow> d),
             ag_lastActivityAt = now\<rparr> agents)"

definition noteAgentActivity :: "env \<Rightarrow> string \<Rightarrow> string option \<Rightarrow> op" where
  "noteAgentActivity env i description =
     seqs [set_state (s_agents_update (touch_agent (e_now env) i description)), publishAgents env,
           set_state (s_agentTimer_update (\<lambda>_. True))]"

definition agentTimerFires :: "env \<Rightarrow> op" where
  "agentTimerFires env =
     when_do (\<lambda>s. s_agentTimer s \<and> \<not> s_levelSignal s)
       (seqs
         [reading (\<lambda>s. pruneAgents (s_agents s) (e_now env) AGENT_ACTIVE_MS) (\<lambda>(agents, changed).
            seqs [set_state (s_agents_update (\<lambda>_. agents)),
                  (if changed then publishAgents env else skip)]),
          when_do (\<lambda>s. s_agents s = []) (set_state (s_agentTimer_update (\<lambda>_. False)))])"

section \<open>Naming\<close>

definition title_state_of :: "env \<Rightarrow> session \<Rightarrow> title_state" where
  "title_state_of env s =
     \<lparr>ts_turns = (case mt_turns (s_meta s) of None \<Rightarrow> 0 | Some n \<Rightarrow> n),
      ts_titledAt = mt_titledAt (s_meta s), ts_now = e_now env,
      ts_titleSetByUser = mt_titleSetByUser (s_meta s), ts_parked = (s_pending s \<noteq> None)\<rparr>"

definition log_range :: "transcript \<Rightarrow> nat \<times> nat \<Rightarrow> jsval list" where
  "log_range t = (\<lambda>(i, j). readRange parse_event (tr_dir t) (allLogFiles (tr_id t) (tr_dir t)) i j)"

definition event_part :: "jsval \<Rightarrow> jsval" where
  "event_part p = js_prop p ''event''"

definition title_request_of :: "env \<Rightarrow> session \<Rightarrow> title_request" where
  "title_request_of env s =
     (let t = s_transcript s; m = s_meta s;
          window = namingWindow (tr_total t) (mt_clearedAt m);
          spread = concat (map (log_range t) (nw_spread window));
          opening = map event_part (log_range t (nw_opening window));
          recent = map event_part (pg_events (eventsSince 0 150 t));
          both = map event_part spread @ recent
      in \<lparr>tr_exchanges = pickExchanges 6 opening recent,
          tr_vocabulary = sessionVocabulary 10 both,
          tr_branches = sessionBranches 3 both,
          tr_issue = sessionIssue 5 both,
          tr_current = withoutTag (mt_title m),
          tr_siblings = e_siblings env,
          tr_project = path_basename (mt_cwd m),
          tr_firstNaming = (mt_titledAt m = None)\<rparr>)"

text \<open>\<open>maybeRetitle\<close> up to the model call, and from its answer on.\<close>

definition maybeRetitle :: "env \<Rightarrow> op" where
  "maybeRetitle env =
     when_do (\<lambda>s. titleIsDue (title_state_of env s))
       (reading (title_request_of env) (\<lambda>req.
         seqs [on_meta (mt_titledAt_update (\<lambda>_. Some (e_now env))), emit Meta_changed, emit (Name_asked req)]))"

definition rename_memory_of :: "session_meta \<Rightarrow> bool \<Rightarrow> rename_memory" where
  "rename_memory_of m firstNaming =
     \<lparr>rm_current = mt_title m, rm_past = (case mt_pastTitles m of None \<Rightarrow> [] | Some p \<Rightarrow> p),
      rm_pending = mt_pendingTitle m, rm_firstNaming = firstNaming\<rparr>"

definition composed_title :: "session_meta \<Rightarrow> string \<Rightarrow> string" where
  "composed_title m name = composeTitle (projectTag (mt_cwd m)) (withoutTag name)"

definition nameAnswered :: "bool \<Rightarrow> string option \<Rightarrow> op" where
  "nameAnswered firstNaming answer =
     (case answer of
        None \<Rightarrow> skip
      | Some name \<Rightarrow>
          if name = [] then skip
          else reading s_meta (\<lambda>m.
            let title = composed_title m name; d = decideRename (rename_memory_of m firstNaming) title
            in if \<not> rd_rename d then
                 (if mt_pendingTitle m \<noteq> rd_pending d
                  then seqs [on_meta (mt_pendingTitle_update (\<lambda>_. rd_pending d)), emit Meta_changed]
                  else skip)
               else seqs
                 [(if firstNaming then skip
                   else on_meta (mt_pastTitles_update
                     (\<lambda>_. Some (rememberTitle (rm_past (rename_memory_of m firstNaming)) (mt_title m))))),
                  on_meta (\<lambda>m. m \<lparr>mt_pendingTitle := None, mt_title := title\<rparr>), emit Retitled]))"

section \<open>The kinds of message\<close>

definition handle_system :: "jsval \<Rightarrow> op" where
  "handle_system msg =
     when_do (\<lambda>_. js_prop msg ''subtype'' = JStr ''init'')
       (seqs
         [(case js_prop msg ''session_id'' of
             JStr i \<Rightarrow> when_do (\<lambda>s. mt_sdkSessionId (s_meta s) \<noteq> Some i)
                         (seqs [on_meta (mt_sdkSessionId_update (\<lambda>_. Some i)), emit Meta_changed])
           | _ \<Rightarrow> skip),
          (case js_prop msg ''model'' of
             JStr m \<Rightarrow> when_do (\<lambda>s. mt_activeModel (s_meta s) \<noteq> Some m)
                         (seqs [on_meta (mt_activeModel_update (\<lambda>_. Some m)), emit Meta_changed])
           | _ \<Rightarrow> skip)])"

definition text_block :: "jsval \<Rightarrow> string option" where
  "text_block block =
     (case (js_prop block ''type'', js_prop block ''text'') of
        (JStr ty, JStr t) \<Rightarrow> if ty = ''text'' \<and> trim t \<noteq> [] then Some t else None
      | _ \<Rightarrow> None)"

definition tool_name :: "jsval \<Rightarrow> string" where
  "tool_name block =
     (let n = js_prop block ''name'' in if n = JUndef \<or> n = JNull then ''tool'' else js_string n)"

definition assistant_block :: "env \<Rightarrow> string option \<Rightarrow> jsval \<Rightarrow> op" where
  "assistant_block env agent block =
     (case text_block block of
        Some t \<Rightarrow> appendEvent env (Assistant_text t agent)
      | None \<Rightarrow>
          if js_prop block ''type'' \<noteq> JStr ''tool_use'' then skip
          else (let name = tool_name block; tid = js_str (js_prop block ''id'') in
            seqs
              [(case tid of
                  None \<Rightarrow> skip
                | Some i \<Rightarrow>
                    if i \<noteq> [] \<and> (name = ''Agent'' \<or> name = ''Task'') then
                      (let d = agentDescription (js_prop block ''input'') in
                       seqs [noteAgentActivity env i (Some d),
                             set_state (s_agentNames_update (rememberAgentName i d))])
                    else skip),
               appendEvent env (Tool_use tid name (js_prop block ''input'') agent)]))"

definition handle_assistant :: "env \<Rightarrow> string option \<Rightarrow> jsval \<Rightarrow> op" where
  "handle_assistant env agent msg =
     (let message = js_prop msg ''message''; usage = js_prop message ''usage'';
          parent = js_prop msg ''parent_tool_use_id''
      in seqs
        [(if js_truthy usage \<and> (parent = JUndef \<or> parent = JNull)
          then set_state (s_lastCallUsage_update (\<lambda>_. Some usage)) else skip),
         (if js_truthy usage then emit (Tokens_counted usage (js_str (js_prop message ''id''))) else skip),
         seqs (map (assistant_block env agent) (list_of (js_prop message ''content'')))])"

definition tool_result_block :: "env \<Rightarrow> string option \<Rightarrow> jsval \<Rightarrow> op" where
  "tool_result_block env agent block =
     (if js_prop block ''type'' \<noteq> JStr ''tool_result'' then skip
      else case summarize (js_prop block ''content'') 1500 of
             None \<Rightarrow> throw length_error
           | Some text \<Rightarrow>
               appendEvent env (Tool_result (js_str (js_prop block ''tool_use_id'')) text
                 (js_prop block ''is_error'' = JBool True) agent))"

definition handle_user :: "env \<Rightarrow> string option \<Rightarrow> jsval \<Rightarrow> op" where
  "handle_user env agent msg =
     seqs (map (tool_result_block env agent) (list_of (js_prop (js_prop msg ''message'') ''content'')))"

definition handle_stream :: "string option \<Rightarrow> jsval \<Rightarrow> op" where
  "handle_stream agent msg =
     (let event = js_prop msg ''event''; delta = js_prop event ''delta'' in
      case (js_prop event ''type'', js_prop delta ''type'', js_prop delta ''text'') of
        (JStr te, JStr td, JStr t) \<Rightarrow>
          if te = ''content_block_delta'' \<and> td = ''text_delta'' \<and> agent = None
          then emit (Delta_sent t) else skip
      | _ \<Rightarrow> skip)"

subsection \<open>The end of a turn\<close>

definition summary_text :: "jsval \<Rightarrow> string" where
  "summary_text msg =
     (case js_prop msg ''result'' of
        JStr t \<Rightarrow> t
      | _ \<Rightarrow> let st = js_prop msg ''subtype'' in
             ''Turn finished ('' @ (if st = JUndef \<or> st = JNull then ''done'' else js_string st) @ '')'')"

definition usage_sum :: "string list \<Rightarrow> jsval \<Rightarrow> num" where
  "usage_sum keys u = sum_list (map (\<lambda>k. num_of (js_prop u k)) keys)"

definition nonzero :: "num \<Rightarrow> num option" where
  "nonzero n = (if n = 0 then None else Some n)"

definition context_window :: "jsval \<Rightarrow> num option" where
  "context_window msg =
     foldl (\<lambda>acc e. case js_prop e ''contextWindow'' of
              JNum n \<Rightarrow> Some (max (case acc of None \<Rightarrow> 0 | Some a \<Rightarrow> a) n)
            | _ \<Rightarrow> acc) None (values_of (js_prop msg ''modelUsage''))"

definition result_event :: "jsval \<Rightarrow> jsval option \<Rightarrow> chat_event" where
  "result_event msg lastCall =
     (let usage = js_prop msg ''usage'';
          ctx = (case lastCall of Some u \<Rightarrow> u | None \<Rightarrow> usage)
      in Result_event (the (summarize (JStr (summary_text msg)) 400))
           (opt_num (js_prop msg ''total_cost_usd'')) (opt_num (js_prop msg ''duration_ms''))
           (if js_truthy ctx
            then nonzero (usage_sum [''input_tokens'', ''cache_read_input_tokens'',
                                     ''cache_creation_input_tokens'', ''output_tokens''] ctx) else None)
           (Option.bind (context_window msg) nonzero)
           (if js_truthy usage
            then nonzero (usage_sum [''input_tokens'', ''cache_creation_input_tokens'',
                                     ''output_tokens''] usage) else None))"

text \<open>
  A turn refused for setup reasons. With a login that expired and an account to move to, the turn
  is parked for that account; otherwise the panel says what to do.
\<close>

definition auth_moved :: "env \<Rightarrow> string \<Rightarrow> host_reply option" where
  "auth_moved env text =
     (if needsSignIn text \<and> (case rp_switchedTo (e_onAuthFailure env) of None \<Rightarrow> False | Some n \<Rightarrow> n \<noteq> [])
      then Some (e_onAuthFailure env) else None)"

definition setup_failure :: "env \<Rightarrow> string \<Rightarrow> op" where
  "setup_failure env text =
     seqs
       [(if needsSignIn text then seqs [emit Auth_failure_reported, host_calls env (e_onAuthFailure env)]
         else skip),
        (case auth_moved env text of
           Some r \<Rightarrow>
             seqs
               [appendEvent env (status_event Status_error
                  (''The login for '' @ dq (case e_activeName env of None \<Rightarrow> ''that account'' | Some n \<Rightarrow> n)
                   @ '' has expired. Switched to '' @ dq (the (rp_switchedTo r)) @ '' and continuing'' @ dash_back)),
                set_state (s_retries_update Suc),
                reading s_retries (\<lambda>n. set_pending (Some \<lparr>pt_retryAt = rp_retryAt r, pt_attempts = n, pt_text = []\<rparr>)),
                persistPending env, scheduleRetry env]
         | None \<Rightarrow>
             appendEvent env (if needsSignIn text
               then Status_event Status_error (Some (friendlyError text)) (Some Action_signin)
                      (Some (e_activeName env))
               else Status_event Status_error (Some (friendlyError text)) None None))]"

definition finish_turn :: "env \<Rightarrow> bool \<Rightarrow> op" where
  "finish_turn env rotatedForAuth =
     seqs
       [(if rotatedForAuth then skip else set_state (s_retries_update (\<lambda>_. 0))),
        when_do (\<lambda>s. s_pending s \<noteq> None \<and> \<not> rotatedForAuth)
          (seqs [set_pending None, clearPersistedPending, clearRetryTimer]),
        setStatus env Idle None]"

definition judge_result :: "env \<Rightarrow> string \<Rightarrow> bool \<Rightarrow> op" where
  "judge_result env text rotatedForAuth =
     (if isLimitNotice (JStr text) \<and> windowsLookLimited (e_windows env) then
        seqs [set_state (s_status_update (\<lambda>_. Status_error)), parkForLimit env text Limit_cause]
      else if isOverloadNotice (JStr text) then
        seqs [set_state (s_status_update (\<lambda>_. Status_error)), parkForLimit env text Overload_cause]
      else finish_turn env rotatedForAuth)"

definition handle_result :: "env \<Rightarrow> jsval \<Rightarrow> op" where
  "handle_result env msg =
     (let text = summary_text msg;
          refused = (js_prop msg ''is_error'' = JBool True \<and> isSetupFailure text)
      in seqs
        [reading s_query (\<lambda>q. case q of None \<Rightarrow> skip | Some n \<Rightarrow> emit (Usage_polled n)),
         reading s_lastCallUsage (\<lambda>u. appendEvent env (result_event msg u)),
         on_meta (mt_turns_update (\<lambda>n. Some (Suc (case n of None \<Rightarrow> 0 | Some k \<Rightarrow> k)))),
         maybeRetitle env,
         (if refused then setup_failure env text else skip),
         judge_result env text (refused \<and> auth_moved env text \<noteq> None)])"

definition handle_rate_limit :: "jsval \<Rightarrow> op" where
  "handle_rate_limit msg =
     (let info = js_prop msg ''rate_limit_info'' in if js_truthy info then emit (Rate_limit_seen info) else skip)"

section \<open>One message\<close>

definition note_tasks :: "env \<Rightarrow> jsval \<Rightarrow> op" where
  "note_tasks env msg =
     (case tasksFromLevelSignal (e_now env) msg of
        None \<Rightarrow> skip
      | Some ts \<Rightarrow>
          seqs [set_state (\<lambda>s. s \<lparr>s_levelSignal := True, s_agents := agents_of_tasks ts,
                                  s_agentSignature := []\<rparr>),
                publishAgents env])"

definition note_parent :: "env \<Rightarrow> jsval \<Rightarrow> op" where
  "note_parent env parent =
     (case parent of
        JStr p \<Rightarrow> when_do (\<lambda>s. \<not> s_levelSignal s \<and> p \<noteq> []) (noteAgentActivity env p None)
      | _ \<Rightarrow> skip)"

definition dispatch :: "env \<Rightarrow> string option \<Rightarrow> jsval \<Rightarrow> op" where
  "dispatch env agent msg =
     (case js_prop msg ''type'' of
        JStr ty \<Rightarrow>
          if ty = ''system'' then handle_system msg
          else if ty = ''assistant'' then handle_assistant env agent msg
          else if ty = ''user'' then handle_user env agent msg
          else if ty = ''stream_event'' then handle_stream agent msg
          else if ty = ''result'' then handle_result env msg
          else if ty = ''rate_limit_event'' then handle_rate_limit msg
          else skip
      | _ \<Rightarrow> skip)"

definition handleSdkMessage :: "env \<Rightarrow> jsval \<Rightarrow> op" where
  "handleSdkMessage env msg =
     (let parent = js_prop msg ''parent_tool_use_id'' in
      seqs
        [note_tasks env msg,
         note_parent env parent,
         reading (\<lambda>s. agentTagFor s parent) (\<lambda>agent.
           seqs
             [set_state (s_lastSdkAt_update (\<lambda>_. e_now env)),
              when_do (\<lambda>s. js_prop msg ''type'' = JStr ''assistant'' \<and> \<not> js_truthy parent \<and> s_status s = Idle)
                (seqs [setStatus env Running None, armStallWatchdog env]),
              dispatch env agent msg])])"

section \<open>Consuming a query\<close>

definition current_query :: "nat \<Rightarrow> session \<Rightarrow> bool" where
  "current_query q s = (s_query s = Some q)"

definition consume_caught :: "env \<Rightarrow> string \<Rightarrow> op" where
  "consume_caught env message =
     (if isOverloadNotice (JStr message) then
        seqs [set_state (s_status_update (\<lambda>_. Status_error)), parkForLimit env message Overload_cause]
      else if isLaunchFailure (JStr message) then
        seqs [set_state (s_status_update (\<lambda>_. Status_error)), parkForLimit env message Launch_cause]
      else setStatus env Status_error (Some (friendlyError message)))"

text \<open>\<open>finally\<close>: it runs whatever the body did, and its own outcome does not replace a throw.\<close>

definition consume_finally :: "nat \<Rightarrow> session \<Rightarrow> session" where
  "consume_finally q s = (if current_query q s then s \<lparr>s_query := None, s_input := None\<rparr> else s)"

definition consume_throw :: "env \<Rightarrow> nat \<Rightarrow> string \<Rightarrow> op" where
  "consume_throw env q message s =
     (let (s1, r) = when_do (current_query q) (consume_caught env message) s in (consume_finally q s1, r))"

text \<open>
  The query \<open>q\<close> yields a message; it ends; its iteration throws. A message of a query that has been
  replaced is dropped.
\<close>

definition consume_message :: "env \<Rightarrow> nat \<Rightarrow> jsval \<Rightarrow> op" where
  "consume_message env q msg s =
     (if \<not> current_query q s then (s, Done)
      else case handleSdkMessage env msg s of
             (s1, Done) \<Rightarrow> (s1, Done)
           | (s1, Threw m) \<Rightarrow> consume_throw env q m s1)"

definition consume_end :: "env \<Rightarrow> nat \<Rightarrow> op" where
  "consume_end env q s =
     (case when_do (current_query q) (setStatus env Idle None) s of
        (s1, Done) \<Rightarrow> (consume_finally q s1, Done)
      | (s1, Threw m) \<Rightarrow> consume_throw env q m s1)"

text \<open>\<open>stopAgent\<close>: \<open>can\<close> is whether the live query has \<open>stopTask\<close>, \<open>failed\<close> how it was rejected.\<close>

definition stopAgent :: "bool \<Rightarrow> string option \<Rightarrow> session \<Rightarrow> string option" where
  "stopAgent can failed s =
     (if s_query s = None \<or> \<not> can then Some ''This Claude Code version cannot stop an individual subagent.''
      else failed)"

section \<open>A session from its log\<close>

definition session_open :: "bool \<Rightarrow> session_meta \<Rightarrow> log_dir \<Rightarrow> string option \<Rightarrow> session" where
  "session_open renames m dir pending_file =
     \<lparr>s_meta = m, s_status = Idle, s_effectiveCwd = [], s_cwdChecked = False, s_statusTimer = False,
      s_namedIncident = None, s_pending = None, s_retryTimer = None, s_retries = 0, s_agents = [],
      s_levelSignal = False, s_agentTimer = False, s_agentSignature = [], s_lastSdkAt = 0,
      s_stallTimer = False, s_transcript = transcript_open renames (mt_id m) dir, s_input = None,
      s_query = None, s_nextQuery = 0, s_permissions = [], s_lastCallUsage = None, s_agentNames = [],
      s_file = pending_file, s_trace = []\<rparr>"

end
