(* ===== verification/SessionLogic.thy ===== *)
theory SessionLogic
  imports SessionSdk
begin

text \<open>
  A weakest precondition for methods that must not throw, and the rules that reduce every method
  of a session to it: \<open>wp p Q s\<close> says that \<open>p\<close>, started in \<open>s\<close>, ends normally in a state
  satisfying \<open>Q\<close>. Appending an event is its only statement with an outcome of its own; its rule
  leaves the transcript, the meta data and the trace open and keeps everything else.
\<close>

definition wp :: "op \<Rightarrow> (session \<Rightarrow> bool) \<Rightarrow> session \<Rightarrow> bool" where
  "wp p Q s = (snd (p s) = Done \<and> Q (fst (p s)))"

named_theorems wp_simps \<open>weakest preconditions of statements\<close>
named_theorems wp_intros \<open>sufficient preconditions of methods\<close>

lemma wp_skip [wp_simps]: "wp skip Q s = Q s"
  by (simp add: wp_def skip_def)

lemma wp_set_state [wp_simps]: "wp (set_state f) Q s = Q (f s)"
  by (simp add: wp_def set_state_def)

lemma wp_emit [wp_simps]: "wp (emit e) Q s = Q (s_trace_update (\<lambda>t. t @ [e]) s)"
  by (simp add: emit_def wp_set_state)

lemma wp_throw [wp_simps]: "wp (throw m) Q s = False"
  by (simp add: wp_def throw_def)

lemma wp_Nil [wp_simps]: "wp (seqs []) Q s = Q s"
  by (simp add: wp_def)

lemma wp_Cons [wp_simps]: "wp (seqs (p # ps)) Q s = wp p (wp (seqs ps) Q) s"
  by (auto simp: wp_def seqs.simps(2) split: prod.split outcome.split)

lemma wp_if_do [wp_simps]: "wp (if_do c p q) Q s = (if c s then wp p Q s else wp q Q s)"
  by (simp add: wp_def if_do_def)

lemma wp_when_do [wp_simps]: "wp (when_do c p) Q s = (if c s then wp p Q s else Q s)"
  by (simp add: when_do_def wp_if_do wp_skip)

lemma wp_reading [wp_simps]: "wp (reading f p) Q s = wp (p (f s)) Q s"
  by (simp add: wp_def reading_def)

lemma wp_mono: "wp p Q s \<Longrightarrow> (\<And>s'. Q s' \<Longrightarrow> Q' s') \<Longrightarrow> wp p Q' s"
  by (simp add: wp_def)

lemma wp_Done: "wp p Q s \<Longrightarrow> p s = (s', r) \<Longrightarrow> r = Done \<and> Q s'"
  by (simp add: wp_def)

text \<open>A loop over a list keeps what each round keeps.\<close>

lemma wp_map:
  assumes "\<And>x s. x \<in> set xs \<Longrightarrow> I s \<Longrightarrow> wp (f x) I s" and "I s"
  shows "wp (seqs (map f xs)) I s"
  using assms
proof (induction xs arbitrary: s)
  case (Cons x xs)
  have "wp (f x) I s" using Cons.prems by simp
  then have "wp (f x) (wp (seqs (map f xs)) I) s"
    by (rule wp_mono) (use Cons in simp)
  then show ?case unfolding list.map wp_Cons .
qed (simp add: wp_Nil)

section \<open>Appending\<close>

definition writes_ok :: "env \<Rightarrow> bool" where
  "writes_ok env = (\<forall>n. e_write env n = Written)"

text \<open>What appending changes.\<close>

definition with_log :: "transcript \<Rightarrow> session_meta \<Rightarrow> effect list \<Rightarrow> session \<Rightarrow> session" where
  "with_log t m tr s = s \<lparr>s_transcript := t, s_meta := m, s_trace := tr\<rparr>"

lemma with_log_simps [simp]:
  "s_status (with_log t m tr s) = s_status s" "s_pending (with_log t m tr s) = s_pending s"
  "s_retryTimer (with_log t m tr s) = s_retryTimer s" "s_retries (with_log t m tr s) = s_retries s"
  "s_agents (with_log t m tr s) = s_agents s" "s_lastSdkAt (with_log t m tr s) = s_lastSdkAt s"
  "s_stallTimer (with_log t m tr s) = s_stallTimer s" "s_input (with_log t m tr s) = s_input s"
  "s_query (with_log t m tr s) = s_query s" "s_nextQuery (with_log t m tr s) = s_nextQuery s"
  "s_permissions (with_log t m tr s) = s_permissions s" "s_file (with_log t m tr s) = s_file s"
  "s_statusTimer (with_log t m tr s) = s_statusTimer s"
  "s_namedIncident (with_log t m tr s) = s_namedIncident s"
  "s_levelSignal (with_log t m tr s) = s_levelSignal s"
  "s_cwdChecked (with_log t m tr s) = s_cwdChecked s"
  "s_transcript (with_log t m tr s) = t" "s_meta (with_log t m tr s) = m" "s_trace (with_log t m tr s) = tr"
  by (simp_all add: with_log_def)

lemma append_persisted_written:
  "\<exists>t'. append_persisted ren Written now e t = (Inr (next_event now e t), t') \<and> tr_id t' = tr_id t"
  by (simp add: append_persisted_def next_event_def Let_def)

lemma write_event_ok:
  assumes "writes_ok env"
  obtains t where
    "write_event env ev s =
       (with_log t (s_meta s) (s_trace s @ [Event_sent (next_event (e_now env) (event_json ev) (s_transcript s))]) s, Done)"
    "append_persisted (e_renames env) Written (e_now env) (event_json ev) (s_transcript s)
       = (Inr (next_event (e_now env) (event_json ev) (s_transcript s)), t)"
proof -
  obtain t where t: "append_persisted (e_renames env) Written (e_now env) (event_json ev) (s_transcript s)
       = (Inr (next_event (e_now env) (event_json ev) (s_transcript s)), t)"
    using append_persisted_written by metis
  with assms have "write_event env ev s =
       (with_log t (s_meta s) (s_trace s @ [Event_sent (next_event (e_now env) (event_json ev) (s_transcript s))]) s, Done)"
    by (simp add: write_event_def writes_ok_def emit_def set_state_def with_log_def)
  with t that show thesis by blast
qed

lemma with_log_collapse [simp]: "with_log t m tr (with_log t' m' tr' s) = with_log t m tr s"
  by (simp add: with_log_def)

lemma with_log_same: "with_log (s_transcript s) (s_meta s) (s_trace s) s = s"
  by (simp add: with_log_def)

lemma with_log_update:
  "s \<lparr>s_meta := m\<rparr> = with_log (s_transcript s) m (s_trace s) s"
  by (simp add: with_log_def)

lemma log_statements:
  "emit e s = (with_log (s_transcript s) (s_meta s) (s_trace s @ [e]) s, Done)"
  "on_meta g s = (with_log (s_transcript s) (g (s_meta s)) (s_trace s) s, Done)"
  by (simp_all add: with_log_def emit_def on_meta_def set_state_def)

lemma note_user_message_ok:
  "\<exists>m tr. note_user_message text refs s = (with_log (s_transcript s) m tr s, Done)"
  unfolding note_user_message_def seqs.simps when_do_def if_do_def skip_def log_statements
  by (cases "0 < count_images refs"; cases "clearsHistory text")
     (simp_all add: set_state_def with_log_update, (metis with_log_same)+)

lemma appendEvent_ok:
  assumes "writes_ok env"
  shows "\<exists>t m tr. appendEvent env ev s = (with_log t m tr s, Done)"
proof -
  have w: "\<exists>t m tr. write_event env ev s = (with_log t m tr s, Done)" for s
    using write_event_ok [OF assms, of ev s] by metis
  show ?thesis
  proof (cases ev)
    case (User_message ut refs cid)
    obtain m tr where n: "note_user_message ut refs s = (with_log (s_transcript s) m tr s, Done)"
      using note_user_message_ok by metis
    obtain t' m' tr' where "write_event env ev (with_log (s_transcript s) m tr s) =
        (with_log t' m' tr' (with_log (s_transcript s) m tr s), Done)" using w by metis
    then show ?thesis using n User_message by (auto simp: appendEvent_def seqs_done)
  qed (use w in \<open>auto simp: appendEvent_def\<close>)
qed

lemma wp_appendEvent [wp_intros]:
  assumes "writes_ok env" and "\<And>t m tr. Q (with_log t m tr s)"
  shows "wp (appendEvent env ev) Q s"
  using appendEvent_ok [OF assms(1), of ev s] assms(2) by (auto simp: wp_def)

section \<open>What the turn machinery looks at\<close>

text \<open>
  An invariant of the parked turn: it depends on the fields below only, so statements that do not
  touch them keep it.
\<close>

record turn =
  u_pending :: "pending_turn option"
  u_timer :: "time_ms option"
  u_file :: "string option"

definition turn_of :: "session \<Rightarrow> turn" where
  "turn_of s = \<lparr>u_pending = s_pending s, u_timer = s_retryTimer s, u_file = s_file s\<rparr>"

lemma turn_of_eq [simp]:
  "turn_of (with_log t m tr s) = turn_of s"
  "turn_of (s_status_update f1 s) = turn_of s" "turn_of (s_meta_update f2 s) = turn_of s"
  "turn_of (s_effectiveCwd_update f3 s) = turn_of s" "turn_of (s_cwdChecked_update f4 s) = turn_of s"
  "turn_of (s_statusTimer_update f5 s) = turn_of s" "turn_of (s_namedIncident_update f6 s) = turn_of s"
  "turn_of (s_retries_update f7 s) = turn_of s" "turn_of (s_agents_update f8 s) = turn_of s"
  "turn_of (s_levelSignal_update f9 s) = turn_of s" "turn_of (s_agentTimer_update f10 s) = turn_of s"
  "turn_of (s_agentSignature_update f11 s) = turn_of s" "turn_of (s_lastSdkAt_update f12 s) = turn_of s"
  "turn_of (s_stallTimer_update f13 s) = turn_of s" "turn_of (s_transcript_update f14 s) = turn_of s"
  "turn_of (s_input_update f15 s) = turn_of s" "turn_of (s_query_update f16 s) = turn_of s"
  "turn_of (s_nextQuery_update f17 s) = turn_of s" "turn_of (s_permissions_update f18 s) = turn_of s"
  "turn_of (s_lastCallUsage_update f19 s) = turn_of s" "turn_of (s_agentNames_update f20 s) = turn_of s"
  "turn_of (s_trace_update f21 s) = turn_of s"
  by (simp_all add: turn_of_def)

text \<open>A method that leaves the parked turn alone, and does not throw.\<close>

definition spares :: "op \<Rightarrow> bool" where
  "spares p = (\<forall>s. snd (p s) = Done \<and> turn_of (fst (p s)) = turn_of s)"

named_theorems spares_intros \<open>methods that leave the parked turn alone\<close>

lemma wp_spares: "spares p \<Longrightarrow> (\<And>s'. turn_of s' = turn_of s \<Longrightarrow> Q s') \<Longrightarrow> wp p Q s"
  by (simp add: spares_def wp_def)

lemma spares_skip [spares_intros]: "spares skip"
  by (simp add: spares_def skip_def)

lemma spares_set_state [spares_intros]: "(\<And>s. turn_of (f s) = turn_of s) \<Longrightarrow> spares (set_state f)"
  by (simp add: spares_def set_state_def)

lemma spares_emit [spares_intros]: "spares (emit e)"
  by (simp add: emit_def spares_set_state)

lemma spares_Nil [spares_intros]: "spares (seqs [])"
  by (simp add: spares_def)

lemma spares_Cons [spares_intros]: "spares p \<Longrightarrow> spares (seqs ps) \<Longrightarrow> spares (seqs (p # ps))"
  by (auto simp: spares_def seqs.simps(2) split: prod.split outcome.split) (metis fst_conv snd_conv outcome.distinct(1))+

lemma spares_if_do [spares_intros]: "spares p \<Longrightarrow> spares q \<Longrightarrow> spares (if_do c p q)"
  by (simp add: spares_def if_do_def)

lemma spares_when_do [spares_intros]: "spares p \<Longrightarrow> spares (when_do c p)"
  by (simp add: when_do_def spares_if_do spares_skip)

lemma spares_reading [spares_intros]: "(\<And>x. spares (p x)) \<Longrightarrow> spares (reading f p)"
  by (simp add: spares_def reading_def)

lemma spares_map [spares_intros]: "(\<And>x. x \<in> set xs \<Longrightarrow> spares (f x)) \<Longrightarrow> spares (seqs (map f xs))"
  by (induction xs) (simp_all add: spares_Nil spares_Cons)

lemma spares_appendEvent [spares_intros]: "writes_ok env \<Longrightarrow> spares (appendEvent env ev)"
  unfolding spares_def using appendEvent_ok by (metis fst_conv snd_conv turn_of_eq(1))

lemma spares_on_meta [spares_intros]: "spares (on_meta f)"
  unfolding on_meta_def by (rule spares_set_state) simp

end
