(* ===== verification/SessionTurn.thy ===== *)
theory SessionTurn
  imports SessionLogic
begin

text \<open>
  The parked turn is never lost: after every method a turn that is parked is on disk and has its
  timer armed, and a turn that is not parked has no file. \<open>session_step\<close> is the relation of all
  methods; \<open>reachable\<close> its closure from a session opened or restored by the daemon.
\<close>

section \<open>Methods that leave the parked turn alone, however they end\<close>

definition frames :: "op \<Rightarrow> bool" where
  "frames p = (\<forall>s. turn_of (fst (p s)) = turn_of s)"

named_theorems frames_intros \<open>methods that never touch the parked turn\<close>

lemma framesD: "frames p \<Longrightarrow> turn_of (fst (p s)) = turn_of s"
  by (simp add: frames_def)

lemma frames_skip [frames_intros]: "frames skip"
  by (simp add: frames_def skip_def)

lemma frames_throw [frames_intros]: "frames (throw m)"
  by (simp add: frames_def throw_def)

lemma frames_set_state [frames_intros]: "(\<And>s. turn_of (f s) = turn_of s) \<Longrightarrow> frames (set_state f)"
  by (simp add: frames_def set_state_def)

lemma frames_emit [frames_intros]: "frames (emit e)"
  by (simp add: emit_def frames_set_state)

lemma frames_on_meta [frames_intros]: "frames (on_meta f)"
  by (simp add: on_meta_def frames_set_state)

lemma frames_Nil [frames_intros]: "frames (seqs [])"
  by (simp add: frames_def)

lemma frames_Cons [frames_intros]: "frames p \<Longrightarrow> frames (seqs ps) \<Longrightarrow> frames (seqs (p # ps))"
  unfolding frames_def by (auto simp: seqs.simps(2) split: prod.split outcome.split) (metis fst_conv)+

lemma frames_if_do [frames_intros]: "frames p \<Longrightarrow> frames q \<Longrightarrow> frames (if_do c p q)"
  by (simp add: frames_def if_do_def)

lemma frames_when_do [frames_intros]: "frames p \<Longrightarrow> frames (when_do c p)"
  by (simp add: when_do_def frames_if_do frames_skip)

lemma frames_reading [frames_intros]: "(\<And>x. frames (p x)) \<Longrightarrow> frames (reading f p)"
  by (simp add: frames_def reading_def)

lemma frames_map [frames_intros]: "(\<And>x. x \<in> set xs \<Longrightarrow> frames (f x)) \<Longrightarrow> frames (seqs (map f xs))"
  by (induction xs) (simp_all add: frames_Nil frames_Cons)

lemma frames_if [frames_intros]: "frames p \<Longrightarrow> frames q \<Longrightarrow> frames (if b then p else q)"
  by simp

lemma frames_write_event [frames_intros]: "frames (write_event env ev)"
  by (auto simp: frames_def write_event_def emit_def set_state_def split: prod.split sum.split)

lemma frames_appendEvent [frames_intros]: "frames (appendEvent env ev)"
  unfolding appendEvent_def note_user_message_def
  by (cases ev) (simp_all, (intro frames_intros; simp)+)

lemma frames_setStatus [frames_intros]: "frames (setStatus env st d)"
  unfolding setStatus_def by (intro frames_intros) simp

lemma frames_timers [frames_intros]:
  "frames stopStatusWatch" "frames clearStallWatchdog" "frames (armStallWatchdog env)"
  unfolding stopStatusWatch_def clearStallWatchdog_def armStallWatchdog_def
  by (intro frames_intros; simp)+

lemma frames_publishAgents [frames_intros]: "frames (publishAgents env)"
  unfolding publishAgents_def by (intro frames_intros) (auto simp: Let_def intro!: frames_intros)

lemma frames_close [frames_intros]: "frames close_input" "frames close_query"
  unfolding close_input_def close_query_def
  by (intro frames_intros; auto split: option.split intro!: frames_intros)+

lemma frames_disposeActiveQuery [frames_intros]: "frames (disposeActiveQuery env)"
  unfolding disposeActiveQuery_def by (intro frames_intros) simp

lemma frames_workingDirectory [frames_intros]: "frames (workingDirectory env)"
  unfolding workingDirectory_def by (intro frames_intros; auto intro!: frames_intros)

lemma frames_ensureQuery [frames_intros]: "frames (ensureQuery env)"
  unfolding ensureQuery_def by (intro frames_intros; auto intro!: frames_intros)

lemma frames_push_input [frames_intros]: "frames (push_input v)"
  unfolding push_input_def
  by (intro frames_intros) (auto split: prod.split option.split intro!: frames_intros)

lemma frames_status_page [frames_intros]: "frames pollStatusPage" "frames watchStatusPage" "frames statusTimerFires"
  unfolding statusTimerFires_def watchStatusPage_def pollStatusPage_def by (intro frames_intros; simp)+

lemma frames_resolvePermission [frames_intros]: "frames (resolvePermission env rid a m ans)"
  unfolding resolvePermission_def
  by (intro frames_intros) (auto split: option.split intro!: frames_intros)

lemma frames_canUseTool [frames_intros]: "frames (canUseTool env n i)"
  unfolding canUseTool_def Let_def by (auto split: jsval.split bool.split intro!: frames_intros)

lemma frames_setPermissionMode [frames_intros]: "frames (setPermissionMode env m f)"
  unfolding setPermissionMode_def
  by (intro frames_intros) (auto split: option.split intro!: frames_intros)

lemma frames_setOptions [frames_intros]: "frames (setOptions env m e f f2)"
  unfolding setOptions_def Let_def by (intro frames_intros; auto split: option.split intro!: frames_intros)

lemma frames_moveTo [frames_intros]: "frames (moveTo env cwd)"
  unfolding moveTo_def by (intro frames_intros; auto intro!: frames_intros)

lemma frames_agents [frames_intros]: "frames (noteAgentActivity env i d)" "frames (agentTimerFires env)"
  unfolding noteAgentActivity_def agentTimerFires_def
  by (intro frames_intros; auto intro!: frames_intros)+

lemma frames_naming [frames_intros]: "frames (maybeRetitle env)" "frames (nameAnswered b a)"
  unfolding maybeRetitle_def nameAnswered_def
  by ((intro frames_intros; auto intro!: frames_intros), auto simp: Let_def split: option.split intro!: frames_intros)

lemma frames_handlers [frames_intros]:
  "frames (handle_system msg)" "frames (handle_assistant env agent msg)" "frames (handle_user env agent msg)"
  "frames (handle_stream agent msg)" "frames (handle_rate_limit msg)"
proof -
  have "frames (assistant_block env agent b)" for b
    unfolding assistant_block_def Let_def by (auto split: option.split intro!: frames_intros)
  moreover have "frames (tool_result_block env agent b)" for b
    unfolding tool_result_block_def by (auto split: option.split intro!: frames_intros)
  ultimately show "frames (handle_assistant env agent msg)" "frames (handle_user env agent msg)"
    unfolding handle_assistant_def handle_user_def Let_def by (auto intro!: frames_intros)
  show "frames (handle_system msg)"
    unfolding handle_system_def by (intro frames_intros; auto split: jsval.split intro!: frames_intros)
  show "frames (handle_stream agent msg)" "frames (handle_rate_limit msg)"
    unfolding handle_stream_def handle_rate_limit_def Let_def
    by (auto split: jsval.split intro!: frames_intros)
qed

lemma frames_notes [frames_intros]: "frames (note_tasks env msg)" "frames (note_parent env p)"
  unfolding note_tasks_def note_parent_def
  by (auto split: option.split jsval.split intro!: frames_intros)

section \<open>The invariant\<close>

text \<open>Armed: a parked turn has a timer that does not fire early. Durable: the file says what is parked.\<close>

definition armed :: "turn \<Rightarrow> bool" where
  "armed u =
     (case u_pending u of
        None \<Rightarrow> True
      | Some p \<Rightarrow> (case u_timer u of None \<Rightarrow> False | Some d \<Rightarrow> pt_retryAt p \<le> d))"

definition durable :: "turn \<Rightarrow> bool" where
  "durable u = (u_file u = map_option (\<lambda>p. stringify (pending_json p)) (u_pending u))"

definition turn_ok :: "session \<Rightarrow> bool" where
  "turn_ok s = (armed (turn_of s) \<and> durable (turn_of s))"

definition good_env :: "env \<Rightarrow> bool" where
  "good_env env = (writes_ok env \<and> e_persists env \<and> num_plain (e_now env))"

lemma turn_ok_cong: "turn_of s' = turn_of s \<Longrightarrow> turn_ok s' = turn_ok s"
  by (simp add: turn_ok_def)

lemma turn_ok_none: "s_pending s = None \<Longrightarrow> s_file s = None \<Longrightarrow> turn_ok s"
  by (simp add: turn_ok_def armed_def durable_def turn_of_def)

lemma turn_ok_some:
  "s_pending s = Some p \<Longrightarrow> s_file s = Some (stringify (pending_json p)) \<Longrightarrow>
   s_retryTimer s = Some d \<Longrightarrow> pt_retryAt p \<le> d \<Longrightarrow> turn_ok s"
  by (simp add: turn_ok_def armed_def durable_def turn_of_def)

lemma frames_keeps: "frames p \<Longrightarrow> keeps turn_ok p"
  by (metis framesD keepsI turn_ok_cong)

lemmas frames_keep_turn [keeps_intros] =
  frames_emit [THEN frames_keeps] frames_on_meta [THEN frames_keeps]
  frames_appendEvent [THEN frames_keeps] frames_setStatus [THEN frames_keeps]
  frames_timers [THEN frames_keeps] frames_publishAgents [THEN frames_keeps]
  frames_close [THEN frames_keeps] frames_disposeActiveQuery [THEN frames_keeps]
  frames_ensureQuery [THEN frames_keeps] frames_push_input [THEN frames_keeps]
  frames_status_page [THEN frames_keeps] frames_resolvePermission [THEN frames_keeps]
  frames_canUseTool [THEN frames_keeps] frames_setPermissionMode [THEN frames_keeps]
  frames_setOptions [THEN frames_keeps] frames_moveTo [THEN frames_keeps]
  frames_agents [THEN frames_keeps] frames_naming [THEN frames_keeps]
  frames_handlers [THEN frames_keeps] frames_notes [THEN frames_keeps]

lemma keeps_set_turn [keeps_intros]:
  "(\<And>s. turn_of (f s) = turn_of s) \<Longrightarrow> keeps turn_ok (set_state f)"
  by (rule frames_keeps [OF frames_set_state])

lemma keeps_wp: "(\<And>s. I s \<Longrightarrow> wp p I s) \<Longrightarrow> keeps I p"
  by (simp add: keeps_def wp_def)

lemma wp_keeps_last: "wp (seqs ps) I s \<Longrightarrow> keeps I p \<Longrightarrow> I (fst (seqs (ps @ [p]) s))"
proof (induction ps arbitrary: s)
  case Nil
  then show ?case by (auto simp: wp_def keeps_def split: prod.split outcome.split)
next
  case (Cons a ps)
  then show ?case by (auto simp: wp_def seqs.simps(2) split: prod.splits outcome.splits)
qed

lemma wp_Nil_fun: "wp (seqs []) Q = Q"
  by (rule ext) (rule wp_Nil)

lemma wp_append:
  assumes "wp (seqs ps) R s" and "\<And>s'. wp (seqs qs) Q s'"
  shows "wp (seqs (ps @ qs)) Q s"
  using assms(1)
proof (induction ps arbitrary: s)
  case Nil
  then show ?case using assms(2) by simp
next
  case (Cons a ps)
  then show ?case unfolding append_Cons wp_Cons by (rule_tac wp_mono)
qed

lemma spares_frames: "spares p \<Longrightarrow> frames p"
  by (simp add: spares_def frames_def)

lemma spares_setStatus [spares_intros]: "writes_ok env \<Longrightarrow> spares (setStatus env st d)"
  unfolding setStatus_def by (intro spares_intros) simp_all

lemma spares_stop [spares_intros]: "spares stopStatusWatch" "spares clearStallWatchdog"
  unfolding stopStatusWatch_def clearStallWatchdog_def by (intro spares_intros; simp)+

lemma spares_publishAgents [spares_intros]: "spares (publishAgents env)"
  unfolding publishAgents_def by (intro spares_intros) (auto simp: Let_def intro!: spares_intros)

lemma spares_dispose [spares_intros]: "spares (disposeActiveQuery env)"
  unfolding disposeActiveQuery_def close_input_def close_query_def
  by (intro spares_intros; auto split: option.split intro!: spares_intros)

text \<open>One step of a method that spares the turn, inside a weakest precondition.\<close>

lemma wp_spares_then:
  assumes "spares p" and "turn_of s = u" and "\<And>s'. turn_of s' = u \<Longrightarrow> Q s'"
  shows "wp p Q s"
  using assms by (auto intro: wp_spares)

definition parked :: "session \<Rightarrow> pending_turn \<Rightarrow> bool" where
  "parked s p = (s_pending s = Some p)"

section \<open>Every method keeps it\<close>

lemma keeps_cancelPendingRetry [keeps_intros]:
  "good_env env \<Longrightarrow> keeps turn_ok (cancelPendingRetry env r)"
proof (rule keeps_wp)
  fix s assume "good_env env" and s: "turn_ok s"
  then have w: "writes_ok env" by (simp add: good_env_def)
  have none: "s_pending s = None \<Longrightarrow> s_file s = None"
    using s by (simp add: turn_ok_def durable_def turn_of_def)
  show "wp (cancelPendingRetry env r) turn_ok s"
    unfolding cancelPendingRetry_def stopStatusWatch_def clearRetryTimer_def set_pending_def
      clearPersistedPending_def
    using none by (auto simp: wp_simps intro!: wp_appendEvent [OF w] turn_ok_none)
qed

lemma wp_parkForAccountSwitch:
  assumes "good_env env" and "turn_ok s"
  shows "wp (parkForAccountSwitch env t a r) turn_ok s"
proof -
  have w: "writes_ok env" and e: "e_persists env" using assms by (simp_all add: good_env_def)
  show ?thesis
    unfolding parkForAccountSwitch_def set_pending_def persistPending_def scheduleRetry_def
    using assms(2) e by (auto simp: wp_simps intro!: wp_appendEvent [OF w] turn_ok_some)
qed

lemma keeps_parkForAccountSwitch [keeps_intros]:
  "good_env env \<Longrightarrow> keeps turn_ok (parkForAccountSwitch env t a r)"
  by (intro keeps_wp wp_parkForAccountSwitch)

lemma wp_disposeActiveQuery: "turn_ok s \<Longrightarrow> wp (disposeActiveQuery env) turn_ok s"
  using turn_ok_cong by (intro wp_spares [OF spares_dispose]) blast

lemma wp_host_calls:
  assumes "good_env env" and "turn_ok s"
  shows "wp (host_calls env r) turn_ok s"
proof (cases "rp_activation r")
  case None
  then show ?thesis using assms(2) by (simp add: host_calls_def wp_skip)
next
  case (Some act)
  obtain t n rs where "act = (t, n, rs)" by (cases act)
  then have "host_calls env r = seqs [parkForAccountSwitch env t (Some n) rs, disposeActiveQuery env]"
    using Some by (simp add: host_calls_def)
  moreover have "wp (seqs [disposeActiveQuery env]) turn_ok s'" if "turn_ok s'" for s'
    using wp_disposeActiveQuery [OF that] by (simp only: wp_Cons wp_Nil_fun)
  ultimately show ?thesis
    using wp_mono [OF wp_parkForAccountSwitch [OF assms]] by (simp only: wp_Cons)
qed

lemma keeps_host_calls [keeps_intros]: "good_env env \<Longrightarrow> keeps turn_ok (host_calls env r)"
  by (intro keeps_wp wp_host_calls)

lemma keeps_giveUp [keeps_intros]: "good_env env \<Longrightarrow> keeps turn_ok (giveUp env c)"
proof (rule keeps_wp)
  fix s assume "good_env env"
  then have w: "writes_ok env" by (simp add: good_env_def)
  show "wp (giveUp env c) turn_ok s"
    unfolding giveUp_def set_pending_def clearPersistedPending_def stopStatusWatch_def
    by (auto simp: wp_simps intro!: wp_appendEvent [OF w] turn_ok_none)
qed

text \<open>Setting a pending turn, persisting it, saying so and arming the timer.\<close>

lemma wp_park:
  assumes "good_env env"
  shows "wp (seqs [set_pending (Some p), persistPending env, appendEvent env ev, scheduleRetry env]) turn_ok s"
proof -
  have w: "writes_ok env" and e: "e_persists env" using assms by (simp_all add: good_env_def)
  show ?thesis
    unfolding set_pending_def persistPending_def scheduleRetry_def
    using e by (auto simp: wp_simps intro!: wp_appendEvent [OF w] turn_ok_some)
qed

lemma keeps_parkTurn [keeps_intros]:
  assumes "good_env env"
  shows "keeps turn_ok (parkTurn env txt c n d)"
proof (rule keepsI)
  fix s assume s: "turn_ok s"
  let ?first = "[host_calls env d, (if c = Stall_cause \<or> c = Launch_cause then disposeActiveQuery env else skip),
    set_state (s_retries_update (\<lambda>_. n))]"
  let ?park = "[set_pending (Some \<lparr>pt_retryAt = rp_retryAt d, pt_attempts = n, pt_text = txt\<rparr>), persistPending env,
    appendEvent env (status_event Status_error (limitNotice (rp_switchedTo d) (rp_why d) (iso_string (rp_retryAt d)))),
    scheduleRetry env]"
  have "wp (seqs (?first @ ?park)) turn_ok s"
  proof -
    have sp: "spares (seqs [if c = Stall_cause \<or> c = Launch_cause then disposeActiveQuery env else skip,
        set_state (s_retries_update (\<lambda>_. n))])"
      by (intro spares_intros) (simp_all add: spares_dispose spares_skip)
    have "wp (seqs ?first) (\<lambda>_. True) s"
      unfolding wp_Cons [of "host_calls env d"]
      by (rule wp_mono [OF wp_host_calls [OF assms s]]) (rule wp_spares [OF sp], simp)
    then show ?thesis using wp_park [OF assms] by (rule wp_append)
  qed
  moreover have "keeps turn_ok (if c = Overload_cause then watchStatusPage else skip)"
    by (simp add: keeps_intros)
  ultimately have "turn_ok (fst (seqs ((?first @ ?park) @ [if c = Overload_cause then watchStatusPage else skip]) s))"
    by (rule wp_keeps_last)
  then show "turn_ok (fst (parkTurn env txt c n d s))" by (simp add: parkTurn_def)
qed

lemma keeps_parkForLimit [keeps_intros]: "good_env env \<Longrightarrow> keeps turn_ok (parkForLimit env txt c)"
  unfolding parkForLimit_def Let_def
  by (rule keeps_reading) (auto split: park_cause.split intro!: keeps_intros)

lemma keeps_sendMessage [keeps_intros]: "good_env env \<Longrightarrow> keeps turn_ok (sendMessage env txt atts cid)"
  unfolding sendMessage_def by (intro keeps_intros) (auto intro!: keeps_intros)

text \<open>
  A retry starts with the timer off and a turn still parked, so it is followed from any state
  whose file agrees with it.
\<close>

definition durable_state :: "session \<Rightarrow> bool" where
  "durable_state s = durable (turn_of s)"

lemma wp_host_calls_parked:
  assumes "s_pending s \<noteq> None"
  shows "wp (host_calls env r) (\<lambda>s'. turn_of s' = turn_of s) s"
proof -
  obtain p where "s_pending s = Some p" using assms by auto
  then have "wp (parkForAccountSwitch env t a rs) Q s = Q s" for t a rs Q
    by (simp add: parkForAccountSwitch_def wp_when_do)
  moreover have "wp (disposeActiveQuery env) (\<lambda>s'. turn_of s' = turn_of s) s"
    by (rule wp_spares [OF spares_dispose])
  ultimately show ?thesis
    by (auto simp: host_calls_def wp_skip wp_Cons wp_Nil_fun split: option.split)
qed

lemma retry_keeps_turn:
  assumes "good_env env" and "s_pending s = None \<longrightarrow> s_file s = None"
  shows "turn_ok (fst (runPendingRetry env s))"
proof (cases "s_pending s = None")
  case True
  then show ?thesis using assms(2) by (simp add: runPendingRetry_def when_do_def if_do_def skip_def turn_ok_none)
next
  case False
  let ?pre = "[stopStatusWatch, set_state (s_namedIncident_update (\<lambda>_. None)), emit Retry_announced]"
  let ?mid = "[host_calls env (e_beforeRetry env)]"
  let ?clear = "[set_pending None, clearPersistedPending]"
  have pre: "wp (seqs (?pre @ ?mid)) (\<lambda>_. True) s"
    unfolding stopStatusWatch_def
    using False by (auto simp: wp_simps intro: wp_mono [OF wp_host_calls_parked])
  have "wp (seqs ?clear) turn_ok s'" for s'
    unfolding set_pending_def clearPersistedPending_def by (simp add: wp_simps turn_ok_none)
  with pre have "wp (seqs ((?pre @ ?mid) @ ?clear)) turn_ok s" by (rule wp_append)
  from wp_keeps_last [OF this keeps_sendMessage [OF assms(1)]] False show ?thesis
    by (simp add: runPendingRetry_def when_do_def if_do_def)
qed

lemma turn_ok_file: "turn_ok s \<Longrightarrow> s_pending s = None \<Longrightarrow> s_file s = None"
  by (simp add: turn_ok_def durable_def turn_of_def)

lemma keeps_runPendingRetry [keeps_intros]: "good_env env \<Longrightarrow> keeps turn_ok (runPendingRetry env)"
  by (rule keepsI) (rule retry_keeps_turn, auto dest: turn_ok_file)

lemma keeps_retryTimerFires [keeps_intros]:
  assumes "good_env env"
  shows "keeps turn_ok (retryTimerFires env)"
  unfolding retryTimerFires_def
proof (intro keeps_when_do keepsI)
  fix s assume "turn_ok s"
  then have "turn_ok (fst (runPendingRetry env (s_retryTimer_update (\<lambda>_. None) s)))"
    using turn_ok_file by (intro retry_keeps_turn [OF assms]) simp
  then show "turn_ok (fst (seqs [clearRetryTimer, runPendingRetry env] s))"
    by (simp add: clearRetryTimer_def seqs_set_state)
qed

lemma keeps_incidentsAnswered [keeps_intros]:
  assumes "good_env env"
  shows "keeps turn_ok (incidentsAnswered env answer)"
proof -
  have w: "writes_ok env" using assms by (simp add: good_env_def)
  let ?pre = "[set_state (s_namedIncident_update (\<lambda>_. None)), stopStatusWatch, clearRetryTimer,
     appendEvent env (status_event Status_error resolved_detail)]"
  have resolved: "turn_ok (fst (seqs (?pre @ [runPendingRetry env]) s))" if "turn_ok s" for s
  proof -
    let ?I = "\<lambda>s. s_pending s = None \<longrightarrow> s_file s = None"
    have "wp (seqs ?pre) ?I s"
      unfolding stopStatusWatch_def clearRetryTimer_def
      using turn_ok_file [OF that] by (auto simp: wp_simps intro!: wp_appendEvent [OF w])
    then obtain s' where "seqs ?pre s = (s', Done)" "?I s'" by (cases "seqs ?pre s") (simp add: wp_def)
    with retry_keeps_turn [OF assms, of s'] show ?thesis by (simp only: seqs_last)
  qed
  have "keeps turn_ok (seqs (?pre @ [runPendingRetry env]))"
    using resolved by (rule keepsI)
  then have "keeps turn_ok (seqs [set_state (s_namedIncident_update (\<lambda>_. None)), stopStatusWatch,
      clearRetryTimer, appendEvent env (status_event Status_error resolved_detail), runPendingRetry env])"
    by (simp only: append.simps)
  then show ?thesis
    unfolding incidentsAnswered_def
    by (auto simp: Let_def split: option.split list.split intro!: keeps_when_do)
       (intro keeps_intros; simp)+
qed

lemma keeps_stallTimerFires [keeps_intros]: "good_env env \<Longrightarrow> keeps turn_ok (stallTimerFires env)"
  unfolding stallTimerFires_def by (intro keeps_intros; simp)

lemma keeps_interrupt [keeps_intros]: "good_env env \<Longrightarrow> keeps turn_ok (interrupt env)"
  unfolding interrupt_def
  by (intro keeps_Cons keeps_Nil keeps_when_do keeps_cancelPendingRetry keeps_reading)
     (auto split: option.split intro!: keeps_intros)

lemma keeps_setup_failure [keeps_intros]:
  assumes "good_env env"
  shows "keeps turn_ok (setup_failure env txt)"
proof -
  have w: "writes_ok env" and e: "e_persists env" using assms by (simp_all add: good_env_def)
  have "keeps turn_ok (seqs [appendEvent env ev, set_state (s_retries_update Suc),
      reading s_retries (\<lambda>n. set_pending (Some \<lparr>pt_retryAt = t, pt_attempts = n, pt_text = []\<rparr>)),
      persistPending env, scheduleRetry env])" for ev t
    unfolding set_pending_def persistPending_def scheduleRetry_def
    using e by (intro keeps_wp) (auto simp: wp_simps intro!: wp_appendEvent [OF w] turn_ok_some)
  then show ?thesis
    unfolding setup_failure_def
    using assms
    by (intro keeps_Cons keeps_Nil) (auto simp: keeps_intros keeps_Cons keeps_Nil split: option.split)
qed

lemma keeps_finish_turn [keeps_intros]: "good_env env \<Longrightarrow> keeps turn_ok (finish_turn env b)"
proof -
  assume g: "good_env env"
  have "keeps turn_ok (seqs [set_pending None, clearPersistedPending, clearRetryTimer])"
    unfolding set_pending_def clearPersistedPending_def clearRetryTimer_def
    by (intro keeps_wp) (simp add: wp_simps turn_ok_none)
  then show ?thesis
    unfolding finish_turn_def by (auto intro!: keeps_Cons keeps_Nil keeps_when_do keeps_intros)
qed

lemma keeps_handle_result [keeps_intros]: "good_env env \<Longrightarrow> keeps turn_ok (handle_result env msg)"
  unfolding handle_result_def judge_result_def Let_def
  by (auto split: option.split intro!: keeps_Cons keeps_Nil keeps_reading keeps_intros)

lemma keeps_handleSdkMessage [keeps_intros]:
  "good_env env \<Longrightarrow> keeps turn_ok (handleSdkMessage env msg)"
  unfolding handleSdkMessage_def dispatch_def Let_def
  by (auto split: jsval.split intro!: keeps_Cons keeps_Nil keeps_reading keeps_when_do keeps_intros)

lemma turn_of_finally [simp]: "turn_of (consume_finally q s) = turn_of s"
  by (simp add: consume_finally_def)

lemma turn_ok_finally [simp]: "turn_ok (consume_finally q s) = turn_ok s"
  by (rule turn_ok_cong) simp

lemma keeps_consume_throw [keeps_intros]:
  assumes "good_env env"
  shows "keeps turn_ok (consume_throw env q m)"
proof -
  have "keeps turn_ok (when_do (current_query q) (consume_caught env m))"
    unfolding consume_caught_def using assms by (auto intro!: keeps_intros)
  then show ?thesis by (auto simp: keeps_def consume_throw_def split: prod.split)
qed

lemma keeps_consume_message [keeps_intros]:
  assumes "good_env env"
  shows "keeps turn_ok (consume_message env q msg)"
  using keeps_handleSdkMessage [OF assms, of msg] keeps_consume_throw [OF assms, of q]
  by (auto simp: keeps_def consume_message_def split: prod.split outcome.split)

lemma keeps_consume_end [keeps_intros]:
  assumes "good_env env"
  shows "keeps turn_ok (consume_end env q)"
proof -
  have "keeps turn_ok (when_do (current_query q) (setStatus env Idle None))" by (intro keeps_intros)
  then show ?thesis
    using keeps_consume_throw [OF assms, of q]
    by (auto simp: keeps_def consume_end_def split: prod.split outcome.split)
qed

section \<open>The session as a state machine\<close>

text \<open>
  A method of the session with its arguments; the answers of its surroundings come with the step.
  \<open>parkForRestart\<close> and \<open>dispose\<close> end the session's life and are not steps.
\<close>

datatype session_method =
    Send_message string "attachment list" "string option"
  | Retry_timer
  | Stall_timer
  | Status_timer
  | Agent_timer
  | Incidents "status_incident list option"
  | Interrupt
  | Move string
  | Account_switch time_ms "string option" string
  | Dispose_query
  | Query_message nat jsval
  | Query_end nat
  | Query_throw nat string
  | Resolve string bool "string option" "(string \<times> string) list option"
  | Can_use_tool string jsval
  | Set_mode permission_mode "string option"
  | Set_options "string option option" "effort_level option option" "string option" "string option"
  | Name_answer bool "string option"

fun run_method :: "session_method \<Rightarrow> env \<Rightarrow> op" where
  "run_method (Send_message txt atts cid) env = sendMessage env txt atts cid"
| "run_method Retry_timer env = retryTimerFires env"
| "run_method Stall_timer env = stallTimerFires env"
| "run_method Status_timer env = statusTimerFires"
| "run_method Agent_timer env = agentTimerFires env"
| "run_method (Incidents a) env = incidentsAnswered env a"
| "run_method Interrupt env = interrupt env"
| "run_method (Move cwd) env = moveTo env cwd"
| "run_method (Account_switch t a r) env = parkForAccountSwitch env t a r"
| "run_method Dispose_query env = disposeActiveQuery env"
| "run_method (Query_message q m) env = consume_message env q m"
| "run_method (Query_end q) env = consume_end env q"
| "run_method (Query_throw q m) env = consume_throw env q m"
| "run_method (Resolve r a m ans) env = resolvePermission env r a m ans"
| "run_method (Can_use_tool n i) env = canUseTool env n i"
| "run_method (Set_mode m f) env = setPermissionMode env m f"
| "run_method (Set_options m e f f2) env = setOptions env m e f f2"
| "run_method (Name_answer b a) env = nameAnswered b a"

text \<open>The JSON that comes in is plain: what the SDK sends is parsed from JSON text.\<close>

fun plain_method :: "session_method \<Rightarrow> bool" where
  "plain_method (Query_message q m) = json_plain m"
| "plain_method (Can_use_tool n i) = json_plain i"
| "plain_method (Resolve r a m ans) = (case ans of None \<Rightarrow> True | Some x \<Rightarrow> distinct (map fst x))"
| "plain_method c = True"

inductive session_step :: "session \<Rightarrow> session \<Rightarrow> bool" where
  step: "good_env env \<Longrightarrow> plain_method c \<Longrightarrow> run_method c env s = (s', r) \<Longrightarrow> session_step s s'"

inductive_cases session_stepE: "session_step s s'"

inductive_simps session_step_iff: "session_step s s'"

text \<open>
  A session begins opened on its log with no turn on disk, or with the turn a previous daemon left
  there restored.
\<close>

inductive reachable :: "session \<Rightarrow> bool" where
  opened: "reachable (session_open ren m dir None)"
| restored: "num_plain (pt_retryAt p) \<Longrightarrow>
    reachable (fst (restorePending env (session_open ren m dir (Some (stringify (pending_json p))))))"
| stepped: "reachable s \<Longrightarrow> session_step s s' \<Longrightarrow> reachable s'"

lemma run_method_keeps:
  assumes "good_env env"
  shows "keeps turn_ok (run_method c env)"
  using assms by (cases c) (simp_all add: keeps_intros)

text \<open>What every method of a session with plain input keeps, every step keeps.\<close>

lemma step_keeps:
  assumes "\<And>env c. good_env env \<Longrightarrow> plain_method c \<Longrightarrow> keeps I (run_method c env)"
    and "session_step s s'" and "I s"
  shows "I s'"
  using assms(2)
proof (rule session_stepE)
  fix env c r
  assume "good_env env" "plain_method c" "run_method c env s = (s', r)"
  then show "I s'" using keepsD [OF assms(1) assms(3), of env c] by simp
qed

lemma pending_json_plain: "num_plain (pt_retryAt p) \<Longrightarrow> json_plain (pending_json p)"
  by (simp add: pending_json_def)

lemma read_pending_stringify:
  assumes "num_plain (pt_retryAt p)"
  shows "read_pending (stringify (pending_json p)) = Some (Some p)"
  using json_roundtrip [OF pending_json_plain [OF assms]]
  by (simp add: read_pending_def pending_json_def string_or_def)

lemma restorePending_spec:
  assumes "num_plain (pt_retryAt p)" and "s_file s = Some (stringify (pending_json p))"
  shows "restorePending env s =
    (s \<lparr>s_pending := Some p, s_retries := pt_attempts p, s_status := Running,
        s_retryTimer := Some (e_now env + max 0 (pt_retryAt p - e_now env))\<rparr>, Done)"
  using assms read_pending_stringify [OF assms(1)]
  by (simp add: restorePending_def reading_def set_pending_def scheduleRetry_def seqs_set_state)
     (simp add: set_state_def)

lemma timer_not_early: "(t::time_ms) \<le> n + max 0 (t - n)"
  by (simp add: max_def)

lemma reachable_turn_ok: "reachable s \<Longrightarrow> turn_ok s"
proof (induction rule: reachable.induct)
  case (opened ren m dir)
  then show ?case by (simp add: turn_ok_none session_open_def)
next
  case (restored p env ren m dir)
  have f: "s_file (session_open ren m dir (Some (stringify (pending_json p)))) = Some (stringify (pending_json p))"
    by (simp add: session_open_def)
  show ?case
    using restored unfolding restorePending_spec [OF restored f]
    by (intro turn_ok_some [of _ p "e_now env + max 0 (pt_retryAt p - e_now env)"])
       (simp_all add: session_open_def timer_not_early)
next
  case (stepped s s')
  then show ?case using step_keeps [of turn_ok s s'] run_method_keeps by blast
qed

end
