(* ===== verification/SessionLog.thy ===== *)
theory SessionLog
  imports SessionTurn
begin

text \<open>
  The log of a running session. After every method the files hold the whole transcript, each event
  under its own number, and what is in memory is its tail; so a restart shows the same chat.
\<close>

definition logged :: "session \<Rightarrow> bool" where
  "logged s =
     (transcript_ok (s_transcript s) \<and> numbered (transcript_events (s_transcript s))
      \<and> (case s_lastCallUsage s of None \<Rightarrow> True | Some u \<Rightarrow> json_plain u))"

lemma logged_cong:
  "s_transcript s' = s_transcript s \<Longrightarrow> s_lastCallUsage s' = s_lastCallUsage s \<Longrightarrow> logged s' = logged s"
  by (simp add: logged_def)

lemma json_plain_prop: "json_plain v \<Longrightarrow> js_prop v k = JUndef \<or> json_plain (js_prop v k)"
  by (cases v) (auto split: option.split dest!: map_of_SomeD)

lemma json_plain_list: "json_plain v \<Longrightarrow> x \<in> set (list_of v) \<Longrightarrow> json_plain x"
  by (cases v) (auto simp: list_of_def)

lemma list_of_undef [simp]: "list_of JUndef = []"
  by (simp add: list_of_def)

lemma keeps_logged_state [keeps_intros]:
  "(\<And>s. s_transcript (f s) = s_transcript s \<and> s_lastCallUsage (f s) = s_lastCallUsage s) \<Longrightarrow>
   keeps logged (set_state f)"
  by (rule keeps_set_state) (simp add: logged_def)

lemma keeps_logged_emit [keeps_intros]: "keeps logged (emit e)"
  unfolding emit_def by (intro keeps_logged_state) simp

lemma keeps_logged_meta [keeps_intros]: "keeps logged (on_meta f)"
  unfolding on_meta_def by (intro keeps_logged_state) simp

lemma keeps_logged_write:
  assumes "good_env env" and "event_plain ev"
  shows "keeps logged (write_event env ev)"
proof (rule keepsI)
  fix s assume s: "logged s"
  have ok: "e_write env n = Written" "num_plain (e_now env)" for n
    using assms(1) by (simp_all add: good_env_def writes_ok_def)
  from s have t: "transcript_ok (s_transcript s)" by (simp add: logged_def)
  obtain t' where t': "append_persisted (e_renames env) Written (e_now env) (event_json ev) (s_transcript s) =
      (Inr (next_event (e_now env) (event_json ev) (s_transcript s)), t')"
    "transcript_ok t'"
    "transcript_events t' = transcript_events (s_transcript s)
        @ [next_event (e_now env) (event_json ev) (s_transcript s)]"
    using append_written [OF t event_json_plain [OF assms(2)] ok(2)] by metis
  have "numbered (transcript_events t')"
    using s t'(3) by (simp add: logged_def numbered_append transcript_ok_def)
  then show "logged (fst (write_event env ev s))"
    using s t' ok(1) by (simp add: write_event_def emit_def set_state_def logged_def)
qed

lemma keeps_logged_appendEvent [keeps_intros]:
  assumes "good_env env" and "event_plain ev"
  shows "keeps logged (appendEvent env ev)"
proof -
  have "keeps logged (note_user_message ut refs)" for ut refs
    unfolding note_user_message_def by (intro keeps_intros; simp)
  then show ?thesis
    using keeps_logged_write [OF assms]
    unfolding appendEvent_def by (auto split: chat_event.split intro!: keeps_Cons keeps_Nil)
qed

lemma status_event_plain [simp]: "event_plain (status_event st d)"
  by (simp add: status_event_def)

lemma keeps_logged_simple [keeps_intros]:
  "keeps logged stopStatusWatch" "keeps logged clearStallWatchdog" "keeps logged (armStallWatchdog env)"
  "keeps logged clearRetryTimer" "keeps logged (scheduleRetry env)" "keeps logged (set_pending p)"
  "keeps logged clearPersistedPending" "keeps logged close_input" "keeps logged close_query"
  "keeps logged (persistPending env)" "keeps logged (publishAgents env)"
  "keeps logged (disposeActiveQuery env)" "keeps logged (push_input v)"
  "keeps logged pollStatusPage" "keeps logged watchStatusPage" "keeps logged statusTimerFires"
  unfolding statusTimerFires_def watchStatusPage_def pollStatusPage_def stopStatusWatch_def
    clearStallWatchdog_def armStallWatchdog_def clearRetryTimer_def scheduleRetry_def set_pending_def
    clearPersistedPending_def disposeActiveQuery_def close_input_def close_query_def
    persistPending_def publishAgents_def push_input_def
  by (auto simp: Let_def split: option.split prod.split
      intro!: keeps_Cons keeps_Nil keeps_when_do keeps_if_do keeps_reading keeps_skip keeps_throw
        keeps_logged_state keeps_logged_emit)

lemma keeps_logged_setStatus [keeps_intros]: "good_env env \<Longrightarrow> keeps logged (setStatus env st d)"
  unfolding setStatus_def by (intro keeps_intros) simp_all

lemma keeps_logged_cwd [keeps_intros]: "good_env env \<Longrightarrow> keeps logged (workingDirectory env)"
  unfolding workingDirectory_def by (auto intro!: keeps_intros)

lemma keeps_logged_ensureQuery [keeps_intros]: "good_env env \<Longrightarrow> keeps logged (ensureQuery env)"
  unfolding ensureQuery_def by (auto intro!: keeps_intros)

lemma keeps_logged_cancel [keeps_intros]: "good_env env \<Longrightarrow> keeps logged (cancelPendingRetry env r)"
  unfolding cancelPendingRetry_def by (auto intro!: keeps_intros)

lemma keeps_logged_sendMessage [keeps_intros]: "good_env env \<Longrightarrow> keeps logged (sendMessage env txt atts cid)"
  unfolding sendMessage_def by (auto intro!: keeps_intros)

lemma keeps_logged_switch [keeps_intros]:
  "good_env env \<Longrightarrow> keeps logged (parkForAccountSwitch env t a r)"
  "good_env env \<Longrightarrow> keeps logged (host_calls env hr)"
  unfolding host_calls_def parkForAccountSwitch_def
  by (auto split: option.split intro!: keeps_intros)

lemma keeps_logged_park [keeps_intros]: "good_env env \<Longrightarrow> keeps logged (parkForLimit env txt c)"
  unfolding parkForLimit_def giveUp_def parkTurn_def Let_def
  by (auto split: park_cause.split intro!: keeps_intros)

lemma keeps_logged_retry [keeps_intros]:
  "good_env env \<Longrightarrow> keeps logged (runPendingRetry env)"
  "good_env env \<Longrightarrow> keeps logged (retryTimerFires env)"
  "good_env env \<Longrightarrow> keeps logged (stallTimerFires env)"
  unfolding retryTimerFires_def stallTimerFires_def runPendingRetry_def
  by (auto intro!: keeps_intros)

lemma keeps_logged_incidents [keeps_intros]: "good_env env \<Longrightarrow> keeps logged (incidentsAnswered env a)"
  unfolding incidentsAnswered_def
  by (auto simp: Let_def split: option.split list.split intro!: keeps_intros)

lemma keeps_logged_person [keeps_intros]:
  "good_env env \<Longrightarrow> keeps logged (interrupt env)" "good_env env \<Longrightarrow> keeps logged (moveTo env cwd)"
  unfolding interrupt_def moveTo_def by (auto split: option.split intro!: keeps_intros)

lemma keeps_logged_resolve [keeps_intros]:
  "good_env env \<Longrightarrow> (case ans of None \<Rightarrow> True | Some x \<Rightarrow> distinct (map fst x)) \<Longrightarrow>
   keeps logged (resolvePermission env rid a m ans)"
  unfolding resolvePermission_def by (auto split: option.splits intro!: keeps_intros)

lemma keeps_logged_canUseTool [keeps_intros]:
  assumes "good_env env" and "json_plain i"
  shows "keeps logged (canUseTool env n i)"
proof -
  have "js_prop i ''questions'' = JArr qs \<Longrightarrow> json_plain (JArr qs)" for qs
    using json_plain_prop [OF assms(2), of "''questions''"] by auto
  then show ?thesis
    unfolding canUseTool_def Let_def
    using assms by (auto simp del: json_plain.simps split: jsval.split bool.split intro!: keeps_intros)
qed

lemma keeps_logged_options [keeps_intros]:
  "good_env env \<Longrightarrow> keeps logged (setPermissionMode env pm f)"
  "good_env env \<Longrightarrow> keeps logged (setOptions env mo e f f2)"
  unfolding setPermissionMode_def setOptions_def Let_def
  by (auto split: option.split intro!: keeps_intros)

lemma keeps_logged_naming [keeps_intros]: "keeps logged (maybeRetitle env)" "keeps logged (nameAnswered b a)"
  unfolding maybeRetitle_def nameAnswered_def
  by (auto simp: Let_def split: option.split intro!: keeps_intros)

lemma keeps_logged_agents [keeps_intros]:
  "keeps logged (noteAgentActivity env i d)" "keeps logged (agentTimerFires env)"
  "keeps logged (note_tasks env msg)" "keeps logged (note_parent env p)"
  unfolding note_parent_def note_tasks_def noteAgentActivity_def agentTimerFires_def
  by (auto split: option.split jsval.split intro!: keeps_intros)

section \<open>What the SDK sends\<close>

lemma plain_prop_input: "json_plain v \<Longrightarrow> js_prop v k = JUndef \<or> json_plain (js_prop v k)"
  by (rule json_plain_prop)

lemma keeps_logged_assistant_block:
  assumes "good_env env" and "json_plain b"
  shows "keeps logged (assistant_block env agent b)"
  unfolding assistant_block_def Let_def
  using assms json_plain_prop [OF assms(2), of "''input''"]
  by (auto split: option.split intro!: keeps_intros)

lemma keeps_logged_tool_result:
  "good_env env \<Longrightarrow> keeps logged (tool_result_block env agent b)"
  unfolding tool_result_block_def by (auto split: option.split intro!: keeps_intros)

lemma plain_message:
  assumes "json_plain msg"
  shows "js_prop (js_prop msg a) k = JUndef \<or> json_plain (js_prop (js_prop msg a) k)"
proof -
  consider "js_prop msg a = JUndef" | "json_plain (js_prop msg a)"
    using json_plain_prop [OF assms] by blast
  then show ?thesis by cases (auto dest: json_plain_prop)
qed

lemma plain_content:
  assumes "json_plain msg" and "x \<in> set (list_of (js_prop (js_prop msg a) k))"
  shows "json_plain x"
  using plain_message [OF assms(1), of a k] assms(2) json_plain_list by auto

lemma keeps_logged_assistant [keeps_intros]:
  assumes "good_env env" and "json_plain msg"
  shows "keeps logged (handle_assistant env agent msg)"
proof -
  let ?u = "js_prop (js_prop msg ''message'') ''usage''"
  have u: "keeps logged (set_state (s_lastCallUsage_update (\<lambda>_. Some ?u)))" if "js_truthy ?u"
  proof (rule keeps_set_state)
    have "json_plain ?u" using plain_message [OF assms(2), of "''message''" "''usage''"] that by auto
    then show "logged (s_lastCallUsage_update (\<lambda>_. Some ?u) s)" if "logged s" for s
      using that by (simp add: logged_def)
  qed
  have blocks: "keeps logged (seqs (map (assistant_block env agent) (list_of (js_prop (js_prop msg ''message'') ''content''))))"
    using plain_content [OF assms(2)] by (intro keeps_map keeps_logged_assistant_block [OF assms(1)])
  show ?thesis
    unfolding handle_assistant_def Let_def using u blocks
    by (intro keeps_Cons keeps_Nil) (auto intro!: keeps_intros)
qed

lemma keeps_logged_user [keeps_intros]: "good_env env \<Longrightarrow> keeps logged (handle_user env agent msg)"
  unfolding handle_user_def by (intro keeps_map keeps_logged_tool_result)

lemma keeps_logged_small [keeps_intros]:
  "keeps logged (handle_system msg)" "keeps logged (handle_stream agent msg)"
  "keeps logged (handle_rate_limit msg)"
  unfolding handle_system_def handle_stream_def handle_rate_limit_def Let_def
  by (auto split: jsval.split intro!: keeps_intros)

section \<open>The numbers of a result\<close>

lemma plain_num_of: "v = JUndef \<or> json_plain v \<Longrightarrow> num_plain (num_of v)"
  using num_plain_of_int [of 0] by (cases v) (auto simp: num_of_def)

lemma plain_opt_num: "v = JUndef \<or> json_plain v \<Longrightarrow> pred_option num_plain (opt_num v)"
  by (cases v) (auto simp: opt_num_def)

lemma plain_nonzero: "num_plain n \<Longrightarrow> pred_option num_plain (nonzero n)"
  by (simp add: nonzero_def)

lemma plain_usage_sum: "json_plain u \<Longrightarrow> num_plain (usage_sum ks u)"
  using num_plain_of_int [of 0]
  by (induction ks) (auto simp: usage_sum_def intro!: num_plain_add plain_num_of json_plain_prop)

lemma plain_values: "json_plain v \<Longrightarrow> e \<in> set (values_of v) \<Longrightarrow> json_plain e"
  by (cases v) (auto simp: values_of_def)

lemma plain_context_window:
  assumes "json_plain msg"
  shows "pred_option num_plain (context_window msg)"
proof -
  let ?f = "\<lambda>acc e. case js_prop e ''contextWindow'' of
      JNum n \<Rightarrow> Some (max (case acc of None \<Rightarrow> 0 | Some a \<Rightarrow> a) n) | _ \<Rightarrow> acc"
  have step: "pred_option num_plain (?f acc e)" if "pred_option num_plain acc" "json_plain e" for acc e
    using that json_plain_prop [OF that(2), of "''contextWindow''"] num_plain_of_int [of 0]
    by (auto simp: max_def split: jsval.split option.split)
  have "pred_option num_plain acc \<Longrightarrow> (\<And>e. e \<in> set es \<Longrightarrow> json_plain e) \<Longrightarrow>
      pred_option num_plain (foldl ?f acc es)" for acc es
  proof (induction es arbitrary: acc)
    case (Cons e es)
    have "pred_option num_plain (?f acc e)" using Cons.prems by (intro step) auto
    from Cons.IH [OF this] Cons.prems(2) show ?case by simp
  qed simp
  moreover have "e \<in> set (values_of (js_prop msg ''modelUsage'')) \<Longrightarrow> json_plain e" for e
    using json_plain_prop [OF assms, of "''modelUsage''"] plain_values by (auto simp: values_of_def)
  ultimately show ?thesis unfolding context_window_def by simp
qed

lemma plain_bind_nonzero: "pred_option num_plain x \<Longrightarrow> pred_option num_plain (Option.bind x nonzero)"
  by (cases x) (auto simp: plain_nonzero)

lemma result_event_plain:
  assumes "json_plain msg" and "case u of None \<Rightarrow> True | Some v \<Rightarrow> json_plain v"
  shows "event_plain (result_event msg u)"
proof -
  note p = json_plain_prop [OF assms(1)]
  have usage: "js_truthy (js_prop msg ''usage'') \<Longrightarrow> json_plain (js_prop msg ''usage'')"
    using p [of "''usage''"] by auto
  have ctx: "js_truthy c \<Longrightarrow> json_plain c" if "c = (case u of Some v \<Rightarrow> v | None \<Rightarrow> js_prop msg ''usage'')" for c
    using that assms(2) usage by (auto split: option.splits)
  show ?thesis
    unfolding result_event_def Let_def event_plain.simps
    using p plain_context_window [OF assms(1)] usage ctx [OF refl]
    by (auto intro!: plain_opt_num plain_nonzero plain_usage_sum plain_bind_nonzero)
qed

lemma keeps_logged_result [keeps_intros]:
  assumes "good_env env" and "json_plain msg"
  shows "keeps logged (handle_result env msg)"
proof -
  have r: "keeps logged (reading s_lastCallUsage (\<lambda>u. appendEvent env (result_event msg u)))"
  proof (rule keepsI)
    fix s assume s: "logged s"
    then have "event_plain (result_event msg (s_lastCallUsage s))"
      by (intro result_event_plain [OF assms(2)]) (simp add: logged_def)
    from keepsD [OF keeps_logged_appendEvent [OF assms(1) this] s]
    show "logged (fst (reading s_lastCallUsage (\<lambda>u. appendEvent env (result_event msg u)) s))"
      by (simp add: reading_def)
  qed
  have f: "keeps logged (setup_failure env w)" "keeps logged (finish_turn env b)" for w b
    unfolding setup_failure_def finish_turn_def
    using assms(1) by (auto split: option.split intro!: keeps_intros)
  show ?thesis
    unfolding handle_result_def judge_result_def Let_def
    using assms(1) r f
    by (intro keeps_Cons keeps_Nil) (auto split: option.split intro!: keeps_intros)
qed

lemma keeps_logged_message [keeps_intros]:
  assumes "good_env env" and "json_plain msg"
  shows "keeps logged (handleSdkMessage env msg)"
  unfolding handleSdkMessage_def dispatch_def Let_def
  using assms by (auto split: jsval.split intro!: keeps_intros)

lemma logged_finally [simp]: "logged (consume_finally q s) = logged s"
  by (simp add: consume_finally_def logged_def)

lemma keeps_logged_consume_throw [keeps_intros]:
  assumes "good_env env"
  shows "keeps logged (consume_throw env q m)"
proof -
  have "keeps logged (when_do (current_query q) (consume_caught env m))"
    unfolding consume_caught_def using assms by (auto intro!: keeps_intros)
  then show ?thesis by (auto simp: keeps_def consume_throw_def split: prod.split)
qed

lemma keeps_logged_consume [keeps_intros]:
  assumes "good_env env"
  shows "json_plain msg \<Longrightarrow> keeps logged (consume_message env q msg)"
    and "keeps logged (consume_end env q)"
proof -
  show "keeps logged (consume_message env q msg)" if "json_plain msg"
    using keeps_logged_message [OF assms that] keeps_logged_consume_throw [OF assms, of q]
    by (auto simp: keeps_def consume_message_def split: prod.split outcome.split)
  have "keeps logged (when_do (current_query q) (setStatus env Idle None))"
    using assms by (intro keeps_intros)
  then show "keeps logged (consume_end env q)"
    using keeps_logged_consume_throw [OF assms, of q]
    by (auto simp: keeps_def consume_end_def split: prod.split outcome.split)
qed

lemma run_method_logged:
  assumes "good_env env" and "plain_method c"
  shows "keeps logged (run_method c env)"
  using assms by (cases c) (simp_all add: keeps_intros)

section \<open>Reachable sessions\<close>

text \<open>The log a session is opened on: complete lines, numbered.\<close>

definition sound_log :: "string \<Rightarrow> log_dir \<Rightarrow> bool" where
  "sound_log i dir =
     (terminated (map_of dir (activeLogPath i))
      \<and> numbered (log_events parse_event dir (allLogFiles i dir)))"

lemma session_open_logged:
  assumes "sound_log (mt_id m) dir"
  shows "logged (session_open ren m dir fl)"
proof -
  have "terminated (map_of dir (activeLogPath (mt_id m)))" using assms by (simp add: sound_log_def)
  from transcript_open_ok [OF this, of ren] assms show ?thesis
    by (simp add: logged_def session_open_def sound_log_def)
qed

lemma logged_steps: "session_step\<^sup>*\<^sup>* s s' \<Longrightarrow> logged s \<Longrightarrow> logged s'"
  by (induction rule: rtranclp_induct) (auto intro: step_keeps [OF run_method_logged])

text \<open>A transcript opened again on the files of another one shows the same chat.\<close>

lemma reopened_transcript:
  assumes "transcript_ok t"
  shows "transcript_events (transcript_open ren (tr_id t) (tr_dir t)) = transcript_events t"
    and "tr_tail (transcript_open ren (tr_id t) (tr_dir t)) = tr_tail t"
    and "tr_total (transcript_open ren (tr_id t) (tr_dir t)) = tr_total t"
proof -
  let ?t = "transcript_open ren (tr_id t) (tr_dir t)"
  have "terminated (map_of (tr_dir t) (activeLogPath (tr_id t)))"
    using assms by (simp add: transcript_ok_def)
  note o = transcript_open_ok [OF this, of ren]
  show ev: "transcript_events ?t = transcript_events t" using o(2) by (simp add: transcript_events_def)
  show "tr_tail ?t = tr_tail t" "tr_total ?t = tr_total t"
    using o(1) assms ev by (simp_all add: transcript_ok_def)
qed

end
