(* ===== verification/SessionProps.thy ===== *)
theory SessionProps
  imports SessionLog
begin

text \<open>
  What the methods of a session guarantee: how often a failing turn is retried, when each
  permission is settled, which messages of which query count, and what a repeated message does.
\<close>

section \<open>Parking is bounded\<close>

lemma wp_host_calls_any: "good_env env \<Longrightarrow> wp (host_calls env r) (\<lambda>_. True) s"
proof -
  assume g: "good_env env"
  then have w: "writes_ok env" by (simp add: good_env_def)
  have d: "wp (disposeActiveQuery env) (\<lambda>_. True) s" for s by (rule wp_spares [OF spares_dispose]) simp
  have p: "wp (parkForAccountSwitch env t a rs) (\<lambda>_. True) s" for t a rs s
    unfolding parkForAccountSwitch_def set_pending_def persistPending_def scheduleRetry_def
    by (auto simp: wp_simps split: option.split intro!: wp_appendEvent [OF w])
  show "wp (host_calls env r) (\<lambda>_. True) s"
    unfolding host_calls_def
    by (auto simp: wp_simps wp_Nil_fun split: option.split intro!: wp_mono [OF p] d)
qed

lemma wp_giveUp:
  assumes "good_env env"
  shows "wp (giveUp env c) (\<lambda>s'. s_pending s' = None \<and> s_retries s' = 0 \<and> s_file s' = None) s"
proof -
  have w: "writes_ok env" using assms by (simp add: good_env_def)
  show ?thesis
    unfolding giveUp_def set_pending_def clearPersistedPending_def stopStatusWatch_def
    by (auto simp: wp_simps intro!: wp_appendEvent [OF w])
qed

definition parked_turn :: "nat \<Rightarrow> session \<Rightarrow> bool" where
  "parked_turn n s =
     (s_retries s = n
      \<and> (case s_pending s of
           None \<Rightarrow> False
         | Some p \<Rightarrow> pt_attempts p = n \<and> s_retryTimer s \<noteq> None \<and> s_file s = Some (stringify (pending_json p))))"

definition parked_at :: "nat \<Rightarrow> time_ms \<Rightarrow> session \<Rightarrow> bool" where
  "parked_at n t s =
     (parked_turn n s
      \<and> (case s_pending s of None \<Rightarrow> False | Some p \<Rightarrow> pt_retryAt p = t)
      \<and> (\<exists>d. s_retryTimer s = Some d \<and> t \<le> d))"

lemma wp_parkTurn_at:
  assumes "good_env env"
  shows "wp (parkTurn env w c n d) (parked_at n (rp_retryAt d)) s"
proof -
  have wr: "writes_ok env" and e: "e_persists env" using assms by (simp_all add: good_env_def)
  let ?rest = "[(if c = Stall_cause \<or> c = Launch_cause then disposeActiveQuery env else skip)]"
  have r: "wp (seqs ?rest) (\<lambda>_. True) s" for s
    by (auto simp: wp_skip intro: wp_spares [OF spares_dispose])
  have "wp (seqs ([host_calls env d] @ ?rest)) (\<lambda>_. True) s"
    by (rule wp_append [of _ "\<lambda>_. True"]) (use wp_host_calls_any [OF assms] r in simp_all)
  moreover have "wp (seqs
       [set_state (s_retries_update (\<lambda>_. n)),
        set_pending (Some \<lparr>pt_retryAt = rp_retryAt d, pt_attempts = n, pt_text = w\<rparr>),
        persistPending env,
        appendEvent env (status_event Status_error
          (limitNotice (rp_switchedTo d) (rp_why d) (iso_string (rp_retryAt d)))),
        scheduleRetry env,
        (if c = Overload_cause then watchStatusPage else skip)]) (parked_at n (rp_retryAt d)) s'" for s'
    unfolding set_pending_def persistPending_def scheduleRetry_def watchStatusPage_def pollStatusPage_def
      stopStatusWatch_def
    using e by (auto simp: wp_simps parked_turn_def parked_at_def intro!: wp_appendEvent [OF wr])
  ultimately have "wp (seqs (([host_calls env d] @ ?rest) @
       [set_state (s_retries_update (\<lambda>_. n)),
        set_pending (Some \<lparr>pt_retryAt = rp_retryAt d, pt_attempts = n, pt_text = w\<rparr>),
        persistPending env,
        appendEvent env (status_event Status_error
          (limitNotice (rp_switchedTo d) (rp_why d) (iso_string (rp_retryAt d)))),
        scheduleRetry env,
        (if c = Overload_cause then watchStatusPage else skip)])) (parked_at n (rp_retryAt d)) s"
    by (rule wp_append)
  then show ?thesis by (simp only: parkTurn_def append.simps)
qed

lemma wp_parkTurn: "good_env env \<Longrightarrow> wp (parkTurn env w c n d) (parked_turn n) s"
  using wp_parkTurn_at by (rule wp_mono) (simp_all add: parked_at_def)

lemma wp_parkForLimit:
  assumes "good_env env"
  shows "wp (parkForLimit env w c)
    (\<lambda>s'. if max_attempts c \<le> s_retries s then s_pending s' = None \<and> s_retries s' = 0 \<and> s_file s' = None
          else parked_turn (Suc (s_retries s)) s') s"
proof (cases "max_attempts c < Suc (s_retries s)")
  case True
  then show ?thesis
    using wp_giveUp [OF assms] by (simp add: parkForLimit_def wp_reading)
next
  case False
  then have m: "\<not> max_attempts c \<le> s_retries s" by simp
  show ?thesis
    using m wp_parkTurn [OF assms]
    by (cases c) (simp_all add: parkForLimit_def wp_reading Let_def wp_Cons wp_emit wp_Nil_fun)
qed

lemma sendMessage_retries:
  assumes "s_pending s = None"
  shows "s_retries (fst (sendMessage env w atts cid s)) = s_retries s"
proof -
  define J where "J = (\<lambda>s'::session. s_pending s' = None \<and> s_retries s' = s_retries s)"
  have state: "keeps J (set_state f)"
    if "\<And>s'. s_pending (f s') = s_pending s' \<and> s_retries (f s') = s_retries s'" for f
    using that by (intro keeps_set_state) (simp add: J_def)
  have emitJ: "keeps J (emit e)" for e unfolding emit_def by (rule state) simp
  have metaJ: "keeps J (on_meta f)" for f unfolding on_meta_def by (rule state) simp
  have note_: "keeps J (note_user_message u r)" for u r
    unfolding note_user_message_def by (intro keeps_intros emitJ metaJ state) simp
  have "keeps J (write_event env ev)" for ev
    by (rule keepsI) (auto simp: write_event_def emit_def set_state_def J_def split: prod.split sum.split)
  then have app: "keeps J (appendEvent env ev)" for ev
    unfolding appendEvent_def by (auto split: chat_event.split intro!: keeps_Cons keeps_Nil note_)
  have setS: "keeps J (setStatus env st d)" for st d
    unfolding setStatus_def by (intro keeps_intros state app) simp
  have cancel: "keeps J (when_do (\<lambda>s. s_pending s \<noteq> None) p)" for p
    by (rule keepsI) (auto simp: J_def when_do_def if_do_def skip_def)
  have cwd: "keeps J (workingDirectory env)"
    unfolding workingDirectory_def by (auto intro!: keeps_intros state app)
  have query: "keeps J (ensureQuery env)"
    unfolding ensureQuery_def by (auto intro!: keeps_intros state app setS cwd emitJ metaJ)
  have push: "keeps J (push_input v)" for v
    unfolding push_input_def by (auto split: prod.split option.split intro!: keeps_intros state emitJ)
  have arm: "keeps J (armStallWatchdog env)"
    unfolding armStallWatchdog_def clearStallWatchdog_def by (intro keeps_intros state) simp_all
  have "keeps J (sendMessage env w atts cid)"
    unfolding sendMessage_def
    by (intro keeps_when_do keeps_Cons keeps_Nil app cancel query keeps_reading push setS arm)
  then show ?thesis using assms keepsD [of J _ s] by (simp add: J_def)
qed

lemma host_calls_parked_retries:
  assumes "s_pending s \<noteq> None"
  shows "wp (host_calls env r) (\<lambda>s'. s_retries s' = s_retries s) s"
proof -
  obtain p where p: "s_pending s = Some p" using assms by auto
  have "wp (disposeActiveQuery env) (\<lambda>s'. s_retries s' = s_retries s) s"
    unfolding disposeActiveQuery_def publishAgents_def close_input_def close_query_def
    by (simp add: wp_simps Let_def split: option.split)
  with p show ?thesis
    by (auto simp: host_calls_def parkForAccountSwitch_def wp_simps wp_Nil_fun split: option.split)
qed

lemma retry_keeps_retries: "s_retries (fst (retryTimerFires env s)) = s_retries s"
proof -
  have "s_retries (fst (runPendingRetry env s)) = s_retries s" for s
  proof (cases "s_pending s = None")
    case True
    then show ?thesis by (simp add: runPendingRetry_def when_do_def if_do_def skip_def)
  next
    case False
    let ?pre = "[stopStatusWatch, set_state (s_namedIncident_update (\<lambda>_. None)), emit Retry_announced,
       host_calls env (e_beforeRetry env), set_pending None, clearPersistedPending]"
    have "wp (seqs ?pre) (\<lambda>s'. s_pending s' = None \<and> s_retries s' = s_retries s) s"
      unfolding stopStatusWatch_def set_pending_def clearPersistedPending_def
      using False by (auto simp: wp_simps intro!: wp_mono [OF host_calls_parked_retries])
    then obtain s' where "seqs ?pre s = (s', Done)" "s_pending s' = None" "s_retries s' = s_retries s"
      by (cases "seqs ?pre s") (simp add: wp_def)
    with False sendMessage_retries [of s'] show ?thesis
      using seqs_last [of ?pre s s' "sendMessage env RESUME_MESSAGE [] None"]
      by (simp add: runPendingRetry_def when_do_def if_do_def)
  qed
  then show ?thesis
    by (simp add: retryTimerFires_def when_do_def if_do_def skip_def clearRetryTimer_def seqs_set_state)
qed

text \<open>
  Rounds of a turn that keeps failing: the timer fires, "restart and continue" is sent, and the
  turn fails again for the same cause.
\<close>

definition failing_round :: "park_cause \<Rightarrow> env \<times> env \<times> string \<Rightarrow> session \<Rightarrow> session" where
  "failing_round c = (\<lambda>(env, env', w) s. fst (parkForLimit env' w c (fst (retryTimerFires env s))))"

definition failing_rounds :: "park_cause \<Rightarrow> (env \<times> env \<times> string) list \<Rightarrow> session \<Rightarrow> session" where
  "failing_rounds c rs s = foldl (\<lambda>s r. failing_round c r s) s rs"

lemma failing_round_spec:
  assumes "good_env (fst (snd r))"
  shows "if max_attempts c \<le> s_retries s
    then s_pending (failing_round c r s) = None \<and> s_retries (failing_round c r s) = 0
           \<and> s_file (failing_round c r s) = None
    else parked_turn (Suc (s_retries s)) (failing_round c r s)"
proof -
  obtain env env' w where r: "r = (env, env', w)" by (cases r)
  let ?s = "fst (retryTimerFires env s)"
  have "good_env env'" using assms r by simp
  from wp_parkForLimit [OF this, of w c ?s] show ?thesis
    unfolding r failing_round_def prod.case retry_keeps_retries wp_def by auto
qed

lemma failing_rounds_spec:
  assumes "list_all (\<lambda>r. good_env (fst (snd r))) rs" and "s_retries s + length rs \<le> max_attempts c"
  shows "s_retries (failing_rounds c rs s) = s_retries s + length rs"
  using assms
proof (induction rs arbitrary: s)
  case (Cons r rs)
  have "s_retries (failing_round c r s) = Suc (s_retries s)"
    using failing_round_spec [of r c s] Cons.prems by (simp add: parked_turn_def)
  with Cons.IH [of "failing_round c r s"] Cons.prems show ?case by (simp add: failing_rounds_def)
qed (simp add: failing_rounds_def)


lemma failing_rounds_parked:
  assumes "list_all (\<lambda>r. good_env (fst (snd r))) rs" and "rs \<noteq> []" and "s_retries s = 0"
    and "length rs \<le> max_attempts c"
  shows "parked_turn (length rs) (failing_rounds c rs s)"
proof -
  obtain qs q where rs: "rs = qs @ [q]" using assms(2) by (cases rs rule: rev_cases) auto
  have n: "s_retries (failing_rounds c qs s) = length qs"
    using failing_rounds_spec [of qs s c] assms rs by simp
  have "good_env (fst (snd q))" using assms(1) rs by simp
  from failing_round_spec [OF this, of c "failing_rounds c qs s"] n assms(4) show ?thesis
    by (simp add: failing_rounds_def rs)
qed

text \<open>One round more than allowed, and the turn is given up.\<close>

lemma failing_rounds_give_up:
  assumes "list_all (\<lambda>r. good_env (fst (snd r))) rs" and "length rs = Suc (max_attempts c)"
    and "s_retries s = 0"
  shows "s_pending (failing_rounds c rs s) = None" and "s_file (failing_rounds c rs s) = None"
    and "s_retries (failing_rounds c rs s) = 0"
proof -
  obtain qs q where rs: "rs = qs @ [q]" using assms(2) by (cases rs rule: rev_cases) auto
  have n: "s_retries (failing_rounds c qs s) = max_attempts c"
    using failing_rounds_spec [of qs s c] assms rs by simp
  have r: "failing_rounds c rs s = failing_round c q (failing_rounds c qs s)"
    by (simp add: failing_rounds_def rs)
  have "good_env (fst (snd q))" using assms(1) rs by simp
  from failing_round_spec [OF this, of c "failing_rounds c qs s"] n r
  show "s_pending (failing_rounds c rs s) = None" "s_file (failing_rounds c rs s) = None"
    "s_retries (failing_rounds c rs s) = 0" by simp_all
qed

section \<open>Permissions\<close>

fun settles :: "effect \<Rightarrow> bool" where
  "settles (Permission_settled rid v) = True"
| "settles _ = False"

text \<open>The answers given so far, the oldest first.\<close>

definition settled :: "session \<Rightarrow> effect list" where
  "settled s = filter settles (s_trace s)"

lemma settled_sent [simp]: "settled (with_log t m (s_trace s @ [Event_sent v]) s) = settled s"
  by (simp add: settled_def)

lemma seqs_emit: "seqs (emit e # ps) s = seqs ps (s_trace_update (\<lambda>t. t @ [e]) s)"
  by (simp add: emit_def seqs_set_state)

lemma appendEvent_settled:
  assumes "writes_ok env" and "\<And>u refs cid. ev \<noteq> User_message u refs cid"
  shows "\<exists>s'. appendEvent env ev s = (s', Done) \<and> s_permissions s' = s_permissions s \<and> settled s' = settled s"
proof -
  have "appendEvent env ev = write_event env ev"
    using assms(2) by (auto simp: appendEvent_def split: chat_event.split)
  then show ?thesis
    using write_event_ok [OF assms(1), of ev s] by (metis settled_sent with_log_simps(11))
qed

lemma resolvePermission_spec:
  assumes "writes_ok env"
  shows "\<exists>s'. resolvePermission env rid allow msg ans s = (s', Done)
    \<and> s_permissions s' = AList.delete rid (s_permissions s)
    \<and> settled s' = settled s @ (case map_of (s_permissions s) rid of
          None \<Rightarrow> [] | Some pm \<Rightarrow> [Permission_settled rid (settle_result pm allow msg ans)])"
proof (cases "map_of (s_permissions s) rid")
  case None
  then have "AList.delete rid (s_permissions s) = s_permissions s"
    by (simp add: delete_id map_of_eq_None_iff)
  with None show ?thesis by (simp add: resolvePermission_def reading_def skip_def)
next
  case (Some pm)
  let ?s = "s_permissions_update (AList.delete rid) s"
  obtain s' where s': "appendEvent env (Permission_resolved rid allow ans) ?s = (s', Done)"
    "s_permissions s' = s_permissions ?s" "settled s' = settled ?s"
    using appendEvent_settled [OF assms, of "Permission_resolved rid allow ans" ?s] by auto
  with Some show ?thesis
    by (simp add: resolvePermission_def reading_def seqs_set_state seqs_done)
       (simp add: emit_def set_state_def settled_def)
qed

lemma resolvePermission_again:
  assumes "map_of (s_permissions s) rid = None"
  shows "resolvePermission env rid allow msg ans s = (s, Done)"
  using assms by (simp add: resolvePermission_def reading_def skip_def)

text \<open>Bypass grants the tool requests that wait, in order, and leaves the questions.\<close>

lemma grant_all:
  assumes "writes_ok env" and "distinct (map fst (qs @ ps))" and "s_permissions s = qs @ ps"
  shows "\<exists>s'. seqs (map (\<lambda>(rid, pm). if pm_isQuestion pm then skip
                                    else resolvePermission env rid True None None) ps) s = (s', Done)
    \<and> s_permissions s' = qs @ filter (\<lambda>(rid, pm). pm_isQuestion pm) ps
    \<and> settled s' = settled s @ map (\<lambda>(rid, pm). Permission_settled rid (settle_result pm True None None))
                                 (filter (\<lambda>(rid, pm). \<not> pm_isQuestion pm) ps)"
  using assms(2,3)
proof (induction ps arbitrary: qs s)
  case (Cons p ps)
  obtain rid pm where p: "p = (rid, pm)" by (cases p)
  show ?case
  proof (cases "pm_isQuestion pm")
    case True
    have "skip s = (s, Done)" by (simp add: skip_def)
    then show ?thesis using Cons.IH [of "qs @ [p]" s] Cons.prems p True by (simp add: seqs_done)
  next
    case False
    from Cons.prems p have d: "rid \<notin> fst ` set qs" "rid \<notin> fst ` set ps" by auto
    then have m: "map_of (s_permissions s) rid = Some pm"
      using Cons.prems(2) p map_of_eq_None_iff [of qs rid] by (simp add: map_add_def)
    have del: "AList.delete rid (s_permissions s) = qs @ ps"
      using d Cons.prems(2) p delete_id [of rid qs] delete_id [of rid ps] by (simp add: AList.delete_eq)
    obtain s1 where s1: "resolvePermission env rid True None None s = (s1, Done)"
      "s_permissions s1 = qs @ ps"
      "settled s1 = settled s @ [Permission_settled rid (settle_result pm True None None)]"
      using resolvePermission_spec [OF assms(1), of rid True None None s] m del by auto
    then show ?thesis using Cons.IH [of qs s1] Cons.prems p False by (simp add: seqs_done)
  qed
qed simp

lemma setPermissionMode_bypass:
  fixes failed :: "string option"
  assumes "writes_ok env" and "distinct (map fst (s_permissions s))"
  defines "s' \<equiv> fst (setPermissionMode env Bypass_permissions failed s)"
  shows "s_permissions s' = filter (\<lambda>(rid, pm). pm_isQuestion pm) (s_permissions s)"
    and "settled s' = settled s @ map (\<lambda>(rid, pm). Permission_settled rid (settle_result pm True None None))
                                 (filter (\<lambda>(rid, pm). \<not> pm_isQuestion pm) (s_permissions s))"
proof -
  let ?s = "s_trace_update (\<lambda>t. t @ [Meta_changed]) (s_meta_update (mt_permissionMode_update (\<lambda>_. Some Bypass_permissions)) s)"
  have s0: "settled ?s = settled s" by (simp add: settled_def)
  obtain s1 where s1: "seqs (map (\<lambda>(rid, pm). if pm_isQuestion pm then skip
                                    else resolvePermission env rid True None None) (s_permissions s)) ?s = (s1, Done)"
    "s_permissions s1 = filter (\<lambda>(rid, pm). pm_isQuestion pm) (s_permissions s)"
    "settled s1 = settled s @ map (\<lambda>(rid, pm). Permission_settled rid (settle_result pm True None None))
                                 (filter (\<lambda>(rid, pm). \<not> pm_isQuestion pm) (s_permissions s))"
    using grant_all [OF assms(1), of "[]" "s_permissions s" ?s] assms(2) s0 by auto
  have "\<exists>s2. (case s_query s1 of None \<Rightarrow> skip | Some n \<Rightarrow>
        seqs [emit (Mode_applied n Bypass_permissions),
              (case failed of None \<Rightarrow> skip | Some m \<Rightarrow> reading s_status (\<lambda>st. appendEvent env
                 (status_event st (''Could not switch permission mode: '' @ m))))]) s1 = (s2, Done)
      \<and> s_permissions s2 = s_permissions s1 \<and> settled s2 = settled s1"
  proof (cases "s_query s1")
    case (Some n)
    let ?s1 = "s_trace_update (\<lambda>t. t @ [Mode_applied n Bypass_permissions]) s1"
    have "settled ?s1 = settled s1" by (simp add: settled_def)
    with Some show ?thesis
      using appendEvent_settled [OF assms(1), of "status_event (s_status s1) d" ?s1 for d]
      by (cases failed) (auto simp: seqs_emit skip_def reading_def status_event_def)
  qed (simp add: skip_def)
  then have "\<exists>s2. setPermissionMode env Bypass_permissions failed s = (s2, Done)
      \<and> s_permissions s2 = s_permissions s1 \<and> settled s2 = settled s1"
    using s1(1) by (simp add: setPermissionMode_def on_meta_def seqs_emit seqs_set_state seqs_done reading_def)
  then show "s_permissions s' = filter (\<lambda>(rid, pm). pm_isQuestion pm) (s_permissions s)"
    "settled s' = settled s @ map (\<lambda>(rid, pm). Permission_settled rid (settle_result pm True None None))
                                 (filter (\<lambda>(rid, pm). \<not> pm_isQuestion pm) (s_permissions s))"
    using s1(2,3) by (auto simp: s'_def)
qed

section \<open>Queries and repeated messages\<close>

lemma stale_query:
  assumes "s_query s \<noteq> Some q"
  shows "consume_message env q msg s = (s, Done)" and "consume_throw env q m s = (s, Done)"
    and "consume_end env q s = (s, Done)"
  using assms
  by (simp_all add: consume_message_def consume_throw_def consume_end_def consume_finally_def
      current_query_def when_do_def if_do_def skip_def)

lemma sendMessage_duplicate: "\<not> accepts cid s \<Longrightarrow> sendMessage env w atts cid s = (s, Done)"
  by (simp add: sendMessage_def when_do_def if_do_def skip_def)

section \<open>What a result does\<close>

lemma wp_finish_turn:
  assumes "writes_ok env"
  shows "wp (finish_turn env False) (\<lambda>s'. s_status s' = Idle \<and> s_pending s' = None) s"
  unfolding finish_turn_def setStatus_def set_pending_def clearPersistedPending_def clearRetryTimer_def
  by (auto simp: wp_simps intro!: wp_appendEvent [OF assms])

lemma judge_long_result:
  assumes "MAX_NOTICE_LENGTH < length (trim w)" and "writes_ok env"
  shows "snd (judge_result env w False s) = Done
    \<and> s_status (fst (judge_result env w False s)) = Idle
    \<and> s_pending (fst (judge_result env w False s)) = None"
proof -
  have "judge_result env w False = finish_turn env False"
    using long_text_no_notice [OF assms(1)] by (simp add: judge_result_def notice_defs)
  then show ?thesis using wp_finish_turn [OF assms(2), of s] by (simp add: wp_def)
qed

end
