(* ===== verification/Json_Pretty.thy ===== *)
theory Json_Pretty
  imports Json_Facts
begin

text \<open>
  \<open>JSON.stringify(v, null, 2)\<close>: the same values with a line per member, indented by two
  spaces a level, as the session registry and the shared set-up write their files.
  \<open>pretty_roundtrip\<close> shows that parsing gives the value back.
\<close>

section \<open>Printing\<close>

definition indent :: "nat \<Rightarrow> string" where
  "indent k = newline # replicate (2 * k) (CHR '' '')"

function pretty :: "nat \<Rightarrow> jsval \<Rightarrow> string" and pretty_elems :: "nat \<Rightarrow> jsval list \<Rightarrow> string list"
  and pretty_members :: "nat \<Rightarrow> (string \<times> jsval) list \<Rightarrow> string list" where
  "pretty k JUndef = ''null''"
| "pretty k JNull = ''null''"
| "pretty k (JBool b) = (if b then ''true'' else ''false'')"
| "pretty k (JNum n) = show_num n"
| "pretty k JNaN = ''null''"
| "pretty k (JInf p) = ''null''"
| "pretty k (JStr s) = quote s"
| "pretty k (JArr vs) =
     (if vs = [] then ''[]''
      else ''['' @ indent (Suc k) @ join (CHR '','' # indent (Suc k)) (pretty_elems (Suc k) vs)
           @ indent k @ '']'')"
| "pretty k (JObj fs) =
     (if pretty_members (Suc k) fs = [] then ''{}''
      else ''{'' @ indent (Suc k) @ join (CHR '','' # indent (Suc k)) (pretty_members (Suc k) fs)
           @ indent k @ ''}'')"
| "pretty_elems k [] = []"
| "pretty_elems k (v # vs) = pretty k v # pretty_elems k vs"
| "pretty_members k [] = []"
| "pretty_members k ((n, v) # fs) =
     (if v = JUndef then pretty_members k fs
      else (quote n @ '': '' @ pretty k v) # pretty_members k fs)"
  by pat_completeness auto
termination
  by (relation "measure (case_sum (size \<circ> snd) (case_sum (size_list size \<circ> snd) (size_list (\<lambda>kv. size (snd kv)) \<circ> snd)))")
     (auto simp: le_imp_less_Suc size_list_member)

section \<open>Parsing skips the indentation\<close>

definition blank :: "string \<Rightarrow> bool" where
  "blank w = list_all json_ws w"

lemma blank_indent [simp]: "blank (indent k)" "blank '' ''"
  by (simp_all add: blank_def indent_def newline_def json_ws_def list_all_iff)

lemma skip_ws_blank: "blank w \<Longrightarrow> skip_ws (w @ s) = skip_ws s"
  by (induction w) (auto simp: blank_def skip_ws_def)

lemma p_value_blank: "blank w \<Longrightarrow> p_value n (w @ s) = p_value n s"
  by (cases n) (simp_all add: skip_ws_blank)

lemma p_elems_blank: "blank w \<Longrightarrow> p_elems n (w @ s) = p_elems n s"
  by (cases n) (simp_all add: p_value_blank)

lemma p_members_blank: "blank w \<Longrightarrow> p_members n (w @ s) = p_members n s"
  by (cases n) (simp_all add: skip_ws_blank)

lemma indent_Cons: "indent k @ s = newline # replicate (2 * k) (CHR '' '') @ s"
  by (simp add: indent_def)

lemma num_end_indent [simp]: "num_end (indent k @ s)"
  by (simp add: num_end_def indent_def newline_def is_digit_def)

lemma indent_end [simp]: "num_end (indent k)" "indent k \<noteq> []"
  using num_end_indent [of k "[]"] by (simp_all add: indent_def)

lemma length_indent [simp]: "length (indent k) = Suc (2 * k)"
  by (simp add: indent_def)

lemma pretty_head: "\<exists>c cs. pretty k v = c # cs \<and> value_head c"
proof (cases v)
  case (JNum n)
  then show ?thesis using stringify_head [of v] by simp
next
  case (JStr s)
  then show ?thesis using stringify_head [of v] by simp
qed (auto simp: value_head_def json_ws_def is_space_def)

lemma pretty_not_Nil [simp]: "pretty k v \<noteq> []"
  using pretty_head [of k v] by auto

lemma pretty_elems_Nil [simp]: "pretty_elems k vs = [] \<longleftrightarrow> vs = []"
  by (cases vs) simp_all

lemma p_elems_last_line:
  assumes "p_value n (s @ w @ CHR '']'' # r) = Some (v, w @ CHR '']'' # r)" and "blank w"
  shows "p_elems (Suc n) (s @ w @ CHR '']'' # r) = Some ([v], r)"
  using assms by (simp add: skip_ws_blank)

lemma p_elems_next_line:
  assumes "p_value n (s @ CHR '','' # t) = Some (v, CHR '','' # t)" and "p_elems n t = Some (vs, r)"
  shows "p_elems (Suc n) (s @ CHR '','' # t) = Some (v # vs, r)"
  using assms by simp

lemma p_members_line:
  assumes "p_value n (s @ w @ e # t) = Some (v, w @ e # t)" and "blank w" and "\<not> json_ws e"
  shows "p_members (Suc n) (quote k @ '': '' @ s @ w @ e # t) =
    (if e = CHR '','' then map_option (\<lambda>(fs, u). ((k, v) # fs, u)) (p_members n t)
     else if e = CHR ''}'' then Some ([(k, v)], t) else None)"
proof -
  have "p_value n (CHR '' '' # s @ w @ e # t) = Some (v, w @ e # t)"
    using p_value_blank [of "'' ''" n "s @ w @ e # t"] assms(1) by simp
  then show ?thesis using assms(2,3) by (simp add: quote_def p_chars_body skip_ws_blank)
qed

lemma parse_pretty:
  "json_plain v \<Longrightarrow> num_end r \<Longrightarrow> length (pretty k v) \<le> n \<Longrightarrow> p_value n (pretty k v @ r) = Some (v, r)"
  "vs \<noteq> [] \<Longrightarrow> list_all json_plain vs \<Longrightarrow> blank w \<Longrightarrow>
     length (join (CHR '','' # indent k) (pretty_elems k vs)) < n \<Longrightarrow> w \<noteq> [] \<Longrightarrow> num_end w \<Longrightarrow>
     p_elems n (join (CHR '','' # indent k) (pretty_elems k vs) @ w @ CHR '']'' # r) = Some (vs, r)"
  "fs \<noteq> [] \<Longrightarrow> list_all (\<lambda>kv. json_plain (snd kv)) fs \<Longrightarrow> blank w \<Longrightarrow>
     length (join (CHR '','' # indent k) (pretty_members k fs)) < n \<Longrightarrow> w \<noteq> [] \<Longrightarrow> num_end w \<Longrightarrow>
     p_members n (join (CHR '','' # indent k) (pretty_members k fs) @ w @ CHR ''}'' # r) = Some (fs, r)"
proof (induction k v and k vs and k fs arbitrary: n r and n r w and n r w
    rule: pretty_pretty_elems_pretty_members.induct)
  case (2 k)
  then show ?case by (cases n) (simp_all add: dquote_def json_ws_def)
next
  case (3 k b)
  then show ?case by (cases n; cases b) (simp_all add: dquote_def json_ws_def)
next
  case (4 k x)
  have "n \<noteq> 0" using 4(3) pretty_not_Nil [of k "JNum x"] by (cases n) auto
  with 4 show ?case by (simp add: p_value_num)
next
  case (7 k w)
  then have "n \<noteq> 0" using length_quote [of w] by auto
  then show ?case by (simp add: p_value_str)
next
  case (8 k vs)
  from 8(4) obtain m where n: "n = Suc m" by (cases n) (auto split: if_splits)
  show ?case
  proof (cases "vs = []")
    case True
    then show ?thesis using n by (simp add: dquote_def)
  next
    case False
    let ?body = "join (CHR '','' # indent (Suc k)) (pretty_elems (Suc k) vs) @ indent k @ CHR '']'' # r"
    obtain v ws where vs: "vs = v # ws" using False by (cases vs) auto
    obtain c cs where c: "pretty (Suc k) v = c # cs" "value_head c" using pretty_head by blast
    then obtain d where d: "?body = c # d" using vs by (cases ws) simp_all
    have "p_elems m ?body = Some (vs, r)"
      using 8 n False by (intro "8.IH") (auto simp: list_all_iff)
    then have "p_elems m (indent (Suc k) @ ?body) = Some (vs, r)" by (simp add: p_elems_blank)
    moreover have "skip_ws (indent (Suc k) @ ?body) \<noteq> [] \<and> hd (skip_ws (indent (Suc k) @ ?body)) \<noteq> CHR '']''"
      using d c(2) by (simp add: skip_ws_blank value_head_def)
    ultimately show ?thesis using n False by (simp add: dquote_def)
  qed
next
  case (9 k fs)
  from "9.prems"(3) obtain m where n: "n = Suc m" by (cases n) (auto split: if_splits)
  have d: "distinct (map fst fs)" and p: "list_all (\<lambda>kv. json_plain (snd kv)) fs"
    using "9.prems"(1) by (auto simp: list_all_iff)
  show ?case
  proof (cases fs)
    case Nil
    then show ?thesis using n by (simp add: dquote_def)
  next
    case (Cons kv ws)
    obtain x v where kv: "kv = (x, v)" by fastforce
    have v: "v \<noteq> JUndef" using p Cons kv by auto
    let ?body = "join (CHR '','' # indent (Suc k)) (pretty_members (Suc k) fs) @ indent k @ CHR ''}'' # r"
    have ne: "pretty_members (Suc k) fs \<noteq> []" using Cons kv v by simp
    have "\<exists>t. ?body = dquote # t"
      using Cons kv v by (cases "pretty_members (Suc k) ws") (simp_all add: quote_def)
    then obtain t where h: "?body = dquote # t" ..
    have "p_members m ?body = Some (fs, r)"
      using "9.prems" n Cons p ne by (intro "9.IH"(1)) auto
    then have "p_members m (indent (Suc k) @ ?body) = Some (fs, r)" by (simp add: p_members_blank)
    moreover have "skip_ws (indent (Suc k) @ ?body) = ?body" using h by (simp add: skip_ws_blank)
    moreover have "build_object fs = JObj fs" using d by (simp add: build_object_distinct)
    ultimately show ?thesis using n h ne by (simp add: dquote_def)
  qed
next
  case (11 k v vs)
  from 11(6) obtain m where n: "n = Suc m" by (cases n) auto
  show ?case
  proof (cases "vs = []")
    case True
    have "p_value m (pretty k v @ w @ CHR '']'' # r) = Some (v, w @ CHR '']'' # r)"
      using 11 n True by (intro "11.IH"(1)) (auto simp: num_end_def)
    from p_elems_last_line [OF this 11(5)] n True show ?thesis by simp
  next
    case False
    let ?rest = "join (CHR '','' # indent k) (pretty_elems k vs) @ w @ CHR '']'' # r"
    obtain x xs where xs: "pretty_elems k vs = x # xs" using False by (cases vs) auto
    have len: "length (pretty k v) \<le> m" "length (join (CHR '','' # indent k) (pretty_elems k vs)) < m"
      using 11(6) n xs by auto
    have "p_value m (pretty k v @ CHR '','' # indent k @ ?rest) = Some (v, CHR '','' # indent k @ ?rest)"
      using 11 len by (intro "11.IH"(1)) auto
    moreover have "p_elems m (indent k @ ?rest) = Some (vs, r)"
      using 11 len False by (subst p_elems_blank) (auto intro!: "11.IH"(2))
    ultimately show ?thesis
      using p_elems_next_line [of m "pretty k v"] n xs by simp
  qed
next
  case (13 k x v fs)
  have v: "v \<noteq> JUndef" "json_plain v" using 13(5) by (auto dest: plain_not_undef)
  from 13(7) obtain m where n: "n = Suc m" by (cases n) auto
  show ?case
  proof (cases fs)
    case Nil
    have "p_value m (pretty k v @ w @ CHR ''}'' # r) = Some (v, w @ CHR ''}'' # r)"
      using 13 n Nil v by (intro "13.IH"(2)) (auto simp: num_end_def)
    from p_members_line [OF this 13(6)] n Nil v show ?thesis by simp
  next
    case (Cons kw ws)
    obtain k2 u where kw: "kw = (k2, u)" by fastforce
    have u: "u \<noteq> JUndef" using 13(5) Cons kw by (auto dest: plain_not_undef)
    let ?rest = "join (CHR '','' # indent k) (pretty_members k fs) @ w @ CHR ''}'' # r"
    have jn: "join (CHR '','' # indent k) (pretty_members k ((x, v) # fs)) =
        quote x @ '': '' @ pretty k v @ CHR '','' # indent k @ join (CHR '','' # indent k) (pretty_members k fs)"
      using v u Cons kw by simp
    then have len: "length (pretty k v) \<le> m" "length (join (CHR '','' # indent k) (pretty_members k fs)) < m"
      using 13(7) n by auto
    have "p_value m (pretty k v @ [] @ CHR '','' # indent k @ ?rest) = Some (v, [] @ CHR '','' # indent k @ ?rest)"
      using v len "13.IH"(2) [of "CHR '','' # indent k @ ?rest" m] by simp
    from p_members_line [OF this] have "p_members (Suc m) (quote x @ '': '' @ pretty k v @ CHR '','' # indent k @ ?rest) =
        map_option (\<lambda>(fs, u). ((x, v) # fs, u)) (p_members m (indent k @ ?rest))" by (simp add: blank_def)
    moreover have "p_members m (indent k @ ?rest) = Some (fs, r)"
      using 13 v len Cons by (subst p_members_blank) (auto intro!: "13.IH"(3))
    ultimately show ?thesis using n jn by simp
  qed
qed simp_all

theorem pretty_roundtrip: "json_plain v \<Longrightarrow> blank w \<Longrightarrow> num_end w \<Longrightarrow> json_parse (pretty k v @ w) = Some v"
  using parse_pretty(1) [of v w k "Suc (length (pretty k v @ w))"] skip_ws_blank [of w "[]"]
  by (simp add: json_parse_def skip_ws_def)

end
