(* ===== verification/StateFile.thy ===== *)
theory StateFile
  imports Json_Pretty LogStore
begin

text \<open>
  State files that are replaced whole: a temporary file beside the real one is opened, written and
  renamed over it (\<open>registry.ts\<close>, \<open>push.ts\<close>, \<open>sharedSetup.ts\<close>). A directory is the map of
  \<^term>\<open>LogStore.rename_file\<close>. \<open>progress\<close> says how far a replacement came, whether an error or
  the end of the process stopped it there; \<open>replaced\<close> states the promise: the real file holds
  the old bytes or the new ones, whatever the progress.
\<close>

section \<open>Replacing a file\<close>

datatype progress = Not_opened | Wrote nat | Renamed

definition write_file :: "string \<Rightarrow> string \<Rightarrow> log_dir \<Rightarrow> log_dir" where
  "write_file name bytes dir = AList.update name bytes dir"

definition replace_file :: "progress \<Rightarrow> string \<Rightarrow> string \<Rightarrow> string \<Rightarrow> log_dir \<Rightarrow> log_dir" where
  "replace_file p tmp name bytes dir =
     (case p of
        Not_opened \<Rightarrow> dir
      | Wrote n \<Rightarrow> write_file tmp (take n bytes) dir
      | Renamed \<Rightarrow> rename_file tmp name (write_file tmp bytes dir))"

lemma map_of_write_file: "map_of (write_file a b dir) c = (if c = a then Some b else map_of dir c)"
  by (simp add: write_file_def update_conv')

lemma map_of_rename_file:
  "map_of dir a = Some x \<Longrightarrow> a \<noteq> b \<Longrightarrow>
   map_of (rename_file a b dir) c = (if c = b then Some x else if c = a then None else map_of dir c)"
  by (simp add: rename_file_def update_conv' AList.delete_conv')

theorem replaced:
  assumes "tmp \<noteq> name"
  shows "map_of (replace_file p tmp name bytes dir) name = (if p = Renamed then Some bytes else map_of dir name)"
    and "c \<noteq> tmp \<Longrightarrow> c \<noteq> name \<Longrightarrow> map_of (replace_file p tmp name bytes dir) c = map_of dir c"
  using assms
  by (cases p; simp add: replace_file_def map_of_write_file
      map_of_rename_file [of "write_file tmp bytes dir" tmp bytes name])+

section \<open>A state kept in a file\<close>

text \<open>
  What the stores promise of their file format: a state that is fit to be written is read back as
  it was. The client's facts hold for every such store.
\<close>

locale stored =
  fixes enc :: "'s \<Rightarrow> string" and dec :: "string \<Rightarrow> 's option" and fit :: "'s \<Rightarrow> bool"
  assumes dec_enc: "fit s \<Longrightarrow> dec (enc s) = Some s"
begin

definition holds :: "string \<Rightarrow> 's \<Rightarrow> log_dir \<Rightarrow> bool" where
  "holds name s dir = (\<exists>b. map_of dir name = Some b \<and> dec (utf8_decode b) = Some s)"

lemma saved:
  "fit s \<Longrightarrow> tmp \<noteq> name \<Longrightarrow> holds name s (replace_file Renamed tmp name (utf8_encode (enc s)) dir)"
  by (simp add: holds_def replaced(1) dec_enc)

lemma old_or_new:
  assumes "holds name s dir" and "fit t" and "tmp \<noteq> name"
  shows "holds name (if p = Renamed then t else s) (replace_file p tmp name (utf8_encode (enc t)) dir)"
  using assms by (cases "p = Renamed") (simp_all add: holds_def replaced(1) dec_enc)

lemma written: "fit s \<Longrightarrow> holds name s (write_file name (utf8_encode (enc s)) dir)"
  by (simp add: holds_def map_of_write_file dec_enc)

lemma other_file: "holds name s dir \<Longrightarrow> map_of dir' name = map_of dir name \<Longrightarrow> holds name s dir'"
  by (simp add: holds_def)

end

end
