(* ===== verification/Accounts.thy ===== *)
theory Accounts
  imports StateFile NodePath Rotation Transcript "HOL-Library.List_Lexorder" "HOL-Library.Char_ord"
begin

text \<open>
  Claude accounts (\<open>accounts.ts\<close>, \<open>accountUsage.ts\<close>): which config directories there are, which
  of them are the same login, which one is in use, and the limits last seen for each. The file
  system is the record \<open>acct_world\<close>: the files' bytes, the listing of the accounts directory and
  what \<open>realpath\<close> answers; the environment variables are part of it.
\<close>

section \<open>Discovering accounts\<close>

record acct_world =
  aw_files :: log_dir
  aw_names :: "string list option"
  aw_realpath :: "string \<Rightarrow> string option"
  aw_cwd :: string
  aw_envConfigDir :: "string option"
  aw_apiKey :: "string option"

type_synonym row = "string \<times> string option"

type_synonym identity = "string option \<Rightarrow> string option"

definition DEFAULT_ACCOUNT_NAME :: string where "DEFAULT_ACCOUNT_NAME = ''default''"

definition env_text :: "string option \<Rightarrow> string" where
  "env_text v = (case v of None \<Rightarrow> [] | Some t \<Rightarrow> trim t)"

definition hasCredentials :: "acct_world \<Rightarrow> string \<Rightarrow> bool" where
  "hasCredentials w d = (map_of (aw_files w) (path_join [d, ''.credentials.json'']) \<noteq> None)"

definition accountSignedIn :: "acct_world \<Rightarrow> string option \<Rightarrow> string \<Rightarrow> bool" where
  "accountSignedIn w cdir claudeDir =
     (env_text (aw_apiKey w) \<noteq> [] \<or> hasCredentials w (case cdir of None \<Rightarrow> claudeDir | Some d \<Rightarrow> d))"

definition real_or_resolved :: "acct_world \<Rightarrow> string \<Rightarrow> string" where
  "real_or_resolved w p = (case aw_realpath w p of Some q \<Rightarrow> q | None \<Rightarrow> path_resolve (aw_cwd w) p)"

definition samePath :: "acct_world \<Rightarrow> string \<Rightarrow> string \<Rightarrow> bool" where
  "samePath w a b = (real_or_resolved w a = real_or_resolved w b)"

definition defaultTwin :: "string list \<Rightarrow> identity \<Rightarrow> string option" where
  "defaultTwin namedDirs ident =
     (case ident None of
        None \<Rightarrow> None
      | Some own \<Rightarrow> if own = [] then None else List.find (\<lambda>d. ident (Some d) = Some own) namedDirs)"

definition named_rows :: "acct_world \<Rightarrow> string \<Rightarrow> row list" where
  "named_rows w accountsDir =
     map (\<lambda>n. (n, Some (path_join [accountsDir, n])))
       (filter (\<lambda>n. hasCredentials w (path_join [accountsDir, n]))
         (sort (case aw_names w of None \<Rightarrow> [] | Some ns \<Rightarrow> ns)))"

definition env_rows :: "acct_world \<Rightarrow> string \<Rightarrow> string list \<Rightarrow> row list" where
  "env_rows w claudeDir named =
     (let envDir = env_text (aw_envConfigDir w) in
      if envDir \<noteq> [] \<and> \<not> list_ex (\<lambda>d. samePath w d envDir) (claudeDir # named)
      then [(path_basename envDir @ '' (CLAUDE_CONFIG_DIR)'', Some envDir)] else [])"

definition dirs_of :: "row list \<Rightarrow> string list" where
  "dirs_of rows = List.map_filter snd rows"

definition scanAccounts :: "acct_world \<Rightarrow> string \<Rightarrow> string \<Rightarrow> identity option \<Rightarrow> row list" where
  "scanAccounts w claudeDir accountsDir ident =
     (let named = named_rows w accountsDir;
          out = named @ env_rows w claudeDir (dirs_of named);
          twin = (case ident of None \<Rightarrow> None | Some f \<Rightarrow> defaultTwin (dirs_of named) f)
      in if twin \<noteq> None then out else (DEFAULT_ACCOUNT_NAME, None) # out)"

section \<open>Which login a directory holds\<close>

definition read_json :: "log_dir \<Rightarrow> string \<Rightarrow> jsval option" where
  "read_json dir f = Option.bind (map_of dir f) (\<lambda>b. json_parse (utf8_decode b))"

definition org_of :: "jsval \<Rightarrow> string option" where
  "org_of v = (case js_prop v ''organizationUuid'' of JStr s \<Rightarrow> if s = [] then None else Some (''org:'' @ s) | _ \<Rightarrow> None)"

definition oauth_identity :: "jsval \<Rightarrow> string option" where
  "oauth_identity raw =
     (let a = js_prop raw ''oauthAccount'' in
      case js_prop a ''accountUuid'' of
        JStr s \<Rightarrow> if s = [] then org_of a else Some s
      | _ \<Rightarrow> org_of a)"

definition accountIdentity :: "log_dir \<Rightarrow> string \<Rightarrow> string option \<Rightarrow> string option" where
  "accountIdentity dir home cdir =
     (let configFile = (case cdir of
            Some d \<Rightarrow> if d = [] then path_join [home, ''.claude.json''] else path_join [d, ''.claude.json'']
          | None \<Rightarrow> path_join [home, ''.claude.json'']);
          credsDir = (case cdir of Some d \<Rightarrow> d | None \<Rightarrow> path_join [home, ''.claude''])
      in case Option.bind (read_json dir configFile) oauth_identity of
           Some i \<Rightarrow> Some i
         | None \<Rightarrow> Option.bind (read_json dir (path_join [credsDir, ''.credentials.json''])) org_of)"

section \<open>The store\<close>

record accounts_store =
  as_claudeDir :: string
  as_accountsDir :: string
  as_stateFile :: string
  as_active :: "string option"
  as_loaded :: bool

text \<open>\<open>raw.configDir ?? null\<close>; a parsed \<open>null\<close> throws on the member, like a text that is not JSON.\<close>

definition read_choice :: "string \<Rightarrow> string option option" where
  "read_choice raw =
     (case json_parse raw of
        None \<Rightarrow> None
      | Some JNull \<Rightarrow> None
      | Some v \<Rightarrow> Some (case js_prop v ''configDir'' of JStr s \<Rightarrow> Some s | _ \<Rightarrow> None))"

definition choice_text :: "string option \<Rightarrow> string" where
  "choice_text c = stringify (JObj [(''configDir'', nullable c)])"

definition store_open :: "acct_world \<Rightarrow> string \<Rightarrow> string \<Rightarrow> string \<Rightarrow> accounts_store" where
  "store_open w claudeDir accountsDir stateFile =
     (let choice = Option.bind (map_of (aw_files w) stateFile) (\<lambda>b. read_choice (utf8_decode b));
          envDir = env_text (aw_envConfigDir w)
      in \<lparr>as_claudeDir = claudeDir, as_accountsDir = accountsDir, as_stateFile = stateFile,
          as_active = (case choice of
             Some c \<Rightarrow> c
           | None \<Rightarrow> if envDir \<noteq> [] \<and> \<not> samePath w envDir claudeDir then Some envDir else None),
          as_loaded = (choice \<noteq> None)\<rparr>)"

definition store_persist :: "accounts_store \<Rightarrow> acct_world \<Rightarrow> acct_world" where
  "store_persist s w =
     w \<lparr>aw_files := write_file (as_stateFile s) (utf8_encode (choice_text (as_active s))) (aw_files w)\<rparr>"

definition store_identity :: "acct_world \<Rightarrow> accounts_store \<Rightarrow> identity" where
  "store_identity w s = accountIdentity (aw_files w) (path_dirname (as_claudeDir s))"

definition namedDirs :: "acct_world \<Rightarrow> accounts_store \<Rightarrow> string list" where
  "namedDirs w s =
     filter (\<lambda>d. \<not> samePath w d (as_claudeDir s))
       (dirs_of (scanAccounts w (as_claudeDir s) (as_accountsDir s) None))"

definition effectiveActive :: "acct_world \<Rightarrow> accounts_store \<Rightarrow> string option" where
  "effectiveActive w s =
     (case as_active s of
        Some d \<Rightarrow> Some d
      | None \<Rightarrow> defaultTwin (namedDirs w s) (store_identity w s))"

definition activeConcreteDir :: "acct_world \<Rightarrow> accounts_store \<Rightarrow> string" where
  "activeConcreteDir w s = (case effectiveActive w s of Some d \<Rightarrow> d | None \<Rightarrow> as_claudeDir s)"

definition account_of :: "acct_world \<Rightarrow> accounts_store \<Rightarrow> row \<Rightarrow> account_info" where
  "account_of w s r =
     \<lparr>acc_name = fst r, configDir = snd r, acc_active = (snd r = effectiveActive w s),
      signedIn = accountSignedIn w (snd r) (as_claudeDir s), loginExpired = False\<rparr>"

definition list_accounts :: "acct_world \<Rightarrow> accounts_store \<Rightarrow> account_info list" where
  "list_accounts w s =
     map (account_of w s)
       (scanAccounts w (as_claudeDir s) (as_accountsDir s) (Some (store_identity w s)))"

definition allConcreteDirs :: "acct_world \<Rightarrow> accounts_store \<Rightarrow> string list" where
  "allConcreteDirs w s = map (\<lambda>a. case configDir a of Some d \<Rightarrow> d | None \<Rightarrow> as_claudeDir s) (list_accounts w s)"

definition activeName :: "acct_world \<Rightarrow> accounts_store \<Rightarrow> string option" where
  "activeName w s = map_option acc_name (List.find acc_active (list_accounts w s))"

definition setActive :: "string option \<Rightarrow> accounts_store \<Rightarrow> acct_world \<Rightarrow> accounts_store \<times> acct_world" where
  "setActive c s w = (s \<lparr>as_active := c\<rparr>, store_persist (s \<lparr>as_active := c\<rparr>) w)"

section \<open>The limits last seen\<close>

text \<open>
  A reading is the JSON text's value of the windows and when it was taken. \<open>record\<close> answers whether
  what would be shown changed; only then is the file written.
\<close>

type_synonym readings = "(string \<times> jsval \<times> num) list"

definition load_reading :: "string \<times> jsval \<Rightarrow> readings \<Rightarrow> readings" where
  "load_reading e m =
     (case js_prop (snd e) ''at'' of
        JNum n \<Rightarrow> AList.update (fst e) (js_prop (snd e) ''windows'', n) m
      | _ \<Rightarrow> m)"

definition read_readings :: "string \<Rightarrow> readings option" where
  "read_readings raw =
     (case json_parse raw of
        Some (JObj fs) \<Rightarrow> Some (fold load_reading fs [])
      | _ \<Rightarrow> None)"

definition readings_text :: "readings \<Rightarrow> string" where
  "readings_text m =
     stringify (JObj (map (\<lambda>(k, wd, n). (k, JObj [(''windows'', wd), (''at'', JNum n)])) m))"

definition record_reading :: "string \<Rightarrow> jsval \<Rightarrow> num \<Rightarrow> readings \<Rightarrow> bool \<times> readings" where
  "record_reading k wd now m =
     (stringify (case map_of m k of None \<Rightarrow> JNull | Some (old, n) \<Rightarrow> old) \<noteq> stringify wd,
      AList.update k (wd, now) m)"

section \<open>One row is in use\<close>

text \<open>
  The listing has distinct directories: names of one directory are distinct, plain segments, and
  the directory of the environment is listed only when it is none of them.
\<close>

definition names_ok :: "acct_world \<Rightarrow> bool" where
  "names_ok w = (case aw_names w of None \<Rightarrow> True | Some ns \<Rightarrow> distinct ns \<and> list_all plain_seg ns)"

lemma dirs_of_named: "dirs_of (named_rows w d) = map (\<lambda>n. path_join [d, n])
    (filter (\<lambda>n. hasCredentials w (path_join [d, n])) (sort (case aw_names w of None \<Rightarrow> [] | Some ns \<Rightarrow> ns)))"
  by (simp add: dirs_of_def named_rows_def map_filter_def comp_def)

lemma distinct_named:
  assumes "names_ok w" and "d \<noteq> []"
  shows "distinct (dirs_of (named_rows w d))"
proof -
  have "inj_on (\<lambda>n. path_join [d, n]) (set ns)" if "list_all plain_seg ns" for ns
    using that path_join_inject [OF assms(2)] by (auto simp: inj_on_def list_all_iff)
  then show ?thesis
    using assms(1) by (cases "aw_names w") (auto simp: dirs_of_named distinct_map names_ok_def intro: inj_on_subset)
qed

lemma dirs_of_append [simp]: "dirs_of (a @ b) = dirs_of a @ dirs_of b"
  by (simp add: dirs_of_def map_filter_def)

lemma dirs_of_default [simp]: "dirs_of ((n, None) # rows) = dirs_of rows"
  by (simp add: dirs_of_def map_filter_def)

lemma dirs_of_env: "dirs_of (env_rows w c ds) = [] \<or> (\<exists>e. dirs_of (env_rows w c ds) = [e] \<and> e \<notin> set (c # ds))"
  by (auto simp: env_rows_def dirs_of_def map_filter_def Let_def list_ex_iff samePath_def)

lemma row_dirs: "map snd (named_rows w d @ env_rows w c ds) = map Some (dirs_of (named_rows w d @ env_rows w c ds))"
  by (auto simp: named_rows_def env_rows_def dirs_of_def map_filter_def Let_def comp_def)

lemma distinct_rows:
  assumes "names_ok w" and "accountsDir \<noteq> []"
  shows "distinct (dirs_of (named_rows w accountsDir @ env_rows w c (dirs_of (named_rows w accountsDir))))"
  using distinct_named [OF assms] dirs_of_env [of w c "dirs_of (named_rows w accountsDir)"] by auto

lemma defaultTwin_Some: "defaultTwin ds f = Some d \<Longrightarrow> d \<in> set ds \<and> f (Some d) = f None \<and> f None \<noteq> None"
  by (auto simp: defaultTwin_def find_Some_iff split: option.splits if_splits)

lemma defaultTwin_None:
  "defaultTwin ds f = None \<Longrightarrow> f None = Some own \<Longrightarrow> own \<noteq> [] \<Longrightarrow> d \<in> set ds \<Longrightarrow> f (Some d) \<noteq> Some own"
  by (auto simp: defaultTwin_def find_None_iff)

lemma scan_plain: "dirs_of (scanAccounts w c a ident) = dirs_of (named_rows w a) @ dirs_of (env_rows w c (dirs_of (named_rows w a)))"
  by (simp add: scanAccounts_def Let_def)

lemma scan_default: "None \<in> snd ` set (scanAccounts w c a ident) \<longleftrightarrow>
    (case ident of None \<Rightarrow> True | Some f \<Rightarrow> defaultTwin (dirs_of (named_rows w a)) f = None)"
proof -
  have "None \<notin> snd ` set (named_rows w a @ env_rows w c ds)" for ds
    by (auto simp: named_rows_def env_rows_def Let_def)
  then show ?thesis by (auto simp: scanAccounts_def Let_def split: option.split)
qed

lemma scan_distinct:
  assumes "names_ok w" and "accountsDir \<noteq> []"
  shows "distinct (map snd (scanAccounts w c accountsDir ident))"
proof -
  let ?r = "named_rows w accountsDir @ env_rows w c (dirs_of (named_rows w accountsDir))"
  have "distinct (map snd ?r)" unfolding row_dirs using distinct_rows [OF assms, of c] by (simp only: distinct_map inj_Some)
  moreover have "None \<notin> set (map snd ?r)" by (simp only: row_dirs) auto
  ultimately show ?thesis by (auto simp: scanAccounts_def Let_def)
qed

text \<open>With no choice stored there is exactly one account in use, and it is in the list.\<close>

lemma dirs_of_rows: "d \<in> set (dirs_of rows) \<longleftrightarrow> Some d \<in> snd ` set rows"
  by (force simp: dirs_of_def map_filter_def)

lemma namedDirs_all:
  assumes "\<And>d. d \<in> set (dirs_of (named_rows w (as_accountsDir s))) \<Longrightarrow> \<not> samePath w d (as_claudeDir s)"
  shows "set (namedDirs w s) = set (dirs_of (scanAccounts w (as_claudeDir s) (as_accountsDir s) None))"
proof -
  let ?e = "env_rows w (as_claudeDir s) (dirs_of (named_rows w (as_accountsDir s)))"
  have "d \<in> set (dirs_of ?e) \<Longrightarrow> \<not> samePath w d (as_claudeDir s)" for d
    by (auto simp: env_rows_def Let_def dirs_of_def map_filter_def samePath_def split: if_splits)
  with assms show ?thesis by (auto simp: namedDirs_def scan_plain)
qed

lemma effective_listed:
  assumes "as_active s = None"
    and "\<And>d. d \<in> set (dirs_of (named_rows w (as_accountsDir s))) \<Longrightarrow> \<not> samePath w d (as_claudeDir s)"
  shows "effectiveActive w s \<in> snd ` set (scanAccounts w (as_claudeDir s) (as_accountsDir s) (Some (store_identity w s)))"
proof (cases "effectiveActive w s")
  case None
  let ?f = "store_identity w s"
  have t: "defaultTwin (namedDirs w s) ?f = None" using None assms(1) by (simp add: effectiveActive_def)
  have "defaultTwin (dirs_of (named_rows w (as_accountsDir s))) ?f = None"
  proof (rule ccontr)
    assume "defaultTwin (dirs_of (named_rows w (as_accountsDir s))) ?f \<noteq> None"
    then obtain d where d: "defaultTwin (dirs_of (named_rows w (as_accountsDir s))) ?f = Some d" by auto
    then obtain own where own: "?f None = Some own" "own \<noteq> []" "?f (Some d) = Some own"
      "d \<in> set (dirs_of (named_rows w (as_accountsDir s)))"
      using defaultTwin_Some [OF d] by (auto simp: defaultTwin_def split: option.splits if_splits)
    then have "d \<in> set (namedDirs w s)" using namedDirs_all [OF assms(2)] by (simp add: scan_plain)
    from defaultTwin_None [OF t own(1,2) this] own(3) show False by simp
  qed
  with None show ?thesis by (simp add: scan_default)
next
  case (Some d)
  then have "d \<in> set (namedDirs w s)" using assms(1) defaultTwin_Some by (auto simp: effectiveActive_def)
  with Some show ?thesis
    using namedDirs_all [OF assms(2)] by (simp add: scan_plain flip: dirs_of_rows)
qed

lemma one_active:
  assumes "distinct (map snd rows)" and "c \<in> snd ` set rows"
  shows "\<exists>!r. r \<in> set rows \<and> snd r = c"
proof -
  obtain r where r: "r \<in> set rows" "snd r = c" using assms(2) by auto
  then have "q \<in> set rows \<Longrightarrow> snd q = c \<Longrightarrow> q = r" for q
    using assms(1) by (auto simp: distinct_map dest: inj_onD)
  with r show ?thesis by blast
qed

lemma one_row_active:
  assumes "as_active s = None" and "names_ok w" and "as_accountsDir s \<noteq> []"
    and "\<And>d. d \<in> set (dirs_of (named_rows w (as_accountsDir s))) \<Longrightarrow> \<not> samePath w d (as_claudeDir s)"
  shows "\<exists>!a. a \<in> set (list_accounts w s) \<and> acc_active a"
proof -
  let ?rows = "scanAccounts w (as_claudeDir s) (as_accountsDir s) (Some (store_identity w s))"
  obtain r where r: "r \<in> set ?rows" "snd r = effectiveActive w s"
    and u: "\<And>q. q \<in> set ?rows \<Longrightarrow> snd q = effectiveActive w s \<Longrightarrow> q = r"
    using one_active [OF scan_distinct [OF assms(2,3)] effective_listed [OF assms(1,4)]] by metis
  show ?thesis
  proof (rule ex_ex1I)
    have "account_of w s r \<in> set (list_accounts w s) \<and> acc_active (account_of w s r)"
      using r by (auto simp: list_accounts_def) (simp add: account_of_def)
    then show "\<exists>a. a \<in> set (list_accounts w s) \<and> acc_active a" ..
    fix a b assume "a \<in> set (list_accounts w s) \<and> acc_active a" "b \<in> set (list_accounts w s) \<and> acc_active b"
    then obtain p q where "p \<in> set ?rows" "a = account_of w s p" "acc_active a"
      "q \<in> set ?rows" "b = account_of w s q" "acc_active b" by (auto simp: list_accounts_def)
    then show "a = b" using u [of p] u [of q] by (simp add: account_of_def)
  qed
qed

text \<open>One login, one row: the default account is not listed beside a named copy of its login.\<close>

lemma no_twin_rows:
  assumes "r \<in> set (list_accounts w s)" and "configDir r = None"
    and "d \<in> set (dirs_of (named_rows w (as_accountsDir s)))"
    and "store_identity w s None = Some own" and "own \<noteq> []"
  shows "store_identity w s (Some d) \<noteq> Some own"
proof -
  have "None \<in> snd ` set (scanAccounts w (as_claudeDir s) (as_accountsDir s) (Some (store_identity w s)))"
    using assms(1,2) by (force simp: list_accounts_def account_of_def)
  then have "defaultTwin (dirs_of (named_rows w (as_accountsDir s))) (store_identity w s) = None"
    by (simp add: scan_default)
  from defaultTwin_None [OF this assms(4,5,3)] show ?thesis .
qed

section \<open>The choice survives a restart\<close>

interpretation ac: stored choice_text read_choice "\<lambda>c. True"
proof unfold_locales
  fix c :: "string option"
  have "json_plain (JObj [(''configDir'', nullable c)])" by (simp add: nullable_def split: option.split)
  from json_roundtrip [OF this] show "read_choice (choice_text c) = Some c"
    by (simp add: read_choice_def choice_text_def nullable_def split: option.split)
qed

lemma choice_survives:
  assumes "setActive c s w = (s1, w1)"
  shows "as_active (store_open w1 (as_claudeDir s) (as_accountsDir s) (as_stateFile s)) = c
    \<and> as_loaded (store_open w1 (as_claudeDir s) (as_accountsDir s) (as_stateFile s))"
proof -
  have "ac.holds (as_stateFile s) c (aw_files w1)"
    using assms ac.written [OF TrueI, where name = "as_stateFile s" and dir = "aw_files w"] by (auto simp: setActive_def store_persist_def)
  then show ?thesis by (auto simp: ac.holds_def store_open_def Let_def)
qed

section \<open>Readings survive a restart\<close>

definition readings_fit :: "readings \<Rightarrow> bool" where
  "readings_fit m = (om_wf m \<and> list_all (\<lambda>(k, wd, n). json_plain wd \<and> num_plain n) m)"

lemma fold_load_reading:
  "distinct (map fst (m @ es)) \<Longrightarrow>
   fold load_reading (map (\<lambda>(k, wd, n). (k, JObj [(''windows'', wd), (''at'', JNum n)])) es) m = m @ es"
proof (induction es arbitrary: m)
  case (Cons e es)
  obtain k wd n where e: "e = (k, wd, n)" by (cases e) auto
  have "k \<notin> fst ` set m" using Cons.prems e by auto
  then have "AList.update k (wd, n) m = m @ [(k, wd, n)]" by (induction m) auto
  with Cons e show ?case by (simp add: load_reading_def)
qed simp

interpretation us: stored readings_text read_readings readings_fit
proof unfold_locales
  fix m assume "readings_fit m"
  then have m: "distinct (map fst m)" "\<And>k wd n. (k, wd, n) \<in> set m \<Longrightarrow> json_plain wd \<and> num_plain n"
    by (auto simp: readings_fit_def om_wf_def list_all_iff)
  let ?fs = "map (\<lambda>(k, wd, n). (k, JObj [(''windows'', wd), (''at'', JNum n)])) m"
  have f: "map fst ?fs = map fst m" by auto
  have "json_plain (JObj ?fs)" unfolding json_plain.simps f using m by auto
  from json_roundtrip [OF this] have "json_parse (readings_text m) = Some (JObj ?fs)"
    by (simp only: readings_text_def)
  then show "read_readings (readings_text m) = Some m"
    using fold_load_reading [of "[]" m] m(1) by (simp add: read_readings_def)
qed

end
