(* ===== verification/Host.thy ===== *)
theory Host
  imports SessionProps Accounts
begin

text \<open>
  The daemon process as the owner of the accounts and the sessions (\<open>main.ts\<close>): switching accounts
  carries every live turn along, and the callbacks a session asks after a refusal answer with what
  was decided. A callback runs inside a method of the session that called it; what it does to that
  session is in its answer (\<open>rp_activation\<close>), which \<^term>\<open>host_calls\<close> performs, and what it does to
  the others is done here. \<open>envs\<close> gives the surroundings of each session.
\<close>

section \<open>State\<close>

datatype push =
    Accounts_pushed "(account_info \<times> jsval) list"
  | Sessions_changed
  | Usage_pushed usage_snapshot

record host =
  h_world :: acct_world
  h_home :: string
  h_store :: accounts_store
  h_rotation :: rotation_state
  h_switchOnLimit :: bool
  h_readings :: readings
  h_lastAccounts :: string
  h_usage :: usage_snapshot
  h_sessions :: "(string \<times> session) list"
  h_pushes :: "push list"

definition push :: "push \<Rightarrow> host \<Rightarrow> host" where
  "push p h = h \<lparr>h_pushes := h_pushes h @ [p]\<rparr>"

definition identityOf :: "host \<Rightarrow> identity_of" where
  "identityOf h a =
     (case accountIdentity (aw_files (h_world h)) (h_home h) (configDir a) of
        Some i \<Rightarrow> i
      | None \<Rightarrow> accountKey (configDir a))"

definition accounts :: "host \<Rightarrow> account_info list" where
  "accounts h = list_accounts (h_world h) (h_store h)"

definition active :: "host \<Rightarrow> string option" where
  "active h = effectiveActive (h_world h) (h_store h)"

section \<open>The account list\<close>

definition last_usage :: "host \<Rightarrow> account_info \<Rightarrow> jsval" where
  "last_usage h a =
     (case map_of (h_readings h) (accountKey (configDir a)) of
        None \<Rightarrow> JNull
      | Some (wd, t) \<Rightarrow> JObj [(''windows'', wd), (''at'', JNum t)])"

definition accountsWithUsage :: "host \<Rightarrow> account_info list \<Rightarrow> (account_info \<times> jsval) list" where
  "accountsWithUsage h as =
     map (\<lambda>a. (a, last_usage h a)) (withLoginExpiry as (h_rotation h) (identityOf h))"

definition account_members :: "account_info \<Rightarrow> (string \<times> jsval) list" where
  "account_members a =
     [(''name'', JStr (acc_name a)), (''configDir'', nullable (configDir a)), (''active'', JBool (acc_active a)),
      (''signedIn'', JBool (signedIn a)), (''loginExpired'', JBool (loginExpired a))]"

definition accounts_text :: "account_info list \<Rightarrow> string" where
  "accounts_text as = stringify (JArr (map (\<lambda>a. JObj (account_members a)) as))"

definition usage_text :: "(account_info \<times> jsval) list \<Rightarrow> string" where
  "usage_text us = stringify (JArr (map (\<lambda>(a, u). JObj (account_members a @ [(''lastUsage'', u)])) us))"

definition broadcastAccounts :: "account_info list \<Rightarrow> host \<Rightarrow> host" where
  "broadcastAccounts as h =
     (let us = accountsWithUsage h as in push (Accounts_pushed us) (h \<lparr>h_lastAccounts := usage_text us\<rparr>))"

text \<open>The poller; sharing the configuration among the accounts is in theory SharedSetup.\<close>

definition pollAccounts :: "host \<Rightarrow> host" where
  "pollAccounts h =
     (let as = accounts h in if accounts_text as = h_lastAccounts h then h else broadcastAccounts as h)"

section \<open>Switching\<close>

definition resume_reason :: "string option \<Rightarrow> string" where
  "resume_reason d = (case d of None \<Rightarrow> ''null'' | Some s \<Rightarrow> s)"

text \<open>
  The loop over the live sessions; an exception ends it. The session whose call this is takes its
  part from the answer.
\<close>

fun carry ::
    "(string \<Rightarrow> env) \<Rightarrow> string option \<Rightarrow> time_ms \<Rightarrow> string \<Rightarrow> string \<Rightarrow> (string \<times> session) list
     \<Rightarrow> (string \<times> session) list \<times> outcome" where
  "carry envs caller resume_at name reason [] = ([], Done)"
| "carry envs caller resume_at name reason ((i, s) # rest) =
     (if caller = Some i
      then (let (rest', out) = carry envs caller resume_at name reason rest in ((i, s) # rest', out))
      else case seqs [parkForAccountSwitch (envs i) resume_at (Some name) reason, disposeActiveQuery (envs i)] s of
        (s', Threw m) \<Rightarrow> ((i, s') # rest, Threw m)
      | (s', Done) \<Rightarrow>
          (let (rest', out) = carry envs caller resume_at name reason rest in ((i, s') # rest', out)))"

definition active_name :: "account_info list \<Rightarrow> string option \<Rightarrow> string" where
  "active_name as d = (case List.find acc_active as of Some a \<Rightarrow> acc_name a | None \<Rightarrow> resume_reason d)"

text \<open>The activation a switch performs, and what the caller of it is told.\<close>

definition chosen :: "string option \<Rightarrow> time_ms \<Rightarrow> host \<Rightarrow> host" where
  "chosen d now h =
     (let (st, w) = setActive d (h_store h) (h_world h)
      in h \<lparr>h_store := st, h_world := w, h_rotation := (h_rotation h) \<lparr>lastSwitchAt := now\<rparr>\<rparr>)"

definition activateAccount ::
    "(string \<Rightarrow> env) \<Rightarrow> string option \<Rightarrow> time_ms \<Rightarrow> string option \<Rightarrow> string \<Rightarrow> host
     \<Rightarrow> host \<times> outcome \<times> (time_ms \<times> string \<times> string)" where
  "activateAccount envs caller now d reason h =
     (let h1 = chosen d now h;
          as = accounts h1;
          name = active_name as d;
          resume_at = now + SWITCH_SETTLE_MS;
          (ss, out) = carry envs caller resume_at name reason (h_sessions h1);
          h2 = h1 \<lparr>h_sessions := ss\<rparr>
      in (case out of
            Threw m \<Rightarrow> (h2, out, (resume_at, name, reason))
          | Done \<Rightarrow> (push Sessions_changed (broadcastAccounts as h2), out, (resume_at, name, reason))))"

section \<open>The callbacks of a session\<close>

text \<open>The account in use, by the key rotation knows it under.\<close>

definition current_key :: "host \<Rightarrow> string" where
  "current_key h =
     (case List.find acc_active (accounts h) of
        Some a \<Rightarrow> identityOf h a
      | None \<Rightarrow> accountKey (active h))"

definition no_switch :: "time_ms \<Rightarrow> string \<Rightarrow> host_reply" where
  "no_switch t w = \<lparr>rp_retryAt = t, rp_switchedTo = None, rp_why = w, rp_activation = None\<rparr>"

definition switched :: "time_ms \<Rightarrow> string \<Rightarrow> string \<Rightarrow> (time_ms \<times> string \<times> string) \<Rightarrow> host_reply" where
  "switched t name w act =
     \<lparr>rp_retryAt = t, rp_switchedTo = Some name, rp_why = w, rp_activation = Some act\<rparr>"

definition onAuthFailure ::
    "(string \<Rightarrow> env) \<Rightarrow> string \<Rightarrow> time_ms \<Rightarrow> host \<Rightarrow> host_reply \<times> outcome \<times> host" where
  "onAuthFailure envs caller now h =
     (let h1 = h \<lparr>h_rotation := (h_rotation h) \<lparr>unusable := insert (current_key h) (unusable (h_rotation h))\<rparr>\<rparr> in
      if \<not> h_switchOnLimit h then (no_switch 0 [], Done, h1)
      else case nextUsableAccount (accounts h1) (active h1) (h_rotation h1) now (identityOf h1) of
        None \<Rightarrow> (no_switch 0 [], Done, h1)
      | Some a \<Rightarrow>
          (let (h2, out, act) = activateAccount envs (Some caller) now (configDir a)
                 ''login expired on the previous account'' h1
           in (switched (now + SWITCH_SETTLE_MS) (acc_name a) [] act, out, h2)))"

fun why_name :: "plan_why \<Rightarrow> string" where
  "why_name Switched = ''switched''"
| "why_name Cooldown = ''cooldown''"
| "why_name Cooldown_limited = ''cooldown-limited''"
| "why_name All_limited = ''all-limited''"
| "why_name Disabled = ''disabled''"
| "why_name Single_account = ''single-account''"

definition limited_now :: "time_ms \<Rightarrow> host \<Rightarrow> host" where
  "limited_now own h =
     h \<lparr>h_rotation := (h_rotation h) \<lparr>limited := AList.update (current_key h) own (limited (h_rotation h))\<rparr>\<rparr>"

definition limit_plan :: "time_ms \<Rightarrow> time_ms \<Rightarrow> host \<Rightarrow> rotation_plan" where
  "limit_plan now own h =
     (let h1 = limited_now own h in
      planAfterLimit (accounts h1) (active h) (h_rotation h1) now own (h_switchOnLimit h1) (identityOf h1))"

definition onLimited ::
    "(string \<Rightarrow> env) \<Rightarrow> string \<Rightarrow> time_ms \<Rightarrow> time_ms \<Rightarrow> host \<Rightarrow> host_reply \<times> outcome \<times> host" where
  "onLimited envs caller now own h =
     (let h1 = limited_now own h; plan = limit_plan now own h in
      case switchTo plan of
        Some a \<Rightarrow>
          (let (h2, out, act) = activateAccount envs (Some caller) now (configDir a)
                 ''rate limit on the previous account'' h1
           in (switched (plan_retryAt plan) (acc_name a) (why_name (why plan)) act, out, h2))
      | None \<Rightarrow> (no_switch (plan_retryAt plan) (why_name (why plan)), Done, h1))"

definition prune_limits :: "time_ms \<Rightarrow> host \<Rightarrow> host" where
  "prune_limits now h =
     h \<lparr>h_rotation := (h_rotation h)
       \<lparr>limited := filter (\<lambda>(k, until). \<not> until \<le> now) (limited (h_rotation h))\<rparr>\<rparr>"

definition beforeRetry ::
    "(string \<Rightarrow> env) \<Rightarrow> string \<Rightarrow> time_ms \<Rightarrow> host \<Rightarrow> host_reply \<times> outcome \<times> host" where
  "beforeRetry envs caller now h =
     (let h1 = prune_limits now h in
      case accountForRetry (accounts h1) (active h1) (h_rotation h1) now (h_switchOnLimit h1) (identityOf h1) of
        None \<Rightarrow> (no_switch 0 [], Done, h1)
      | Some a \<Rightarrow>
          (let (h2, out, act) = activateAccount envs (Some caller) now (configDir a) ''its limit has ended'' h1
           in (switched 0 (acc_name a) [] act, out, h2)))"

text \<open>
  The two sources of plan usage. The code compares the returned map with the one it passed, which
  is the same object exactly for a kind that is not modelled.
\<close>

definition onRateLimit :: "jsval \<Rightarrow> host \<Rightarrow> host" where
  "onRateLimit info h =
     (if Option.bind (js_str (js_prop info ''rateLimitType'')) kind_of = None then h
      else (let u = (h_usage h) \<lparr>windows := applyRateLimitEvent (windows (h_usage h)) info\<rparr>
            in push (Usage_pushed u) (h \<lparr>h_usage := u\<rparr>)))"

definition onUsage :: "jsval \<Rightarrow> host \<Rightarrow> host" where
  "onUsage raw h =
     (let u = applyUsageResponse (h_usage h) raw in push (Usage_pushed u) (h \<lparr>h_usage := u\<rparr>))"

section \<open>Requests about accounts\<close>

text \<open>A sign-in that succeeded, and the person's own choice.\<close>

definition login_done ::
    "(string \<Rightarrow> env) \<Rightarrow> time_ms \<Rightarrow> string \<Rightarrow> host \<Rightarrow> host \<times> outcome" where
  "login_done envs now dir h =
     (let h1 = pollAccounts h;
          signed = (if dir = as_claudeDir (h_store h1) then None else Some dir);
          key = (case List.find (\<lambda>a. accountKey (configDir a) = accountKey signed) (accounts h1) of
                   Some a \<Rightarrow> identityOf h1 a
                 | None \<Rightarrow> accountKey signed);
          h2 = h1 \<lparr>h_rotation := (h_rotation h1) \<lparr>unusable := unusable (h_rotation h1) - {key}\<rparr>\<rparr>;
          (h3, out, act) = activateAccount envs None now signed ''signed in'' h2
      in (h3, out))"

fun dispose_all :: "(string \<Rightarrow> env) \<Rightarrow> (string \<times> session) list \<Rightarrow> (string \<times> session) list" where
  "dispose_all envs [] = []"
| "dispose_all envs ((i, s) # rest) = (i, fst (disposeActiveQuery (envs i) s)) # dispose_all envs rest"

definition setAccount :: "(string \<Rightarrow> env) \<Rightarrow> string option \<Rightarrow> host \<Rightarrow> host" where
  "setAccount envs d h =
     (let (st, w) = setActive d (h_store h) (h_world h);
          h1 = h \<lparr>h_store := st, h_world := w\<rparr>;
          as = map fst (accountsWithUsage h1 (accounts h1));
          h2 = h1 \<lparr>h_sessions := dispose_all envs (h_sessions h1)\<rparr>
      in push Sessions_changed (broadcastAccounts as h2))"

section \<open>A switch carries every live turn\<close>

definition switch_turn :: "time_ms \<Rightarrow> pending_turn" where
  "switch_turn t = \<lparr>pt_retryAt = t, pt_attempts = 0, pt_text = ''account switch''\<rparr>"

definition carried :: "time_ms \<Rightarrow> time_ms \<Rightarrow> session \<Rightarrow> session \<Rightarrow> bool" where
  "carried now t s s' =
     (s_query s' = None \<and> s_input s' = None
      \<and> (if busy now s \<and> s_pending s = None
         then s_pending s' = Some (switch_turn t) \<and> s_retryTimer s' = Some (now + max 0 (t - now))
              \<and> s_file s' = Some (stringify (pending_json (switch_turn t)))
         else turn_of s' = turn_of s))"

lemma wp_dispose:
  "wp (disposeActiveQuery env) (\<lambda>s'. s_query s' = None \<and> s_input s' = None \<and> turn_of s' = turn_of s) s"
proof -
  let ?first = "when_do (\<lambda>s. s_agents s \<noteq> [])
      (seqs [set_state (\<lambda>s. s \<lparr>s_agents := [], s_levelSignal := False\<rparr>), publishAgents env])"
  have "spares ?first" by (intro spares_intros) simp
  then have "wp ?first (\<lambda>s'. turn_of s' = turn_of s) s" by (rule wp_spares)
  moreover have "wp (seqs [close_input, close_query])
      (\<lambda>s'. s_query s' = None \<and> s_input s' = None \<and> turn_of s' = turn_of s) s'" if "turn_of s' = turn_of s" for s'
    using that unfolding close_input_def close_query_def
    by (cases "s_query s'") (simp_all add: wp_simps wp_Nil_fun)
  ultimately show ?thesis unfolding disposeActiveQuery_def wp_Cons [of ?first] by (rule wp_mono)
qed

lemma wp_carry:
  assumes "good_env env"
  shows "wp (seqs [parkForAccountSwitch env t (Some name) reason, disposeActiveQuery env]) (carried (e_now env) t s) s"
proof -
  have w: "writes_ok env" and p: "e_persists env" using assms by (simp_all add: good_env_def)
  let ?Q = "\<lambda>s'. if busy (e_now env) s \<and> s_pending s = None
      then s_pending s' = Some (switch_turn t) \<and> s_retryTimer s' = Some (e_now env + max 0 (t - e_now env))
           \<and> s_file s' = Some (stringify (pending_json (switch_turn t)))
      else turn_of s' = turn_of s"
  have "wp (parkForAccountSwitch env t (Some name) reason) ?Q s"
    unfolding parkForAccountSwitch_def set_pending_def persistPending_def scheduleRetry_def
    using p by (auto simp: wp_simps switch_turn_def intro!: wp_appendEvent [OF w])
  moreover have "?Q s' \<Longrightarrow> wp (disposeActiveQuery env) (carried (e_now env) t s) s'" for s'
    by (rule wp_mono [OF wp_dispose]) (auto simp: carried_def turn_of_def split: if_splits)
  ultimately show ?thesis unfolding wp_Cons wp_Nil_fun by (rule wp_mono)
qed

definition good_envs :: "time_ms \<Rightarrow> (string \<Rightarrow> env) \<Rightarrow> bool" where
  "good_envs now envs = (\<forall>i. good_env (envs i) \<and> e_now (envs i) = now)"

text \<open>What becomes of each session, the caller's aside.\<close>

definition carried_all ::
    "string option \<Rightarrow> time_ms \<Rightarrow> time_ms \<Rightarrow> (string \<times> session) list \<Rightarrow> (string \<times> session) list \<Rightarrow> bool" where
  "carried_all caller now t ss ss' =
     list_all2 (\<lambda>(i, s) (j, s'). j = i \<and> (if caller = Some i then s' = s else carried now t s s')) ss ss'"

lemma carry_all:
  assumes "good_envs now envs"
  shows "\<exists>ss'. carry envs caller t name reason ss = (ss', Done) \<and> carried_all caller now t ss ss'"
proof (induction ss)
  case (Cons e rest)
  obtain i s where e: "e = (i, s)" by fastforce
  obtain rest' where r: "carry envs caller t name reason rest = (rest', Done)" "carried_all caller now t rest rest'"
    using Cons by blast
  show ?case
  proof (cases "caller = Some i")
    case True
    with e r show ?thesis by (simp add: carried_all_def)
  next
    case False
    let ?op = "seqs [parkForAccountSwitch (envs i) t (Some name) reason, disposeActiveQuery (envs i)]"
    have "good_env (envs i)" "e_now (envs i) = now" using assms by (simp_all add: good_envs_def)
    with wp_carry [OF this(1), of t name reason s] obtain s' where "?op s = (s', Done)" "carried now t s s'"
      by (cases "?op s") (simp add: wp_def)
    with e r False show ?thesis by (simp add: carried_all_def)
  qed
qed (simp add: carried_all_def)

lemma activate_done:
  assumes "good_envs now envs" and "activateAccount envs caller now d reason h = (h', out, act)"
  shows "out = Done \<and> as_active (h_store h') = d \<and> lastSwitchAt (h_rotation h') = now
    \<and> limited (h_rotation h') = limited (h_rotation h) \<and> unusable (h_rotation h') = unusable (h_rotation h)
    \<and> carried_all caller now (now + SWITCH_SETTLE_MS) (h_sessions h) (h_sessions h')
    \<and> fst act = now + SWITCH_SETTLE_MS \<and> snd (snd act) = reason"
proof -
  let ?h1 = "chosen d now h"
  have s1: "h_sessions ?h1 = h_sessions h" by (simp add: chosen_def setActive_def)
  obtain ss where c: "carry envs caller (now + SWITCH_SETTLE_MS) (active_name (accounts ?h1) d) reason (h_sessions h) = (ss, Done)"
    "carried_all caller now (now + SWITCH_SETTLE_MS) (h_sessions h) ss"
    using carry_all [OF assms(1)] by blast
  with assms(2) s1 show ?thesis
    by (auto simp: activateAccount_def Let_def push_def broadcastAccounts_def chosen_def setActive_def)
qed

text \<open>The answer to a refusal, and what it does to the others.\<close>

lemma limited_now_sessions [simp]:
  "h_sessions (limited_now own h) = h_sessions h" "h_store (limited_now own h) = h_store h"
  "h_switchOnLimit (limited_now own h) = h_switchOnLimit h"
  by (simp_all add: limited_now_def)

lemma onLimited_answer:
  assumes "good_envs now envs" and "onLimited envs caller now own h = (r, out, h')"
  shows "out = Done \<and> rp_retryAt r = plan_retryAt (limit_plan now own h)
    \<and> (case switchTo (limit_plan now own h) of
         None \<Rightarrow> rp_switchedTo r = None \<and> rp_activation r = None \<and> h_sessions h' = h_sessions h \<and> h_store h' = h_store h
       | Some a \<Rightarrow> rp_switchedTo r = Some (acc_name a) \<and> as_active (h_store h') = configDir a
           \<and> (\<exists>name. rp_activation r = Some (now + SWITCH_SETTLE_MS, name, ''rate limit on the previous account''))
           \<and> carried_all (Some caller) now (now + SWITCH_SETTLE_MS) (h_sessions h) (h_sessions h'))"
proof (cases "switchTo (limit_plan now own h)")
  case None
  with assms(2) show ?thesis by (auto simp: onLimited_def Let_def no_switch_def)
next
  case (Some a)
  obtain h2 o2 act where act: "activateAccount envs (Some caller) now (configDir a)
      ''rate limit on the previous account'' (limited_now own h) = (h2, o2, act)"
    by (cases "activateAccount envs (Some caller) now (configDir a) ''rate limit on the previous account'' (limited_now own h)")
  note d = activate_done [OF assms(1) act]
  from Some act assms(2) have e: "r = switched (plan_retryAt (limit_plan now own h)) (acc_name a) (why_name (why (limit_plan now own h))) act"
    "out = o2" "h' = h2" by (simp_all add: onLimited_def Let_def)
  from d e Some show ?thesis by (cases act) (auto simp: switched_def)
qed

section \<open>The interface a session relies on\<close>

text \<open>
  A session parks a refused turn until the instant its host answers. The host promises that the
  instant is in the future whenever the limit's own end is, so a refused turn is never tried again
  at once.
\<close>

locale limit_handler =
  fixes answer :: "time_ms \<Rightarrow> time_ms \<Rightarrow> host_reply"
  assumes answer_future: "now < own \<Longrightarrow> now < rp_retryAt (answer now own)"
begin

lemma parks_in_future:
  assumes "good_env env" and "e_onLimited env = answer (e_now env)"
    and "s_retries s < max_attempts Limit_cause"
    and "e_now env < plan_at env w Limit_cause (Suc (s_retries s)) (mt_id (s_meta s))"
  shows "wp (parkForLimit env w Limit_cause)
    (\<lambda>s'. \<exists>t d. parked_at (Suc (s_retries s)) t s' \<and> e_now env < t \<and> s_retryTimer s' = Some d \<and> e_now env < d) s"
proof -
  let ?at = "plan_at env w Limit_cause (Suc (s_retries s)) (mt_id (s_meta s))"
  have f: "e_now env < rp_retryAt (e_onLimited env ?at)" using answer_future [OF assms(4)] assms(2) by simp
  have "wp (parkTurn env w Limit_cause (Suc (s_retries s)) (e_onLimited env ?at))
      (\<lambda>s'. \<exists>t d. parked_at (Suc (s_retries s)) t s' \<and> e_now env < t \<and> s_retryTimer s' = Some d \<and> e_now env < d) s'" for s'
    by (rule wp_mono [OF wp_parkTurn_at [OF assms(1)]]) (use f in \<open>auto simp: parked_at_def\<close>)
  then show ?thesis
    using assms(3) by (simp add: parkForLimit_def wp_reading Let_def wp_Cons wp_emit wp_Nil_fun)
qed

end

interpretation hl: limit_handler "\<lambda>now own. fst (onLimited envs caller now own h)" for envs caller h
proof
  fix now own :: time_ms assume "now < own"
  have "rp_retryAt (fst (onLimited envs caller now own h)) = plan_retryAt (limit_plan now own h)"
    by (auto simp: onLimited_def Let_def no_switch_def switched_def split: option.split prod.split)
  then show "now < rp_retryAt (fst (onLimited envs caller now own h))"
    using plan_retry_future [OF \<open>now < own\<close>] by (simp add: limit_plan_def Let_def)
qed

section \<open>The poller never rests\<close>

text \<open>
  The list is remembered with each account's usage and compared without: after any broadcast of a
  list that is not empty, every poll broadcasts again.
\<close>

lemma account_plain: "json_plain (JObj (account_members a))"
  by (simp add: account_members_def nullable_def split: option.split)

lemma texts_differ:
  assumes "as \<noteq> []" and "\<And>a u. (a, u) \<in> set us \<Longrightarrow> json_plain u" and "length us = length as"
  shows "accounts_text as \<noteq> usage_text us"
proof -
  let ?a = "JArr (map (\<lambda>a. JObj (account_members a)) as)"
  let ?u = "JArr (map (\<lambda>(a, u). JObj (account_members a @ [(''lastUsage'', u)])) us)"
  have "json_plain (JObj (account_members a @ [(''lastUsage'', u)]))" if "(a, u) \<in> set us" for a u
    using account_plain [of a] assms(2) [OF that] by (auto simp: account_members_def)
  then have p: "json_plain ?a" "json_plain ?u" using account_plain by (auto simp del: json_plain.simps(9))
  have "?a \<noteq> ?u"
  proof (cases as; cases us)
    fix b bs v vs assume "as = b # bs" "us = v # vs"
    then show ?thesis by (cases v) (simp add: account_members_def)
  qed (use assms(1,3) in simp_all)
  then show ?thesis using json_roundtrip p unfolding accounts_text_def usage_text_def by (metis option.inject)
qed

lemma poll_broadcasts:
  assumes "accounts h \<noteq> []" and "\<And>a. json_plain (last_usage h a)"
    and "h_lastAccounts h = usage_text us" and "\<And>a u. (a, u) \<in> set us \<Longrightarrow> json_plain u"
    and "length us = length (accounts h)"
  shows "pollAccounts h = broadcastAccounts (accounts h) h"
  using texts_differ [OF assms(1,4,5)] assms(3) by (simp add: pollAccounts_def Let_def)

lemma poll_repeats:
  assumes "accounts h \<noteq> []" and "\<And>a. json_plain (last_usage h a)"
  shows "h_pushes (pollAccounts (broadcastAccounts (accounts h) h))
    = h_pushes h @ replicate 2 (Accounts_pushed (accountsWithUsage h (accounts h)))"
proof -
  let ?h = "broadcastAccounts (accounts h) h"
  have idof: "identityOf (h \<lparr>h_lastAccounts := w, h_pushes := ps\<rparr>) = identityOf h" for ps w
    by (rule ext) (simp add: identityOf_def)
  have same: "accounts ?h = accounts h" "last_usage ?h = last_usage h"
    by (simp_all add: broadcastAccounts_def push_def accounts_def last_usage_def Let_def fun_eq_iff)
  then have same_list: "accountsWithUsage ?h as = accountsWithUsage h as" for as
    unfolding accountsWithUsage_def same(2) by (simp add: broadcastAccounts_def push_def idof Let_def)
  note same = same same_list
  have "pollAccounts ?h = broadcastAccounts (accounts ?h) ?h"
  proof (rule poll_broadcasts)
    show "h_lastAccounts ?h = usage_text (accountsWithUsage h (accounts h))"
      by (simp add: broadcastAccounts_def push_def Let_def)
  qed (use assms same in \<open>auto simp: accountsWithUsage_def withLoginExpiry_def\<close>)
  moreover have "h_pushes (broadcastAccounts as g) = h_pushes g @ [Accounts_pushed (accountsWithUsage g as)]" for as g
    by (simp add: broadcastAccounts_def push_def Let_def)
  ultimately show ?thesis by (simp add: same numeral_2_eq_2)
qed

end
