(* ===== verification/SharedSetup.thy ===== *)
theory SharedSetup
  imports StateFile NodePath
begin

text \<open>
  One set-up for every account (\<open>sharedSetup.ts\<close>): merging settings, joining maps, choosing MCP
  logins, and writing them into the accounts' files. A file system is the map of
  \<^term>\<open>write_file\<close>. Linking one settings file into every account (symbolic links) is not modelled.
\<close>

type_synonym fields = "(string \<times> jsval) list"

fun is_obj :: "jsval \<Rightarrow> bool" where
  "is_obj (JObj fs) = True"
| "is_obj v = False"

fun fields_of :: "jsval \<Rightarrow> fields" where
  "fields_of (JObj fs) = fs"
| "fields_of v = []"

section \<open>Merging\<close>

text \<open>First occurrences, told apart by their JSON text.\<close>

definition uniq_step :: "jsval \<Rightarrow> string list \<times> jsval list \<Rightarrow> string list \<times> jsval list" where
  "uniq_step x st =
     (let key = stringify x in if key \<in> set (fst st) then st else (fst st @ [key], snd st @ [x]))"

definition uniq :: "jsval list \<Rightarrow> jsval list" where
  "uniq xs = snd (fold uniq_step xs ([], []))"

text \<open>\<open>[...(v ?? [])]\<close>; \<open>None\<close> where the value cannot be iterated and the spread throws.\<close>

fun spread :: "jsval \<Rightarrow> jsval list option" where
  "spread JUndef = Some []"
| "spread JNull = Some []"
| "spread (JArr vs) = Some vs"
| "spread (JStr s) = Some (map (\<lambda>c. JStr [c]) s)"
| "spread v = None"

definition index_fields :: "jsval list \<Rightarrow> fields" where
  "index_fields vs = zip (map show_nat [0..<length vs]) vs"

text \<open>What \<open>{...v}\<close> copies.\<close>

fun own_fields :: "jsval \<Rightarrow> fields" where
  "own_fields (JObj fs) = fs"
| "own_fields (JArr vs) = index_fields vs"
| "own_fields (JStr s) = index_fields (map (\<lambda>c. JStr [c]) s)"
| "own_fields v = []"

definition assign :: "fields \<Rightarrow> fields \<Rightarrow> fields" where
  "assign fs gs = fold (\<lambda>(k, v). AList.update k v) gs fs"

definition prop_of :: "fields \<Rightarrow> string \<Rightarrow> jsval" where
  "prop_of fs k = (case map_of fs k of None \<Rightarrow> JUndef | Some v \<Rightarrow> v)"

text \<open>
  \<open>(out.hooks ??= {})\<close> and the assignments to its members. An object takes them, on an array they
  do not show, and on any other value they throw.
\<close>

definition target :: "fields \<Rightarrow> string \<Rightarrow> jsval" where
  "target out k = (case prop_of out k of JUndef \<Rightarrow> JObj [] | JNull \<Rightarrow> JObj [] | v \<Rightarrow> v)"

fun join_lists :: "fields \<Rightarrow> fields \<Rightarrow> fields option" where
  "join_lists t [] = Some t"
| "join_lists t ((k, v) # fs) =
     (case v of
        JArr vs \<Rightarrow>
          (case spread (prop_of t k) of
             None \<Rightarrow> None
           | Some old \<Rightarrow> join_lists (AList.update k (JArr (uniq (old @ vs))) t) fs)
      | _ \<Rightarrow> join_lists t fs)"

fun join_permissions :: "fields \<Rightarrow> fields \<Rightarrow> fields option" where
  "join_permissions t [] = Some t"
| "join_permissions t ((k, v) # fs) =
     (case v of
        JArr vs \<Rightarrow>
          (case spread (prop_of t k) of
             None \<Rightarrow> None
           | Some old \<Rightarrow> join_permissions (AList.update k (JArr (uniq (old @ vs))) t) fs)
      | _ \<Rightarrow> join_permissions (if map_of t k = None then AList.update k v t else t) fs)"

fun is_arr :: "jsval \<Rightarrow> bool" where
  "is_arr (JArr vs) = True"
| "is_arr v = False"

text \<open>\<open>touches\<close> tells whether the loop gets to the target at all.\<close>

definition join_into ::
    "(fields \<Rightarrow> fields \<Rightarrow> fields option) \<Rightarrow> (fields \<Rightarrow> bool) \<Rightarrow> string \<Rightarrow> fields \<Rightarrow> fields \<Rightarrow> fields option" where
  "join_into f touches key out fs =
     (case target out key of
        JObj t \<Rightarrow> map_option (\<lambda>t'. AList.update key (JObj t') out) (f t fs)
      | JArr vs \<Rightarrow> Some out
      | v \<Rightarrow> if touches fs then None else Some out)"

definition MAP_KEYS :: "string list" where
  "MAP_KEYS = [''enabledPlugins'', ''extraKnownMarketplaces'', ''env'']"

fun merge_key :: "string \<times> jsval \<Rightarrow> fields \<Rightarrow> fields option" where
  "merge_key (key, v) out =
     (if key = ''hooks'' \<and> is_obj v then join_into join_lists (list_ex (is_arr \<circ> snd)) key out (fields_of v)
      else if key = ''permissions'' \<and> is_obj v then join_into join_permissions (\<lambda>fs. fs \<noteq> []) key out (fields_of v)
      else if key \<in> set MAP_KEYS \<and> is_obj v
      then Some (AList.update key (JObj (assign (fields_of v) (own_fields (prop_of out key)))) out)
      else Some (if map_of out key = None then AList.update key v out else out))"

fun merge_all :: "fields \<Rightarrow> fields \<Rightarrow> fields option" where
  "merge_all [] out = Some out"
| "merge_all (e # es) out = Option.bind (merge_key e out) (merge_all es)"

definition mergeSettings :: "fields list \<Rightarrow> fields option" where
  "mergeSettings everyone = merge_all (concat everyone) []"

text \<open>MCP logins: the value, whether it is a real login, when it was saved.\<close>

record login =
  lg_value :: jsval
  lg_filled :: bool
  lg_savedAt :: num

definition filled :: "jsval \<Rightarrow> bool" where
  "filled v = (case js_prop v ''accessToken'' of JStr s \<Rightarrow> s \<noteq> [] | _ \<Rightarrow> False)"

definition better :: "login \<Rightarrow> login option \<Rightarrow> bool" where
  "better l held =
     (case held of
        None \<Rightarrow> True
      | Some h \<Rightarrow> (lg_filled l \<and> \<not> lg_filled h) \<or> (lg_filled l = lg_filled h \<and> lg_savedAt h < lg_savedAt l))"

definition login_of :: "num \<Rightarrow> jsval \<Rightarrow> login" where
  "login_of savedAt v = \<lparr>lg_value = v, lg_filled = filled v, lg_savedAt = savedAt\<rparr>"

definition offer :: "string \<times> login \<Rightarrow> (string \<times> login) list \<Rightarrow> (string \<times> login) list" where
  "offer e best = (if better (snd e) (map_of best (fst e)) then AList.update (fst e) (snd e) best else best)"

definition offers :: "(jsval \<times> num) list \<Rightarrow> (string \<times> login) list" where
  "offers sources =
     concat (map (\<lambda>(logins, savedAt).
       map (\<lambda>(k, v). (k, login_of savedAt v)) (filter (\<lambda>(k, v). is_obj v) (fields_of logins))) sources)"

definition newestLogins :: "(jsval \<times> num) list \<Rightarrow> fields" where
  "newestLogins sources = map (\<lambda>(k, l). (k, lg_value l)) (fold offer (offers sources) [])"

definition unionByKey :: "jsval list \<Rightarrow> fields" where
  "unionByKey maps =
     fold (\<lambda>(k, v) out. if map_of out k = None then AList.update k v out else out)
       (concat (map fields_of maps)) []"

section \<open>Files\<close>

definition readJson :: "log_dir \<Rightarrow> string \<Rightarrow> fields option" where
  "readJson dir f =
     (case map_of dir f of
        None \<Rightarrow> None
      | Some b \<Rightarrow> (case json_parse (utf8_decode b) of Some (JObj fs) \<Rightarrow> Some fs | _ \<Rightarrow> None))"

definition writeJson :: "nat \<Rightarrow> string \<Rightarrow> fields \<Rightarrow> log_dir \<Rightarrow> log_dir" where
  "writeJson pid f v dir =
     replace_file Renamed (f @ ''.tmp-'' @ show_nat pid) f (utf8_encode (pretty 0 (JObj v) @ [newline])) dir"

definition writeIfChanged :: "nat \<Rightarrow> string \<Rightarrow> fields option \<Rightarrow> fields \<Rightarrow> log_dir \<Rightarrow> bool \<times> log_dir" where
  "writeIfChanged pid f before after dir =
     (if (case before of None \<Rightarrow> False | Some b \<Rightarrow> stringify (JObj b) = stringify (JObj after)) then (False, dir)
      else (True, writeJson pid f after dir))"

text \<open>
  Both halves of \<open>shareMcp\<close> read every file first and then write a joined member into each file that
  was there.
\<close>

definition put_member :: "nat \<Rightarrow> string \<Rightarrow> jsval \<Rightarrow> string \<times> fields option \<Rightarrow> log_dir \<Rightarrow> log_dir" where
  "put_member pid k v r dir =
     (case snd r of
        None \<Rightarrow> dir
      | Some fs \<Rightarrow> snd (writeIfChanged pid (fst r) (Some fs) (AList.update k v fs) dir))"

definition read_all :: "log_dir \<Rightarrow> string list \<Rightarrow> (string \<times> fields option) list" where
  "read_all dir files = map (\<lambda>f. (f, readJson dir f)) files"

definition member_of :: "string \<Rightarrow> fields option \<Rightarrow> jsval" where
  "member_of k r = (case r of None \<Rightarrow> JUndef | Some fs \<Rightarrow> prop_of fs k)"

definition shareServers :: "nat \<Rightarrow> string list \<Rightarrow> log_dir \<Rightarrow> log_dir" where
  "shareServers pid configs dir =
     (let rd = read_all dir configs; servers = unionByKey (map (member_of ''mcpServers'' \<circ> snd) rd)
      in if servers = [] then dir else fold (put_member pid ''mcpServers'' (JObj servers)) rd dir)"

definition shareLogins :: "nat \<Rightarrow> (string \<Rightarrow> num) \<Rightarrow> string list \<Rightarrow> log_dir \<Rightarrow> log_dir" where
  "shareLogins pid mtime creds dir =
     (let rd = read_all dir creds;
          tokens = newestLogins (map (\<lambda>r. (member_of ''mcpOAuth'' (snd r), mtime (fst r))) rd)
      in if tokens = [] then dir else fold (put_member pid ''mcpOAuth'' (JObj tokens)) rd dir)"

definition shareMcp :: "nat \<Rightarrow> (string \<Rightarrow> num) \<Rightarrow> string \<Rightarrow> string \<Rightarrow> string list \<Rightarrow> log_dir \<Rightarrow> log_dir" where
  "shareMcp pid mtime claudeDir defaultClaudeJson dirs dir =
     shareLogins pid mtime (map (\<lambda>d. path_join [d, ''.credentials.json'']) (claudeDir # dirs))
       (shareServers pid (defaultClaudeJson # map (\<lambda>d. path_join [d, ''.claude.json'']) dirs) dir)"

text \<open>The plugin lists; \<open>hasDir\<close> tells whether the plugins directory of an account is there.\<close>

definition plugin_file :: "nat \<Rightarrow> (string \<Rightarrow> bool) \<Rightarrow> string list \<Rightarrow> string \<Rightarrow> log_dir \<Rightarrow> log_dir" where
  "plugin_file pid hasDir dirs name dir =
     (let rd = read_all dir (map (\<lambda>d. path_join [d, ''plugins'', name]) dirs);
          present = List.map_filter snd rd;
          isInstalled = (name = ''installed_plugins.json'');
          joined = unionByKey (map (\<lambda>fs. if isInstalled then prop_of fs ''plugins'' else JObj fs) present);
          next_of = (\<lambda>r. if isInstalled
                        then AList.update ''plugins'' (JObj joined)
                               (case r of None \<Rightarrow> [(''version'', JNum 2)] | Some fs \<Rightarrow> fs)
                        else joined)
      in if present = [] then dir
         else fold (\<lambda>r dir. if snd r = None \<and> \<not> hasDir (path_dirname (fst r)) then dir
                            else snd (writeIfChanged pid (fst r) (snd r) (next_of (snd r)) dir)) rd dir)"

definition sharePlugins :: "nat \<Rightarrow> (string \<Rightarrow> bool) \<Rightarrow> string \<Rightarrow> string list \<Rightarrow> log_dir \<Rightarrow> log_dir" where
  "sharePlugins pid hasDir claudeDir dirs dir =
     fold (plugin_file pid hasDir (claudeDir # dirs)) [''installed_plugins.json'', ''known_marketplaces.json''] dir"

section \<open>The newest real login wins\<close>

definition beats :: "login \<Rightarrow> login \<Rightarrow> bool" where
  "beats a b = better a (Some b)"

lemma beats_trans: "beats a b \<Longrightarrow> \<not> beats c b \<Longrightarrow> \<not> beats c a" and beats_irrefl: "\<not> beats a a"
  by (auto simp: beats_def better_def)

lemma fold_offer:
  assumes "map_of (fold offer es best) k = Some l"
  shows "((k, l) \<in> set es \<or> map_of best k = Some l) \<and> (\<forall>l'. (k, l') \<in> set es \<or> map_of best k = Some l' \<longrightarrow> \<not> beats l' l)"
  using assms
proof (induction es arbitrary: best)
  case (Cons e es)
  obtain k1 l1 where e: "e = (k1, l1)" by fastforce
  have m: "map_of (offer e best) k = (if k = k1 \<and> better l1 (map_of best k1) then Some l1 else map_of best k)"
    by (simp add: offer_def e update_conv')
  have "map_of (fold offer es (offer e best)) k = Some l" using Cons.prems by simp
  from Cons.IH [OF this] have ih: "(k, l) \<in> set es \<or> map_of (offer e best) k = Some l"
    "\<And>l'. (k, l') \<in> set es \<or> map_of (offer e best) k = Some l' \<Longrightarrow> \<not> beats l' l" by auto
  have A: "\<not> beats l' l" if "(k, l') = e \<or> map_of best k = Some l'" for l'
  proof (cases "k = k1 \<and> better l1 (map_of best k1)")
    case True
    then have "\<not> beats l1 l" using ih(2) m by simp
    moreover have "map_of best k = Some l' \<Longrightarrow> beats l1 l'" using True by (simp add: beats_def)
    ultimately show ?thesis using that e beats_trans [of l1 l' l] by (metis beats_trans prod.inject)
  next
    case False
    then have mo: "map_of (offer e best) k = map_of best k" using m False by auto
    then have n: "map_of best k = Some l' \<Longrightarrow> \<not> beats l' l" using ih(2) [of l'] by simp
    show ?thesis
    proof (cases "(k, l') = e")
      case True
      with False e obtain h where h: "map_of best k = Some h" "\<not> beats l' h"
        by (cases "map_of best k") (auto simp: beats_def better_def)
      then have "\<not> beats h l" using ih(2) [of h] mo by simp
      with h(2) show ?thesis by (auto simp: beats_def better_def)
    qed (use that n in blast)
  qed
  have B: "(k, l) \<in> set (e # es) \<or> map_of best k = Some l" using ih(1) m e by (auto split: if_splits)
  have "\<not> beats l' l" if "(k, l') \<in> set (e # es) \<or> map_of best k = Some l'" for l'
    using that A ih(2) by (metis set_ConsD)
  with B show ?case by blast
qed (simp add: beats_irrefl)

lemma map_of_values: "map_of (map (\<lambda>(k, l). (k, f l)) xs) k = map_option f (map_of xs k)"
  by (induction xs) auto

lemma newest_login:
  assumes "map_of (newestLogins sources) k = Some v"
  shows "\<exists>l. (k, l) \<in> set (offers sources) \<and> lg_value l = v \<and> (\<forall>l'. (k, l') \<in> set (offers sources) \<longrightarrow> \<not> beats l' l)"
proof -
  obtain l where "map_of (fold offer (offers sources) []) k = Some l" "lg_value l = v"
    using assms by (auto simp: newestLogins_def map_of_values)
  with fold_offer [OF this(1)] show ?thesis by auto
qed

section \<open>Nothing but the shared member changes\<close>

lemma stringify_inject: "json_plain v \<Longrightarrow> json_plain w \<Longrightarrow> stringify v = stringify w \<longleftrightarrow> v = w"
  using json_roundtrip by (metis option.inject)

lemma read_written:
  assumes "json_plain (JObj v)" and "\<not> is_digit (last f)" and "f \<noteq> []"
  shows "readJson (writeJson pid f v dir) f = Some v"
    and "g \<noteq> f \<Longrightarrow> g \<noteq> [] \<Longrightarrow> \<not> is_digit (last g) \<Longrightarrow> readJson (writeJson pid f v dir) g = readJson dir g"
proof -
  have "last (f @ ''.tmp-'' @ show_nat pid) = last (show_nat pid)" by simp
  moreover have "is_digit (last (show_nat pid))"
    using show_nat_digits [of pid] last_in_set [OF show_nat_not_Nil, of pid] by (simp only: list_all_iff)
  ultimately have t: "h \<noteq> f @ ''.tmp-'' @ show_nat pid" if "\<not> is_digit (last h)" for h using that by metis
  have "json_parse (pretty 0 (JObj v) @ [newline]) = Some (JObj v)"
    using assms(1) by (intro pretty_roundtrip) (auto simp: blank_def json_ws_def newline_def num_end_def is_digit_def)
  then show "readJson (writeJson pid f v dir) f = Some v"
    using t [OF assms(2)] by (simp add: readJson_def writeJson_def replaced(1))
  show "g \<noteq> f \<Longrightarrow> g \<noteq> [] \<Longrightarrow> \<not> is_digit (last g) \<Longrightarrow> readJson (writeJson pid f v dir) g = readJson dir g"
    using t [of g] t [OF assms(2)] by (simp add: readJson_def writeJson_def replaced(2))
qed

definition plain_files :: "log_dir \<Rightarrow> string list \<Rightarrow> bool" where
  "plain_files dir files =
     (distinct files
      \<and> (\<forall>f\<in>set files. f \<noteq> [] \<and> \<not> is_digit (last f)
           \<and> (case readJson dir f of None \<Rightarrow> True | Some fs \<Rightarrow> json_plain (JObj fs))))"

lemma update_plain: "json_plain (JObj fs) \<Longrightarrow> json_plain v \<Longrightarrow> json_plain (JObj (AList.update k v fs))"
proof -
  assume a: "json_plain (JObj fs)" "json_plain v"
  have "set (AList.update k v fs) \<subseteq> insert (k, v) (set fs)" by (induction fs) auto
  with a show ?thesis by (auto simp: distinct_update)
qed

lemma put_member_reads:
  assumes "f \<noteq> []" and "\<not> is_digit (last f)" and "json_plain v"
    and r: "r = readJson dir f" and "case r of None \<Rightarrow> True | Some fs \<Rightarrow> json_plain (JObj fs)"
  shows "readJson (put_member pid k v (f, r) dir) f = map_option (AList.update k v) r"
    and "g \<noteq> f \<Longrightarrow> g \<noteq> [] \<Longrightarrow> \<not> is_digit (last g) \<Longrightarrow> readJson (put_member pid k v (f, r) dir) g = readJson dir g"
proof -
  have "readJson (put_member pid k v (f, r) dir) f = map_option (AList.update k v) r \<and>
    (g \<noteq> f \<and> g \<noteq> [] \<and> \<not> is_digit (last g) \<longrightarrow> readJson (put_member pid k v (f, r) dir) g = readJson dir g)"
  proof (cases r)
    case None
    then show ?thesis using r by (simp add: put_member_def)
  next
    case (Some fs)
    then have p: "json_plain (JObj fs)" "json_plain (JObj (AList.update k v fs))"
      using assms(3,5) update_plain by auto
    show ?thesis
    proof (cases "stringify (JObj fs) = stringify (JObj (AList.update k v fs))")
      case True
      then have "AList.update k v fs = fs" using stringify_inject [OF p] by simp
      with Some r show ?thesis by (simp add: put_member_def writeIfChanged_def)
    next
      case False
      then show ?thesis using Some read_written [OF p(2) assms(2,1)]
        by (simp add: put_member_def writeIfChanged_def)
    qed
  qed
  then show "readJson (put_member pid k v (f, r) dir) f = map_option (AList.update k v) r"
    and "g \<noteq> f \<Longrightarrow> g \<noteq> [] \<Longrightarrow> \<not> is_digit (last g) \<Longrightarrow> readJson (put_member pid k v (f, r) dir) g = readJson dir g"
    by blast+
qed

lemma put_members_read:
  assumes "plain_files dir files" and "json_plain v" and "g \<noteq> []" and "\<not> is_digit (last g)"
  shows "readJson (fold (put_member pid k v) (read_all dir files) dir) g =
    (if g \<in> set files then map_option (AList.update k v) (readJson dir g) else readJson dir g)"
proof -
  have "readJson (fold (put_member pid k v) (map (\<lambda>f. (f, readJson dir f)) fs) d) g =
      (if g \<in> set fs then map_option (AList.update k v) (readJson dir g) else readJson d g)"
    if "distinct fs" "set fs \<subseteq> set files" "\<And>f. f \<in> set fs \<Longrightarrow> readJson d f = readJson dir f" for fs d
    using that
  proof (induction fs arbitrary: d)
    case (Cons f fs)
    have f: "f \<noteq> []" "\<not> is_digit (last f)" "case readJson dir f of None \<Rightarrow> True | Some x \<Rightarrow> json_plain (JObj x)"
      and rest: "\<And>h. h \<in> set fs \<Longrightarrow> h \<noteq> [] \<and> \<not> is_digit (last h)"
      using Cons.prems(2) assms(1) by (auto simp: plain_files_def)
    note put = put_member_reads [OF f(1,2) assms(2), where r = "readJson dir f" and dir = d and pid = pid and k = k]
    have same: "readJson dir f = readJson d f" using Cons.prems(3) by simp
    let ?d = "put_member pid k v (f, readJson dir f) d"
    have "readJson ?d h = readJson dir h" if "h \<in> set fs" for h
      using put(2) [OF same f(3), where g = h] rest [OF that] that Cons.prems by auto
    then have "readJson (fold (put_member pid k v) (map (\<lambda>f. (f, readJson dir f)) fs) ?d) g =
        (if g \<in> set fs then map_option (AList.update k v) (readJson dir g) else readJson ?d g)"
      using Cons.prems by (intro Cons.IH) auto
    moreover have "g = f \<Longrightarrow> readJson ?d g = map_option (AList.update k v) (readJson dir g)"
      using put(1) [OF same f(3)] by simp
    moreover have "g \<noteq> f \<Longrightarrow> readJson ?d g = readJson d g"
      using put(2) [OF same f(3), where g = g] assms(3,4) by simp
    ultimately show ?case by auto
  qed simp
  from this [of files dir] assms(1) show ?thesis by (simp add: plain_files_def read_all_def)
qed

lemma prop_of_update: "prop_of (AList.update k v fs) j = (if j = k then v else prop_of fs j)"
  by (simp add: prop_of_def update_conv')

text \<open>Every other member of every file keeps its value, and a file that was not there is not made.\<close>

lemma shareServers_keeps:
  assumes "plain_files dir files" and "json_plain (JObj (unionByKey (map (member_of ''mcpServers'' \<circ> snd) (read_all dir files))))"
    and "f \<in> set files"
  shows "case readJson dir f of
      None \<Rightarrow> readJson (shareServers pid files dir) f = None
    | Some fs \<Rightarrow> \<exists>gs. readJson (shareServers pid files dir) f = Some gs
        \<and> (\<forall>j. j \<noteq> ''mcpServers'' \<longrightarrow> prop_of gs j = prop_of fs j)"
proof -
  have "f \<noteq> []" "\<not> is_digit (last f)" using assms(1,3) by (auto simp: plain_files_def)
  from put_members_read [OF assms(1,2) this, of pid "''mcpServers''"] assms(3) show ?thesis
    by (auto simp: shareServers_def Let_def prop_of_update split: option.split)
qed

lemma shareLogins_keeps:
  assumes "plain_files dir files"
    and "json_plain (JObj (newestLogins (map (\<lambda>r. (member_of ''mcpOAuth'' (snd r), mtime (fst r))) (read_all dir files))))"
    and "f \<in> set files"
  shows "case readJson dir f of
      None \<Rightarrow> readJson (shareLogins pid mtime files dir) f = None
    | Some fs \<Rightarrow> \<exists>gs. readJson (shareLogins pid mtime files dir) f = Some gs
        \<and> (\<forall>j. j \<noteq> ''mcpOAuth'' \<longrightarrow> prop_of gs j = prop_of fs j)"
proof -
  have "f \<noteq> []" "\<not> is_digit (last f)" using assms(1,3) by (auto simp: plain_files_def)
  from put_members_read [OF assms(1,2) this, of pid "''mcpOAuth''"] assms(3) show ?thesis
    by (auto simp: shareLogins_def Let_def prop_of_update split: option.split)
qed

section \<open>A second run changes nothing\<close>

lemma union_step: "map_of out k = None \<Longrightarrow> AList.update k v out = out @ [(k, v)]"
  by (induction out) (auto split: if_splits)

lemma union_new:
  "distinct (map fst (out @ fs)) \<Longrightarrow>
   fold (\<lambda>(k, v) out. if map_of out k = None then AList.update k v out else out) fs out = out @ fs"
proof (induction fs arbitrary: out)
  case (Cons e fs)
  obtain k v where e: "e = (k, v)" by fastforce
  have "map_of out k = None" using Cons.prems e by (auto simp: map_of_eq_None_iff)
  with Cons e union_step [of out k v] show ?case by simp
qed simp

lemma union_old:
  "fst ` set fs \<subseteq> fst ` set out \<Longrightarrow>
   fold (\<lambda>(k, v) out. if map_of out k = None then AList.update k v out else out) fs out = out"
proof (induction fs)
  case (Cons e fs)
  then have "map_of out (fst e) \<noteq> None" by (auto simp: map_of_eq_None_iff)
  with Cons show ?case by (cases e) auto
qed simp

lemma unionByKey_same:
  assumes "distinct (map fst fs)" and "\<And>m. m \<in> set maps \<Longrightarrow> fields_of m = fs \<or> fields_of m = []"
    and "\<exists>m\<in>set maps. fields_of m = fs"
  shows "unionByKey maps = fs"
proof -
  let ?u = "\<lambda>(k, v) out. if map_of out k = None then AList.update k v out else out"
  have old: "fold ?u (concat (map fields_of ms)) fs = fs" if "set ms \<subseteq> set maps" for ms
    using that assms(2) by (intro union_old) fastforce
  have "fold ?u (concat (map fields_of ms)) [] = (if \<exists>m\<in>set ms. fields_of m = fs then fs else [])"
    if "set ms \<subseteq> set maps" for ms
    using that
  proof (induction ms)
    case (Cons m ms)
    show ?case
    proof (cases "fields_of m = fs")
      case True
      have "fold ?u fs [] = fs" using union_new [of "[]" fs] assms(1) by simp
      with True old [of ms] Cons.prems show ?thesis by simp
    next
      case False
      then have "fields_of m = []" using assms(2) Cons.prems by auto
      with False Cons show ?thesis by auto
    qed
  qed simp
  from this [of maps] assms(3) show ?thesis by (simp add: unionByKey_def)
qed

lemma update_same: "distinct (map fst fs) \<Longrightarrow> map_of fs k = Some v \<Longrightarrow> AList.update k v fs = fs"
  by (induction fs) (auto split: if_splits)

lemma put_nothing:
  assumes "\<And>f fs. (f, Some fs) \<in> set rd \<Longrightarrow> AList.update k v fs = fs"
  shows "fold (put_member pid k v) rd dir = dir"
  using assms
proof (induction rd)
  case (Cons r rd)
  have "put_member pid k v r dir = dir"
  proof (cases "snd r")
    case (Some fs)
    then have "AList.update k v fs = fs" using Cons.prems [of "fst r" fs] by (cases r) simp
    with Some show ?thesis by (simp add: put_member_def writeIfChanged_def)
  qed (simp add: put_member_def)
  moreover have "fold (put_member pid k v) rd dir = dir" using Cons.prems by (intro Cons.IH) auto
  ultimately show ?case by simp
qed simp

theorem shareServers_idempotent:
  assumes plain: "plain_files dir files"
    and union: "json_plain (JObj (unionByKey (map (member_of ''mcpServers'' \<circ> snd) (read_all dir files))))"
  shows "shareServers pid files (shareServers pid files dir) = shareServers pid files dir"
proof -
  define servers where "servers = unionByKey (map (member_of ''mcpServers'' \<circ> snd) (read_all dir files))"
  show ?thesis
  proof (cases "servers = []")
    case True
    then show ?thesis by (simp add: shareServers_def servers_def Let_def)
  next
    case False
    let ?d = "shareServers pid files dir"
    have d: "?d = fold (put_member pid ''mcpServers'' (JObj servers)) (read_all dir files) dir"
      using False by (simp add: shareServers_def servers_def Let_def)
    have read: "readJson ?d f = map_option (AList.update ''mcpServers'' (JObj servers)) (readJson dir f)"
      if "f \<in> set files" for f
      using that plain put_members_read [OF plain union, of f pid "''mcpServers''"]
      by (simp add: d servers_def plain_files_def)
    have "unionByKey (map (member_of ''mcpServers'' \<circ> snd) (read_all ?d files)) = servers"
    proof (rule unionByKey_same)
      show "distinct (map fst servers)" using union by (simp add: servers_def)
      show "fields_of m = servers \<or> fields_of m = []"
        if "m \<in> set (map (member_of ''mcpServers'' \<circ> snd) (read_all ?d files))" for m
        using that read by (auto simp: read_all_def member_of_def prop_of_update split: option.splits)
      have "\<exists>f\<in>set files. readJson dir f \<noteq> None"
      proof (rule ccontr)
        assume "\<not> ?thesis"
        then have "map (member_of ''mcpServers'' \<circ> snd) (read_all dir files) = map (\<lambda>f. JUndef) files"
          by (simp add: read_all_def member_of_def)
        then have "servers = []" by (simp add: servers_def unionByKey_def comp_def map_replicate_const concat_replicate_trivial)
        with False show False ..
      qed
      then show "\<exists>m\<in>set (map (member_of ''mcpServers'' \<circ> snd) (read_all ?d files)). fields_of m = servers"
        using read by (force simp: read_all_def member_of_def prop_of_update)
    qed
    moreover have "fold (put_member pid ''mcpServers'' (JObj servers)) (read_all ?d files) ?d = ?d"
    proof (rule put_nothing)
      fix f fs assume "(f, Some fs) \<in> set (read_all ?d files)"
      then obtain gs where g: "f \<in> set files" "readJson dir f = Some gs"
        "fs = AList.update ''mcpServers'' (JObj servers) gs"
        using read by (cases "readJson dir f") (auto simp: read_all_def)
      then have "distinct (map fst fs)" using plain by (auto simp: plain_files_def distinct_update)
      with g(3) show "AList.update ''mcpServers'' (JObj servers) fs = fs"
        by (intro update_same) (simp_all add: update_conv')
    qed
    ultimately show ?thesis using False
      by (subst shareServers_def) (simp add: Let_def)
  qed
qed

end
