(* ===== verification/Wire.thy ===== *)
theory Wire
  imports LogStore Json_Facts
begin

text \<open>
  How requests and answers travel: lines on the local socket, at both of its ends (\<open>onConnection\<close>
  of \<open>main.ts\<close>, \<open>wire\<close> of \<open>daemonClient.ts\<close>), and the network gateway (\<open>gateway.ts\<close>) with its
  routes and its heartbeat. A chunk is the bytes a \<open>data\<close> event brings. The lemmas: the lines handled
  do not depend on the chunks as long as no chunk ends inside a character, what goes wrong when one
  does, and that the gateway drops a client exactly after four silent sweeps.
\<close>

section \<open>Lines on a socket\<close>

text \<open>
  The loop over the newlines in the buffer. The handler says whether it returned; when it throws, the
  event is over and what is left stays in the buffer.
\<close>

function line_loop :: "('s \<Rightarrow> string \<Rightarrow> 's \<times> bool) \<Rightarrow> 's \<Rightarrow> string \<Rightarrow> 's \<times> string" where
  "line_loop f s buffer =
     (if newline \<in> set buffer then
        (let line = takeWhile (\<lambda>c. c \<noteq> newline) buffer;
             rest = drop (Suc (length line)) buffer;
             (s', returned) = f s line
         in if returned then line_loop f s' rest else (s', rest))
      else (s, buffer))"
  by pat_completeness auto
termination
  by (relation "measure (\<lambda>(f, s, b). length b)") (auto simp: neq_Nil_conv dest: length_pos_if_in_set)

declare line_loop.simps [simp del]

definition on_data :: "('s \<Rightarrow> string \<Rightarrow> 's \<times> bool) \<Rightarrow> string \<Rightarrow> 's \<times> string \<Rightarrow> 's \<times> string" where
  "on_data f chunk st = line_loop f (fst st) (snd st @ utf8_decode chunk)"

text \<open>
  The daemon's end: a blank line and one that is not JSON are passed over. Reading \<open>op\<close> of \<open>null\<close>
  throws, and so does reading \<open>id\<close> of it in the handler of that. \<open>handle\<close> is the request.
\<close>

definition daemon_line :: "('s \<Rightarrow> jsval \<Rightarrow> 's) \<Rightarrow> 's \<Rightarrow> string \<Rightarrow> 's \<times> bool" where
  "daemon_line handle s line =
     (if trim line = [] then (s, True)
      else case json_parse line of
        None \<Rightarrow> (s, True)
      | Some JNull \<Rightarrow> (s, False)
      | Some req \<Rightarrow> (handle s req, True))"

text \<open>The client's end: whatever dispatching throws is caught.\<close>

definition client_line :: "('s \<Rightarrow> jsval \<Rightarrow> 's) \<Rightarrow> 's \<Rightarrow> string \<Rightarrow> 's \<times> bool" where
  "client_line dispatch s line =
     (if trim line = [] then (s, True)
      else case json_parse line of
        None \<Rightarrow> (s, True)
      | Some m \<Rightarrow> (if m = JNull then s else dispatch s m, True))"

definition wire_line :: "jsval \<Rightarrow> string" where
  "wire_line v = utf8_encode (stringify v @ [newline])"

section \<open>The gateway's requests\<close>

definition response_ok :: "jsval \<Rightarrow> jsval \<Rightarrow> jsval" where
  "response_ok i r = JObj [(''kind'', JStr ''response''), (''id'', i), (''ok'', JBool True), (''result'', r)]"

definition response_failed :: "jsval \<Rightarrow> string \<Rightarrow> jsval" where
  "response_failed i e = JObj [(''kind'', JStr ''response''), (''id'', i), (''ok'', JBool False), (''error'', JStr e)]"

fun is_num :: "jsval \<Rightarrow> bool" where
  "is_num (JNum n) = True"
| "is_num JNaN = True"
| "is_num v = False"

definition is_request :: "jsval \<Rightarrow> bool" where
  "is_request v = (is_js_object v \<and> js_str (js_prop v ''op'') \<noteq> None \<and> is_num (js_prop v ''id''))"

text \<open>\<open>answer\<close>; \<open>request\<close> is the daemon, \<open>Inl\<close> what it throws.\<close>

definition gateway_answer :: "(jsval \<Rightarrow> string + jsval) \<Rightarrow> jsval \<Rightarrow> jsval option" where
  "gateway_answer request v =
     (if \<not> is_request v then None
      else Some (case request v of
                   Inr r \<Rightarrow> response_ok (js_prop v ''id'') r
                 | Inl e \<Rightarrow> response_failed (js_prop v ''id'') e))"

definition ws_message :: "(jsval \<Rightarrow> string + jsval) \<Rightarrow> string \<Rightarrow> jsval option" where
  "ws_message request data = Option.bind (json_parse data) (gateway_answer request)"

section \<open>The gateway's routes\<close>

datatype route = Extra | File_route | Health | Rpc | Not_found

definition url_path :: "string \<Rightarrow> string" where
  "url_path url = takeWhile (\<lambda>c. c \<noteq> CHR ''?'') url"

definition route_of :: "(string \<Rightarrow> bool) \<Rightarrow> string \<Rightarrow> string option \<Rightarrow> route" where
  "route_of extra verb url =
     (let p = url_path (case url of None \<Rightarrow> ''/'' | Some u \<Rightarrow> u) in
      if extra p then Extra
      else if (verb = ''GET'' \<or> verb = ''HEAD'') \<and> ends_with p ''/file'' then File_route
      else if verb = ''GET'' \<and> ends_with p ''/health'' then Health
      else if verb = ''POST'' \<and> ends_with p ''/rpc'' then Rpc
      else Not_found)"

definition DEFAULT_MAX_PAYLOAD :: nat where "DEFAULT_MAX_PAYLOAD = 24 * 1024 * 1024"

text \<open>
  The body of \<open>/rpc\<close>, chunk by chunk; too much of it is answered at once and the request destroyed,
  so its end never comes.
\<close>

fun rpc_body :: "nat \<Rightarrow> nat \<Rightarrow> string \<Rightarrow> string list \<Rightarrow> string option" where
  "rpc_body max_size n acc [] = Some acc"
| "rpc_body max_size n acc (c # cs) =
     (if max_size < n + length c then None else rpc_body max_size (n + length c) (acc @ c) cs)"

definition rpc :: "nat \<Rightarrow> (jsval \<Rightarrow> string + jsval) \<Rightarrow> string list \<Rightarrow> nat \<times> jsval" where
  "rpc max_size request chunks =
     (let failed = (\<lambda>e. JObj [(''ok'', JBool False), (''error'', JStr e)]) in
      case rpc_body max_size 0 [] chunks of
        None \<Rightarrow> (413, failed ''Request too large'')
      | Some bytes \<Rightarrow>
          (case json_parse (utf8_decode bytes) of
             None \<Rightarrow> (400, failed ''Body is not JSON'')
           | Some v \<Rightarrow>
               (case gateway_answer request v of
                  None \<Rightarrow> (400, failed ''Not a request'')
                | Some r \<Rightarrow> (200, r))))"

section \<open>The gateway's heartbeat\<close>

definition MAX_MISSED :: nat where "MAX_MISSED = 3"

text \<open>
  Who is connected, with the heartbeats missed in a row. A client that is terminated is taken out at
  once here; its \<open>close\<close> event comes a little later, and terminating it again changes nothing.
\<close>

type_synonym beats_missed = "(nat \<times> nat) list"

datatype gw_event =
    Joined nat
  | Heard nat
  | Left nat
  | Sweep "nat \<Rightarrow> bool"

text \<open>\<open>Sweep pings\<close>: whether pinging a client works.\<close>

definition sweep :: "(nat \<Rightarrow> bool) \<Rightarrow> beats_missed \<Rightarrow> beats_missed" where
  "sweep pings m = List.map_filter (\<lambda>(c, n). if MAX_MISSED < n + 1 \<or> \<not> pings c then None else Some (c, n + 1)) m"

fun gw_do :: "gw_event \<Rightarrow> beats_missed \<Rightarrow> beats_missed" where
  "gw_do (Joined c) m = AList.update c 0 m"
| "gw_do (Heard c) m = (if map_of m c = None then m else AList.update c 0 m)"
| "gw_do (Left c) m = AList.delete c m"
| "gw_do (Sweep pings) m = sweep pings m"

section \<open>Chunks do not matter\<close>

lemma line_loop_spec:
  "case fold_until f s (butlast (split_char newline b)) of
     (s', stopped) \<Rightarrow> \<exists>r. line_loop f s b = (s', r) \<and> (\<not> stopped \<longrightarrow> r = last (split_char newline b))"
proof (induction f s b rule: line_loop.induct)
  case (1 f s b)
  show ?case
  proof (cases "newline \<in> set b")
    case True
    let ?line = "takeWhile (\<lambda>c. c \<noteq> newline) b"
    obtain s' ok where f: "f s ?line = (s', ok)" by fastforce
    note parts = split_char_first [OF True]
    show ?thesis
      using "1.IH" [OF True refl refl f [symmetric] refl] parts f True
      by (cases ok) (subst line_loop.simps, simp add: Let_def)+
  next
    case False
    then have "split_char newline b = [b]" by (rule split_char_none)
    with False show ?thesis by (subst line_loop.simps) simp
  qed
qed

text \<open>As long as the handler returns, the lines handled are those of the whole stream.\<close>

lemma chunks_returning:
  assumes "newline \<notin> set b" and "split_char newline (b @ concat (map utf8_decode cs)) = parts"
    and "fold_until f s (butlast parts) = (s', False)"
  shows "fold (on_data f) cs (s, b) = (s', last parts)"
  using assms
proof (induction cs arbitrary: s b parts)
  case Nil
  then show ?case by (simp add: split_char_none) (metis butlast.simps(2) fold_until.simps(1) last.simps prod.inject)
next
  case (Cons c cs)
  let ?p = "split_char newline (b @ utf8_decode c)"
  let ?q = "split_char newline (last ?p @ concat (map utf8_decode cs))"
  have parts: "parts = butlast ?p @ ?q"
    using Cons.prems(2) split_char_append [of newline "b @ utf8_decode c" "concat (map utf8_decode cs)"] by simp
  then have "fold_until f s (butlast ?p @ butlast ?q) = (s', False)"
    using Cons.prems(3) by (simp add: butlast_append split_char_not_Nil)
  then obtain t where t: "fold_until f s (butlast ?p) = (t, False)" "fold_until f t (butlast ?q) = (s', False)"
    by (auto simp: fold_until_append split: prod.splits if_splits)
  then have "on_data f c (s, b) = (t, last ?p)"
    using line_loop_spec [of f s "b @ utf8_decode c"] by (auto simp: on_data_def)
  with Cons.IH [OF last_split_no_sep refl t(2)] parts show ?case by (simp add: split_char_not_Nil)
qed

text \<open>Chunks that each hold whole characters.\<close>

definition whole_chunk :: "string \<Rightarrow> bool" where
  "whole_chunk c = (\<exists>w. c = utf8_encode w)"

lemma utf8_encode_append: "utf8_encode (a @ b) = utf8_encode a @ utf8_encode b"
  by (simp add: utf8_encode_def)

lemma whole_chunks: "list_all whole_chunk cs \<Longrightarrow> concat (map utf8_decode cs) = utf8_decode (concat cs)"
proof -
  assume "list_all whole_chunk cs"
  then have "\<exists>w. concat cs = utf8_encode w \<and> concat (map utf8_decode cs) = w"
  proof (induction cs)
    case (Cons c cs)
    then obtain w v where "concat cs = utf8_encode w" "concat (map utf8_decode cs) = w" "c = utf8_encode v"
      by (auto simp: whole_chunk_def)
    then have "concat (c # cs) = utf8_encode (v @ w) \<and> concat (map utf8_decode (c # cs)) = v @ w"
      by (simp add: utf8_encode_append)
    then show ?case by blast
  qed (simp add: utf8_encode_def)
  then show ?thesis by auto
qed

text \<open>What one end writes, the other handles, in order and each once.\<close>

lemma split_terminated:
  "list_all (\<lambda>l. newline \<notin> set l) ls \<Longrightarrow> split_char newline (concat (map (\<lambda>l. l @ [newline]) ls)) = ls @ [[]]"
proof (induction ls)
  case (Cons l ls)
  then have "split_char newline (l @ [newline]) = [l, []]" by (simp add: split_char_snoc_sep)
  with Cons split_char_append [of newline "l @ [newline]" "concat (map (\<lambda>l. l @ [newline]) ls)"]
  show ?case by simp
qed simp

lemma stream_text:
  "concat (map wire_line vs) = utf8_encode (concat (map (\<lambda>l. l @ [newline]) (map stringify vs)))"
  by (induction vs) (simp_all only: wire_line_def list.map concat.simps utf8_encode_append, simp add: utf8_encode_def)

lemma messages_arrive:
  assumes h: "\<And>v t. v \<in> set vs \<Longrightarrow> f t (stringify v) = (g t v, True)"
    and "list_all whole_chunk cs" and "concat cs = concat (map wire_line vs)"
  shows "fold (on_data f) cs (s, []) = (fold (\<lambda>v t. g t v) vs s, [])"
proof -
  have n: "list_all (\<lambda>l. newline \<notin> set l) (map stringify vs)"
    using stringify_one_line by (auto simp: list_all_iff)
  have "concat (map utf8_decode cs) = concat (map (\<lambda>l. l @ [newline]) (map stringify vs))"
    using whole_chunks [OF assms(2)] assms(3) stream_text [of vs] by simp
  then have parts: "split_char newline ([] @ concat (map utf8_decode cs)) = map stringify vs @ [[]]"
    using split_terminated [OF n] by simp
  have "fold_until f s (map stringify vs) = (fold (\<lambda>v t. g t v) vs s, False)"
    using h by (induction vs arbitrary: s) auto
  then show ?thesis using chunks_returning [OF _ parts, of f s] by simp
qed

lemma handled_lines:
  assumes "json_plain v" and "v \<noteq> JNull"
  shows "client_line g t (stringify v) = (g t v, True)" and "daemon_line g t (stringify v) = (g t v, True)"
  using json_roundtrip [OF assms(1)] stringify_not_blank [of v] assms(2)
  by (auto simp: client_line_def daemon_line_def split: jsval.split)

text \<open>A chunk that ends inside a character: both halves of it are replaced.\<close>

lemma utf8_decode_encode_append: "utf8_decode (utf8_encode w @ r) = w @ utf8_decode r"
  by (induction w) (simp_all add: utf8_encode_def utf8_char_decode)

lemma torn_char:
  assumes "128 \<le> code_of c"
  shows "\<exists>a b. utf8_char c = [a, b] \<and> utf8_decode [a] = [replacement]
    \<and> (\<forall>r. utf8_decode (b # r) = replacement # utf8_decode r)"
proof -
  have n: "code_of c < 256" by (metis of_char_of char_of_char mod_less_divisor zero_less_numeral)
  let ?a = "char_of (192 + code_of c div 64) :: char" and ?b = "char_of (128 + code_of c mod 64) :: char"
  have "192 + code_of c div 64 < 256" "128 + code_of c mod 64 < 256"
    using n mod_less_divisor [of 64 "code_of c"] by linarith+
  then have a: "code_of ?a = 192 + code_of c div 64" and b: "code_of ?b = 128 + code_of c mod 64"
    by (simp_all only: of_char_of mod_less)
  have "utf8_char c = [?a, ?b]" using assms by (simp add: utf8_char_def Let_def)
  moreover have "utf8_decode [?a] = [replacement]" using a by simp
  moreover have "utf8_decode (?b # r) = replacement # utf8_decode r" for r
  proof -
    have "code_of c mod 64 < 64" by simp
    then have "\<not> code_of ?b < 128" "code_of ?b \<noteq> 194" "code_of ?b \<noteq> 195" using b by linarith+
    then show ?thesis by (cases r) (simp_all only: utf8_decode.simps list.case if_False simp_thms)
  qed
  ultimately show ?thesis by blast
qed

lemma torn_chunks:
  assumes "128 \<le> code_of c"
  shows "\<exists>x y. utf8_encode (w @ [c] @ v) = x @ y
    \<and> concat (map utf8_decode [x, y]) = w @ [replacement, replacement] @ v"
proof -
  obtain a b where ab: "utf8_char c = [a, b]" "utf8_decode [a] = [replacement]"
    "\<And>r. utf8_decode (b # r) = replacement # utf8_decode r" using torn_char [OF assms] by blast
  have "utf8_encode (w @ [c] @ v) = (utf8_encode w @ [a]) @ (b # utf8_encode v)"
    using ab(1) by (simp add: utf8_encode_append) (simp add: utf8_encode_def)
  moreover have "concat (map utf8_decode [utf8_encode w @ [a], b # utf8_encode v]) = w @ [replacement, replacement] @ v"
    using ab(2,3) by (simp add: utf8_decode_encode_append)
  ultimately show ?thesis by blast
qed

lemma null_stalls:
  "on_data (daemon_line g) (utf8_encode (stringify JNull @ [newline] @ rest)) (s, []) = (s, rest)"
proof -
  have "takeWhile (\<lambda>c. c \<noteq> newline) (stringify JNull @ [newline] @ rest) = stringify JNull"
    using stringify_one_line [of JNull] by (induction "stringify JNull") auto
  moreover have "newline \<in> set (stringify JNull @ [newline] @ rest)" by simp
  moreover have "daemon_line g s (stringify JNull) = (s, False)"
    using json_roundtrip [of JNull] stringify_not_blank [of JNull] by (simp add: daemon_line_def)
  ultimately show ?thesis unfolding on_data_def
    by (subst line_loop.simps) (simp add: Let_def del: stringify.simps)
qed

section \<open>Who is dropped\<close>

text \<open>Sweeps since the client was last heard of, joining included; \<open>None\<close> when it is not there.\<close>

fun silence :: "nat \<Rightarrow> gw_event \<Rightarrow> nat option \<Rightarrow> nat option" where
  "silence c (Joined d) n = (if d = c then Some 0 else n)"
| "silence c (Heard d) n = (if d = c then map_option (\<lambda>k. 0) n else n)"
| "silence c (Left d) n = (if d = c then None else n)"
| "silence c (Sweep pings) n =
     (case n of None \<Rightarrow> None | Some k \<Rightarrow> if k = MAX_MISSED \<or> \<not> pings c then None else Some (k + 1))"

definition missed_ok :: "beats_missed \<Rightarrow> bool" where
  "missed_ok m = (distinct (map fst m) \<and> (\<forall>(c, n)\<in>set m. n \<le> MAX_MISSED))"

lemma sweep_simps [simp]:
  "sweep pings [] = []"
  "sweep pings ((c, n) # m) = (if MAX_MISSED < n + 1 \<or> \<not> pings c then sweep pings m else (c, n + 1) # sweep pings m)"
  by (simp_all add: sweep_def List.map_filter_simps)

lemma map_of_sweep:
  "distinct (map fst m) \<Longrightarrow> map_of (sweep pings m) c =
     (case map_of m c of None \<Rightarrow> None | Some n \<Rightarrow> if MAX_MISSED < n + 1 \<or> \<not> pings c then None else Some (n + 1))"
proof (induction m)
  case (Cons e m)
  obtain d n where e: "e = (d, n)" by fastforce
  have "d \<notin> fst ` set m" using Cons.prems e by simp
  then have "map_of m d = None" by (simp add: map_of_eq_None_iff)
  with Cons e show ?case by (auto split: option.splits)
qed simp

lemma sweep_keys: "fst ` set (sweep pings m) \<subseteq> fst ` set m"
proof (induction m)
  case (Cons e m)
  then show ?case by (cases e) (simp add: subset_insertI2 insert_mono)
qed simp

lemma sweep_distinct: "distinct (map fst m) \<Longrightarrow> distinct (map fst (sweep pings m))"
proof (induction m)
  case (Cons e m)
  then show ?case using sweep_keys [of pings m] by (cases e) auto
qed simp

lemma gw_do_ok: "missed_ok m \<Longrightarrow> missed_ok (gw_do e m)"
proof (cases e)
  case (Sweep pings)
  assume m: "missed_ok m"
  then have d: "distinct (map fst (sweep pings m))" using sweep_distinct by (simp add: missed_ok_def)
  have "n \<le> MAX_MISSED" if "(c, n) \<in> set (sweep pings m)" for c n
    using map_of_is_SomeI [OF d that] m map_of_sweep [of m pings c]
    by (auto simp: missed_ok_def split: option.splits if_splits)
  with d Sweep show ?thesis by (auto simp: missed_ok_def)
qed (auto simp: missed_ok_def distinct_update MAX_MISSED_def AList.delete_eq distinct_map_filter dest!: set_update [THEN subsetD])

lemma gw_do_silence:
  assumes "missed_ok m"
  shows "map_of (gw_do e m) c = silence c e (map_of m c)"
proof -
  have le: "n \<le> MAX_MISSED" if "map_of m c = Some n" for n
    using map_of_SomeD [OF that] assms by (auto simp: missed_ok_def)
  show ?thesis using assms le
    by (cases e) (auto simp: missed_ok_def update_conv' AList.delete_conv' map_of_sweep split: option.split)
qed

lemma gw_run_silence:
  "missed_ok (fold gw_do es []) \<and> map_of (fold gw_do es []) c = fold (silence c) es None"
proof (induction es rule: rev_induct)
  case (snoc e es)
  then show ?case using gw_do_ok gw_do_silence by simp
qed (simp add: missed_ok_def)

end
