(* ===== verification/DaemonClient.thy ===== *)
theory DaemonClient
  imports Wire
begin

text \<open>
  The editor's end of the connection (\<open>daemonClient.ts\<close>): which daemon it accepts and which it
  replaces, how it waits for a quiet moment to do so, how it tries to connect, and its open requests.
  \<open>newerInstall.ts\<close> uses the same order of versions. The lemmas: versions are ordered, the newest
  build wins and windows that see each other's installs do not replace each other's daemons for ever, connecting ends after at most
  forty attempts, and every request is settled once.
\<close>

section \<open>Versions\<close>

text \<open>\<open>Number.parseInt(n, 10) || 0\<close>.\<close>

definition parseInt10 :: "string \<Rightarrow> int" where
  "parseInt10 s =
     (case trim_start s of
        [] \<Rightarrow> 0
      | c # r \<Rightarrow>
          if c = CHR ''-'' then - int (read_nat (takeWhile is_digit r))
          else if c = CHR ''+'' then int (read_nat (takeWhile is_digit r))
          else int (read_nat (takeWhile is_digit (c # r))))"

definition version_parts :: "string \<Rightarrow> int list" where
  "version_parts v = map parseInt10 (split_char (CHR ''.'') v)"

text \<open>The loop over the longer of the two; a missing part is 0.\<close>

fun compare_parts :: "int list \<Rightarrow> int list \<Rightarrow> int" where
  "compare_parts [] [] = 0"
| "compare_parts (x # xs) [] = (if x = 0 then compare_parts xs [] else if x < 0 then - 1 else 1)"
| "compare_parts [] (y # ys) = (if y = 0 then compare_parts [] ys else if 0 < y then - 1 else 1)"
| "compare_parts (x # xs) (y # ys) = (if x = y then compare_parts xs ys else if x < y then - 1 else 1)"

definition compareVersions :: "string \<Rightarrow> string \<Rightarrow> int" where
  "compareVersions a b = compare_parts (version_parts a) (version_parts b)"

section \<open>Which daemon is accepted\<close>

definition EXPECTED_PROTOCOL :: int where "EXPECTED_PROTOCOL = 32"

record hello_result =
  hr_protocol :: int
  hr_pid :: nat
  hr_entry :: string
  hr_version :: "string option"

record staleness =
  st_reason :: string
  st_urgent :: bool

definition show_int :: "int \<Rightarrow> string" where
  "show_int n = show_num (of_int n)"

text \<open>The members that may be null or empty count only when they are neither.\<close>

definition is_given :: "string option \<Rightarrow> bool" where
  "is_given v = (case v of None \<Rightarrow> False | Some s \<Rightarrow> s \<noteq> [])"

definition stalenessOf ::
    "(string \<Rightarrow> bool) \<Rightarrow> hello_result \<Rightarrow> int \<Rightarrow> string option \<Rightarrow> staleness option" where
  "stalenessOf exists info expected ours =
     (if hr_protocol info \<noteq> expected
      then Some \<lparr>st_reason = ''Outdated daemon (protocol '' @ show_int (hr_protocol info) @ '' vs ''
                   @ show_int expected @ '')'', st_urgent = True\<rparr>
      else if hr_entry info \<noteq> [] \<and> \<not> exists (hr_entry info)
      then Some \<lparr>st_reason = ''Daemon running from a deleted install ('' @ hr_entry info @ '')'', st_urgent = True\<rparr>
      else if is_given ours \<and> is_given (hr_version info) \<and> compareVersions (the (hr_version info)) (the ours) < 0
      then Some \<lparr>st_reason = ''Daemon from an older build ('' @ the (hr_version info) @ '' vs '' @ the ours @ '')'',
                 st_urgent = False\<rparr>
      else None)"

definition stalenessReason :: "(string \<Rightarrow> bool) \<Rightarrow> hello_result \<Rightarrow> int \<Rightarrow> string option \<Rightarrow> string option" where
  "stalenessReason exists info expected ours = map_option st_reason (stalenessOf exists info expected ours)"

text \<open>\<open>anySessionRunning\<close>, on the answer to \<open>listSessions\<close>.\<close>

definition session_busy :: "jsval \<Rightarrow> bool" where
  "session_busy s = (js_truthy (js_prop s ''busy'') \<or> js_prop s ''status'' = JStr ''running'')"

definition anySessionRunning :: "jsval list \<Rightarrow> bool" where
  "anySessionRunning ss = list_ex session_busy ss"

text \<open>
  What \<open>verifyProtocol\<close> comes to: the daemon is used, used until the machine is quiet, left alone
  because it is newer, told to stop, or cannot be. \<open>running\<close> is the answer to the question whether a
  session runs, \<open>None\<close> when asking fails; \<open>eperm\<close> that the signal is not permitted.
\<close>

datatype verdict = Usable | Deferred string nat | Too_new int | Unkillable nat | Stopped string nat

definition verifyProtocol ::
    "(string \<Rightarrow> bool) \<Rightarrow> int \<Rightarrow> string option \<Rightarrow> hello_result \<Rightarrow> bool option \<Rightarrow> bool \<Rightarrow> verdict" where
  "verifyProtocol exists expected ours info running eperm =
     (case stalenessOf exists info expected ours of
        None \<Rightarrow> Usable
      | Some st \<Rightarrow>
          if \<not> st_urgent st \<and> running = Some True then Deferred (st_reason st) (hr_pid info)
          else if expected < hr_protocol info then Too_new (hr_protocol info)
          else if eperm then Unkillable (hr_pid info)
          else Stopped (st_reason st) (hr_pid info))"

section \<open>Waiting for a quiet moment\<close>

definition UPGRADE_DEFER_LIMIT_MS :: int where "UPGRADE_DEFER_LIMIT_MS = 2 * 60 * 60000"

text \<open>The watch: whom to stop and since when; a second one is not started.\<close>

type_synonym idle_watch = "(nat \<times> int) option"

definition deferUpgrade :: "nat \<Rightarrow> int \<Rightarrow> idle_watch \<Rightarrow> idle_watch" where
  "deferUpgrade pid now w = (case w of Some x \<Rightarrow> Some x | None \<Rightarrow> Some (pid, now))"

text \<open>One tick, and the process it signals.\<close>

definition idle_tick :: "bool option \<Rightarrow> int \<Rightarrow> idle_watch \<Rightarrow> idle_watch \<times> nat option" where
  "idle_tick running now w =
     (case (w, running) of
        (Some (pid, since), Some busy) \<Rightarrow>
          if busy \<and> now - since < UPGRADE_DEFER_LIMIT_MS then (w, None) else (None, Some pid)
      | _ \<Rightarrow> (w, None))"

section \<open>Connecting\<close>

definition CONNECT_ATTEMPTS :: nat where "CONNECT_ATTEMPTS = 40"

text \<open>
  What one attempt meets: a socket that opens or an error, the answer to \<open>hello\<close> or an error,
  whether anything listens afterwards, an error of starting the daemon, and one of its process.
\<close>

record attempt =
  at_connect :: "string option"
  at_hello :: "string + hello_result"
  at_exists :: "string \<Rightarrow> bool"
  at_running :: "bool option"
  at_eperm :: bool
  at_alive :: bool
  at_spawn :: "string option"
  at_child :: "string option"

datatype attempt_result = Works | Fails string | Fatal string

definition too_new_text :: "int \<Rightarrow> int \<Rightarrow> string" where
  "too_new_text theirs ours =
     ''Daemon is newer (protocol '' @ show_int theirs @ '' > '' @ show_int ours @ '') '' @ [CHR 0x97]
     @ '' update this window'' @ [CHR 0x27] @ ''s extension and reload''"

definition unkillable_text :: "nat \<Rightarrow> string" where
  "unkillable_text pid =
     ''An outdated claude-persist daemon (pid '' @ show_nat pid @ '') is running and could not be stopped ''
     @ [CHR 0x97] @ '' it may belong to another user. Stop it manually (kill '' @ show_nat pid
     @ '') and reload the window.''"

definition try_once :: "int \<Rightarrow> string option \<Rightarrow> attempt \<Rightarrow> attempt_result" where
  "try_once expected ours a =
     (case at_connect a of
        Some e \<Rightarrow> Fails e
      | None \<Rightarrow>
          (case at_hello a of
             Inl e \<Rightarrow> Fails e
           | Inr info \<Rightarrow>
               (case verifyProtocol (at_exists a) expected ours info (at_running a) (at_eperm a) of
                  Usable \<Rightarrow> Works
                | Deferred r pid \<Rightarrow> Works
                | Too_new p \<Rightarrow> Fatal (too_new_text p expected)
                | Unkillable pid \<Rightarrow> Fatal (unkillable_text pid)
                | Stopped r pid \<Rightarrow> Fails (r @ '' '' @ [CHR 0x97] @ '' restarting''))))"

datatype connect_result = Connected_at nat | Refused string | Gave_up string

definition gave_up :: "string \<Rightarrow> string option \<Rightarrow> string" where
  "gave_up last_error spawn_error =
     ''Could not start claude-persist daemon: '' @ (case spawn_error of Some e \<Rightarrow> e | None \<Rightarrow> last_error)"

definition or_old :: "'a option \<Rightarrow> 'a option \<Rightarrow> 'a option" where
  "or_old new old = (case new of Some x \<Rightarrow> Some x | None \<Rightarrow> old)"

text \<open>
  The loop, with the attempts still to come, the attempt's number, the last error, and the last error
  of a spawned process; the second result is at which attempts a daemon was started.
\<close>

fun connect_loop ::
    "int \<Rightarrow> string option \<Rightarrow> (nat \<Rightarrow> attempt) \<Rightarrow> nat \<Rightarrow> nat \<Rightarrow> string \<Rightarrow> string option \<Rightarrow> nat list
     \<Rightarrow> connect_result \<times> nat list" where
  "connect_loop expected ours tries 0 i err serr started = (Gave_up (gave_up err serr), started)"
| "connect_loop expected ours tries (Suc n) i err serr started =
     (case try_once expected ours (tries i) of
        Works \<Rightarrow> (Connected_at i, started)
      | Fatal e \<Rightarrow> (Refused e, started)
      | Fails e \<Rightarrow>
          if at_alive (tries i) then connect_loop expected ours tries n (Suc i) e (or_old (at_child (tries i)) serr) started
          else (case at_spawn (tries i) of
                  Some e' \<Rightarrow> connect_loop expected ours tries n (Suc i) e' (or_old (at_child (tries i)) serr) started
                | None \<Rightarrow> connect_loop expected ours tries n (Suc i) e (or_old (at_child (tries i)) serr) (started @ [i])))"

definition connect :: "string option \<Rightarrow> (nat \<Rightarrow> attempt) \<Rightarrow> connect_result \<times> nat list" where
  "connect ours tries = connect_loop EXPECTED_PROTOCOL ours tries CONNECT_ATTEMPTS 0 ''undefined'' None []"

section \<open>Open requests\<close>

text \<open>
  The promises by number, with the socket each was written to; \<open>dc_settled\<close> is how each ended, in
  order. A socket is a number; a destroyed one reports \<open>close\<close> later.
\<close>

datatype settlement = Resolved_as jsval | Rejected string

record client =
  dc_socket :: "nat option"
  dc_destroyed :: "nat list"
  dc_nextId :: nat
  dc_pending :: "(nat \<times> nat) list"
  dc_settled :: "(nat \<times> settlement) list"
  dc_disconnects :: nat

definition client_new :: client where
  "client_new = \<lparr>dc_socket = None, dc_destroyed = [], dc_nextId = 1, dc_pending = [], dc_settled = [], dc_disconnects = 0\<rparr>"

definition connected :: "client \<Rightarrow> bool" where
  "connected c = (case dc_socket c of None \<Rightarrow> False | Some s \<Rightarrow> s \<notin> set (dc_destroyed c))"

definition lost_text :: string where "lost_text = ''Daemon connection lost''"

definition unanswered_text :: "string \<Rightarrow> nat \<Rightarrow> string" where
  "unanswered_text oper ms =
     ''Daemon did not respond to '' @ [CHR 0x27] @ oper @ [CHR 0x27] @ '' within '' @ show_nat ms @ ''ms''"

text \<open>The number of the request, \<open>None\<close> when it is rejected at once.\<close>

definition send_request :: "client \<Rightarrow> nat option \<times> client" where
  "send_request c =
     (case dc_socket c of
        Some s \<Rightarrow>
          if s \<in> set (dc_destroyed c) then (None, c)
          else (Some (dc_nextId c), c \<lparr>dc_nextId := dc_nextId c + 1,
                  dc_pending := AList.update (dc_nextId c) s (dc_pending c)\<rparr>)
      | None \<Rightarrow> (None, c))"

definition settle :: "nat \<Rightarrow> settlement \<Rightarrow> client \<Rightarrow> client" where
  "settle i r c = c \<lparr>dc_pending := AList.delete i (dc_pending c), dc_settled := dc_settled c @ [(i, r)]\<rparr>"

text \<open>A response, a timer, and a socket that is gone.\<close>

definition dispatch_response :: "nat \<Rightarrow> settlement \<Rightarrow> client \<Rightarrow> client" where
  "dispatch_response i r c = (if map_of (dc_pending c) i = None then c else settle i r c)"

definition request_timeout :: "nat \<Rightarrow> string \<Rightarrow> nat \<Rightarrow> client \<Rightarrow> client" where
  "request_timeout i oper ms c =
     (case map_of (dc_pending c) i of
        None \<Rightarrow> c
      | Some s \<Rightarrow> (settle i (Rejected (unanswered_text oper ms)) c) \<lparr>dc_destroyed := s # dc_destroyed c\<rparr>)"

definition on_gone :: "nat \<Rightarrow> client \<Rightarrow> client" where
  "on_gone s c =
     (if dc_socket c = Some s
      then c \<lparr>dc_socket := None, dc_pending := [],
              dc_settled := dc_settled c @ map (\<lambda>p. (fst p, Rejected lost_text)) (dc_pending c),
              dc_disconnects := dc_disconnects c + 1\<rparr>
      else c)"

definition on_connected :: "nat \<Rightarrow> client \<Rightarrow> client" where
  "on_connected s c = c \<lparr>dc_socket := Some s\<rparr>"

text \<open>Leaving a socket on purpose, after a handshake and at the end: the field first.\<close>

definition drop_socket :: "client \<Rightarrow> client" where
  "drop_socket c =
     c \<lparr>dc_socket := None,
        dc_destroyed := (case dc_socket c of None \<Rightarrow> dc_destroyed c | Some s \<Rightarrow> s # dc_destroyed c)\<rparr>"

datatype client_event =
    Requested
  | Responded nat settlement
  | Timed_out nat string nat
  | Socket_gone nat
  | Socket_open nat
  | Dropped

fun client_do :: "client_event \<Rightarrow> client \<Rightarrow> client" where
  "client_do Requested c = snd (send_request c)"
| "client_do (Responded i r) c = dispatch_response i r c"
| "client_do (Timed_out i oper ms) c = request_timeout i oper ms c"
| "client_do (Socket_gone s) c = on_gone s c"
| "client_do (Socket_open s) c = on_connected s c"
| "client_do Dropped c = drop_socket c"

section \<open>A newer install\<close>

definition newer_step :: "string \<Rightarrow> string \<Rightarrow> string option \<Rightarrow> string option" where
  "newer_step ours candidate best =
     (if compareVersions candidate ours \<le> 0 then best
      else case best of
        None \<Rightarrow> Some candidate
      | Some b \<Rightarrow> if 0 < compareVersions candidate b then Some candidate else best)"

definition newerInstalledVersion :: "string \<Rightarrow> string list \<Rightarrow> string option" where
  "newerInstalledVersion ours installed = fold (newer_step ours) installed None"

section \<open>Versions are ordered\<close>

text \<open>The parts of a version as a sequence that ends in zeros.\<close>

definition part :: "int list \<Rightarrow> nat \<Rightarrow> int" where
  "part xs i = (if i < length xs then xs ! i else 0)"

definition before :: "(nat \<Rightarrow> int) \<Rightarrow> (nat \<Rightarrow> int) \<Rightarrow> bool" where
  "before f g = (\<exists>i. f i < g i \<and> (\<forall>j<i. f j = g j))"

lemma part_simps [simp]: "part [] = (\<lambda>i. 0)" "part (x # xs) 0 = x" "part (x # xs) (Suc i) = part xs i"
  by (simp_all add: part_def fun_eq_iff)

lemma fun_eq_step: "f = g \<longleftrightarrow> f 0 = g (0::nat) \<and> (\<lambda>i. f (Suc i)) = (\<lambda>i. g (Suc i))"
proof
  assume r: "f 0 = g 0 \<and> (\<lambda>i. f (Suc i)) = (\<lambda>i. g (Suc i))"
  have "f i = g i" for i using r by (cases i) (auto dest: fun_cong)
  then show "f = g" by (rule ext)
qed simp

lemma before_step:
  "before f g = (if f 0 = g 0 then before (\<lambda>i. f (Suc i)) (\<lambda>i. g (Suc i)) else f 0 < g 0)"
proof (cases "f 0 = g 0")
  case True
  have "before f g \<longleftrightarrow> before (\<lambda>i. f (Suc i)) (\<lambda>i. g (Suc i))"
  proof
    assume "before f g"
    then obtain i where i: "f i < g i" "\<forall>j<i. f j = g j" by (auto simp: before_def)
    then obtain k where "i = Suc k" using True by (cases i) auto
    with i show "before (\<lambda>i. f (Suc i)) (\<lambda>i. g (Suc i))" unfolding before_def by auto
  next
    assume "before (\<lambda>i. f (Suc i)) (\<lambda>i. g (Suc i))"
    then obtain i where "f (Suc i) < g (Suc i)" "\<forall>j<i. f (Suc j) = g (Suc j)" by (auto simp: before_def)
    then show "before f g" using True unfolding before_def
      by (intro exI [of _ "Suc i"]) (auto simp: less_Suc_eq_0_disj)
  qed
  with True show ?thesis by simp
next
  case False
  then show ?thesis unfolding before_def by (metis not_less0 gr0I)
qed

lemma before_less: "before f g \<Longrightarrow> \<not> before g f" and before_trans: "before f g \<Longrightarrow> before g h \<Longrightarrow> before f h"
proof -
  show "before f g \<Longrightarrow> \<not> before g f" unfolding before_def by (metis linorder_neqE_nat order_less_asym)
  assume "before f g" and "before g h"
  then obtain i k where ik: "f i < g i" "\<forall>j<i. f j = g j" "g k < h k" "\<forall>j<k. g j = h j" by (auto simp: before_def)
  then have "f (min i k) < h (min i k)" "\<forall>j<min i k. f j = h j"
    by (cases i k rule: linorder_cases; simp add: min_def)+
  then show "before f h" by (auto simp: before_def)
qed

text \<open>Comparing is looking for the first part that differs.\<close>

lemma compare_parts_spec:
  "(compare_parts xs ys = - 1 \<longleftrightarrow> before (part xs) (part ys))
   \<and> (compare_parts xs ys = 1 \<longleftrightarrow> before (part ys) (part xs))
   \<and> (compare_parts xs ys = 0 \<longleftrightarrow> part xs = part ys)
   \<and> compare_parts xs ys \<in> {- 1, 0, 1}"
proof (induction xs ys rule: compare_parts.induct)
  case 1
  show ?case by (auto simp: before_def)
next
  case (2 x xs)
  have "part (x # xs) = part [] \<longleftrightarrow> x = 0 \<and> part xs = part []"
    by (simp only: fun_eq_step [of "part (x # xs)" "\<lambda>i. 0"] part_simps)
  moreover have "before (part (x # xs)) (part []) = (if x = 0 then before (part xs) (part []) else x < 0)"
    "before (part []) (part (x # xs)) = (if x = 0 then before (part []) (part xs) else 0 < x)"
    by (subst before_step, simp)+
  ultimately show ?case using 2 by (cases "x = 0"; cases "x < 0"; simp)
next
  case (3 y ys)
  have "part [] = part (y # ys) \<longleftrightarrow> y = 0 \<and> part [] = part ys"
    by (simp only: fun_eq_step [of "\<lambda>i. 0" "part (y # ys)"] part_simps eq_commute [of 0 y])
  moreover have "before (part (y # ys)) (part []) = (if y = 0 then before (part ys) (part []) else y < 0)"
    "before (part []) (part (y # ys)) = (if y = 0 then before (part []) (part ys) else 0 < y)"
    by (subst before_step, simp)+
  ultimately show ?case using 3 by (cases "y = 0"; cases "0 < y"; simp)
next
  case (4 x xs y ys)
  have "part (x # xs) = part (y # ys) \<longleftrightarrow> x = y \<and> part xs = part ys"
    by (simp only: fun_eq_step [of "part (x # xs)" "part (y # ys)"] part_simps)
  moreover have "before (part (x # xs)) (part (y # ys)) = (if x = y then before (part xs) (part ys) else x < y)"
    "before (part (y # ys)) (part (x # xs)) = (if x = y then before (part ys) (part xs) else y < x)"
    by (subst before_step, simp)+
  ultimately show ?case using 4 by (cases "x = y"; cases "x < y"; simp)
qed

definition version_at :: "string \<Rightarrow> nat \<Rightarrow> int" where
  "version_at v = part (version_parts v)"

lemma compareVersions_cases:
  "(compareVersions a b = - 1 \<longleftrightarrow> before (version_at a) (version_at b))
   \<and> (compareVersions a b = 1 \<longleftrightarrow> before (version_at b) (version_at a))
   \<and> (compareVersions a b = 0 \<longleftrightarrow> version_at a = version_at b)
   \<and> compareVersions a b \<in> {- 1, 0, 1}"
  unfolding compareVersions_def version_at_def by (rule compare_parts_spec)

lemma compareVersions_less: "compareVersions a b < 0 \<longleftrightarrow> before (version_at a) (version_at b)"
proof -
  have "compareVersions a b < 0 \<longleftrightarrow> compareVersions a b = - 1" using compareVersions_cases [of a b] by auto
  then show ?thesis using compareVersions_cases [of a b] by blast
qed

lemma compareVersions_more: "0 < compareVersions a b \<longleftrightarrow> before (version_at b) (version_at a)"
proof -
  have "0 < compareVersions a b \<longleftrightarrow> compareVersions a b = 1" using compareVersions_cases [of a b] by auto
  then show ?thesis using compareVersions_cases [of a b] by blast
qed

lemma compareVersions_same: "compareVersions a b = 0 \<longleftrightarrow> version_at a = version_at b"
  using compareVersions_cases [of a b] by blast

lemma compareVersions_refl [simp]: "compareVersions a a = 0"
  by (simp add: compareVersions_same)

lemma compareVersions_swap: "compareVersions b a = - compareVersions a b"
proof -
  have "compareVersions a b = - 1 \<longleftrightarrow> compareVersions b a = 1" "compareVersions a b = 1 \<longleftrightarrow> compareVersions b a = - 1"
    "compareVersions a b \<in> {- 1, 0, 1}" "compareVersions b a \<in> {- 1, 0, 1}"
    using compareVersions_cases [of a b] compareVersions_cases [of b a] by blast+
  then show ?thesis by auto
qed

lemma compareVersions_trans: "compareVersions a b \<le> 0 \<Longrightarrow> compareVersions b c \<le> 0 \<Longrightarrow> compareVersions a c \<le> 0"
proof -
  have le: "compareVersions x y \<le> 0 \<longleftrightarrow> before (version_at x) (version_at y) \<or> version_at x = version_at y" for x y
    using compareVersions_less [of x y] compareVersions_same [of x y] by linarith
  show "compareVersions a b \<le> 0 \<Longrightarrow> compareVersions b c \<le> 0 \<Longrightarrow> compareVersions a c \<le> 0"
    unfolding le using before_trans by metis
qed

section \<open>The newest build wins\<close>

text \<open>
  A build of the extension: its protocol, its version where it knows it, and the file of the daemon it
  starts. \<open>stops\<close> is what a window of one build does to a daemon that one of another started, when no
  session runs; \<open>exists\<close> is what that window sees on disk.
\<close>

record build =
  bd_protocol :: int
  bd_version :: "string option"
  bd_entry :: string

definition daemon_of :: "build \<Rightarrow> hello_result" where
  "daemon_of b = \<lparr>hr_protocol = bd_protocol b, hr_pid = 1, hr_entry = bd_entry b, hr_version = bd_version b\<rparr>"

definition is_stopped :: "verdict \<Rightarrow> bool" where
  "is_stopped v = (case v of Stopped r pid \<Rightarrow> True | _ \<Rightarrow> False)"

definition stops :: "(string \<Rightarrow> bool) \<Rightarrow> build \<Rightarrow> build \<Rightarrow> bool" where
  "stops exists w d =
     is_stopped (verifyProtocol exists (bd_protocol w) (bd_version w) (daemon_of d) (Some False) False)"

text \<open>The daemon is older, by its protocol or by its version.\<close>

definition older_build :: "build \<Rightarrow> build \<Rightarrow> bool" where
  "older_build d w =
     (bd_protocol d < bd_protocol w
      \<or> bd_protocol d = bd_protocol w \<and> is_given (bd_version w) \<and> is_given (bd_version d)
        \<and> before (version_at (the (bd_version d))) (version_at (the (bd_version w))))"

text \<open>The code of the daemon is gone, as a window of the same protocol sees it.\<close>

definition install_gone :: "(string \<Rightarrow> bool) \<Rightarrow> build \<Rightarrow> build \<Rightarrow> bool" where
  "install_gone exists d w = (bd_protocol d = bd_protocol w \<and> bd_entry d \<noteq> [] \<and> \<not> exists (bd_entry d))"

lemma stops_iff: "stops exists w d \<longleftrightarrow> older_build d w \<or> install_gone exists d w"
  by (auto simp: stops_def is_stopped_def verifyProtocol_def daemon_of_def older_build_def install_gone_def stalenessOf_def
      compareVersions_less split: option.splits)

text \<open>Running sessions and missing permissions only ever spare a daemon.\<close>

lemma stopped_stops:
  "verifyProtocol exists (bd_protocol w) (bd_version w) (daemon_of d) running eperm = Stopped r pid \<Longrightarrow> stops exists w d"
  by (auto simp: stops_def is_stopped_def verifyProtocol_def split: option.splits if_splits)

lemma older_build_irrefl: "\<not> older_build b b"
  using compareVersions_less [of "the (bd_version b)" "the (bd_version b)"] by (simp add: older_build_def)

lemma older_build_trans: "older_build a b \<Longrightarrow> older_build b c \<Longrightarrow> older_build a c"
  unfolding older_build_def using before_trans by (elim disjE conjE) auto

lemma older_build_acyclic: "acyclic {(w, d). older_build d w}"
proof -
  have "trans {(w, d). older_build d w}" using older_build_trans by (auto simp: trans_def)
  moreover have "irrefl {(w, d). older_build d w}" using older_build_irrefl by (auto simp: irrefl_def)
  ultimately show ?thesis by (simp add: acyclic_irrefl)
qed

lemma stops_acyclic:
  assumes "\<And>w d. w \<in> B \<Longrightarrow> d \<in> B \<Longrightarrow> bd_entry d = [] \<or> sees w (bd_entry d)"
  shows "acyclic {(w, d). w \<in> B \<and> d \<in> B \<and> stops (sees w) w d}"
  by (rule acyclic_subset [OF older_build_acyclic]) (use assms in \<open>auto simp: stops_iff install_gone_def\<close>)

text \<open>Two windows of one protocol that do not see each other's installs stop each other's daemons.\<close>

lemma blind_windows_fight:
  assumes "bd_protocol a = bd_protocol b" and "bd_entry a \<noteq> []" and "bd_entry b \<noteq> []"
    and "\<not> sees a (bd_entry b)" and "\<not> sees b (bd_entry a)"
  shows "stops (sees a) a b \<and> stops (sees b) b a"
  using assms by (auto simp: stops_iff install_gone_def)

section \<open>Connecting ends\<close>

text \<open>The first attempt that does not merely fail decides.\<close>

lemma connect_loop_spec:
  "fst (connect_loop p v tries n i err serr st) =
     (case List.find (\<lambda>k. \<not> (\<exists>e. try_once p v (tries k) = Fails e)) [i..<i + n] of
        Some k \<Rightarrow> (case try_once p v (tries k) of Works \<Rightarrow> Connected_at k | Fatal e \<Rightarrow> Refused e | Fails e \<Rightarrow> Gave_up e)
      | None \<Rightarrow> fst (connect_loop p v tries n i err serr st))
   \<and> (List.find (\<lambda>k. \<not> (\<exists>e. try_once p v (tries k) = Fails e)) [i..<i + n] = None \<longrightarrow>
        (\<exists>w. fst (connect_loop p v tries n i err serr st) = Gave_up w))
   \<and> (\<exists>ks. snd (connect_loop p v tries n i err serr st) = st @ ks \<and> distinct ks
        \<and> set ks \<subseteq> {k. i \<le> k \<and> k < i + n \<and> \<not> at_alive (tries k) \<and> at_spawn (tries k) = None})"
proof (induction n arbitrary: i err serr st)
  case (Suc n)
  have u: "[i..<i + Suc n] = i # [Suc i..<Suc i + n]" by (simp add: upt_rec)
  show ?case
  proof (cases "try_once p v (tries i)")
    case (Fails e)
    show ?thesis
    proof (cases "at_alive (tries i) \<or> at_spawn (tries i) \<noteq> None")
      case True
      then obtain e' where r: "connect_loop p v tries (Suc n) i err serr st
          = connect_loop p v tries n (Suc i) e' (or_old (at_child (tries i)) serr) st"
        using Fails by (cases "at_alive (tries i)") auto
      show ?thesis unfolding r u using Suc.IH [of "Suc i" e' "or_old (at_child (tries i)) serr" st] Fails
        by (fastforce simp del: upt_Suc)
    next
      case False
      then have r: "connect_loop p v tries (Suc n) i err serr st
          = connect_loop p v tries n (Suc i) e (or_old (at_child (tries i)) serr) (st @ [i])"
        using Fails by simp
      obtain ks where ks: "snd (connect_loop p v tries n (Suc i) e (or_old (at_child (tries i)) serr) (st @ [i])) = (st @ [i]) @ ks"
        "distinct ks" "set ks \<subseteq> {k. Suc i \<le> k \<and> k < Suc i + n \<and> \<not> at_alive (tries k) \<and> at_spawn (tries k) = None}"
        using Suc.IH [of "Suc i" e "or_old (at_child (tries i)) serr" "st @ [i]"] by blast
      then have "\<exists>ks. (st @ [i]) @ ks' = st @ ks \<and> distinct ks
          \<and> set ks \<subseteq> {k. i \<le> k \<and> k < i + Suc n \<and> \<not> at_alive (tries k) \<and> at_spawn (tries k) = None}" if "ks' = ks" for ks'
        using that False by (intro exI [of _ "i # ks"]) auto
      with ks(1) Suc.IH [of "Suc i" e "or_old (at_child (tries i)) serr" "st @ [i]"] Fails
      show ?thesis unfolding r u by (auto simp del: upt_Suc)
    qed
  next
    case Works
    then show ?thesis unfolding u by simp
  next
    case (Fatal e)
    then show ?thesis unfolding u by simp
  qed
qed auto

section \<open>Every request is settled once\<close>

definition client_ok :: "client \<Rightarrow> bool" where
  "client_ok c =
     (0 < dc_nextId c \<and> distinct (map fst (dc_pending c) @ map fst (dc_settled c))
      \<and> set (map fst (dc_pending c) @ map fst (dc_settled c)) = {1..<dc_nextId c})"

lemma client_new_ok: "client_ok client_new"
  by (simp add: client_ok_def client_new_def)

lemma settle_ok:
  assumes "client_ok c" and "map_of (dc_pending c) i \<noteq> None"
  shows "client_ok (settle i r c)"
proof -
  have i: "i \<in> fst ` set (dc_pending c)" using assms(2) by (auto simp: map_of_eq_None_iff)
  have k: "fst ` set (AList.delete i (dc_pending c)) = fst ` set (dc_pending c) - {i}"
    by (auto simp: AList.delete_eq image_iff)
  have d: "distinct (map fst (AList.delete i (dc_pending c)))"
    using assms(1) by (simp add: client_ok_def distinct_delete)
  show ?thesis using assms(1) i d unfolding client_ok_def settle_def by (auto simp: k)
qed

lemma client_do_ok: "client_ok c \<Longrightarrow> client_ok (client_do e c)"
proof (cases e)
  case Requested
  assume c: "client_ok c"
  have "client_ok (c \<lparr>dc_nextId := dc_nextId c + 1, dc_pending := AList.update (dc_nextId c) s (dc_pending c)\<rparr>)" for s
    using c by (auto simp: client_ok_def distinct_update dom_update)
  with c Requested show ?thesis by (auto simp: send_request_def split: option.split)
next
  case (Timed_out i oper ms)
  assume c: "client_ok c"
  have "client_ok (x \<lparr>dc_destroyed := ds\<rparr>)" if "client_ok x" for x ds using that by (simp add: client_ok_def)
  with c settle_ok [OF c, of i] Timed_out show ?thesis by (auto simp: request_timeout_def split: option.split)
next
  case (Socket_gone s)
  assume c: "client_ok c"
  have k: "fst \<circ> (\<lambda>p. (fst p, Rejected lost_text)) = (fst :: nat \<times> nat \<Rightarrow> nat)" by (rule ext) simp
  from c have "distinct (map fst (dc_settled c) @ map fst (dc_pending c))"
    "set (map fst (dc_settled c) @ map fst (dc_pending c)) = {1..<dc_nextId c}" "0 < dc_nextId c"
    by (auto simp: client_ok_def)
  with c k Socket_gone show ?thesis by (simp add: client_ok_def on_gone_def image_image image_Un)
next
  case (Responded i r)
  assume "client_ok c"
  then show ?thesis using Responded settle_ok by (simp add: dispatch_response_def)
qed (simp_all add: client_ok_def on_connected_def drop_socket_def)

lemma client_run_ok: "client_ok (fold client_do es client_new)"
  by (induction es rule: rev_induct) (simp_all add: client_new_ok client_do_ok)

section \<open>The newest install is named\<close>

lemma newer_from:
  assumes "fold (newer_step ours) vs best = Some b" and "\<And>x. best = Some x \<Longrightarrow> 0 < compareVersions x ours"
  shows "(b \<in> set vs \<or> best = Some b) \<and> 0 < compareVersions b ours
    \<and> (\<forall>x. x \<in> set vs \<or> best = Some x \<longrightarrow> compareVersions x b \<le> 0)"
  using assms
proof (induction vs arbitrary: best)
  case (Cons v vs)
  have p: "0 < compareVersions x ours" if "newer_step ours v best = Some x" for x
    using that Cons.prems(2) by (auto simp: newer_step_def split: if_splits option.splits)
  from Cons.IH [OF _ p] Cons.prems(1)
  have ih: "b \<in> set vs \<or> newer_step ours v best = Some b" "0 < compareVersions b ours"
    "\<And>x. x \<in> set vs \<or> newer_step ours v best = Some x \<Longrightarrow> compareVersions x b \<le> 0" by auto
  note le = compareVersions_trans
  have up: "compareVersions x b \<le> 0" if "best = Some x" for x
  proof (cases "newer_step ours v best = Some x")
    case False
    then have n: "newer_step ours v best = Some v" "0 < compareVersions v x"
      using that by (auto simp: newer_step_def split: if_splits)
    then show ?thesis using le [of x v b] ih(3) [of v] compareVersions_swap [of x v] by simp
  qed (use ih(3) in blast)
  have "compareVersions v b \<le> 0"
  proof (cases "newer_step ours v best = Some v")
    case False
    then consider "compareVersions v ours \<le> 0" | x where "best = Some x" "compareVersions v x \<le> 0"
      by (auto simp: newer_step_def split: if_splits option.splits)
    then show ?thesis
    proof cases
      case 1
      then show ?thesis using le [of v ours b] ih(2) compareVersions_swap [of ours b] by simp
    next
      case 2
      then show ?thesis using le [of v x b] up by blast
    qed
  qed (use ih(3) in blast)
  moreover have "b \<in> set (v # vs) \<or> best = Some b"
    using ih(1) by (auto simp: newer_step_def split: if_splits option.splits)
  ultimately show ?case using ih up by auto
qed auto

end
