(* ===== verification/Paths.thy ===== *)
theory Paths
  imports Json NodePath "HOL-Library.Word"
begin

text \<open>
  Where the daemon and its clients meet and where files are (\<open>paths.ts\<close>): the name of the pipe on
  Windows, the files of a session, and the settings of the gateway. \<open>Number(text)\<close> is here, for what
  the settings and the process tables are read with. The lemmas: a port is a port, the environment
  wins, a parked turn's file names its session, and two homes can share one pipe.
\<close>

section \<open>Numbers in text\<close>

text \<open>\<open>Number(text)\<close>: blank is 0; an infinity is told as not a number, as no caller keeps it.\<close>

definition radix_digit :: "char \<Rightarrow> nat" where
  "radix_digit c = (if is_digit c then digit_val c else code_of (lower_char c) - 87)"

definition radix_ok :: "nat \<Rightarrow> char \<Rightarrow> bool" where
  "radix_ok r c = ((is_digit c \<or> is_alpha c) \<and> radix_digit c < r)"

definition radix_number :: "nat \<Rightarrow> string \<Rightarrow> jsval" where
  "radix_number r s =
     (if s \<noteq> [] \<and> list_all (radix_ok r) s then JNum (of_nat (foldl (\<lambda>n c. r * n + radix_digit c) 0 s)) else JNaN)"

definition decimal_number :: "string \<Rightarrow> num option" where
  "decimal_number s =
     (let ds = takeWhile is_digit s; r = dropWhile is_digit s;
          dot = (r \<noteq> [] \<and> hd r = CHR ''.'');
          fs = (if dot then takeWhile is_digit (tl r) else []);
          r1 = (if dot then dropWhile is_digit (tl r) else r)
      in if ds = [] \<and> fs = [] then None
         else case p_exp (of_nat (read_nat ds) + of_nat (read_nat fs) / 10 ^ length fs) r1 of
           Some (x, []) \<Rightarrow> Some x
         | _ \<Rightarrow> None)"

definition js_number :: "string \<Rightarrow> jsval" where
  "js_number text =
     (let t = trim text; p = to_lower (take 2 t) in
      if t = [] then JNum 0
      else if p = ''0x'' then radix_number 16 (drop 2 t)
      else if p = ''0o'' then radix_number 8 (drop 2 t)
      else if p = ''0b'' then radix_number 2 (drop 2 t)
      else let neg = (hd t = CHR ''-''); u = (if neg \<or> hd t = CHR ''+'' then tl t else t) in
           (case decimal_number u of
              None \<Rightarrow> JNaN
            | Some x \<Rightarrow> JNum (if neg then - x else x)))"

section \<open>Where clients connect\<close>

text \<open>The digits of \<open>toString(36)\<close>.\<close>

definition digit36 :: "nat \<Rightarrow> char" where
  "digit36 d = (if d < 10 then digit_char d else char_of (87 + d))"

function base36 :: "nat \<Rightarrow> string" where
  "base36 n = (if n < 36 then [digit36 n] else base36 (n div 36) @ [digit36 (n mod 36)])"
  by pat_completeness auto
termination
  by (relation "measure id") auto

declare base36.simps [simp del]

text \<open>\<open>(Math.imul(hash, 31) + code) >>> 0\<close> is arithmetic on 32 bits.\<close>

definition pipe_hash :: "string \<Rightarrow> 32 word" where
  "pipe_hash home = foldl (\<lambda>hash c. hash * 31 + word_of_nat (code_of c)) 0 home"

definition pipeSuffix :: "string \<Rightarrow> string" where
  "pipeSuffix home = base36 (unat (pipe_hash home))"

definition baseDir :: "string \<Rightarrow> string" where
  "baseDir home = path_join [home, ''.claude-persist'']"

definition socketPath :: "bool \<Rightarrow> string \<Rightarrow> string" where
  "socketPath win32 home =
     (if win32 then [CHR 0x5C, CHR 0x5C, CHR ''.'', CHR 0x5C] @ ''pipe'' @ [CHR 0x5C] @ ''claude-persist-'' @ pipeSuffix home
      else path_join [baseDir home, ''daemon.sock''])"

section \<open>The files of a session\<close>

definition sessionsDir :: "string \<Rightarrow> string" where
  "sessionsDir home = path_join [baseDir home, ''sessions'']"

definition sessionLogPath :: "string \<Rightarrow> string \<Rightarrow> string" where
  "sessionLogPath home i = path_join [sessionsDir home, i @ ''.jsonl'']"

definition PENDING :: string where "PENDING = ''.pending.json''"

definition pendingTurnPath :: "string \<Rightarrow> string \<Rightarrow> string" where
  "pendingTurnPath home i = path_join [sessionsDir home, i @ PENDING]"

text \<open>The listing of the sessions directory, \<open>None\<close> when it cannot be read.\<close>

definition pendingTurnSessionIds :: "string list option \<Rightarrow> string list" where
  "pendingTurnSessionIds names =
     (case names of
        None \<Rightarrow> []
      | Some fs \<Rightarrow> map (\<lambda>f. take (length f - length PENDING) f) (filter (\<lambda>f. ends_with f PENDING) fs))"

section \<open>The gateway's settings\<close>

definition valid_port :: "jsval \<Rightarrow> nat option" where
  "valid_port v =
     (case v of
        JNum n \<Rightarrow> if of_int \<lfloor>n\<rfloor> = n \<and> 0 < n \<and> n < 65536 then Some (nat \<lfloor>n\<rfloor>) else None
      | _ \<Rightarrow> None)"

text \<open>The variable and the text of the file, \<open>None\<close> when there is none.\<close>

definition gatewayPort :: "string option \<Rightarrow> string option \<Rightarrow> nat option" where
  "gatewayPort from_env file =
     (let e = trim (case from_env of None \<Rightarrow> [] | Some s \<Rightarrow> s) in
      if e \<noteq> [] then valid_port (js_number e)
      else (case Option.bind file json_parse of
              None \<Rightarrow> None
            | Some v \<Rightarrow> valid_port (js_prop v ''port'')))"

definition gatewayProtect :: "string option \<Rightarrow> bool" where
  "gatewayProtect file =
     (case Option.bind file json_parse of
        None \<Rightarrow> False
      | Some v \<Rightarrow> js_prop v ''protect'' = JBool True)"

section \<open>Facts\<close>

lemma valid_port_range: "valid_port v = Some p \<Longrightarrow> 0 < p \<and> p < 65536"
  by (auto simp: valid_port_def floor_less_iff zero_less_floor nat_less_iff split: jsval.splits if_splits)

lemma gatewayPort_range: "gatewayPort e f = Some p \<Longrightarrow> 0 < p \<and> p < 65536"
  by (auto simp: gatewayPort_def Let_def split: if_splits option.splits dest: valid_port_range)

lemma ends_with_append: "ends_with s p \<longleftrightarrow> (\<exists>w. s = w @ p)"
  by (auto simp: ends_with_def starts_with_iff) (metis rev_append rev_rev_ident)

lemma pending_ids_of_files:
  "pendingTurnSessionIds (Some (map (\<lambda>i. i @ PENDING) ids @ others)) = ids @ pendingTurnSessionIds (Some others)"
  by (induction ids) (simp_all add: pendingTurnSessionIds_def ends_with_append)

lemma pending_ids_sound:
  "i \<in> set (pendingTurnSessionIds (Some names)) \<longleftrightarrow> i @ PENDING \<in> set names"
  by (auto simp: pendingTurnSessionIds_def ends_with_append image_iff)

text \<open>Two homes that differ in one pair of letters.\<close>

lemma pipe_hash_collision: "pipe_hash (p @ ''Aa'' @ s) = pipe_hash (p @ ''BB'' @ s)"
proof -
  have "(h * 31 + word_of_nat (code_of (CHR ''A''))) * 31 + word_of_nat (code_of (CHR ''a''))
      = (h * 31 + word_of_nat (code_of (CHR ''B''))) * 31 + word_of_nat (code_of (CHR ''B''))" for h :: "32 word"
    by (simp add: algebra_simps)
  then show ?thesis by (simp add: pipe_hash_def)
qed

lemma socketPath_collision: "socketPath True (p @ ''Aa'' @ s) = socketPath True (p @ ''BB'' @ s)"
  by (simp only: socketPath_def pipeSuffix_def pipe_hash_collision if_True)

end
