(* ===== verification/Processes.thy ===== *)
theory Processes
  imports Paths LogStore Evidence
begin

text \<open>
  The processes of the machine (\<open>processes.ts\<close>): reading \<open>/proc\<close>, which processes are protected or
  left over, what the phone is shown, and killing a process with everything below it. The files of
  \<open>/proc\<close> are the record \<open>proc_source\<close>; \<^term>\<open>None\<close> of a number is \<open>NaN\<close>. The lemmas: a kill never
  signals a protected process and signals each at most once, what is below a process before the
  process itself, and only processes left behind are reaped.
\<close>

section \<open>Reading /proc\<close>

type_synonym pid = num

definition number_of :: "string \<Rightarrow> num option" where
  "number_of s = (case js_number s of JNum n \<Rightarrow> Some n | _ \<Rightarrow> None)"

record pid_stat =
  ps_pid :: pid
  ps_comm :: string
  ps_state :: string
  ps_ppid :: "num option"
  ps_utime :: num
  ps_stime :: "num option"
  ps_starttime :: "num option"

definition stat_num :: "string list \<Rightarrow> nat \<Rightarrow> num option" where
  "stat_num f n = (if n - 3 < length f then number_of (f ! (n - 3)) else None)"

definition parsePidStat :: "string \<Rightarrow> pid_stat option" where
  "parsePidStat text =
     (if CHR ''('' \<notin> set text \<or> CHR '')'' \<notin> set text then None
      else let opens = length (takeWhile (\<lambda>c. c \<noteq> CHR ''('') text);
               closes = length text - length (takeWhile (\<lambda>c. c \<noteq> CHR '')'') (rev text)) - 1;
               f = split_char (CHR '' '') (drop (closes + 2) text)
           in if closes < opens then None
              else case (number_of (trim (take opens text)), stat_num f 14) of
                (Some p, Some u) \<Rightarrow>
                  Some \<lparr>ps_pid = p, ps_comm = take (closes - opens - 1) (drop (opens + 1) text), ps_state = hd f,
                        ps_ppid = stat_num f 4, ps_utime = u, ps_stime = stat_num f 15, ps_starttime = stat_num f 22\<rparr>
              | _ \<Rightarrow> None)"

text \<open>Where a line starts: what \<open>^\<close> matches with the flag \<open>m\<close>.\<close>

fun line_starts :: "string \<Rightarrow> string list" where
  "line_starts [] = []"
| "line_starts (c # cs) = (if c = newline \<or> c = CHR 0x0D then [cs] else []) @ line_starts cs"

definition first_some :: "('a \<Rightarrow> 'b option) \<Rightarrow> 'a list \<Rightarrow> 'b option" where
  "first_some f xs = (case List.map_filter f xs of [] \<Rightarrow> None | y # ys \<Rightarrow> Some y)"

definition key_number :: "bool \<Rightarrow> string \<Rightarrow> string \<Rightarrow> nat option" where
  "key_number in_kb key s =
     (let r = drop (length key + 1) s; r1 = dropWhile is_space r; ds = takeWhile is_digit r1 in
      if starts_with s (key @ '':'') \<and> takeWhile is_space r \<noteq> [] \<and> ds \<noteq> []
         \<and> (in_kb \<longrightarrow> starts_with (dropWhile is_space (dropWhile is_digit r1)) ''kB'')
      then Some (read_nat ds) else None)"

definition kb_of :: "string \<Rightarrow> string \<Rightarrow> nat option" where
  "kb_of key text = map_option (\<lambda>n. n * 1024) (first_some (key_number True key) (text # line_starts text))"

record pid_status =
  st_rss :: nat
  st_swap :: nat
  st_uid :: "nat option"

definition no_status :: pid_status where
  "no_status = \<lparr>st_rss = 0, st_swap = 0, st_uid = None\<rparr>"

definition parsePidStatus :: "string \<Rightarrow> pid_status" where
  "parsePidStatus text =
     \<lparr>st_rss = (case kb_of ''VmRSS'' text of Some n \<Rightarrow> n | None \<Rightarrow> 0),
      st_swap = (case kb_of ''VmSwap'' text of Some n \<Rightarrow> n | None \<Rightarrow> 0),
      st_uid = first_some (key_number False ''Uid'') (text # line_starts text)\<rparr>"

definition passwd_entry :: "string \<Rightarrow> (nat \<times> string) option" where
  "passwd_entry line =
     (case split_char (CHR '':'') line of
        name # pw # uid # rest \<Rightarrow>
          if name \<noteq> [] \<and> uid \<noteq> [] \<and> list_all is_digit uid then Some (read_nat uid, name) else None
      | _ \<Rightarrow> None)"

definition parsePasswd :: "string \<Rightarrow> (nat \<times> string) list" where
  "parsePasswd text =
     fold (\<lambda>(u, name). AList.update u name) (List.map_filter passwd_entry (split_char newline text)) []"

record proc_source =
  src_pids :: "pid list"
  src_stat :: "pid \<Rightarrow> string option"
  src_status :: "pid \<Rightarrow> string option"
  src_cmdline :: "pid \<Rightarrow> string option"
  src_cwd :: "pid \<Rightarrow> string option"
  src_exists :: "string \<Rightarrow> bool"
  src_uptime :: num
  src_passwd :: string
  src_ticks :: num
  src_self :: pid
  src_now :: num

type_synonym proc_row = "pid_stat \<times> pid_status"

abbreviation row_pid :: "proc_row \<Rightarrow> pid" where "row_pid r \<equiv> ps_pid (fst r)"

definition proc_row :: "proc_source \<Rightarrow> pid \<Rightarrow> proc_row option" where
  "proc_row src p =
     (case Option.bind (src_stat src p) parsePidStat of
        None \<Rightarrow> None
      | Some s \<Rightarrow> Some (s, case src_status src p of Some t \<Rightarrow> parsePidStatus t | None \<Rightarrow> no_status))"

definition rows_of :: "proc_source \<Rightarrow> proc_row list" where
  "rows_of src = List.map_filter (proc_row src) (src_pids src)"

section \<open>Parents and children\<close>

definition by_pid :: "proc_row list \<Rightarrow> pid \<Rightarrow> proc_row option" where
  "by_pid rows p = List.find (\<lambda>r. row_pid r = p) (rev rows)"

definition parent_of :: "proc_row list \<Rightarrow> pid \<Rightarrow> pid option" where
  "parent_of rows p = Option.bind (by_pid rows p) (\<lambda>r. ps_ppid (fst r))"

definition children_of :: "proc_row list \<Rightarrow> pid \<Rightarrow> pid list" where
  "children_of rows p = map row_pid (filter (\<lambda>r. ps_ppid (fst r) = Some p) rows)"

definition ppids :: "proc_row list \<Rightarrow> pid option set" where
  "ppids rows = (\<lambda>r. ps_ppid (fst r)) ` set rows"

lemma by_pid_row: "by_pid rows p = Some r \<Longrightarrow> r \<in> set rows \<and> row_pid r = p"
proof -
  have "List.find P xs = Some x \<Longrightarrow> x \<in> set xs \<and> P x" for P and xs :: "proc_row list" and x
    by (induction xs) (auto split: if_splits)
  then show "by_pid rows p = Some r \<Longrightarrow> r \<in> set rows \<and> row_pid r = p" by (fastforce simp: by_pid_def)
qed

lemma parent_in: "parent_of rows p = Some q \<Longrightarrow> Some q \<in> ppids rows"
  using by_pid_row by (cases "by_pid rows p") (auto simp: parent_of_def ppids_def intro!: image_eqI [OF sym])

text \<open>The loop up from this process; it ends at the first process, an unknown one, or a repetition.\<close>

function ancestors_from :: "proc_row list \<Rightarrow> pid option \<Rightarrow> pid list \<Rightarrow> pid list" where
  "ancestors_from rows p acc =
     (case p of
        None \<Rightarrow> acc
      | Some q \<Rightarrow>
          if q \<noteq> 0 \<and> 1 < q \<and> q \<notin> set acc then ancestors_from rows (parent_of rows q) (acc @ [q]) else acc)"
  by pat_completeness auto
termination
proof (relation "measures [\<lambda>(rows, p, acc). card (ppids rows - Some ` set acc),
    \<lambda>(rows, p, acc). if p \<in> insert None (ppids rows) then 0 else 1]")
  fix rows p acc q
  assume q: "q \<noteq> 0 \<and> 1 < q \<and> q \<notin> set (acc :: pid list)" "p = Some q"
  have f: "finite (ppids rows)" by (simp add: ppids_def)
  have i: "parent_of rows q \<in> insert None (ppids rows)" using parent_in by (cases "parent_of rows q") auto
  have s: "ppids rows - Some ` set (acc @ [q]) = (ppids rows - Some ` set acc) - {Some q}" by auto
  show "((rows, parent_of rows q, acc @ [q]), rows, p, acc) \<in> measures
      [\<lambda>(rows, p, acc). card (ppids rows - Some ` set acc), \<lambda>(rows, p, acc). if p \<in> insert None (ppids rows) then 0 else 1]"
  proof (cases "Some q \<in> ppids rows")
    case True
    then have "Some q \<in> ppids rows - Some ` set acc" using q by auto
    then have "card ((ppids rows - Some ` set acc) - {Some q}) < card (ppids rows - Some ` set acc)"
      using f by (intro psubset_card_mono) auto
    then show ?thesis by (simp only: in_measures s prod.case simp_thms)
  next
    case False
    then have "(ppids rows - Some ` set acc) - {Some q} = ppids rows - Some ` set acc" by auto
    then show ?thesis using i q(2) False by (simp only: in_measures s prod.case) simp
  qed
qed simp

declare ancestors_from.simps [simp del]

definition ancestors :: "proc_source \<Rightarrow> proc_row list \<Rightarrow> pid list" where
  "ancestors src rows = ancestors_from rows (parent_of rows (src_self src)) []"

text \<open>Everything below a process, with a stack and what was seen.\<close>

function tree_loop :: "proc_row list \<Rightarrow> pid list \<Rightarrow> pid list \<Rightarrow> nat \<times> nat \<Rightarrow> nat \<times> nat" where
  "tree_loop rows stack seen t =
     (if stack = [] then t
      else let c = last stack; below = butlast stack in
           if c \<in> set seen then tree_loop rows below seen t
           else tree_loop rows (below @ children_of rows c) (c # seen)
                  (fst t + 1, snd t + (case by_pid rows c of Some r \<Rightarrow> st_rss (snd r) | None \<Rightarrow> 0)))"
  by pat_completeness auto
termination
proof (relation "measures [\<lambda>(rows, stack, seen, t). card (set stack \<union> row_pid ` set rows - set seen),
    \<lambda>(rows, stack, seen, t). length stack]")
  fix rows and stack seen :: "pid list" and t :: "nat \<times> nat" and c below
  assume s: "stack \<noteq> []" "c = last stack" "below = butlast stack"
  have sub: "set below \<subseteq> set stack" using s(3) by (auto dest: in_set_butlastD)
  {
    assume "c \<in> set seen"
    have "card (set below \<union> row_pid ` set rows - set seen) \<le> card (set stack \<union> row_pid ` set rows - set seen)"
      using sub by (intro card_mono) auto
    moreover have "length below < length stack" using s by simp
    ultimately show "((rows, below, seen, t), rows, stack, seen, t) \<in> measures
        [\<lambda>(rows, stack, seen, t). card (set stack \<union> row_pid ` set rows - set seen), \<lambda>(rows, stack, seen, t). length stack]"
      by auto
  }
  assume c: "c \<notin> set seen"
  have ch: "set (children_of rows c) \<subseteq> row_pid ` set rows" by (auto simp: children_of_def)
  have "c \<in> set stack" using s by simp
  then have "c \<in> set stack \<union> row_pid ` set rows - set seen" using c by simp
  moreover have "set (below @ children_of rows c) \<union> row_pid ` set rows - set (c # seen)
      \<subseteq> (set stack \<union> row_pid ` set rows - set seen) - {c}" using sub ch by auto
  ultimately have "card (set (below @ children_of rows c) \<union> row_pid ` set rows - set (c # seen))
      < card (set stack \<union> row_pid ` set rows - set seen)"
    by (intro psubset_card_mono) auto
  then show "((rows, below @ children_of rows c, c # seen, fst t + 1,
        snd t + (case by_pid rows c of Some r \<Rightarrow> st_rss (snd r) | None \<Rightarrow> 0)), rows, stack, seen, t) \<in> measures
      [\<lambda>(rows, stack, seen, t). card (set stack \<union> row_pid ` set rows - set seen), \<lambda>(rows, stack, seen, t). length stack]"
    by simp
qed simp

declare tree_loop.simps [simp del]

definition tree_below :: "proc_row list \<Rightarrow> pid \<Rightarrow> nat \<times> nat" where
  "tree_below rows p = tree_loop rows (children_of rows p) [] (0, 0)"

section \<open>Protected, left over, in words\<close>

definition is_code_server :: "string \<Rightarrow> bool" where
  "is_code_server command =
     list_ex (contains command) [''/code-server/lib/node'', ''/code-server/out/node/entry'', ''/usr/bin/code-server'', ''dumb-init'']"

definition protection :: "pid \<Rightarrow> string \<Rightarrow> pid \<Rightarrow> pid list \<Rightarrow> string option" where
  "protection p command self ups =
     (if p = 1 then Some ''the container itself''
      else if p = self then Some ''this daemon, which you are talking to''
      else if p \<in> set ups then Some ''a parent of this daemon''
      else if is_code_server command then Some ''code-server, the way in''
      else None)"

definition DELETED :: string where "DELETED = '' (deleted)''"

definition isOrphan :: "proc_source \<Rightarrow> pid \<Rightarrow> bool" where
  "isOrphan src p =
     (case src_cwd src p of None \<Rightarrow> False | Some d \<Rightarrow> ends_with d DELETED \<or> \<not> src_exists src d)"

definition nul :: char where "nul = CHR 0x00"

definition commandOf :: "proc_source \<Rightarrow> proc_row \<Rightarrow> string" where
  "commandOf src r =
     (let raw = (case src_cmdline src (row_pid r) of Some t \<Rightarrow> t | None \<Rightarrow> []);
          words = join '' '' (split_char nul (rev (dropWhile (\<lambda>c. c = nul) (rev raw))))
      in take 300 (if words = [] then ''['' @ ps_comm (fst r) @ '']'' else words))"

text \<open>\<open>/claude-agent-sdk|\/claude(\s|$)/\<close>.\<close>

fun claude_word :: "string \<Rightarrow> bool" where
  "claude_word [] = False"
| "claude_word (c # cs) =
     ((starts_with (c # cs) ''/claude'' \<and> (case drop 7 (c # cs) of [] \<Rightarrow> True | d # ds \<Rightarrow> is_space d)) \<or> claude_word cs)"

datatype role = Daemon_role | Claude_session | Code_server

definition role_of :: "proc_source \<Rightarrow> proc_row \<Rightarrow> string \<Rightarrow> role option" where
  "role_of src r command =
     (if row_pid r = src_self src then Some Daemon_role
      else if ps_ppid (fst r) = Some (src_self src) \<and> (contains command ''claude-agent-sdk'' \<or> claude_word command)
      then Some Claude_session
      else if starts_with command ''/usr/lib/code-server/'' \<or> starts_with command ''/usr/bin/code-server''
      then Some Code_server
      else None)"

section \<open>A sample\<close>

record proc_info =
  pi_pid :: pid
  pi_ppid :: "num option"
  pi_user :: string
  pi_cpu :: "num option"
  pi_rss :: nat
  pi_swap :: nat
  pi_age :: "num option"
  pi_command :: string
  pi_cwd :: "string option"
  pi_orphaned :: bool
  pi_descendants :: nat
  pi_treeRss :: nat
  pi_protected :: "string option"
  pi_role :: "role option"

record proc_snapshot =
  sn_processes :: "proc_info list"
  sn_total :: nat
  sn_orphans :: nat
  sn_orphanRss :: nat
  sn_at :: num

record sampler =
  sm_last :: "(pid \<times> (num option \<times> num)) list"
  sm_users :: "(nat \<times> string) list option"

definition sampler_new :: sampler where
  "sampler_new = \<lparr>sm_last = [], sm_users = None\<rparr>"

text \<open>\<open>utime + stime\<close>, and the use since the last sample; an unknown difference is unknown.\<close>

definition cpu_ticks :: "proc_row \<Rightarrow> num option" where
  "cpu_ticks r = map_option (\<lambda>t. ps_utime (fst r) + t) (ps_stime (fst r))"

definition cpu_percent :: "proc_source \<Rightarrow> sampler \<Rightarrow> proc_row \<Rightarrow> num option" where
  "cpu_percent src sm r =
     (case map_of (sm_last sm) (row_pid r) of
        None \<Rightarrow> None
      | Some (before, t) \<Rightarrow>
          (let seconds = (src_now src - t) / 1000 in
           if seconds \<le> 0 then None
           else case (cpu_ticks r, before) of
             (Some a, Some b) \<Rightarrow> Some (max 0 ((a - b) / src_ticks src / seconds * 100))
           | _ \<Rightarrow> None))"

definition unprotected_orphan :: "proc_source \<Rightarrow> proc_row list \<Rightarrow> proc_row \<Rightarrow> bool" where
  "unprotected_orphan src rows r =
     (isOrphan src (row_pid r)
      \<and> protection (row_pid r) (commandOf src r) (src_self src) (ancestors src rows) = None)"

definition or_zero :: "num option \<Rightarrow> num" where
  "or_zero x = (case x of Some v \<Rightarrow> v | None \<Rightarrow> 0)"

text \<open>The busiest, the biggest and the left over, each once, in that order.\<close>

definition chosen_rows :: "proc_source \<Rightarrow> sampler \<Rightarrow> nat \<Rightarrow> proc_row list \<Rightarrow> proc_row list" where
  "chosen_rows src sm limit rows =
     (let byCpu = take limit (sort_desc (\<lambda>r. or_zero (cpu_percent src sm r)) rows);
          byMem = take limit (sort_desc (\<lambda>r. int (st_rss (snd r) + st_swap (snd r))) rows);
          left = take limit (filter (unprotected_orphan src rows) rows)
      in map snd (fold (\<lambda>r. AList.update (row_pid r) r) (byCpu @ byMem @ left) []))"

definition info_of_row ::
    "proc_source \<Rightarrow> sampler \<Rightarrow> (nat \<times> string) list \<Rightarrow> proc_row list \<Rightarrow> proc_row \<Rightarrow> proc_info" where
  "info_of_row src sm users rows r =
     (let p = row_pid r; command = commandOf src r; t = tree_below rows p in
      \<lparr>pi_pid = p, pi_ppid = ps_ppid (fst r),
       pi_user = (case st_uid (snd r) of None \<Rightarrow> ''?''
                  | Some u \<Rightarrow> (case map_of users u of Some n \<Rightarrow> n | None \<Rightarrow> show_nat u)),
       pi_cpu = cpu_percent src sm r, pi_rss = st_rss (snd r), pi_swap = st_swap (snd r),
       pi_age = map_option (\<lambda>s. max 0 (src_uptime src - s / src_ticks src)) (ps_starttime (fst r)),
       pi_command = command,
       pi_cwd = map_option (\<lambda>d. if ends_with d DELETED then take (length d - length DELETED) d else d) (src_cwd src p),
       pi_orphaned = isOrphan src p, pi_descendants = fst t, pi_treeRss = st_rss (snd r) + snd t,
       pi_protected = protection p command (src_self src) (ancestors src rows),
       pi_role = role_of src r command\<rparr>)"

definition sample :: "nat \<Rightarrow> proc_source \<Rightarrow> sampler \<Rightarrow> proc_snapshot \<times> sampler" where
  "sample limit src sm =
     (let users = (case sm_users sm of Some u \<Rightarrow> u | None \<Rightarrow> parsePasswd (src_passwd src));
          rows = rows_of src;
          left = filter (unprotected_orphan src rows) rows;
          last' = fold (\<lambda>r. AList.update (row_pid r) (cpu_ticks r, src_now src)) rows []
      in (\<lparr>sn_processes = map (info_of_row src sm users rows) (chosen_rows src sm limit rows),
           sn_total = length rows, sn_orphans = length left,
           sn_orphanRss = sum_list (map (\<lambda>r. st_rss (snd r)) left), sn_at = src_now src\<rparr>,
          \<lparr>sm_last = last', sm_users = Some users\<rparr>))"

definition orphans :: "proc_source \<Rightarrow> sampler \<Rightarrow> proc_info list \<times> sampler" where
  "orphans src sm =
     (let (sn, sm') = sample 10000 src sm
      in (filter (\<lambda>i. pi_orphaned i \<and> pi_protected i = None) (sn_processes sn), sm'))"

section \<open>Killing\<close>

definition childrenFrom :: "proc_source \<Rightarrow> pid \<Rightarrow> pid list" where
  "childrenFrom src p =
     filter (\<lambda>q. case Option.bind (src_stat src q) parsePidStat of None \<Rightarrow> False | Some s \<Rightarrow> ps_ppid s = Some p)
       (src_pids src)"

text \<open>
  \<open>visit\<close>, on the children still to come, with what was seen: the seen pids and the order. The fuel
  bounds the depth; \<open>visit_spec\<close> shows that the number of processes is enough.
\<close>

fun visit :: "(pid \<Rightarrow> pid list) \<Rightarrow> nat \<Rightarrow> pid list \<Rightarrow> pid list \<Rightarrow> pid list \<times> pid list" where
  "visit ch n [] seen = (seen, [])"
| "visit ch 0 (c # cs) seen = (seen, [])"
| "visit ch (Suc n) (c # cs) seen =
     (if c \<in> set seen then visit ch (Suc n) cs seen
      else let (s1, o1) = visit ch n (ch c) (c # seen); (s2, o2) = visit ch (Suc n) cs s1
           in (s2, o1 @ c # o2))"

definition kill_order :: "(pid \<Rightarrow> pid list) \<Rightarrow> nat \<Rightarrow> bool \<Rightarrow> pid \<Rightarrow> pid list" where
  "kill_order ch n tree p = (if tree then snd (visit ch n (ch p) [p]) else []) @ [p]"

record kill_result =
  kr_signalled :: "pid list"
  kr_failed :: "(pid \<times> string) list"
  kr_refused :: "string option"

text \<open>\<open>protected\<close> is why a process is, \<open>kill\<close> the error of signalling it, if any.\<close>

definition kill_one :: "(pid \<Rightarrow> string option) \<Rightarrow> (pid \<Rightarrow> string option) \<Rightarrow> pid \<Rightarrow> kill_result \<Rightarrow> kill_result" where
  "kill_one protected kill p r =
     (case protected p of
        Some reason \<Rightarrow> r \<lparr>kr_failed := kr_failed r @ [(p, ''skipped: '' @ reason)]\<rparr>
      | None \<Rightarrow>
          (case kill p of
             Some e \<Rightarrow> r \<lparr>kr_failed := kr_failed r @ [(p, e)]\<rparr>
           | None \<Rightarrow> r \<lparr>kr_signalled := kr_signalled r @ [p]\<rparr>))"

definition killProcess ::
    "pid \<Rightarrow> bool \<Rightarrow> (pid \<Rightarrow> pid list) \<Rightarrow> nat \<Rightarrow> (pid \<Rightarrow> string option) \<Rightarrow> (pid \<Rightarrow> string option) \<Rightarrow> kill_result" where
  "killProcess p tree ch n kill protected =
     (case protected p of
        Some reason \<Rightarrow> \<lparr>kr_signalled = [], kr_failed = [],
            kr_refused = Some (''Not killing pid '' @ show_num p @ '': '' @ reason)\<rparr>
      | None \<Rightarrow>
          fold (kill_one protected kill) (kill_order ch n tree p)
            \<lparr>kr_signalled = [], kr_failed = [], kr_refused = None\<rparr>)"

text \<open>The default \<open>isProtected\<close>, on a snapshot.\<close>

definition snapshot_protected :: "proc_info list \<Rightarrow> pid \<Rightarrow> string option" where
  "snapshot_protected snapshot p = Option.bind (List.find (\<lambda>i. pi_pid i = p) snapshot) pi_protected"

text \<open>The two requests of the phone (\<open>main.ts\<close>).\<close>

definition kill_request :: "proc_source \<Rightarrow> (pid \<Rightarrow> string option) \<Rightarrow> pid \<Rightarrow> bool \<Rightarrow> sampler \<Rightarrow> kill_result \<times> sampler" where
  "kill_request src kill p tree sm =
     (let (sn, sm') = sample 100000 src sm
      in (killProcess p tree (childrenFrom src) (length (src_pids src)) kill (snapshot_protected (sn_processes sn)), sm'))"

definition reapOrphans :: "proc_source \<Rightarrow> (pid \<Rightarrow> string option) \<Rightarrow> sampler \<Rightarrow> (pid \<times> kill_result) list \<times> nat \<times> sampler" where
  "reapOrphans src kill sm =
     (let (left, sm1) = orphans src sm; (sn, sm2) = sample 100000 src sm1
      in (map (\<lambda>i. (pi_pid i, killProcess (pi_pid i) False (childrenFrom src) (length (src_pids src)) kill
                                 (snapshot_protected (sn_processes sn)))) left,
          sum_list (map pi_rss left), sm2))"

section \<open>The order of a kill\<close>

definition below :: "(pid \<Rightarrow> pid list) \<Rightarrow> (pid \<times> pid) set" where
  "below ch = {(a, b). b \<in> set (ch a)}"

text \<open>
  Everything below a process is before it in the list or in \<open>B\<close>, unless the two are below each other.
\<close>

fun below_first :: "(pid \<Rightarrow> pid list) \<Rightarrow> pid set \<Rightarrow> pid list \<Rightarrow> bool" where
  "below_first ch B [] = True"
| "below_first ch B (x # xs) =
     ((\<forall>y\<in>set (ch x). y \<in> B \<or> (y, x) \<in> (below ch)\<^sup>*) \<and> below_first ch (insert x B) xs)"

lemma below_first_append:
  "below_first ch B (xs @ ys) \<longleftrightarrow> below_first ch B xs \<and> below_first ch (B \<union> set xs) ys"
  by (induction xs arbitrary: B) auto

lemma below_first_mono: "below_first ch B xs \<Longrightarrow> B \<subseteq> C \<Longrightarrow> below_first ch C xs"
proof (induction xs arbitrary: B C)
  case (Cons x xs)
  have "insert x B \<subseteq> insert x C" using Cons.prems(2) by auto
  with Cons show ?case by auto
qed simp

lemma below_first_drop:
  "below_first ch (insert c B) xs \<Longrightarrow> \<forall>x\<in>set xs. (c, x) \<in> (below ch)\<^sup>* \<Longrightarrow> below_first ch B xs"
proof (induction xs arbitrary: B)
  case (Cons x xs)
  have "below_first ch (insert c (insert x B)) xs" using Cons.prems(1) by (simp add: insert_commute)
  with Cons show ?case by auto
qed simp

text \<open>
  What \<open>visit\<close> returns, when the fuel is at least the number of processes not yet seen: each new
  process below the given ones once, and what is below one of them before it.
\<close>

definition visited :: "(pid \<Rightarrow> pid list) \<Rightarrow> pid list \<Rightarrow> pid list \<Rightarrow> pid list \<Rightarrow> pid list \<Rightarrow> bool" where
  "visited ch cs seen s out =
     (set s = set seen \<union> set out \<and> distinct out \<and> set out \<inter> set seen = {} \<and> set cs \<subseteq> set s
      \<and> (\<forall>x\<in>set out. set (ch x) \<subseteq> set s)
      \<and> (\<forall>x\<in>set out. \<exists>c\<in>set cs. (c, x) \<in> (below ch)\<^sup>*)
      \<and> below_first ch (set seen) out)"

lemma visitedD:
  assumes "visited ch cs seen s out"
  shows "set s = set seen \<union> set out" and "distinct out" and "set out \<inter> set seen = {}" and "set cs \<subseteq> set s"
    and "x \<in> set out \<Longrightarrow> set (ch x) \<subseteq> set s"
    and "x \<in> set out \<Longrightarrow> \<exists>c\<in>set cs. (c, x) \<in> (below ch)\<^sup>*"
    and "below_first ch (set seen) out"
  using assms unfolding visited_def by blast+

lemma visited_skip: "visited ch cs seen s out \<Longrightarrow> c \<in> set seen \<Longrightarrow> visited ch (c # cs) seen s out"
  unfolding visited_def by (simp, blast)

lemma visited_step:
  assumes one: "visited ch (ch c) (c # seen) s1 o1" and two: "visited ch cs s1 s2 o2" and c: "c \<notin> set seen"
  shows "visited ch (c # cs) seen s2 (o1 @ c # o2)"
proof -
  note A = visitedD [OF one] and B = visitedD [OF two]
  have r1: "(c, x) \<in> (below ch)\<^sup>*" if x: "x \<in> set o1" for x
  proof -
    from A(6) [OF x] obtain d where d: "d \<in> set (ch c)" "(d, x) \<in> (below ch)\<^sup>*" ..
    from d(1) have "(c, d) \<in> below ch" by (simp add: below_def)
    then show ?thesis using d(2) by (rule converse_rtrancl_into_rtrancl)
  qed
  have s1: "set s1 = insert c (set seen) \<union> set o1" using A(1) by simp
  have "below_first ch (set seen) o1"
    by (rule below_first_drop [of ch c "set seen"]) (use A(7) r1 in simp_all)
  moreover have "\<forall>y\<in>set (ch c). y \<in> set seen \<union> set o1 \<or> (y, c) \<in> (below ch)\<^sup>*" using A(4) s1 by auto
  moreover have "below_first ch (insert c (set seen \<union> set o1)) o2" using B(7) s1 by simp
  ultimately have f: "below_first ch (set seen) (o1 @ c # o2)" by (simp add: below_first_append)
  have r: "\<forall>x\<in>set (o1 @ c # o2). \<exists>d\<in>set (c # cs). (d, x) \<in> (below ch)\<^sup>*"
  proof
    fix x assume "x \<in> set (o1 @ c # o2)"
    then consider "x \<in> insert c (set o1)" | "x \<in> set o2" by auto
    then show "\<exists>d\<in>set (c # cs). (d, x) \<in> (below ch)\<^sup>*"
    proof cases
      case 1
      then have "(c, x) \<in> (below ch)\<^sup>*" using r1 by blast
      then show ?thesis by (intro bexI [of _ c]) simp_all
    next
      case 2
      from B(6) [OF this] obtain d where "d \<in> set cs" "(d, x) \<in> (below ch)\<^sup>*" ..
      then show ?thesis by (intro bexI [of _ d]) simp_all
    qed
  qed
  have k: "\<forall>x\<in>set (o1 @ c # o2). set (ch x) \<subseteq> set s2"
  proof
    fix x assume "x \<in> set (o1 @ c # o2)"
    then consider "x \<in> set o1" | "x = c" | "x \<in> set o2" by auto
    then show "set (ch x) \<subseteq> set s2"
    proof cases
      case 1
      then show ?thesis using A(5) B(1) by blast
    next
      case 2
      then show ?thesis using A(4) B(1) by blast
    next
      case 3
      then show ?thesis using B(5) by simp
    qed
  qed
  have "set s2 = set seen \<union> set (o1 @ c # o2)" using B(1) s1 by auto
  moreover have "distinct (o1 @ c # o2)" "set (o1 @ c # o2) \<inter> set seen = {}"
    using A(2,3) B(2,3) s1 c by auto
  moreover have "set (c # cs) \<subseteq> set s2" using B(1,4) s1 by auto
  ultimately show ?thesis using f r k unfolding visited_def by (intro conjI)
qed

lemma visit_spec:
  assumes "finite U"
  shows "\<forall>p. set (ch p) \<subseteq> U \<Longrightarrow> set cs \<subseteq> U \<Longrightarrow> card (U - set seen) \<le> n \<Longrightarrow>
    visit ch n cs seen = (s, out) \<Longrightarrow> visited ch cs seen s out"
proof (induction ch n cs seen arbitrary: s out rule: visit.induct)
  case (1 ch n seen)
  then show ?case by (auto simp: visited_def)
next
  case (2 ch c cs seen)
  then have "U - set seen = {}" using assms by simp
  then have "set (c # cs) \<subseteq> set seen" using 2 by auto
  then show ?case using 2 by (auto simp: visited_def)
next
  case (3 ch n c cs seen)
  show ?case
  proof (cases "c \<in> set seen")
    case True
    with "3.IH"(1) "3.prems" visited_skip show ?thesis by simp
  next
    case False
    obtain s1 o1 where v1: "visit ch n (ch c) (c # seen) = (s1, o1)" by fastforce
    obtain s2 o2 where v2: "visit ch (Suc n) cs s1 = (s2, o2)" by fastforce
    have "c \<in> U - set seen" using "3.prems"(2) False by simp
    then have "card (U - set seen - {c}) < card (U - set seen)" using assms by (intro psubset_card_mono) auto
    moreover have "U - set (c # seen) = U - set seen - {c}" by auto
    ultimately have "card (U - set (c # seen)) \<le> n" using "3.prems"(3) by simp
    with "3.IH"(2) [OF False _ _ _ v1] "3.prems"(1) have one: "visited ch (ch c) (c # seen) s1 o1" by simp
    have "card (U - set s1) \<le> card (U - set seen)" using one assms by (intro card_mono) (auto simp: visited_def)
    then have "card (U - set s1) \<le> Suc n" using "3.prems"(3) by simp
    with "3.IH"(3) [OF False v1 [symmetric] refl _ _ _ v2] "3.prems"(1,2) have "visited ch cs s1 s2 o2" by simp
    from visited_step [OF one this False] show ?thesis using v1 v2 False "3.prems"(4) by simp
  qed
qed

section \<open>What a kill does\<close>

lemma fold_kill_one:
  "let r' = fold (kill_one protected kill) ps r in
   kr_signalled r' = kr_signalled r @ filter (\<lambda>p. protected p = None \<and> kill p = None) ps
   \<and> map fst (kr_failed r') = map fst (kr_failed r) @ filter (\<lambda>p. protected p \<noteq> None \<or> kill p \<noteq> None) ps
   \<and> kr_refused r' = kr_refused r"
  unfolding Let_def by (induction ps arbitrary: r) (auto simp: kill_one_def split: option.splits)

lemma killProcess_result:
  "kr_signalled (killProcess p tree ch n kill protected) =
     (if protected p = None then filter (\<lambda>q. protected q = None \<and> kill q = None) (kill_order ch n tree p) else [])
   \<and> (protected p \<noteq> None \<longleftrightarrow> kr_refused (killProcess p tree ch n kill protected) \<noteq> None)
   \<and> (protected p = None \<longrightarrow> set (kill_order ch n tree p)
        = set (kr_signalled (killProcess p tree ch n kill protected)) \<union> fst ` set (kr_failed (killProcess p tree ch n kill protected)))"
proof (cases "protected p")
  case None
  note f = fold_kill_one [of protected kill "kill_order ch n tree p" "\<lparr>kr_signalled = [], kr_failed = [], kr_refused = None\<rparr>",
      unfolded Let_def]
  have "fst ` set (kr_failed (killProcess p tree ch n kill protected))
      = set (map fst (kr_failed (killProcess p tree ch n kill protected)))" by simp
  then show ?thesis using f None by (auto simp: killProcess_def simp del: set_map)
qed (simp add: killProcess_def)

text \<open>The order: the process last, everything below it once, each after what is below it.\<close>

lemma kill_order_tree:
  assumes "finite U" and "\<forall>q. set (ch q) \<subseteq> U" and "card U \<le> n"
  shows "distinct (kill_order ch n True p) \<and> set (kill_order ch n True p) = {q. (p, q) \<in> (below ch)\<^sup>*}
    \<and> last (kill_order ch n True p) = p
    \<and> below_first ch {p} (butlast (kill_order ch n True p))"
proof -
  obtain s out where v: "visit ch n (ch p) [p] = (s, out)" by fastforce
  have "card (U - set [p]) \<le> n" using assms(1,3) card_mono [of U "U - set [p]"] by auto
  note V = visitedD [OF visit_spec [OF assms(1,2) _ this v]]
  have cs: "set (ch p) \<subseteq> U" using assms(2) by simp
  note V = visitedD [OF visit_spec [OF assms(1,2) cs \<open>card (U - set [p]) \<le> n\<close> v]]
  have reach: "(p, q) \<in> (below ch)\<^sup>*" if q: "q \<in> set out" for q
  proof -
    from V(6) [OF q] obtain c where c: "c \<in> set (ch p)" "(c, q) \<in> (below ch)\<^sup>*" ..
    from c(1) have "(p, c) \<in> below ch" by (simp add: below_def)
    then show ?thesis using c(2) by (rule converse_rtrancl_into_rtrancl)
  qed
  have closed: "q \<in> insert p (set out)" if "(p, q) \<in> (below ch)\<^sup>*" for q
    using that
  proof (induction rule: rtrancl_induct)
    case (step y z)
    then have "z \<in> set (ch y)" by (simp add: below_def)
    with step.IH V(1,4) V(5) [of y] show ?case by (cases "y = p") auto
  qed simp
  have "set (out @ [p]) = {q. (p, q) \<in> (below ch)\<^sup>*}" using reach closed by auto
  moreover have "distinct (out @ [p])" using V(2,3) by auto
  ultimately show ?thesis using V(7) v by (simp add: kill_order_def)
qed

section \<open>The phone cannot cut its own way in\<close>

lemma update_entries:
  "list_all (\<lambda>(k, r). k = f r) m \<Longrightarrow> list_all (\<lambda>(k, r). k = f r) (AList.update (f x) x m)"
  by (induction m) auto

lemma fold_entries:
  fixes f :: "'a \<Rightarrow> 'k"
  shows "list_all (\<lambda>(k, r). k = f r) m \<Longrightarrow> list_all (\<lambda>(k, r). k = f r) (fold (\<lambda>r. AList.update (f r) r) xs m)
    \<and> fst ` set (fold (\<lambda>r. AList.update (f r) r) xs m) = fst ` set m \<union> f ` set xs
    \<and> snd ` set (fold (\<lambda>r. AList.update (f r) r) xs m) \<subseteq> snd ` set m \<union> set xs"
proof (induction xs arbitrary: m)
  case (Cons x xs)
  have "snd ` set (AList.update (f x) x m) \<subseteq> insert x (snd ` set m)" using set_update [of "f x" x m] by auto
  moreover have "fst ` set (AList.update (f x) x m) = insert (f x) (fst ` set m)" by (simp add: dom_update)
  moreover note Cons.IH [OF update_entries [OF Cons.prems, of x]]
  ultimately show ?case by (simp only: fold_Cons comp_def list.set image_insert Un_insert_right Un_insert_left) blast
qed auto

lemma entries_values:
  assumes "list_all (\<lambda>(k, r). k = f r) m" and "fst ` set m = f ` A" and "snd ` set m \<subseteq> A" and "inj_on f A"
  shows "snd ` set m = A"
proof
  show "A \<subseteq> snd ` set m"
  proof
    fix r assume r: "r \<in> A"
    then have "f r \<in> fst ` set m" using assms(2) by simp
    then obtain q where q: "(f r, q) \<in> set m" by auto
    then have "f q = f r" "q \<in> A" using assms(1,3) by (fastforce simp: list_all_iff)+
    then have "q = r" using assms(4) r by (simp add: inj_on_def)
    with q show "r \<in> snd ` set m" by (simp add: image_iff) (metis snd_conv)
  qed
qed (rule assms(3))

lemma chosen_rows_all:
  assumes "length rows \<le> limit" and "distinct (map row_pid rows)"
  shows "set (chosen_rows src sm limit rows) = set rows"
proof -
  let ?cpu = "take limit (sort_desc (\<lambda>r. or_zero (cpu_percent src sm r)) rows)"
  let ?rest = "take limit (sort_desc (\<lambda>r. int (st_rss (snd r) + st_swap (snd r))) rows)
      @ take limit (filter (unprotected_orphan src rows) rows)"
  let ?m = "fold (\<lambda>r. AList.update (row_pid r) r) (?cpu @ ?rest) []"
  have "?cpu = sort_desc (\<lambda>r. or_zero (cpu_percent src sm r)) rows" using assms(1) by (simp add: sort_desc_def)
  then have c: "set ?cpu = set rows" by simp
  have rest: "set ?rest \<subseteq> set rows" by (auto dest: in_set_takeD)
  have all: "set (?cpu @ ?rest) = set rows" using c rest by auto
  note F = fold_entries [of row_pid "[]" "?cpu @ ?rest"]
  have "snd ` set ?m = set rows"
  proof (rule entries_values)
    show "list_all (\<lambda>(k, r). k = row_pid r) ?m" using F by simp
    show "fst ` set ?m = row_pid ` set rows" using F unfolding all by simp
    show "snd ` set ?m \<subseteq> set rows" using F unfolding all by simp
    show "inj_on row_pid (set rows)" using assms(2) by (simp add: distinct_map)
  qed
  then show ?thesis unfolding chosen_rows_def Let_def by (simp add: append_assoc)
qed

lemma snapshot_protection:
  assumes "length (rows_of src) \<le> limit" and "distinct (map row_pid (rows_of src))" and r: "r \<in> set (rows_of src)"
  shows "snapshot_protected (sn_processes (fst (sample limit src sm))) (row_pid r)
    = protection (row_pid r) (commandOf src r) (src_self src) (ancestors src (rows_of src))"
proof -
  let ?info = "info_of_row src sm (case sm_users sm of Some u \<Rightarrow> u | None \<Rightarrow> parsePasswd (src_passwd src)) (rows_of src)"
  let ?c = "chosen_rows src sm limit (rows_of src)"
  have p: "pi_pid (?info q) = row_pid q" for q by (simp add: info_of_row_def Let_def)
  have sn: "sn_processes (fst (sample limit src sm)) = map ?info ?c" by (simp add: sample_def Let_def)
  note all = chosen_rows_all [OF assms(1,2), of src sm]
  have "List.find (\<lambda>i. pi_pid i = row_pid r) (map ?info xs) = (if r \<in> set xs then Some (?info r) else None)"
    if "set xs \<subseteq> set (rows_of src)" for xs
    using that
  proof (induction xs)
    case (Cons x xs)
    have "row_pid x = row_pid r \<longleftrightarrow> x = r" using Cons.prems r assms(2) by (auto simp: distinct_map inj_on_def)
    with Cons show ?case by (auto simp: p)
  qed simp
  from this [of ?c] have "List.find (\<lambda>i. pi_pid i = row_pid r) (sn_processes (fst (sample limit src sm))) = Some (?info r)"
    unfolding sn using all r by simp
  then show ?thesis by (simp add: snapshot_protected_def info_of_row_def Let_def)
qed

end
