(* ===== verification/Rescue.thy ===== *)
theory Rescue
  imports Processes
begin

text \<open>
  Keeping the way in alive (\<open>rescue.ts\<close>): which processes are protected and how, why it failed, and
  the sweep that takes the protection back from whatever inherited it. The kernel's values are the
  record \<open>priorities\<close>. The lemmas: after a sweep nothing but the targets carries the protection,
  what could be reset was, and no value but the protection's own was touched.
\<close>

section \<open>Targets and script\<close>

definition RESCUE_OOM_ADJ :: int where "RESCUE_OOM_ADJ = - 800"
definition RESCUE_NICE :: int where "RESCUE_NICE = - 5"

definition LAUNCHER :: string where "LAUNCHER = ''/usr/lib/code-server/lib/node /usr/lib/code-server''"

text \<open>The second pattern: the launcher's text, then a space or the end.\<close>

fun launcher_word :: "string \<Rightarrow> bool" where
  "launcher_word [] = False"
| "launcher_word (c # cs) =
     ((starts_with (c # cs) LAUNCHER \<and> (case drop (length LAUNCHER) (c # cs) of [] \<Rightarrow> True | d # ds \<Rightarrow> is_space d))
      \<or> launcher_word cs)"

definition carries_proxy :: "proc_source \<Rightarrow> pid \<Rightarrow> bool" where
  "carries_proxy src p =
     (let cmd = join '' '' (split_char nul (case src_cmdline src p of Some t \<Rightarrow> t | None \<Rightarrow> []))
      in contains cmd ''/code-server/out/node/entry'' \<or> launcher_word cmd)"

definition rescueTargets :: "proc_source \<Rightarrow> pid list" where
  "rescueTargets src = sort (remdups (src_self src # filter (carries_proxy src) (src_pids src)))"

definition protectionScript :: "pid list \<Rightarrow> string" where
  "protectionScript pids =
     (let list = join '' '' (map show_num (filter (\<lambda>p. of_int \<lfloor>p\<rfloor> = p \<and> 0 < p) pids)) in
      join [newline]
        [''for p in '' @ list @ ''; do'',
         ''  [ -d /proc/$p ] || continue'',
         ''  echo '' @ show_num (of_int RESCUE_OOM_ADJ) @ '' > /proc/$p/oom_score_adj'',
         ''  for t in /proc/$p/task/*; do renice -n '' @ show_num (of_int RESCUE_NICE) @ '' -p ''
           @ [CHR 0x22] @ ''${t##*/}'' @ [CHR 0x22] @ '' >/dev/null; done'',
         ''done''])"

definition rescueFailure :: "string \<Rightarrow> string \<Rightarrow> string" where
  "rescueFailure message stderr =
     (if list_ex (contains stderr) [''I/O error'', ''Operation not permitted'', ''Permission denied'']
      then ''root here lacks CAP_SYS_RESOURCE and CAP_SYS_NICE (a container drops them by default; ''
           @ ''add cap_add: [SYS_RESOURCE, SYS_NICE] to it)''
      else if list_ex (contains (stderr @ message)) [''password is required'', ''a terminal is required'']
      then ''no passwordless sudo''
      else let first = hd (split_char newline (trim stderr))
           in take 200 (if first = [] then hd (split_char newline message) else first))"

section \<open>The sweep\<close>

text \<open>
  The values of the processes and of their threads; \<open>pr_setOom\<close> and \<open>pr_setNice\<close> tell whether a
  write is let through.
\<close>

record priorities =
  pr_oom :: "pid \<Rightarrow> int option"
  pr_nice :: "pid \<Rightarrow> int option"

record priority_io =
  io_threads :: "pid \<Rightarrow> pid list"
  io_setOom :: "pid \<Rightarrow> bool"
  io_setNice :: "pid \<Rightarrow> bool"

definition renice :: "priority_io \<Rightarrow> pid \<Rightarrow> priorities \<Rightarrow> priorities" where
  "renice io t s =
     (if pr_nice s t = Some RESCUE_NICE \<and> io_setNice io t then s \<lparr>pr_nice := (pr_nice s)(t := Some 0)\<rparr> else s)"

definition inherits :: "pid list \<Rightarrow> priorities \<Rightarrow> pid \<Rightarrow> bool" where
  "inherits targets s p = (p \<notin> set targets \<and> pr_oom s p = Some RESCUE_OOM_ADJ)"

fun sweepInherited :: "priority_io \<Rightarrow> pid list \<Rightarrow> pid list \<Rightarrow> priorities \<Rightarrow> pid list \<times> priorities" where
  "sweepInherited io targets [] s = ([], s)"
| "sweepInherited io targets (p # ps) s =
     (if \<not> inherits targets s p \<or> \<not> io_setOom io p then sweepInherited io targets ps s
      else let s1 = fold (renice io) (io_threads io p) (s \<lparr>pr_oom := (pr_oom s)(p := Some 0)\<rparr>);
               (reset, s2) = sweepInherited io targets ps s1
           in (p # reset, s2))"

section \<open>Facts\<close>

lemma rescueTargets_set: "set (rescueTargets src) = insert (src_self src) {p \<in> set (src_pids src). carries_proxy src p}"
  and rescueTargets_sorted: "sorted (rescueTargets src)" "distinct (rescueTargets src)"
  by (auto simp: rescueTargets_def)

lemma fold_renice:
  "pr_oom (fold (renice io) ts s) = pr_oom s
   \<and> pr_nice (fold (renice io) ts s) t =
       (if t \<in> set ts \<and> pr_nice s t = Some RESCUE_NICE \<and> io_setNice io t then Some 0 else pr_nice s t)"
  by (induction ts arbitrary: s) (auto simp: renice_def RESCUE_NICE_def)

text \<open>What a sweep does to one process, and to one thread.\<close>

lemma sweep_oom:
  "pr_oom (snd (sweepInherited io targets ps s)) p =
     (if p \<in> set ps \<and> inherits targets s p \<and> io_setOom io p then Some 0 else pr_oom s p)
   \<and> (distinct ps \<longrightarrow> fst (sweepInherited io targets ps s) = filter (\<lambda>p. inherits targets s p \<and> io_setOom io p) ps)"
proof (induction ps arbitrary: s)
  case (Cons q ps)
  let ?s = "fold (renice io) (io_threads io q) (s \<lparr>pr_oom := (pr_oom s)(q := Some 0)\<rparr>)"
  have o: "pr_oom ?s = (pr_oom s)(q := Some 0)" using fold_renice by simp
  then have i: "inherits targets ?s x \<longleftrightarrow> x \<noteq> q \<and> inherits targets s x" for x
    by (auto simp: inherits_def RESCUE_OOM_ADJ_def)
  show ?case
  proof (cases "inherits targets s q \<and> io_setOom io q")
    case True
    obtain reset s2 where r: "sweepInherited io targets ps ?s = (reset, s2)" by fastforce
    then have w: "sweepInherited io targets (q # ps) s = (q # reset, s2)" using True by simp
    have ih: "pr_oom s2 p = (if p \<in> set ps \<and> p \<noteq> q \<and> inherits targets s p \<and> io_setOom io p then Some 0 else pr_oom ?s p)"
      "distinct ps \<Longrightarrow> reset = filter (\<lambda>x. (x \<noteq> q \<and> inherits targets s x) \<and> io_setOom io x) ps"
      using Cons.IH [of ?s] unfolding r i by simp_all
    have "filter (\<lambda>x. (x \<noteq> q \<and> inherits targets s x) \<and> io_setOom io x) ps = filter (\<lambda>x. inherits targets s x \<and> io_setOom io x) ps"
      if "q \<notin> set ps" using that by (intro filter_cong) auto
    with ih(2) have "distinct (q # ps) \<longrightarrow> q # reset = filter (\<lambda>x. inherits targets s x \<and> io_setOom io x) (q # ps)"
      using True by simp
    moreover have "pr_oom s2 p = (if p \<in> set (q # ps) \<and> inherits targets s p \<and> io_setOom io p then Some 0 else pr_oom s p)"
      using ih(1) True unfolding o by (cases "p = q") auto
    ultimately show ?thesis unfolding w by (simp only: fst_conv snd_conv simp_thms)
  next
    case False
    with Cons.IH [of s] show ?thesis by auto
  qed
qed simp

lemma sweep_nice:
  "pr_nice (snd (sweepInherited io targets ps s)) t = pr_nice s t
   \<or> pr_nice s t = Some RESCUE_NICE \<and> pr_nice (snd (sweepInherited io targets ps s)) t = Some 0
     \<and> (\<exists>p\<in>set ps. inherits targets s p \<and> t \<in> set (io_threads io p))"
proof (induction ps arbitrary: s)
  case (Cons q ps)
  let ?s = "fold (renice io) (io_threads io q) (s \<lparr>pr_oom := (pr_oom s)(q := Some 0)\<rparr>)"
  have n: "pr_nice ?s t = (if t \<in> set (io_threads io q) \<and> pr_nice s t = Some RESCUE_NICE \<and> io_setNice io t
      then Some 0 else pr_nice s t)" using fold_renice [of io "io_threads io q"] by simp
  have "pr_oom ?s = (pr_oom s)(q := Some 0)" using fold_renice by simp
  then have i: "inherits targets ?s x \<Longrightarrow> inherits targets s x" for x
    by (auto simp: inherits_def RESCUE_OOM_ADJ_def split: if_splits)
  show ?case
  proof (cases "inherits targets s q \<and> io_setOom io q")
    case True
    obtain reset s2 where r: "sweepInherited io targets ps ?s = (reset, s2)" by fastforce
    then have w: "sweepInherited io targets (q # ps) s = (q # reset, s2)" using True by simp
    have ih: "pr_nice s2 t = pr_nice ?s t \<or> pr_nice ?s t = Some RESCUE_NICE \<and> pr_nice s2 t = Some 0
        \<and> (\<exists>p\<in>set ps. inherits targets ?s p \<and> t \<in> set (io_threads io p))"
      using Cons.IH [of ?s] unfolding r by simp
    show ?thesis
    proof (cases "pr_nice ?s t = pr_nice s t")
      case same: True
      with ih i show ?thesis unfolding w by (simp only: snd_conv list.set) blast
    next
      case False
      then have f: "t \<in> set (io_threads io q)" "pr_nice s t = Some RESCUE_NICE" "pr_nice ?s t = Some 0"
        using n by (simp_all split: if_splits)
      then have "pr_nice s2 t = Some 0" using ih by (auto simp: RESCUE_NICE_def)
      with f True show ?thesis unfolding w by auto
    qed
  next
    case False
    with Cons.IH [of s] show ?thesis by auto
  qed
qed simp

end
