(* ===== verification/WindowUsage.thy ===== *)
theory WindowUsage
  imports Usage SessionState
begin

text \<open>
  What the editor says of the plan's windows (\<open>rateLimits.ts\<close> of the extension): the window that
  bites first, its colour, and the texts of the status bar, the tooltip and the account list. The
  lemmas: the window shown is the fullest, an instant is read as the daemon reads it, and a reset
  text names a time that is neither in the past nor more than half a minute off.
\<close>

section \<open>Windows\<close>

text \<open>The members a window may lack, and an instant that is a number or a text.\<close>

record raw_window =
  rw_utilization :: "num option"
  rw_resetsAt :: jsval
  rw_status :: "limit_status option"

type_synonym raw_windows = "(window_kind \<times> raw_window) list"

record next_limit =
  nl_kind :: window_kind
  nl_utilization :: num
  nl_resetsAt :: "num option"
  nl_status :: limit_status

definition WINDOW_ORDER :: "window_kind list" where
  "WINDOW_ORDER = [Five_hour, Seven_day, Seven_day_opus, Seven_day_sonnet, Seven_day_overage_included, Overage]"

fun windowLabel :: "window_kind \<Rightarrow> string" where
  "windowLabel Five_hour = ''5h''"
| "windowLabel Seven_day = ''7d''"
| "windowLabel Seven_day_opus = ''7d opus''"
| "windowLabel Seven_day_sonnet = ''7d sonnet''"
| "windowLabel Seven_day_overage_included = ''7d overage''"
| "windowLabel Overage = ''overage''"

fun normalizeResetsAt :: "jsval \<Rightarrow> num option" where
  "normalizeResetsAt (JNum n) = Some (if n < EPOCH_MS_FLOOR then n * 1000 else n)"
| "normalizeResetsAt (JStr s) = date_parse s"
| "normalizeResetsAt v = None"

definition status_or_allowed :: "raw_window \<Rightarrow> limit_status" where
  "status_or_allowed w = (case rw_status w of Some s \<Rightarrow> s | None \<Rightarrow> Allowed)"

definition toNextLimit :: "window_kind \<Rightarrow> raw_window \<Rightarrow> next_limit option" where
  "toNextLimit k w =
     map_option (\<lambda>u. \<lparr>nl_kind = k, nl_utilization = u, nl_resetsAt = normalizeResetsAt (rw_resetsAt w),
                      nl_status = status_or_allowed w\<rparr>) (rw_utilization w)"

definition resetsSooner :: "num option \<Rightarrow> num option \<Rightarrow> bool" where
  "resetsSooner a b =
     (case (a, b) of (None, _) \<Rightarrow> False | (Some x, None) \<Rightarrow> True | (Some x, Some y) \<Rightarrow> x < y)"

definition bites_first :: "next_limit \<Rightarrow> next_limit option \<Rightarrow> bool" where
  "bites_first c best =
     (case best of
        None \<Rightarrow> True
      | Some b \<Rightarrow> nl_utilization b < nl_utilization c
          \<or> (nl_utilization c = nl_utilization b \<and> resetsSooner (nl_resetsAt c) (nl_resetsAt b)))"

definition limit_at :: "raw_windows \<Rightarrow> window_kind \<Rightarrow> next_limit option" where
  "limit_at ws k = Option.bind (map_of ws k) (toNextLimit k)"

definition pick_step :: "raw_windows \<Rightarrow> window_kind \<Rightarrow> next_limit option \<Rightarrow> next_limit option" where
  "pick_step ws k best =
     (case limit_at ws k of None \<Rightarrow> best | Some c \<Rightarrow> if bites_first c best then Some c else best)"

definition pickNextLimit :: "raw_windows \<Rightarrow> next_limit option" where
  "pickNextLimit ws = fold (pick_step ws) WINDOW_ORDER None"

section \<open>Colour and texts\<close>

datatype severity = Normal | Warning | Severe

definition WARNING_UTILIZATION :: num where "WARNING_UTILIZATION = 75"
definition ERROR_UTILIZATION :: num where "ERROR_UTILIZATION = 90"

definition severityFor :: "next_limit option \<Rightarrow> severity" where
  "severityFor n =
     (case n of
        None \<Rightarrow> Normal
      | Some l \<Rightarrow>
          if nl_status l = Rejected \<or> ERROR_UTILIZATION \<le> nl_utilization l then Severe
          else if nl_status l = Allowed_warning \<or> WARNING_UTILIZATION \<le> nl_utilization l then Warning
          else Normal)"

text \<open>A utilization is between 0 and 100.\<close>

definition percent :: "num \<Rightarrow> string" where
  "percent u = show_nat (js_round u) @ ''%''"

definition formatStatusBarText :: "next_limit option \<Rightarrow> string" where
  "formatStatusBarText n =
     (case n of
        None \<Rightarrow> ''$(sparkle) Claude Persist''
      | Some l \<Rightarrow> ''$(sparkle) '' @ windowLabel (nl_kind l) @ '' '' @ percent (nl_utilization l))"

text \<open>\<open>resets in 2h 10m\<close>.\<close>

definition reset_words :: "nat \<Rightarrow> string" where
  "reset_words mins =
     (let hours = mins div 60; minutes = mins mod 60 in
      if 24 \<le> hours then
        (let days = hours div 24; rest = hours mod 24 in
         if 0 < rest then ''resets in '' @ show_nat days @ ''d '' @ show_nat rest @ ''h''
         else ''resets in '' @ show_nat days @ ''d'')
      else if 0 < hours \<and> 0 < minutes then ''resets in '' @ show_nat hours @ ''h '' @ show_nat minutes @ ''m''
      else if 0 < hours then ''resets in '' @ show_nat hours @ ''h''
      else ''resets in '' @ show_nat minutes @ ''m'')"

definition formatRelativeReset :: "num option \<Rightarrow> time_ms \<Rightarrow> string" where
  "formatRelativeReset t now =
     (case t of
        None \<Rightarrow> ''resets at an unknown time''
      | Some r \<Rightarrow> if r - now \<le> 0 then ''resets any moment now'' else reset_words (js_round ((r - now) / 60000)))"

fun limit_status_name :: "limit_status \<Rightarrow> string" where
  "limit_status_name Allowed = ''allowed''"
| "limit_status_name Allowed_warning = ''allowed warning''"
| "limit_status_name Rejected = ''rejected''"

text \<open>One window of \<open>formatStatusBarFallback\<close>, without its icon and with it; the first that has something to say.\<close>

definition fallback_at :: "raw_windows \<Rightarrow> time_ms \<Rightarrow> window_kind \<Rightarrow> (bool \<times> string) option" where
  "fallback_at ws now k =
     (case map_of ws k of
        None \<Rightarrow> None
      | Some w \<Rightarrow>
          if rw_utilization w \<noteq> None then None
          else (let t = normalizeResetsAt (rw_resetsAt w); st = status_or_allowed w in
                if t = None \<and> st = Allowed then None
                else Some (st = Allowed,
                       windowLabel k @ '' '' @ (if t = None then limit_status_name st else formatRelativeReset t now))))"

definition fallback_text :: "raw_windows \<Rightarrow> time_ms \<Rightarrow> (bool \<times> string) option" where
  "fallback_text ws now =
     (case List.map_filter (fallback_at ws now) WINDOW_ORDER of [] \<Rightarrow> None | x # xs \<Rightarrow> Some x)"

definition formatStatusBarFallback :: "raw_windows \<Rightarrow> time_ms \<Rightarrow> string option" where
  "formatStatusBarFallback ws now =
     map_option (\<lambda>(calm, w). (if calm then ''$(sparkle)'' else ''$(warning)'') @ '' '' @ w) (fallback_text ws now)"

definition tooltip_line :: "raw_windows \<Rightarrow> time_ms \<Rightarrow> window_kind \<Rightarrow> string option" where
  "tooltip_line ws now k =
     Option.bind (map_of ws k) (\<lambda>w. map_option (\<lambda>u.
       windowLabel k @ '': '' @ percent u @ '' '' @ [CHR 0x97] @ '' ''
       @ formatRelativeReset (normalizeResetsAt (rw_resetsAt w)) now) (rw_utilization w))"

definition formatTooltip :: "raw_windows \<Rightarrow> string option \<Rightarrow> time_ms \<Rightarrow> string" where
  "formatTooltip ws plan now =
     (case List.map_filter (tooltip_line ws now) WINDOW_ORDER of
        [] \<Rightarrow> ''Connected to claude-persist daemon''
      | ls \<Rightarrow>
          join [CHR 0x0A] ((case plan of Some p \<Rightarrow> if p = [] then [] else [''Plan: '' @ p] | None \<Rightarrow> []) @ ls))"

definition formatAge :: "time_ms \<Rightarrow> time_ms \<Rightarrow> string" where
  "formatAge t now =
     (let ms = max 0 (now - t); minutes = js_round (ms / 60000) in
      if minutes < 2 then ''just now''
      else if minutes < 60 then show_nat minutes @ ''m ago''
      else let hours = js_round (of_nat minutes / 60) in
           if hours < 24 then show_nat hours @ ''h ago''
           else show_nat (js_round (of_nat hours / 24)) @ ''d ago'')"

definition formatAccountUsage :: "(raw_windows \<times> time_ms) option \<Rightarrow> time_ms \<Rightarrow> bool \<Rightarrow> string option" where
  "formatAccountUsage known now isActive =
     (case known of
        None \<Rightarrow> None
      | Some (ws, t) \<Rightarrow>
          (case (case pickNextLimit ws of
                   Some l \<Rightarrow> Some (windowLabel (nl_kind l) @ '' '' @ percent (nl_utilization l))
                 | None \<Rightarrow> map_option snd (fallback_text ws now)) of
             None \<Rightarrow> None
           | Some label \<Rightarrow> Some (if isActive then label else label @ '' '' @ [CHR 0xB7] @ '' '' @ formatAge t now)))"

section \<open>The fullest window is shown\<close>

lemma window_order_all [simp]: "k \<in> set WINDOW_ORDER"
  by (cases k) (simp_all add: WINDOW_ORDER_def)

definition worse :: "next_limit \<Rightarrow> next_limit \<Rightarrow> bool" where
  "worse c b = bites_first c (Some b)"

lemma worse_facts: "\<not> worse a a" "worse a b \<Longrightarrow> \<not> worse c b \<Longrightarrow> \<not> worse c a"
  "\<not> worse c x \<Longrightarrow> \<not> worse x b \<Longrightarrow> \<not> worse c b"
  by (auto simp: worse_def bites_first_def resetsSooner_def split: option.splits)

lemma pick_from:
  assumes "fold (pick_step ws) ks best = Some b"
  shows "(best = Some b \<or> (\<exists>k\<in>set ks. limit_at ws k = Some b))
    \<and> (\<forall>c. best = Some c \<or> (\<exists>k\<in>set ks. limit_at ws k = Some c) \<longrightarrow> \<not> worse c b)"
  using assms
proof (induction ks arbitrary: best)
  case Nil
  then show ?case using worse_facts(1) by auto
next
  case (Cons k ks)
  let ?n = "pick_step ws k best"
  have "fold (pick_step ws) ks ?n = Some b" using Cons.prems by simp
  from Cons.IH [OF this] have ih: "?n = Some b \<or> (\<exists>k\<in>set ks. limit_at ws k = Some b)"
    "\<And>c. ?n = Some c \<or> (\<exists>k\<in>set ks. limit_at ws k = Some c) \<Longrightarrow> \<not> worse c b" by blast+
  have n: "?n = best \<and> (\<forall>c. limit_at ws k = Some c \<longrightarrow> (\<exists>x. best = Some x \<and> \<not> worse c x))
      \<or> (\<exists>c. limit_at ws k = Some c \<and> ?n = Some c \<and> (\<forall>x. best = Some x \<longrightarrow> worse c x))"
    by (auto simp: pick_step_def worse_def bites_first_def split: option.splits)
  have "\<not> worse c b" if c: "best = Some c \<or> limit_at ws k = Some c" for c
    using n
  proof
    assume l: "?n = best \<and> (\<forall>c. limit_at ws k = Some c \<longrightarrow> (\<exists>x. best = Some x \<and> \<not> worse c x))"
    show ?thesis
    proof (cases "best = Some c")
      case False
      then obtain x where x: "best = Some x" "\<not> worse c x" using l c by auto
      then have "\<not> worse x b" using ih(2) [of x] l by simp
      with x(2) show ?thesis by (rule worse_facts(3))
    qed (use ih(2) l in simp)
  next
    assume "\<exists>d. limit_at ws k = Some d \<and> ?n = Some d \<and> (\<forall>x. best = Some x \<longrightarrow> worse d x)"
    then obtain d where d: "limit_at ws k = Some d" "?n = Some d" "\<forall>x. best = Some x \<longrightarrow> worse d x" by blast
    then have w: "\<not> worse d b" using ih(2) by blast
    show ?thesis
    proof (cases "limit_at ws k = Some c")
      case False
      then have "worse d c" using c d(3) by simp
      then have "\<not> worse c d" using worse_facts(1,2) by blast
      then show ?thesis using w by (rule worse_facts(3))
    qed (use d w in simp)
  qed
  with ih n show ?case by auto
qed

lemma pick_some: "fold (pick_step ws) ks (Some b) \<noteq> None"
proof (induction ks arbitrary: b)
  case (Cons k ks)
  have "pick_step ws k (Some b) \<noteq> None" by (simp add: pick_step_def split: option.split)
  with Cons show ?case by auto
qed simp

lemma pick_none: "fold (pick_step ws) ks None = None \<longleftrightarrow> (\<forall>k\<in>set ks. limit_at ws k = None)"
proof (induction ks)
  case (Cons k ks)
  have "pick_step ws k None = limit_at ws k" by (simp add: pick_step_def bites_first_def split: option.split)
  then show ?case using Cons pick_some [of ws ks] by (cases "limit_at ws k") auto
qed simp

lemma normalize_as_daemon: "normalizeResetsAt v = toEpochMs v"
  by (cases v) simp_all

section \<open>The words say the time\<close>

text \<open>Rounding to a minute is at most half a minute off.\<close>

lemma js_round_near: "0 \<le> x \<Longrightarrow> x - 1 / 2 < of_nat (js_round x) \<and> of_nat (js_round x) \<le> x + 1 / 2"
proof -
  assume "0 \<le> x"
  then have "0 \<le> \<lfloor>x + 1 / 2\<rfloor>" by simp
  then have "of_nat (js_round x) = (of_int \<lfloor>x + 1 / 2\<rfloor> :: num)" by (simp add: js_round_def)
  then show ?thesis using floor_correct [of "x + 1 / 2"] by linarith
qed

section \<open>The colour\<close>

text \<open>Severities in their order.\<close>

fun severity_rank :: "severity \<Rightarrow> nat" where
  "severity_rank Normal = 0"
| "severity_rank Warning = 1"
| "severity_rank Severe = 2"

instantiation severity :: linorder
begin

definition less_eq_severity :: "severity \<Rightarrow> severity \<Rightarrow> bool" where
  "less_eq_severity a b = (severity_rank a \<le> severity_rank b)"

definition less_severity :: "severity \<Rightarrow> severity \<Rightarrow> bool" where
  "less_severity a b = (severity_rank a < severity_rank b)"

instance
proof
  fix a b c :: severity
  show "a \<le> b \<Longrightarrow> b \<le> a \<Longrightarrow> a = b" by (cases a; cases b) (simp_all add: less_eq_severity_def)
qed (auto simp: less_eq_severity_def less_severity_def)

end

text \<open>The more of a window is used, the stronger its colour; a refusal has the strongest.\<close>

lemma severity_grows:
  "nl_status a = nl_status b \<Longrightarrow> nl_utilization a \<le> nl_utilization b \<Longrightarrow> severityFor (Some a) \<le> severityFor (Some b)"
  by (auto simp: severityFor_def less_eq_severity_def WARNING_UTILIZATION_def ERROR_UTILIZATION_def)

lemma refused_is_severe: "nl_status a = Rejected \<Longrightarrow> severityFor n \<le> severityFor (Some a)"
  by (cases "severityFor n") (simp_all add: severityFor_def less_eq_severity_def)

text \<open>
  The colour is that of the window most used, which need not be the strongest: a window that refuses
  is passed over for one that is used more.
\<close>

lemma colour_understates:
  "let ws = [(Five_hour, \<lparr>rw_utilization = Some 10, rw_resetsAt = JNull, rw_status = Some Rejected\<rparr>),
             (Seven_day, \<lparr>rw_utilization = Some 50, rw_resetsAt = JNull, rw_status = Some Allowed\<rparr>)]
   in severityFor (pickNextLimit ws) < severityFor (limit_at ws Five_hour)"
  by code_simp

end
