(* ===== verification/Sidebar.thy ===== *)
theory Sidebar
  imports Protocol "HOL-Library.Product_Lexorder" "HOL-Library.Multiset"
begin

text \<open>
  The list of chats beside the editor (\<open>sessionsModel.ts\<close>, \<open>sessionTitle.ts\<close>, \<open>models.ts\<close>,
  \<open>markSeen\<close> of \<open>sessionsView.ts\<close>): grouping by folder, which chats have something unread, and two
  small inputs. The lemmas: every chat is in exactly one group, that of its folder, in the promised
  order; what was reconciled needs no reconciling and shows nothing new as unread; and looking at a
  chat clears its dot and no other.
\<close>

section \<open>State\<close>

text \<open>The members of \<open>SessionInfo\<close> the list reads.\<close>

record chat_info =
  ci_id :: string
  ci_cwd :: string
  ci_running :: bool
  ci_lastActivityAt :: num

type_synonym seen_map = "(string \<times> num) list"

record workspace_group =
  wg_cwd :: string
  wg_sessions :: "chat_info list"
  wg_isCurrent :: bool
  wg_hasUnread :: bool

section \<open>Operations\<close>

definition normalize :: "string \<Rightarrow> string" where
  "normalize p =
     (let q = rev (dropWhile (\<lambda>c. c = CHR ''/'') (rev p)) in if q = [] then ''/'' else q)"

definition isUnread :: "seen_map \<Rightarrow> chat_info \<Rightarrow> bool" where
  "isUnread seen s =
     (case map_of seen (ci_id s) of
        None \<Rightarrow> False
      | Some t \<Rightarrow> \<not> ci_running s \<and> t < ci_lastActivityAt s)"

definition seen_entry :: "seen_map \<Rightarrow> chat_info \<Rightarrow> num" where
  "seen_entry seen s = (case map_of seen (ci_id s) of None \<Rightarrow> ci_lastActivityAt s | Some t \<Rightarrow> t)"

definition reconcileSeen :: "chat_info list \<Rightarrow> seen_map \<Rightarrow> seen_map option" where
  "reconcileSeen sessions seen =
     (let kept = fold (\<lambda>s. AList.update (ci_id s) (seen_entry seen s)) sessions [];
          changed = (list_ex (\<lambda>s. map_of seen (ci_id s) = None) sessions \<or> length seen \<noteq> length kept)
      in if changed then Some kept else None)"

text \<open>The \<open>Map\<close> from folder to chats, in the order of first appearance.\<close>

definition add_to_group :: "chat_info \<Rightarrow> (string \<times> chat_info list) list \<Rightarrow> (string \<times> chat_info list) list" where
  "add_to_group s m =
     (let k = normalize (ci_cwd s) in
      AList.update k ((case map_of m k of Some l \<Rightarrow> l | None \<Rightarrow> []) @ [s]) m)"

definition by_cwd :: "chat_info list \<Rightarrow> (string \<times> chat_info list) list" where
  "by_cwd sessions = fold add_to_group sessions []"

definition group_of :: "string list \<Rightarrow> seen_map \<Rightarrow> string \<times> chat_info list \<Rightarrow> workspace_group" where
  "group_of folders seen e =
     \<lparr>wg_cwd = fst e, wg_sessions = sort_desc ci_lastActivityAt (snd e),
      wg_isCurrent = (fst e \<in> normalize ` set folders), wg_hasUnread = list_ex (isUnread seen) (snd e)\<rparr>"

text \<open>The comparison of two groups: current ones first, then the newest activity.\<close>

definition group_key :: "workspace_group \<Rightarrow> bool \<times> num" where
  "group_key g = (\<not> wg_isCurrent g, - ci_lastActivityAt (hd (wg_sessions g)))"

definition groupSessions :: "chat_info list \<Rightarrow> string list \<Rightarrow> seen_map \<Rightarrow> workspace_group list" where
  "groupSessions sessions folders seen = sort_key group_key (map (group_of folders seen) (by_cwd sessions))"

text \<open>\<open>markSeen\<close>: the map to store, \<open>None\<close> when nothing is written.\<close>

definition markSeen :: "chat_info list \<Rightarrow> string \<Rightarrow> num \<Rightarrow> seen_map \<Rightarrow> seen_map option" where
  "markSeen snapshot i now seen =
     (case List.find (\<lambda>s. ci_id s = i) snapshot of
        None \<Rightarrow> Some (AList.update i (max 0 now) seen)
      | Some s \<Rightarrow>
          if \<not> isUnread seen s \<and> ci_lastActivityAt s \<le> (case map_of seen i of Some t \<Rightarrow> t | None \<Rightarrow> 0) then None
          else Some (AList.update i (max (ci_lastActivityAt s) now) seen))"

definition sessionTitleFromInput :: "string \<Rightarrow> string \<Rightarrow> string" where
  "sessionTitleFromInput raw fallback =
     (let t = rev (dropWhile (\<lambda>c. c = CHR ''-'' \<or> is_space c) (rev (trim raw))) in if t = [] then fallback else t)"

text \<open>Models: their value and the name shown.\<close>

definition merge_step :: "string \<Rightarrow> (string \<times> string) list \<Rightarrow> (string \<times> string) list" where
  "merge_step raw merged =
     (let v = trim raw in if v = [] \<or> v \<in> fst ` set merged then merged else merged @ [(v, v)])"

definition mergeExtraModels :: "(string \<times> string) list \<Rightarrow> string list \<Rightarrow> (string \<times> string) list" where
  "mergeExtraModels probed extras = fold merge_step extras probed"

section \<open>Groups\<close>

definition in_folder :: "string \<Rightarrow> chat_info \<Rightarrow> bool" where
  "in_folder k s = (normalize (ci_cwd s) = k)"

lemma by_cwd_spec:
  "distinct (map fst (by_cwd ss)) \<and>
   map_of (by_cwd ss) k = (if list_ex (in_folder k) ss then Some (filter (in_folder k) ss) else None)"
proof (induction ss arbitrary: k rule: rev_induct)
  case Nil
  show ?case by (simp add: by_cwd_def)
next
  case (snoc s ss)
  have b: "by_cwd (ss @ [s]) = add_to_group s (by_cwd ss)" by (simp add: by_cwd_def)
  have f: "filter (in_folder k) ss = []" if "\<not> list_ex (in_folder k) ss" for k
    using that by (auto simp: list_ex_iff filter_empty_conv)
  have m: "map_of (by_cwd ss) (normalize (ci_cwd s)) =
      (if list_ex (in_folder (normalize (ci_cwd s))) ss then Some (filter (in_folder (normalize (ci_cwd s))) ss) else None)"
    using snoc [of "normalize (ci_cwd s)"] by simp
  show ?case
    using snoc [of k] m f [of "normalize (ci_cwd s)"] f [of k] unfolding b
    by (auto simp: add_to_group_def Let_def distinct_update update_conv' in_folder_def [abs_def])
qed

lemma by_cwd_entries:
  "(k, l) \<in> set (by_cwd ss) \<longleftrightarrow> (\<exists>s\<in>set ss. in_folder k s) \<and> l = filter (in_folder k) ss"
proof -
  have "(k, l) \<in> set (by_cwd ss) \<longleftrightarrow> map_of (by_cwd ss) k = Some l" using by_cwd_spec by (metis map_of_eq_Some_iff)
  then show ?thesis using by_cwd_spec [of ss k] by (auto simp: list_ex_iff)
qed

lemma set_groups: "set (groupSessions ss folders seen) = group_of folders seen ` set (by_cwd ss)"
  by (simp add: groupSessions_def)

lemma groups_spec:
  assumes "g \<in> set (groupSessions ss folders seen)"
  shows "mset (wg_sessions g) = mset (filter (in_folder (wg_cwd g)) ss) \<and> wg_sessions g \<noteq> []
    \<and> sorted (map (\<lambda>s. - ci_lastActivityAt s) (wg_sessions g))
    \<and> (wg_hasUnread g \<longleftrightarrow> (\<exists>s\<in>set (wg_sessions g). isUnread seen s))
    \<and> (wg_isCurrent g \<longleftrightarrow> (\<exists>f\<in>set folders. normalize f = wg_cwd g))"
proof -
  obtain k l where e: "(k, l) \<in> set (by_cwd ss)" "g = group_of folders seen (k, l)"
    using assms by (auto simp: set_groups)
  then have l: "l = filter (in_folder k) ss" "\<exists>s\<in>set ss. in_folder k s" using by_cwd_entries by blast+
  then have "set (sort_desc ci_lastActivityAt l) \<noteq> {}" by auto
  then have "sort_desc ci_lastActivityAt l \<noteq> []" by (metis set_empty)
  moreover have "sorted (map (\<lambda>s. - ci_lastActivityAt s) (sort_desc ci_lastActivityAt l))"
    "mset (sort_desc ci_lastActivityAt l) = mset l" by (simp_all add: sort_desc_def)
  ultimately show ?thesis using e(2) l(1) by (auto simp: group_of_def list_ex_iff)
qed

lemma groups_partition:
  "s \<in> set ss \<Longrightarrow> \<exists>!g. g \<in> set (groupSessions ss folders seen) \<and> s \<in> set (wg_sessions g)"
proof -
  assume s: "s \<in> set ss"
  let ?k = "normalize (ci_cwd s)"
  let ?g = "group_of folders seen (?k, filter (in_folder ?k) ss)"
  have "(?k, filter (in_folder ?k) ss) \<in> set (by_cwd ss)" using s by (auto simp: by_cwd_entries in_folder_def)
  then have g: "?g \<in> set (groupSessions ss folders seen)" unfolding set_groups by (rule imageI)
  show ?thesis
  proof (rule ex1I [of _ ?g])
    show "?g \<in> set (groupSessions ss folders seen) \<and> s \<in> set (wg_sessions ?g)"
      using g s by (simp add: group_of_def in_folder_def)
  next
    fix h assume h: "h \<in> set (groupSessions ss folders seen) \<and> s \<in> set (wg_sessions h)"
    then obtain k l where e: "(k, l) \<in> set (by_cwd ss)" "h = group_of folders seen (k, l)" by (auto simp: set_groups)
    then have "l = filter (in_folder k) ss" using by_cwd_entries by blast
    with h e(2) have "in_folder k s" by (simp add: group_of_def)
    then show "h = ?g" using e(2) \<open>l = filter (in_folder k) ss\<close> by (simp add: in_folder_def)
  qed
qed

lemma groups_sorted: "sorted (map group_key (groupSessions ss folders seen))"
  by (simp add: groupSessions_def)

section \<open>Unread\<close>

lemma reconciled_map:
  "distinct (map ci_id ss) \<Longrightarrow>
   fold (\<lambda>s. AList.update (ci_id s) (seen_entry seen s)) ss m
     = fold (\<lambda>(i, t). AList.update i t) (map (\<lambda>s. (ci_id s, seen_entry seen s)) ss) m"
  by (induction ss arbitrary: m) auto

lemma fold_update_new:
  "distinct (map fst (m @ es)) \<Longrightarrow> fold (\<lambda>(i, t). AList.update i t) es m = m @ es"
proof (induction es arbitrary: m)
  case (Cons e es)
  obtain i t where e: "e = (i, t)" by fastforce
  have "i \<notin> fst ` set m" using Cons.prems e by auto
  then have "AList.update i t m = m @ [(i, t)]" by (induction m) auto
  with Cons e show ?case by simp
qed simp

lemma reconcile_spec:
  assumes "distinct (map ci_id ss)" and "reconcileSeen ss seen = r"
  shows "(case r of
      None \<Rightarrow> \<forall>s\<in>set ss. map_of seen (ci_id s) \<noteq> None
    | Some kept \<Rightarrow> map fst kept = map ci_id ss \<and> reconcileSeen ss kept = None
        \<and> (\<forall>s\<in>set ss. isUnread kept s \<longleftrightarrow> isUnread seen s))"
proof (cases r)
  case None
  then show ?thesis using assms(2) by (auto simp: reconcileSeen_def Let_def list_ex_iff split: if_splits)
next
  case (Some kept)
  have map_eq: "fold (\<lambda>s. AList.update (ci_id s) (seen_entry x s)) ss [] = map (\<lambda>s. (ci_id s, seen_entry x s)) ss" for x
    using reconciled_map [OF assms(1), of x "[]"] fold_update_new [of "[]" "map (\<lambda>s. (ci_id s, seen_entry x s)) ss"] assms(1)
    by (simp add: comp_def)
  have n: "kept = map (\<lambda>s. (ci_id s, seen_entry seen s)) ss"
    using assms(2) Some map_eq by (auto simp: reconcileSeen_def Let_def split: if_splits)
  have "distinct (map fst kept)" using n assms(1) by (simp add: comp_def)
  then have get: "map_of kept (ci_id s) = Some (seen_entry seen s)" if "s \<in> set ss" for s
    using that n by (intro map_of_is_SomeI) auto
  have "reconcileSeen ss kept = None" using get n by (auto simp: reconcileSeen_def Let_def map_eq list_ex_iff)
  moreover have "isUnread kept s \<longleftrightarrow> isUnread seen s" if "s \<in> set ss" for s
    using get [OF that] by (auto simp: isUnread_def seen_entry_def split: option.splits)
  ultimately show ?thesis using Some n by (simp add: comp_def)
qed

lemma markSeen_clears:
  assumes "distinct (map ci_id ss)" and "s \<in> set ss"
  shows "case markSeen ss (ci_id s) now seen of
      None \<Rightarrow> \<not> isUnread seen s
    | Some seen' \<Rightarrow> \<not> isUnread seen' s \<and> (\<forall>t\<in>set ss. t \<noteq> s \<longrightarrow> isUnread seen' t = isUnread seen t)"
proof -
  have "List.find (\<lambda>x. ci_id x = ci_id s) ss = Some s" using assms
    by (induction ss) auto
  moreover have "ci_id t \<noteq> ci_id s" if "t \<in> set ss" "t \<noteq> s" for t
    using that assms by (auto simp: distinct_map inj_on_def)
  ultimately show ?thesis by (auto simp: markSeen_def isUnread_def update_conv' split: option.splits)
qed

lemma merged_models:
  assumes "distinct (map fst probed)"
  shows "distinct (map fst (mergeExtraModels probed extras))
    \<and> (\<exists>new. mergeExtraModels probed extras = probed @ new
         \<and> fst ` set (mergeExtraModels probed extras) = fst ` set probed \<union> ((trim ` set extras) - {[]}))"
  using assms
proof (induction extras arbitrary: probed)
  case (Cons x xs)
  have d: "distinct (map fst (merge_step x probed))" using Cons.prems by (auto simp: merge_step_def Let_def)
  obtain new where "mergeExtraModels (merge_step x probed) xs = merge_step x probed @ new"
    "fst ` set (mergeExtraModels (merge_step x probed) xs) = fst ` set (merge_step x probed) \<union> ((trim ` set xs) - {[]})"
    using Cons.IH [OF d] by blast
  moreover have "\<exists>v. merge_step x probed = probed @ v" by (auto simp: merge_step_def Let_def)
  moreover have "fst ` set (merge_step x probed) = fst ` set probed \<union> ({trim x} - {[]})"
    by (auto simp: merge_step_def Let_def)
  ultimately show ?case using Cons.IH [OF d] by (auto simp: mergeExtraModels_def)
qed (simp add: mergeExtraModels_def)

end
