(* ===== verification/Git.thy ===== *)
theory Git
  imports NodePath
begin

text \<open>
  Which branch and which checkouts a chat works in (\<open>gitBranch.ts\<close>, \<open>activeDirs.ts\<close>, the same in the
  daemon and in the extension): git's files are read directly, and \<open>/proc\<close> says who is where. The
  file system is the record \<open>disk\<close>, \<^term>\<open>None\<close> where the code's reading throws. The lemmas: the git
  directory found is that of the nearest folder above, a folder is in use exactly when a process is
  in or below it, never in one whose name merely begins alike, and the places of a chat are its own
  checkout and the worktrees in use, each once.
\<close>

section \<open>Heads\<close>

datatype head_state = Branch string | Detached string | Unknown_head

definition REFS_HEADS :: string where "REFS_HEADS = ''refs/heads/''"

definition is_hex :: "char \<Rightarrow> bool" where
  "is_hex c = (is_digit c \<or> lower_char c \<in> set ''abcdef'')"

definition parseHead :: "string \<Rightarrow> head_state" where
  "parseHead contents =
     (let line = trim contents in
      if line = [] then Unknown_head
      else if starts_with line ''ref:'' then
        (let ref = trim (drop 4 line);
             name = (if starts_with ref REFS_HEADS then drop (length REFS_HEADS) ref else ref)
         in if name = [] then Unknown_head else Branch name)
      else if length line = 40 \<and> list_all is_hex line then Detached (to_lower line)
      else Unknown_head)"

definition parseGitFile :: "string \<Rightarrow> string option" where
  "parseGitFile contents =
     (let line = trim contents; dir = trim (drop (length ''gitdir:'') line) in
      if \<not> starts_with line ''gitdir:'' \<or> dir = [] then None else Some dir)"

fun formatBranch :: "head_state \<Rightarrow> string option" where
  "formatBranch (Branch name) = Some name"
| "formatBranch (Detached sha) = Some (take 8 sha)"
| "formatBranch Unknown_head = None"

section \<open>The git directory\<close>

datatype entry_kind = Is_dir | Is_file

record disk =
  dk_stat :: "string \<Rightarrow> entry_kind option"
  dk_read :: "string \<Rightarrow> string option"
  dk_list :: "string \<Rightarrow> string list option"

record git_info =
  gi_gitDir :: string
  gi_headFile :: string
  gi_isWorktree :: bool
  gi_root :: string
  gi_commonDir :: string

definition MAX_DEPTH :: nat where "MAX_DEPTH = 64"

text \<open>What a folder says: nothing, or the answer, which may be that there is none.\<close>

definition git_here :: "disk \<Rightarrow> string \<Rightarrow> string \<Rightarrow> git_info option option" where
  "git_here w pwd dir =
     (let candidate = path_join [dir, ''.git''] in
      case dk_stat w candidate of
        None \<Rightarrow> None
      | Some Is_dir \<Rightarrow>
          Some (Some \<lparr>gi_gitDir = candidate, gi_headFile = path_join [candidate, ''HEAD''], gi_isWorktree = False,
                      gi_root = dir, gi_commonDir = candidate\<rparr>)
      | Some Is_file \<Rightarrow>
          (case Option.bind (dk_read w candidate) parseGitFile of
             None \<Rightarrow> Some None
           | Some target \<Rightarrow>
               (let gitDir = (if is_absolute target then target else path_resolve pwd (dir @ slash # target));
                    rel = (case dk_read w (path_join [gitDir, ''commondir'']) of Some r \<Rightarrow> trim r | None \<Rightarrow> []);
                    common = (if rel = [] then gitDir
                              else if is_absolute rel then path_resolve pwd rel
                              else path_resolve pwd (gitDir @ slash # rel))
                in Some (Some \<lparr>gi_gitDir = gitDir, gi_headFile = path_join [gitDir, ''HEAD''], gi_isWorktree = True,
                               gi_root = dir, gi_commonDir = common\<rparr>))))"

fun find_from :: "disk \<Rightarrow> string \<Rightarrow> nat \<Rightarrow> string \<Rightarrow> git_info option" where
  "find_from w pwd 0 dir = None"
| "find_from w pwd (Suc n) dir =
     (case git_here w pwd dir of
        Some r \<Rightarrow> r
      | None \<Rightarrow> if path_dirname dir = dir then None else find_from w pwd n (path_dirname dir))"

definition findGitDir :: "disk \<Rightarrow> string \<Rightarrow> string \<Rightarrow> git_info option" where
  "findGitDir w pwd start = find_from w pwd MAX_DEPTH (path_resolve pwd start)"

definition readBranch :: "disk \<Rightarrow> git_info \<Rightarrow> head_state" where
  "readBranch w info = (case dk_read w (gi_headFile info) of Some t \<Rightarrow> parseHead t | None \<Rightarrow> Unknown_head)"

section \<open>Worktrees\<close>

record worktree_entry =
  wt_name :: string
  wt_path :: string
  wt_branch :: "string option"

definition worktree_of :: "disk \<Rightarrow> string \<Rightarrow> string \<Rightarrow> worktree_entry option" where
  "worktree_of w dir name =
     map_option (\<lambda>t. \<lparr>wt_name = name, wt_path = path_dirname (trim t),
         wt_branch = (case dk_read w (path_join [dir, name, ''HEAD'']) of
                        Some h \<Rightarrow> formatBranch (parseHead h) | None \<Rightarrow> None)\<rparr>)
       (dk_read w (path_join [dir, name, ''gitdir'']))"

text \<open>The order of \<open>sort\<close>: by code unit.\<close>

fun text_le :: "string \<Rightarrow> string \<Rightarrow> bool" where
  "text_le [] b = True"
| "text_le (x # a) [] = False"
| "text_le (x # a) (y # b) = (code_of x < code_of y \<or> (x = y \<and> text_le a b))"

fun text_insert :: "string \<Rightarrow> string list \<Rightarrow> string list" where
  "text_insert x [] = [x]"
| "text_insert x (y # ys) = (if text_le x y then x # y # ys else y # text_insert x ys)"

definition text_sort :: "string list \<Rightarrow> string list" where
  "text_sort xs = foldr text_insert xs []"

definition registeredWorktrees :: "disk \<Rightarrow> git_info \<Rightarrow> worktree_entry list" where
  "registeredWorktrees w info =
     (let dir = path_join [gi_commonDir info, ''worktrees''] in
      case dk_list w dir of
        None \<Rightarrow> []
      | Some names \<Rightarrow> List.map_filter (worktree_of w dir) (text_sort names))"

record work_place =
  wp_name :: string
  wp_branch :: "string option"
  wp_path :: string
  wp_worktree :: bool
  wp_current :: bool

definition here_place :: "disk \<Rightarrow> git_info \<Rightarrow> work_place" where
  "here_place w info =
     \<lparr>wp_name = (if gi_isWorktree info then path_basename (gi_root info)
                 else case formatBranch (readBranch w info) of Some b \<Rightarrow> b | None \<Rightarrow> path_basename (gi_root info)),
      wp_branch = formatBranch (readBranch w info), wp_path = gi_root info,
      wp_worktree = gi_isWorktree info, wp_current = True\<rparr>"

definition workPlaces :: "disk \<Rightarrow> string \<Rightarrow> git_info \<Rightarrow> string list \<Rightarrow> work_place list" where
  "workPlaces w pwd info activePaths =
     (let active = path_resolve pwd ` set activePaths in
      here_place w info # map (\<lambda>e. \<lparr>wp_name = wt_name e, wp_branch = wt_branch e, wp_path = wt_path e,
                                    wp_worktree = True, wp_current = False\<rparr>)
        (filter (\<lambda>e. path_resolve pwd (wt_path e) \<in> active
                   \<and> path_resolve pwd (wt_path e) \<noteq> path_resolve pwd (gi_root info))
           (if activePaths = [] then [] else registeredWorktrees w info)))"

definition chipLabel :: "work_place list \<Rightarrow> (string \<times> bool) option" where
  "chipLabel ps =
     (case ps of [] \<Rightarrow> None | [p] \<Rightarrow> Some (wp_name p, wp_worktree p) | _ \<Rightarrow> Some (show_nat (length ps), True))"

section \<open>Who is where\<close>

record proc_dirs =
  pd_names :: "string list option"
  pd_cwd :: "string \<Rightarrow> string option"
  pd_environ :: "string \<Rightarrow> string option"

definition TAG :: string where "TAG = ''CLAUDE_PERSIST_SESSION=''"

definition session_of :: "proc_dirs \<Rightarrow> string \<Rightarrow> string option" where
  "session_of pd pid =
     Option.bind (pd_environ pd pid) (\<lambda>env.
       map_option (drop (length TAG)) (List.find (\<lambda>e. starts_with e TAG) (split_char (CHR 0x00) env)))"

definition inside :: "string \<Rightarrow> string \<Rightarrow> bool" where
  "inside dir cwd =
     (cwd = dir \<or> starts_with cwd (if dir \<noteq> [] \<and> last dir = slash then dir else dir @ [slash]))"

text \<open>A use: a folder, and the session of the process, if it has one.\<close>

definition uses_of :: "proc_dirs \<Rightarrow> string list \<Rightarrow> string \<Rightarrow> (string \<times> string option) list" where
  "uses_of pd candidates pid =
     (case pd_cwd pd pid of
        None \<Rightarrow> []
      | Some cwd \<Rightarrow> map (\<lambda>d. (d, session_of pd pid)) (filter (\<lambda>d. inside d cwd) candidates))"

definition pids_of :: "proc_dirs \<Rightarrow> string list" where
  "pids_of pd = (case pd_names pd of None \<Rightarrow> [] | Some ns \<Rightarrow> filter (\<lambda>n. n \<noteq> [] \<and> list_all is_digit n) ns)"

definition all_uses :: "proc_dirs \<Rightarrow> string list \<Rightarrow> (string \<times> string option) list" where
  "all_uses pd candidates = concat (map (uses_of pd candidates) (pids_of pd))"

definition dirsInUse :: "proc_dirs \<Rightarrow> string list \<Rightarrow> string list" where
  "dirsInUse pd candidates = text_sort (remdups (map fst (all_uses pd candidates)))"

text \<open>The map the uses leave behind, sets as lists; an empty session does not count.\<close>

definition add_owner :: "string \<times> string option \<Rightarrow> (string \<times> string list) list \<Rightarrow> (string \<times> string list) list" where
  "add_owner u m =
     (case u of
        (d, Some s) \<Rightarrow>
          if s = [] then m
          else let have = (case map_of m d of Some l \<Rightarrow> l | None \<Rightarrow> []) in
               AList.update d (if s \<in> set have then have else have @ [s]) m
      | (d, None) \<Rightarrow> m)"

definition dirsInUseBySession :: "proc_dirs \<Rightarrow> string list \<Rightarrow> (string \<times> string list) list" where
  "dirsInUseBySession pd candidates =
     fold (\<lambda>d m. if map_of m d = None then AList.update d [] m else m) (dirsInUse pd candidates)
       (fold add_owner (all_uses pd candidates) [])"

section \<open>Facts\<close>

lemma find_from_nearest:
  "find_from w pwd n dir = Some info \<Longrightarrow>
   \<exists>k<n. git_here w pwd ((path_dirname ^^ k) dir) = Some (Some info)
     \<and> (\<forall>j<k. git_here w pwd ((path_dirname ^^ j) dir) = None)"
proof (induction n arbitrary: dir)
  case (Suc n)
  show ?case
  proof (cases "git_here w pwd dir")
    case None
    then have "find_from w pwd n (path_dirname dir) = Some info"
      using Suc.prems by (auto split: if_splits)
    from Suc.IH [OF this] obtain k where k: "k < n"
      "git_here w pwd ((path_dirname ^^ k) (path_dirname dir)) = Some (Some info)"
      "\<forall>j<k. git_here w pwd ((path_dirname ^^ j) (path_dirname dir)) = None" by blast
    have s: "(path_dirname ^^ j) (path_dirname dir) = (path_dirname ^^ Suc j) dir" for j
      by (simp only: funpow_Suc_right o_apply)
    have "\<forall>j<Suc k. git_here w pwd ((path_dirname ^^ j) dir) = None"
    proof (intro allI impI)
      fix j assume "j < Suc k"
      then show "git_here w pwd ((path_dirname ^^ j) dir) = None" using k(3) None s by (cases j) auto
    qed
    with k s show ?thesis by (intro exI [of _ "Suc k"]) auto
  next
    case (Some r)
    then show ?thesis using Suc.prems by (intro exI [of _ 0]) simp
  qed
qed simp

lemma git_here_root: "git_here w pwd dir = Some (Some info) \<Longrightarrow> gi_root info = dir"
  by (auto simp: git_here_def Let_def split: option.splits entry_kind.splits)

lemma set_text_sort [simp]: "set (text_sort xs) = set xs"
proof -
  have "set (text_insert x ys) = insert x (set ys)" for x ys by (induction ys) auto
  then show ?thesis by (induction xs) (simp_all add: text_sort_def)
qed

lemma distinct_text_sort: "distinct xs \<Longrightarrow> distinct (text_sort xs)"
proof -
  have s: "set (text_insert x ys) = insert x (set ys)" for x ys by (induction ys) auto
  have "x \<notin> set ys \<Longrightarrow> distinct ys \<Longrightarrow> distinct (text_insert x ys)" for x ys by (induction ys) (auto simp: s)
  then show "distinct xs \<Longrightarrow> distinct (text_sort xs)"
    using set_text_sort by (induction xs) (simp_all add: text_sort_def)
qed

text \<open>A folder is in use exactly when a process is in it or below it.\<close>

lemma inside_iff:
  assumes "dir \<noteq> []" and "last dir \<noteq> slash"
  shows "inside dir cwd \<longleftrightarrow> cwd = dir \<or> (\<exists>rest. cwd = dir @ slash # rest)"
  using assms by (auto simp: inside_def starts_with_iff)

lemma dirs_in_use:
  "d \<in> set (dirsInUse pd candidates) \<longleftrightarrow>
   d \<in> set candidates \<and> (\<exists>p\<in>set (pids_of pd). \<exists>cwd. pd_cwd pd p = Some cwd \<and> inside d cwd)"
  by (force simp: dirsInUse_def all_uses_def uses_of_def image_iff split: option.splits)

lemma add_owner_get:
  "map_of (add_owner u m) d =
     (case u of
        (e, Some s) \<Rightarrow> if e = d \<and> s \<noteq> [] then
            Some (let have = (case map_of m d of Some l \<Rightarrow> l | None \<Rightarrow> []) in if s \<in> set have then have else have @ [s])
          else map_of m d
      | (e, None) \<Rightarrow> map_of m d)"
  by (auto simp: add_owner_def Let_def update_conv' split: option.split prod.split)

definition owners :: "(string \<times> string list) list \<Rightarrow> string \<Rightarrow> string set" where
  "owners m d = (case map_of m d of Some l \<Rightarrow> set l | None \<Rightarrow> {})"

lemma fold_add_owner:
  "owners (fold add_owner us m) d = owners m d \<union> {s. (d, Some s) \<in> set us \<and> s \<noteq> []}"
proof (induction us arbitrary: m)
  case (Cons u us)
  have "owners (add_owner u m) d = owners m d \<union> {s. u = (d, Some s) \<and> s \<noteq> []}"
    by (auto simp: owners_def add_owner_get Let_def split: option.splits prod.splits)
  with Cons show ?case by auto
qed simp

lemma fold_default:
  "map_of (fold (\<lambda>d m. if map_of m d = None then AList.update d [] m else m) ds m) d =
     (case map_of m d of Some l \<Rightarrow> Some l | None \<Rightarrow> if d \<in> set ds then Some [] else None)"
  by (induction ds arbitrary: m) (auto simp: update_conv' split: option.split)

lemma dirs_by_session:
  "owners (dirsInUseBySession pd candidates) d =
     {s. s \<noteq> [] \<and> d \<in> set candidates
       \<and> (\<exists>p\<in>set (pids_of pd). session_of pd p = Some s \<and> (\<exists>cwd. pd_cwd pd p = Some cwd \<and> inside d cwd))}"
proof -
  have "owners (dirsInUseBySession pd candidates) d = owners (fold add_owner (all_uses pd candidates) []) d"
    by (simp add: dirsInUseBySession_def owners_def fold_default split: option.split)
  also have "\<dots> = {s. (d, Some s) \<in> set (all_uses pd candidates) \<and> s \<noteq> []}"
    unfolding fold_add_owner by (simp add: owners_def)
  also have "\<dots> = {s. s \<noteq> [] \<and> d \<in> set candidates
       \<and> (\<exists>p\<in>set (pids_of pd). session_of pd p = Some s \<and> (\<exists>cwd. pd_cwd pd p = Some cwd \<and> inside d cwd))}"
    by (force simp: all_uses_def uses_of_def split: option.splits)
  finally show ?thesis .
qed

lemma work_places:
  "p \<in> set (tl (workPlaces w pwd info act)) \<Longrightarrow>
   wp_worktree p \<and> \<not> wp_current p \<and> path_resolve pwd (wp_path p) \<in> path_resolve pwd ` set act
   \<and> path_resolve pwd (wp_path p) \<noteq> path_resolve pwd (gi_root info)
   \<and> (\<exists>e\<in>set (registeredWorktrees w info). wt_path e = wp_path p)"
  by (auto simp: workPlaces_def Let_def split: if_splits)

end
