(* ===== verification/SessionPipe.thy ===== *)
theory SessionPipe
  imports SessionProps
begin

text \<open>
  The pipe into the SDK: a live query always has its input queue, and an accepted message ends up
  in the input of a live query, once, with the turn running and watched.
\<close>

section \<open>A live query has an input queue\<close>

definition piped :: "session \<Rightarrow> bool" where
  "piped s = (s_query s \<noteq> None \<longrightarrow> s_input s \<noteq> None)"

lemma keeps_piped_state [keeps_intros]:
  "(\<And>s. s_query (f s) = s_query s \<and> s_input (f s) = s_input s) \<Longrightarrow> keeps piped (set_state f)"
  by (rule keeps_set_state) (simp add: piped_def)

lemma keeps_piped_emit [keeps_intros]: "keeps piped (emit e)"
  unfolding emit_def by (rule keeps_piped_state) simp

lemma keeps_piped_meta [keeps_intros]: "keeps piped (on_meta f)"
  unfolding on_meta_def by (rule keeps_piped_state) simp

lemma keeps_piped_append [keeps_intros]: "keeps piped (appendEvent env ev)"
proof -
  have "keeps piped (write_event env ev)"
    by (rule keepsI) (auto simp: write_event_def emit_def set_state_def piped_def split: prod.split sum.split)
  moreover have "keeps piped (note_user_message u r)" for u r
    unfolding note_user_message_def by (intro keeps_intros; simp)
  ultimately show ?thesis
    unfolding appendEvent_def by (auto split: chat_event.split intro!: keeps_Cons keeps_Nil)
qed

lemma keeps_piped_simple [keeps_intros]:
  "keeps piped stopStatusWatch" "keeps piped clearStallWatchdog" "keeps piped (armStallWatchdog env)"
  "keeps piped clearRetryTimer" "keeps piped (scheduleRetry env)" "keeps piped (set_pending p)"
  "keeps piped clearPersistedPending" "keeps piped close_query" "keeps piped (persistPending env)"
  "keeps piped (publishAgents env)" "keeps piped pollStatusPage" "keeps piped watchStatusPage"
  "keeps piped statusTimerFires"
  unfolding statusTimerFires_def watchStatusPage_def pollStatusPage_def stopStatusWatch_def
    clearStallWatchdog_def armStallWatchdog_def clearRetryTimer_def scheduleRetry_def set_pending_def
    clearPersistedPending_def close_query_def persistPending_def publishAgents_def
  by (auto simp: Let_def piped_def split: option.split prod.split
      intro!: keeps_Cons keeps_Nil keeps_when_do keeps_if_do keeps_reading keeps_skip
        keeps_set_state keeps_piped_emit)

lemma keeps_piped_push [keeps_intros]: "keeps piped (push_input v)"
  unfolding push_input_def
  by (auto simp: piped_def split: option.split prod.split
      intro!: keeps_Cons keeps_Nil keeps_reading keeps_throw keeps_set_state keeps_piped_emit)

lemma keeps_piped_dispose [keeps_intros]: "keeps piped (disposeActiveQuery env)"
proof (rule keeps_wp)
  fix s
  show "wp (disposeActiveQuery env) piped s"
    unfolding disposeActiveQuery_def publishAgents_def close_input_def close_query_def
    by (simp add: wp_simps Let_def piped_def split: option.split)
qed

lemma keeps_piped_status [keeps_intros]: "keeps piped (setStatus env st d)"
  unfolding setStatus_def by (intro keeps_intros) simp

lemma keeps_piped_ensure [keeps_intros]: "keeps piped (ensureQuery env)"
proof -
  have cwd: "keeps piped (workingDirectory env)"
    unfolding workingDirectory_def by (auto intro!: keeps_intros)
  have inp: "keeps (\<lambda>s. s_input s \<noteq> None) (set_state f)" if "\<And>s. s_input (f s) = s_input s" for f
    by (rule keeps_set_state) (simp add: that)
  have emi: "keeps (\<lambda>s. s_input s \<noteq> None) (emit e)" for e
    unfolding emit_def by (rule inp) simp
  have "keeps (\<lambda>s. s_input s \<noteq> None) (note_user_message u r)" for u r
    unfolding note_user_message_def on_meta_def
    by (intro keeps_Cons keeps_Nil keeps_when_do inp emi) simp_all
  moreover have "keeps (\<lambda>s. s_input s \<noteq> None) (write_event env ev)" for ev
    by (rule keepsI) (auto simp: write_event_def emit_def set_state_def split: prod.split sum.split)
  ultimately have "keeps (\<lambda>s. s_input s \<noteq> None) (appendEvent env ev)" for ev
    unfolding appendEvent_def by (auto split: chat_event.split intro!: keeps_Cons keeps_Nil)
  then have cwd2: "keeps (\<lambda>s. s_input s \<noteq> None) (workingDirectory env)"
    unfolding workingDirectory_def
    by (intro keeps_Cons keeps_Nil keeps_when_do inp) (auto intro!: keeps_reading)
  have "keeps (\<lambda>s. s_input s \<noteq> None) (reading (\<lambda>s. (s_nextQuery s, query_options_of env s)) (\<lambda>(n, opts).
               seqs [emit (Query_started n opts),
                     set_state (\<lambda>s. s \<lparr>s_query := Some n, s_nextQuery := Suc n\<rparr>)]))"
    unfolding emit_def keeps_def by (simp add: reading_def seqs_set_state) (simp add: set_state_def)
  with cwd2 have "keeps (\<lambda>s. s_input s \<noteq> None) (seqs [workingDirectory env,
      reading (\<lambda>s. (s_nextQuery s, query_options_of env s)) (\<lambda>(n, opts).
               seqs [emit (Query_started n opts),
                     set_state (\<lambda>s. s \<lparr>s_query := Some n, s_nextQuery := Suc n\<rparr>)])])"
    by (intro keeps_Cons keeps_Nil)
  then have tail: "keeps piped (seqs [set_state (s_input_update (\<lambda>_. Some iq_new)), workingDirectory env,
      reading (\<lambda>s. (s_nextQuery s, query_options_of env s)) (\<lambda>(n, opts).
               seqs [emit (Query_started n opts),
                     set_state (\<lambda>s. s \<lparr>s_query := Some n, s_nextQuery := Suc n\<rparr>)])])"
    unfolding keeps_def by (auto simp: seqs_set_state piped_def)
  have lost: "keeps piped (when_do (\<lambda>s. has_sdk_session s \<and> \<not> resumable env s)
       (seqs [reading (\<lambda>s. the (mt_sdkSessionId (s_meta s))) (\<lambda>i.
                appendEvent env (status_event Status_error (lost_detail i))),
              on_meta (mt_sdkSessionId_update (\<lambda>_. None)), emit Meta_changed]))"
    by (intro keeps_intros)
  have sync: "keeps piped (reading s_meta (\<lambda>m. emit (Transcript_synced (mt_sdkSessionId m) (mt_cwd m))))"
    by (intro keeps_intros)
  have none: "keeps piped (seqs [appendEvent env (status_event Status_error NO_CLAUDE_MESSAGE), setStatus env Idle None])"
    by (intro keeps_intros)
  show ?thesis
    unfolding ensureQuery_def
    using none keeps_Cons [OF sync keeps_Cons [OF lost tail]] by (intro keeps_when_do) simp
qed

lemma keeps_piped_cancel [keeps_intros]: "keeps piped (cancelPendingRetry env r)"
  unfolding cancelPendingRetry_def by (intro keeps_intros) simp_all

lemma keeps_piped_send [keeps_intros]: "keeps piped (sendMessage env w atts cid)"
  unfolding sendMessage_def by (intro keeps_intros)

lemma keeps_piped_switch [keeps_intros]:
  "keeps piped (parkForAccountSwitch env t a r)" "keeps piped (host_calls env hr)"
  unfolding host_calls_def parkForAccountSwitch_def by (auto split: option.split intro!: keeps_intros)

lemma keeps_piped_park [keeps_intros]: "keeps piped (parkForLimit env w c)"
  unfolding parkForLimit_def giveUp_def parkTurn_def Let_def
  by (auto split: park_cause.split intro!: keeps_intros)

lemma keeps_piped_retry [keeps_intros]:
  "keeps piped (runPendingRetry env)" "keeps piped (retryTimerFires env)" "keeps piped (stallTimerFires env)"
  unfolding retryTimerFires_def stallTimerFires_def runPendingRetry_def by (auto intro!: keeps_intros)

lemma keeps_piped_incidents [keeps_intros]: "keeps piped (incidentsAnswered env a)"
  unfolding incidentsAnswered_def by (auto simp: Let_def split: option.split list.split intro!: keeps_intros)

lemma keeps_piped_person [keeps_intros]:
  "keeps piped (interrupt env)" "keeps piped (moveTo env cwd)"
  unfolding interrupt_def moveTo_def by (auto split: option.split intro!: keeps_intros)

lemma keeps_piped_permissions [keeps_intros]:
  "keeps piped (resolvePermission env rid a m ans)" "keeps piped (canUseTool env n i)"
  unfolding resolvePermission_def canUseTool_def Let_def
  by (auto split: option.splits jsval.split bool.split intro!: keeps_intros)

lemma keeps_piped_options [keeps_intros]:
  "keeps piped (setPermissionMode env pm f)" "keeps piped (setOptions env mo e f f2)"
  unfolding setPermissionMode_def setOptions_def Let_def by (auto split: option.split intro!: keeps_intros)

lemma keeps_piped_naming [keeps_intros]: "keeps piped (maybeRetitle env)" "keeps piped (nameAnswered b a)"
  unfolding maybeRetitle_def nameAnswered_def
  by (auto simp: Let_def split: option.split intro!: keeps_intros)

lemma keeps_piped_agents [keeps_intros]:
  "keeps piped (noteAgentActivity env i d)" "keeps piped (agentTimerFires env)"
  "keeps piped (note_tasks env msg)" "keeps piped (note_parent env p)"
  unfolding note_parent_def note_tasks_def noteAgentActivity_def agentTimerFires_def
  by (auto split: option.split jsval.split intro!: keeps_intros)

lemma keeps_piped_handlers [keeps_intros]:
  "keeps piped (handle_system msg)" "keeps piped (handle_assistant env agent msg)"
  "keeps piped (handle_user env agent msg)" "keeps piped (handle_stream agent msg)"
  "keeps piped (handle_rate_limit msg)" "keeps piped (handle_result env msg)"
proof -
  have "keeps piped (assistant_block env agent b)" for b
    unfolding assistant_block_def Let_def by (auto split: option.split intro!: keeps_intros)
  moreover have "keeps piped (tool_result_block env agent b)" for b
    unfolding tool_result_block_def by (auto split: option.split intro!: keeps_intros)
  ultimately show "keeps piped (handle_assistant env agent msg)" "keeps piped (handle_user env agent msg)"
    unfolding handle_assistant_def handle_user_def Let_def by (auto intro!: keeps_intros)
  show "keeps piped (handle_system msg)" "keeps piped (handle_stream agent msg)"
    "keeps piped (handle_rate_limit msg)"
    unfolding handle_system_def handle_stream_def handle_rate_limit_def Let_def
    by (auto split: jsval.split intro!: keeps_intros)
  have "keeps piped (setup_failure env w)" "keeps piped (finish_turn env b)" for w b
    unfolding setup_failure_def finish_turn_def by (auto split: option.split intro!: keeps_intros)
  then show "keeps piped (handle_result env msg)"
    unfolding handle_result_def judge_result_def Let_def by (auto split: option.split intro!: keeps_intros)
qed

lemma keeps_piped_message [keeps_intros]: "keeps piped (handleSdkMessage env msg)"
  unfolding handleSdkMessage_def dispatch_def Let_def by (auto split: jsval.split intro!: keeps_intros)

lemma keeps_piped_consume [keeps_intros]:
  "keeps piped (consume_throw env q m)" "keeps piped (consume_message env q msg)"
  "keeps piped (consume_end env q)"
proof -
  have fin: "piped s \<Longrightarrow> piped (consume_finally q s)" for s
    by (simp add: consume_finally_def piped_def)
  have c: "keeps piped (when_do (current_query q) (consume_caught env m))" for m
    unfolding consume_caught_def by (auto intro!: keeps_intros)
  have t: "keeps piped (consume_throw env q m)" for m
    using c fin by (auto simp: keeps_def consume_throw_def split: prod.split) (metis fst_conv)
  show "keeps piped (consume_throw env q m)" by (rule t)
  show "keeps piped (consume_message env q msg)"
    using keeps_piped_message [of env msg] t
    by (auto simp: keeps_def consume_message_def split: prod.split outcome.split)
  have e: "keeps piped (when_do (current_query q) (setStatus env Idle None))" by (intro keeps_intros)
  show "keeps piped (consume_end env q)"
    using e t fin by (auto simp: keeps_def consume_end_def split: prod.split outcome.split)
qed

lemma run_method_piped: "keeps piped (run_method c env)"
  by (cases c) (simp_all add: keeps_intros)

lemma reachable_piped: "reachable s \<Longrightarrow> piped s"
proof (induction rule: reachable.induct)
  case (restored p env ren m dir)
  have "s_file (session_open ren m dir (Some (stringify (pending_json p)))) = Some (stringify (pending_json p))"
    by (simp add: session_open_def)
  then show ?case using restored by (simp add: restorePending_spec session_open_def piped_def)
next
  case (stepped s s')
  then show ?case using step_keeps [OF run_method_piped] by blast
qed (simp add: session_open_def piped_def)

section \<open>An accepted message reaches the query\<close>

lemma wp_seqs_append:
  "wp (seqs ps) R s \<Longrightarrow> (\<And>s'. R s' \<Longrightarrow> wp (seqs qs) Q s') \<Longrightarrow> wp (seqs (ps @ qs)) Q s"
  by (simp add: wp_def seqs_append split: prod.split outcome.split) (metis fst_conv snd_conv outcome.distinct(1))

fun is_input :: "effect \<Rightarrow> bool" where
  "is_input (Input_pushed n v) = True"
| "is_input (Query_started n q) = True"
| "is_input _ = False"

definition sdk_of :: "session_meta \<Rightarrow> string option \<times> string" where
  "sdk_of m = (mt_sdkSessionId m, mt_cwd m)"

definition inputs :: "session \<Rightarrow> effect list" where
  "inputs s = filter is_input (s_trace s)"

text \<open>
  What an append adds to the trace starts no query and pushes no input, and it keeps the SDK's
  session id and the folder.
\<close>

lemma appendEvent_quiet:
  assumes "writes_ok env"
  shows "\<exists>t m tr. appendEvent env ev s = (with_log t m tr s, Done)
    \<and> filter is_input tr = inputs s \<and> sdk_of m = sdk_of (s_meta s)"
proof -
  have w: "\<exists>t tr. write_event env ev s = (with_log t (s_meta s) tr s, Done) \<and> filter is_input tr = inputs s" for s
    using write_event_ok [OF assms, of ev s]
    by (metis append_Nil2 filter.simps(1,2) filter_append inputs_def is_input.simps(3))
  show ?thesis
  proof (cases ev)
    case (User_message ut refs cid)
    have "wp (note_user_message ut refs) (\<lambda>s'. s' = with_log (s_transcript s) (s_meta s') (s_trace s') s
        \<and> inputs s' = inputs s \<and> sdk_of (s_meta s') = sdk_of (s_meta s)) s"
      unfolding note_user_message_def on_meta_def
      by (auto simp: wp_simps with_log_def inputs_def sdk_of_def intro!: session.equality)
    then obtain s1 where "note_user_message ut refs s = (s1, Done)" "inputs s1 = inputs s"
      "s1 = with_log (s_transcript s) (s_meta s1) (s_trace s1) s"
      "sdk_of (s_meta s1) = sdk_of (s_meta s)"
      by (cases "note_user_message ut refs s") (auto simp: wp_def)
    then obtain m tr where n: "note_user_message ut refs s = (with_log (s_transcript s) m tr s, Done)"
      "filter is_input tr = inputs s" "sdk_of m = sdk_of (s_meta s)"
      unfolding inputs_def by metis
    obtain t' tr' where "write_event env ev (with_log (s_transcript s) m tr s) =
        (with_log t' m tr' s, Done)" "filter is_input tr' = inputs s"
      using w [of "with_log (s_transcript s) m tr s"] n(2) by (auto simp: inputs_def)
    then show ?thesis using n User_message by (auto simp: appendEvent_def seqs_done)
  qed (use w [of s] in \<open>simp add: appendEvent_def, blast\<close>)+
qed

lemma wp_append_quiet:
  assumes "writes_ok env"
    and "\<And>t m tr. filter is_input tr = inputs s \<Longrightarrow> sdk_of m = sdk_of (s_meta s) \<Longrightarrow>
           Q (with_log t m tr s)"
  shows "wp (appendEvent env ev) Q s"
  using appendEvent_quiet [OF assms(1), of ev s] assms(2) by (auto simp: wp_def)

lemma inputs_update [simp]:
  "inputs (with_log t m tr s) = filter is_input tr"
  "inputs (s_input_update f1 s) = inputs s" "inputs (s_query_update f2 s) = inputs s"
  "inputs (s_nextQuery_update f3 s) = inputs s" "inputs (s_cwdChecked_update f4 s) = inputs s"
  "inputs (s_effectiveCwd_update f5 s) = inputs s" "inputs (s_meta_update f6 s) = inputs s"
  "inputs (s_status_update f7 s) = inputs s" "inputs (s_stallTimer_update f8 s) = inputs s"
  "inputs (s_lastSdkAt_update f9 s) = inputs s" "inputs (s_pending_update f10 s) = inputs s"
  "inputs (s_retries_update f11 s) = inputs s" "inputs (s_file_update f12 s) = inputs s"
  "inputs (s_retryTimer_update f13 s) = inputs s" "inputs (s_statusTimer_update f14 s) = inputs s"
  "inputs (s_namedIncident_update f15 s) = inputs s"
  "inputs (s_trace_update (\<lambda>t. t @ [e]) s) = inputs s @ filter is_input [e]"
  by (simp_all add: inputs_def)

text \<open>The query a message goes to: the live one, or a new one that resumes only what can be resumed.\<close>

definition resume_ok :: "env \<Rightarrow> query_options \<Rightarrow> bool" where
  "resume_ok env q =
     (case qo_resume q of None \<Rightarrow> True | Some i \<Rightarrow> \<exists>cwd. e_sdkTranscript env i cwd)"

definition resumes :: "env \<Rightarrow> session_meta \<Rightarrow> bool" where
  "resumes env m =
     (case fst (sdk_of m) of None \<Rightarrow> True | Some i \<Rightarrow> i = [] \<or> e_sdkTranscript env i (snd (sdk_of m)))"

lemma resumes_option: "resumes env (s_meta s) \<Longrightarrow> resume_ok env (query_options_of env s)"
  by (auto simp: resumes_def resume_ok_def query_options_of_def sdk_of_def given_def Let_def split: option.splits)

text \<open>Once what cannot be resumed is forgotten, a query starts on it.\<close>

definition start_query :: "env \<Rightarrow> op" where
  "start_query env =
     reading (\<lambda>s. (s_nextQuery s, query_options_of env s)) (\<lambda>(n, opts).
       seqs [emit (Query_started n opts),
             set_state (\<lambda>s. s \<lparr>s_query := Some n, s_nextQuery := Suc n\<rparr>)])"

definition begun :: "env \<Rightarrow> session \<Rightarrow> session \<Rightarrow> bool" where
  "begun env s s' =
     (s_pending s' = s_pending s
      \<and> (\<exists>n iq q. s_query s' = Some n \<and> s_input s' = Some iq
          \<and> inputs s' = inputs s @ [Query_started n q] \<and> resume_ok env q))"

definition ready :: "env \<Rightarrow> session \<Rightarrow> session \<Rightarrow> bool" where
  "ready env s s' =
     (resumes env (s_meta s') \<and> s_pending s' = s_pending s \<and> inputs s' = inputs s)"

lemma ready_with_log:
  assumes "ready env s s'" and "filter is_input tr = inputs s'" and "sdk_of m = sdk_of (s_meta s')"
  shows "ready env s (with_log t m tr s')"
  using assms(1) by (simp add: ready_def resumes_def assms(2,3) cong: option.case_cong)

lemma begun_started:
  assumes "ready env s s'" and "s_input s' = Some iq"
  shows "wp (start_query env) (begun env s) s'"
  using resumes_option [of env s'] assms
  by (simp add: ready_def start_query_def wp_simps begun_def)

lemma wp_workingDirectory:
  assumes "writes_ok env" and "ready env s s'" and "s_input s' = Some iq"
  shows "wp (workingDirectory env) (\<lambda>s''. ready env s s'' \<and> s_input s'' = Some iq) s'"
proof -
  have r: "ready env s (s'\<lparr>s_cwdChecked := True, s_effectiveCwd := d\<rparr>)" for d
    using assms(2) by (simp add: ready_def)
  show ?thesis
    unfolding workingDirectory_def
    using assms(2,3) r
    by (simp add: wp_simps) (auto intro!: wp_append_quiet [OF assms(1)] ready_with_log)
qed

lemma wp_ensureQuery_fresh:
  assumes "writes_ok env" and "e_claude env \<noteq> None" and "s_query s = None"
  shows "wp (ensureQuery env) (begun env s) s"
proof -
  let ?first = "[reading s_meta (\<lambda>m. emit (Transcript_synced (mt_sdkSessionId m) (mt_cwd m))),
             when_do (\<lambda>s. has_sdk_session s \<and> \<not> resumable env s)
               (seqs
                 [reading (\<lambda>s. the (mt_sdkSessionId (s_meta s))) (\<lambda>i.
                    appendEvent env (status_event Status_error (lost_detail i))),
                  on_meta (mt_sdkSessionId_update (\<lambda>_. None)), emit Meta_changed])]"
  have first: "wp (seqs ?first) (ready env s) s"
  proof (cases "has_sdk_session s \<and> \<not> resumable env s")
    case True
    then show ?thesis
      unfolding on_meta_def
      by (auto simp: wp_simps resumes_def sdk_of_def ready_def has_sdk_session_def resumable_def
          cong: option.case_cong intro!: wp_append_quiet [OF assms(1)])
  next
    case False
    then have "resumes env (s_meta s)"
      by (auto simp: resumes_def sdk_of_def has_sdk_session_def resumable_def split: option.splits)
    with False show ?thesis
      by (auto simp: wp_simps ready_def has_sdk_session_def resumable_def cong: option.case_cong)
  qed
  have "wp (seqs [set_state (s_input_update (\<lambda>_. Some iq_new)), workingDirectory env, start_query env])
      (begun env s) s'" if "ready env s s'" for s'
  proof -
    have "ready env s (s_input_update (\<lambda>_. Some iq_new) s')" using that by (simp add: ready_def)
    from wp_workingDirectory [OF assms(1) this] show ?thesis
      by (auto simp: wp_Cons wp_set_state wp_Nil_fun intro: wp_mono begun_started)
  qed
  with first have "wp (seqs (?first @ [set_state (s_input_update (\<lambda>_. Some iq_new)), workingDirectory env,
      start_query env])) (begun env s) s"
    by (rule wp_seqs_append)
  with assms(2,3) show ?thesis
    by (auto simp: ensureQuery_def wp_when_do start_query_def)
qed

lemma wp_ensureQuery_live: "s_query s = Some n \<Longrightarrow> wp (ensureQuery env) Q s = Q s"
  by (simp add: ensureQuery_def wp_when_do)

text \<open>
  What a message leaves behind: it is the last input of the live query, the turn runs, its watchdog
  is armed and nothing is parked.
\<close>

definition delivered_to :: "env \<Rightarrow> string \<Rightarrow> attachment list \<Rightarrow> session \<Rightarrow> session \<Rightarrow> bool" where
  "delivered_to env w atts s s' =
     (s_status s' = Running \<and> s_stallTimer s' \<and> s_pending s' = None
      \<and> (\<exists>n es. s_query s' = Some n \<and> inputs s' = inputs s @ es @ [Input_pushed n (envelope w atts s')]
          \<and> (case s_query s of
                Some k \<Rightarrow> k = n \<and> es = []
              | None \<Rightarrow> \<exists>q. es = [Query_started n q] \<and> resume_ok env q)))"

lemma envelope_cong: "sdk_of (s_meta s') = sdk_of (s_meta s) \<Longrightarrow> envelope w atts s' = envelope w atts s"
  by (simp add: envelope_def sdk_of_def)

lemma wp_push:
  assumes "writes_ok env" and "s_query s = Some n" and "s_input s = Some iq" and "s_pending s = None"
  shows "wp (seqs [reading (envelope w atts) push_input, setStatus env Running None, armStallWatchdog env])
    (\<lambda>s'. s_status s' = Running \<and> s_stallTimer s' \<and> s_pending s' = None \<and> s_query s' = Some n
       \<and> inputs s' = inputs s @ [Input_pushed n (envelope w atts s')]) s"
  unfolding push_input_def setStatus_def armStallWatchdog_def clearStallWatchdog_def
  using assms(2-4)
  by (auto simp: wp_simps envelope_def sdk_of_def intro!: wp_append_quiet [OF assms(1)])

lemma wp_cancel_quiet:
  assumes "writes_ok env"
  shows "wp (cancelPendingRetry env r)
    (\<lambda>s'. s_pending s' = None \<and> inputs s' = inputs s \<and> s_query s' = s_query s \<and> s_input s' = s_input s) s"
  unfolding cancelPendingRetry_def stopStatusWatch_def clearRetryTimer_def set_pending_def
    clearPersistedPending_def
  by (auto simp: wp_simps intro!: wp_append_quiet [OF assms])

lemma wp_sendMessage:
  assumes "writes_ok env" and "e_claude env \<noteq> None" and "piped s" and "accepts cid s"
  shows "wp (sendMessage env w atts cid) (delivered_to env w atts s) s"
proof -
  let ?Q = "\<lambda>s'. s_pending s' = None \<and> inputs s' = inputs s \<and> s_query s' = s_query s \<and> s_input s' = s_input s"
  let ?first = "[appendEvent env (User_message w (map label_of atts) (given cid)),
          when_do (\<lambda>s. s_pending s \<noteq> None) (cancelPendingRetry env ''superseded by a new message'')]"
  have "wp (when_do (\<lambda>s. s_pending s \<noteq> None) (cancelPendingRetry env r)) ?Q (with_log t m tr s)"
    if "filter is_input tr = inputs s" for t m tr r
    using wp_cancel_quiet [OF assms(1), of r "with_log t m tr s"] that by (simp add: wp_when_do)
  then have first: "wp (seqs ?first) ?Q s"
    by (auto simp: wp_Cons wp_Nil_fun intro!: wp_append_quiet [OF assms(1)])
  have "wp (seqs [ensureQuery env, when_do (\<lambda>s. s_query s \<noteq> None)
      (seqs [reading (envelope w atts) push_input, setStatus env Running None, armStallWatchdog env])])
      (delivered_to env w atts s) s'" if q: "?Q s'" for s'
  proof (cases "s_query s")
    case None
    have "wp (seqs [reading (envelope w atts) push_input, setStatus env Running None, armStallWatchdog env])
        (delivered_to env w atts s) s2" if new: "begun env s' s2" for s2
    proof -
      obtain n iq p where b: "s_pending s2 = None" "s_query s2 = Some n" "s_input s2 = Some iq"
        "inputs s2 = inputs s @ [Query_started n p]" "resume_ok env p"
        using new q by (auto simp: begun_def)
      show ?thesis
        by (rule wp_mono [OF wp_push [OF assms(1) b(2,3,1)]]) (use b None in \<open>auto simp: delivered_to_def\<close>)
    qed
    moreover have "s_query s2 \<noteq> None" if "begun env s' s2" for s2 using that by (auto simp: begun_def)
    ultimately show ?thesis
      using wp_ensureQuery_fresh [OF assms(1,2), of s'] q None
      by (auto simp: wp_Cons wp_when_do wp_Nil_fun intro: wp_mono)
  next
    case (Some k)
    then obtain iq where "s_input s = Some iq" using assms(3) by (auto simp: piped_def)
    then have b: "s_query s' = Some k" "s_input s' = Some iq" "s_pending s' = None" using q Some by auto
    show ?thesis
      using wp_mono [OF wp_push [OF assms(1) b]] q Some b
      by (auto simp: wp_Cons wp_ensureQuery_live wp_when_do wp_Nil_fun delivered_to_def)
  qed
  with first have "wp (seqs (?first @ [ensureQuery env, when_do (\<lambda>s. s_query s \<noteq> None)
      (seqs [reading (envelope w atts) push_input, setStatus env Running None, armStallWatchdog env])]))
      (delivered_to env w atts s) s"
    by (rule wp_seqs_append)
  with assms(4) show ?thesis by (simp add: sendMessage_def wp_when_do)
qed

end
