(* ===== verification/Coalesce.thy ===== *)
theory Coalesce
  imports Prelude
begin

text \<open>
  Streamed text gathered into a few frames a second (\<open>daemon/src/coalesce.ts\<close>). The state is
  the closure's two variables; an operation returns the messages it sends. The lemmas show that
  a client sees, chat by chat, exactly the text and the messages that were sent, in order, and
  that a tick leaves nothing waiting.
\<close>

record 'p message =
  m_kind :: string
  m_sessionId :: "string option"
  m_text :: "string option"
  m_rest :: "'p option"

record coalescer =
  co_gathered :: "(string \<times> string) list"
  co_timer :: bool

definition co_init :: coalescer where
  "co_init = \<lparr>co_gathered = [], co_timer = False\<rparr>"

definition is_delta :: "'p message \<Rightarrow> bool" where
  "is_delta m =
     (m_kind m = ''delta''
      \<and> (case m_sessionId m of None \<Rightarrow> False | Some s \<Rightarrow> s \<noteq> []) \<and> m_text m \<noteq> None)"

definition deltaOf :: "string \<Rightarrow> string \<Rightarrow> 'p message" where
  "deltaOf sid text =
     \<lparr>m_kind = ''delta'', m_sessionId = Some sid, m_text = Some text, m_rest = None\<rparr>"

definition flushAll :: "coalescer \<Rightarrow> coalescer \<times> 'p message list" where
  "flushAll c = (c \<lparr>co_gathered := []\<rparr>, map (\<lambda>(sid, text). deltaOf sid text) (co_gathered c))"

definition tick :: "coalescer \<Rightarrow> coalescer \<times> 'p message list" where
  "tick c =
     (if co_gathered c = [] then (c \<lparr>co_timer := False\<rparr>, [])
      else let (c', out) = flushAll c in (c' \<lparr>co_timer := True\<rparr>, out))"

definition co_send :: "'p message \<Rightarrow> coalescer \<Rightarrow> coalescer \<times> 'p message list" where
  "co_send m c =
     (if is_delta m then
        (if \<not> co_timer c then (c \<lparr>co_timer := True\<rparr>, [m])
         else (let sid = the (m_sessionId m);
                   before = (case map_of (co_gathered c) sid of None \<Rightarrow> [] | Some t \<Rightarrow> t)
               in (c \<lparr>co_gathered := AList.update sid (before @ the (m_text m)) (co_gathered c)\<rparr>, [])))
      else case m_sessionId m of
        None \<Rightarrow> (c, [m])
      | Some sid \<Rightarrow>
          (case map_of (co_gathered c) sid of
             None \<Rightarrow> (c, [m])
           | Some text \<Rightarrow>
               (c \<lparr>co_gathered := AList.delete sid (co_gathered c)\<rparr>, [deltaOf sid text, m])))"

definition co_close :: "coalescer \<Rightarrow> coalescer" where
  "co_close c = \<lparr>co_gathered = [], co_timer = False\<rparr>"

section \<open>Runs\<close>

text \<open>What happens to a sender: a message from the program, or its window closing.\<close>

datatype 'p co_event = Send "'p message" | Window

fun co_step :: "'p co_event \<Rightarrow> coalescer \<Rightarrow> coalescer \<times> 'p message list" where
  "co_step (Send m) c = co_send m c"
| "co_step Window c = (if co_timer c then tick c else (c, []))"

fun co_run :: "'p co_event list \<Rightarrow> coalescer \<Rightarrow> coalescer \<times> 'p message list" where
  "co_run [] c = (c, [])"
| "co_run (e # es) c = (let (c1, out1) = co_step e c; (c2, out2) = co_run es c1 in (c2, out1 @ out2))"

fun sent :: "'p co_event list \<Rightarrow> 'p message list" where
  "sent [] = []"
| "sent (Send m # es) = m # sent es"
| "sent (Window # es) = sent es"

text \<open>A chat's view of some messages: the characters of its streamed text and its other messages.\<close>

definition view1 :: "string \<Rightarrow> 'p message \<Rightarrow> (char + 'p message) list" where
  "view1 sid m =
     (if m_sessionId m = Some sid
      then if is_delta m then map Inl (the (m_text m)) else [Inr m] else [])"

definition view :: "string \<Rightarrow> 'p message list \<Rightarrow> (char + 'p message) list" where
  "view sid ms = concat (map (view1 sid) ms)"

definition waiting :: "string \<Rightarrow> coalescer \<Rightarrow> (char + 'p message) list" where
  "waiting sid c = (case map_of (co_gathered c) sid of None \<Rightarrow> [] | Some t \<Rightarrow> map Inl t)"

definition co_ok :: "coalescer \<Rightarrow> bool" where
  "co_ok c =
     (om_wf (co_gathered c) \<and> [] \<notin> set (om_keys (co_gathered c))
      \<and> (co_gathered c \<noteq> [] \<longrightarrow> co_timer c))"

lemma co_ok_init [simp]: "co_ok co_init"
  by (simp add: co_ok_def co_init_def om_wf_def om_keys_def)

lemma view_simps [simp]:
  "view sid [] = []" "view sid (m # ms) = view1 sid m @ view sid ms"
  "view sid (ms @ ns) = view sid ms @ view sid ns"
  by (simp_all add: view_def)

lemma view1_deltaOf: "k \<noteq> [] \<Longrightarrow> view1 sid (deltaOf k t) = (if k = sid then map Inl t else [])"
  by (simp add: view1_def deltaOf_def is_delta_def)

lemma view_deltas:
  "distinct (map fst g) \<Longrightarrow> [] \<notin> fst ` set g \<Longrightarrow>
   view sid (map (\<lambda>(k, t). deltaOf k t) g) = (case map_of g sid of None \<Rightarrow> [] | Some t \<Rightarrow> map Inl t)"
proof (induction g)
  case (Cons kt g)
  obtain k t where kt: "kt = (k, t)" by (cases kt)
  have "k \<noteq> []" and "k \<notin> fst ` set g" using Cons.prems kt by auto
  then have "map_of g k = None" by (simp add: map_of_eq_None_iff)
  with Cons.IH Cons.prems \<open>k \<noteq> []\<close> show ?case by (simp add: kt view1_deltaOf)
qed simp

lemma tick_spec:
  assumes "co_ok c" and "tick c = (c', out)"
  shows "view sid out = waiting sid c" and "co_gathered c' = []" and "co_ok c'"
proof -
  have *: "view sid out = waiting sid c \<and> co_gathered c' = [] \<and> co_ok c'"
  proof (cases "co_gathered c = []")
    case True
    then show ?thesis using assms
      by (auto simp: tick_def waiting_def co_ok_def om_wf_def om_keys_def)
  next
    case False
    then have "out = map (\<lambda>(k, t). deltaOf k t) (co_gathered c)"
      "c' = c \<lparr>co_gathered := [], co_timer := True\<rparr>"
      using assms(2) by (auto simp: tick_def flushAll_def)
    then show ?thesis
      using assms(1) view_deltas [of "co_gathered c" sid]
      by (simp add: co_ok_def om_wf_def om_keys_def waiting_def)
  qed
  from * show "view sid out = waiting sid c" "co_gathered c' = []" "co_ok c'" by auto
qed

lemma co_send_spec:
  assumes "co_ok c" and "co_send m c = (c', out)"
  shows "view sid out @ waiting sid c' = waiting sid c @ view1 sid m" and "co_ok c'"
proof -
  have *: "view sid out @ waiting sid c' = waiting sid c @ view1 sid m \<and> co_ok c'"
  proof (cases "is_delta m")
    case True
    then obtain k t where m: "m_sessionId m = Some k" "k \<noteq> []" "m_text m = Some t"
      by (auto simp: is_delta_def split: option.splits)
    show ?thesis
    proof (cases "co_timer c")
      case False
      then have "co_gathered c = []" using assms(1) by (auto simp: co_ok_def)
      then show ?thesis using True False assms by (auto simp: co_send_def waiting_def co_ok_def)
    next
      case timer: True
      define b where "b = (case map_of (co_gathered c) k of None \<Rightarrow> [] | Some t \<Rightarrow> t)"
      from timer True m assms(2) have c': "c' = c \<lparr>co_gathered := AList.update k (b @ t) (co_gathered c)\<rparr>"
        "out = []" by (auto simp: co_send_def b_def)
      have "co_ok c'" using assms(1) timer m
        by (auto simp: co_ok_def c' om.wf_put om.keys_put)
      moreover have "waiting sid c' = waiting sid c @ view1 sid m"
        using m True by (auto simp: waiting_def c' om.get_put b_def view1_def split: option.splits)
      ultimately show ?thesis by (simp add: c')
    qed
  next
    case other: False
    show ?thesis
    proof (cases "\<exists>k t. m_sessionId m = Some k \<and> map_of (co_gathered c) k = Some t")
      case False
      then have "c' = c" "out = [m]" using other assms(2) by (auto simp: co_send_def split: option.splits)
      then show ?thesis using False assms(1)
        by (auto simp: waiting_def view1_def split: option.splits)
    next
      case True
      then obtain k t where k: "m_sessionId m = Some k" "map_of (co_gathered c) k = Some t" by blast
      then have c': "c' = c \<lparr>co_gathered := AList.delete k (co_gathered c)\<rparr>" "out = [deltaOf k t, m]"
        using other assms(2) by (auto simp: co_send_def)
      have vm: "view1 sid m = (if k = sid then [Inr m] else [])" using k other by (auto simp: view1_def)
      have "k \<noteq> []" using assms(1) k(2) by (auto simp: co_ok_def om.key_get)
      then have "view sid out @ waiting sid c' = waiting sid c @ view1 sid m"
        using k vm by (auto simp: c' view1_deltaOf waiting_def om.get_del)
      moreover have "co_timer c" using assms(1) k(2) by (auto simp: co_ok_def)
      then have "co_ok c'" using assms(1) by (auto simp: co_ok_def c' om.wf_del om.keys_del)
      ultimately show ?thesis by simp
    qed
  qed
  from * show "view sid out @ waiting sid c' = waiting sid c @ view1 sid m" "co_ok c'" by auto
qed

lemma co_run_spec:
  "co_ok c \<Longrightarrow> co_run es c = (c', out) \<Longrightarrow>
   view sid out @ waiting sid c' = waiting sid c @ view sid (sent es) \<and> co_ok c'"
proof (induction es arbitrary: c out)
  case (Cons e es)
  obtain c1 out1 where s: "co_step e c = (c1, out1)" by (cases "co_step e c")
  obtain out2 where r: "co_run es c1 = (c', out2)" "out = out1 @ out2"
    using Cons.prems(2) s by (auto split: prod.splits)
  have step: "view sid out1 @ waiting sid c1 = waiting sid c @ view sid (sent [e]) \<and> co_ok c1"
  proof (cases e)
    case (Send m)
    then have "co_send m c = (c1, out1)" using s by simp
    from co_send_spec [OF Cons.prems(1) this] Send show ?thesis by simp
  next
    case Window
    show ?thesis
    proof (cases "co_timer c")
      case True
      with Window s have "tick c = (c1, out1)" by simp
      from tick_spec [OF Cons.prems(1) this] Window show ?thesis by (simp add: waiting_def)
    next
      case False
      with Window s Cons.prems(1) show ?thesis by simp
    qed
  qed
  have "sent (e # es) = sent [e] @ sent es" by (cases e) auto
  with step Cons.IH [OF _ r(1)] r(2) show ?case by (metis append.assoc view_simps(3))
qed simp

lemma coalesce_run:
  assumes "co_run es co_init = (c, out)"
  shows "view sid out @ waiting sid c = view sid (sent es)"
    and "view sid (out @ snd (tick c)) = view sid (sent es)"
proof -
  have w: "waiting sid co_init = []" by (simp add: waiting_def co_init_def)
  note run = co_run_spec [OF co_ok_init assms, of sid]
  then show 1: "view sid out @ waiting sid c = view sid (sent es)" using w by simp
  show "view sid (out @ snd (tick c)) = view sid (sent es)"
    unfolding 1 [symmetric] view_simps(3)
    by (rule arg_cong [of _ _ "(@) (view sid out)"], rule tick_spec(1) [OF _ surjective_pairing])
       (use run in blast)
qed

end
