(* ===== verification/TokenFlow.thy ===== *)
theory TokenFlow
  imports Prelude
begin

text \<open>
  The token meter (\<open>daemon/src/tokenFlow.ts\<close>): every API call's usage counted once, over a
  rolling hour. The injected \<open>now()\<close> is an argument. The lemmas refine the meter, with its
  pruning of calls and of message ids, to the plain list of all calls ever counted: whatever is
  reported and shown in whatever order, a snapshot counts exactly the calls of its hour.
\<close>

record token_counts =
  tk_input :: num
  tk_cacheWrite :: num
  tk_cacheRead :: num
  tk_output :: num
  tk_processed :: num

record call =
  c_at :: time_ms
  c_sessionId :: string
  c_counts :: token_counts

record meter =
  calls :: "call list"
  seen :: "(string \<times> time_ms) list"

record token_flow =
  fl_lastMinute :: token_counts
  fl_lastHour :: token_counts
  fl_callsMinute :: nat
  fl_callsHour :: nat
  fl_bySession :: "(string \<times> num) list"

definition HOUR :: time_ms where "HOUR = 3600000"

fun pos_num :: "jsval \<Rightarrow> num" where
  "pos_num (JNum v) = (if 0 < v then v else 0)"
| "pos_num _ = 0"

definition zero_counts :: token_counts where
  "zero_counts = \<lparr>tk_input = 0, tk_cacheWrite = 0, tk_cacheRead = 0, tk_output = 0, tk_processed = 0\<rparr>"

definition add_counts :: "token_counts \<Rightarrow> token_counts \<Rightarrow> token_counts" where
  "add_counts a b =
     \<lparr>tk_input = tk_input a + tk_input b, tk_cacheWrite = tk_cacheWrite a + tk_cacheWrite b,
      tk_cacheRead = tk_cacheRead a + tk_cacheRead b, tk_output = tk_output a + tk_output b,
      tk_processed = tk_processed a + tk_processed b\<rparr>"

definition usage_counts :: "jsval \<Rightarrow> token_counts" where
  "usage_counts u =
     (let i = pos_num (js_prop u ''input_tokens''); w = pos_num (js_prop u ''cache_creation_input_tokens'');
          r = pos_num (js_prop u ''cache_read_input_tokens''); d = pos_num (js_prop u ''output_tokens'')
      in \<lparr>tk_input = i, tk_cacheWrite = w, tk_cacheRead = r, tk_output = d, tk_processed = i + w + d\<rparr>)"

definition is_zero_usage :: "token_counts \<Rightarrow> bool" where
  "is_zero_usage c = (tk_input c + tk_cacheWrite c + tk_cacheRead c + tk_output c = 0)"

text \<open>Calls are dropped from the front while they are too old; seen ids wherever they are.\<close>

definition prune :: "time_ms \<Rightarrow> meter \<Rightarrow> meter" where
  "prune now m =
     (let cutoff = now - HOUR
      in m \<lparr>calls := dropWhile (\<lambda>c. c_at c \<le> cutoff) (calls m),
            seen := filter (\<lambda>(i, when). \<not> when \<le> cutoff) (seen m)\<rparr>)"

definition meter_record :: "time_ms \<Rightarrow> string \<Rightarrow> jsval \<Rightarrow> string option \<Rightarrow> meter \<Rightarrow> meter" where
  "meter_record now sid usage messageId m =
     (if \<not> js_truthy usage then m
      else let known = (case messageId of None \<Rightarrow> None | Some i \<Rightarrow> if i = [] then None else Some i) in
        if (case known of None \<Rightarrow> False | Some i \<Rightarrow> map_of (seen m) i \<noteq> None) then m
        else let m1 = (case known of None \<Rightarrow> m | Some i \<Rightarrow> m \<lparr>seen := AList.update i now (seen m)\<rparr>);
                 c = usage_counts usage
             in if is_zero_usage c then m1
                else prune now (m1 \<lparr>calls := calls m1 @ [\<lparr>c_at = now, c_sessionId = sid, c_counts = c\<rparr>]\<rparr>))"

definition sum_counts :: "call list \<Rightarrow> token_counts" where
  "sum_counts cs = foldl (\<lambda>a c. add_counts a (c_counts c)) zero_counts cs"

definition add_to :: "string \<Rightarrow> num \<Rightarrow> (string \<times> num) list \<Rightarrow> (string \<times> num) list" where
  "add_to k n m = AList.update k ((case map_of m k of None \<Rightarrow> 0 | Some v \<Rightarrow> v) + n) m"

definition recent_by_session :: "time_ms \<Rightarrow> call list \<Rightarrow> (string \<times> num) list" where
  "recent_by_session now cs =
     foldl (\<lambda>m c. if now - c_at c \<le> 300000 then add_to (c_sessionId c) (tk_processed (c_counts c)) m else m)
       [] cs"

definition snapshot :: "time_ms \<Rightarrow> meter \<Rightarrow> token_flow \<times> meter" where
  "snapshot now m =
     (let m' = prune now m; minute = filter (\<lambda>c. now - c_at c \<le> 60000) (calls m')
      in (\<lparr>fl_lastMinute = sum_counts minute, fl_lastHour = sum_counts (calls m'),
           fl_callsMinute = length minute, fl_callsHour = length (calls m'),
           fl_bySession = take 5 (sort_desc snd (recent_by_session now (calls m')))\<rparr>, m'))"

section \<open>Refinement to the list of all calls\<close>

definition in_hour :: "time_ms \<Rightarrow> call list \<Rightarrow> call list" where
  "in_hour now cs = filter (\<lambda>c. now - HOUR < c_at c) cs"

definition in_order :: "call list \<Rightarrow> bool" where
  "in_order cs = sorted (map c_at cs)"

lemma dropWhile_sorted:
  "in_order cs \<Longrightarrow> dropWhile (\<lambda>c. c_at c \<le> t) cs = filter (\<lambda>c. t < c_at c) cs"
proof (induction cs)
  case (Cons c cs)
  show ?case
  proof (cases "c_at c \<le> t")
    case True
    with Cons show ?thesis by (simp add: in_order_def)
  next
    case False
    then have "\<forall>d\<in>set (c # cs). t < c_at d" using Cons.prems by (auto simp: in_order_def)
    then have "filter (\<lambda>c. t < c_at c) (c # cs) = c # cs" by (simp add: filter_id_conv)
    with False show ?thesis by simp
  qed
qed simp

text \<open>The meter holds the calls of the last hour out of all calls \<open>hist\<close>.\<close>

definition meter_holds :: "time_ms \<Rightarrow> call list \<Rightarrow> meter \<Rightarrow> bool" where
  "meter_holds now hist m =
     (in_order hist \<and> (\<forall>c\<in>set hist. c_at c \<le> now)
      \<and> (\<exists>t\<le>now. calls m = in_hour t hist))"

lemma in_hour_trans: "t \<le> now \<Longrightarrow> in_hour now (in_hour t cs) = in_hour now cs"
  by (auto simp: in_hour_def filter_filter intro!: filter_cong)

lemma in_order_filter: "in_order cs \<Longrightarrow> in_order (filter P cs)"
  by (simp add: in_order_def sorted_filter)

lemma prune_calls:
  assumes "meter_holds t0 hist m" and "t0 \<le> now"
  shows "calls (prune now m) = in_hour now hist"
proof -
  from assms obtain t where t: "t \<le> t0" "calls m = in_hour t hist" "in_order hist"
    by (auto simp: meter_holds_def)
  then have "in_order (calls m)" by (simp add: in_hour_def in_order_filter)
  then have "calls (prune now m) = in_hour now (calls m)"
    by (simp add: prune_def Let_def dropWhile_sorted in_hour_def)
  with t assms(2) show ?thesis by (simp add: in_hour_trans)
qed

lemma recent_filter:
  "recent_by_session now cs
   = foldl (\<lambda>m c. add_to (c_sessionId c) (tk_processed (c_counts c)) m) [] (filter (\<lambda>c. now - c_at c \<le> 300000) cs)"
proof -
  have "foldl (\<lambda>m c. if P c then f c m else m) a cs = foldl (\<lambda>m c. f c m) a (filter P cs)" for P a and f :: "call \<Rightarrow> 'a \<Rightarrow> 'a"
    by (induction cs arbitrary: a) auto
  then show ?thesis by (simp add: recent_by_session_def)
qed

lemma snapshot_spec:
  assumes "meter_holds t0 hist m" and "t0 \<le> now"
  shows "fst (snapshot now m) =
      \<lparr>fl_lastMinute = sum_counts (filter (\<lambda>c. now - c_at c \<le> 60000) hist),
       fl_lastHour = sum_counts (in_hour now hist),
       fl_callsMinute = length (filter (\<lambda>c. now - c_at c \<le> 60000) hist),
       fl_callsHour = length (in_hour now hist),
       fl_bySession = take 5 (sort_desc snd (recent_by_session now hist))\<rparr>"
    and "meter_holds now hist (snd (snapshot now m))"
proof -
  note p = prune_calls [OF assms]
  have within: "filter (\<lambda>c. now - c_at c \<le> d) (in_hour now hist) = filter (\<lambda>c. now - c_at c \<le> d) hist" if "d < HOUR" for d
    using that by (auto simp: in_hour_def HOUR_def filter_filter intro!: filter_cong)
  have "recent_by_session now (in_hour now hist) = recent_by_session now hist"
    unfolding recent_filter using within [of 300000] by (simp add: HOUR_def)
  with within [of 60000] show "fst (snapshot now m) =
      \<lparr>fl_lastMinute = sum_counts (filter (\<lambda>c. now - c_at c \<le> 60000) hist),
       fl_lastHour = sum_counts (in_hour now hist),
       fl_callsMinute = length (filter (\<lambda>c. now - c_at c \<le> 60000) hist),
       fl_callsHour = length (in_hour now hist),
       fl_bySession = take 5 (sort_desc snd (recent_by_session now hist))\<rparr>"
    by (simp add: snapshot_def Let_def p HOUR_def)
  show "meter_holds now hist (snd (snapshot now m))"
    using assms p by (force simp: meter_holds_def snapshot_def Let_def)
qed

lemma record_spec:
  assumes "meter_holds t0 hist m" and "t0 \<le> now" and "js_truthy usage"
    and "\<not> is_zero_usage (usage_counts usage)"
    and "case messageId of None \<Rightarrow> True | Some i \<Rightarrow> i = [] \<or> map_of (seen m) i = None"
  shows "meter_holds now (hist @ [\<lparr>c_at = now, c_sessionId = sid, c_counts = usage_counts usage\<rparr>])
           (meter_record now sid usage messageId m)"
proof -
  let ?c = "\<lparr>c_at = now, c_sessionId = sid, c_counts = usage_counts usage\<rparr>"
  obtain s where r: "meter_record now sid usage messageId m = prune now (m \<lparr>seen := s, calls := calls m @ [?c]\<rparr>)"
  proof (cases "messageId = None \<or> messageId = Some []")
    case True
    then have "meter_record now sid usage messageId m = prune now (m \<lparr>seen := seen m, calls := calls m @ [?c]\<rparr>)"
      using assms(3,4) by (auto simp: meter_record_def Let_def)
    then show ?thesis using that by blast
  next
    case False
    then obtain i where "messageId = Some i" "i \<noteq> []" "map_of (seen m) i = None"
      using assms(5) by (cases messageId) auto
    then have "meter_record now sid usage messageId m =
        prune now (m \<lparr>seen := AList.update i now (seen m), calls := calls m @ [?c]\<rparr>)"
      using assms(3,4) by (simp add: meter_record_def Let_def)
    then show ?thesis using that by blast
  qed
  from assms obtain t where t: "t \<le> t0" "calls m = in_hour t hist" "in_order hist" "\<forall>c\<in>set hist. c_at c \<le> now"
    by (fastforce simp: meter_holds_def)
  have ord: "in_order (hist @ [?c])" using t(3,4) by (auto simp: in_order_def sorted_append)
  have "t - HOUR < now" using t(1) assms(2) by (simp add: HOUR_def)
  then have "calls m @ [?c] = in_hour t (hist @ [?c])" using t(2) by (simp add: in_hour_def)
  then have "meter_holds now (hist @ [?c]) (m \<lparr>seen := s, calls := calls m @ [?c]\<rparr>)"
    using ord t assms(2) by (auto simp: meter_holds_def intro!: exI [of _ t])
  from prune_calls [OF this order_refl] ord t(4) show ?thesis
    by (auto simp: r meter_holds_def)
qed

section \<open>Runs\<close>

text \<open>What happens to the meter: a usage is reported, or the flow is shown. Each has its time.\<close>

datatype meter_op = Report time_ms string jsval "string option" | Shown time_ms

fun op_time :: "meter_op \<Rightarrow> time_ms" where
  "op_time (Report t sid usage mid) = t"
| "op_time (Shown t) = t"

fun meter_do :: "meter_op \<Rightarrow> meter \<Rightarrow> meter" where
  "meter_do (Report t sid usage mid) m = meter_record t sid usage mid m"
| "meter_do (Shown t) m = snd (snapshot t m)"

definition meter_new :: meter where
  "meter_new = \<lparr>calls = [], seen = []\<rparr>"

text \<open>
  The meter's specification forgets nothing: all message ids and all calls. Of the reports with one
  id the first counts, and of those without an id each, unless it reports no tokens.
\<close>

fun report_mark :: "meter_op \<Rightarrow> (string \<times> time_ms) option" where
  "report_mark (Report t sid usage (Some i)) = (if js_truthy usage \<and> i \<noteq> [] then Some (i, t) else None)"
| "report_mark e = None"

definition new_call :: "time_ms \<Rightarrow> string \<Rightarrow> jsval \<Rightarrow> call list" where
  "new_call t sid usage =
     (if is_zero_usage (usage_counts usage) then []
      else [\<lparr>c_at = t, c_sessionId = sid, c_counts = usage_counts usage\<rparr>])"

fun meter_spec :: "meter_op \<Rightarrow> string list \<times> call list \<Rightarrow> string list \<times> call list" where
  "meter_spec (Report t sid usage mid) (ids, hist) =
     (if \<not> js_truthy usage then (ids, hist)
      else case mid of
        None \<Rightarrow> (ids, hist @ new_call t sid usage)
      | Some i \<Rightarrow>
          if i = [] then (ids, hist @ new_call t sid usage)
          else if i \<in> set ids then (ids, hist)
          else (i # ids, hist @ new_call t sid usage))"
| "meter_spec (Shown t) s = s"

definition all_calls :: "meter_op list \<Rightarrow> call list" where
  "all_calls es = snd (fold meter_spec es ([], []))"

definition all_ids :: "meter_op list \<Rightarrow> string list" where
  "all_ids es = fst (fold meter_spec es ([], []))"

definition marks :: "meter_op list \<Rightarrow> (string \<times> time_ms) set" where
  "marks es = set (List.map_filter report_mark es)"

text \<open>The reports of one message lie within an hour: they are the blocks of one answer.\<close>

definition prompt_repeats :: "meter_op list \<Rightarrow> bool" where
  "prompt_repeats es = (\<forall>(i, t)\<in>marks es. \<forall>(j, t')\<in>marks es. i = j \<longrightarrow> t' - t < HOUR)"

text \<open>The ids the meter remembers: one that is gone was first seen more than an hour ago.\<close>

definition ids_kept ::
    "time_ms \<Rightarrow> (string \<times> time_ms) set \<Rightarrow> string list \<Rightarrow> (string \<times> time_ms) list \<Rightarrow> bool" where
  "ids_kept now ms ids sn =
     (set ids = fst ` ms \<and> set sn \<subseteq> ms
      \<and> (\<forall>i\<in>set ids. i \<in> fst ` set sn \<or> (\<exists>t. (i, t) \<in> ms \<and> t \<le> now - HOUR)))"

definition meter_follows :: "time_ms \<Rightarrow> meter_op list \<Rightarrow> meter \<Rightarrow> bool" where
  "meter_follows now es m =
     (meter_holds now (all_calls es) m \<and> ids_kept now (marks es) (all_ids es) (seen m))"

lemma meter_holds_later: "meter_holds t0 hist m \<Longrightarrow> t0 \<le> now \<Longrightarrow> meter_holds now hist m"
  unfolding meter_holds_def by (meson order_trans)

lemma ids_kept_later: "ids_kept t0 ms ids sn \<Longrightarrow> t0 \<le> now \<Longrightarrow> ids_kept now ms ids sn"
  unfolding ids_kept_def by (meson diff_right_mono order_trans)

lemma meter_follows_later: "meter_follows t0 es m \<Longrightarrow> t0 \<le> now \<Longrightarrow> meter_follows now es m"
  unfolding meter_follows_def using meter_holds_later ids_kept_later by blast

lemma ids_kept_prune:
  assumes "ids_kept now ms ids (seen m)"
  shows "ids_kept now ms ids (seen (prune now m))"
proof -
  have p: "seen (prune now m) = filter (\<lambda>(i, when). \<not> when \<le> now - HOUR) (seen m)"
    by (simp add: prune_def Let_def)
  have "i \<in> fst ` set (seen (prune now m)) \<or> (\<exists>t. (i, t) \<in> ms \<and> t \<le> now - HOUR)" if i: "i \<in> set ids" for i
  proof (cases "i \<in> fst ` set (seen m)")
    case True
    then obtain t where t: "(i, t) \<in> set (seen m)" by auto
    show ?thesis
    proof (cases "t \<le> now - HOUR")
      case True
      with t assms show ?thesis unfolding ids_kept_def by blast
    next
      case False
      with t have "(i, t) \<in> set (seen (prune now m))" by (simp add: p)
      then show ?thesis by force
    qed
  next
    case False
    with assms i show ?thesis unfolding ids_kept_def by blast
  qed
  with assms show ?thesis unfolding ids_kept_def p by auto
qed

lemma ids_kept_repeat: "ids_kept now ms ids sn \<Longrightarrow> i \<in> set ids \<Longrightarrow> ids_kept now (insert (i, now) ms) ids sn"
  unfolding ids_kept_def image_insert fst_conv by blast

lemma ids_kept_new:
  "ids_kept now ms ids sn \<Longrightarrow> i \<notin> fst ` set sn \<Longrightarrow> ids_kept now (insert (i, now) ms) (i # ids) (AList.update i now sn)"
proof -
  assume k: "ids_kept now ms ids sn" and i: "i \<notin> fst ` set sn"
  from i have "AList.update i now sn = sn @ [(i, now)]" by (induction sn) auto
  then have "set (AList.update i now sn) = insert (i, now) (set sn)" by simp
  with k show ?thesis unfolding ids_kept_def image_insert fst_conv list.set by (simp only: image_insert fst_conv) blast
qed

lemma marks_snoc:
  "marks (es @ [e]) = (case report_mark e of None \<Rightarrow> marks es | Some x \<Rightarrow> insert x (marks es))"
  by (auto simp: marks_def map_filter_def split: option.splits)

lemma meter_spec_snoc: "(all_ids (es @ [e]), all_calls (es @ [e])) = meter_spec e (all_ids es, all_calls es)"
  by (simp add: all_ids_def all_calls_def)

text \<open>An id is remembered exactly if it was reported, as long as repeats come within the hour.\<close>

lemma seen_iff_reported:
  assumes "meter_follows t es m" and "prompt_repeats (es @ [Report t sid usage (Some i)])"
    and "js_truthy usage" and "i \<noteq> []"
  shows "map_of (seen m) i \<noteq> None \<longleftrightarrow> i \<in> set (all_ids es)"
proof -
  have k: "ids_kept t (marks es) (all_ids es) (seen m)" using assms(1) by (simp add: meter_follows_def)
  have "marks (es @ [Report t sid usage (Some i)]) = insert (i, t) (marks es)"
    using assms(3,4) by (simp add: marks_snoc)
  then have "t - t0 < HOUR" if "(i, t0) \<in> marks es" for t0
    using assms(2) that unfolding prompt_repeats_def by fastforce
  then have "\<not> (\<exists>t0. (i, t0) \<in> marks es \<and> t0 \<le> t - HOUR)" by fastforce
  with k show ?thesis unfolding ids_kept_def map_of_eq_None_iff by force
qed

lemma record_new_calls:
  assumes "meter_holds t hist m" and "js_truthy usage"
    and "case mid of None \<Rightarrow> True | Some i \<Rightarrow> i = [] \<or> map_of (seen m) i = None"
  shows "meter_holds t (hist @ new_call t sid usage) (meter_record t sid usage mid m)"
proof (cases "is_zero_usage (usage_counts usage)")
  case True
  then have "calls (meter_record t sid usage mid m) = calls m"
    by (auto simp: meter_record_def Let_def split: option.split)
  with assms(1) True show ?thesis by (simp add: meter_holds_def new_call_def)
next
  case False
  with record_spec [OF assms(1) order_refl assms(2) False assms(3)] show ?thesis by (simp add: new_call_def)
qed

lemma record_seen:
  assumes "js_truthy usage" and "case mid of None \<Rightarrow> True | Some i \<Rightarrow> i = [] \<or> map_of (seen m) i = None"
    and "ids_kept t ms ids (case mid of None \<Rightarrow> seen m | Some i \<Rightarrow> if i = [] then seen m else AList.update i t (seen m))"
  shows "ids_kept t ms ids (seen (meter_record t sid usage mid m))"
  using assms ids_kept_prune by (cases mid) (auto simp: meter_record_def Let_def)

lemma report_follows:
  assumes "meter_follows t es m" and "prompt_repeats (es @ [Report t sid usage mid])"
  shows "meter_follows t (es @ [Report t sid usage mid]) (meter_record t sid usage mid m)"
proof -
  let ?e = "Report t sid usage mid"
  have h: "meter_holds t (all_calls es) m" and k: "ids_kept t (marks es) (all_ids es) (seen m)"
    using assms(1) by (simp_all add: meter_follows_def)
  consider (none) "\<not> js_truthy usage" | (anon) "js_truthy usage" "mid = None \<or> mid = Some []"
    | (old) i where "js_truthy usage" "mid = Some i" "i \<noteq> []" "i \<in> set (all_ids es)"
    | (new) i where "js_truthy usage" "mid = Some i" "i \<noteq> []" "i \<notin> set (all_ids es)"
    by (cases mid) auto
  then show ?thesis
  proof cases
    case none
    then have "meter_record t sid usage mid m = m" "marks (es @ [?e]) = marks es"
      "meter_spec ?e (all_ids es, all_calls es) = (all_ids es, all_calls es)"
      by (cases mid; simp add: meter_record_def marks_snoc)+
    with h k meter_spec_snoc [of es ?e] show ?thesis by (simp add: meter_follows_def)
  next
    case anon
    then have "marks (es @ [?e]) = marks es"
      "meter_spec ?e (all_ids es, all_calls es) = (all_ids es, all_calls es @ new_call t sid usage)"
      by (auto simp: marks_snoc)
    with anon record_new_calls [OF h anon(1), where mid = mid and sid = sid] k
      record_seen [OF anon(1), where mid = mid and m = m and t = t and ms = "marks es" and ids = "all_ids es" and sid = sid]
      meter_spec_snoc [of es ?e] show ?thesis by (auto simp: meter_follows_def)
  next
    case old
    then have "map_of (seen m) i \<noteq> None" using seen_iff_reported assms by blast
    then have "meter_record t sid usage mid m = m" using old by (simp add: meter_record_def)
    moreover have "marks (es @ [?e]) = insert (i, t) (marks es)"
      "meter_spec ?e (all_ids es, all_calls es) = (all_ids es, all_calls es)"
      using old by (simp_all add: marks_snoc)
    ultimately show ?thesis using h ids_kept_repeat [OF k old(4)] meter_spec_snoc [of es ?e]
      by (simp add: meter_follows_def)
  next
    case new
    then have n: "map_of (seen m) i = None" using seen_iff_reported assms by blast
    then have "i \<notin> fst ` set (seen m)" by (simp add: map_of_eq_None_iff)
    note k' = ids_kept_new [OF k this]
    have "marks (es @ [?e]) = insert (i, t) (marks es)"
      "meter_spec ?e (all_ids es, all_calls es) = (i # all_ids es, all_calls es @ new_call t sid usage)"
      using new by (simp_all add: marks_snoc)
    with new n k' record_new_calls [OF h new(1), where mid = mid and sid = sid]
      record_seen [OF new(1), where mid = mid and m = m and t = t and ms = "insert (i, t) (marks es)"
        and ids = "i # all_ids es" and sid = sid]
      meter_spec_snoc [of es ?e] show ?thesis by (simp add: meter_follows_def)
  qed
qed

lemma prompt_repeats_prefix: "prompt_repeats (es @ [e]) \<Longrightarrow> prompt_repeats es"
  unfolding prompt_repeats_def marks_snoc by (cases "report_mark e") auto

theorem meter_run:
  assumes "sorted (map op_time es)" and "prompt_repeats es" and "\<forall>e\<in>set es. op_time e \<le> now"
  shows "meter_follows now es (fold meter_do es meter_new)"
  using assms
proof (induction es arbitrary: now rule: rev_induct)
  case Nil
  show ?case
    by (auto simp: meter_follows_def meter_holds_def ids_kept_def all_calls_def all_ids_def marks_def meter_new_def
        in_order_def in_hour_def map_filter_def)
next
  case (snoc e es)
  let ?m = "fold meter_do es meter_new"
  have "meter_follows (op_time e) es ?m"
    using snoc.prems by (intro snoc.IH) (auto simp: sorted_append dest: prompt_repeats_prefix)
  then have "meter_follows (op_time e) (es @ [e]) (meter_do e ?m)"
  proof (cases e)
    case (Report t sid usage mid)
    assume "meter_follows (op_time e) es ?m"
    with Report report_follows [of t es ?m sid usage mid] snoc.prems(2) show ?thesis by simp
  next
    case (Shown t)
    assume f: "meter_follows (op_time e) es ?m"
    then have "meter_holds t (all_calls es) (snd (snapshot t ?m))"
      using Shown snapshot_spec(2) [of t "all_calls es" ?m t] by (simp add: meter_follows_def)
    moreover have "ids_kept t (marks es) (all_ids es) (seen (snd (snapshot t ?m)))"
      using f Shown ids_kept_prune [of t "marks es" "all_ids es" ?m] by (simp add: meter_follows_def snapshot_def Let_def)
    ultimately show ?thesis using Shown meter_spec_snoc [of es e] by (simp add: meter_follows_def marks_snoc)
  qed
  with snoc.prems(3) meter_follows_later show ?case by simp
qed

text \<open>A repeated message id adds nothing.\<close>

lemma record_repeat:
  "map_of (seen m) i \<noteq> None \<Longrightarrow> i \<noteq> [] \<Longrightarrow> meter_record now sid usage (Some i) m = m"
  by (simp add: meter_record_def)

end
