(* ===== verification/Samples.thy ===== *)
theory Samples
  imports SessionPipe Coalesce TokenFlow Rotation
begin

text \<open>
  One concrete world, at which the properties with hypotheses are applied: a disk that works, a
  clock, one chat opened on an empty log.
\<close>

definition sample_reply :: host_reply where
  "sample_reply = \<lparr>rp_retryAt = 6000, rp_switchedTo = None, rp_why = ''limited'', rp_activation = None\<rparr>"

definition sample_env :: env where
  "sample_env =
     \<lparr>e_now = 1000, e_renames = True, e_write = (\<lambda>n. Written), e_ioError = ''ENOSPC'', e_persists = True,
      e_windows = [], e_onLimited = (\<lambda>t. sample_reply \<lparr>rp_retryAt := t\<rparr>), e_onAuthFailure = sample_reply,
      e_beforeRetry = sample_reply, e_siblings = [], e_claude = Some ''/usr/bin/claude'',
      e_sdkTranscript = (\<lambda>i d. False), e_isDirectory = (\<lambda>d. True), e_home = ''/home/me'',
      e_configDir = ''/home/me/.claude'', e_activeName = None, e_uuid = ''r1''\<rparr>"

definition sample_meta :: session_meta where
  "sample_meta =
     \<lparr>mt_id = ''a'', mt_title = ''New session'', mt_cwd = ''/w'', mt_sdkSessionId = None,
      mt_permissionMode = None, mt_model = None, mt_effort = None, mt_createdAt = 0,
      mt_lastActivityAt = 0, mt_imageCount = None, mt_turns = None, mt_titledAt = None,
      mt_titleSetByUser = False, mt_activeModel = None, mt_clearedAt = None, mt_pastTitles = None,
      mt_pendingTitle = None\<rparr>"

definition sample_session :: session where
  "sample_session = session_open True sample_meta [] None"

definition sample_turn :: pending_turn where
  "sample_turn = \<lparr>pt_retryAt = 6000, pt_attempts = 1, pt_text = ''limit''\<rparr>"

lemma sample_good [simp]: "good_env sample_env" "writes_ok sample_env"
  using num_plain_of_nat [of 1000]
  by (simp_all add: good_env_def writes_ok_def sample_env_def)

lemma sample_env_fields [simp]: "e_claude sample_env = Some ''/usr/bin/claude''" "e_now sample_env = 1000"
  by (simp_all add: sample_env_def)

lemma sample_turn_plain [simp]: "num_plain (pt_retryAt sample_turn)"
  using num_plain_of_nat [of 6000] by (simp add: sample_turn_def)

lemma sample_reachable [simp]: "reachable sample_session"
  unfolding sample_session_def by (rule reachable.opened)

lemma empty_log_events [simp]: "log_events parse_event [] (allLogFiles i []) = []"
  by (simp add: log_events_all listArchiveGenerations_def)

lemma sample_log [simp]: "sound_log i []"
  by (simp add: sound_log_def terminated_def)

lemma empty_transcript [simp]:
  "transcript_events (transcript_open ren i []) = []" "transcript_ok (transcript_open ren i [])"
  "tr_tail (transcript_open ren i []) = []" "tr_total (transcript_open ren i []) = 0"
proof -
  have t: "terminated (map_of [] (activeLogPath i))" by (simp add: terminated_def)
  note o = transcript_open_ok [OF t, of ren]
  show e: "transcript_events (transcript_open ren i []) = []" using o(2) by simp
  show "transcript_ok (transcript_open ren i [])" by (rule o(1))
  then show "tr_tail (transcript_open ren i []) = []" "tr_total (transcript_open ren i []) = 0"
    using e by (simp_all add: transcript_ok_def take_last_def)
qed

lemma sample_fields [simp]:
  "s_transcript sample_session = transcript_open True ''a'' []" "s_pending sample_session = None"
  "s_retries sample_session = 0" "s_query sample_session = None" "s_permissions sample_session = []"
  "s_meta sample_session = sample_meta" "s_status sample_session = Idle" "s_file sample_session = None"
  by (simp_all add: sample_session_def session_open_def sample_meta_def)

lemma empty_transcript_fd [simp]: "\<not> tr_fd (transcript_open ren i [])"
  by (simp add: transcript_open_def rotateIfNeeded_def Let_def split: prod.split)

end
