(* ===== verification/SessionTheorems.thy ===== *)
theory SessionTheorems
  imports Samples
begin

text \<open>
  What a chat promises: a parked turn survives, a message reaches Claude once, a permission is
  settled once, and the log is the chat. Each theorem rests on the lemmas of the theories it names
  its definitions from; each witness applies it in the world of theory Samples.
\<close>

section \<open>The parked turn\<close>

text \<open>
  C1: a parked turn is never lost. In every reachable session a parked turn has a retry timer that
  does not fire before its time, and its file holds exactly that turn; with no turn parked there
  is no file, so a restart cannot resume work nobody wants.
\<close>

theorem parked_turn_survives:
  assumes "reachable s"
  shows "case s_pending s of
      None \<Rightarrow> s_file s = None
    | Some p \<Rightarrow> (\<exists>d. s_retryTimer s = Some d \<and> pt_retryAt p \<le> d)
        \<and> s_file s = Some (stringify (pending_json p))"
  using reachable_turn_ok [OF assms]
  by (auto simp: turn_ok_def armed_def durable_def turn_of_def split: option.splits)

theorem parked_turn_survives_witness:
  "s_file sample_session = None"
  using parked_turn_survives [OF sample_reachable] by simp

text \<open>
  C4: what one daemon parks, the next one resumes. A session opened on the file that
  \<open>persistPending\<close> wrote restores the very turn, its count of attempts, the status \<open>running\<close>, and
  a timer that does not fire early; nothing else changes and nothing throws.
\<close>

theorem restart_resumes_turn:
  assumes "num_plain (pt_retryAt p)" and "s_pending t = Some p" and "e_persists env"
  shows "restorePending env' (session_open ren m dir (s_file (fst (persistPending env t)))) =
    ((session_open ren m dir (s_file (fst (persistPending env t))))
       \<lparr>s_pending := Some p, s_retries := pt_attempts p, s_status := Running,
        s_retryTimer := Some (e_now env' + max 0 (pt_retryAt p - e_now env'))\<rparr>, Done)"
proof -
  have f: "s_file (fst (persistPending env t)) = Some (stringify (pending_json p))"
    using assms(2,3) by (simp add: persistPending_def reading_def set_state_def)
  show ?thesis
    unfolding f using assms(1) by (intro restorePending_spec) (simp_all add: session_open_def)
qed

theorem restart_resumes_turn_witness:
  "s_pending (fst (restorePending sample_env (session_open True sample_meta []
     (s_file (fst (persistPending sample_env (sample_session \<lparr>s_pending := Some sample_turn\<rparr>)))))))
   = Some sample_turn"
  by (subst restart_resumes_turn [of sample_turn]) (simp_all add: sample_env_def)

text \<open>
  C5: a turn that keeps failing is retried a bounded number of times. Whatever the cause, after
  each of the first \<open>max_attempts\<close> failures the turn is parked with that many attempts; one more
  failure and it is given up: nothing parked, no file, the count back to zero.
\<close>

theorem failing_turn_given_up:
  assumes "list_all (\<lambda>r. good_env (fst (snd r))) rs" and "rs \<noteq> []" and "s_retries s = 0"
  shows "if length rs \<le> max_attempts c then parked_turn (length rs) (failing_rounds c rs s)
    else length rs = Suc (max_attempts c) \<longrightarrow>
      s_pending (failing_rounds c rs s) = None \<and> s_file (failing_rounds c rs s) = None
      \<and> s_retries (failing_rounds c rs s) = 0"
  using failing_rounds_parked [OF assms] failing_rounds_give_up [OF assms(1) _ assms(3)] by auto

theorem failing_turn_given_up_witness:
  "parked_turn 1 (failing_rounds Stall_cause [(sample_env, sample_env, [])] sample_session)"
  using failing_turn_given_up [of "[(sample_env, sample_env, [])]" sample_session Stall_cause]
  by (simp add: max_attempts_def MAX_ATTEMPTS_def)

section \<open>Messages and queries\<close>

text \<open>
  C6: an accepted message reaches Claude. In every reachable session, with a working disk and an
  installed executable, \<open>sendMessage\<close> ends normally with the turn running and watched, nothing
  parked, and the message as the last input of the live query: the one that was live, or a new
  one, started once, which resumes only a conversation whose transcript exists.
\<close>

theorem message_reaches_query:
  assumes "reachable s" and "writes_ok env" and "e_claude env \<noteq> None" and "accepts cid s"
  shows "snd (sendMessage env w atts cid s) = Done
    \<and> delivered_to env w atts s (fst (sendMessage env w atts cid s))"
  using wp_sendMessage [OF assms(2,3) reachable_piped [OF assms(1)] assms(4)] by (simp add: wp_def)

theorem message_reaches_query_witness:
  "s_status (fst (sendMessage sample_env ''hello'' [] None sample_session)) = Running"
  using message_reaches_query [OF sample_reachable sample_good(2), of None "''hello''" "[]"]
  by (simp add: accepts_def given_def delivered_to_def)

text \<open>
  C7: a message sent twice is taken once. After a message with a client id was logged and at most
  999 further events, in the same daemon or in one that opened the same files again, sending it
  again changes nothing.
\<close>

theorem repeated_message_ignored:
  assumes "transcript_ok t" and "num_plain now" and "cid \<noteq> []"
    and "list_all entry_plain es" and "length es < MAX_TAIL"
    and "t' = append_all ((ren, now, User_message w refs (Some cid)) # es) t"
    and "s_transcript s = t' \<or> s_transcript s = transcript_open ren' (tr_id t') (tr_dir t')"
  shows "sendMessage env w' atts (Some cid) s = (s, Done)"
  using message_known [OF assms(1,2,4,5,6)] assms(3,7)
  by (auto intro!: sendMessage_duplicate simp: accepts_def given_def)

theorem repeated_message_ignored_witness:
  "sendMessage sample_env ''again'' [] (Some ''c1'')
     (sample_session \<lparr>s_transcript :=
        append_all [(True, 5, User_message ''hello'' [] (Some ''c1''))] (transcript_open True ''a'' [])\<rparr>)
   = (sample_session \<lparr>s_transcript :=
        append_all [(True, 5, User_message ''hello'' [] (Some ''c1''))] (transcript_open True ''a'' [])\<rparr>, Done)"
  by (rule repeated_message_ignored [OF empty_transcript(2) [of True "''a''"], where es = "[]" and now = 5
        and w = "''hello''" and refs = "[]" and ren = True, OF _ _ _ _ refl disjI1])
     (use num_plain_of_nat [of 5] in \<open>simp_all add: MAX_TAIL_def\<close>)

text \<open>
  C8: a query that was replaced counts no more. Whatever it still yields, throws or ends with, the
  session that has moved on to another query (or to none) is left exactly as it was.
\<close>

theorem stale_query_ignored:
  assumes "s_query s \<noteq> Some q"
  shows "consume_message env q msg s = (s, Done) \<and> consume_throw env q m s = (s, Done)
    \<and> consume_end env q s = (s, Done)"
  using stale_query [OF assms] by blast

theorem stale_query_ignored_witness:
  "consume_throw sample_env 7 ''boom'' sample_session = (sample_session, Done)"
  using stale_query_ignored [of sample_session 7] by simp

text \<open>
  C9: the input queue hands out what was pushed, once and in order: what any run of pushes, reads
  and closes delivered, followed by what is still buffered, is what was pushed.
\<close>

theorem input_queue_in_order:
  assumes "iq_run ps iq_new = (q, out)"
  shows "delivered out @ iq_buffer q = iq_pushed ps \<and> (iq_waiters q = 0 \<or> iq_buffer q = [])"
  using iq_run_spec [OF _ assms] by (simp add: iq_ok_def iq_new_def)

theorem input_queue_in_order_witness:
  "delivered [Some (1::nat)] @ [2] = iq_pushed [Iq_next, Iq_push (1::nat), Iq_push 2]"
  using input_queue_in_order [of "[Iq_next, Iq_push (1::nat), Iq_push 2]"
      "\<lparr>iq_buffer = [2], iq_waiters = 0, iq_closed = False\<rparr>" "[Some 1]"]
  by (simp add: iq_new_def iq_push_def iq_next_def)

section \<open>Permissions\<close>

text \<open>
  C10: a permission is settled once. The first answer to a waiting request settles it with that
  answer and removes it, leaving the others; every later answer does nothing.
\<close>

theorem permission_settled_once:
  assumes "writes_ok env" and "map_of (s_permissions s) rid = Some pm"
  shows "\<exists>s1. resolvePermission env rid allow msg ans s = (s1, Done)
    \<and> settled s1 = settled s @ [Permission_settled rid (settle_result pm allow msg ans)]
    \<and> s_permissions s1 = AList.delete rid (s_permissions s)
    \<and> resolvePermission env' rid allow' msg' ans' s1 = (s1, Done)"
proof -
  obtain s1 where s1: "resolvePermission env rid allow msg ans s = (s1, Done)"
    "s_permissions s1 = AList.delete rid (s_permissions s)"
    "settled s1 = settled s @ [Permission_settled rid (settle_result pm allow msg ans)]"
    using resolvePermission_spec [OF assms(1), of rid allow msg ans s] assms(2) by auto
  then have "map_of (s_permissions s1) rid = None" by (simp add: delete_conv)
  from resolvePermission_again [OF this] s1 show ?thesis by blast
qed

theorem permission_settled_once_witness:
  "\<exists>s1. resolvePermission sample_env ''r1'' True None None
      (sample_session \<lparr>s_permissions := [(''r1'', \<lparr>pm_isQuestion = False, pm_input = JNull\<rparr>)]\<rparr>) = (s1, Done)
    \<and> resolvePermission sample_env ''r1'' False None None s1 = (s1, Done)"
  using permission_settled_once [OF sample_good(2), of
      "sample_session \<lparr>s_permissions := [(''r1'', \<lparr>pm_isQuestion = False, pm_input = JNull\<rparr>)]\<rparr>"
      "''r1''" "\<lparr>pm_isQuestion = False, pm_input = JNull\<rparr>" True None None sample_env False None None]
  by auto

text \<open>
  C11: switching to bypass grants exactly the tool requests that wait, each once and in the order
  they were made; a question is never answered for the person and keeps waiting.
\<close>

theorem bypass_grants_tools_only:
  assumes "writes_ok env" and "distinct (map fst (s_permissions s))"
  shows "s_permissions (fst (setPermissionMode env Bypass_permissions failed s))
      = filter (\<lambda>(rid, pm). pm_isQuestion pm) (s_permissions s)
    \<and> settled (fst (setPermissionMode env Bypass_permissions failed s))
      = settled s @ map (\<lambda>(rid, pm). Permission_settled rid (settle_result pm True None None))
                        (filter (\<lambda>(rid, pm). \<not> pm_isQuestion pm) (s_permissions s))"
  using setPermissionMode_bypass [OF assms] by blast

theorem bypass_grants_tools_only_witness:
  "s_permissions (fst (setPermissionMode sample_env Bypass_permissions None
      (sample_session \<lparr>s_permissions := [(''q'', \<lparr>pm_isQuestion = True, pm_input = JNull\<rparr>),
                                        (''t'', \<lparr>pm_isQuestion = False, pm_input = JNull\<rparr>)]\<rparr>)))
   = [(''q'', \<lparr>pm_isQuestion = True, pm_input = JNull\<rparr>)]"
  by (subst bypass_grants_tools_only [THEN conjunct1]) simp_all


section \<open>The log\<close>

text \<open>
  C12: the files are the chat. However a session runs from a sound log, event \<open>n\<close> of its
  transcript carries the number \<open>n\<close>, the memory holds the last thousand events and their count,
  and a daemon that opens the files again shows the same chat.
\<close>

theorem log_is_the_chat:
  assumes "sound_log (mt_id m) dir" and "session_step\<^sup>*\<^sup>* (session_open ren m dir fl) s"
  shows "numbered (transcript_events (s_transcript s))
    \<and> tr_tail (s_transcript s) = take_last MAX_TAIL (transcript_events (s_transcript s))
    \<and> tr_total (s_transcript s) = length (transcript_events (s_transcript s))
    \<and> transcript_events (transcript_open ren' (tr_id (s_transcript s)) (tr_dir (s_transcript s)))
      = transcript_events (s_transcript s)"
proof -
  have "logged s" using logged_steps [OF assms(2) session_open_logged [OF assms(1)]] .
  then have n: "numbered (transcript_events (s_transcript s))" and ok: "transcript_ok (s_transcript s)"
    by (simp_all add: logged_def)
  show ?thesis
    using n ok reopened_transcript(1) [OF ok] by (simp add: transcript_ok_def)
qed

theorem log_is_the_chat_witness:
  "numbered (transcript_events (s_transcript sample_session))"
  using log_is_the_chat [of sample_meta "[]" True None sample_session] by (simp add: sample_session_def)

text \<open>
  Appending is appending. A run of written events, across the rotations it causes, leaves a
  transcript whose events are the old ones followed by the new ones, stamped with consecutive
  numbers; memory and counters agree with the files throughout.
\<close>

theorem append_refines_list:
  assumes "transcript_ok t" and "list_all entry_plain es"
  shows "transcript_events (append_all es t) = transcript_events t @ stamped (length (transcript_events t)) es
    \<and> transcript_ok (append_all es t)"
proof -
  have "tr_total t = length (transcript_events t)" using assms(1) by (simp add: transcript_ok_def)
  then show ?thesis using append_all_events [OF assms] by simp
qed

theorem append_refines_list_witness:
  "transcript_events (append_all [(True, 5, User_message ''hello'' [] None)] (transcript_open True ''a'' []))
   = stamped 0 [(True, 5, User_message ''hello'' [] None)]"
  using append_refines_list [OF empty_transcript(2), of "[(True, 5, User_message ''hello'' [] None)]" True "''a''"]
    num_plain_of_nat [of 5]
  by (simp add: entry_plain_def)

text \<open>
  C13: a page of the transcript is a slice of the chat, whether memory or the files answer: the
  events before a number, at most the limit (at least one), and whether there are earlier ones;
  the events since a number, the newest ones when there are too many.
\<close>

theorem pages_are_slices:
  assumes "transcript_ok t"
  shows "eventsBefore b n t =
      (let total = int (length (transcript_events t));
           stop = min (max 0 b) total; start = max 0 (stop - max 1 n)
       in \<lparr>pg_events = slice (transcript_events t) (nat start) (nat stop),
           pg_hasEarlier = (0 < start \<and> start < stop)\<rparr>)
    \<and> eventsSince sq n t =
      (let total = int (length (transcript_events t)); start = max 0 sq; eff = max start (total - n)
       in \<lparr>pg_events = drop (nat eff) (transcript_events t),
           pg_hasEarlier = (start < total \<and> start < eff)\<rparr>)"
  using eventsBefore_slice [OF assms] eventsSince_slice [OF assms] by (rule conjI)

theorem pages_are_slices_witness:
  "eventsBefore 10 5 (transcript_open True ''a'' []) = \<lparr>pg_events = [], pg_hasEarlier = False\<rparr>"
  using pages_are_slices [THEN conjunct1, OF empty_transcript(2) [of True "''a''"], of 10 5] by (simp add: slice_def)

text \<open>
  C14: what is logged is read back. The line written for an event is one line, and parsing it
  yields the persisted event, for every kind of event with plain JSON payloads.
\<close>

theorem logged_event_roundtrip:
  assumes "event_plain e" and "num_plain now"
  shows "newline \<notin> set (stringify (persisted_json n now (event_json e)))
    \<and> parseLine parse_event (utf8_decode (utf8_encode (stringify (persisted_json n now (event_json e)))))
      = Some (persisted_json n now (event_json e))"
  using jl.parseLine_enc [OF persisted_loggable [OF event_json_plain [OF assms(1)] assms(2)]]
  by (simp_all add: stringify_one_line)

theorem logged_event_roundtrip_witness:
  "parseLine parse_event (utf8_decode (utf8_encode (stringify
     (persisted_json 0 7 (event_json (Assistant_text ''ok'' None))))))
   = Some (persisted_json 0 7 (event_json (Assistant_text ''ok'' None)))"
  using logged_event_roundtrip [of "Assistant_text ''ok'' None" 7 0] num_plain_of_nat [of 7] by simp

text \<open>
  C15: the chunked reader is a reader of lines. For every chunk size it delivers to its consumer
  exactly the lines of the file, in order, until the consumer stops it.
\<close>

theorem reader_ignores_chunks:
  assumes "0 < k"
  shows "readLinesSync k f s (Some bytes) = fst (fold_until f s (file_lines bytes))"
  using readLinesSync_lines [OF assms] .

theorem reader_ignores_chunks_witness:
  "readLinesSync 1 (\<lambda>n l. (Suc n, True)) 0 (Some (''ab'' @ [newline] @ ''c'')) = 2"
  using reader_ignores_chunks [of 1 "\<lambda>n l. (Suc n, True)" 0 "''ab'' @ [newline] @ ''c''"]
  by (simp add: file_lines_def newline_def trim_def trim_start_def trim_end_def is_space_def)

text \<open>
  Opening a log yields the last events, their number in all and per file, and a range read
  yields that slice of the whole log; corrupt and blank lines count for nothing.
\<close>

theorem tail_and_range_of_log:
  "loadTailAndCount parse dir paths k =
     \<lparr>tc_tail = take_last k (log_events parse dir paths), tc_count = length (log_events parse dir paths),
      tc_perFile = map (\<lambda>p. length (file_events parse (map_of dir p))) paths\<rparr>
   \<and> readRange parse dir paths start stop = drop start (take stop (log_events parse dir paths))"
  by (simp add: loadTailAndCount_spec readRange_spec)

text \<open>
  C16: a rotation loses nothing and overwrites nothing. The events of the log stay the same,
  every archive keeps its bytes, a rotation that happened leaves no active file, and one that
  failed changes nothing.
\<close>

theorem rotation_loses_nothing:
  assumes "rotateActiveLog ok i dir = (don, dir')"
  shows "log_events parse dir' (allLogFiles i dir') = log_events parse dir (allLogFiles i dir)
    \<and> (map_of dir (archiveLogPath i g) = Some b \<longrightarrow> map_of dir' (archiveLogPath i g) = Some b)
    \<and> (if don then map_of dir' (activeLogPath i) = None else dir' = dir)"
  using rotate_keeps_events [OF assms] rotate_keeps_archives [OF assms] by auto

theorem rotation_loses_nothing_witness:
  "map_of (snd (rotateActiveLog True ''a'' [(''a.jsonl'', ''x''), (''a.jsonl.1'', ''y'')])) ''a.jsonl.1''
   = Some ''y''"
proof -
  have p: "archiveLogPath ''a'' (Suc 0) = ''a.jsonl.1''"
    by code_simp
  show ?thesis
    using rotation_loses_nothing [where dir = "[(''a.jsonl'', ''x''), (''a.jsonl.1'', ''y'')]"
        and i = "''a''" and g = 1 and b = "''y''" and ok = True, THEN conjunct2, THEN conjunct1, OF surjective_pairing]
    by (simp add: p)
qed

text \<open>
  C17: a write that fails leaves the numbering ahead of the file. When the active file cannot be
  opened, the event is lost but the counter has moved, so the next event that is written carries
  a number one beyond its place, and the log is no longer numbered.
\<close>

theorem failed_write_skips_number:
  assumes "transcript_ok t" and "\<not> tr_fd t" and "json_plain e" and "num_plain now"
  shows "\<exists>t1 t2 p. append_persisted ren Open_failed now lost t = (Inl Log_io, t1)
    \<and> transcript_events t1 = transcript_events t
    \<and> append_persisted ren Written now e t1 = (Inr p, t2)
    \<and> transcript_events t2 = transcript_events t @ [p]
    \<and> js_prop p ''seq'' = JNum (of_nat (Suc (length (transcript_events t))))"
  using failed_open_drift [OF assms] .

theorem failed_write_skips_number_witness:
  "\<exists>t1 t2 p. append_persisted True Open_failed 1 JNull (transcript_open True ''a'' []) = (Inl Log_io, t1)
    \<and> append_persisted True Written 1 JNull t1 = (Inr p, t2)
    \<and> transcript_events t2 = [p] \<and> js_prop p ''seq'' = JNum 1"
  using failed_write_skips_number [OF empty_transcript(2) [of True "''a''"] _ _ num_plain_of_nat [of 1], of JNull True JNull]
  by (simp, blast)

end
