(* ===== verification/Registry.thy ===== *)
theory Registry
  imports StateFile "HOL-Library.Multiset"
begin

text \<open>
  The session registry (\<open>registry.ts\<close>): the JavaScript \<open>Map\<close> from a session's id to its record,
  and the file it is kept in. A record is the JSON object the code holds, members in order; the
  code reads and writes single members of it.
\<close>

section \<open>State\<close>

record registry =
  rg_sessions :: "(string \<times> jsval) list"
  rg_path :: string

text \<open>\<open>obj.k = v\<close>.\<close>

fun js_set :: "string \<Rightarrow> jsval \<Rightarrow> jsval \<Rightarrow> jsval" where
  "js_set k v (JObj fs) = JObj (AList.update k v fs)"
| "js_set k v w = w"

section \<open>Loading and saving\<close>

text \<open>The loop over the parsed array, and the \<open>try\<close> block; \<open>None\<close> where it throws.\<close>

fun load_entry :: "jsval \<Rightarrow> (string \<times> jsval) list \<Rightarrow> (string \<times> jsval) list" where
  "load_entry meta m =
     (case (js_truthy meta, js_prop meta ''id'') of
        (True, JStr i) \<Rightarrow> AList.update i meta m
      | _ \<Rightarrow> m)"

definition read_registry :: "(string \<times> jsval) list \<Rightarrow> string \<Rightarrow> (string \<times> jsval) list option" where
  "read_registry m raw =
     (case json_parse raw of
        Some (JArr vs) \<Rightarrow> Some (fold load_entry vs m)
      | _ \<Rightarrow> None)"

definition corrupt_path :: "string \<Rightarrow> time_ms \<Rightarrow> string" where
  "corrupt_path p now = p @ ''.corrupt-'' @ show_num now"

text \<open>The answer is the path of the unreadable file, \<open>null\<close> when there was none.\<close>

definition load :: "time_ms \<Rightarrow> bool \<Rightarrow> registry \<Rightarrow> log_dir \<Rightarrow> string option \<times> registry \<times> log_dir" where
  "load now rename_ok r dir =
     (case map_of dir (rg_path r) of
        None \<Rightarrow> (None, r, dir)
      | Some bytes \<Rightarrow>
          (case read_registry (rg_sessions r) (utf8_decode bytes) of
             Some m \<Rightarrow> (None, r \<lparr>rg_sessions := m\<rparr>, dir)
           | None \<Rightarrow>
               if rename_ok
               then (Some (corrupt_path (rg_path r) now), r \<lparr>rg_sessions := []\<rparr>,
                     rename_file (rg_path r) (corrupt_path (rg_path r) now) dir)
               else (Some (rg_path r), r \<lparr>rg_sessions := []\<rparr>, dir)))"

definition registry_text :: "(string \<times> jsval) list \<Rightarrow> string" where
  "registry_text m = pretty 0 (JArr (map snd m))"

definition tmp_path :: "nat \<Rightarrow> string \<Rightarrow> string" where
  "tmp_path pid p = p @ ''.tmp-'' @ show_nat pid"

definition save :: "nat \<Rightarrow> progress \<Rightarrow> registry \<Rightarrow> log_dir \<Rightarrow> log_dir" where
  "save pid p r dir =
     replace_file p (tmp_path pid (rg_path r)) (rg_path r) (utf8_encode (registry_text (rg_sessions r))) dir"

section \<open>Operations\<close>

text \<open>The sort key; a record whose \<open>lastActivityAt\<close> is not a number sorts as 0.\<close>

definition last_activity :: "jsval \<Rightarrow> num" where
  "last_activity m = (case js_prop m ''lastActivityAt'' of JNum n \<Rightarrow> n | _ \<Rightarrow> 0)"

definition list_sessions :: "registry \<Rightarrow> jsval list" where
  "list_sessions r = sort_desc last_activity (map snd (rg_sessions r))"

definition get_session :: "registry \<Rightarrow> string \<Rightarrow> jsval option" where
  "get_session r i = map_of (rg_sessions r) i"

definition new_meta :: "string \<Rightarrow> string \<Rightarrow> string \<Rightarrow> time_ms \<Rightarrow> jsval" where
  "new_meta i title cwd now =
     JObj [(''id'', JStr i), (''title'', JStr title), (''cwd'', JStr cwd),
           (''createdAt'', JNum now), (''lastActivityAt'', JNum now)]"

definition default_title :: "registry \<Rightarrow> string" where
  "default_title r = ''Session '' @ show_nat (length (rg_sessions r) + 1)"

text \<open>What each operation does to the map; all of them then save, \<open>rename\<close> and \<open>touch\<close> only
  when the session is there.\<close>

datatype reg_op =
    Create string string "string option" time_ms
  | Rename string string bool
  | Touch string time_ms
  | Delete string

definition put_meta :: "string \<Rightarrow> jsval \<Rightarrow> registry \<Rightarrow> registry" where
  "put_meta i m r = r \<lparr>rg_sessions := AList.update i m (rg_sessions r)\<rparr>"

fun edit :: "reg_op \<Rightarrow> registry \<Rightarrow> registry option" where
  "edit (Create i cwd title now) r =
     Some (put_meta i (new_meta i (case title of Some t \<Rightarrow> t | None \<Rightarrow> default_title r) cwd now) r)"
| "edit (Rename i title byUser) r =
     map_option (\<lambda>m. put_meta i
       ((if byUser then js_set ''titleSetByUser'' (JBool True) else id) (js_set ''title'' (JStr title) m)) r)
       (get_session r i)"
| "edit (Touch i now) r =
     map_option (\<lambda>m. put_meta i (js_set ''lastActivityAt'' (JNum now) m) r) (get_session r i)"
| "edit (Delete i) r = Some (r \<lparr>rg_sessions := AList.delete i (rg_sessions r)\<rparr>)"

definition apply_op :: "nat \<Rightarrow> progress \<Rightarrow> reg_op \<Rightarrow> registry \<times> log_dir \<Rightarrow> registry \<times> log_dir" where
  "apply_op pid p oper s =
     (case edit oper (fst s) of
        None \<Rightarrow> s
      | Some r \<Rightarrow> (r, save pid p r (snd s)))"

section \<open>The registry is well formed\<close>

text \<open>Each record is an object that knows its id, under that id; ids are distinct.\<close>

definition meta_ok :: "string \<times> jsval \<Rightarrow> bool" where
  "meta_ok e = (json_plain (snd e) \<and> (\<exists>fs. snd e = JObj fs) \<and> js_prop (snd e) ''id'' = JStr (fst e))"

definition reg_ok :: "registry \<Rightarrow> bool" where
  "reg_ok r = (om_wf (rg_sessions r) \<and> list_all meta_ok (rg_sessions r))"

lemma tmp_path_other: "tmp_path pid p \<noteq> p" "corrupt_path p now \<noteq> p"
  by (simp_all add: tmp_path_def corrupt_path_def)

lemma js_prop_set [simp]:
  "js_prop (js_set k v (JObj fs)) k' = (if k' = k then v else js_prop (JObj fs) k')"
  by (simp add: update_conv')

lemma js_set_object:
  assumes "json_plain m" and "m = JObj fs" and "json_plain v"
  shows "json_plain (js_set k v m)" and "\<exists>fs'. js_set k v m = JObj fs'"
  using assms set_update [of k v fs] by (auto simp: distinct_update)

lemma meta_ok_set: "meta_ok (i, m) \<Longrightarrow> k \<noteq> ''id'' \<Longrightarrow> json_plain v \<Longrightarrow> meta_ok (i, js_set k v m)"
  unfolding meta_ok_def using js_set_object [of m _ v k] by (auto simp del: json_plain.simps js_set.simps)

lemma reg_ok_put: "reg_ok r \<Longrightarrow> meta_ok (i, m) \<Longrightarrow> reg_ok (put_meta i m r)"
  using set_update [of i m "rg_sessions r"]
  by (auto simp: reg_ok_def put_meta_def om_wf_def distinct_update list_all_iff)

text \<open>The clock's values print plainly.\<close>

fun op_plain :: "reg_op \<Rightarrow> bool" where
  "op_plain (Create i cwd title now) = num_plain now"
| "op_plain (Rename i title byUser) = True"
| "op_plain (Touch i now) = num_plain now"
| "op_plain (Delete i) = True"

lemma edit_ok:
  assumes "reg_ok r" and "op_plain oper" and "edit oper r = Some r'"
  shows "reg_ok r'"
proof (cases oper)
  case (Create i cwd title now)
  with assms show ?thesis by (auto simp: meta_ok_def new_meta_def intro!: reg_ok_put)
next
  case (Rename i title byUser)
  with assms obtain m where m: "get_session r i = Some m" by auto
  then have "meta_ok (i, m)" using assms(1) map_of_SomeD
    by (fastforce simp: reg_ok_def list_all_iff get_session_def)
  then have "meta_ok (i, (if byUser then js_set ''titleSetByUser'' (JBool True) else id) (js_set ''title'' (JStr title) m))"
    by (auto intro!: meta_ok_set)
  with Rename m assms show ?thesis by (auto intro: reg_ok_put)
next
  case (Touch i now)
  with assms obtain m where m: "get_session r i = Some m" by auto
  then have "meta_ok (i, m)" using assms(1) map_of_SomeD
    by (fastforce simp: reg_ok_def list_all_iff get_session_def)
  with Touch m assms show ?thesis by (auto intro!: reg_ok_put meta_ok_set)
next
  case (Delete i)
  with assms show ?thesis
    by (auto simp: reg_ok_def om_wf_def list_all_iff AList.delete_eq distinct_map_filter)
qed

lemma edit_path: "edit oper r = Some r' \<Longrightarrow> rg_path r' = rg_path r"
  by (cases oper) (auto simp: put_meta_def)

section \<open>What is saved is loaded\<close>

lemma fold_load_entry:
  "list_all meta_ok es \<Longrightarrow> distinct (map fst (m @ es)) \<Longrightarrow> fold load_entry (map snd es) m = m @ es"
proof (induction es arbitrary: m)
  case (Cons e es)
  obtain i v where e: "e = (i, v)" by fastforce
  have "i \<notin> fst ` set m" using Cons.prems(2) e by auto
  then have "AList.update i v m = m @ [(i, v)]" by (induction m) auto
  moreover have "js_truthy v" "js_prop v ''id'' = JStr i" using Cons.prems(1) e by (auto simp: meta_ok_def)
  ultimately have "load_entry v m = m @ [(i, v)]" by simp
  with Cons e show ?case by simp
qed simp

definition sessions_fit :: "(string \<times> jsval) list \<Rightarrow> bool" where
  "sessions_fit m = (om_wf m \<and> list_all meta_ok m)"

interpretation rg: stored registry_text "read_registry []" sessions_fit
proof unfold_locales
  fix m assume "sessions_fit m"
  then have m: "om_wf m" "list_all meta_ok m" by (simp_all add: sessions_fit_def)
  then have "json_plain (JArr (map snd m))" by (auto simp: list_all_iff meta_ok_def)
  from pretty_roundtrip [OF this, of "[]" 0] have "json_parse (registry_text m) = Some (JArr (map snd m))"
    by (simp add: registry_text_def blank_def num_end_def)
  then show "read_registry [] (registry_text m) = Some m"
    using fold_load_entry [of m "[]"] m by (simp add: read_registry_def om_wf_def)
qed

lemma load_saved:
  assumes "rg.holds (rg_path r) m dir" and "rg_sessions r = []"
  shows "load now rok r dir = (None, r \<lparr>rg_sessions := m\<rparr>, dir)"
  using assms by (auto simp: load_def rg.holds_def)

text \<open>
  A run of operations, each with the progress its save made. The state in memory is kept by the
  daemon; the file lags behind it by the saves that failed.
\<close>

fun run_ops :: "nat \<Rightarrow> (progress \<times> reg_op) list \<Rightarrow> registry \<times> log_dir \<Rightarrow> registry \<times> log_dir" where
  "run_ops pid [] s = s"
| "run_ops pid ((p, oper) # ops) s = run_ops pid ops (apply_op pid p oper s)"

definition reg_saved :: "registry \<times> log_dir \<Rightarrow> bool" where
  "reg_saved s = (reg_ok (fst s) \<and> rg.holds (rg_path (fst s)) (rg_sessions (fst s)) (snd s))"

lemma save_holds:
  assumes "reg_ok r"
  shows "rg.holds (rg_path r) (rg_sessions r) (save pid Renamed r dir)"
  using assms rg.saved [of "rg_sessions r" "tmp_path pid (rg_path r)" "rg_path r" dir]
  by (simp add: save_def sessions_fit_def reg_ok_def tmp_path_other)

lemma apply_saved:
  assumes "reg_saved s" and "op_plain oper"
  shows "reg_saved (apply_op pid Renamed oper s)"
proof (cases "edit oper (fst s)")
  case None
  then show ?thesis using assms(1) by (simp add: apply_op_def)
next
  case (Some r)
  then have "reg_ok r" using edit_ok [OF _ assms(2)] assms(1) by (auto simp: reg_saved_def)
  with Some save_holds show ?thesis by (simp add: apply_op_def reg_saved_def)
qed

lemma run_saved:
  "reg_saved s \<Longrightarrow> list_all (\<lambda>(p, oper). p = Renamed \<and> op_plain oper) ops \<Longrightarrow> reg_saved (run_ops pid ops s)"
proof (induction ops arbitrary: s)
  case (Cons e ops)
  then show ?case using apply_saved [of s "snd e" pid] by (cases e) auto
qed simp

text \<open>Whatever becomes of a save, the file on disk is the one before it or the one after it.\<close>

lemma crash_keeps_registry:
  assumes "reg_saved (r, dir)" and "op_plain oper" and "edit oper r = Some r'"
  shows "\<exists>m\<in>{rg_sessions r, rg_sessions r'}. rg.holds (rg_path r) m (save pid p r' dir)"
proof -
  have "sessions_fit (rg_sessions r')" using edit_ok [OF _ assms(2,3)] assms(1)
    by (simp add: reg_saved_def reg_ok_def sessions_fit_def)
  from rg.old_or_new [OF _ this tmp_path_other(1), of "rg_path r" "rg_sessions r" dir p pid]
  show ?thesis using assms(1) edit_path [OF assms(3)]
    by (auto simp: save_def reg_saved_def split: if_splits)
qed

section \<open>Loading a file that cannot be read\<close>

lemma load_corrupt:
  assumes "map_of dir (rg_path r) = Some bytes" and "read_registry (rg_sessions r) (utf8_decode bytes) = None"
    and "load now rok r dir = (q, r', dir')"
  shows "\<exists>name. q = Some name \<and> map_of dir' name = Some bytes \<and> rg_sessions r' = []
    \<and> (rok \<longrightarrow> name \<noteq> rg_path r \<and> map_of dir' (rg_path r) = None)"
proof (cases rok)
  case True
  note moved = map_of_rename_file [OF assms(1) tmp_path_other(2) [symmetric]]
  from True assms tmp_path_other(2) [of "rg_path r" now] tmp_path_other(2) [of "rg_path r" now, symmetric] show ?thesis by (auto simp: load_def moved)
qed (use assms in \<open>auto simp: load_def\<close>)

section \<open>Listing\<close>

lemma list_is_sorted:
  "mset (list_sessions r) = mset (map snd (rg_sessions r))
   \<and> sorted (map (\<lambda>m. - last_activity m) (list_sessions r))"
  by (simp add: list_sessions_def sort_desc_def)

end
