(* ===== verification/SessionMeta.thy ===== *)
theory SessionMeta
  imports Registry SessionState
begin

text \<open>
  The record of a session (\<open>interface SessionMeta\<close> of \<open>registry.ts\<close>) as the JSON object the
  registry holds and saves, and back. The registry works on the object, a session on its typed
  fields; the lemmas say that these are the same data, and that what the registry does to the
  object is what it would do to the fields.
\<close>

section \<open>The object and the fields\<close>

definition mode_name :: "permission_mode \<Rightarrow> string" where
  "mode_name p =
     (case p of Mode_default \<Rightarrow> ''default'' | Accept_edits \<Rightarrow> ''acceptEdits''
      | Bypass_permissions \<Rightarrow> ''bypassPermissions'' | Plan_mode \<Rightarrow> ''plan'')"

definition effort_name :: "effort_level \<Rightarrow> string" where
  "effort_name e =
     (case e of Effort_low \<Rightarrow> ''low'' | Effort_medium \<Rightarrow> ''medium'' | Effort_high \<Rightarrow> ''high''
      | Effort_xhigh \<Rightarrow> ''xhigh'' | Effort_max \<Rightarrow> ''max'')"

text \<open>A literal of a union from its name.\<close>

definition named :: "('a \<Rightarrow> string) \<Rightarrow> 'a list \<Rightarrow> jsval \<Rightarrow> 'a option" where
  "named name vs v = List.find (\<lambda>x. JStr (name x) = v) vs"

definition modes :: "permission_mode list" where
  "modes = [Mode_default, Accept_edits, Bypass_permissions, Plan_mode]"

definition efforts :: "effort_level list" where
  "efforts = [Effort_low, Effort_medium, Effort_high, Effort_xhigh, Effort_max]"

fun js_num :: "jsval \<Rightarrow> num option" where
  "js_num (JNum n) = Some n"
| "js_num v = None"

fun js_list :: "jsval \<Rightarrow> jsval list option" where
  "js_list (JArr vs) = Some vs"
| "js_list v = None"

fun js_bool :: "jsval \<Rightarrow> bool" where
  "js_bool (JBool b) = b"
| "js_bool v = False"

definition js_nat :: "jsval \<Rightarrow> nat option" where
  "js_nat v = map_option (\<lambda>n. nat \<lfloor>n\<rfloor>) (js_num v)"

definition meta_fields :: "session_meta \<Rightarrow> (string \<times> jsval) list" where
  "meta_fields m =
     [(''id'', JStr (mt_id m)), (''title'', JStr (mt_title m)), (''cwd'', JStr (mt_cwd m)),
      (''createdAt'', JNum (mt_createdAt m)), (''lastActivityAt'', JNum (mt_lastActivityAt m))]
     @ opt_member ''sdkSessionId'' JStr (mt_sdkSessionId m)
     @ opt_member ''permissionMode'' (\<lambda>p. JStr (mode_name p)) (mt_permissionMode m)
     @ opt_member ''model'' JStr (mt_model m)
     @ opt_member ''effort'' (\<lambda>e. JStr (effort_name e)) (mt_effort m)
     @ opt_member ''imageCount'' (\<lambda>n. JNum (of_nat n)) (mt_imageCount m)
     @ opt_member ''turns'' (\<lambda>n. JNum (of_nat n)) (mt_turns m)
     @ opt_member ''titledAt'' JNum (mt_titledAt m)
     @ (if mt_titleSetByUser m then [(''titleSetByUser'', JBool True)] else [])
     @ opt_member ''activeModel'' JStr (mt_activeModel m)
     @ opt_member ''clearedAt'' (\<lambda>n. JNum (of_nat n)) (mt_clearedAt m)
     @ opt_member ''pastTitles'' (\<lambda>ts. JArr (map JStr ts)) (mt_pastTitles m)
     @ opt_member ''pendingTitle'' JStr (mt_pendingTitle m)"

definition meta_json :: "session_meta \<Rightarrow> jsval" where
  "meta_json m = JObj (meta_fields m)"

definition meta_of :: "jsval \<Rightarrow> session_meta" where
  "meta_of v =
     (let rd = js_prop v; str_at = (\<lambda>k. case js_str (rd k) of Some s \<Rightarrow> s | None \<Rightarrow> []);
          num_at = (\<lambda>k. case js_num (rd k) of Some n \<Rightarrow> n | None \<Rightarrow> 0)
      in \<lparr>mt_id = str_at ''id'', mt_title = str_at ''title'', mt_cwd = str_at ''cwd'',
          mt_sdkSessionId = js_str (rd ''sdkSessionId''),
          mt_permissionMode = named mode_name modes (rd ''permissionMode''),
          mt_model = js_str (rd ''model''), mt_effort = named effort_name efforts (rd ''effort''),
          mt_createdAt = num_at ''createdAt'', mt_lastActivityAt = num_at ''lastActivityAt'',
          mt_imageCount = js_nat (rd ''imageCount''), mt_turns = js_nat (rd ''turns''),
          mt_titledAt = js_num (rd ''titledAt''), mt_titleSetByUser = js_bool (rd ''titleSetByUser''),
          mt_activeModel = js_str (rd ''activeModel''), mt_clearedAt = js_nat (rd ''clearedAt''),
          mt_pastTitles = map_option (List.map_filter js_str) (js_list (rd ''pastTitles'')),
          mt_pendingTitle = js_str (rd ''pendingTitle'')\<rparr>)"

section \<open>They are the same data\<close>

lemma map_of_members:
  "map_of (opt_member k f x @ ys) k' =
     (if k' = k then case x of None \<Rightarrow> map_of ys k' | Some v \<Rightarrow> Some (f v) else map_of ys k')"
  "map_of (opt_member k f x) k' = (if k' = k then map_option f x else None)"
  "map_of ((if b then [(l, v)] else []) @ ys) k' = (if k' = l \<and> b then Some v else map_of ys k')"
  by (simp_all add: opt_member_def split: option.split)

text \<open>A member list is built from fresh members.\<close>

definition fresh :: "string \<Rightarrow> (string \<times> jsval) list \<Rightarrow> bool" where
  "fresh k ms = (k \<notin> fst ` set ms)"

lemma fresh_members:
  "fresh k []"
  "k \<noteq> l \<Longrightarrow> fresh k ys \<Longrightarrow> fresh k ((l, v) # ys)"
  "k \<noteq> l \<Longrightarrow> fresh k (opt_member l f x)"
  "k \<noteq> l \<Longrightarrow> fresh k ys \<Longrightarrow> fresh k (opt_member l f x @ ys)"
  "k \<noteq> l \<Longrightarrow> fresh k ys \<Longrightarrow> fresh k ((if b then [(l, v)] else []) @ ys)"
  by (cases x; auto simp: fresh_def)+

lemma distinct_members:
  "distinct (map fst (opt_member k f x))"
  "fresh k ys \<Longrightarrow> distinct (map fst ys) \<Longrightarrow> distinct (map fst ((k, v) # ys))"
  "fresh k ys \<Longrightarrow> distinct (map fst ys) \<Longrightarrow> distinct (map fst (opt_member k f x @ ys))"
  "fresh k ys \<Longrightarrow> distinct (map fst ys) \<Longrightarrow> distinct (map fst ((if b then [(k, v)] else []) @ ys))"
  by (cases x; auto simp: fresh_def)+

lemma named_mode [simp]: "named mode_name modes (JStr (mode_name p)) = Some p"
  "named mode_name modes JUndef = None"
  by (cases p) (simp_all add: named_def modes_def mode_name_def)

lemma named_effort [simp]: "named effort_name efforts (JStr (effort_name e)) = Some e"
  "named effort_name efforts JUndef = None"
  by (cases e) (simp_all add: named_def efforts_def effort_name_def)

lemma map_filter_JStr [simp]: "List.map_filter js_str (map JStr ts) = ts"
  by (induction ts) (simp_all add: List.map_filter_def)

text \<open>What each member of the object is.\<close>

definition opt_js :: "('a \<Rightarrow> jsval) \<Rightarrow> 'a option \<Rightarrow> jsval" where
  "opt_js f x = (case x of None \<Rightarrow> JUndef | Some v \<Rightarrow> f v)"

lemma opt_js_back [simp]:
  "js_str (opt_js JStr x) = x" "js_num (opt_js JNum y) = y" "js_nat (opt_js (\<lambda>n. JNum (of_nat n)) z) = z"
  "named mode_name modes (opt_js (\<lambda>p. JStr (mode_name p)) p) = p"
  "named effort_name efforts (opt_js (\<lambda>e. JStr (effort_name e)) e) = e"
  "map_option (List.map_filter js_str) (js_list (opt_js (\<lambda>ts. JArr (map JStr ts)) l)) = l"
  by (simp_all add: opt_js_def js_nat_def split: option.split)

lemma meta_members:
  "js_prop (meta_json m) ''id'' = JStr (mt_id m)"
  "js_prop (meta_json m) ''title'' = JStr (mt_title m)"
  "js_prop (meta_json m) ''cwd'' = JStr (mt_cwd m)"
  "js_prop (meta_json m) ''createdAt'' = JNum (mt_createdAt m)"
  "js_prop (meta_json m) ''lastActivityAt'' = JNum (mt_lastActivityAt m)"
  "js_prop (meta_json m) ''sdkSessionId'' = opt_js JStr (mt_sdkSessionId m)"
  "js_prop (meta_json m) ''permissionMode'' = opt_js (\<lambda>p. JStr (mode_name p)) (mt_permissionMode m)"
  "js_prop (meta_json m) ''model'' = opt_js JStr (mt_model m)"
  "js_prop (meta_json m) ''effort'' = opt_js (\<lambda>e. JStr (effort_name e)) (mt_effort m)"
  "js_prop (meta_json m) ''imageCount'' = opt_js (\<lambda>n. JNum (of_nat n)) (mt_imageCount m)"
  "js_prop (meta_json m) ''turns'' = opt_js (\<lambda>n. JNum (of_nat n)) (mt_turns m)"
  "js_prop (meta_json m) ''titledAt'' = opt_js JNum (mt_titledAt m)"
  "js_prop (meta_json m) ''titleSetByUser'' = (if mt_titleSetByUser m then JBool True else JUndef)"
  "js_prop (meta_json m) ''activeModel'' = opt_js JStr (mt_activeModel m)"
  "js_prop (meta_json m) ''clearedAt'' = opt_js (\<lambda>n. JNum (of_nat n)) (mt_clearedAt m)"
  "js_prop (meta_json m) ''pastTitles'' = opt_js (\<lambda>ts. JArr (map JStr ts)) (mt_pastTitles m)"
  "js_prop (meta_json m) ''pendingTitle'' = opt_js JStr (mt_pendingTitle m)"
  by (simp_all add: meta_json_def meta_fields_def map_of_members opt_js_def del: map_of_append split: option.split)

theorem meta_roundtrip: "meta_of (meta_json m) = m"
  by (cases m) (simp add: meta_of_def Let_def meta_members)

lemma list_all_members: "list_all P (opt_member k f x) \<longleftrightarrow> pred_option (\<lambda>v. P (k, f v)) x"
  by (cases x) simp_all

lemma pred_option_True [simp]: "pred_option (\<lambda>v. True) x"
  by (cases x) simp_all

lemma meta_json_plain:
  assumes "num_plain (mt_createdAt m)" and "num_plain (mt_lastActivityAt m)"
    and "pred_option num_plain (mt_titledAt m)"
  shows "json_plain (meta_json m)"
proof -
  have "distinct (map fst (meta_fields m))"
    unfolding meta_fields_def append.simps by (intro distinct_members fresh_members) simp_all
  moreover have "list_all (json_plain \<circ> snd) (meta_fields m)"
    using assms
    by (simp add: meta_fields_def list_all_members)
  ultimately show ?thesis by (auto simp: meta_json_def list_all_iff)
qed

lemma meta_json_ok:
  assumes "num_plain (mt_createdAt m)" and "num_plain (mt_lastActivityAt m)"
    and "pred_option num_plain (mt_titledAt m)"
  shows "meta_ok (mt_id m, meta_json m)"
  using meta_json_plain [OF assms] by (simp add: meta_ok_def meta_members del: json_plain.simps)
    (simp add: meta_json_def)

section \<open>The registry's edits, on the fields\<close>

lemma edit_renames:
  assumes "get_session r i = Some (JObj fs)" and "edit (Rename i t byUser) r = Some r'"
  shows "\<exists>v. get_session r' i = Some v
    \<and> meta_of v = (meta_of (JObj fs)) \<lparr>mt_title := t,
        mt_titleSetByUser := byUser \<or> mt_titleSetByUser (meta_of (JObj fs))\<rparr>"
  using assms
  by (auto simp: get_session_def put_meta_def meta_of_def Let_def update_conv')

lemma edit_touches:
  assumes "get_session r i = Some (JObj fs)" and "edit (Touch i now) r = Some r'"
  shows "\<exists>v. get_session r' i = Some v \<and> meta_of v = (meta_of (JObj fs)) \<lparr>mt_lastActivityAt := now\<rparr>"
  using assms by (auto simp: get_session_def put_meta_def meta_of_def Let_def update_conv')

end
