(* ===== verification/Clients.thy ===== *)
theory Clients
  imports Transcript
begin

text \<open>
  The connections of the daemon (\<open>main.ts\<close>): who is connected, which chats each follows, who
  follows the feed of all chats, and what a broadcast sends to whom. A connection is a number.
  \<open>cl_sent\<close> is what was handed to each connection's \<open>send\<close>, the oldest first. The lemmas: the
  tables agree in every run, nobody who left is written to, and an event reaches each connection
  that follows its chat, or the feed, exactly once.
\<close>

section \<open>State\<close>

datatype server_message =
    Event_msg string jsval
  | Delta_msg string string
  | Agents_msg string "active_agent list"
  | Sessions_changed_msg

record hub =
  cl_clients :: "nat list"
  cl_attached :: "nat \<Rightarrow> string list"
  cl_subs :: "(string \<times> nat list) list"
  cl_feed :: "nat list"
  cl_sent :: "(nat \<times> server_message) list"

definition hub_init :: hub where
  "hub_init = \<lparr>cl_clients = [], cl_attached = (\<lambda>c. []), cl_subs = [], cl_feed = [], cl_sent = []\<rparr>"

text \<open>A JavaScript \<open>Set\<close>: \<open>add\<close> keeps the place of what is there.\<close>

definition set_add :: "'a \<Rightarrow> 'a list \<Rightarrow> 'a list" where
  "set_add x xs = (if x \<in> set xs then xs else xs @ [x])"

definition subs_of :: "hub \<Rightarrow> string \<Rightarrow> nat list" where
  "subs_of h i = (case map_of (cl_subs h) i of Some cs \<Rightarrow> cs | None \<Rightarrow> [])"

section \<open>Connections and subscriptions\<close>

definition openClient :: "nat \<Rightarrow> hub \<Rightarrow> hub" where
  "openClient c h = h \<lparr>cl_clients := cl_clients h @ [c], cl_attached := (cl_attached h)(c := [])\<rparr>"

definition unsubscribe :: "nat \<Rightarrow> string \<Rightarrow> hub \<Rightarrow> hub" where
  "unsubscribe c i h =
     (case map_of (cl_subs h) i of
        None \<Rightarrow> h
      | Some cs \<Rightarrow> h \<lparr>cl_subs := AList.update i (removeAll c cs) (cl_subs h)\<rparr>)"

definition closeClient :: "nat \<Rightarrow> hub \<Rightarrow> hub" where
  "closeClient c h =
     fold (unsubscribe c) (cl_attached h c)
       (h \<lparr>cl_clients := removeAll c (cl_clients h), cl_feed := removeAll c (cl_feed h)\<rparr>)"

definition attach :: "nat \<Rightarrow> string \<Rightarrow> hub \<Rightarrow> hub" where
  "attach c i h =
     h \<lparr>cl_attached := (cl_attached h)(c := set_add i (cl_attached h c)),
        cl_subs := AList.update i (set_add c (subs_of h i)) (cl_subs h)\<rparr>"

definition detach :: "nat \<Rightarrow> string \<Rightarrow> hub \<Rightarrow> hub" where
  "detach c i h = unsubscribe c i (h \<lparr>cl_attached := (cl_attached h)(c := removeAll i (cl_attached h c))\<rparr>)"

definition follow_feed :: "nat \<Rightarrow> hub \<Rightarrow> hub" where
  "follow_feed c h = h \<lparr>cl_feed := set_add c (cl_feed h)\<rparr>"

definition unfeed :: "nat \<Rightarrow> hub \<Rightarrow> hub" where
  "unfeed c h = h \<lparr>cl_feed := removeAll c (cl_feed h)\<rparr>"

text \<open>The line of \<open>deleteSession\<close> that drops the subscriptions of a chat.\<close>

definition forget_session :: "string \<Rightarrow> hub \<Rightarrow> hub" where
  "forget_session i h = h \<lparr>cl_subs := AList.delete i (cl_subs h)\<rparr>"

section \<open>Broadcasts\<close>

definition FEED_EVENT_TYPES :: "string list" where
  "FEED_EVENT_TYPES =
     [''user_message'', ''assistant_text'', ''tool_use'', ''tool_result'', ''permission_request'',
      ''question_request'', ''permission_resolved'', ''result'']"

text \<open>\<open>message.event.event.type\<close> of an event message.\<close>

definition event_type :: "jsval \<Rightarrow> jsval" where
  "event_type v = js_prop (js_prop v ''event'') ''type''"

fun feed_news :: "server_message \<Rightarrow> bool" where
  "feed_news (Event_msg i v) = (case event_type v of JStr t \<Rightarrow> t \<in> set FEED_EVENT_TYPES | _ \<Rightarrow> False)"
| "feed_news m = False"

definition send_to :: "server_message \<Rightarrow> nat list \<Rightarrow> hub \<Rightarrow> hub" where
  "send_to m cs h = h \<lparr>cl_sent := cl_sent h @ map (\<lambda>c. (c, m)) cs\<rparr>"

definition broadcast :: "string \<Rightarrow> server_message \<Rightarrow> hub \<Rightarrow> hub" where
  "broadcast i m h =
     (let h1 = send_to m (subs_of h i) h in
      if feed_news m then send_to m (filter (\<lambda>c. c \<notin> set (subs_of h i)) (cl_feed h)) h1 else h1)"

definition broadcastAll :: "server_message \<Rightarrow> hub \<Rightarrow> hub" where
  "broadcastAll m h = send_to m (cl_clients h) h"

section \<open>The tables agree\<close>

text \<open>
  The sets have no repetitions, a subscriber of a chat is connected and knows that it is attached
  to it, and so on for the feed. A chat that was deleted may still be in \<open>attached\<close>.
\<close>

definition hub_ok :: "hub \<Rightarrow> bool" where
  "hub_ok h =
     (distinct (cl_clients h) \<and> distinct (cl_feed h) \<and> distinct (map fst (cl_subs h))
      \<and> set (cl_feed h) \<subseteq> set (cl_clients h)
      \<and> (\<forall>i cs. map_of (cl_subs h) i = Some cs \<longrightarrow>
           distinct cs \<and> (\<forall>c\<in>set cs. c \<in> set (cl_clients h) \<and> i \<in> set (cl_attached h c))))"

lemma hub_ok_init [simp]: "hub_ok hub_init"
  by (simp add: hub_ok_def hub_init_def)

lemma set_add_simps [simp]:
  "set (set_add x xs) = insert x (set xs)" "distinct (set_add x xs) = distinct xs"
  by (auto simp: set_add_def)

lemma hub_okI:
  assumes "distinct (cl_clients h)" and "distinct (cl_feed h)" and "distinct (map fst (cl_subs h))"
    and "set (cl_feed h) \<subseteq> set (cl_clients h)"
    and "\<And>i cs. map_of (cl_subs h) i = Some cs \<Longrightarrow> distinct cs"
    and "\<And>i cs c. map_of (cl_subs h) i = Some cs \<Longrightarrow> c \<in> set cs
          \<Longrightarrow> c \<in> set (cl_clients h) \<and> i \<in> set (cl_attached h c)"
  shows "hub_ok h"
  using assms by (auto simp: hub_ok_def)

lemma hub_okD:
  assumes "hub_ok h"
  shows "distinct (cl_clients h)" and "distinct (cl_feed h)" and "distinct (map fst (cl_subs h))"
    and "set (cl_feed h) \<subseteq> set (cl_clients h)"
    and "map_of (cl_subs h) i = Some cs \<Longrightarrow> distinct cs"
    and "map_of (cl_subs h) i = Some cs \<Longrightarrow> c \<in> set cs
          \<Longrightarrow> c \<in> set (cl_clients h) \<and> i \<in> set (cl_attached h c)"
  using assms by (auto simp: hub_ok_def)

lemma subs_ok:
  assumes "hub_ok h"
  shows "distinct (subs_of h i)" and "c \<in> set (subs_of h i) \<Longrightarrow> c \<in> set (cl_clients h) \<and> i \<in> set (cl_attached h c)"
  using hub_okD(5,6) [OF assms, of i] by (cases "map_of (cl_subs h) i"; simp add: subs_of_def)+

lemma unsubscribe_fields [simp]:
  "cl_clients (unsubscribe c i h) = cl_clients h" "cl_attached (unsubscribe c i h) = cl_attached h"
  "cl_feed (unsubscribe c i h) = cl_feed h" "cl_sent (unsubscribe c i h) = cl_sent h"
  "distinct (map fst (cl_subs h)) \<Longrightarrow> distinct (map fst (cl_subs (unsubscribe c i h)))"
  by (simp_all add: unsubscribe_def distinct_update split: option.split)

lemma map_of_unsubscribe:
  "map_of (cl_subs (unsubscribe c i h)) j =
     (if j = i then map_option (removeAll c) (map_of (cl_subs h) i) else map_of (cl_subs h) j)"
  by (simp add: unsubscribe_def update_conv' split: option.split)

lemma unsubscribe_all:
  "cl_clients (fold (unsubscribe c) is h) = cl_clients h \<and> cl_attached (fold (unsubscribe c) is h) = cl_attached h
   \<and> cl_feed (fold (unsubscribe c) is h) = cl_feed h \<and> cl_sent (fold (unsubscribe c) is h) = cl_sent h
   \<and> (distinct (map fst (cl_subs h)) \<longrightarrow> distinct (map fst (cl_subs (fold (unsubscribe c) is h))))
   \<and> map_of (cl_subs (fold (unsubscribe c) is h)) j =
       (if j \<in> set is then map_option (removeAll c) (map_of (cl_subs h) j) else map_of (cl_subs h) j)"
  by (induction "is" arbitrary: h)
     (auto simp: map_of_unsubscribe removeAll_filter_not_eq filter_filter option.map_comp comp_def)

section \<open>Runs\<close>

text \<open>A connection is new when it opens, and asks only while it is there.\<close>

datatype hub_event =
    Opened nat
  | Gone_client nat
  | Attach nat string
  | Detach nat string
  | Feed nat
  | Unfeed nat
  | Session_deleted string
  | Broadcast string server_message
  | Broadcast_all server_message

fun allowed :: "hub_event \<Rightarrow> hub \<Rightarrow> bool" where
  "allowed (Opened c) h = (c \<notin> set (cl_clients h))"
| "allowed (Attach c i) h = (c \<in> set (cl_clients h))"
| "allowed (Detach c i) h = (c \<in> set (cl_clients h))"
| "allowed (Feed c) h = (c \<in> set (cl_clients h))"
| "allowed (Unfeed c) h = (c \<in> set (cl_clients h))"
| "allowed e h = True"

fun hub_do :: "hub_event \<Rightarrow> hub \<Rightarrow> hub" where
  "hub_do (Opened c) h = openClient c h"
| "hub_do (Gone_client c) h = closeClient c h"
| "hub_do (Attach c i) h = attach c i h"
| "hub_do (Detach c i) h = detach c i h"
| "hub_do (Feed c) h = follow_feed c h"
| "hub_do (Unfeed c) h = unfeed c h"
| "hub_do (Session_deleted i) h = forget_session i h"
| "hub_do (Broadcast i m) h = broadcast i m h"
| "hub_do (Broadcast_all m) h = broadcastAll m h"

inductive hub_run :: "hub_event list \<Rightarrow> hub \<Rightarrow> bool" where
  nothing: "hub_run [] hub_init"
| more: "hub_run es h \<Longrightarrow> allowed e h \<Longrightarrow> hub_run (es @ [e]) (hub_do e h)"

inductive_cases hub_run_snocE: "hub_run (es @ [e]) h"

text \<open>What the requests so far ask for, whatever the tables are.\<close>

fun asked :: "hub_event \<Rightarrow> (nat \<times> string) set \<Rightarrow> (nat \<times> string) set" where
  "asked (Opened c) F = F"
| "asked (Gone_client c) F = {(c', i) \<in> F. c' \<noteq> c}"
| "asked (Attach c i) F = insert (c, i) F"
| "asked (Detach c i) F = F - {(c, i)}"
| "asked (Session_deleted i) F = {(c, i') \<in> F. i' \<noteq> i}"
| "asked e F = F"

definition follows :: "hub_event list \<Rightarrow> (nat \<times> string) set" where
  "follows es = fold asked es {}"

definition subscriptions :: "hub \<Rightarrow> (nat \<times> string) set" where
  "subscriptions h = {(c, i). c \<in> set (subs_of h i)}"

lemma subs_of_unsubscribe:
  "subs_of (unsubscribe c i h) j = (if j = i then removeAll c (subs_of h i) else subs_of h j)"
  by (simp add: subs_of_def map_of_unsubscribe split: option.split)

lemma subs_of_close:
  "subs_of (closeClient c h) j = (if j \<in> set (cl_attached h c) then removeAll c (subs_of h j) else subs_of h j)"
  using unsubscribe_all [of c "cl_attached h c" "h \<lparr>cl_clients := removeAll c (cl_clients h), cl_feed := removeAll c (cl_feed h)\<rparr>" j]
  by (simp add: subs_of_def closeClient_def split: option.split)

lemma send_to_fields [simp]:
  "cl_clients (send_to m cs h) = cl_clients h" "cl_attached (send_to m cs h) = cl_attached h"
  "cl_subs (send_to m cs h) = cl_subs h" "cl_feed (send_to m cs h) = cl_feed h"
  "cl_sent (send_to m cs h) = cl_sent h @ map (\<lambda>c. (c, m)) cs" "subs_of (send_to m cs h) i = subs_of h i"
  by (simp_all add: send_to_def subs_of_def)

lemma broadcast_fields [simp]:
  "cl_clients (broadcast i m h) = cl_clients h" "cl_attached (broadcast i m h) = cl_attached h"
  "cl_subs (broadcast i m h) = cl_subs h" "cl_feed (broadcast i m h) = cl_feed h"
  by (simp_all add: broadcast_def Let_def)

lemma hub_ok_same:
  "hub_ok h \<Longrightarrow> cl_clients h' = cl_clients h \<Longrightarrow> cl_attached h' = cl_attached h \<Longrightarrow> cl_subs h' = cl_subs h
   \<Longrightarrow> cl_feed h' = cl_feed h \<Longrightarrow> hub_ok h'"
  by (simp add: hub_ok_def)

lemma close_ok:
  assumes "hub_ok h"
  shows "hub_ok (closeClient c h)"
proof (rule hub_okI)
  note D = hub_okD [OF assms]
  note all = unsubscribe_all [of c "cl_attached h c" "h \<lparr>cl_clients := removeAll c (cl_clients h), cl_feed := removeAll c (cl_feed h)\<rparr>"]
  let ?h = "closeClient c h"
  show "distinct (cl_clients ?h)" "distinct (cl_feed ?h)" "distinct (map fst (cl_subs ?h))"
    "set (cl_feed ?h) \<subseteq> set (cl_clients ?h)"
    using D(1-4) all by (auto simp: closeClient_def distinct_removeAll)
  fix i cs assume "map_of (cl_subs ?h) i = Some cs"
  then have cs: "map_option (\<lambda>xs. if i \<in> set (cl_attached h c) then removeAll c xs else xs) (map_of (cl_subs h) i) = Some cs"
    using all [of i] by (simp add: closeClient_def option.map_ident split: if_splits)
  then obtain xs where xs: "map_of (cl_subs h) i = Some xs"
    "cs = (if i \<in> set (cl_attached h c) then removeAll c xs else xs)" by auto
  then show "distinct cs" using D(5) [of i] by (simp add: distinct_removeAll)
  fix c' assume "c' \<in> set cs"
  then show "c' \<in> set (cl_clients ?h) \<and> i \<in> set (cl_attached ?h c')"
    using D(6) [OF xs(1), of c'] all xs(2) by (auto simp: closeClient_def split: if_splits)
qed

lemma hub_do_ok:
  assumes "hub_ok h" and "allowed e h"
  shows "hub_ok (hub_do e h)"
proof (cases e)
  case (Opened c)
  then have "c \<notin> set (cl_clients h)" using assms(2) by simp
  with Opened hub_okD [OF assms(1)] show ?thesis
    by (fastforce simp: openClient_def intro!: hub_okI)
next
  case (Attach c i)
  note D = hub_okD [OF assms(1)] and S = subs_ok [OF assms(1), where i = i]
  show ?thesis unfolding Attach hub_do.simps
  proof (rule hub_okI)
    fix j cs assume m: "map_of (cl_subs (attach c i h)) j = Some cs"
    then have cs: "cs = set_add c (subs_of h i) \<and> j = i \<or> map_of (cl_subs h) j = Some cs"
      by (auto simp: attach_def update_conv' split: if_splits)
    then show "distinct cs" using S(1) D(5) by auto
    fix c' assume "c' \<in> set cs"
    with cs show "c' \<in> set (cl_clients (attach c i h)) \<and> j \<in> set (cl_attached (attach c i h) c')"
      using S(2) [where c = c'] D(6) [of j cs c'] assms(2) Attach by (auto simp: attach_def)
  qed (use D in \<open>auto simp: attach_def distinct_update\<close>)
next
  case (Detach c i)
  note D = hub_okD [OF assms(1)]
  show ?thesis unfolding Detach hub_do.simps
  proof (rule hub_okI)
    fix j cs assume "map_of (cl_subs (detach c i h)) j = Some cs"
    then have "(if j = i then map_option (removeAll c) (map_of (cl_subs h) i) else map_of (cl_subs h) j) = Some cs"
      by (simp add: detach_def map_of_unsubscribe split: if_splits)
    then obtain xs where xs: "map_of (cl_subs h) j = Some xs" "cs = (if j = i then removeAll c xs else xs)"
      by (auto split: if_splits)
    then show "distinct cs" using D(5) [of j] by (simp add: distinct_removeAll)
    fix c' assume "c' \<in> set cs"
    with xs(2) D(6) [OF xs(1), of c']
    show "c' \<in> set (cl_clients (detach c i h)) \<and> j \<in> set (cl_attached (detach c i h) c')"
      by (auto simp: detach_def split: if_splits)
  qed (use D in \<open>auto simp: detach_def\<close>)
next
  case (Session_deleted i)
  note D = hub_okD [OF assms(1)]
  show ?thesis unfolding Session_deleted hub_do.simps
    by (rule hub_okI) (use D in \<open>auto simp: forget_session_def AList.delete_conv' distinct_delete split: if_splits\<close>)
next
  case (Feed c)
  with assms show ?thesis using hub_okD [OF assms(1)] by (auto simp: follow_feed_def intro!: hub_okI)
next
  case (Unfeed c)
  with assms show ?thesis using hub_okD [OF assms(1)] by (auto simp: unfeed_def distinct_removeAll intro!: hub_okI)
qed (use assms in \<open>auto simp: broadcastAll_def close_ok intro: hub_ok_same\<close>)

lemma hub_run_ok: "hub_run es h \<Longrightarrow> hub_ok h"
  by (induction rule: hub_run.induct) (simp_all add: hub_do_ok)

text \<open>The tables implement what was asked for.\<close>

lemma hub_do_refines:
  assumes "hub_ok h" and "allowed e h"
  shows "subscriptions (hub_do e h) = asked e (subscriptions h)"
proof (cases e)
  case (Gone_client c)
  then show ?thesis using subs_ok(2) [OF assms(1)] by (auto simp: subscriptions_def subs_of_close)
next
  case (Attach c i)
  then show ?thesis
    by (auto simp: subscriptions_def subs_of_def attach_def update_conv' split: option.splits if_splits)
next
  case (Detach c i)
  then show ?thesis
    by (auto simp: subscriptions_def detach_def subs_of_unsubscribe) (auto simp: subs_of_def)
next
  case (Session_deleted i)
  then show ?thesis
    by (auto simp: subscriptions_def subs_of_def forget_session_def AList.delete_conv')
qed (auto simp: subscriptions_def subs_of_def openClient_def follow_feed_def unfeed_def broadcastAll_def)

theorem subscriptions_follow_requests: "hub_run es h \<Longrightarrow> subscriptions h = follows es"
proof (induction rule: hub_run.induct)
  case nothing
  show ?case by (simp add: subscriptions_def subs_of_def hub_init_def follows_def)
next
  case (more es h e)
  then show ?case using hub_do_refines [OF hub_run_ok [OF more.hyps(1)], of e] by (simp add: follows_def)
qed

section \<open>Who is told\<close>

lemma count_once: "distinct xs \<Longrightarrow> count_list xs c = (if c \<in> set xs then 1 else 0)"
  by (induction xs) auto

lemma broadcast_out:
  "cl_sent (broadcast i m h) = cl_sent h @ map (\<lambda>c. (c, m))
     (subs_of h i @ (if feed_news m then filter (\<lambda>c. c \<notin> set (subs_of h i)) (cl_feed h) else []))"
  by (simp add: broadcast_def Let_def)

lemma broadcast_once:
  assumes "hub_ok h"
  shows "\<exists>cs. cl_sent (broadcast i m h) = cl_sent h @ map (\<lambda>c. (c, m)) cs \<and> set cs \<subseteq> set (cl_clients h)
    \<and> (\<forall>c. count_list cs c = (if (c, i) \<in> subscriptions h \<or> feed_news m \<and> c \<in> set (cl_feed h) then 1 else 0))"
proof -
  let ?cs = "subs_of h i @ (if feed_news m then filter (\<lambda>c. c \<notin> set (subs_of h i)) (cl_feed h) else [])"
  note D = hub_okD [OF assms] and S = subs_ok [OF assms, where i = i]
  have "distinct ?cs" using S(1) D(2) by auto
  then have "\<forall>c. count_list ?cs c = (if (c, i) \<in> subscriptions h \<or> feed_news m \<and> c \<in> set (cl_feed h) then 1 else 0)"
    by (simp only: count_once) (auto simp: subscriptions_def)
  moreover have "set ?cs \<subseteq> set (cl_clients h)" using S(2) D(4) by auto
  ultimately show ?thesis using broadcast_out by blast
qed

end
