(* ===== verification/Daemon.thy ===== *)
theory Daemon
  imports SessionProps SessionMeta Clients
begin

text \<open>
  The daemon over its chats (\<open>main.ts\<close>): the sessions it holds, what the requests of a client do
  to them, what their effects make it send and save, and how it stops and starts. The registry is
  its list of typed records (theory SessionMeta relates them to the objects of theory Registry);
  \<open>dm_saved\<close> is what its file holds. The record of a live session is the session's own, as the
  code shares one object between them; a save during a call writes the records as the call leaves
  them. \<open>dm_disk\<close> holds the files of a chat while no session is open on them: its log directory
  and its parked turn.
\<close>

section \<open>State\<close>

type_synonym chat_files = "log_dir \<times> string option"

record daemon =
  dm_metas :: "(string \<times> session_meta) list"
  dm_saved :: "(string \<times> session_meta) list"
  dm_live :: "(string \<times> session) list"
  dm_disk :: "(string \<times> chat_files) list"
  dm_hub :: hub

definition files_of :: "daemon \<Rightarrow> string \<Rightarrow> chat_files" where
  "files_of d i = (case map_of (dm_disk d) i of Some f \<Rightarrow> f | None \<Rightarrow> ([], None))"

definition files_in :: "session \<Rightarrow> chat_files" where
  "files_in s = (tr_dir (s_transcript s), s_file s)"

definition on_hub :: "(hub \<Rightarrow> hub) \<Rightarrow> daemon \<Rightarrow> daemon" where
  "on_hub f d = d \<lparr>dm_hub := f (dm_hub d)\<rparr>"

definition save_registry :: "daemon \<Rightarrow> daemon" where
  "save_registry d = d \<lparr>dm_saved := dm_metas d\<rparr>"

definition sessions_changed :: "daemon \<Rightarrow> daemon" where
  "sessions_changed = on_hub (broadcastAll Sessions_changed_msg)"

text \<open>A session and the registry share the record.\<close>

definition put_session :: "string \<Rightarrow> session \<Rightarrow> daemon \<Rightarrow> daemon" where
  "put_session i s d =
     d \<lparr>dm_live := AList.update i s (dm_live d),
        dm_metas := map (\<lambda>(j, m). (j, if j = i then s_meta s else m)) (dm_metas d)\<rparr>"

section \<open>The sessions' effects\<close>

text \<open>\<open>callbacks\<close>: what an effect of session \<open>i\<close> makes the daemon do to its clients and its file.\<close>

fun on_effect :: "string \<Rightarrow> effect \<Rightarrow> daemon \<Rightarrow> daemon" where
  "on_effect i (Event_sent v) d =
     (let d1 = on_hub (broadcast i (Event_msg i v)) d
      in if event_type v = JStr ''status'' then sessions_changed d1 else d1)"
| "on_effect i (Delta_sent w) d = on_hub (broadcast i (Delta_msg i w)) d"
| "on_effect i (Agents_published as) d = on_hub (broadcast i (Agents_msg i as)) d"
| "on_effect i Meta_changed d = save_registry d"
| "on_effect i Retitled d = sessions_changed (save_registry d)"
| "on_effect i e d = d"

definition getSession :: "bool \<Rightarrow> string \<Rightarrow> daemon \<Rightarrow> string + session \<times> daemon" where
  "getSession renames i d =
     (case map_of (dm_live d) i of
        Some s \<Rightarrow> Inr (s, d)
      | None \<Rightarrow>
          (case map_of (dm_metas d) i of
             None \<Rightarrow> Inl (''Unknown session: '' @ i)
           | Some m \<Rightarrow>
               (let s = session_open renames m (fst (files_of d i)) (snd (files_of d i))
                in Inr (s, put_session i s d))))"

text \<open>A method of a session runs, and the daemon carries out its effects in order.\<close>

definition run_session :: "string \<Rightarrow> op \<Rightarrow> session \<Rightarrow> daemon \<Rightarrow> daemon \<times> outcome" where
  "run_session i p s d =
     (let (s', out) = p s
      in (fold (on_effect i) (drop (length (s_trace s)) (s_trace s')) (put_session i s' d), out))"

definition with_session :: "env \<Rightarrow> string \<Rightarrow> op \<Rightarrow> daemon \<Rightarrow> daemon \<times> outcome" where
  "with_session env i p d =
     (case getSession (e_renames env) i d of
        Inl m \<Rightarrow> (d, Threw m)
      | Inr (s, d1) \<Rightarrow> run_session i p s d1)"

section \<open>Requests\<close>

text \<open>
  \<open>sessionInfo\<close>: the record of the registry and what the live session adds; reading a record that
  is not there throws. \<open>retryAt\<close> is left out when it is 0, as the code does.
\<close>

definition info_fields :: "session_meta \<Rightarrow> session option \<Rightarrow> (string \<times> jsval) list" where
  "info_fields m live =
     [(''id'', JStr (mt_id m)), (''title'', JStr (mt_title m)), (''cwd'', JStr (mt_cwd m)),
      (''status'', JStr (status_name (case live of None \<Rightarrow> Idle | Some s \<Rightarrow> s_status s))),
      (''permissionMode'', JStr (mode_name (case mt_permissionMode m of None \<Rightarrow> Mode_default | Some p \<Rightarrow> p)))]
     @ opt_member ''model'' JStr (given (mt_model m))
     @ opt_member ''activeModel'' JStr (given (mt_activeModel m))
     @ opt_member ''effort'' (\<lambda>e. JStr (effort_name e)) (mt_effort m)
     @ [(''createdAt'', JNum (mt_createdAt m)), (''lastActivityAt'', JNum (mt_lastActivityAt m)),
        (''eventCount'', JNum (of_nat (case live of None \<Rightarrow> 0 | Some s \<Rightarrow> tr_total (s_transcript s))))]
     @ opt_member ''retryAt'' JNum (case Option.bind live retryAt of Some t \<Rightarrow> if t = 0 then None else Some t | None \<Rightarrow> None)"

type_synonym reply = "string + jsval"

definition null_reference :: string where
  "null_reference = ''Cannot read properties of undefined (reading '' @ [CHR 0x27] @ ''id'' @ [CHR 0x27] @ '')''"

definition sessionInfo :: "daemon \<Rightarrow> string \<Rightarrow> reply" where
  "sessionInfo d i =
     (case map_of (dm_metas d) i of
        None \<Rightarrow> Inl null_reference
      | Some m \<Rightarrow> Inr (JObj (info_fields m (map_of (dm_live d) i))))"

definition info_of :: "daemon \<Rightarrow> string \<times> session_meta \<Rightarrow> jsval" where
  "info_of d = (\<lambda>(i, m). JObj (info_fields m (map_of (dm_live d) i)))"

definition listSessions :: "daemon \<Rightarrow> jsval" where
  "listSessions d = JArr (map (info_of d) (sort_desc (\<lambda>(i, m). mt_lastActivityAt m) (dm_metas d)))"

definition DEFAULT_REPLAY_LIMIT :: int where "DEFAULT_REPLAY_LIMIT = 400"

definition page_fields :: "page \<Rightarrow> (string \<times> jsval) list" where
  "page_fields p = [(''events'', JArr (pg_events p)), (''hasEarlier'', JBool (pg_hasEarlier p))]"

definition registry_new :: "string \<Rightarrow> string \<Rightarrow> string option \<Rightarrow> time_ms \<Rightarrow> daemon \<Rightarrow> session_meta" where
  "registry_new i cwd title now d =
     meta_of (new_meta i (case title of Some t \<Rightarrow> t | None \<Rightarrow> ''Session '' @ show_nat (length (dm_metas d) + 1)) cwd now)"

definition createSession :: "string \<Rightarrow> string \<Rightarrow> string option \<Rightarrow> time_ms \<Rightarrow> daemon \<Rightarrow> reply \<times> daemon" where
  "createSession i cwd title now d =
     (let d1 = sessions_changed (save_registry
                 (d \<lparr>dm_metas := AList.update i (registry_new i cwd title now d) (dm_metas d)\<rparr>))
      in (sessionInfo d1 i, d1))"

definition attachSession :: "env \<Rightarrow> nat \<Rightarrow> string \<Rightarrow> int \<Rightarrow> int option \<Rightarrow> daemon \<Rightarrow> reply \<times> daemon" where
  "attachSession env c i since limit d =
     (case getSession (e_renames env) i d of
        Inl m \<Rightarrow> (Inl m, d)
      | Inr (s, d1) \<Rightarrow>
          (let d2 = on_hub (attach c i) d1;
               n = (case limit of Some k \<Rightarrow> if 0 < k then k else DEFAULT_REPLAY_LIMIT | None \<Rightarrow> DEFAULT_REPLAY_LIMIT);
               pg = eventsSince since n (s_transcript s)
           in (case sessionInfo d2 i of
                 Inl m \<Rightarrow> Inl m
               | Inr info \<Rightarrow> Inr (JObj ((''info'', info) # page_fields pg)), d2)))"

definition history :: "env \<Rightarrow> string \<Rightarrow> int \<Rightarrow> int option \<Rightarrow> daemon \<Rightarrow> reply \<times> daemon" where
  "history env i before limit d =
     (case getSession (e_renames env) i d of
        Inl m \<Rightarrow> (Inl m, d)
      | Inr (s, d1) \<Rightarrow>
          (let n = (case limit of Some k \<Rightarrow> if 0 < k then min k 1000 else DEFAULT_REPLAY_LIMIT | None \<Rightarrow> DEFAULT_REPLAY_LIMIT)
           in (Inr (JObj (page_fields (eventsBefore before n (s_transcript s)))), d1)))"

text \<open>The registry's own edits reach the live session too, which has the same record.\<close>

definition edit_meta :: "string \<Rightarrow> (session_meta \<Rightarrow> session_meta) \<Rightarrow> daemon \<Rightarrow> daemon" where
  "edit_meta i f d =
     (if map_of (dm_metas d) i = None then d
      else save_registry
        (d \<lparr>dm_metas := map (\<lambda>(j, m). (j, if j = i then f m else m)) (dm_metas d),
            dm_live := map (\<lambda>(j, s). (j, if j = i then s_meta_update f s else s)) (dm_live d)\<rparr>))"

text \<open>
  \<open>sendMessage\<close>: \<open>prepared\<close> is what loading and keeping the images gives (theory Uploads), or the
  message it throws; a repeated message is not prepared.
\<close>

definition sendMessageReq ::
    "env \<Rightarrow> string \<Rightarrow> string \<Rightarrow> string + attachment list \<Rightarrow> attachment list \<Rightarrow> string option \<Rightarrow> time_ms
     \<Rightarrow> daemon \<Rightarrow> reply \<times> daemon" where
  "sendMessageReq env i txt prepared given_atts cid now d =
     (case getSession (e_renames env) i d of
        Inl m \<Rightarrow> (Inl m, d)
      | Inr (s, d1) \<Rightarrow>
          (let duplicate = (cid \<noteq> None \<and> hasClientMessage (the cid) (s_transcript s))
           in case (if duplicate then Inr given_atts else prepared) of
                Inl m \<Rightarrow> (Inl m, d1)
              | Inr atts \<Rightarrow>
                  (case run_session i (sendMessage env txt atts cid) s d1 of
                     (d2, Threw m) \<Rightarrow> (Inl m, d2)
                   | (d2, Done) \<Rightarrow>
                       (let d3 = (if accepts cid s then edit_meta i (mt_lastActivityAt_update (\<lambda>_. now)) d2 else d2)
                        in (Inr (JObj [(''duplicate'', JBool (\<not> accepts cid s))]), d3)))))"

definition setSessionCwd :: "env \<Rightarrow> string \<Rightarrow> string \<Rightarrow> string \<Rightarrow> daemon \<Rightarrow> reply \<times> daemon" where
  "setSessionCwd env i cwd resolved d =
     (if \<not> starts_with cwd ''/'' then (Inl ''The folder must be an absolute path'', d)
      else if \<not> e_isDirectory env cwd then (Inl (cwd @ '' is not a folder on this machine''), d)
      else case with_session env i (moveTo env resolved) d of
        (d1, Threw m) \<Rightarrow> (Inl m, d1)
      | (d1, Done) \<Rightarrow> (let d2 = sessions_changed d1 in (sessionInfo d2 i, d2)))"

definition renameSession :: "string \<Rightarrow> string \<Rightarrow> daemon \<Rightarrow> reply \<times> daemon" where
  "renameSession i title d =
     (if trim title = [] then (Inl ''Title cannot be empty'', d)
      else (let d1 = sessions_changed (edit_meta i (\<lambda>m. m \<lparr>mt_title := trim title, mt_titleSetByUser := True\<rparr>) d)
            in (sessionInfo d1 i, d1)))"

text \<open>\<open>deleteSession\<close>: the active log goes, the archives and a parked turn's file stay.\<close>

definition deleteSession :: "string \<Rightarrow> daemon \<Rightarrow> reply \<times> daemon" where
  "deleteSession i d =
     (let files = (case map_of (dm_live d) i of
                     None \<Rightarrow> files_of d i
                   | Some s \<Rightarrow> files_in (fst (dispose s)));
          d1 = d \<lparr>dm_live := AList.delete i (dm_live d),
                  dm_metas := AList.delete i (dm_metas d),
                  dm_disk := AList.update i (AList.delete (activeLogPath i) (fst files), snd files) (dm_disk d)\<rparr>
      in (Inr JNull, sessions_changed (save_registry (on_hub (forget_session i) d1))))"

section \<open>Stopping and starting\<close>

text \<open>The loop of \<open>shutdown\<close> over the live sessions; an exception leaves it.\<close>

fun park_all :: "(string \<Rightarrow> env) \<Rightarrow> (string \<times> session) list \<Rightarrow> (string \<times> session) list" where
  "park_all envs [] = []"
| "park_all envs ((i, s) # rest) =
     (case parkForRestart (envs i) s of
        (s', Done) \<Rightarrow> (i, s') # park_all envs rest
      | (s', Threw m) \<Rightarrow> (i, s') # rest)"

definition shutdown :: "(string \<Rightarrow> env) \<Rightarrow> daemon \<Rightarrow> daemon" where
  "shutdown envs d =
     (let ss = map (\<lambda>(i, s). (i, fst (dispose s))) (park_all envs (dm_live d))
      in d \<lparr>dm_live := [],
            dm_disk := fold (\<lambda>(i, s). AList.update i (files_in s)) ss (dm_disk d)\<rparr>)"

text \<open>\<open>pendingTurnSessionIds\<close>: the chats with a parked turn on disk.\<close>

definition pending_ids :: "daemon \<Rightarrow> string list" where
  "pending_ids d = map fst (filter (\<lambda>(i, f). snd f \<noteq> None) (dm_disk d))"

definition drop_pending :: "string \<Rightarrow> daemon \<Rightarrow> daemon" where
  "drop_pending i d = d \<lparr>dm_disk := AList.update i (fst (files_of d i), None) (dm_disk d)\<rparr>"

definition restore_turn :: "(string \<Rightarrow> env) \<Rightarrow> string \<Rightarrow> daemon \<Rightarrow> daemon" where
  "restore_turn envs i d =
     (if map_of (dm_metas d) i = None then drop_pending i d
      else fst (with_session (envs i) i (restorePending (envs i)) d))"

text \<open>The part of \<open>start\<close> that concerns the chats, on the registry's file.\<close>

definition boot :: "(string \<Rightarrow> env) \<Rightarrow> daemon \<Rightarrow> daemon" where
  "boot envs d =
     (let d1 = d \<lparr>dm_metas := dm_saved d, dm_live := [], dm_hub := hub_init\<rparr>
      in fold (restore_turn envs) (pending_ids d1) d1)"

section \<open>Requests as a whole\<close>

text \<open>
  The requests of \<open>handleRequest\<close> that concern the chats, and what the \<open>async\<close> methods among them
  are answered with at once: an exception inside is a rejected promise nobody waits for.
\<close>

datatype request =
    Req_list
  | Req_create string string "string option" time_ms
  | Req_attach nat string int "int option"
  | Req_detach nat string
  | Req_history string int "int option"
  | Req_send string string "string + attachment list" "attachment list" "string option" time_ms
  | Req_move string string string
  | Req_rename string string
  | Req_delete string
  | Req_interrupt string
  | Req_permission string string bool "string option" "(string \<times> string) list option"
  | Req_mode string permission_mode "string option"
  | Req_options string "string option option" "effort_level option option" "string option" "string option"
  | Req_unfeed nat

definition answered :: "bool \<Rightarrow> daemon \<times> outcome \<Rightarrow> reply \<times> daemon" where
  "answered waits r = (case r of (d, Threw m) \<Rightarrow> (if waits then Inl m else Inr JNull, d) | (d, Done) \<Rightarrow> (Inr JNull, d))"

text \<open>An \<open>async\<close> method of a session: only finding the session can throw.\<close>

definition started :: "env \<Rightarrow> string \<Rightarrow> op \<Rightarrow> daemon \<Rightarrow> reply \<times> daemon" where
  "started env i p d =
     (case getSession (e_renames env) i d of
        Inl m \<Rightarrow> (Inl m, d)
      | Inr (s, d1) \<Rightarrow> answered False (run_session i p s d1))"

fun handleRequest :: "(string \<Rightarrow> env) \<Rightarrow> request \<Rightarrow> daemon \<Rightarrow> reply \<times> daemon" where
  "handleRequest envs Req_list d = (Inr (listSessions d), d)"
| "handleRequest envs (Req_create i cwd title now) d = createSession i cwd title now d"
| "handleRequest envs (Req_attach c i since limit) d = attachSession (envs i) c i since limit d"
| "handleRequest envs (Req_detach c i) d = (Inr JNull, on_hub (detach c i) d)"
| "handleRequest envs (Req_history i before limit) d = history (envs i) i before limit d"
| "handleRequest envs (Req_send i txt prepared atts cid now) d = sendMessageReq (envs i) i txt prepared atts cid now d"
| "handleRequest envs (Req_move i cwd resolved) d = setSessionCwd (envs i) i cwd resolved d"
| "handleRequest envs (Req_rename i title) d = renameSession i title d"
| "handleRequest envs (Req_delete i) d = deleteSession i d"
| "handleRequest envs (Req_interrupt i) d = started (envs i) i (interrupt (envs i)) d"
| "handleRequest envs (Req_permission i r al m an) d =
     answered True (with_session (envs i) i (resolvePermission (envs i) r al m an) d)"
| "handleRequest envs (Req_mode i m f) d = started (envs i) i (setPermissionMode (envs i) m f) d"
| "handleRequest envs (Req_options i m e f f2) d =
     (case started (envs i) i (setOptions (envs i) m e f f2) d of
        (Inl x, d1) \<Rightarrow> (Inl x, d1) | (Inr v, d1) \<Rightarrow> (Inr v, sessions_changed d1))"
| "handleRequest envs (Req_unfeed c) d = (Inr JNull, on_hub (unfeed c) d)"

end
