(* ===== verification/DaemonProps.thy ===== *)
theory DaemonProps
  imports Daemon
begin

text \<open>
  What the daemon over its chats promises: every chat's turn is in memory or on disk, in every run
  of requests, timers, answers of Claude, clients coming and going, and restarts; and a restart
  resumes exactly the work there was.
\<close>

section \<open>Parking everything\<close>

definition restart_turn :: "env \<Rightarrow> pending_turn" where
  "restart_turn env =
     \<lparr>pt_retryAt = e_now env + RESTART_RESUME_MS, pt_attempts = 0, pt_text = ''daemon restart''\<rparr>"

text \<open>What a session has on disk once the daemon is down.\<close>

definition parked_work :: "env \<Rightarrow> session \<Rightarrow> pending_turn option" where
  "parked_work env s =
     (case s_pending s of
        Some p \<Rightarrow> Some p
      | None \<Rightarrow> if busy (e_now env) s then Some (restart_turn env) else None)"

lemma parkForRestart_parks:
  assumes "good_env env" and "turn_ok s"
  shows "\<exists>s'. parkForRestart env s = (s', Done)
    \<and> s_file s' = map_option (\<lambda>p. stringify (pending_json p)) (parked_work env s)"
proof (cases "busy (e_now env) s \<and> s_pending s = None")
  case False
  then have "parked_work env s = s_pending s" by (auto simp: parked_work_def split: option.split)
  moreover have "parkForRestart env s = (s, Done)"
    using False by (auto simp: parkForRestart_def when_do_def if_do_def skip_def)
  ultimately show ?thesis
    using assms(2) by (simp add: turn_ok_def durable_def turn_of_def)
next
  case True
  have w: "writes_ok env" and e: "e_persists env" using assms(1) by (simp_all add: good_env_def)
  have "wp (parkForRestart env) (\<lambda>s'. s_file s' = Some (stringify (pending_json (restart_turn env)))) s"
    unfolding parkForRestart_def set_pending_def persistPending_def
    using True e by (auto simp: wp_simps restart_turn_def intro!: wp_appendEvent [OF w])
  with True show ?thesis
    by (cases "parkForRestart env s") (auto simp: wp_def parked_work_def)
qed

lemma dispose_files [simp]: "files_in (fst (dispose s)) = files_in s"
proof -
  have "wp dispose (\<lambda>s'. files_in s' = files_in s) s"
    unfolding dispose_def clearStallWatchdog_def clearRetryTimer_def close_input_def close_query_def
    by (auto simp: wp_simps files_in_def split: option.split)
  then show ?thesis by (auto simp: wp_def split: prod.splits)
qed

definition stopped :: "(string \<Rightarrow> env) \<Rightarrow> string \<times> session \<Rightarrow> string \<times> session" where
  "stopped envs = (\<lambda>(i, s). (i, fst (dispose (fst (parkForRestart (envs i) s)))))"

lemma park_all_map:
  assumes "\<forall>(i, s)\<in>set ss. good_env (envs i) \<and> turn_ok s"
  shows "map (\<lambda>(i, s). (i, fst (dispose s))) (park_all envs ss) = map (stopped envs) ss"
  using assms
proof (induction ss)
  case (Cons x ss)
  obtain i s where x: "x = (i, s)" by fastforce
  obtain s' where "parkForRestart (envs i) s = (s', Done)"
    using parkForRestart_parks [of "envs i" s] Cons.prems x by auto
  with Cons x show ?case by (simp add: stopped_def)
qed simp

lemma map_of_fold_update:
  "distinct (map fst ss) \<Longrightarrow>
   map_of (fold (\<lambda>(i, s). AList.update i (g s)) ss m) j =
     (case map_of ss j of Some s \<Rightarrow> Some (g s) | None \<Rightarrow> map_of m j)"
proof (induction ss arbitrary: m)
  case (Cons x ss)
  obtain i s where x: "x = (i, s)" by fastforce
  show ?case
  proof (cases "j = i")
    case True
    then have "map_of ss j = None" using Cons.prems x by (simp add: map_of_eq_None_iff)
    with Cons True x show ?thesis by (simp add: update_conv')
  qed (use Cons x in \<open>simp add: update_conv' split: option.split\<close>)
qed simp

lemma map_of_stopped:
  "map_of (map (stopped envs) ss) j = map_option (\<lambda>s. fst (dispose (fst (parkForRestart (envs j) s)))) (map_of ss j)"
  by (induction ss) (auto simp: stopped_def)

lemma keys_stopped: "map fst (map (stopped envs) ss) = map fst ss"
  by (induction ss) (auto simp: stopped_def)

text \<open>The invariant of the daemon.\<close>

definition daemon_ok :: "daemon \<Rightarrow> bool" where
  "daemon_ok d =
     (distinct (map fst (dm_metas d)) \<and> distinct (map fst (dm_live d)) \<and> distinct (map fst (dm_disk d))
      \<and> map fst (dm_saved d) = map fst (dm_metas d)
      \<and> (\<forall>i s. map_of (dm_live d) i = Some s \<longrightarrow> i \<in> set (map fst (dm_metas d)) \<and> turn_ok s)
      \<and> (\<forall>i\<in>set (map fst (dm_metas d)). map_of (dm_live d) i = None \<longrightarrow> snd (files_of d i) = None)
      \<and> hub_ok (dm_hub d))"

lemma shutdown_files:
  assumes "daemon_ok d" and "\<And>i. good_env (envs i)"
  shows "snd (files_of (shutdown envs d) i) = (case map_of (dm_live d) i of
      Some s \<Rightarrow> map_option (\<lambda>p. stringify (pending_json p)) (parked_work (envs i) s)
    | None \<Rightarrow> snd (files_of d i))"
proof -
  have ok: "\<forall>(i, s)\<in>set (dm_live d). good_env (envs i) \<and> turn_ok s"
    using assms by (auto simp: daemon_ok_def)
  have dist: "distinct (map fst (map (stopped envs) (dm_live d)))"
    using assms(1) by (simp only: keys_stopped) (simp add: daemon_ok_def)
  show ?thesis
  proof (cases "map_of (dm_live d) i")
    case None
    then show ?thesis
      by (simp add: files_of_def shutdown_def Let_def park_all_map [OF ok] map_of_fold_update [OF dist] map_of_stopped
          split: option.split)
  next
    case (Some s)
    then have "turn_ok s" using assms(1) by (auto simp: daemon_ok_def)
    from parkForRestart_parks [OF assms(2) this, of i] obtain s' where
      "parkForRestart (envs i) s = (s', Done)"
      "s_file s' = map_option (\<lambda>p. stringify (pending_json p)) (parked_work (envs i) s)" by auto
    with Some show ?thesis
      by (simp add: files_of_def shutdown_def Let_def park_all_map [OF ok] map_of_fold_update [OF dist] map_of_stopped)
         (simp add: files_in_def)
  qed
qed

section \<open>Restoring what was parked\<close>

definition restored :: "env \<Rightarrow> session_meta \<Rightarrow> chat_files \<Rightarrow> pending_turn \<Rightarrow> session" where
  "restored env m f p =
     (session_open (e_renames env) m (fst f) (snd f))
       \<lparr>s_pending := Some p, s_retries := pt_attempts p, s_status := Running,
        s_retryTimer := Some (e_now env + max 0 (pt_retryAt p - e_now env))\<rparr>"

lemma restored_fields [simp]:
  "s_meta (restored env m f p) = m" "s_status (restored env m f p) = Running"
  "s_pending (restored env m f p) = Some p" "s_retries (restored env m f p) = pt_attempts p"
  "s_retryTimer (restored env m f p) = Some (e_now env + max 0 (pt_retryAt p - e_now env))"
  "s_trace (restored env m f p) = []" "s_file (restored env m f p) = snd f"
  by (simp_all add: restored_def session_open_def)

lemma put_session_fields [simp]:
  "dm_live (put_session i s d) = AList.update i s (dm_live d)" "dm_disk (put_session i s d) = dm_disk d"
  "dm_saved (put_session i s d) = dm_saved d" "dm_hub (put_session i s d) = dm_hub d"
  "files_of (put_session i s d) j = files_of d j"
  "map fst (dm_metas (put_session i s d)) = map fst (dm_metas d)"
  by (simp_all add: put_session_def files_of_def comp_def case_prod_beta)

lemma map_of_rekeyed: "map_of (map (\<lambda>(j, m). (j, if j = i then v else m)) ms) k =
    (if k = i then map_option (\<lambda>_. v) (map_of ms k) else map_of ms k)"
  by (induction ms) auto

lemma map_of_put_session:
  "map_of (dm_metas (put_session i s d)) j =
     (if j = i then map_option (\<lambda>_. s_meta s) (map_of (dm_metas d) i) else map_of (dm_metas d) j)"
  by (simp add: put_session_def map_of_rekeyed)

lemma restore_turn_registered:
  assumes "map_of (dm_metas d) i = Some m" and "map_of (dm_live d) i = None"
    and "snd (files_of d i) = Some (stringify (pending_json p))" and "num_plain (pt_retryAt p)"
  shows "restore_turn envs i d =
    put_session i (restored (envs i) m (files_of d i) p)
      (put_session i (session_open (e_renames (envs i)) m (fst (files_of d i)) (snd (files_of d i))) d)"
proof -
  let ?s = "session_open (e_renames (envs i)) m (fst (files_of d i)) (snd (files_of d i))"
  have "s_file ?s = Some (stringify (pending_json p))" using assms(3) by (simp add: session_open_def)
  from restorePending_spec [OF assms(4) this, of "envs i"]
  have r: "restorePending (envs i) ?s = (restored (envs i) m (files_of d i) p, Done)"
    by (simp add: restored_def)
  show ?thesis using assms(1,2)
    by (simp add: restore_turn_def with_session_def getSession_def Let_def run_session_def r)
qed

text \<open>Restoring one chat concerns that chat alone.\<close>

lemma restore_turn_one:
  assumes "map_of (dm_metas d) i = None
    \<or> (\<exists>p. map_of (dm_live d) i = None \<and> snd (files_of d i) = Some (stringify (pending_json p)) \<and> num_plain (pt_retryAt p))"
  shows "map_of (dm_metas (restore_turn envs i d)) j = map_of (dm_metas d) j"
    and "j \<noteq> i \<Longrightarrow> map_of (dm_live (restore_turn envs i d)) j = map_of (dm_live d) j"
    and "j \<noteq> i \<Longrightarrow> files_of (restore_turn envs i d) j = files_of d j"
    and "map_of (dm_metas d) i = None \<Longrightarrow> dm_live (restore_turn envs i d) = dm_live d"
proof -
  have *: "map_of (dm_metas (restore_turn envs i d)) j = map_of (dm_metas d) j
    \<and> (j \<noteq> i \<longrightarrow> map_of (dm_live (restore_turn envs i d)) j = map_of (dm_live d) j
        \<and> files_of (restore_turn envs i d) j = files_of d j)
    \<and> (map_of (dm_metas d) i = None \<longrightarrow> dm_live (restore_turn envs i d) = dm_live d)"
  proof (cases "map_of (dm_metas d) i")
    case None
    then show ?thesis by (simp add: restore_turn_def drop_pending_def files_of_def update_conv')
  next
    case (Some m)
    then obtain p where "map_of (dm_live d) i = None" "snd (files_of d i) = Some (stringify (pending_json p))"
      "num_plain (pt_retryAt p)" using assms by auto
    from restore_turn_registered [OF Some this, of envs] Some show ?thesis
      by (simp add: map_of_put_session update_conv' session_open_def)
  qed
  from * show "map_of (dm_metas (restore_turn envs i d)) j = map_of (dm_metas d) j"
    "j \<noteq> i \<Longrightarrow> map_of (dm_live (restore_turn envs i d)) j = map_of (dm_live d) j"
    "j \<noteq> i \<Longrightarrow> files_of (restore_turn envs i d) j = files_of d j"
    "map_of (dm_metas d) i = None \<Longrightarrow> dm_live (restore_turn envs i d) = dm_live d" by blast+
qed

definition restorable :: "daemon \<Rightarrow> string \<Rightarrow> bool" where
  "restorable d i = (map_of (dm_metas d) i = None
    \<or> (\<exists>p. map_of (dm_live d) i = None \<and> snd (files_of d i) = Some (stringify (pending_json p)) \<and> num_plain (pt_retryAt p)))"

lemma restore_all:
  assumes "distinct is" and "\<forall>i\<in>set is. restorable d i"
  shows "map_of (dm_live (fold (restore_turn envs) is d)) j =
    (if j \<in> set is \<and> map_of (dm_metas d) j \<noteq> None
     then Some (restored (envs j) (the (map_of (dm_metas d) j)) (files_of d j)
            (the (Option.bind (snd (files_of d j)) (\<lambda>w. the (read_pending w)))))
     else map_of (dm_live d) j)"
  using assms
proof (induction "is" arbitrary: d)
  case (Cons i rest)
  let ?d = "restore_turn envs i d"
  have r: "restorable d i" using Cons.prems(2) by simp
  note one = restore_turn_one [OF r [unfolded restorable_def], where envs = envs]
  have "restorable ?d k" if "k \<in> set rest" for k
  proof -
    have "k \<noteq> i" using that Cons.prems(1) by auto
    then show ?thesis using Cons.prems(2) that one(1) [of k] one(2,3) [of k]
      by (simp add: restorable_def)
  qed
  then have IH: "map_of (dm_live (fold (restore_turn envs) rest ?d)) j =
    (if j \<in> set rest \<and> map_of (dm_metas ?d) j \<noteq> None
     then Some (restored (envs j) (the (map_of (dm_metas ?d) j)) (files_of ?d j)
            (the (Option.bind (snd (files_of ?d j)) (\<lambda>w. the (read_pending w)))))
     else map_of (dm_live ?d) j)"
    using Cons.IH [of ?d] Cons.prems(1) by simp
  show ?case
  proof (cases "j = i")
    case False
    have nj: "map_of (dm_metas ?d) j = map_of (dm_metas d) j" "map_of (dm_live ?d) j = map_of (dm_live d) j"
      "files_of ?d j = files_of d j" using one(1) one(2,3) [OF False] by auto
    have "map_of (dm_live (fold (restore_turn envs) (i # rest) d)) j = map_of (dm_live (fold (restore_turn envs) rest ?d)) j"
      by simp
    then show ?thesis using False unfolding IH nj by simp
  next
    case True
    then have "j \<notin> set rest" using Cons.prems(1) by simp
    then have j: "map_of (dm_live (fold (restore_turn envs) (i # rest) d)) j = map_of (dm_live ?d) i"
      using IH True by simp
    show ?thesis
    proof (cases "map_of (dm_metas d) i")
      case None
      then show ?thesis using j True one(4) by simp
    next
      case (Some m)
      with r obtain p where p: "map_of (dm_live d) i = None" "snd (files_of d i) = Some (stringify (pending_json p))"
        "num_plain (pt_retryAt p)" by (auto simp: restorable_def)
      from restore_turn_registered [OF Some p, of envs] j True Some p(2) read_pending_stringify [OF p(3)]
      show ?thesis by (simp add: update_conv')
    qed
  qed
qed simp

section \<open>A restart\<close>

text \<open>The state \<open>boot\<close> starts from.\<close>

definition booting :: "daemon \<Rightarrow> daemon" where
  "booting d = d \<lparr>dm_metas := dm_saved d, dm_live := [], dm_hub := hub_init\<rparr>"

lemma boot_booting: "boot envs d = fold (restore_turn envs) (pending_ids (booting d)) (booting d)"
  by (simp add: boot_def booting_def Let_def)

lemma booting_fields [simp]:
  "dm_metas (booting d) = dm_saved d" "dm_saved (booting d) = dm_saved d" "dm_live (booting d) = []"
  "dm_disk (booting d) = dm_disk d" "dm_hub (booting d) = hub_init" "files_of (booting d) i = files_of d i"
  by (simp_all add: booting_def files_of_def)

lemma set_pending_ids:
  assumes "distinct (map fst (dm_disk d))"
  shows "i \<in> set (pending_ids d) \<longleftrightarrow> snd (files_of d i) \<noteq> None"
proof -
  have "i \<in> set (pending_ids d) \<longleftrightarrow> (\<exists>f. (i, f) \<in> set (dm_disk d) \<and> snd f \<noteq> None)"
    by (auto simp: pending_ids_def image_iff Bex_def)
  also have "\<dots> \<longleftrightarrow> (\<exists>f. map_of (dm_disk d) i = Some f \<and> snd f \<noteq> None)"
    using assms by auto
  also have "\<dots> \<longleftrightarrow> snd (files_of d i) \<noteq> None"
    by (auto simp: files_of_def split: option.splits)
  finally show ?thesis .
qed

lemma distinct_pending_ids: "distinct (map fst (dm_disk d)) \<Longrightarrow> distinct (pending_ids d)"
  by (simp add: pending_ids_def distinct_map_filter)

lemma distinct_fold_update:
  "distinct (map fst m) \<Longrightarrow> distinct (map fst (fold (\<lambda>(i, s). AList.update i (g s)) ss m))"
  by (induction ss arbitrary: m) (auto simp: distinct_update)

lemma restart_turn_plain: "good_env env \<Longrightarrow> num_plain (pt_retryAt (restart_turn env))"
  using num_plain_of_nat [of 5000]
  by (auto simp: restart_turn_def good_env_def RESTART_RESUME_MS_def intro!: num_plain_add)

definition plain_work :: "daemon \<Rightarrow> bool" where
  "plain_work d = (\<forall>i s p. map_of (dm_live d) i = Some s \<and> s_pending s = Some p \<longrightarrow> num_plain (pt_retryAt p))"

lemma files_of_fields [simp]: "files_of (d \<lparr>dm_metas := ms, dm_live := ss, dm_hub := h\<rparr>) i = files_of d i"
  by (simp add: files_of_def)

lemma shutdown_fields [simp]:
  "dm_metas (shutdown envs d) = dm_metas d" "dm_saved (shutdown envs d) = dm_saved d"
  by (simp_all add: shutdown_def Let_def)

lemma saved_keys: "daemon_ok d \<Longrightarrow> map_of (dm_saved d) j = None \<longleftrightarrow> map_of (dm_metas d) j = None"
  by (metis daemon_ok_def map_of_eq_None_iff list.set_map)

lemma work_plain:
  assumes "plain_work d" and "good_env env"
    and "map_of (dm_live d) j = Some s" and "parked_work env s = Some p"
  shows "num_plain (pt_retryAt p)"
  using assms restart_turn_plain [OF assms(2)]
  by (auto simp: plain_work_def parked_work_def split: option.splits if_splits)

lemma disk_keys: "daemon_ok d \<Longrightarrow> distinct (map fst (dm_disk (booting (shutdown envs d))))"
  by (auto simp: daemon_ok_def shutdown_def Let_def intro: distinct_fold_update)

lemma booting_restorable:
  assumes ok: "daemon_ok d" and plain: "plain_work d" and g: "\<And>i. good_env (envs i)"
  shows "\<forall>j\<in>set (pending_ids (booting (shutdown envs d))). restorable (booting (shutdown envs d)) j"
proof
  note files = shutdown_files [OF ok g]
  fix j assume "j \<in> set (pending_ids (booting (shutdown envs d)))"
  then have p: "snd (files_of (shutdown envs d) j) \<noteq> None" using set_pending_ids [OF disk_keys [OF ok]] by simp
  show "restorable (booting (shutdown envs d)) j"
  proof (cases "map_of (dm_live d) j")
    case None
    then have "snd (files_of d j) \<noteq> None" using p files [where i = j] by simp
    then have "j \<notin> set (map fst (dm_metas d))" using ok None by (auto simp: daemon_ok_def)
    then have "map_of (dm_saved d) j = None" unfolding saved_keys [OF ok] by (simp add: map_of_eq_None_iff)
    then show ?thesis by (simp add: restorable_def)
  next
    case (Some s)
    then obtain q where q: "parked_work (envs j) s = Some q" using p files [where i = j] by auto
    show ?thesis using Some q work_plain [OF plain g Some q] files [where i = j]
      by (auto simp: restorable_def)
  qed
qed

theorem work_survives_restart:
  assumes ok: "daemon_ok d" and plain: "plain_work d" and g: "\<And>i. good_env (envs i)"
  shows "map_of (dm_live (boot envs' (shutdown envs d))) i =
    (case map_of (dm_live d) i of
       None \<Rightarrow> None
     | Some s \<Rightarrow> map_option (restored (envs' i) (the (map_of (dm_saved d) i)) (files_of (shutdown envs d) i))
                  (parked_work (envs i) s))"
proof -
  note files = shutdown_files [OF ok g]
  note dd = disk_keys [OF ok, of envs]
  have live: "map_of (dm_live (boot envs' (shutdown envs d))) i =
    (if snd (files_of (shutdown envs d) i) \<noteq> None \<and> map_of (dm_saved d) i \<noteq> None
     then Some (restored (envs' i) (the (map_of (dm_saved d) i)) (files_of (shutdown envs d) i)
            (the (Option.bind (snd (files_of (shutdown envs d) i)) (\<lambda>w. the (read_pending w)))))
     else None)"
    using restore_all [OF distinct_pending_ids [OF dd] booting_restorable [OF ok plain g], where envs = envs' and j = i]
      set_pending_ids [OF dd, where i = i]
    by (simp add: boot_booting)
  show ?thesis
  proof (cases "map_of (dm_live d) i")
    case None
    have "snd (files_of (shutdown envs d) i) = None \<or> map_of (dm_saved d) i = None"
    proof (rule ccontr)
      assume "\<not> ?thesis"
      then have f: "snd (files_of (shutdown envs d) i) \<noteq> None" and m: "map_of (dm_metas d) i \<noteq> None"
        using saved_keys [OF ok] by auto
      from f have "snd (files_of d i) \<noteq> None" using None files [where i = i] by simp
      moreover have "i \<in> set (map fst (dm_metas d))" using m by (auto simp: map_of_eq_None_iff)
      ultimately show False using ok None by (auto simp: daemon_ok_def)
    qed
    then show ?thesis using None live by auto
  next
    case (Some s)
    then have "i \<in> set (map fst (dm_metas d))" using ok by (auto simp: daemon_ok_def)
    then have m: "map_of (dm_saved d) i \<noteq> None" unfolding saved_keys [OF ok] by (auto simp: map_of_eq_None_iff)
    show ?thesis
    proof (cases "parked_work (envs i) s")
      case None
      then show ?thesis using live Some files [where i = i] by simp
    next
      case (Some p)
      with \<open>map_of (dm_live d) i = Some s\<close> have "read_pending (stringify (pending_json p)) = Some (Some p)"
        using read_pending_stringify work_plain [OF plain g] by blast
      then show ?thesis using live m Some \<open>map_of (dm_live d) i = Some s\<close> files [where i = i] by simp
    qed
  qed
qed

section \<open>The invariant holds in every run\<close>

lemma daemon_okI:
  assumes "distinct (map fst (dm_metas d))" and "distinct (map fst (dm_live d))" and "distinct (map fst (dm_disk d))"
    and "map fst (dm_saved d) = map fst (dm_metas d)"
    and "\<And>i s. map_of (dm_live d) i = Some s \<Longrightarrow> i \<in> set (map fst (dm_metas d)) \<and> turn_ok s"
    and "\<And>i. i \<in> set (map fst (dm_metas d)) \<Longrightarrow> map_of (dm_live d) i = None \<Longrightarrow> snd (files_of d i) = None"
    and "hub_ok (dm_hub d)"
  shows "daemon_ok d"
  using assms by (simp add: daemon_ok_def)

lemma daemon_okD:
  assumes "daemon_ok d"
  shows "distinct (map fst (dm_metas d))" and "distinct (map fst (dm_live d))" and "distinct (map fst (dm_disk d))"
    and "map fst (dm_saved d) = map fst (dm_metas d)"
    and "map_of (dm_live d) i = Some s \<Longrightarrow> i \<in> set (map fst (dm_metas d)) \<and> turn_ok s"
    and "i \<in> set (map fst (dm_metas d)) \<Longrightarrow> map_of (dm_live d) i = None \<Longrightarrow> snd (files_of d i) = None"
    and "hub_ok (dm_hub d)"
  using assms by (auto simp: daemon_ok_def simp del: set_map)

text \<open>What depends on neither the clients nor the saved copy.\<close>

lemma on_hub_fields [simp]:
  "dm_metas (on_hub f d) = dm_metas d" "dm_saved (on_hub f d) = dm_saved d" "dm_live (on_hub f d) = dm_live d"
  "dm_disk (on_hub f d) = dm_disk d" "dm_hub (on_hub f d) = f (dm_hub d)" "files_of (on_hub f d) i = files_of d i"
  by (simp_all add: on_hub_def files_of_def)

lemma save_fields [simp]:
  "dm_metas (save_registry d) = dm_metas d" "dm_saved (save_registry d) = dm_metas d"
  "dm_live (save_registry d) = dm_live d" "dm_disk (save_registry d) = dm_disk d"
  "dm_hub (save_registry d) = dm_hub d" "files_of (save_registry d) i = files_of d i"
  by (simp_all add: save_registry_def files_of_def)

lemma hub_keeps: "daemon_ok d \<Longrightarrow> hub_ok (f (dm_hub d)) \<Longrightarrow> daemon_ok (on_hub f d)"
  by (auto dest: daemon_okD intro!: daemon_okI)

lemma broadcast_ok [simp]: "hub_ok h \<Longrightarrow> hub_ok (broadcast i m h)" "hub_ok h \<Longrightarrow> hub_ok (broadcastAll m h)"
  by (auto simp: broadcastAll_def intro: hub_ok_same)

lemma sessions_changed_ok [simp]: "daemon_ok d \<Longrightarrow> daemon_ok (sessions_changed d)"
  unfolding sessions_changed_def by (rule hub_keeps) (auto dest: daemon_okD)

lemma save_ok [simp]: "daemon_ok d \<Longrightarrow> daemon_ok (save_registry d)"
  by (auto dest: daemon_okD intro!: daemon_okI)

lemma on_effect_ok: "daemon_ok d \<Longrightarrow> daemon_ok (on_effect i e d)"
  using hub_keeps [of d "broadcast i m" for m] daemon_okD(7) [of d]
  by (cases e) (simp_all add: Let_def)

lemma effects_ok: "daemon_ok d \<Longrightarrow> daemon_ok (fold (on_effect i) es d)"
  by (induction es arbitrary: d) (simp_all add: on_effect_ok)

lemma put_session_ok:
  assumes "daemon_ok d" and "i \<in> set (map fst (dm_metas d))" and "turn_ok s"
  shows "daemon_ok (put_session i s d)"
proof (rule daemon_okI)
  note D = daemon_okD [OF assms(1)]
  fix j t assume "map_of (dm_live (put_session i s d)) j = Some t"
  then show "j \<in> set (map fst (dm_metas (put_session i s d))) \<and> turn_ok t"
    using assms(2,3) D(5) [of j t] by (auto simp: update_conv' simp del: set_map split: if_splits)
next
  note D = daemon_okD [OF assms(1)]
  fix j assume "j \<in> set (map fst (dm_metas (put_session i s d)))" "map_of (dm_live (put_session i s d)) j = None"
  then show "snd (files_of (put_session i s d) j) = None"
    using D(6) [of j] by (auto simp: update_conv' simp del: set_map split: if_splits)
qed (use daemon_okD [OF assms(1)] in \<open>auto simp: distinct_update\<close>)

lemma getSession_ok:
  assumes "daemon_ok d" and "getSession ren i d = Inr (s, d1)"
  shows "daemon_ok d1" and "i \<in> set (map fst (dm_metas d1))" and "turn_ok s"
proof -
  note D = daemon_okD [OF assms(1)]
  have *: "daemon_ok d1 \<and> i \<in> set (map fst (dm_metas d1)) \<and> turn_ok s"
  proof (cases "map_of (dm_live d) i")
    case (Some t)
    then have "d1 = d" "s = t" using assms(2) by (simp_all add: getSession_def)
    then show ?thesis using assms(1) D(5) [OF Some] by simp
  next
    case None
    then obtain m where m: "map_of (dm_metas d) i = Some m"
      using assms(2) by (cases "map_of (dm_metas d) i") (simp_all add: getSession_def)
    let ?s = "session_open ren m (fst (files_of d i)) (snd (files_of d i))"
    have s: "s = ?s" "d1 = put_session i ?s d"
      using assms(2) None m by (auto simp: getSession_def Let_def)
    have i: "i \<in> set (map fst (dm_metas d))" using m by (metis map_of_eq_None_iff list.set_map option.distinct(1))
    have "turn_ok ?s" using D(6) [OF i None] by (intro turn_ok_none) (simp_all add: session_open_def)
    then show ?thesis using put_session_ok [OF assms(1) i] i s by (simp del: set_map)
  qed
  from * show "daemon_ok d1" "i \<in> set (map fst (dm_metas d1))" "turn_ok s" by auto
qed

lemma run_session_ok:
  assumes "daemon_ok d" and "i \<in> set (map fst (dm_metas d))" and "turn_ok s" and "keeps turn_ok p"
  shows "daemon_ok (fst (run_session i p s d))"
proof -
  obtain s' out where r: "p s = (s', out)" by fastforce
  then have "turn_ok s'" using keepsD [OF assms(4,3)] by simp
  then show ?thesis using effects_ok [OF put_session_ok [OF assms(1,2)], of s'] r
    by (simp add: run_session_def)
qed

lemma with_session_ok:
  assumes "daemon_ok d" and "keeps turn_ok p"
  shows "daemon_ok (fst (with_session env i p d))"
  using assms getSession_ok [OF assms(1), of "e_renames env" i] run_session_ok [OF _ _ _ assms(2), of _ i]
  by (auto simp: with_session_def split: sum.split prod.split)

lemma keeps_run_method: "good_env env \<Longrightarrow> keeps turn_ok (run_method c env)"
  by (rule run_method_keeps)

lemmas session_methods_keep =
  keeps_sendMessage
  run_method_keeps [of _ Interrupt, simplified] run_method_keeps [of _ "Move cwd" for cwd, simplified]
  run_method_keeps [of _ "Resolve r a m ans" for r a m ans, simplified]
  run_method_keeps [of _ "Set_mode m f" for m f, simplified]
  run_method_keeps [of _ "Set_options m e f f2" for m e f f2, simplified]

lemma started_ok:
  assumes "daemon_ok d" and "keeps turn_ok p"
  shows "daemon_ok (snd (started env i p d))"
proof (cases "getSession (e_renames env) i d")
  case (Inr r)
  obtain s d1 where r: "r = (s, d1)" by (cases r)
  note g = getSession_ok [OF assms(1) Inr [unfolded r]]
  have "snd (started env i p d) = fst (run_session i p s d1)"
    using Inr r by (simp add: started_def answered_def split: prod.split outcome.split)
  then show ?thesis using run_session_ok [OF g assms(2)] by simp
qed (simp add: started_def assms(1))

lemma turn_ok_meta [simp]: "turn_ok (s_meta_update f s) = turn_ok s"
  by (rule turn_ok_cong) (simp add: turn_of_def)

lemma keys_mapped [simp]: "map fst (map (\<lambda>(j, x). (j, g j x)) xs) = map fst xs"
  by (induction xs) auto

lemma map_of_mapped: "map_of (map (\<lambda>(j, x). (j, g j x)) xs) k = map_option (g k) (map_of xs k)"
  by (induction xs) auto

lemma edit_meta_ok:
  assumes "daemon_ok d"
  shows "daemon_ok (edit_meta i f d)"
proof (cases "map_of (dm_metas d) i = None")
  case False
  note D = daemon_okD [OF assms]
  let ?d = "d \<lparr>dm_metas := map (\<lambda>(j, m). (j, if j = i then f m else m)) (dm_metas d),
               dm_live := map (\<lambda>(j, s). (j, if j = i then s_meta_update f s else s)) (dm_live d)\<rparr>"
  have keys: "map fst (dm_metas ?d) = map fst (dm_metas d)" "map fst (dm_live ?d) = map fst (dm_live d)"
    by (simp_all del: map_map)
  have "daemon_ok ?d"
  proof (rule daemon_okI; (unfold keys)?)
    fix j t assume "map_of (dm_live ?d) j = Some t"
    then obtain s where "map_of (dm_live d) j = Some s" "t = (if j = i then s_meta_update f s else s)"
      by (auto simp: map_of_mapped)
    then show "j \<in> set (map fst (dm_metas d)) \<and> turn_ok t" using D(5) by (auto simp del: set_map)
  next
    fix j assume j: "j \<in> set (map fst (dm_metas d))" and "map_of (dm_live ?d) j = None"
    then have "map_of (dm_live d) j = None" by (simp add: map_of_mapped)
    with D(6) [OF j] show "snd (files_of ?d j) = None" by (simp add: files_of_def)
  qed (use D in simp_all)
  from save_ok [OF this] False show ?thesis by (auto simp: edit_meta_def simp del: save_ok)
qed (simp add: edit_meta_def assms)

lemma sendMessageReq_ok:
  assumes "daemon_ok d" and "good_env env"
  shows "daemon_ok (snd (sendMessageReq env i txt prepared atts cid now d))"
proof (cases "getSession (e_renames env) i d")
  case (Inr r)
  obtain s d1 where r: "r = (s, d1)" by (cases r)
  note g = getSession_ok [OF assms(1) Inr [unfolded r]]
  note k = keeps_sendMessage [OF assms(2), of "txt"]
  have "daemon_ok d2" if "run_session i (sendMessage env txt a cid) s d1 = (d2, out)" for a d2 out
    using run_session_ok [OF g k [of a cid]] that by simp
  then show ?thesis using Inr r g(1) edit_meta_ok
    by (auto simp: sendMessageReq_def Let_def split: sum.split prod.split outcome.split)
qed (simp add: sendMessageReq_def assms(1))

definition fresh_id :: "string \<Rightarrow> daemon \<Rightarrow> bool" where
  "fresh_id i d = (i \<notin> set (map fst (dm_metas d)) \<and> map_of (dm_disk d) i = None)"

lemma createSession_ok:
  assumes "daemon_ok d" and "fresh_id i d"
  shows "daemon_ok (snd (createSession i cwd title now d))"
proof -
  note D = daemon_okD [OF assms(1)]
  let ?d = "save_registry (d \<lparr>dm_metas := AList.update i (registry_new i cwd title now d) (dm_metas d)\<rparr>)"
  have f: "i \<notin> fst ` set (dm_metas d)" "snd (files_of d i) = None"
    using assms(2) by (auto simp: fresh_id_def files_of_def)
  have "daemon_ok ?d"
  proof (rule daemon_okI)
    fix j assume "j \<in> set (map fst (dm_metas ?d))" "map_of (dm_live ?d) j = None"
    then show "snd (files_of ?d j) = None"
      using D(6) [of j] f by (auto simp: dom_update files_of_def)
  qed (use D f in \<open>auto simp: distinct_update dom_update\<close>)
  then show ?thesis by (simp add: createSession_def Let_def)
qed

lemma deleteSession_ok:
  assumes "daemon_ok d"
  shows "daemon_ok (snd (deleteSession i d))"
proof -
  note D = daemon_okD [OF assms]
  let ?files = "case map_of (dm_live d) i of None \<Rightarrow> files_of d i | Some s \<Rightarrow> files_in (fst (dispose s))"
  let ?d = "d \<lparr>dm_live := AList.delete i (dm_live d), dm_metas := AList.delete i (dm_metas d),
              dm_disk := AList.update i (AList.delete (activeLogPath i) (fst ?files), snd ?files) (dm_disk d)\<rparr>"
  have h: "hub_ok (forget_session i (dm_hub d))" using hub_do_ok [of "dm_hub d" "Session_deleted i"] D(7) by simp
  have "daemon_ok (save_registry (on_hub (forget_session i) ?d))"
  proof (rule daemon_okI)
    fix j s assume "map_of (dm_live (save_registry (on_hub (forget_session i) ?d))) j = Some s"
    then have "j \<noteq> i" "map_of (dm_live d) j = Some s" by (simp_all add: AList.delete_conv' split: if_splits)
    then show "j \<in> set (map fst (dm_metas (save_registry (on_hub (forget_session i) ?d)))) \<and> turn_ok s"
      using D(5) [of j s] by (auto simp: AList.delete_eq image_iff)
  next
    fix j assume "j \<in> set (map fst (dm_metas (save_registry (on_hub (forget_session i) ?d))))"
      "map_of (dm_live (save_registry (on_hub (forget_session i) ?d))) j = None"
    then have "j \<noteq> i" "j \<in> set (map fst (dm_metas d))" "map_of (dm_live d) j = None"
      by (auto simp: AList.delete_eq AList.delete_conv' [unfolded AList.delete_eq] split: if_splits)
    then show "snd (files_of (save_registry (on_hub (forget_session i) ?d)) j) = None"
      using D(6) [of j] by (simp add: files_of_def update_conv')
  qed (use D h in \<open>auto simp: distinct_update distinct_delete\<close>)
  then show ?thesis by (simp add: deleteSession_def Let_def)
qed

text \<open>A request comes from a connection that is there; a new chat has a new id.\<close>

fun proper :: "request \<Rightarrow> daemon \<Rightarrow> bool" where
  "proper (Req_create i cwd title now) d = fresh_id i d"
| "proper (Req_attach c i since limit) d = (c \<in> set (cl_clients (dm_hub d)))"
| "proper (Req_detach c i) d = (c \<in> set (cl_clients (dm_hub d)))"
| "proper (Req_unfeed c) d = (c \<in> set (cl_clients (dm_hub d)))"
| "proper r d = True"

lemma hub_event_ok: "daemon_ok d \<Longrightarrow> allowed e (dm_hub d) \<Longrightarrow> daemon_ok (on_hub (hub_do e) d)"
  by (rule hub_keeps) (auto dest: daemon_okD intro: hub_do_ok)

lemma getSession_hub: "getSession ren i d = Inr (s, d1) \<Longrightarrow> dm_hub d1 = dm_hub d"
  by (auto simp: getSession_def Let_def split: option.splits)

lemma handleRequest_ok:
  assumes "daemon_ok d" and "proper r d" and g: "\<And>i. good_env (envs i)"
  shows "daemon_ok (snd (handleRequest envs r d))"
proof (cases r)
  case (Req_create i cwd title now)
  then show ?thesis using createSession_ok assms by simp
next
  case (Req_attach c i since limit)
  show ?thesis
  proof (cases "getSession (e_renames (envs i)) i d")
    case (Inr x)
    obtain s d1 where x: "x = (s, d1)" by (cases x)
    have "daemon_ok (on_hub (hub_do (Attach c i)) d1)"
      using hub_event_ok [of d1 "Attach c i"] getSession_ok(1) [OF assms(1) Inr [unfolded x]]
        getSession_hub [OF Inr [unfolded x]] assms(2) Req_attach by simp
    moreover have "hub_do (Attach c i) = attach c i" by (rule ext) simp
    ultimately show ?thesis using Req_attach Inr x by (simp add: attachSession_def Let_def)
  qed (simp add: Req_attach attachSession_def assms(1))
next
  case (Req_detach c i)
  have "hub_do (Detach c i) = detach c i" by (rule ext) simp
  then show ?thesis using hub_event_ok [OF assms(1), of "Detach c i"] Req_detach assms(2) by simp
next
  case (Req_unfeed c)
  have "hub_do (Unfeed c) = unfeed c" by (rule ext) simp
  then show ?thesis using hub_event_ok [OF assms(1), of "Unfeed c"] Req_unfeed assms(2) by simp
next
  case (Req_history i before limit)
  then show ?thesis using getSession_ok(1) [OF assms(1)] assms(1)
    by (auto simp: history_def Let_def split: sum.split)
next
  case (Req_send i w prepared atts cid now)
  then show ?thesis using sendMessageReq_ok assms(1) g by simp
next
  case (Req_move i cwd resolved)
  have "daemon_ok (fst (with_session (envs i) i (moveTo (envs i) resolved) d))"
    by (intro with_session_ok assms(1) session_methods_keep g)
  then show ?thesis using Req_move assms(1)
    by (auto simp: setSessionCwd_def Let_def split: prod.split outcome.split)
next
  case (Req_rename i title)
  then show ?thesis using edit_meta_ok assms(1) by (simp add: renameSession_def Let_def)
next
  case (Req_delete i)
  then show ?thesis using deleteSession_ok assms(1) by simp
next
  case (Req_permission i rid al m an)
  have "daemon_ok (fst (with_session (envs i) i (resolvePermission (envs i) rid al m an) d))"
    by (intro with_session_ok assms(1) session_methods_keep g)
  then show ?thesis using Req_permission by (auto simp: answered_def split: prod.split outcome.split)
next
  case (Req_options i m e f f2)
  have "daemon_ok (snd (started (envs i) i (setOptions (envs i) m e f f2) d))"
    by (intro started_ok assms(1) session_methods_keep g)
  then show ?thesis using Req_options by (auto split: prod.split sum.split)
qed (use assms(1) g in \<open>auto intro!: started_ok session_methods_keep\<close>)

section \<open>The invariant survives a restart\<close>

definition boot_ok :: "daemon \<Rightarrow> bool" where
  "boot_ok d =
     (distinct (map fst (dm_metas d)) \<and> distinct (map fst (dm_live d)) \<and> distinct (map fst (dm_disk d))
      \<and> map fst (dm_saved d) = map fst (dm_metas d)
      \<and> (\<forall>i s. map_of (dm_live d) i = Some s \<longrightarrow> i \<in> set (map fst (dm_metas d)) \<and> turn_ok s)
      \<and> hub_ok (dm_hub d))"

lemma put_session_boot_ok:
  "boot_ok d \<Longrightarrow> i \<in> set (map fst (dm_metas d)) \<Longrightarrow> turn_ok s \<Longrightarrow> boot_ok (put_session i s d)"
  by (auto simp: boot_ok_def distinct_update update_conv' simp del: set_map split: if_splits)

lemma put_session_twice: "put_session i s (put_session i t d) = put_session i s d"
proof -
  have "AList.update i s (AList.update i t m) = AList.update i s m" for m
    by (induction m) auto
  then show ?thesis by (simp add: put_session_def comp_def case_prod_beta)
qed

lemma restore_turn_ok:
  assumes "boot_ok d" and "restorable d i"
  shows "boot_ok (restore_turn envs i d)"
proof (cases "map_of (dm_metas d) i")
  case None
  then show ?thesis using assms(1) by (simp add: restore_turn_def drop_pending_def boot_ok_def distinct_update)
next
  case (Some m)
  then obtain p where p: "map_of (dm_live d) i = None" "snd (files_of d i) = Some (stringify (pending_json p))"
    "num_plain (pt_retryAt p)" using assms(2) by (auto simp: restorable_def)
  have i: "i \<in> set (map fst (dm_metas d))" using Some by (metis map_of_eq_None_iff list.set_map option.distinct(1))
  have "turn_ok (restored (envs i) m (files_of d i) p)"
    by (rule turn_ok_some [of _ p "e_now (envs i) + max 0 (pt_retryAt p - e_now (envs i))"])
       (simp_all only: restored_fields p(2) timer_not_early)
  then show ?thesis unfolding restore_turn_registered [OF Some p] put_session_twice
    by (rule put_session_boot_ok [OF assms(1) i])
qed

lemma restore_fold_ok:
  assumes "boot_ok d" and "distinct is" and "\<forall>i\<in>set is. restorable d i"
  shows "boot_ok (fold (restore_turn envs) is d)
    \<and> (\<forall>j. j \<notin> set is \<longrightarrow> files_of (fold (restore_turn envs) is d) j = files_of d j)
    \<and> (\<forall>j. map_of (dm_metas (fold (restore_turn envs) is d)) j = map_of (dm_metas d) j)"
  using assms
proof (induction "is" arbitrary: d)
  case (Cons i rest)
  let ?d = "restore_turn envs i d"
  have r: "restorable d i" using Cons.prems(3) by simp
  note one = restore_turn_one [OF r [unfolded restorable_def], where envs = envs]
  have "restorable ?d k" if "k \<in> set rest" for k
  proof -
    have "k \<noteq> i" using that Cons.prems(2) by auto
    then show ?thesis using Cons.prems(3) that one(1) [of k] one(2,3) [of k]
      by (simp add: restorable_def)
  qed
  with Cons.IH [of ?d] restore_turn_ok [OF Cons.prems(1) r, of envs] Cons.prems(2)
  have IH: "boot_ok (fold (restore_turn envs) rest ?d)"
    "\<And>j. j \<notin> set rest \<Longrightarrow> files_of (fold (restore_turn envs) rest ?d) j = files_of ?d j"
    "\<And>j. map_of (dm_metas (fold (restore_turn envs) rest ?d)) j = map_of (dm_metas ?d) j" by auto
  show ?case using IH one(1,3) by auto
qed simp

theorem restart_keeps_daemon_ok:
  assumes ok: "daemon_ok d" and plain: "plain_work d" and g: "\<And>i. good_env (envs i)"
  shows "daemon_ok (boot envs' (shutdown envs d))"
proof -
  let ?b = "booting (shutdown envs d)"
  note D = daemon_okD [OF ok] and dd = disk_keys [OF ok, of envs]
  have "boot_ok ?b" using D dd by (simp add: boot_ok_def)
  from restore_fold_ok [OF this distinct_pending_ids [OF dd] booting_restorable [OF ok plain g], where envs = envs']
  have b: "boot_ok (boot envs' (shutdown envs d))"
    and f: "\<And>j. j \<notin> set (pending_ids ?b) \<Longrightarrow> files_of (boot envs' (shutdown envs d)) j = files_of (shutdown envs d) j"
    and m: "\<And>j. map_of (dm_metas (boot envs' (shutdown envs d))) j = map_of (dm_saved d) j"
    by (auto simp: boot_booting)
  show ?thesis
  proof (rule daemon_okI)
    fix i assume i: "i \<in> set (map fst (dm_metas (boot envs' (shutdown envs d))))"
      and n: "map_of (dm_live (boot envs' (shutdown envs d))) i = None"
    have "snd (files_of (shutdown envs d) i) = None"
    proof (rule ccontr)
      assume c: "snd (files_of (shutdown envs d) i) \<noteq> None"
      have "map_of (dm_metas (boot envs' (shutdown envs d))) i \<noteq> None" using i by (auto simp: map_of_eq_None_iff)
      then have r: "i \<in> set (map fst (dm_metas d))"
        unfolding m saved_keys [OF ok] by (auto simp: map_of_eq_None_iff)
      show False
      proof (cases "map_of (dm_live d) i")
        case None
        with c D(6) [OF r None] shutdown_files [OF ok g, where i = i] show False by simp
      next
        case (Some s)
        then show False using c n shutdown_files [OF ok g, where i = i]
            work_survives_restart [OF ok plain g, where envs' = envs' and i = i] by simp
      qed
    qed
    then show "snd (files_of (boot envs' (shutdown envs d)) i) = None"
      using f [of i] set_pending_ids [OF dd, where i = i] by simp
  qed (use b in \<open>auto simp: boot_ok_def simp del: set_map\<close>)
qed

section \<open>Runs of the daemon\<close>

inductive daemon_step :: "daemon \<Rightarrow> daemon \<Rightarrow> bool" where
  asked: "proper r d \<Longrightarrow> (\<And>i. good_env (envs i)) \<Longrightarrow> daemon_step d (snd (handleRequest envs r d))"
| session: "map_of (dm_live d) i = Some s \<Longrightarrow> good_env env \<Longrightarrow>
    daemon_step d (fst (run_session i (run_method c env) s d))"
| client: "allowed e (dm_hub d) \<Longrightarrow> daemon_step d (on_hub (hub_do e) d)"
| restart: "plain_work d \<Longrightarrow> (\<And>i. good_env (envs i)) \<Longrightarrow> daemon_step d (boot envs' (shutdown envs d))"

inductive_cases daemon_stepE: "daemon_step d d'"

definition daemon_init :: daemon where
  "daemon_init = \<lparr>dm_metas = [], dm_saved = [], dm_live = [], dm_disk = [], dm_hub = hub_init\<rparr>"

inductive daemon_reachable :: "daemon \<Rightarrow> bool" where
  first_start: "daemon_reachable daemon_init"
| next_step: "daemon_reachable d \<Longrightarrow> daemon_step d d' \<Longrightarrow> daemon_reachable d'"

lemma daemon_step_ok: "daemon_step d d' \<Longrightarrow> daemon_ok d \<Longrightarrow> daemon_ok d'"
proof (erule daemon_stepE)
  fix r envs
  assume "d' = snd (handleRequest envs r d)" "proper r d" "\<And>i. good_env (envs i)" "daemon_ok d"
  then show "daemon_ok d'" using handleRequest_ok by blast
next
  fix i s env c
  assume e: "d' = fst (run_session i (run_method c env) s d)" and "map_of (dm_live d) i = Some s"
    and "good_env env" and ok: "daemon_ok d"
  then have "i \<in> set (map fst (dm_metas d))" "turn_ok s" using daemon_okD(5) by blast+
  then show "daemon_ok d'" unfolding e
    using run_session_ok [OF ok] run_method_keeps [OF \<open>good_env env\<close>] by blast
next
  fix e assume "d' = on_hub (hub_do e) d" "allowed e (dm_hub d)" "daemon_ok d"
  then show "daemon_ok d'" using hub_event_ok by blast
next
  fix envs envs'
  assume "d' = boot envs' (shutdown envs d)" "plain_work d" "\<And>i. good_env (envs i)" "daemon_ok d"
  then show "daemon_ok d'" using restart_keeps_daemon_ok by blast
qed

theorem daemon_always_ok: "daemon_reachable d \<Longrightarrow> daemon_ok d"
proof (induction rule: daemon_reachable.induct)
  case first_start
  show ?case by (simp add: daemon_ok_def daemon_init_def)
next
  case (next_step d d')
  then show ?case using daemon_step_ok by blast
qed

end
