(* ===== verification/DaemonTheorems.thy ===== *)
theory DaemonTheorems
  imports DaemonProps Samples
begin

text \<open>
  The daemon over its chats and its clients: what a restart resumes, what holds in every run, and
  who is told what.
\<close>

section \<open>A daemon with work\<close>

text \<open>One chat, created and then sent a message.\<close>

definition sample_envs :: "string \<Rightarrow> env" where
  "sample_envs i = sample_env"

definition created_daemon :: daemon where
  "created_daemon = snd (handleRequest sample_envs (Req_create ''a'' ''/w'' (Some ''New session'') 0) daemon_init)"

definition working_daemon :: daemon where
  "working_daemon =
     snd (handleRequest sample_envs (Req_send ''a'' ''hello'' (Inr []) [] None 5) created_daemon)"

lemma sample_envs_good [simp]: "good_env (sample_envs i)"
  by (simp add: sample_envs_def)

lemma working_reachable [simp]: "daemon_reachable working_daemon"
proof -
  have "daemon_step daemon_init created_daemon" unfolding created_daemon_def
    by (rule daemon_step.asked) (simp_all add: fresh_id_def daemon_init_def)
  moreover have "daemon_step created_daemon working_daemon" unfolding working_daemon_def
    by (rule daemon_step.asked) simp_all
  ultimately show ?thesis by (blast intro: daemon_reachable.intros)
qed

lemma on_effect_live: "dm_live (on_effect i e d) = dm_live d"
  by (cases e) (simp_all add: Let_def on_hub_def sessions_changed_def save_registry_def)

lemma effects_live [simp]: "dm_live (fold (on_effect i) es d) = dm_live d"
  by (induction es arbitrary: d) (simp_all add: on_effect_live)

definition created_meta :: session_meta where
  "created_meta = registry_new ''a'' ''/w'' (Some ''New session'') 0 daemon_init"

lemma created_fields [simp]:
  "dm_metas created_daemon = [(''a'', created_meta)]" "dm_live created_daemon = []" "dm_disk created_daemon = []"
  by (simp_all add: created_daemon_def createSession_def Let_def daemon_init_def created_meta_def
      sessions_changed_def on_hub_def save_registry_def)

lemma working_session:
  "\<exists>s. dm_live working_daemon = [(''a'', s)] \<and> s_pending s = None \<and> s_status s = Running"
proof -
  let ?o = "session_open True created_meta [] None"
  let ?r = "sendMessage sample_env ''hello'' [] None ?o"
  have p: "wp (sendMessage sample_env ''hello'' [] None) (delivered_to sample_env ''hello'' [] ?o) ?o"
    by (rule wp_sendMessage [OF sample_good(2) _ reachable_piped [OF reachable.opened]])
       (simp_all add: accepts_def given_def)
  then obtain s where s: "?r = (s, Done)" "s_pending s = None" "s_status s = Running"
    by (cases ?r) (simp add: wp_def delivered_to_def)
  have "getSession True ''a'' created_daemon = Inr (?o, put_session ''a'' ?o created_daemon)"
    by (simp add: getSession_def files_of_def Let_def)
  moreover have "e_renames sample_env" by (simp add: sample_env_def)
  ultimately show ?thesis using s
    by (auto simp: working_daemon_def sendMessageReq_def sample_envs_def Let_def run_session_def edit_meta_def
        save_registry_def split: if_splits)
qed

section \<open>Restarts\<close>

text \<open>
  C2: a restart resumes exactly the work there was. Whatever a daemon has been through, stopping
  it and starting the next one opens the chats that had a parked or a running turn and no others;
  each is running again, with the turn it had parked, or one to be resumed after the restart, and a
  timer that does not fire before that turn is due.
\<close>

theorem restart_resumes_the_work:
  assumes "daemon_reachable d" and "plain_work d" and "\<And>i. good_env (envs i)"
  shows "case Option.bind (map_of (dm_live d) i) (parked_work (envs i)) of
      None \<Rightarrow> map_of (dm_live (boot envs' (shutdown envs d))) i = None
    | Some p \<Rightarrow> \<exists>s'. map_of (dm_live (boot envs' (shutdown envs d))) i = Some s'
        \<and> s_pending s' = Some p \<and> s_status s' = Running \<and> s_retries s' = pt_attempts p
        \<and> s_retryTimer s' = Some (e_now (envs' i) + max 0 (pt_retryAt p - e_now (envs' i)))
        \<and> s_file s' = Some (stringify (pending_json p))"
proof (cases "Option.bind (map_of (dm_live d) i) (parked_work (envs i))")
  case None
  then show ?thesis
    using work_survives_restart [OF daemon_always_ok [OF assms(1)] assms(2,3), where envs' = envs' and i = i]
    by (auto simp: bind_eq_None_conv split: option.splits)
next
  case (Some p)
  then obtain s where s: "map_of (dm_live d) i = Some s" "parked_work (envs i) s = Some p" by (auto simp: bind_eq_Some_conv)
  then show ?thesis using Some
      work_survives_restart [OF daemon_always_ok [OF assms(1)] assms(2,3), where envs' = envs' and i = i]
      shutdown_files [OF daemon_always_ok [OF assms(1)] assms(3), where i = i]
    by simp
qed

theorem restart_resumes_the_work_witness:
  "\<exists>s'. map_of (dm_live (boot sample_envs (shutdown sample_envs working_daemon))) ''a'' = Some s'
    \<and> s_pending s' = Some (restart_turn sample_env)"
proof -
  obtain s where s: "dm_live working_daemon = [(''a'', s)]" "s_pending s = None" "s_status s = Running"
    using working_session by blast
  then have "plain_work working_daemon" by (auto simp: plain_work_def)
  note r = restart_resumes_the_work
    [OF working_reachable this, where envs = "\<lambda>i. sample_env" and i = "''a''" and envs' = sample_envs]
  have "sample_envs = (\<lambda>i. sample_env)" by (rule ext) (simp add: sample_envs_def)
  with r s show ?thesis by (auto simp: parked_work_def busy_def)
qed

text \<open>
  C3: in every run of requests, timers, answers of Claude, connections and restarts, the chats of
  the registry have distinct ids and its file holds the same ones; every live session is one of
  them and what it has parked is what its file holds, with a timer; a chat that is not live has
  nothing parked; and every subscription is of a connection that is there and asked for it.
\<close>

theorem daemon_invariant: "daemon_reachable d \<Longrightarrow> daemon_ok d"
  by (rule daemon_always_ok)

theorem daemon_invariant_witness: "daemon_ok working_daemon"
  using daemon_invariant [OF working_reachable] .

section \<open>Connections\<close>

text \<open>
  C18: an event of a chat reaches each connection once, if the connection's requests so far have it
  follow that chat, or if it asked for the feed and the event is news; it reaches no other
  connection, and none that has gone.
\<close>

theorem event_reaches_each_follower_once:
  assumes "hub_run es h"
  shows "\<exists>cs. cl_sent (broadcast i m h) = cl_sent h @ map (\<lambda>c. (c, m)) cs \<and> set cs \<subseteq> set (cl_clients h)
    \<and> (\<forall>c. count_list cs c = (if (c, i) \<in> follows es \<or> feed_news m \<and> c \<in> set (cl_feed h) then 1 else 0))"
  using broadcast_once [OF hub_run_ok [OF assms], of i m] subscriptions_follow_requests [OF assms] by simp

theorem event_reaches_each_follower_once_witness:
  "\<exists>h. hub_run [Opened 1, Attach 1 ''a''] h
    \<and> (\<exists>cs. cl_sent (broadcast ''a'' Sessions_changed_msg h) = cl_sent h @ map (\<lambda>c. (c, Sessions_changed_msg)) cs
         \<and> count_list cs 1 = 1)"
proof -
  have r: "hub_run ([] @ [Opened 1] @ [Attach 1 ''a'']) (hub_do (Attach 1 ''a'') (hub_do (Opened 1) hub_init))"
    by (simp only: append_assoc [symmetric])
       (rule hub_run.intros hub_run.nothing | simp add: hub_init_def openClient_def)+
  then have r': "hub_run [Opened 1, Attach 1 ''a''] (hub_do (Attach 1 ''a'') (hub_do (Opened 1) hub_init))" by simp
  from event_reaches_each_follower_once [OF this, of "''a''" Sessions_changed_msg]
  have "\<exists>cs. cl_sent (broadcast ''a'' Sessions_changed_msg (hub_do (Attach 1 ''a'') (hub_do (Opened 1) hub_init)))
        = cl_sent (hub_do (Attach 1 ''a'') (hub_do (Opened 1) hub_init)) @ map (\<lambda>c. (c, Sessions_changed_msg)) cs
      \<and> count_list cs 1 = 1" by (auto simp: follows_def)
  with r' show ?thesis by blast
qed

end
