(* ===== verification/Push.thy ===== *)
theory Push
  imports StateFile Transcript Evidence
begin

text \<open>
  Phone notifications (\<open>push.ts\<close>): the notice an event deserves, the registered phones and the
  file they are kept in, the set of announced requests, and what is made of Google's answers. The
  HTTP exchanges and the signature are the surroundings: their answers are arguments, and each
  send that is started is an output.
\<close>

section \<open>Notices\<close>

datatype notice_kind = Attention | Finished | Resolved

record push_notice =
  pn_kind :: notice_kind
  pn_session :: string
  pn_title :: string
  pn_text :: string
  pn_request :: "string option"

definition DETAIL_KEYS :: "string list" where
  "DETAIL_KEYS = [''command'', ''file_path'', ''path'', ''url'', ''pattern'', ''query'', ''description'', ''prompt'']"

definition said :: "jsval \<Rightarrow> string \<Rightarrow> string option" where
  "said v k = (case js_prop v k of JStr s \<Rightarrow> if trim s \<noteq> [] then Some s else None | _ \<Rightarrow> None)"

definition toolDetail :: "jsval \<Rightarrow> string" where
  "toolDetail input =
     (case List.map_filter (said input) DETAIL_KEYS of
        [] \<Rightarrow> []
      | s # _ \<Rightarrow> take 140 (collapse_ws (trim s)))"

text \<open>\<open>questions[0]?.question\<close>.\<close>

fun first_question :: "jsval \<Rightarrow> string" where
  "first_question (JArr (q # qs)) = (case js_prop q ''question'' of JStr t \<Rightarrow> t | _ \<Rightarrow> [])"
| "first_question v = []"

definition or_else :: "string \<Rightarrow> string \<Rightarrow> string" where
  "or_else a b = (if a = [] then b else a)"

definition first_line :: "string \<Rightarrow> string" where
  "first_line summ =
     (case filter (\<lambda>l. trim l \<noteq> []) (split_char newline summ) of [] \<Rightarrow> [] | l # _ \<Rightarrow> take 200 l)"

definition notice :: "notice_kind \<Rightarrow> string \<Rightarrow> string \<Rightarrow> string \<Rightarrow> string option \<Rightarrow> push_notice" where
  "notice k sid title text rid =
     \<lparr>pn_kind = k, pn_session = sid, pn_title = title, pn_text = text, pn_request = rid\<rparr>"

fun noticeFor :: "string \<Rightarrow> string \<Rightarrow> chat_event \<Rightarrow> push_notice option" where
  "noticeFor sid chatTitle (Permission_request rid name inp) =
     Some (notice Attention sid (or_else (trim chatTitle) ''Claude'')
       (''Allow '' @ name @ ''?'' @ (if toolDetail inp = [] then [] else '' '' @ toolDetail inp)) (Some rid))"
| "noticeFor sid chatTitle (Question_request rid qs) =
     Some (notice Attention sid (or_else (trim chatTitle) ''Claude'')
       (or_else (first_question qs) ''Claude asked you a question'') (Some rid))"
| "noticeFor sid chatTitle (Permission_resolved rid allowed answers) =
     Some (notice Resolved sid (or_else (trim chatTitle) ''Claude'') [] (Some rid))"
| "noticeFor sid chatTitle (Result_event summ cost dur ctx win turn) =
     Some (notice Finished sid (or_else (trim chatTitle) ''Claude'') (or_else (first_line summ) ''Finished'') None)"
| "noticeFor sid chatTitle e = None"

section \<open>The registered phones\<close>

type_synonym tokens = "(string \<times> notice_kind list) list"

definition ALL_KINDS :: "notice_kind list" where
  "ALL_KINDS = [Attention, Finished]"

fun kind_name :: "notice_kind \<Rightarrow> string" where
  "kind_name Attention = ''attention''"
| "kind_name Finished = ''done''"
| "kind_name Resolved = ''resolved''"

fun kinds :: "jsval \<Rightarrow> notice_kind list" where
  "kinds (JArr vs) = filter (\<lambda>k. JStr (kind_name k) \<in> set vs) ALL_KINDS"
| "kinds v = ALL_KINDS"

fun load_token :: "jsval \<Rightarrow> tokens \<Rightarrow> tokens" where
  "load_token (JStr t) m = (if t = [] then m else AList.update t ALL_KINDS m)"
| "load_token (JObj fs) m =
     (case js_prop (JObj fs) ''token'' of
        JStr t \<Rightarrow> AList.update t (kinds (js_prop (JObj fs) ''kinds'')) m
      | _ \<Rightarrow> m)"
| "load_token v m = m"

text \<open>The constructor; an absent or unreadable file leaves no phones.\<close>

definition read_tokens :: "string \<Rightarrow> tokens option" where
  "read_tokens raw =
     (case json_parse raw of
        None \<Rightarrow> None
      | Some (JArr vs) \<Rightarrow> Some (fold load_token vs [])
      | Some v \<Rightarrow> Some [])"

definition tokens_open :: "string option \<Rightarrow> tokens" where
  "tokens_open bytes =
     (case bytes of
        None \<Rightarrow> []
      | Some b \<Rightarrow> (case read_tokens (utf8_decode b) of None \<Rightarrow> [] | Some m \<Rightarrow> m))"

definition token_json :: "string \<times> notice_kind list \<Rightarrow> jsval" where
  "token_json e = JObj [(''token'', JStr (fst e)), (''kinds'', JArr (map (JStr \<circ> kind_name) (snd e)))]"

definition tokens_text :: "tokens \<Rightarrow> string" where
  "tokens_text m = stringify (JArr (map token_json m))"

definition save_tokens :: "progress \<Rightarrow> string \<Rightarrow> tokens \<Rightarrow> log_dir \<Rightarrow> log_dir" where
  "save_tokens p name m dir = replace_file p (name @ ''.tmp'') name (utf8_encode (tokens_text m)) dir"

definition wanting :: "notice_kind \<Rightarrow> tokens \<Rightarrow> string list" where
  "wanting k m = map fst (filter (\<lambda>(t, ks). k \<in> set ks) m)"

text \<open>Both answer whether anything changed; only then is the file written.\<close>

definition same_kinds :: "notice_kind list \<Rightarrow> notice_kind list \<Rightarrow> bool" where
  "same_kinds had ks = (length had = length ks \<and> list_all (\<lambda>k. k \<in> set ks) had)"

definition add :: "string \<Rightarrow> notice_kind list \<Rightarrow> tokens \<Rightarrow> bool \<times> tokens" where
  "add t ks m =
     (if t = [] then (False, m)
      else case map_of m t of
        Some had \<Rightarrow> if same_kinds had ks then (False, m) else (True, AList.update t ks m)
      | None \<Rightarrow> (True, AList.update t ks m))"

definition remove :: "string \<Rightarrow> tokens \<Rightarrow> bool \<times> tokens" where
  "remove t m = (if map_of m t = None then (False, m) else (True, AList.delete t m))"

section \<open>Deciding and sending\<close>

text \<open>
  The sender's state: the phones and the announced requests, a JavaScript \<open>Set\<close> in insertion
  order. An event starts one send per phone it is for; the answers come back later, in any order.
\<close>

record push_state =
  ps_tokens :: tokens
  ps_announced :: "string list"

definition MAX_ANNOUNCED :: nat where "MAX_ANNOUNCED = 500"

definition set_add :: "'a \<Rightarrow> 'a list \<Rightarrow> 'a list" where
  "set_add x xs = (if x \<in> set xs then xs else xs @ [x])"

definition announce :: "string \<Rightarrow> string list \<Rightarrow> string list" where
  "announce key xs = (let ys = set_add key xs in if MAX_ANNOUNCED < length ys then tl ys else ys)"

definition notice_key :: "push_notice \<Rightarrow> string" where
  "notice_key n = pn_session n @ '':'' @ (case pn_request n of None \<Rightarrow> [] | Some r \<Rightarrow> r)"

definition on_notice :: "push_notice \<Rightarrow> push_state \<Rightarrow> push_state \<times> (string \<times> push_notice) list" where
  "on_notice n s =
     (let key = notice_key n in
      if pn_kind n = Resolved then
        (if key \<in> set (ps_announced s)
         then (s \<lparr>ps_announced := remove1 key (ps_announced s)\<rparr>,
               map (\<lambda>t. (t, n)) (wanting Attention (ps_tokens s)))
         else (s, []))
      else
        (let recipients = wanting (pn_kind n) (ps_tokens s) in
         ((if pn_kind n = Attention \<and> recipients \<noteq> []
           then s \<lparr>ps_announced := announce key (ps_announced s)\<rparr> else s),
          map (\<lambda>t. (t, n)) recipients)))"

definition onEvent ::
    "bool \<Rightarrow> string \<Rightarrow> string \<Rightarrow> chat_event \<Rightarrow> push_state \<Rightarrow> push_state \<times> (string \<times> push_notice) list" where
  "onEvent enabled sid title e s =
     (if \<not> enabled then (s, [])
      else case noticeFor sid title e of None \<Rightarrow> (s, []) | Some n \<Rightarrow> on_notice n s)"

datatype send_result = Sent | Gone | Failed string

definition sendAnswered :: "string \<Rightarrow> send_result \<Rightarrow> push_state \<Rightarrow> push_state" where
  "sendAnswered t r s = (if r = Gone then s \<lparr>ps_tokens := snd (remove t (ps_tokens s))\<rparr> else s)"

definition register :: "string \<Rightarrow> jsval \<Rightarrow> push_state \<Rightarrow> push_state" where
  "register t ks s = s \<lparr>ps_tokens := snd (add t (kinds ks) (ps_tokens s))\<rparr>"

definition unregister :: "string \<Rightarrow> push_state \<Rightarrow> push_state" where
  "unregister t s = s \<lparr>ps_tokens := snd (remove t (ps_tokens s))\<rparr>"

section \<open>What Google is told, and its answers\<close>

record service_account =
  sa_project_id :: jsval
  sa_client_email :: jsval
  sa_private_key :: jsval
  sa_token_uri :: jsval

text \<open>\<open>fromFile\<close>: no sender without all three members.\<close>

definition fromFile :: "string option \<Rightarrow> service_account option" where
  "fromFile raw =
     (case Option.bind raw json_parse of
        None \<Rightarrow> None
      | Some JNull \<Rightarrow> None
      | Some a \<Rightarrow>
          if \<not> js_truthy (js_prop a ''project_id'') \<or> \<not> js_truthy (js_prop a ''client_email'')
             \<or> \<not> js_truthy (js_prop a ''private_key'') then None
          else Some \<lparr>sa_project_id = js_prop a ''project_id'', sa_client_email = js_prop a ''client_email'',
                     sa_private_key = js_prop a ''private_key'', sa_token_uri = js_prop a ''token_uri''\<rparr>)"

definition fcm_message :: "string \<Rightarrow> push_notice \<Rightarrow> jsval" where
  "fcm_message token n =
     (let k = pn_kind n in
      JObj
        [(''token'', JStr token),
         (''data'', JObj
            ([(''kind'', JStr (kind_name k)), (''sessionId'', JStr (pn_session n)),
              (''title'', JStr (pn_title n)), (''text'', JStr (pn_text n))]
             @ (case pn_request n of None \<Rightarrow> [] | Some r \<Rightarrow> if r = [] then [] else [(''requestId'', JStr r)]))),
         (''android'', JObj
            [(''priority'', JStr (if k = Finished then ''NORMAL'' else ''HIGH'')),
             (''ttl'', JStr (if k = Finished then ''1800s'' else ''86400s'')),
             (''collapse_key'', JStr (pn_session n @ '':''
                @ kind_name (if k = Resolved then Attention else k)))])])"

text \<open>The cached access token and when it stops being used.\<close>

type_synonym access = "(jsval \<times> num) option"

definition cached_token :: "time_ms \<Rightarrow> access \<Rightarrow> jsval option" where
  "cached_token now a =
     (case a of None \<Rightarrow> None | Some (tok, until) \<Rightarrow> if now + 60000 < until then Some tok else None)"

text \<open>The answer to the sign-in: its status and its text. \<open>expires_in\<close> counts seconds.\<close>

definition signed_in :: "time_ms \<Rightarrow> nat \<Rightarrow> string \<Rightarrow> access \<Rightarrow> (string + jsval) \<times> access" where
  "signed_in now status text a =
     (if status \<noteq> 200
      then (Inl (''google sign-in answered '' @ show_nat status @ '': '' @ take 200 text), a)
      else case json_parse text of
        None \<Rightarrow> (Inl ''not JSON'', a)
      | Some body \<Rightarrow>
          (let tok = js_prop body ''access_token'';
               secs = (case js_prop body ''expires_in'' of JNum n \<Rightarrow> n | _ \<Rightarrow> 3600)
           in (Inr tok, Some (tok, now + secs * 1000))))"

definition gone_text :: "string \<Rightarrow> bool" where
  "gone_text t =
     (contains t ''UNREGISTERED'' \<or> contains t ''registration-token-not-registered''
      \<or> contains t ''not a valid FCM registration token'')"

definition send_answer :: "nat \<Rightarrow> string \<Rightarrow> access \<Rightarrow> send_result \<times> access" where
  "send_answer status text a =
     (if status = 200 then (Sent, a)
      else if status = 404 \<or> gone_text text then (Gone, a)
      else (Failed (''push answered '' @ show_nat status @ '': '' @ take 200 text),
            if status = 401 then None else a))"

section \<open>The phones survive a restart\<close>

definition tokens_fit :: "tokens \<Rightarrow> bool" where
  "tokens_fit m = (om_wf m \<and> list_all (\<lambda>(t, ks). ks = filter (\<lambda>k. k \<in> set ks) ALL_KINDS) m)"

lemma kind_name_inject [simp]: "kind_name a = kind_name b \<longleftrightarrow> a = b"
  by (cases a; cases b) simp_all

lemma kinds_json: "kinds (JArr (map (JStr \<circ> kind_name) ks)) = filter (\<lambda>k. k \<in> set ks) ALL_KINDS"
proof -
  have "JStr (kind_name k) \<in> set (map (JStr \<circ> kind_name) ks) \<longleftrightarrow> k \<in> set ks" for k by auto
  then show ?thesis by (simp only: kinds.simps)
qed

lemma kinds_fit: "kinds v = filter (\<lambda>k. k \<in> set (kinds v)) ALL_KINDS"
proof (cases v)
  case (JArr vs)
  then show ?thesis by (auto intro: filter_cong)
qed simp_all

lemma fold_load_token:
  "list_all (\<lambda>(t, ks). ks = filter (\<lambda>k. k \<in> set ks) ALL_KINDS) es \<Longrightarrow> distinct (map fst (m @ es)) \<Longrightarrow>
   fold load_token (map token_json es) m = m @ es"
proof (induction es arbitrary: m)
  case (Cons e es)
  obtain t ks where e: "e = (t, ks)" by fastforce
  have "t \<notin> fst ` set m" using Cons.prems(2) e by auto
  then have "AList.update t ks m = m @ [(t, ks)]" by (induction m) auto
  moreover have "kinds (JArr (map (JStr \<circ> kind_name) ks)) = ks" using Cons.prems(1) e kinds_json [of ks] by simp
  ultimately have "load_token (token_json e) m = m @ [e]" using e by (simp add: token_json_def)
  with Cons e show ?case by simp
qed simp

interpretation pt: stored tokens_text read_tokens tokens_fit
proof unfold_locales
  fix m assume "tokens_fit m"
  then have m: "om_wf m" "list_all (\<lambda>(t, ks). ks = filter (\<lambda>k. k \<in> set ks) ALL_KINDS) m"
    by (simp_all add: tokens_fit_def)
  have "json_plain (JArr (map token_json m))" by (auto simp: token_json_def)
  from json_roundtrip [OF this] have "json_parse (tokens_text m) = Some (JArr (map token_json m))"
    by (simp only: tokens_text_def)
  then show "read_tokens (tokens_text m) = Some m"
    using fold_load_token [OF m(2), of "[]"] m(1) by (simp add: read_tokens_def om_wf_def)
qed

lemma add_fit: "tokens_fit m \<Longrightarrow> tokens_fit (snd (add t (kinds v) m))"
proof -
  assume m: "tokens_fit m"
  have "set (AList.update t (kinds v) m) \<subseteq> insert (t, kinds v) (set m)" by (induction m) auto
  with m kinds_fit [of v] show ?thesis
    by (auto simp: add_def tokens_fit_def om_wf_def distinct_update list_all_iff split: option.split)
qed

lemma remove_fit: "tokens_fit m \<Longrightarrow> tokens_fit (snd (remove t m))"
  by (auto simp: remove_def tokens_fit_def om_wf_def list_all_iff AList.delete_eq distinct_map_filter)

lemma load_token_fit: "tokens_fit m \<Longrightarrow> tokens_fit (load_token v m)"
proof (induction v m rule: load_token.induct)
  case (1 t m)
  have "set (AList.update t ALL_KINDS m) \<subseteq> insert (t, ALL_KINDS) (set m)" by (induction m) auto
  with 1 show ?case
    by (auto simp: tokens_fit_def om_wf_def distinct_update list_all_iff intro!: filter_True [symmetric])
next
  case (2 fs m)
  have "set (AList.update t ks m) \<subseteq> insert (t, ks) (set m)" for t ks by (induction m) auto
  then have "tokens_fit (AList.update t (kinds v) m)" for t v
    using 2 kinds_fit [of v] by (fastforce simp: tokens_fit_def om_wf_def distinct_update list_all_iff)
  then show ?case using 2 by (auto split: jsval.split)
qed simp_all

section \<open>Runs\<close>

datatype push_op =
    Op_event string string chat_event
  | Op_answer string send_result
  | Op_register string jsval
  | Op_unregister string

fun push_step :: "push_op \<Rightarrow> push_state \<Rightarrow> push_state \<times> (string \<times> push_notice) list" where
  "push_step (Op_event sid title e) s = onEvent True sid title e s"
| "push_step (Op_answer t r) s = (sendAnswered t r s, [])"
| "push_step (Op_register t ks) s = (register t ks s, [])"
| "push_step (Op_unregister t) s = (unregister t s, [])"

text \<open>A run from a daemon's start: each of its steps, and what that step sent to which phone.\<close>

type_synonym push_log = "(push_op \<times> (string \<times> push_notice) list) list"

inductive push_trace :: "push_state \<Rightarrow> push_log \<Rightarrow> bool" where
  start: "tokens_fit m \<Longrightarrow> push_trace \<lparr>ps_tokens = m, ps_announced = []\<rparr> []"
| step: "push_trace s run \<Longrightarrow> push_step oper s = (s', out) \<Longrightarrow> push_trace s' (run @ [(oper, out)])"

text \<open>A step told one phone, or any phone, this about a request.\<close>

definition sent_to :: "string \<Rightarrow> notice_kind \<Rightarrow> string \<Rightarrow> (string \<times> push_notice) list \<Rightarrow> bool" where
  "sent_to t k key out = (\<exists>(u, n)\<in>set out. u = t \<and> pn_kind n = k \<and> notice_key n = key)"

definition told :: "notice_kind \<Rightarrow> string \<Rightarrow> (string \<times> push_notice) list \<Rightarrow> bool" where
  "told k key out = (\<exists>(t, n)\<in>set out. pn_kind n = k \<and> notice_key n = key)"

text \<open>A step by which a phone registers for the requests.\<close>

fun registers :: "string \<Rightarrow> push_op \<Rightarrow> bool" where
  "registers t (Op_register u ks) = (u = t \<and> Attention \<in> set (kinds ks))"
| "registers t _ = False"

text \<open>
  The request was put to the phones in the j-th step and not called settled since; and what one
  phone had to do with it: it was told then, or registered later.
\<close>

definition put_at :: "string \<Rightarrow> push_log \<Rightarrow> nat \<Rightarrow> bool" where
  "put_at key run j =
     (j < length run \<and> told Attention key (snd (run ! j))
      \<and> (\<forall>i. j < i \<and> i < length run \<longrightarrow> \<not> told Resolved key (snd (run ! i))))"

definition told_or_late :: "string \<Rightarrow> string \<Rightarrow> push_log \<Rightarrow> nat \<Rightarrow> bool" where
  "told_or_late t key run j =
     (sent_to t Attention key (snd (run ! j)) \<or> (\<exists>i. j < i \<and> i < length run \<and> registers t (fst (run ! i))))"

lemma told_sent: "told k key out \<longleftrightarrow> (\<exists>t. sent_to t k key out)"
  by (auto simp: told_def sent_to_def)

lemma put_at_snoc: "put_at key run j \<Longrightarrow> \<not> told Resolved key (snd x) \<Longrightarrow> put_at key (run @ [x]) j"
  by (auto simp: put_at_def nth_append less_Suc_eq)

lemma told_or_late_snoc:
  assumes "j < length run" and "told_or_late t key run j \<or> registers t (fst x)"
  shows "told_or_late t key (run @ [x]) j"
proof (cases "registers t (fst x)")
  case True
  with assms(1) show ?thesis
    unfolding told_or_late_def by (intro disjI2 exI [of _ "length run"]) simp
next
  case False
  with assms show ?thesis
    by (auto simp: told_or_late_def nth_append intro: less_SucI)
qed

definition request_known :: "push_state \<Rightarrow> push_log \<Rightarrow> string \<Rightarrow> bool" where
  "request_known s run key =
     (\<exists>j. put_at key run j \<and> (\<forall>t\<in>set (wanting Attention (ps_tokens s)). told_or_late t key run j))"

lemma request_known_new:
  assumes "told Attention key out"
    and "\<And>t. t \<in> set (wanting Attention (ps_tokens s)) \<Longrightarrow> sent_to t Attention key out"
  shows "request_known s (run @ [(oper, out)]) key"
  unfolding request_known_def
  by (rule exI [of _ "length run"]) (use assms in \<open>auto simp: put_at_def told_or_late_def\<close>)

lemma request_known_old:
  assumes "request_known s run key" and "\<not> told Resolved key out"
    and "\<And>t. t \<in> set (wanting Attention (ps_tokens s')) \<Longrightarrow> t \<in> set (wanting Attention (ps_tokens s)) \<or> registers t oper"
  shows "request_known s' (run @ [(oper, out)]) key"
proof -
  obtain j where j: "put_at key run j" "\<forall>t\<in>set (wanting Attention (ps_tokens s)). told_or_late t key run j"
    using assms(1) by (auto simp: request_known_def)
  moreover have l: "j < length run" using j(1) by (simp add: put_at_def)
  moreover have "told_or_late t key (run @ [(oper, out)]) j" if "t \<in> set (wanting Attention (ps_tokens s'))" for t
    using told_or_late_snoc [OF l] assms(3) [OF that] j(2) by fastforce
  ultimately show ?thesis
    unfolding request_known_def using put_at_snoc [of key run j "(oper, out)"] assms(2) by auto
qed

text \<open>A step adds nobody to the phones that show requests but the one that registers for them.\<close>

lemma wanting_iff: "t \<in> set (wanting k m) \<longleftrightarrow> (\<exists>ks. (t, ks) \<in> set m \<and> k \<in> set ks)"
  by (force simp: wanting_def)

lemma wanting_remove: "t \<in> set (wanting k (snd (remove u m))) \<Longrightarrow> t \<in> set (wanting k m)"
  by (auto simp: remove_def wanting_iff AList.delete_eq split: if_splits)

lemma wanting_add:
  assumes "t \<in> set (wanting k (snd (add u ks m)))"
  shows "t \<in> set (wanting k m) \<or> (t = u \<and> k \<in> set ks)"
proof -
  have "set (AList.update u ks m) \<subseteq> insert (u, ks) (set m)" by (induction m) auto
  with assms show ?thesis by (auto simp: add_def wanting_iff split: if_splits option.splits)
qed

lemma onEvent_tokens: "onEvent b sid title e s = (s', out) \<Longrightarrow> ps_tokens s' = ps_tokens s"
  by (auto simp: onEvent_def on_notice_def Let_def split: option.splits if_splits)

lemma wanting_step:
  assumes "push_step oper s = (s', out)" and "t \<in> set (wanting Attention (ps_tokens s'))"
  shows "t \<in> set (wanting Attention (ps_tokens s)) \<or> registers t oper"
proof (cases oper)
  case (Op_register u ks)
  with assms show ?thesis by (auto simp: register_def dest!: wanting_add)
qed (use assms wanting_remove [of t Attention] in
      \<open>auto simp: sendAnswered_def unregister_def dest: onEvent_tokens split: if_splits\<close>)

text \<open>What one step does to the announced requests and what it sends.\<close>

definition push_inv :: "push_state \<Rightarrow> push_log \<Rightarrow> bool" where
  "push_inv s run =
     (distinct (ps_announced s) \<and> length (ps_announced s) \<le> MAX_ANNOUNCED \<and> tokens_fit (ps_tokens s)
      \<and> (\<forall>key\<in>set (ps_announced s). request_known s run key))"

lemma announce_facts:
  assumes "distinct xs" and "length xs \<le> MAX_ANNOUNCED"
  shows "distinct (announce k xs)" and "length (announce k xs) \<le> MAX_ANNOUNCED"
    and "set (announce k xs) \<subseteq> insert k (set xs)"
proof -
  have "set (tl ys) \<subseteq> set ys" for ys :: "string list" by (cases ys) auto
  with assms show "distinct (announce k xs)" and "length (announce k xs) \<le> MAX_ANNOUNCED"
    and "set (announce k xs) \<subseteq> insert k (set xs)"
    by (fastforce simp: announce_def set_add_def Let_def distinct_tl split: if_splits)+
qed

text \<open>A notice, step by step: who is sent it, and which requests are remembered after it.\<close>

lemma on_notice_sends:
  assumes "on_notice n s = (s', out)"
  shows "out = (if pn_kind n = Resolved \<and> notice_key n \<notin> set (ps_announced s) then []
                else map (\<lambda>t. (t, n)) (wanting (if pn_kind n = Resolved then Attention else pn_kind n) (ps_tokens s)))"
    and "told k key out \<Longrightarrow> pn_kind n = k \<and> notice_key n = key"
  using assms by (auto simp: on_notice_def Let_def told_def split: if_splits)

lemma on_notice_keeps:
  assumes "on_notice n s = (s', out)" and "distinct (ps_announced s)"
    and "length (ps_announced s) \<le> MAX_ANNOUNCED"
  shows "distinct (ps_announced s')" and "length (ps_announced s') \<le> MAX_ANNOUNCED"
    and "ps_tokens s' = ps_tokens s"
    and "pn_kind n = Resolved \<Longrightarrow> set (ps_announced s') = set (ps_announced s) - {notice_key n}"
    and "x \<in> set (ps_announced s') \<Longrightarrow> x \<in> set (ps_announced s)
           \<or> (pn_kind n = Attention \<and> x = notice_key n \<and> wanting Attention (ps_tokens s) \<noteq> [])"
  using assms announce_facts [OF assms(2,3), of "notice_key n"]
  by (auto simp: on_notice_def Let_def length_remove1 split: if_splits)

lemma on_notice_inv:
  assumes inv: "push_inv s run" and on: "on_notice n s = (s', out)"
    and st: "push_step oper s = (s', out)"
  shows "push_inv s' (run @ [(oper, out)])"
proof -
  have d: "distinct (ps_announced s)" "length (ps_announced s) \<le> MAX_ANNOUNCED" "tokens_fit (ps_tokens s)"
    and p: "\<And>x. x \<in> set (ps_announced s) \<Longrightarrow> request_known s run x"
    using inv by (auto simp: push_inv_def)
  note k = on_notice_keeps [OF on d(1,2)]
  have "request_known s' (run @ [(oper, out)]) x" if x: "x \<in> set (ps_announced s')" for x
  proof (cases "x \<in> set (ps_announced s)")
    case True
    have "\<not> told Resolved x out" using on_notice_sends(2) [OF on, of Resolved x] k(4) x by auto
    with p [OF True] show ?thesis by (rule request_known_old) (rule wanting_step [OF st])
  next
    case False
    with k(5) [OF x] have n: "pn_kind n = Attention" "x = notice_key n" "wanting Attention (ps_tokens s) \<noteq> []"
      by auto
    then have out: "out = map (\<lambda>t. (t, n)) (wanting Attention (ps_tokens s))"
      using on_notice_sends(1) [OF on] by simp
    with n have s: "t \<in> set (wanting Attention (ps_tokens s)) \<Longrightarrow> sent_to t Attention x out" for t
      by (auto simp: sent_to_def)
    have "told Attention x out" using s n(3) told_sent by (metis list.set_intros(1) neq_Nil_conv)
    then show ?thesis by (rule request_known_new) (use s k(3) in simp)
  qed
  with k(1-3) d(3) show ?thesis by (simp add: push_inv_def)
qed

lemma quiet_push_inv:
  assumes "push_inv s run" and "push_step oper s = (s', [])" and "ps_announced s' = ps_announced s"
    and "tokens_fit (ps_tokens s')"
  shows "push_inv s' (run @ [(oper, [])])"
  using assms by (auto simp: push_inv_def told_def intro!: request_known_old [of s] dest: wanting_step)

lemma push_step_inv:
  assumes inv: "push_inv s run" and st: "push_step oper s = (s', out)"
  shows "push_inv s' (run @ [(oper, out)])"
proof (cases oper)
  case (Op_event sid title e)
  show ?thesis
  proof (cases "noticeFor sid title e")
    case None
    with st Op_event have "out = []" "s' = s" by (simp_all add: onEvent_def)
    with quiet_push_inv [OF inv] st inv show ?thesis by (simp add: push_inv_def)
  next
    case (Some n)
    with st Op_event have "on_notice n s = (s', out)" by (simp add: onEvent_def)
    from on_notice_inv [OF inv this st] show ?thesis .
  qed
qed (use quiet_push_inv [OF inv] st inv add_fit remove_fit in
      \<open>auto simp: push_inv_def sendAnswered_def register_def unregister_def\<close>)

lemma push_trace_inv: "push_trace s run \<Longrightarrow> push_inv s run"
  by (induction rule: push_trace.induct) (auto simp: push_inv_def MAX_ANNOUNCED_def dest: push_step_inv [rotated])

text \<open>
  A notice that a request is settled: it is for a request that is remembered, is forgotten by it,
  and goes to the phones that show requests.
\<close>

lemma settled_step:
  assumes inv: "push_inv s run" and st: "push_step oper s = (s', out)" and t: "sent_to t Resolved key out"
  shows "key \<in> set (ps_announced s) \<and> key \<notin> set (ps_announced s')
    \<and> map fst out = wanting Attention (ps_tokens s)"
proof -
  obtain n where on: "on_notice n s = (s', out)" using st t
    by (cases oper) (auto simp: onEvent_def sent_to_def split: option.splits)
  have n: "pn_kind n = Resolved" "notice_key n = key"
    using on_notice_sends(2) [OF on, of Resolved key] t told_sent by auto
  then have "notice_key n \<in> set (ps_announced s)" "map fst out = wanting Attention (ps_tokens s)"
    using on_notice_sends(1) [OF on] t by (auto simp: sent_to_def comp_def split: if_splits)
  moreover have "distinct (ps_announced s)" "length (ps_announced s) \<le> MAX_ANNOUNCED"
    using inv by (auto simp: push_inv_def)
  ultimately show ?thesis using on_notice_keeps(4) [OF on] n by simp
qed

text \<open>A request that was put to a phone is remembered.\<close>

lemma announce_adds: "length xs \<le> MAX_ANNOUNCED \<Longrightarrow> k \<in> set (announce k xs)"
  by (cases xs) (auto simp: announce_def set_add_def Let_def MAX_ANNOUNCED_def)

lemma put_is_remembered:
  assumes inv: "push_inv s run" and st: "push_step oper s = (s', out)" and t: "told Attention key out"
  shows "key \<in> set (ps_announced s')"
proof -
  obtain n where on: "on_notice n s = (s', out)" using st t
    by (cases oper) (auto simp: onEvent_def told_def split: option.splits)
  moreover have "length (ps_announced s) \<le> MAX_ANNOUNCED" using inv by (simp add: push_inv_def)
  ultimately show ?thesis using on_notice_sends(2) [OF on t] t announce_adds [of "ps_announced s" key]
    by (auto simp: on_notice_def Let_def told_def split: if_splits)
qed

text \<open>The phones that are told when a request is settled.\<close>

lemma settled_recipients:
  "push_step (Op_event sid title (Permission_resolved rid ok ans)) s = (s', out) \<Longrightarrow>
   map fst out = (if sid @ '':'' @ rid \<in> set (ps_announced s) then wanting Attention (ps_tokens s) else [])"
  by (auto simp: onEvent_def on_notice_def Let_def notice_def notice_key_def comp_def split: if_splits)

text \<open>Who is sent a notice shows that kind of notice.\<close>

lemma push_recipients:
  assumes "push_step oper s = (s', out)" and "(t, n) \<in> set out"
  shows "\<exists>ks. (t, ks) \<in> set (ps_tokens s) \<and> (if pn_kind n = Resolved then Attention else pn_kind n) \<in> set ks"
proof -
  have w: "t \<in> set (wanting k m) \<longleftrightarrow> (\<exists>ks. (t, ks) \<in> set m \<and> k \<in> set ks)" for k m
    by (force simp: wanting_def)
  have "on_notice n s = (s', out) \<Longrightarrow> (t, n) \<in> set out \<Longrightarrow>
      t \<in> set (wanting (if pn_kind n = Resolved then Attention else pn_kind n) (ps_tokens s))"
    by (auto simp: on_notice_def Let_def split: if_splits)
  moreover have "on_notice m s = (s', out) \<Longrightarrow> (t, n) \<in> set out \<Longrightarrow> m = n" for m
    by (auto simp: on_notice_def Let_def split: if_splits)
  ultimately have "on_notice m s = (s', out) \<Longrightarrow>
      t \<in> set (wanting (if pn_kind n = Resolved then Attention else pn_kind n) (ps_tokens s))" for m
    using assms(2) by blast
  then show ?thesis using assms w
    by (cases oper) (auto simp: onEvent_def simp del: if_image_distrib split: option.splits)
qed

end
