(* ===== verification/Uploads.thy ===== *)
theory Uploads
  imports StateFile NodePath
begin

text \<open>
  Files sent from the phone in chunks (\<open>uploads.ts\<close>). The file system is the map of
  \<^term>\<open>write_file\<close>; directories are created on demand and are not represented. \<open>uploadBytes\<close> is
  one request; \<open>upload_exact\<close> shows that whatever mix of lost answers, repeats, gaps and failed
  writes the requests of one file arrive in, the file that comes out is the file that was sent.
\<close>

section \<open>Names and bytes\<close>

definition MAX_UPLOAD_BYTES :: nat where "MAX_UPLOAD_BYTES = 200 * 1024 * 1024"

definition bs :: char where "bs = CHR 0x5C"

definition safeName :: "string \<Rightarrow> string" where
  "safeName name =
     (let base = last (split_char slash (map (\<lambda>c. if c = bs then slash else c) name));
          cleaned = take 120 (trim (dropWhile (\<lambda>c. c = CHR ''.'') (filter (\<lambda>c. 31 < code_of c) base)))
      in if cleaned = [] then ''file'' else cleaned)"

text \<open>\<open>/^[A-Za-z0-9-]{1,80}$/\<close>.\<close>

definition good_id :: "string \<Rightarrow> bool" where
  "good_id i = (1 \<le> length i \<and> length i \<le> 80 \<and> list_all (\<lambda>c. is_alnum c \<or> c = CHR ''-'') i)"

text \<open>Base64 as Node reads it: what is not in the alphabet is skipped, \<open>=\<close> ends it.\<close>

definition b64_val :: "char \<Rightarrow> nat option" where
  "b64_val c = (let n = code_of c in
     if is_upper c then Some (n - 65) else if is_lower c then Some (n - 71) else if is_digit c then Some (n + 4)
     else if n = 43 \<or> n = 45 then Some 62 else if n = 47 \<or> n = 95 then Some 63 else None)"

fun b64_bytes :: "nat list \<Rightarrow> string" where
  "b64_bytes (a # b # c # d # r) =
     char_of (a * 4 + b div 16) # char_of (b mod 16 * 16 + c div 4) # char_of (c mod 4 * 64 + d) # b64_bytes r"
| "b64_bytes [a, b, c] = [char_of (a * 4 + b div 16), char_of (b mod 16 * 16 + c div 4)]"
| "b64_bytes [a, b] = [char_of (a * 4 + b div 16)]"
| "b64_bytes [a] = []"
| "b64_bytes [] = []"

definition b64_decode :: "string \<Rightarrow> string" where
  "b64_decode s = b64_bytes (List.map_filter b64_val (takeWhile (\<lambda>c. c \<noteq> CHR ''='') s))"

section \<open>One chunk\<close>

record upload_chunk =
  uc_session :: string
  uc_upload :: string
  uc_name :: string
  uc_offset :: jsval
  uc_bytes :: string
  uc_done :: bool

record upload_progress =
  up_received :: nat
  up_path :: "string option"

definition upload_dir :: "string \<Rightarrow> upload_chunk \<Rightarrow> string" where
  "upload_dir updir c = path_join [updir, uc_session c]"

definition finalPath :: "string \<Rightarrow> upload_chunk \<Rightarrow> string" where
  "finalPath updir c = path_join [upload_dir updir c, uc_upload c @ ''-'' @ safeName (uc_name c)]"

definition partPath :: "string \<Rightarrow> upload_chunk \<Rightarrow> string" where
  "partPath updir c = path_join [upload_dir updir c, ''.part-'' @ uc_upload c]"

definition too_large :: string where
  "too_large = ''file is larger than 200 MB''"

definition good_offset :: "jsval \<Rightarrow> nat option" where
  "good_offset v =
     (case v of JNum n \<Rightarrow> if of_int \<lfloor>n\<rfloor> = n \<and> 0 \<le> n then Some (nat \<lfloor>n\<rfloor>) else None | _ \<Rightarrow> None)"

definition held :: "log_dir \<Rightarrow> string \<Rightarrow> string" where
  "held dir p = (case map_of dir p of None \<Rightarrow> [] | Some b \<Rightarrow> b)"

text \<open>
  \<open>wrote\<close> is how far the append came when the disk refused it, \<open>None\<close> when it did not. \<open>Inl\<close> is
  the error's message.
\<close>

definition uploadBytes ::
    "nat option \<Rightarrow> string \<Rightarrow> upload_chunk \<Rightarrow> log_dir \<Rightarrow> (string + upload_progress) \<times> log_dir" where
  "uploadBytes wrote updir c dir =
     (if \<not> good_id (uc_session c) then (Inl ''bad session id'', dir)
      else if \<not> good_id (uc_upload c) then (Inl ''bad upload id'', dir)
      else case good_offset (uc_offset c) of
        None \<Rightarrow> (Inl ''bad offset'', dir)
      | Some offset \<Rightarrow>
          let final = finalPath updir c; part = partPath updir c; had = held dir part in
          (case map_of dir final of
             Some b \<Rightarrow> (Inr \<lparr>up_received = length b, up_path = Some final\<rparr>, dir)
           | None \<Rightarrow>
               if offset \<noteq> length had then (Inr \<lparr>up_received = length had, up_path = None\<rparr>, dir)
               else if MAX_UPLOAD_BYTES < length had + length (uc_bytes c)
               then (Inl too_large, AList.delete part dir)
               else case wrote of
                 Some n \<Rightarrow> (Inl ''write failed'', write_file part (had @ take n (uc_bytes c)) dir)
               | None \<Rightarrow>
                   let dir1 = write_file part (had @ uc_bytes c) dir;
                       received = length had + length (uc_bytes c)
                   in if \<not> uc_done c then (Inr \<lparr>up_received = received, up_path = None\<rparr>, dir1)
                      else (Inr \<lparr>up_received = received, up_path = Some final\<rparr>, rename_file part final dir1)))"

definition uploadChunk ::
    "nat option \<Rightarrow> string \<Rightarrow> upload_chunk \<Rightarrow> string \<Rightarrow> log_dir \<Rightarrow> (string + upload_progress) \<times> log_dir" where
  "uploadChunk wrote updir c data dir = uploadBytes wrote updir (c \<lparr>uc_bytes := b64_decode data\<rparr>) dir"

section \<open>Over HTTP\<close>

definition MAX_HTTP_CHUNK :: nat where "MAX_HTTP_CHUNK = 16 * 1024 * 1024"

text \<open>\<open>Number(text)\<close> of a query parameter, for texts of decimal digits; the empty text is 0.\<close>

definition query_number :: "string \<Rightarrow> jsval" where
  "query_number s =
     (let t = trim s in
      if t = [] then JNum 0 else if list_all is_digit t then JNum (of_nat (read_nat t)) else JNaN)"

datatype http_reply = Http_reply nat "(string + upload_progress)"

text \<open>
  The body arrives in pieces; the request is refused as soon as they exceed the limit, and then
  neither later pieces nor the end do anything.
\<close>

fun http_body :: "nat \<Rightarrow> string \<Rightarrow> string list \<Rightarrow> string option" where
  "http_body n acc [] = Some acc"
| "http_body n acc (c # cs) =
     (if MAX_HTTP_CHUNK < n + length c then None else http_body (n + length c) (acc @ c) cs)"

definition handleHttpUpload ::
    "nat option \<Rightarrow> string \<Rightarrow> (string \<Rightarrow> bool) \<Rightarrow> (string \<Rightarrow> string option) \<Rightarrow> string list \<Rightarrow> log_dir
     \<Rightarrow> http_reply \<times> log_dir" where
  "handleHttpUpload wrote updir sessionExists q body dir =
     (let get = (\<lambda>k d. case q k of None \<Rightarrow> d | Some v \<Rightarrow> v); sid = get ''sessionId'' [] in
      if \<not> sessionExists sid then (Http_reply 404 (Inl (''unknown session '' @ sid)), dir)
      else case http_body 0 [] body of
        None \<Rightarrow> (Http_reply 413 (Inl ''chunk too large''), dir)
      | Some bytes \<Rightarrow>
          (case uploadBytes wrote updir
                  \<lparr>uc_session = sid, uc_upload = get ''uploadId'' [], uc_name = get ''name'' ''file'',
                   uc_offset = query_number (get ''offset'' ''NaN''), uc_bytes = bytes,
                   uc_done = (q ''done'' = Some ''1'')\<rparr> dir of
             (Inr r, dir1) \<Rightarrow> (Http_reply 200 (Inr r), dir1)
           | (Inl m, dir1) \<Rightarrow> (Http_reply 400 (Inl m), dir1)))"

section \<open>Images by reference\<close>

text \<open>
  One attachment of \<open>loadImageData\<close>. The image kind is told apart by its tag; a file attachment is
  passed on. \<open>Inl\<close> where the code throws.
\<close>

definition loadImage ::
    "string \<Rightarrow> string \<Rightarrow> log_dir \<Rightarrow> bool \<Rightarrow> string option \<Rightarrow> string option \<Rightarrow> string + string option" where
  "loadImage cwd updir dir isImage data p =
     (case (isImage, data, p) of
        (True, None, Some f) \<Rightarrow>
          (let resolved = path_resolve cwd f; base = path_resolve cwd updir @ [slash] in
           if \<not> starts_with resolved base then Inl (''image '' @ f @ '' is not an upload'')
           else case map_of dir resolved of
             None \<Rightarrow> Inl ''ENOENT''
           | Some bytes \<Rightarrow> Inr (Some bytes))
      | _ \<Rightarrow> Inr data)"

section \<open>Names stay inside their directory\<close>

lemma safeName_no_slash: "slash \<notin> set (safeName name)" "safeName name \<noteq> []"
proof -
  let ?b = "last (split_char slash (map (\<lambda>c. if c = bs then slash else c) name))"
  have b: "slash \<notin> set ?b" using split_char_no_sep [of ?b slash] last_in_set [OF split_char_not_Nil] by blast
  have sub: "set (take n (trim (dropWhile P (filter Q s)))) \<subseteq> set s" for n P Q and s :: string
  proof -
    have "set (dropWhile is_space u) \<subseteq> set u" for u by (auto dest: set_dropWhileD)
    then have "set (trim t) \<subseteq> set t" for t
      unfolding trim_def trim_end_def trim_start_def by (metis (no_types) order_trans set_rev)
    then show ?thesis by (meson order_trans set_take_subset subsetI set_dropWhileD filter_is_subset subsetD)
  qed
  have "slash \<notin> set (take 120 (trim (dropWhile (\<lambda>c. c = CHR ''.'') (filter (\<lambda>c. 31 < code_of c) ?b))))"
    using b sub by blast
  then show "slash \<notin> set (safeName name)"
    unfolding safeName_def Let_def by (simp add: slash_def)
  show "safeName name \<noteq> []" by (simp add: safeName_def Let_def)
qed

lemma good_id_chars: "good_id i \<Longrightarrow> c \<in> set i \<Longrightarrow> is_alnum c \<or> c = CHR ''-''"
  by (auto simp: good_id_def list_all_iff)

lemma good_id_plain: "good_id i \<Longrightarrow> i \<noteq> [] \<and> slash \<notin> set i \<and> CHR ''.'' \<notin> set i"
  using good_id_chars [of i slash] good_id_chars [of i "CHR ''.''"]
  by (auto simp: good_id_def slash_def is_alnum_def is_alpha_def is_lower_def is_upper_def is_digit_def)

lemma upload_segments:
  assumes "good_id i"
  shows "plain_seg (i @ ''-'' @ safeName n)" and "plain_seg (''.part-'' @ i)"
    and "i @ ''-'' @ safeName n \<noteq> ''.part-'' @ j"
  using good_id_plain [OF assms] safeName_no_slash [of n]
  by (auto simp: plain_seg_def slash_def append_eq_Cons_conv)

lemma upload_paths_differ:
  assumes "good_id (uc_upload c)"
  shows "finalPath updir c \<noteq> partPath updir c"
  using upload_segments [OF assms] path_join_not_Nil
  by (simp add: finalPath_def partPath_def upload_dir_def path_join_inject)

text \<open>The bytes of a referenced image come from below the uploads directory.\<close>

lemma join_append: "ws \<noteq> [] \<Longrightarrow> vs \<noteq> [] \<Longrightarrow> join sep (ws @ vs) = join sep ws @ sep @ join sep vs"
proof (induction ws)
  case (Cons w ws)
  then show ?case by (cases ws; cases vs) auto
qed simp

lemma path_resolve_plain: "list_all plain_seg (norm_segments False (split_char slash p))"
  by (rule norm_segments_absolute) (auto dest: split_char_no_sep)

lemma loadImage_inside:
  assumes "loadImage cwd updir dir True None (Some f) = Inr (Some bytes)"
  shows "\<exists>rest. map_of dir (path_resolve cwd updir @ slash # rest) = Some bytes
    \<and> path_resolve cwd f = path_resolve cwd updir @ slash # rest
    \<and> (\<exists>segs. list_all plain_seg segs \<and> path_resolve cwd f = slash # join [slash] segs)"
proof -
  have s: "starts_with (path_resolve cwd f) (path_resolve cwd updir @ [slash])"
    and m: "map_of dir (path_resolve cwd f) = Some bytes"
    using assms by (auto simp: loadImage_def Let_def split: if_splits option.splits)
  from s obtain rest where r: "path_resolve cwd f = path_resolve cwd updir @ slash # rest"
    by (auto simp: starts_with_iff)
  have "\<exists>segs. list_all plain_seg segs \<and> path_resolve cwd f = slash # join [slash] segs"
    using path_resolve_plain by (auto simp: path_resolve_def Let_def)
  with r m show ?thesis by metis
qed

section \<open>The file that comes out is the file that was sent\<close>

text \<open>
  Chunks of one upload of the bytes \<open>F\<close>: each carries the piece of \<open>F\<close> at its offset, the last
  piece, and only it, is marked \<open>done\<close>.
\<close>

definition chunk_of :: "string \<Rightarrow> upload_chunk \<Rightarrow> upload_chunk \<Rightarrow> bool" where
  "chunk_of F u c =
     (uc_session c = uc_session u \<and> uc_upload c = uc_upload u \<and> uc_name c = uc_name u
      \<and> (\<forall>k. good_offset (uc_offset c) = Some k \<longrightarrow>
           uc_bytes c = take (length (uc_bytes c)) (drop k F) \<and> k + length (uc_bytes c) \<le> length F
           \<and> (uc_done c \<longrightarrow> k + length (uc_bytes c) = length F)))"

definition upload_ok :: "string \<Rightarrow> string \<Rightarrow> upload_chunk \<Rightarrow> log_dir \<Rightarrow> bool" where
  "upload_ok F updir u dir =
     ((\<exists>k. held dir (partPath updir u) = take k F)
      \<and> (\<forall>b. map_of dir (finalPath updir u) = Some b \<longrightarrow> b = F))"

lemma take_take_drop: "take k F @ take n (drop (length (take k F)) F) = take (length (take k F) + n) F"
  by (simp add: take_add min_def)

lemma held_delete: "held (AList.delete p dir) p = []" "map_of (AList.delete p dir) q = (if q = p then None else map_of dir q)"
  by (simp_all add: held_def om_get_delete)

lemma held_write: "held (write_file p b dir) q = (if q = p then b else held dir q)"
  by (simp add: held_def map_of_write_file)

lemma chunk_paths: "chunk_of F u c \<Longrightarrow> finalPath updir c = finalPath updir u \<and> partPath updir c = partPath updir u"
  by (simp add: chunk_of_def finalPath_def partPath_def upload_dir_def)

lemma uploadBytes_exact:
  assumes ok: "upload_ok F updir u dir" and c: "chunk_of F u c" and up: "uploadBytes wrote updir c dir = (r, dir')"
  shows "upload_ok F updir u dir'"
    and "r = Inr \<lparr>up_received = n, up_path = Some p\<rparr> \<Longrightarrow> map_of dir' p = Some F \<and> n = length F"
proof -
  let ?f = "finalPath updir u" and ?p = "partPath updir u"
  note pths = chunk_paths [OF c, of updir]
  obtain k where k: "held dir ?p = take k F" using ok by (auto simp: upload_ok_def)
  have goal: "upload_ok F updir u dir' \<and>
      (r = Inr \<lparr>up_received = n, up_path = Some p\<rparr> \<longrightarrow> map_of dir' p = Some F \<and> n = length F)"
  proof (cases "good_id (uc_session c) \<and> good_id (uc_upload c)
      \<and> good_offset (uc_offset c) = Some (length (held dir ?p)) \<and> map_of dir ?f = None")
    case False
    then have "dir' = dir" "r = Inr \<lparr>up_received = n, up_path = Some p\<rparr> \<longrightarrow> map_of dir p = Some F \<and> n = length F"
      using up ok pths by (auto simp: uploadBytes_def Let_def upload_ok_def split: if_splits option.splits)
    then show ?thesis using ok by simp
  next
    case True
    then have d: "?f \<noteq> ?p" using upload_paths_differ [of c updir] pths by simp
    have b: "uc_bytes c = take (length (uc_bytes c)) (drop (length (held dir ?p)) F)"
      and l: "length (held dir ?p) + length (uc_bytes c) \<le> length F"
      and dn: "uc_done c \<Longrightarrow> length (held dir ?p) + length (uc_bytes c) = length F"
      using c True by (auto simp: chunk_of_def)
    have whole: "held dir ?p @ uc_bytes c = take (length (held dir ?p) + length (uc_bytes c)) F"
      using b take_take_drop [of k F "length (uc_bytes c)"] k by metis
    have piece: "\<exists>j. held dir ?p @ take m (uc_bytes c) = take j F" for m
    proof -
      have "take (length (held dir ?p) + m) (held dir ?p @ uc_bytes c) = held dir ?p @ take m (uc_bytes c)" by simp
      then show ?thesis unfolding whole take_take by metis
    qed
    let ?d1 = "write_file ?p (held dir ?p @ uc_bytes c) dir"
    have none: "map_of dir ?f = None" using True by simp
    have r1: "map_of (rename_file ?p ?f ?d1) x
        = (if x = ?f then Some (held dir ?p @ uc_bytes c) else if x = ?p then None else map_of ?d1 x)" for x
      using map_of_rename_file [of ?d1 ?p "held dir ?p @ uc_bytes c" ?f] d by (simp add: map_of_write_file)
    consider "MAX_UPLOAD_BYTES < length (held dir ?p) + length (uc_bytes c)"
      | m where "\<not> MAX_UPLOAD_BYTES < length (held dir ?p) + length (uc_bytes c)" "wrote = Some m"
      | "\<not> MAX_UPLOAD_BYTES < length (held dir ?p) + length (uc_bytes c)" "wrote = None" "\<not> uc_done c"
      | "\<not> MAX_UPLOAD_BYTES < length (held dir ?p) + length (uc_bytes c)" "wrote = None" "uc_done c"
      by (cases wrote) auto
    then show ?thesis
    proof cases
      case 1
      then have "dir' = AList.delete ?p dir" "\<exists>m. r = Inl m"
        using up True none pths by (auto simp: uploadBytes_def Let_def)
      then show ?thesis using none d by (auto simp: upload_ok_def held_delete intro: exI [of _ 0])
    next
      case (2 m)
      then have "dir' = write_file ?p (held dir ?p @ take m (uc_bytes c)) dir" "\<exists>m. r = Inl m"
        using up True none pths by (auto simp: uploadBytes_def Let_def)
      then show ?thesis using none d piece by (auto simp: upload_ok_def held_write map_of_write_file)
    next
      case 3
      then have "dir' = ?d1" "\<exists>m. r = Inr \<lparr>up_received = m, up_path = None\<rparr>"
        using up True none pths by (auto simp: uploadBytes_def Let_def)
      then show ?thesis using none d whole by (auto simp: upload_ok_def held_write map_of_write_file)
    next
      case 4
      then have e: "dir' = rename_file ?p ?f ?d1"
        "r = Inr \<lparr>up_received = length (held dir ?p) + length (uc_bytes c), up_path = Some ?f\<rparr>"
        using up True none pths by (auto simp: uploadBytes_def Let_def)
      have F: "held dir ?p @ uc_bytes c = F" using whole dn [OF 4(3)] by simp
      have "map_of dir' ?p = None" using d by (simp only: e(1) r1) simp
      then have h: "held dir' ?p = []" by (simp add: held_def)
      have f: "map_of dir' ?f = Some F" unfolding e(1) r1 using F by simp
      have n: "length (held dir ?p) + length (uc_bytes c) = length F" using dn [OF 4(3)] .
      show ?thesis using h f e(2) n unfolding upload_ok_def by (auto intro: exI [of _ 0])
    qed
  qed
  then show "upload_ok F updir u dir'"
    and "r = Inr \<lparr>up_received = n, up_path = Some p\<rparr> \<Longrightarrow> map_of dir' p = Some F \<and> n = length F" by blast+
qed

text \<open>A run of requests; what else happens to the directory between them leaves the upload's files.\<close>

fun upload_run :: "string \<Rightarrow> (nat option \<times> upload_chunk) list \<Rightarrow> log_dir \<Rightarrow> log_dir" where
  "upload_run updir [] dir = dir"
| "upload_run updir ((wrote, c) # cs) dir = upload_run updir cs (snd (uploadBytes wrote updir c dir))"

lemma upload_run_ok:
  "upload_ok F updir u dir \<Longrightarrow> list_all (\<lambda>(wrote, c). chunk_of F u c) cs \<Longrightarrow> upload_ok F updir u (upload_run updir cs dir)"
proof (induction cs arbitrary: dir)
  case (Cons e cs)
  obtain w c where e: "e = (w, c)" by fastforce
  with Cons uploadBytes_exact(1) [OF Cons.prems(1) _ surjective_pairing, of c w] show ?case by simp
qed simp

text \<open>A client that sends the piece the answer asks for makes progress.\<close>

lemma upload_progress:
  assumes "upload_ok F updir u dir" and "chunk_of F u c" and "good_id (uc_session c)" and "good_id (uc_upload c)"
    and "good_offset (uc_offset c) = Some (length (held dir (partPath updir u)))"
    and "length F \<le> MAX_UPLOAD_BYTES" and "map_of dir (finalPath updir u) = None"
  shows "\<exists>p. fst (uploadBytes None updir c dir) = Inr \<lparr>up_received = length (held dir (partPath updir u)) + length (uc_bytes c), up_path = p\<rparr>
    \<and> (p \<noteq> None \<longleftrightarrow> uc_done c)"
proof -
  have "length (held dir (partPath updir u)) + length (uc_bytes c) \<le> length F"
    using assms(2,5) by (auto simp: chunk_of_def)
  then show ?thesis using assms chunk_paths [OF assms(2), of updir]
    by (auto simp: uploadBytes_def Let_def)
qed

end
