(* ===== verification/Lock.thy ===== *)
theory Lock
  imports StateFile
begin

text \<open>
  The single-instance lock (\<open>lock.ts\<close>) and the decision to become the daemon (\<open>ownership.ts\<close>).
  The processes of the machine are the record \<open>machine\<close>: what \<open>/proc/<pid>/stat\<close> holds and what
  signal 0 answers. First each function as the code runs it alone, over the content of the lock
  file; then \<open>acquireLock\<close> one system call at a time, for daemons that start together.
\<close>

section \<open>Who holds the lock\<close>

datatype kill_answer = Kill_ok | Kill_eperm | Kill_failed

record machine =
  stat_of :: "nat \<Rightarrow> string option"
  kill0 :: "nat \<Rightarrow> kill_answer"

record lock_holder =
  lh_pid :: nat
  lh_startedAt :: "string option"

definition all_digits :: "string \<Rightarrow> bool" where
  "all_digits s = (s \<noteq> [] \<and> list_all is_digit s)"

text \<open>The fields after the last \<open>)\<close>: field 22 of the line is number 19 of them.\<close>

definition start_field :: "string \<Rightarrow> string option" where
  "start_field stat =
     (if CHR '')'' \<notin> set stat then None
      else let after = rev (takeWhile (\<lambda>c. c \<noteq> CHR '')'') (rev stat));
               fields = split_char (CHR '' '') (drop 1 after)
           in if 19 < length fields \<and> all_digits (fields ! 19) then Some (fields ! 19) else None)"

definition processStartTime :: "machine \<Rightarrow> nat \<Rightarrow> string option" where
  "processStartTime w pid = Option.bind (stat_of w pid) start_field"

text \<open>
  \<open>Number(text)\<close> when it is a positive integer. Only decimal digits count here: the other forms
  a JavaScript number can take are not written by \<open>lockText\<close>.
\<close>

definition read_pid :: "string \<Rightarrow> nat option" where
  "read_pid s = (if all_digits s \<and> 0 < read_nat s then Some (read_nat s) else None)"

text \<open>The lock's content, \<open>None\<close> when there is no readable file.\<close>

definition readLock :: "string option \<Rightarrow> string" where
  "readLock f = (case f of None \<Rightarrow> [] | Some raw \<Rightarrow> trim raw)"

definition readLockHolder :: "string option \<Rightarrow> lock_holder option" where
  "readLockHolder f =
     (let ws = split_runs is_space (readLock f) in
      case read_pid (hd ws) of
        None \<Rightarrow> None
      | Some pid \<Rightarrow>
          Some \<lparr>lh_pid = pid,
                lh_startedAt = (if 1 < length ws \<and> all_digits (ws ! 1) then Some (ws ! 1) else None)\<rparr>)"

definition lockText :: "machine \<Rightarrow> nat \<Rightarrow> string" where
  "lockText w pid =
     (case processStartTime w pid of
        None \<Rightarrow> show_nat pid
      | Some t \<Rightarrow> show_nat pid @ '' '' @ t)"

definition isAlive :: "machine \<Rightarrow> nat \<Rightarrow> bool" where
  "isAlive w pid = (kill0 w pid \<noteq> Kill_failed)"

definition holderIsRunning :: "machine \<Rightarrow> lock_holder option \<Rightarrow> bool" where
  "holderIsRunning w h =
     (case h of
        None \<Rightarrow> False
      | Some l \<Rightarrow>
          isAlive w (lh_pid l)
          \<and> (case lh_startedAt l of None \<Rightarrow> True | Some t \<Rightarrow> processStartTime w (lh_pid l) = Some t))"

definition holderIsIdentified :: "machine \<Rightarrow> lock_holder option \<Rightarrow> bool" where
  "holderIsIdentified w h =
     ((case h of None \<Rightarrow> False | Some l \<Rightarrow> lh_startedAt l \<noteq> None) \<and> holderIsRunning w h)"

section \<open>Taking and releasing it, alone\<close>

definition defers_to :: "machine \<Rightarrow> nat \<Rightarrow> string option \<Rightarrow> bool" where
  "defers_to w pid f =
     (case readLockHolder f of
        None \<Rightarrow> False
      | Some l \<Rightarrow> lh_pid l \<noteq> pid \<and> holderIsRunning w (Some l))"

text \<open>
  The loop with nobody else at work: \<open>wx\<close> creates the file exactly when there is none, and a lock
  nobody running holds is unlinked before the next attempt.
\<close>

fun acquire_loop :: "machine \<Rightarrow> nat \<Rightarrow> nat \<Rightarrow> string option \<Rightarrow> bool \<times> string option" where
  "acquire_loop w pid 0 f = (False, f)"
| "acquire_loop w pid (Suc n) f =
     (if f = None then (True, Some (lockText w pid))
      else if defers_to w pid f then (False, f)
      else acquire_loop w pid n None)"

definition acquireLock :: "machine \<Rightarrow> nat \<Rightarrow> string option \<Rightarrow> bool \<times> string option" where
  "acquireLock w pid f = acquire_loop w pid 2 f"

definition releaseLock :: "nat \<Rightarrow> string option \<Rightarrow> string option" where
  "releaseLock pid f =
     (case readLockHolder f of
        None \<Rightarrow> f
      | Some l \<Rightarrow> if lh_pid l = pid then None else f)"

section \<open>Becoming the daemon\<close>

text \<open>
  What a socket does after \<open>connect\<close>; the first answer of any kind settles the probe, \<open>hello\<close>
  being written on connect.
\<close>

datatype probe_event = Connected | Data | Socket_error | Closed | Timed_out

fun socketServing :: "probe_event list \<Rightarrow> bool" where
  "socketServing [] = False"
| "socketServing (e # es) = (case e of Connected \<Rightarrow> socketServing es | Data \<Rightarrow> True | _ \<Rightarrow> False)"

text \<open>
  The surroundings of a claim: the answer of the probe, and the lock's content whenever the code
  comes back to it after waiting, after the probe and after the grace period, since the other
  daemon may act meanwhile.
\<close>

record claim_world =
  cw_probe :: "probe_event list"
  cw_after_probe :: "string option \<Rightarrow> string option"
  cw_after_grace :: "string option \<Rightarrow> string option"

text \<open>The outcome: whether this process owns the daemon, the lock file, the processes signalled.\<close>

record claim =
  cl_owner :: bool
  cl_lock :: "string option"
  cl_signalled :: "nat list"

definition holder_pid :: "lock_holder option \<Rightarrow> nat" where
  "holder_pid h = (case h of None \<Rightarrow> 0 | Some l \<Rightarrow> lh_pid l)"

definition clear_lock :: "nat \<Rightarrow> string option \<Rightarrow> string option" where
  "clear_lock owner f =
     (case readLockHolder f of
        None \<Rightarrow> f
      | Some l \<Rightarrow> if lh_pid l = owner then None else f)"

definition claimOwnership :: "machine \<Rightarrow> claim_world \<Rightarrow> nat \<Rightarrow> string option \<Rightarrow> claim" where
  "claimOwnership w cw pid f =
     (case acquireLock w pid f of
        (True, f1) \<Rightarrow> \<lparr>cl_owner = True, cl_lock = f1, cl_signalled = []\<rparr>
      | (False, f1) \<Rightarrow>
          let holder = readLockHolder f1; owner = holder_pid holder; f2 = cw_after_probe cw f1 in
          if socketServing (cw_probe cw) then \<lparr>cl_owner = False, cl_lock = f2, cl_signalled = []\<rparr>
          else let signals = holderIsIdentified w holder \<and> owner \<noteq> pid;
                   f3 = (if signals then cw_after_grace cw f2 else f2);
                   (won, f4) = acquireLock w pid (clear_lock owner f3)
               in \<lparr>cl_owner = won, cl_lock = f4, cl_signalled = (if signals then [owner] else [])\<rparr>)"

section \<open>What the lock says is who wrote it\<close>

lemma split_runs_none: "list_all (\<lambda>c. \<not> p c) s \<Longrightarrow> split_runs p s = [s]"
proof -
  assume "list_all (\<lambda>c. \<not> p c) s"
  then have "dropWhile (\<lambda>c. \<not> p c) s = []" by (auto simp: list_all_iff dropWhile_eq_Nil_conv)
  then show ?thesis by (subst split_runs.simps) (simp only: list.case)
qed

lemma split_runs_two:
  assumes "list_all (\<lambda>c. \<not> p c) a" and "list_all (\<lambda>c. \<not> p c) b" and "p c"
  shows "split_runs p (a @ c # b) = [a, b]"
proof -
  have d: "dropWhile (\<lambda>c. \<not> p c) (a @ c # b) = c # b" "takeWhile (\<lambda>c. \<not> p c) (a @ c # b) = a"
    using assms by (simp_all add: list_all_iff)
  have "dropWhile p b = b" using assms(2) by (cases b) auto
  then show ?thesis
    using split_runs_none [OF assms(2)] by (subst split_runs.simps) (simp add: d)
qed

lemma digits_not_space: "list_all is_digit s \<Longrightarrow> list_all (\<lambda>c. \<not> is_space c) s"
  using is_digit_nonspecial by (auto simp: list_all_iff)

lemma start_field_digits: "start_field stat = Some t \<Longrightarrow> all_digits t"
  by (auto simp: start_field_def Let_def split: if_splits)

lemma read_pid_show [simp]: "0 < pid \<Longrightarrow> read_pid (show_nat pid) = Some pid"
  using show_nat_digits [of pid] by (simp add: read_pid_def all_digits_def)

lemma readLockHolder_lockText:
  assumes "0 < pid"
  shows "readLockHolder (Some (lockText w pid)) = Some \<lparr>lh_pid = pid, lh_startedAt = processStartTime w pid\<rparr>"
proof (cases "processStartTime w pid")
  case None
  have d: "list_all (\<lambda>c. \<not> is_space c) (show_nat pid)" using digits_not_space [OF show_nat_digits] .
  then have "trim (show_nat pid) = show_nat pid"
    by (intro trim_tight) (auto simp: list_all_iff)
  with None d assms show ?thesis
    by (simp add: readLockHolder_def readLock_def lockText_def split_runs_none)
next
  case (Some t)
  then have t: "all_digits t" by (auto simp: processStartTime_def bind_eq_Some_conv dest: start_field_digits)
  then have dt: "list_all (\<lambda>c. \<not> is_space c) t" "t \<noteq> []" by (auto simp: all_digits_def dest: digits_not_space)
  have dp: "list_all (\<lambda>c. \<not> is_space c) (show_nat pid)" using digits_not_space [OF show_nat_digits] .
  have "trim (show_nat pid @ '' '' @ t) = show_nat pid @ '' '' @ t"
    using dt dp by (intro trim_tight) (auto simp: list_all_iff hd_append)
  moreover have "split_runs is_space (show_nat pid @ CHR '' '' # t) = [show_nat pid, t]"
    by (rule split_runs_two [OF dp dt(1)]) (simp add: is_space_def)
  ultimately show ?thesis using Some assms t
    by (simp add: readLockHolder_def readLock_def lockText_def)
qed

lemma lockText_running: "0 < pid \<Longrightarrow> isAlive w pid \<Longrightarrow> holderIsRunning w (readLockHolder (Some (lockText w pid)))"
  by (simp add: readLockHolder_lockText holderIsRunning_def split: option.split)

text \<open>A lock taken by a running process is respected by the others and given up by its owner.\<close>

lemma acquire_cases:
  "acquireLock w pid f =
     (if f \<noteq> None \<and> defers_to w pid f then (False, f) else (True, Some (lockText w pid)))"
  by (simp add: acquireLock_def numeral_2_eq_2)

lemma lock_respected:
  assumes "acquireLock w p f = (True, g)" and "0 < p" and "isAlive w p" and "q \<noteq> p"
  shows "acquireLock w q g = (False, g)"
proof -
  have g: "g = Some (lockText w p)" using assms(1) by (auto simp: acquire_cases split: if_splits)
  have "defers_to w q g"
    using assms lockText_running [OF assms(2,3)] by (simp add: g defers_to_def readLockHolder_lockText)
  then show ?thesis by (simp add: acquire_cases g)
qed

lemma release_own: "0 < p \<Longrightarrow> releaseLock p (Some (lockText w p)) = None"
  by (simp add: releaseLock_def readLockHolder_lockText)

lemma release_other: "0 < p \<Longrightarrow> q \<noteq> p \<Longrightarrow> releaseLock q (Some (lockText w p)) = Some (lockText w p)"
  by (simp add: releaseLock_def readLockHolder_lockText)

text \<open>A lock whose writer is gone, or whose number another process has now, is taken over.\<close>

lemma stale_lock_taken:
  assumes "0 < p" and "\<not> isAlive w' p \<or> (processStartTime w p \<noteq> None \<and> processStartTime w' p \<noteq> processStartTime w p)"
  shows "acquireLock w' q (Some (lockText w p)) = (True, Some (lockText w' q))"
proof -
  have "\<not> holderIsRunning w' (readLockHolder (Some (lockText w p)))"
    using assms by (auto simp: readLockHolder_lockText holderIsRunning_def)
  then have "\<not> defers_to w' q (Some (lockText w p))" by (auto simp: defers_to_def split: option.split)
  then show ?thesis by (simp add: acquire_cases)
qed

text \<open>Only a process proved to be the lock's writer is ever signalled, and never itself.\<close>

lemma claim_signals:
  assumes "x \<in> set (cl_signalled (claimOwnership w cw pid f))"
  shows "x \<noteq> pid \<and> isAlive w x \<and> f \<noteq> None \<and> \<not> socketServing (cw_probe cw)
    \<and> (\<exists>t. readLockHolder f = Some \<lparr>lh_pid = x, lh_startedAt = Some t\<rparr> \<and> processStartTime w x = Some t)"
proof -
  have a: "acquireLock w pid f = (False, f)" "f \<noteq> None"
    using assms by (auto simp: claimOwnership_def acquire_cases split: if_splits)
  then have "x = holder_pid (readLockHolder f)" "holderIsIdentified w (readLockHolder f)" "x \<noteq> pid"
    "\<not> socketServing (cw_probe cw)"
    using assms by (auto simp: claimOwnership_def Let_def split: if_splits prod.splits)
  moreover from this(2) obtain l where "readLockHolder f = Some l" by (auto simp: holderIsIdentified_def split: option.splits)
  ultimately show ?thesis using a(2)
    by (cases l) (auto simp: holderIsIdentified_def holderIsRunning_def holder_pid_def)
qed

text \<open>A working daemon keeps its place; one that does not answer never blocks the next.\<close>

lemma claim_defers:
  assumes "cl_signalled (claimOwnership w cw pid f) = []" and "acquireLock w pid f = (False, f)"
    and "socketServing (cw_probe cw)"
  shows "\<not> cl_owner (claimOwnership w cw pid f)"
  using assms by (simp add: claimOwnership_def Let_def)

lemma no_lock_no_holder [simp]: "readLockHolder None = None"
  by (simp add: readLockHolder_def readLock_def read_pid_def all_digits_def split_runs.simps)

lemma clear_lock_clears:
  "g = f \<or> g = None \<Longrightarrow> readLockHolder (clear_lock (holder_pid (readLockHolder f)) g) = None"
  by (cases "readLockHolder f") (auto simp: clear_lock_def holder_pid_def)

lemma claim_takes_over:
  assumes "\<not> socketServing (cw_probe cw)" and "cw_after_probe cw f = f"
    and "cw_after_grace cw f = f \<or> cw_after_grace cw f = None"
  shows "cl_owner (claimOwnership w cw pid f)"
proof (cases "f \<noteq> None \<and> defers_to w pid f")
  case True
  let ?f3 = "if holderIsIdentified w (readLockHolder f) \<and> holder_pid (readLockHolder f) \<noteq> pid
      then cw_after_grace cw f else f"
  have "readLockHolder (clear_lock (holder_pid (readLockHolder f)) ?f3) = None"
    using assms(3) by (intro clear_lock_clears) auto
  then have "acquireLock w pid (clear_lock (holder_pid (readLockHolder f)) ?f3) = (True, Some (lockText w pid))"
    by (simp add: acquire_cases defers_to_def)
  then show ?thesis
    using True assms(1,2) acquire_cases [of w pid f]
    by (cases "holderIsIdentified w (readLockHolder f) \<and> holder_pid (readLockHolder f) \<noteq> pid")
       (simp_all only: claimOwnership_def Let_def if_True if_False simp_thms prod.case bool.case claim.simps split: if_splits)
qed (auto simp: claimOwnership_def acquire_cases)

section \<open>Taking it together\<close>

text \<open>
  \<open>acquireLock\<close> one system call at a time, by processes that share the file. A file is its inode
  and its content; the descriptor of \<open>openSync\<close> keeps writing to its inode when another process
  has unlinked the name.
\<close>

datatype pc = Opening nat | Writing nat | Reading nat | Unlinking nat | Ended bool

record lock_state =
  ls_file :: "(nat \<times> string) option"
  ls_inode :: nat
  ls_pc :: "nat \<Rightarrow> pc"

definition goes :: "nat \<Rightarrow> pc \<Rightarrow> lock_state \<Rightarrow> lock_state" where
  "goes p c s = s \<lparr>ls_pc := (ls_pc s)(p := c)\<rparr>"

definition lock_step :: "machine \<Rightarrow> nat \<Rightarrow> lock_state \<Rightarrow> lock_state" where
  "lock_step w p s =
     (case ls_pc s p of
        Opening 0 \<Rightarrow> goes p (Ended False) s
      | Opening (Suc n) \<Rightarrow>
          (case ls_file s of
             None \<Rightarrow> goes p (Writing (ls_inode s))
               (s \<lparr>ls_file := Some (ls_inode s, []), ls_inode := Suc (ls_inode s)\<rparr>)
           | Some f \<Rightarrow> goes p (Reading n) s)
      | Writing i \<Rightarrow>
          goes p (Ended True)
            (case ls_file s of
               None \<Rightarrow> s
             | Some (j, old) \<Rightarrow> if j = i then s \<lparr>ls_file := Some (i, lockText w p)\<rparr> else s)
      | Reading n \<Rightarrow>
          if defers_to w p (map_option snd (ls_file s)) then goes p (Ended False) s
          else goes p (Unlinking n) s
      | Unlinking n \<Rightarrow> goes p (Opening n) (s \<lparr>ls_file := None\<rparr>)
      | Ended b \<Rightarrow> s)"

fun lock_run :: "machine \<Rightarrow> nat list \<Rightarrow> lock_state \<Rightarrow> lock_state" where
  "lock_run w [] s = s"
| "lock_run w (p # ps) s = lock_run w ps (lock_step w p s)"

definition lock_start :: "(nat \<times> string) option \<Rightarrow> lock_state" where
  "lock_start f = \<lparr>ls_file = f, ls_inode = (case f of None \<Rightarrow> 0 | Some (i, c) \<Rightarrow> Suc i), ls_pc = (\<lambda>p. Opening 2)\<rparr>"

text \<open>Alone, the steps are the function.\<close>

lemma lock_run_alone:
  assumes "f \<noteq> None \<longrightarrow> \<not> defers_to w p (map_option snd f)"
  shows "ls_pc (lock_run w (replicate 5 p) (lock_start f)) p = Ended True
    \<and> map_option snd (ls_file (lock_run w (replicate 5 p) (lock_start f))) = Some (lockText w p)"
  using assms
  by (cases f) (simp_all add: eval_nat_numeral lock_step_def goes_def lock_start_def)

text \<open>
  Between \<open>openSync\<close> and \<open>writeSync\<close> the file is there and empty: another daemon that looks then
  finds no holder, unlinks it and takes the lock as well.
\<close>

lemma empty_lock_no_holder: "readLockHolder (Some []) = None"
  by (simp add: readLockHolder_def readLock_def read_pid_def all_digits_def split_runs.simps
      trim_def trim_start_def trim_end_def)

lemma lock_race:
  assumes "p \<noteq> q"
  shows "ls_pc (lock_run w [p, q, q, q, q, q, p] (lock_start None)) p = Ended True
    \<and> ls_pc (lock_run w [p, q, q, q, q, q, p] (lock_start None)) q = Ended True"
  using assms assms [symmetric]
  by (simp add: lock_step_def goes_def lock_start_def defers_to_def empty_lock_no_holder numeral_2_eq_2)

text \<open>So do two that find the same stale lock, when one is slow to unlink it.\<close>

lemma stale_lock_race:
  assumes "p \<noteq> q" and "\<not> defers_to w p (Some t)" and "\<not> defers_to w q (Some t)"
  shows "ls_pc (lock_run w [p, p, q, q, q, q, q, p, p, p] (lock_start (Some (0, t)))) p = Ended True
    \<and> ls_pc (lock_run w [p, p, q, q, q, q, q, p, p, p] (lock_start (Some (0, t)))) q = Ended True"
  using assms assms(1) [symmetric]
  by (simp add: lock_step_def goes_def lock_start_def numeral_2_eq_2)

end
