(* ===== verification/TranscriptSync.thy ===== *)
theory TranscriptSync
  imports NodePath
begin

text \<open>
  Bringing a conversation's transcript into the config directory the SDK is about to read
  (\<open>accounts.ts\<close>, \<open>projectDir.ts\<close>). A file system is a map from paths to bytes and modification
  time; a directory is there when a file is below it. Two things come from the surroundings:
  \<open>fs_time\<close>, the modification time a file has after \<open>utimes\<close> was handed one, and \<open>readable\<close>, the
  files of which a copy succeeds (an error of the transcript's own copy, which the source throws, is
  not modelled). \<open>sync_newest\<close> shows that afterwards the file that is resumed is the newest copy there
  was, or has its bytes.
\<close>

section \<open>Files with times\<close>

record tfile =
  tf_bytes :: string
  tf_mtime :: num

type_synonym fs = "(string \<times> tfile) list"

definition isNewer :: "tfile \<Rightarrow> tfile \<Rightarrow> bool" where
  "isNewer a b =
     (if tf_mtime a \<noteq> tf_mtime b then tf_mtime b < tf_mtime a
      else length (tf_bytes b) < length (tf_bytes a))"

text \<open>
  What \<open>copyFileSync\<close> and \<open>utimesSync(to, stat.atime, stat.mtime)\<close> leave: the bytes, and the time as
  a \<open>Date\<close> holds it, rounded to a whole millisecond, while \<open>isNewer\<close> compares fractions of one.
\<close>

definition date_ms :: "num \<Rightarrow> num" where
  "date_ms t = of_int \<lfloor>t + 1 / 2\<rfloor>"

definition copied :: "(num \<Rightarrow> num) \<Rightarrow> tfile \<Rightarrow> tfile" where
  "copied fs_time x = x \<lparr>tf_mtime := fs_time (date_ms (tf_mtime x))\<rparr>"

definition below :: "string \<Rightarrow> string \<Rightarrow> string option" where
  "below d p = (if starts_with p (d @ [slash]) then Some (drop (length d + 1) p) else None)"

definition readdir :: "fs \<Rightarrow> string \<Rightarrow> string list" where
  "readdir f d = remdups (map (takeWhile (\<lambda>c. c \<noteq> slash)) (List.map_filter (below d) (map fst f)))"

section \<open>Finding the copies\<close>

definition projectDirName :: "string \<Rightarrow> string" where
  "projectDirName cwd = map (\<lambda>c. if is_alnum c then c else CHR ''-'') cwd"

definition destProjectDir :: "(string \<Rightarrow> string option) \<Rightarrow> string \<Rightarrow> string" where
  "destProjectDir realpath cwd = projectDirName (case realpath cwd of Some p \<Rightarrow> p | None \<Rightarrow> cwd)"

record found =
  fd_file :: string
  fd_configDir :: string
  fd_project :: string
  fd_stat :: tfile

definition find_in_project :: "fs \<Rightarrow> string \<Rightarrow> string \<Rightarrow> string \<Rightarrow> found list \<Rightarrow> found list" where
  "find_in_project f i cdir project acc =
     (let file = path_join [path_join [cdir, ''projects''], project, i @ ''.jsonl''] in
      if file \<in> fd_file ` set acc then acc
      else case map_of f file of
        None \<Rightarrow> acc
      | Some st \<Rightarrow> acc @ [\<lparr>fd_file = file, fd_configDir = cdir, fd_project = project, fd_stat = st\<rparr>])"

definition find_in_dir :: "fs \<Rightarrow> string \<Rightarrow> string \<Rightarrow> found list \<Rightarrow> found list" where
  "find_in_dir f i cdir acc =
     fold (find_in_project f i cdir) (readdir f (path_join [cdir, ''projects''])) acc"

definition findTranscripts :: "fs \<Rightarrow> string \<Rightarrow> string list \<Rightarrow> found list" where
  "findTranscripts f i configDirs = fold (find_in_dir f i) configDirs []"

definition sdkTranscriptExists :: "fs \<Rightarrow> (string \<Rightarrow> string option) \<Rightarrow> string \<Rightarrow> string \<Rightarrow> string \<Rightarrow> bool" where
  "sdkTranscriptExists f realpath i cwd cdir =
     (map_of f (path_join [cdir, ''projects'', destProjectDir realpath cwd, i @ ''.jsonl'']) \<noteq> None)"

section \<open>Copying\<close>

definition merge_file ::
    "(num \<Rightarrow> num) \<Rightarrow> (string \<Rightarrow> bool) \<Rightarrow> string \<Rightarrow> string \<Rightarrow> string \<times> tfile \<Rightarrow> fs \<Rightarrow> fs" where
  "merge_file fs_time readable src dest e f =
     (let to = dest @ slash # fst e in
      if \<not> readable (src @ slash # fst e) then f
      else case map_of f to of
        Some old \<Rightarrow> if isNewer (snd e) old then AList.update to (copied fs_time (snd e)) f else f
      | None \<Rightarrow> AList.update to (copied fs_time (snd e)) f)"

definition tree :: "string \<Rightarrow> fs \<Rightarrow> (string \<times> tfile) list" where
  "tree src f = List.map_filter (\<lambda>(p, x). map_option (\<lambda>r. (r, x)) (below src p)) f"

definition mergeTree :: "(num \<Rightarrow> num) \<Rightarrow> (string \<Rightarrow> bool) \<Rightarrow> string \<Rightarrow> string \<Rightarrow> fs \<Rightarrow> fs" where
  "mergeTree fs_time readable src dest f = fold (merge_file fs_time readable src dest) (tree src f) f"

definition ROOT_SIDECAR_DIRS :: "string list" where
  "ROOT_SIDECAR_DIRS = [''session-env'', ''tasks'']"

definition take_newer :: "found \<Rightarrow> found option \<Rightarrow> found option" where
  "take_newer c best =
     (case best of None \<Rightarrow> Some c | Some b \<Rightarrow> if isNewer (fd_stat c) (fd_stat b) then Some c else best)"

definition newest :: "found list \<Rightarrow> found option" where
  "newest cs = fold take_newer cs None"

text \<open>The answer is where the transcript was copied from and to.\<close>

definition ensureSdkTranscript ::
    "string \<Rightarrow> (string \<Rightarrow> string option) \<Rightarrow> (num \<Rightarrow> num) \<Rightarrow> (string \<Rightarrow> bool) \<Rightarrow> string option \<Rightarrow> string
     \<Rightarrow> string \<Rightarrow> string list \<Rightarrow> fs \<Rightarrow> (string \<times> string) option \<times> fs" where
  "ensureSdkTranscript pwd realpath fs_time readable sid cwd active others f =
     (case sid of
        None \<Rightarrow> (None, f)
      | Some i \<Rightarrow>
          if i = [] then (None, f)
          else let proj = destProjectDir realpath cwd;
                   destFile = path_join [active, ''projects'', proj, i @ ''.jsonl''];
                   merge = mergeTree fs_time readable
               in case newest (findTranscripts f i (active # others)) of
                    None \<Rightarrow> (None, f)
                  | Some best \<Rightarrow>
                      if path_resolve pwd (fd_file best) = path_resolve pwd destFile then (None, f)
                      else let f1 = AList.update destFile (copied fs_time (fd_stat best)) f;
                               f2 = merge (path_join [fd_configDir best, ''projects'', fd_project best, i])
                                      (path_join [active, ''projects'', proj, i]) f1;
                               f3 = fold (\<lambda>n. merge (path_join [fd_configDir best, n, i]) (path_join [active, n, i]))
                                      ROOT_SIDECAR_DIRS f2
                           in (Some (fd_file best, destFile), f3))"

section \<open>The newest copy\<close>

lemma newer_trans: "isNewer a b \<Longrightarrow> \<not> isNewer c b \<Longrightarrow> \<not> isNewer c a" and newer_irrefl: "\<not> isNewer a a"
  by (auto simp: isNewer_def split: if_splits)

lemma newest_from:
  "fold take_newer cs best = Some b \<Longrightarrow>
   (b \<in> set cs \<or> best = Some b) \<and> (\<forall>c. c \<in> set cs \<or> best = Some c \<longrightarrow> \<not> isNewer (fd_stat c) (fd_stat b))"
proof (induction cs arbitrary: best)
  case (Cons c cs)
  let ?t = "take_newer c best"
  have "fold take_newer cs ?t = Some b" using Cons.prems by simp
  from Cons.IH [OF this] have ih: "(b \<in> set cs \<or> ?t = Some b)"
    "\<And>x. x \<in> set cs \<or> ?t = Some x \<Longrightarrow> \<not> isNewer (fd_stat x) (fd_stat b)"
    by blast+
  have t: "?t = Some c \<or> (?t = best \<and> best \<noteq> None)" by (auto simp: take_newer_def split: option.split)
  have "\<not> isNewer (fd_stat x) (fd_stat b)" if "x = c \<or> best = Some x" for x
  proof (cases best)
    case None
    with that ih(2) show ?thesis by (simp add: take_newer_def)
  next
    case (Some y)
    show ?thesis
    proof (cases "isNewer (fd_stat c) (fd_stat y)")
      case True
      with Some ih(2) [of c] that newer_trans [OF True] show ?thesis
        by (auto simp: take_newer_def isNewer_def split: if_splits)
    next
      case False
      with Some ih(2) [of y] that show ?thesis
        by (auto simp: take_newer_def isNewer_def split: if_splits)
    qed
  qed
  then have "\<forall>x. x \<in> set (c # cs) \<or> best = Some x \<longrightarrow> \<not> isNewer (fd_stat x) (fd_stat b)"
    using ih(2) by (metis set_ConsD)
  moreover have "b \<in> set (c # cs) \<or> best = Some b" using ih(1) t by auto
  ultimately show ?case by blast
qed (simp add: newer_irrefl)

lemma newest_Some:
  "newest cs = Some b \<Longrightarrow> b \<in> set cs \<and> (\<forall>c\<in>set cs. \<not> isNewer (fd_stat c) (fd_stat b))"
  using newest_from [of cs None b] by (auto simp: newest_def)

lemma fold_take_newer_Some: "fold take_newer cs (Some b) \<noteq> None"
proof (induction cs arbitrary: b)
  case (Cons c cs)
  have "take_newer c (Some b) = Some c \<or> take_newer c (Some b) = Some b" by (simp add: take_newer_def)
  with Cons show ?case by auto
qed simp

lemma newest_None: "newest cs = None \<longleftrightarrow> cs = []"
proof (cases cs)
  case (Cons c l)
  then have "newest cs = fold take_newer l (Some c)" by (simp add: newest_def take_newer_def)
  with Cons fold_take_newer_Some [of l c] show ?thesis by simp
qed (simp add: newest_def)

text \<open>What is found is on disk, and every copy in a listed project directory is found.\<close>

definition copy_at :: "fs \<Rightarrow> string \<Rightarrow> string \<Rightarrow> string \<Rightarrow> tfile \<Rightarrow> bool" where
  "copy_at f i cdir project x =
     (project \<in> set (readdir f (path_join [cdir, ''projects'']))
      \<and> map_of f (path_join [path_join [cdir, ''projects''], project, i @ ''.jsonl'']) = Some x)"

lemma find_project_keeps: "set acc \<subseteq> set (find_in_project f i d p acc)"
  by (auto simp: find_in_project_def Let_def split: option.split)

lemma find_projects_keep: "set acc \<subseteq> set (fold (find_in_project f i d) ps acc)"
proof (induction ps arbitrary: acc)
  case (Cons p ps)
  from Cons [of "find_in_project f i d p acc"] find_project_keeps [of acc f i d p] show ?case by auto
qed simp

lemma find_dirs_keep: "set acc \<subseteq> set (fold (find_in_dir f i) ds acc)"
proof (induction ds arbitrary: acc)
  case (Cons d ds)
  from Cons [of "find_in_dir f i d acc"] find_projects_keep [of acc f i d] show ?case
    by (auto simp: find_in_dir_def)
qed simp

definition sound :: "fs \<Rightarrow> found list \<Rightarrow> bool" where
  "sound f acc = (\<forall>c\<in>set acc. map_of f (fd_file c) = Some (fd_stat c))"

lemma find_project_sound: "sound f acc \<Longrightarrow> sound f (find_in_project f i d p acc)"
  by (auto simp: find_in_project_def sound_def Let_def split: option.split)

lemma find_project_complete:
  assumes "sound f acc" and "map_of f (path_join [path_join [d, ''projects''], p, i @ ''.jsonl'']) = Some x"
  shows "\<exists>c\<in>set (find_in_project f i d p acc). fd_stat c = x"
  using assms by (auto simp: find_in_project_def sound_def Let_def)

lemma find_projects:
  "sound f acc \<Longrightarrow>
   sound f (fold (find_in_project f i d) ps acc)
   \<and> (\<forall>p\<in>set ps. \<forall>x. map_of f (path_join [path_join [d, ''projects''], p, i @ ''.jsonl'']) = Some x \<longrightarrow>
        (\<exists>c\<in>set (fold (find_in_project f i d) ps acc). fd_stat c = x))"
proof (induction ps arbitrary: acc)
  case (Cons q ps)
  let ?a = "find_in_project f i d q acc"
  have s: "sound f ?a" using Cons.prems find_project_sound by simp
  have "\<exists>c\<in>set (fold (find_in_project f i d) ps ?a). fd_stat c = x"
    if "map_of f (path_join [path_join [d, ''projects''], q, i @ ''.jsonl'']) = Some x" for x
    using find_project_complete [OF Cons.prems that] find_projects_keep [of ?a f i d ps] by auto
  with Cons.IH [OF s] show ?case by auto
qed simp

lemma find_dirs:
  "sound f acc \<Longrightarrow>
   sound f (fold (find_in_dir f i) ds acc)
   \<and> (\<forall>d\<in>set ds. \<forall>p x. copy_at f i d p x \<longrightarrow> (\<exists>c\<in>set (fold (find_in_dir f i) ds acc). fd_stat c = x))"
proof (induction ds arbitrary: acc)
  case (Cons e ds)
  let ?a = "find_in_dir f i e acc"
  have fp: "sound f ?a \<and> (\<forall>p x. copy_at f i e p x \<longrightarrow> (\<exists>c\<in>set ?a. fd_stat c = x))"
    using find_projects [OF Cons.prems, of i e "readdir f (path_join [e, ''projects''])"]
    by (auto simp: find_in_dir_def copy_at_def)
  have "\<exists>c\<in>set (fold (find_in_dir f i) ds ?a). fd_stat c = x" if "copy_at f i e p x" for p x
    using fp that find_dirs_keep [of ?a f i ds] by blast
  moreover have "sound f ?a" using fp by simp
  ultimately show ?case using Cons.IH [of ?a] by auto
qed simp

lemma found_sound: "c \<in> set (findTranscripts f i ds) \<Longrightarrow> map_of f (fd_file c) = Some (fd_stat c)"
  using find_dirs [of f "[]" i ds] by (simp add: findTranscripts_def sound_def)

lemma found_complete: "d \<in> set ds \<Longrightarrow> copy_at f i d p x \<Longrightarrow> \<exists>c\<in>set (findTranscripts f i ds). fd_stat c = x"
  using find_dirs [of f "[]" i ds] by (auto simp: findTranscripts_def sound_def)

section \<open>The copy stays what it is\<close>

lemma merge_file_other:
  "q \<noteq> dest @ slash # fst e \<Longrightarrow> map_of (merge_file ft rd src dest e f) q = map_of f q"
  by (auto simp: merge_file_def Let_def update_conv' split: option.split)

lemma fold_merge_other:
  "\<not> starts_with q (dest @ [slash]) \<Longrightarrow> map_of (fold (merge_file ft rd src dest) es f) q = map_of f q"
proof (induction es arbitrary: f)
  case (Cons e es)
  have "q \<noteq> dest @ slash # fst e" using Cons.prems by (auto simp: starts_with_iff)
  with Cons show ?case by (simp add: merge_file_other)
qed simp

lemma mergeTree_other:
  "\<not> starts_with q (dest @ [slash]) \<Longrightarrow> map_of (mergeTree ft rd src dest f) q = map_of f q"
  by (simp add: mergeTree_def fold_merge_other)

lemma merges_other:
  "(\<And>n. n \<in> set ns \<Longrightarrow> \<not> starts_with q (t n @ [slash])) \<Longrightarrow>
   map_of (fold (\<lambda>n. mergeTree ft rd (s n) (t n)) ns f) q = map_of f q"
  by (induction ns arbitrary: f) (simp_all add: mergeTree_other)

text \<open>The directories merged into are beside the transcript, never above it.\<close>

lemma projectDirName_chars: "slash \<notin> set (projectDirName w)" "CHR ''.'' \<notin> set (projectDirName w)"
  by (auto simp: projectDirName_def slash_def is_alnum_def is_alpha_def is_digit_def is_lower_def is_upper_def split: if_splits)

lemma dest_apart:
  assumes "is_absolute active" and "plain_seg i"
    and dest: "dest = path_join [active, ''projects'', destProjectDir realpath cwd, i @ ''.jsonl'']"
  shows "\<not> starts_with dest (path_join [active, ''projects'', destProjectDir realpath cwd, i] @ [slash])"
    and "n \<in> set ROOT_SIDECAR_DIRS \<Longrightarrow> \<not> starts_with dest (path_join [active, n, i] @ [slash])"
proof -
  let ?p = "destProjectDir realpath cwd"
  have p: "?p = [] \<or> plain_seg ?p"
    using projectDirName_chars [of "case realpath cwd of Some q \<Rightarrow> q | None \<Rightarrow> cwd"]
    by (auto simp: destProjectDir_def plain_seg_def)
  have j: "plain_seg (i @ ''.jsonl'')" "i \<noteq> []" using assms(2) by (auto simp: plain_seg_def slash_def)
  have w: "plain_seg ''projects''" "plain_seg ''session-env''" "plain_seg ''tasks''"
    by (simp_all add: plain_seg_def slash_def)
  show "\<not> starts_with dest (path_join [active, ''projects'', ?p, i] @ [slash])"
    unfolding dest using p j w assms(1,2)
    by (auto simp: path_join_below starts_with_iff slash_def)
  show "n \<in> set ROOT_SIDECAR_DIRS \<Longrightarrow> \<not> starts_with dest (path_join [active, n, i] @ [slash])"
    unfolding dest ROOT_SIDECAR_DIRS_def using p j w assms(1,2)
    by (auto simp: path_join_below starts_with_iff)
qed

text \<open>Every copy found is an absolute, resolved path, like the one the SDK will read.\<close>

lemma found_path:
  assumes "c \<in> set (findTranscripts f i ds)"
  shows "\<exists>d\<in>set ds. fd_project c \<in> set (readdir f (path_join [d, ''projects'']))
    \<and> fd_file c = path_join [path_join [d, ''projects''], fd_project c, i @ ''.jsonl'']"
proof -
  let ?at = "\<lambda>c d. fd_project c \<in> set (readdir f (path_join [d, ''projects'']))
    \<and> fd_file c = path_join [path_join [d, ''projects''], fd_project c, i @ ''.jsonl'']"
  have p: "\<forall>c\<in>set (fold (find_in_project f i d) ps acc). c \<in> set acc \<or> ?at c d"
    if "set ps \<subseteq> set (readdir f (path_join [d, ''projects'']))" for d ps acc
    using that
  proof (induction ps arbitrary: acc)
    case (Cons q ps)
    have "c \<in> set acc \<or> ?at c d" if "c \<in> set (find_in_project f i d q acc)" for c
      using that Cons.prems by (auto simp: find_in_project_def Let_def split: option.splits if_splits)
    moreover have "c \<in> set (find_in_project f i d q acc) \<or> ?at c d"
      if "c \<in> set (fold (find_in_project f i d) (q # ps) acc)" for c
      using Cons.IH [of "find_in_project f i d q acc"] Cons.prems that by auto
    ultimately show ?case by blast
  qed simp
  have "\<forall>c\<in>set (fold (find_in_dir f i) es acc). c \<in> set acc \<or> (\<exists>d\<in>set es. ?at c d)" for es acc
  proof (induction es arbitrary: acc)
    case (Cons e es)
    have "c \<in> set acc \<or> ?at c e" if "c \<in> set (find_in_dir f i e acc)" for c
      using that p [OF subset_refl, of e acc] unfolding find_in_dir_def by blast
    moreover have "c \<in> set (find_in_dir f i e acc) \<or> (\<exists>d\<in>set es. ?at c d)"
      if "c \<in> set (fold (find_in_dir f i) (e # es) acc)" for c
      using Cons.IH [of "find_in_dir f i e acc"] that by auto
    ultimately show ?case by (metis list.set_intros)
  qed simp
  from this [of ds "[]"] assms show ?thesis by (simp add: findTranscripts_def)
qed

lemma found_copy:
  "c \<in> set (findTranscripts f i ds) \<Longrightarrow> \<exists>d\<in>set ds. copy_at f i d (fd_project c) (fd_stat c)"
  using found_path [of c f i ds] found_sound [of c f i ds] unfolding copy_at_def by metis

lemma copies_resolved:
  assumes "is_absolute d"
  shows "path_resolve pwd (path_join [path_join [d, ''projects''], p, i @ ''.jsonl''])
      = path_join [path_join [d, ''projects''], p, i @ ''.jsonl'']"
    and "path_resolve pwd (path_join [d, ''projects'', p, i @ ''.jsonl''])
      = path_join [d, ''projects'', p, i @ ''.jsonl'']"
  using assms by (auto intro!: path_resolve_join path_join_absolute simp: slash_def)

text \<open>
  A newest one of the copies in these directories: none has a later time, nor the same time and more bytes.
\<close>

definition newest_copy :: "fs \<Rightarrow> string \<Rightarrow> string list \<Rightarrow> tfile \<Rightarrow> bool" where
  "newest_copy f i ds b =
     ((\<exists>d\<in>set ds. \<exists>p. copy_at f i d p b) \<and> (\<forall>d\<in>set ds. \<forall>p x. copy_at f i d p x \<longrightarrow>
          tf_mtime x < tf_mtime b \<or> tf_mtime x = tf_mtime b \<and> length (tf_bytes x) \<le> length (tf_bytes b)))"

lemma not_newer_iff:
  "\<not> isNewer x b \<longleftrightarrow>
   tf_mtime x < tf_mtime b \<or> tf_mtime x = tf_mtime b \<and> length (tf_bytes x) \<le> length (tf_bytes b)"
  by (auto simp: isNewer_def)

lemma newest_is_copy:
  assumes "newest (findTranscripts f i ds) = Some b"
  shows "newest_copy f i ds (fd_stat b)"
  unfolding newest_copy_def not_newer_iff [symmetric]
  using newest_Some [OF assms] found_copy [of b f i ds] found_complete [of _ ds f i] by blast

theorem sync_newest:
  assumes sync: "ensureSdkTranscript pwd realpath ft rd (Some i) cwd active others f = (r, f')"
    and i: "plain_seg i" and ab: "list_all is_absolute (active # others)"
    and c: "copy_at f i d p x" "d \<in> set (active # others)"
  shows "\<exists>b. newest_copy f i (active # others) b
    \<and> map_of f' (path_join [active, ''projects'', destProjectDir realpath cwd, i @ ''.jsonl''])
        = Some (if r = None then b else copied ft b)"
proof -
  let ?cs = "findTranscripts f i (active # others)"
  let ?proj = "destProjectDir realpath cwd"
  let ?dest = "path_join [active, ''projects'', ?proj, i @ ''.jsonl'']"
  have ne: "i \<noteq> []" using i by (simp add: plain_seg_def)
  obtain b where b: "newest ?cs = Some b"
    using found_complete [OF c(2,1)] newest_None [of ?cs] by (cases "newest ?cs") auto
  then have bs: "b \<in> set ?cs" using newest_Some [OF b] by blast
  note nb = newest_is_copy [OF b]
  show ?thesis
  proof (cases "path_resolve pwd (fd_file b) = path_resolve pwd ?dest")
    case True
    obtain e where e: "e \<in> set (active # others)"
      "fd_file b = path_join [path_join [e, ''projects''], fd_project b, i @ ''.jsonl'']"
      using found_path [OF bs] by blast
    then have "is_absolute e" "is_absolute active" using ab by (auto simp: list_all_iff)
    then have "fd_file b = ?dest" using True copies_resolved e(2) by metis
    moreover have "f' = f" "r = None" using sync ne b True by (simp_all add: ensureSdkTranscript_def Let_def)
    ultimately show ?thesis using found_sound [OF bs] nb by (intro exI [of _ "fd_stat b"]) simp
  next
    case False
    let ?f1 = "AList.update ?dest (copied ft (fd_stat b)) f"
    let ?f2 = "mergeTree ft rd (path_join [fd_configDir b, ''projects'', fd_project b, i])
        (path_join [active, ''projects'', ?proj, i]) ?f1"
    have f': "f' = fold (\<lambda>n. mergeTree ft rd (path_join [fd_configDir b, n, i]) (path_join [active, n, i]))
        ROOT_SIDECAR_DIRS ?f2" and r: "r \<noteq> None"
      using sync ne b False by (auto simp: ensureSdkTranscript_def Let_def)
    have "is_absolute active" using ab by simp
    note apart = dest_apart [OF this i refl]
    have "map_of f' ?dest = map_of ?f2 ?dest" unfolding f' by (rule merges_other) (rule apart(2))
    also have "\<dots> = map_of ?f1 ?dest" by (rule mergeTree_other) (rule apart(1))
    finally have "map_of f' ?dest = Some (copied ft (fd_stat b))" by (simp add: update_conv')
    with nb r show ?thesis by auto
  qed
qed

text \<open>Afterwards the SDK finds a transcript, whenever there was a copy anywhere.\<close>

corollary sync_resumable:
  assumes "ensureSdkTranscript pwd realpath ft rd (Some i) cwd active others f = (r, f')"
    and "plain_seg i" and "list_all is_absolute (active # others)"
    and "copy_at f i d p x" and "d \<in> set (active # others)"
  shows "sdkTranscriptExists f' realpath i cwd active"
  using sync_newest [OF assms] by (auto simp: sdkTranscriptExists_def)

text \<open>
  The copy's time is the original's to half a millisecond and the file system's own error. Where
  it is rounded down, the original still counts as newer than its copy.
\<close>

lemma date_ms_near: "\<bar>date_ms t - t\<bar> \<le> 1 / 2"
  unfolding date_ms_def by linarith

lemma copied_near:
  assumes "\<And>t. \<bar>ft t - t\<bar> \<le> e"
  shows "tf_bytes (copied ft x) = tf_bytes x \<and> \<bar>tf_mtime (copied ft x) - tf_mtime x\<bar> \<le> 1 / 2 + e"
proof -
  have "\<bar>ft (date_ms (tf_mtime x)) - tf_mtime x\<bar> \<le> 1 / 2 + e"
    using assms [of "date_ms (tf_mtime x)"] date_ms_near [of "tf_mtime x"] unfolding abs_le_iff by linarith
  then show ?thesis by (simp add: copied_def)
qed

lemma rounded_copy_is_older:
  assumes "date_ms (tf_mtime x) < tf_mtime x"
  shows "isNewer x (copied (\<lambda>t. t) x)"
  using assms by (simp add: isNewer_def copied_def)

end
