(* ===== verification/StateTheorems.thy ===== *)
theory StateTheorems
  imports Registry Push Uploads Lock TranscriptSync SharedSetup
begin

text \<open>
  What the daemon keeps on disk and shares with other processes: its registry, the uploads, the
  phones, the lock, the transcripts and the sign-ins of the accounts.
\<close>

section \<open>The registry\<close>

text \<open>
  C19: the registry on disk is the registry. After any creations, renames, touches and deletions
  whose saves went through, a start on the same file loads exactly the records of memory; and one
  more save, wherever a crash stops it, leaves a file that holds the records before it or after it.
\<close>

theorem registry_survives:
  assumes "reg_saved (r0, dir0)" and "list_all (\<lambda>(p, oper). p = Renamed \<and> op_plain oper) ops"
    and "run_ops pid ops (r0, dir0) = (r, dir)"
    and "op_plain oper" and "edit oper r = Some r'"
  shows "load now rok (r \<lparr>rg_sessions := []\<rparr>) dir = (None, r, dir)
    \<and> (\<exists>m\<in>{rg_sessions r, rg_sessions r'}.
         load now rok (r \<lparr>rg_sessions := []\<rparr>) (save pid p r' dir) = (None, r \<lparr>rg_sessions := m\<rparr>, save pid p r' dir))"
proof -
  have s: "reg_saved (r, dir)" using run_saved [OF assms(1,2), of pid] assms(3) by simp
  then have "rg.holds (rg_path r) (rg_sessions r) dir" by (simp add: reg_saved_def)
  moreover obtain m where "m \<in> {rg_sessions r, rg_sessions r'}" "rg.holds (rg_path r) m (save pid p r' dir)"
    using crash_keeps_registry [OF s assms(4,5)] by blast
  ultimately show ?thesis using load_saved [of "r \<lparr>rg_sessions := []\<rparr>"] by auto
qed

definition new_registry :: registry where
  "new_registry = \<lparr>rg_sessions = [], rg_path = ''/s/sessions.json''\<rparr>"

lemma new_registry_saved: "reg_saved (new_registry, save 1 Renamed new_registry [])"
  using save_holds [of new_registry] by (simp add: reg_saved_def reg_ok_def om_wf_def new_registry_def)

theorem registry_survives_witness:
  "\<exists>r dir. run_ops 1 [(Renamed, Create ''a'' ''/w'' (Some ''t'') 0)] (new_registry, save 1 Renamed new_registry []) = (r, dir)
    \<and> load 0 True (r \<lparr>rg_sessions := []\<rparr>) dir = (None, r, dir) \<and> map fst (rg_sessions r) = [''a'']"
proof -
  obtain r dir where r: "run_ops 1 [(Renamed, Create ''a'' ''/w'' (Some ''t'') 0)]
      (new_registry, save 1 Renamed new_registry []) = (r, dir)" by fastforce
  have "op_plain (Create ''a'' ''/w'' (Some ''t'') 0)" using num_plain_of_nat [of 0] by simp
  then have "load 0 True (r \<lparr>rg_sessions := []\<rparr>) dir = (None, r, dir)"
    using registry_survives [OF new_registry_saved _ r, of "Delete ''a''"] by simp
  moreover have "map fst (rg_sessions r) = [''a'']"
    using r by (auto simp: apply_op_def put_meta_def new_registry_def)
  ultimately show ?thesis using r by (intro exI conjI)
qed

section \<open>Uploads\<close>

text \<open>
  C20: an upload arrives whole or not at all. However the chunks of a file come (repeated, out of
  order, refused by a full disk half way), the part on disk is always a prefix of the file; and the
  path the daemon answers with holds exactly the file's bytes.
\<close>

theorem upload_is_exact:
  assumes "upload_ok F updir u dir" and "list_all (\<lambda>(wrote, c). chunk_of F u c) cs" and "chunk_of F u c"
    and "uploadBytes wrote updir c (upload_run updir cs dir) = (Inr \<lparr>up_received = n, up_path = path\<rparr>, dir')"
  shows "(\<exists>k. held dir' (partPath updir u) = take k F)
    \<and> (case path of None \<Rightarrow> True | Some p \<Rightarrow> map_of dir' p = Some F \<and> n = length F)"
  using uploadBytes_exact [OF upload_run_ok [OF assms(1,2)] assms(3,4)]
  by (auto simp: upload_ok_def split: option.split)

definition sample_chunk :: "nat \<Rightarrow> string \<Rightarrow> bool \<Rightarrow> upload_chunk" where
  "sample_chunk k bytes fin =
     \<lparr>uc_session = ''s1'', uc_upload = ''u1'', uc_name = ''photo.png'', uc_offset = JNum (of_nat k),
      uc_bytes = bytes, uc_done = fin\<rparr>"

lemma sample_chunk_ok:
  "k + length b \<le> length F \<Longrightarrow> b = take (length b) (drop k F) \<Longrightarrow> (fin \<Longrightarrow> k + length b = length F) \<Longrightarrow>
   chunk_of F (sample_chunk 0 [] False) (sample_chunk k b fin)"
  by (simp add: chunk_of_def sample_chunk_def good_offset_def)

lemma sample_ids [simp]: "good_id ''s1''" "good_id ''u1''"
  by code_simp+

lemma small_upload [simp]: "n \<le> 10 \<Longrightarrow> \<not> MAX_UPLOAD_BYTES < n"
  by (simp add: MAX_UPLOAD_BYTES_def)

lemma sample_step:
  "uploadBytes None ''/up'' (sample_chunk k b fin) dir =
     (let f = finalPath ''/up'' (sample_chunk 0 [] False); p = partPath ''/up'' (sample_chunk 0 [] False) in
      case map_of dir f of
        Some x \<Rightarrow> (Inr \<lparr>up_received = length x, up_path = Some f\<rparr>, dir)
      | None \<Rightarrow>
          if k \<noteq> length (held dir p) then (Inr \<lparr>up_received = length (held dir p), up_path = None\<rparr>, dir)
          else if MAX_UPLOAD_BYTES < length (held dir p) + length b then (Inl too_large, AList.delete p dir)
          else if \<not> fin then (Inr \<lparr>up_received = length (held dir p) + length b, up_path = None\<rparr>,
                write_file p (held dir p @ b) dir)
          else (Inr \<lparr>up_received = length (held dir p) + length b, up_path = Some f\<rparr>,
                rename_file p f (write_file p (held dir p @ b) dir)))"
  by (simp add: uploadBytes_def Let_def sample_chunk_def good_offset_def finalPath_def partPath_def upload_dir_def
      split: option.split)

theorem upload_is_exact_witness:
  "\<exists>n path dir'. uploadBytes None ''/up'' (sample_chunk 2 ''cd'' True)
      (upload_run ''/up'' [(None, sample_chunk 0 ''ab'' False), (None, sample_chunk 0 ''ab'' False)] [])
      = (Inr \<lparr>up_received = n, up_path = Some path\<rparr>, dir') \<and> map_of dir' path = Some ''abcd''"
proof -
  let ?u = "sample_chunk 0 [] False"
  let ?run = "upload_run ''/up'' [(None, sample_chunk 0 ''ab'' False), (None, sample_chunk 0 ''ab'' False)] []"
  have ok: "upload_ok ''abcd'' ''/up'' ?u []" by (auto simp: upload_ok_def held_def intro: exI [of _ 0])
  have cs: "chunk_of ''abcd'' ?u (sample_chunk 0 ''ab'' False)" "chunk_of ''abcd'' ?u (sample_chunk 2 ''cd'' True)"
    by (rule sample_chunk_ok; simp)+
  have "finalPath ''/up'' ?u \<noteq> partPath ''/up'' ?u" by (rule upload_paths_differ) (simp add: sample_chunk_def)
  moreover have "finalPath ''/up'' (sample_chunk 0 [] False) = finalPath ''/up'' ?u" by simp
  ultimately have d: "partPath ''/up'' ?u \<noteq> finalPath ''/up'' ?u" by metis
  let ?d1 = "write_file (partPath ''/up'' ?u) ''ab'' []"
  have 1: "uploadBytes None ''/up'' (sample_chunk 0 ''ab'' False) []
      = (Inr \<lparr>up_received = 2, up_path = None\<rparr>, ?d1)"
    by (simp add: sample_step Let_def held_def)
  have h: "held ?d1 (partPath ''/up'' ?u) = ''ab''" "map_of ?d1 (finalPath ''/up'' ?u) = None"
    using d by (simp_all add: held_def map_of_write_file)
  have 2: "uploadBytes None ''/up'' (sample_chunk 0 ''ab'' False) ?d1
      = (Inr \<lparr>up_received = 2, up_path = None\<rparr>, ?d1)"
    using h by (simp add: sample_step Let_def)
  have "\<exists>path d. uploadBytes None ''/up'' (sample_chunk 2 ''cd'' True) ?run
      = (Inr \<lparr>up_received = 4, up_path = Some path\<rparr>, d)"
    using h by (simp add: 1 2 sample_step [of 2] Let_def)
  then obtain path d where d: "uploadBytes None ''/up'' (sample_chunk 2 ''cd'' True) ?run
      = (Inr \<lparr>up_received = 4, up_path = Some path\<rparr>, d)" by blast
  from upload_is_exact [OF ok _ cs(2) d] cs(1) d show ?thesis by auto
qed

section \<open>Phones\<close>

text \<open>
  C21: that a request is settled is said only of a request that was put to some phone. In every run,
  a notice of that kind goes out only for a remembered request, which it makes forgotten; the request
  was put to the phones in an earlier step and not called settled since; the notice goes to exactly
  the phones that show requests now, and each of them was told of the request in that step or
  registered after it. A request that was put to a phone is remembered; at most 500 are, each once.
\<close>

theorem settled_only_if_announced:
  assumes "push_trace s run" and "push_step oper s = (s', out)"
  shows "(\<forall>t key. sent_to t Resolved key out \<longrightarrow>
            key \<in> set (ps_announced s) \<and> key \<notin> set (ps_announced s')
            \<and> map fst out = wanting Attention (ps_tokens s)
            \<and> (\<exists>j. put_at key run j \<and> (\<forall>u\<in>set (map fst out). told_or_late u key run j)))
    \<and> (\<forall>key. told Attention key out \<longrightarrow> key \<in> set (ps_announced s'))
    \<and> distinct (ps_announced s') \<and> length (ps_announced s') \<le> MAX_ANNOUNCED"
proof -
  note inv = push_trace_inv [OF assms(1)]
  have "\<exists>j. put_at key run j \<and> (\<forall>u\<in>set (map fst out). told_or_late u key run j)"
    if "sent_to t Resolved key out" for t key
    using inv settled_step [OF inv assms(2) that] by (auto simp: push_inv_def request_known_def)
  moreover have "distinct (ps_announced s') \<and> length (ps_announced s') \<le> MAX_ANNOUNCED"
    using push_step_inv [OF inv assms(2)] by (simp add: push_inv_def)
  ultimately show ?thesis
    using settled_step [OF inv assms(2)] put_is_remembered [OF inv assms(2)] by blast
qed

definition one_phone :: push_state where
  "one_phone = \<lparr>ps_tokens = [(''p1'', [Attention, Finished])], ps_announced = []\<rparr>"

lemma one_phone_trace: "push_trace one_phone []"
  unfolding one_phone_def by (rule push_trace.start) (simp add: tokens_fit_def om_wf_def ALL_KINDS_def)

text \<open>A request put to a phone, a second phone that registers, and the answer: both hear of it.\<close>

definition asked_op :: push_op where
  "asked_op = Op_event ''c'' ''t'' (Permission_request ''r'' ''Bash'' JNull)"

definition second_op :: push_op where
  "second_op = Op_register ''p2'' JNull"

definition settled_op :: push_op where
  "settled_op = Op_event ''c'' ''t'' (Permission_resolved ''r'' True None)"

lemmas push_sample_simps = asked_op_def second_op_def settled_op_def onEvent_def on_notice_def Let_def
  notice_def notice_key_def wanting_def one_phone_def announce_def Push.set_add_def MAX_ANNOUNCED_def
  register_def add_def ALL_KINDS_def told_def sent_to_def

lemma late_phone_run:
  obtains s1 o1 s2 s3 o3 where
    "push_step asked_op one_phone = (s1, o1)" "push_step second_op s1 = (s2, [])"
    "push_step settled_op s2 = (s3, o3)"
    "push_trace s2 [(asked_op, o1), (second_op, [])]"
    "map fst o1 = [''p1'']" "told Attention ''c:r'' o1"
    "map fst o3 = [''p1'', ''p2'']" "sent_to ''p2'' Resolved ''c:r'' o3"
proof -
  obtain s1 o1 where 1: "push_step asked_op one_phone = (s1, o1)" by fastforce
  obtain s2 o2 where 2: "push_step second_op s1 = (s2, o2)" by fastforce
  obtain s3 o3 where 3: "push_step settled_op s2 = (s3, o3)" by fastforce
  have o2: "o2 = []" using 2 by (simp add: second_op_def)
  have "push_trace s2 (([] @ [(asked_op, o1)]) @ [(second_op, o2)])"
    using push_trace.step [OF push_trace.step [OF one_phone_trace 1] 2] .
  then have t: "push_trace s2 [(asked_op, o1), (second_op, [])]" using o2 by simp
  have s1: "s1 = \<lparr>ps_tokens = [(''p1'', [Attention, Finished])], ps_announced = [''c:r'']\<rparr>
      \<and> map fst o1 = [''p1''] \<and> told Attention ''c:r'' o1"
    using 1 by (auto simp: push_sample_simps)
  then have s2: "s2 = \<lparr>ps_tokens = [(''p1'', [Attention, Finished]), (''p2'', [Attention, Finished])],
      ps_announced = [''c:r'']\<rparr>"
    using 2 by (auto simp: push_sample_simps)
  then have "map fst o3 = [''p1'', ''p2''] \<and> sent_to ''p2'' Resolved ''c:r'' o3"
    using 3 by (auto simp: push_sample_simps)
  with s1 that [OF 1 2 [unfolded o2] 3 t] show thesis by simp
qed

theorem settled_only_if_announced_witness:
  "\<exists>s1 o1 s2 s3 o3. push_step asked_op one_phone = (s1, o1) \<and> push_step second_op s1 = (s2, [])
     \<and> push_step settled_op s2 = (s3, o3) \<and> map fst o1 = [''p1''] \<and> map fst o3 = [''p1'', ''p2'']
     \<and> ps_announced s1 \<noteq> [] \<and> ''c:r'' \<notin> set (ps_announced s3)
     \<and> (\<exists>j. put_at ''c:r'' [(asked_op, o1), (second_op, [])] j
            \<and> told_or_late ''p2'' ''c:r'' [(asked_op, o1), (second_op, [])] j)"
proof -
  obtain s1 o1 s2 s3 o3 where r: "push_step asked_op one_phone = (s1, o1)" "push_step second_op s1 = (s2, [])"
    "push_step settled_op s2 = (s3, o3)" "push_trace s2 [(asked_op, o1), (second_op, [])]"
    "map fst o1 = [''p1'']" "told Attention ''c:r'' o1"
    "map fst o3 = [''p1'', ''p2'']" "sent_to ''p2'' Resolved ''c:r'' o3"
    by (rule late_phone_run)
  have "push_trace one_phone []" by (rule one_phone_trace)
  from settled_only_if_announced [OF this r(1)] r(6) have "ps_announced s1 \<noteq> []" by auto
  moreover from settled_only_if_announced [OF r(4) r(3)] r(8)
  have "''c:r'' \<notin> set (ps_announced s3) \<and> (\<exists>j. put_at ''c:r'' [(asked_op, o1), (second_op, [])] j
      \<and> (\<forall>u\<in>set (map fst o3). told_or_late u ''c:r'' [(asked_op, o1), (second_op, [])] j))" by blast
  ultimately show ?thesis using r(1,2,3,5,7) by auto
qed

section \<open>The lock\<close>

text \<open>
  C22: a daemon that takes over signals nobody but the holder of the lock: the process signalled
  answers no probe, is not this one, is alive, and is the very process that wrote the lock, by
  number and start time.
\<close>

theorem only_the_holder_is_signalled:
  assumes "x \<in> set (cl_signalled (claimOwnership w cw pid f))"
  shows "x \<noteq> pid \<and> isAlive w x \<and> f \<noteq> None \<and> \<not> socketServing (cw_probe cw)
    \<and> (\<exists>t. readLockHolder f = Some \<lparr>lh_pid = x, lh_startedAt = Some t\<rparr> \<and> processStartTime w x = Some t)"
  by (rule claim_signals [OF assms])

definition sample_machine :: machine where
  "sample_machine =
     \<lparr>stat_of = (\<lambda>p. if p = 7 then Some ''7 (node) S 1 2 3 4 5 6 7 8 9 10 11 12 13 14 15 16 17 18 99 20'' else None),
      kill0 = (\<lambda>p. if p = 7 then Kill_ok else Kill_failed)\<rparr>"

lemma sample_start: "processStartTime sample_machine 7 = Some ''99''"
proof -
  have "start_field ''7 (node) S 1 2 3 4 5 6 7 8 9 10 11 12 13 14 15 16 17 18 99 20'' = Some ''99''" by code_simp
  then show ?thesis by (simp add: processStartTime_def sample_machine_def)
qed

lemma sample_claim:
  "cl_signalled (claimOwnership sample_machine \<lparr>cw_probe = [Timed_out], cw_after_probe = id, cw_after_grace = id\<rparr> 8
      (Some (lockText sample_machine 7))) = [7]"
proof -
  have h: "readLockHolder (Some (lockText sample_machine 7)) = Some \<lparr>lh_pid = 7, lh_startedAt = Some ''99''\<rparr>"
    using readLockHolder_lockText [of 7 sample_machine] by (simp add: sample_start)
  have "kill0 sample_machine 7 = Kill_ok" by (simp add: sample_machine_def)
  then have i: "holderIsIdentified sample_machine (Some \<lparr>lh_pid = 7, lh_startedAt = Some ''99''\<rparr>)"
    by (simp add: holderIsIdentified_def holderIsRunning_def isAlive_def sample_start)
  then have "defers_to sample_machine 8 (Some (lockText sample_machine 7))"
    by (simp add: defers_to_def h holderIsIdentified_def)
  then show ?thesis using h i
    by (simp add: claimOwnership_def acquire_cases [of sample_machine 8 "Some (lockText sample_machine 7)"]
        holder_pid_def Let_def socketServing.simps split: prod.split)
qed

theorem only_the_holder_is_signalled_witness:
  "\<exists>t. readLockHolder (Some (lockText sample_machine 7)) = Some \<lparr>lh_pid = 7, lh_startedAt = Some t\<rparr>"
  using only_the_holder_is_signalled [of 7 sample_machine
      "\<lparr>cw_probe = [Timed_out], cw_after_probe = id, cw_after_grace = id\<rparr>" 8 "Some (lockText sample_machine 7)"]
  by (auto simp: sample_claim)

text \<open>
  C23: two daemons that start together can both take the lock. The file exists, empty, between its
  creation and the writing of the owner; a daemon that looks then finds no holder, removes the file
  and creates its own. So can two that find the same stale lock.
\<close>

theorem two_can_take_the_lock:
  assumes "p \<noteq> q"
  shows "ls_pc (lock_run w [p, q, q, q, q, q, p] (lock_start None)) p = Ended True
    \<and> ls_pc (lock_run w [p, q, q, q, q, q, p] (lock_start None)) q = Ended True"
  by (rule lock_race [OF assms])

theorem two_can_take_the_lock_witness:
  "ls_pc (lock_run sample_machine [7, 8, 8, 8, 8, 8, 7] (lock_start None)) 7 = Ended True"
  using two_can_take_the_lock [of 7 8 sample_machine] by simp

section \<open>Transcripts and sign-ins of the accounts\<close>

text \<open>
  C24: a conversation resumed on another account continues from its newest copy. After the sync, the
  file the SDK will read is a newest one of the copies that the accounts' directories had, and where
  it was copied, it has the bytes of that copy and its modification time, to half a millisecond and
  the error \<open>e\<close> of the file system: \<open>utimes\<close> is handed a \<open>Date\<close>. The conversation's id is a plain file
  name, as the ids of the SDK are, and the accounts' directories are absolute paths.
\<close>

theorem newest_transcript_is_resumed:
  assumes "ensureSdkTranscript pwd realpath fs_time readable (Some i) cwd active others f = (r, f')"
    and "plain_seg i" and "list_all is_absolute (active # others)"
    and "copy_at f i d p x" and "d \<in> set (active # others)" and "\<And>t. \<bar>fs_time t - t\<bar> \<le> e"
  shows "\<exists>b y. newest_copy f i (active # others) b
    \<and> map_of f' (path_join [active, ''projects'', destProjectDir realpath cwd, i @ ''.jsonl'']) = Some y
    \<and> tf_bytes y = tf_bytes b \<and> \<bar>tf_mtime y - tf_mtime b\<bar> \<le> 1 / 2 + e \<and> (r = None \<longrightarrow> y = b)"
proof -
  obtain b where b: "newest_copy f i (active # others) b"
    "map_of f' (path_join [active, ''projects'', destProjectDir realpath cwd, i @ ''.jsonl''])
      = Some (if r = None then b else copied fs_time b)"
    using sync_newest [OF assms(1-5)] by blast
  have "0 \<le> e" using assms(6) [of 0] abs_ge_zero order_trans by blast
  with b copied_near [of fs_time e b] assms(6) show ?thesis
    by (intro exI [of _ b] exI [of _ "if r = None then b else copied fs_time b"]) auto
qed

text \<open>Two copies, the newer one with a time that is no whole number of milliseconds.\<close>

definition two_copies :: fs where
  "two_copies =
     [(''/a/projects/-w/c1.jsonl'', \<lparr>tf_bytes = ''old'', tf_mtime = 1\<rparr>),
      (''/b/projects/-w/c1.jsonl'', \<lparr>tf_bytes = ''newer'', tf_mtime = 9 / 4\<rparr>)]"

definition two_synced :: "fs \<Rightarrow> (string \<times> string) option \<times> fs" where
  "two_synced = ensureSdkTranscript ''/'' Some (\<lambda>t. t) (\<lambda>_. True) (Some ''c1'') ''/w'' ''/a'' [''/b'']"

theorem newest_transcript_is_resumed_witness:
  "\<exists>y. map_of (snd (two_synced two_copies))
        (path_join [''/a'', ''projects'', destProjectDir Some ''/w'', ''c1.jsonl'']) = Some y
    \<and> tf_bytes y = ''newer'' \<and> \<bar>tf_mtime y - 9 / 4\<bar> \<le> 1 / 2"
proof -
  let ?n = "\<lparr>tf_bytes = ''newer'', tf_mtime = 9 / 4\<rparr>"
  have c: "copy_at two_copies ''c1'' ''/b'' ''-w'' ?n" unfolding copy_at_def by code_simp
  have n: "newest_copy two_copies ''c1'' [''/a'', ''/b''] b \<Longrightarrow> b = ?n" for b
  proof -
    assume b: "newest_copy two_copies ''c1'' [''/a'', ''/b''] b"
    then obtain q where "map_of two_copies q = Some b" unfolding newest_copy_def copy_at_def by blast
    then have "b \<in> snd ` set two_copies" by (metis map_of_SomeD image_eqI snd_conv)
    moreover have "tf_mtime ?n \<le> tf_mtime b" using b c by (force simp: newest_copy_def)
    ultimately show "b = ?n" by (auto simp: two_copies_def)
  qed
  have "plain_seg ''c1''" by (simp add: plain_seg_def slash_def)
  from newest_transcript_is_resumed [OF surjective_pairing this _ c,
      where pwd = "''/''" and realpath = Some and fs_time = "\<lambda>t. t" and readable = "\<lambda>_. True"
        and cwd = "''/w''" and active = "''/a''" and others = "[''/b'']" and e = 0]
  obtain b y where b: "newest_copy two_copies ''c1'' [''/a'', ''/b''] b"
    "map_of (snd (two_synced two_copies)) (path_join [''/a'', ''projects'', destProjectDir Some ''/w'', ''c1.jsonl'']) = Some y"
    "tf_bytes y = tf_bytes b" "\<bar>tf_mtime y - tf_mtime b\<bar> \<le> 1 / 2"
    by (auto simp: two_synced_def is_absolute_def slash_def)
  from b(2-4) show ?thesis unfolding n [OF b(1)] by simp
qed

text \<open>The rounded copy counts as older than its source, so the next sync writes the whole file again.\<close>

lemma unchanged_transcript_rewritten:
  "fst (two_synced two_copies) \<noteq> None \<and> fst (two_synced (snd (two_synced two_copies))) \<noteq> None"
  by code_simp

end
