(* ===== verification/PlanTheorems.thy ===== *)
theory PlanTheorems
  imports Samples
begin

text \<open>
  What a chat does after a refusal: when it tries again, on which account, and what it says of
  limits, outages and agents.
\<close>

section \<open>When to try again\<close>

text \<open>
  C25: the retry of a refused turn is never at once and never out of reach: whatever the windows,
  the text and the count say, it lies between half a minute and six hours from now.
\<close>

theorem retry_plan_bounds:
  "now + MIN_WAIT_MS \<le> rp_at (planRetry ws w now n sid) \<and> rp_at (planRetry ws w now n sid) \<le> now + MAX_WAIT_MS"
  by (rule planRetry_bounds)

text \<open>
  C26: a reset time read out of a refusal is the next instant of the clock time the text names. The
  text has, at most twelve characters behind the word reset, an hour of one or two digits, a colon and
  two digits of minutes; an \<open>am\<close> or \<open>pm\<close> behind them moves the hour as twelve-hour clocks do. The result
  is that UTC time of day, in the future and at most a day away, and only read when the text names UTC.
\<close>

theorem reset_time_is_next:
  assumes "parseResetTime w now = Some r"
  shows "now < r \<and> r \<le> now + DAY_MS \<and> rx_test UTC_PATTERN w
    \<and> (\<exists>hh mm post d. reset_text w hh mm post \<and> hour_of_day hh post \<le> 23 \<and> read_nat mm \<le> 59
         \<and> r = DAY_MS * of_int d + of_nat (hour_of_day hh post * 60 + read_nat mm) * 60000)"
  using parseResetTime_next [OF assms] .

text \<open>An evening and a time just after midnight, read on the first of January 1970.\<close>

lemma parse_at_zero:
  assumes "rx_test UTC_PATTERN w" and "rx_exec RESET_PATTERN w 0 = Some (b, e, cs)"
    and "read_nat (the (rx_group w cs 1)) = hour" and "read_nat (the (rx_group w cs 2)) = minute"
    and "clock_hour hour (map_option to_lower (rx_group w cs 3)) = h"
    and "h * 60 + minute = n" and "0 < n" "h \<le> 23" "minute \<le> 59"
  shows "parseResetTime w 0 = Some (of_nat n * 60000)"
proof -
  have "0 < (of_nat n :: rat)" using assms(7) by (simp only: of_nat_0_less_iff)
  moreover have "utc_at 0 h minute = of_nat n * 60000" unfolding utc_at_def assms(6) by simp
  ultimately show ?thesis using assms(1-5,8,9) by (simp add: parseResetTime_def Let_def)
qed

lemma reset_time_examples:
  "parseResetTime ''resets 8:20pm (UTC)'' 0 = Some (of_nat 1220 * 60000)"
  "parseResetTime ''reset 12:05 AM z'' 0 = Some (of_nat 5 * 60000)"
proof -
  have w: "rx_test UTC_PATTERN ''resets 8:20pm (UTC)''"
    "rx_exec RESET_PATTERN ''resets 8:20pm (UTC)'' 0 = Some (0, 13, [(1, 7, 8), (2, 9, 11), (3, 11, 13)])"
    "rx_test UTC_PATTERN ''reset 12:05 AM z''"
    "rx_exec RESET_PATTERN ''reset 12:05 AM z'' 0 = Some (0, 14, [(1, 6, 8), (2, 9, 11), (3, 12, 14)])"
    by code_simp+
  show "parseResetTime ''resets 8:20pm (UTC)'' 0 = Some (of_nat 1220 * 60000)"
    by (rule parse_at_zero [OF w(1,2), of 8 20 20]; code_simp)
  show "parseResetTime ''reset 12:05 AM z'' 0 = Some (of_nat 5 * 60000)"
    by (rule parse_at_zero [OF w(3,4), of 12 5 0]; code_simp)
qed

theorem reset_time_is_next_witness:
  "parseResetTime ''resets 8:20pm (UTC)'' 0 = Some 73200000 \<and> 0 < (73200000 :: time_ms) \<and> 73200000 \<le> DAY_MS
   \<and> (\<exists>hh mm post. reset_text ''resets 8:20pm (UTC)'' hh mm post \<and> hour_of_day hh post * 60 + read_nat mm = 1220)"
proof -
  have r: "parseResetTime ''resets 8:20pm (UTC)'' 0 = Some 73200000" using reset_time_examples(1) by simp
  note f = reset_time_is_next [OF r]
  from f obtain hh mm post d where t: "reset_text ''resets 8:20pm (UTC)'' hh mm post"
    "hour_of_day hh post \<le> 23" "read_nat mm \<le> 59"
    "73200000 = DAY_MS * of_int d + of_nat (hour_of_day hh post * 60 + read_nat mm) * 60000" by blast
  from f have b: "0 < (73200000 :: time_ms)" "73200000 \<le> DAY_MS" by simp_all
  define n where "n = hour_of_day hh post * 60 + read_nat mm"
  have n: "n < 1440" using t(2,3) by (simp add: n_def)
  have "(of_int (1440 * d + int n) :: rat) = of_int 1220" using t(4) by (simp add: DAY_MS_def n_def [symmetric])
  then have e: "1440 * d + int n = 1220" by (simp only: of_int_eq_iff)
  then have "d = 0" using n by linarith
  with e have "n = 1220" by simp
  with r b t(1) show ?thesis unfolding n_def by blast
qed

text \<open>
  Only a notice parks a turn. A result longer than a notice, whatever it says about limits or
  overloads, ends the turn normally: the session goes idle with nothing parked.
\<close>

theorem long_result_never_parks:
  assumes "MAX_NOTICE_LENGTH < length (trim w)" and "writes_ok env"
  shows "snd (judge_result env w False s) = Done
    \<and> s_status (fst (judge_result env w False s)) = Idle
    \<and> s_pending (fst (judge_result env w False s)) = None"
  using judge_long_result [OF assms] .

theorem long_result_never_parks_witness:
  "s_status (fst (judge_result sample_env (replicate 301 (CHR ''x'')) False sample_session)) = Idle"
  using long_result_never_parks [of "replicate 301 (CHR ''x'')" sample_env sample_session]
  by (simp add: trim_replicate MAX_NOTICE_LENGTH_def is_space_def)


section \<open>Quota and accounts\<close>

text \<open>
  C27: the two sources of usage data complete each other. A live event never erases a utilization,
  one of an unknown kind changes nothing, and a usage response never changes a status.
\<close>

theorem usage_sources_merge:
  "(prev_util ws k \<noteq> None \<longrightarrow> prev_util (applyRateLimitEvent ws info) k \<noteq> None)
   \<and> ((\<forall>n. js_prop info ''rateLimitType'' = JStr n \<longrightarrow> kind_of n = None) \<longrightarrow> applyRateLimitEvent ws info = ws)
   \<and> prev_status (windows (applyUsageResponse p u)) k = prev_status (windows p) k"
  using event_keeps_util event_unknown [of info ws] by (auto simp: usage_response_windows usage_entries_status)

theorem usage_sources_merge_witness:
  "applyRateLimitEvent [] (JObj [(''rateLimitType'', JStr ''tangelo'')]) = []"
  by (rule usage_sources_merge [THEN conjunct2, THEN conjunct1, rule_format]) (auto simp: kind_of_def RATE_LIMIT_WINDOW_KINDS_def)

text \<open>
  The account switched to can work, and is the next one. It is one of the accounts, not the
  one in use nor one of the same identity, not given up on and with no limit still running; every
  account that comes before it in the cyclic order after the current one is not eligible.
\<close>

theorem next_account_is_first_eligible:
  assumes "nextUsableAccount accounts current st now idof = Some a"
  shows "a \<in> set accounts \<and> \<not> has_key current a
    \<and> (\<forall>cur. List.find (has_key current) accounts = Some cur \<longrightarrow> idof a \<noteq> idof cur)
    \<and> idof a \<notin> unusable st \<and> (\<forall>u. map_of (limited st) (idof a) = Some u \<longrightarrow> u \<le> now)
    \<and> (\<exists>before after. (case find_index (has_key current) accounts of
          Some i \<Rightarrow> rotate (Suc i) accounts | None \<Rightarrow> accounts) = before @ a # after
        \<and> (\<forall>b\<in>set before. \<not> eligible accounts current st now idof b))"
  using nextUsable_sound [OF assms] nextUsable_first [OF assms]
  by (auto simp: eligible_def usable_iff candidates_rotate split: option.splits)

text \<open>Two accounts, the first of them in use.\<close>

definition two_accounts :: "account_info list" where
  "two_accounts =
     [\<lparr>acc_name = ''main'', configDir = None, acc_active = True, signedIn = True, loginExpired = False\<rparr>,
      \<lparr>acc_name = ''second'', configDir = Some ''/b'', acc_active = False, signedIn = True, loginExpired = False\<rparr>]"

definition fresh_rotation :: rotation_state where
  "fresh_rotation = \<lparr>limited = [], unusable = {}, lastSwitchAt = - 60000\<rparr>"

lemma two_accounts_next:
  "nextUsableAccount two_accounts None fresh_rotation 0 byConfigDir = Some (two_accounts ! 1)"
  by (simp add: nextUsableAccount_def candidates_rotate two_accounts_def fresh_rotation_def eligible_def
      has_key_def accountKey_def byConfigDir_def usable_def)

theorem next_account_is_first_eligible_witness:
  "byConfigDir (two_accounts ! 1) \<notin> unusable fresh_rotation"
  using next_account_is_first_eligible [OF two_accounts_next] by blast

text \<open>
  C28: the daemon switches whenever it can and may. With rotation on, at least two accounts and
  the cooldown over, it switches exactly when some account is eligible; otherwise the plan names
  the reason, and with every account limited it wakes for the first that reopens.
\<close>

theorem switches_iff_eligible:
  assumes "2 \<le> length accounts" and "SWITCH_COOLDOWN_MS \<le> now - lastSwitchAt st"
  shows "((\<exists>a. switchTo (planAfterLimit accounts current st now own True idof) = Some a)
      \<longleftrightarrow> (\<exists>a\<in>set accounts. eligible accounts current st now idof a))
    \<and> (switchTo (planAfterLimit accounts current st now own True idof) = None \<longrightarrow>
      plan_retryAt (planAfterLimit accounts current st now own True idof) \<le> own
      \<and> (\<forall>k u. (k, u) \<in> set (limited st) \<and> now < u \<longrightarrow>
           plan_retryAt (planAfterLimit accounts current st now own True idof) \<le> u))"
  using plan_complete [OF assms] by blast

theorem switches_iff_eligible_witness:
  "\<exists>a. switchTo (planAfterLimit two_accounts None fresh_rotation 0 5 True byConfigDir) = Some a"
  by (subst switches_iff_eligible [THEN conjunct1])
     (auto simp: two_accounts_def fresh_rotation_def SWITCH_COOLDOWN_MS_def eligible_def has_key_def
        accountKey_def byConfigDir_def usable_def)

section \<open>Agents, errors and the status page\<close>

text \<open>
  Pruning agrees with counting. It removes exactly the agents that no longer count as active,
  says whether it removed any, and leaves the active ones as they were.
\<close>

theorem prune_agrees_with_count:
  assumes "om_wf agents"
  shows "activeAgents (fst (pruneAgents agents now w)) now w = activeAgents agents now w
    \<and> map snd (fst (pruneAgents agents now w)) = activeAgents agents now w
    \<and> (snd (pruneAgents agents now w) \<longleftrightarrow> activeAgents agents now w \<noteq> map snd agents)"
  using prune_active [OF assms] .

theorem prune_agrees_with_count_witness:
  "fst (pruneAgents [] 0 AGENT_ACTIVE_MS) = []"
  using prune_agrees_with_count [of "[]" 0 AGENT_ACTIVE_MS] by (simp add: om_wf_def om_keys_def activeAgents_def)

text \<open>
  The executable found is the first there is: a file, bundled before installed, and none of
  the candidates before it is one. Nothing is found exactly when no candidate is a file.
\<close>

theorem first_executable_found:
  "(findClaudeExecutable p = Some c \<longrightarrow>
      (\<exists>before after. bundled_candidates p @ installed_candidates p = before @ c # after
        \<and> isFile p c \<and> (\<forall>x\<in>set before. \<not> isFile p x)))
   \<and> (findClaudeExecutable p = None \<longleftrightarrow>
      (\<forall>c\<in>set (bundled_candidates p) \<union> set (installed_candidates p). \<not> isFile p c))"
proof -
  have "\<exists>before after. bundled_candidates p @ installed_candidates p = before @ c # after
        \<and> isFile p c \<and> (\<forall>x\<in>set before. \<not> isFile p x)" if f: "findClaudeExecutable p = Some c"
    using find_claude_first [OF f] by metis
  then show ?thesis using find_claude_none by blast
qed

theorem first_executable_found_witness:
  "findClaudeExecutable \<lparr>pr_platform = ''linux'', pr_arch = ''x64'', bundleDir = None, pathEntries = [], pr_home = ''/h'',
     isFile = (\<lambda>c. False)\<rparr> = None"
  by (subst first_executable_found [THEN conjunct2]) simp

text \<open>
  The incident named is the worst one, by the order the code lists. An impact that is not in
  the list ranks before \<open>critical\<close>, so one such incident hides every graded one.
\<close>

theorem worst_incident_named:
  assumes "pickWorst xs = Some w"
  shows "w \<in> set xs \<and> (\<forall>i\<in>set xs. impact_rank w \<le> impact_rank i)
    \<and> ((\<exists>i\<in>set xs. in_impact i \<notin> set IMPACT_ORDER) \<longrightarrow> in_impact w \<notin> set IMPACT_ORDER)"
  using pickWorst_least [OF assms] pickWorst_unlisted [OF assms] by blast

theorem worst_incident_named_witness:
  "pickWorst [\<lparr>in_id = ''1'', in_name = ''Outage'', in_impact = ''critical'', in_startedAt = []\<rparr>,
              \<lparr>in_id = ''2'', in_name = ''Upgrade'', in_impact = ''maintenance'', in_startedAt = []\<rparr>]
     = Some \<lparr>in_id = ''2'', in_name = ''Upgrade'', in_impact = ''maintenance'', in_startedAt = []\<rparr>
   \<and> ''maintenance'' \<notin> set IMPACT_ORDER"
proof -
  let ?xs = "[\<lparr>in_id = ''1'', in_name = ''Outage'', in_impact = ''critical'', in_startedAt = []\<rparr>,
              \<lparr>in_id = ''2'', in_name = ''Upgrade'', in_impact = ''maintenance'', in_startedAt = []\<rparr>]"
  have p: "pickWorst ?xs = Some (?xs ! 1)"
    by (simp add: pickWorst_def impact_rank_def IMPACT_ORDER_def)
  from worst_incident_named [OF p] show ?thesis using p by (simp add: IMPACT_ORDER_def)
qed

text \<open>
  Not knowing is not an all-clear. The status page counts as quiet only when it answered well
  and listed nothing readable; an answer that could not be had leaves the session untouched.
\<close>

theorem no_answer_is_no_all_clear:
  "(fetchOpenIncidents r = Some [] \<longrightarrow>
      (\<exists>body raws. r = Answered True (Some body) \<and> js_prop body ''incidents'' = JArr raws
        \<and> list_all (\<lambda>v. read_incident v = None) raws))
   \<and> (fetchOpenIncidents r = None \<longrightarrow> incidentsAnswered env (fetchOpenIncidents r) s = (s, Done))"
  using no_incidents_answered [of r] by (auto simp: incidentsAnswered_def skip_def)

theorem no_answer_is_no_all_clear_witness:
  "incidentsAnswered sample_env (fetchOpenIncidents Fetch_threw) sample_session = (sample_session, Done)"
  by (rule no_answer_is_no_all_clear [THEN conjunct2, rule_format]) (simp add: fetchOpenIncidents_def)

end
