(* ===== verification/StreamTheorems.thy ===== *)
theory StreamTheorems
  imports Samples
begin

text \<open>
  What the names of the chats promise, and the streamed text and the token meter.
\<close>

section \<open>Names\<close>

text \<open>
  The tag is put on once and taken off whole: the project's tag has at most three letters or
  digits, and stripping a composed title gives the stripped name, however often it is stripped.
\<close>

theorem title_tag_roundtrip:
  "withoutTag (composeTitle (projectTag cwd) name) = withoutTag name
   \<and> withoutTag (withoutTag name) = withoutTag name \<and> length (projectTag cwd) \<le> 3"
  using withoutTag_compose [OF projectTag_alnum, of cwd name] projectTag_length [of cwd]
  by (simp add: withoutTag_idem)

text \<open>
  A name fits its tab: what the namer's answer becomes is at most thirty-three characters,
  whatever the answer was.
\<close>

theorem title_fits:
  assumes "titleOfResult message project = Some t"
  shows "length t \<le> Suc MAX_NAME_CHARS"
  using titleOfResult_length [OF assms] .

text \<open>
  C29: a tab is renamed only for a new subject that two looks agree on. After the first naming, a
  rename differs materially from the name it replaces and from every name worn before, and repeats
  the pending proposal; a name worn before never comes back.
\<close>

theorem rename_needs_two_looks:
  assumes "rd_rename (decideRename m p)" and "\<not> rm_firstNaming m"
  shows "isMaterialChange (rm_current m) p \<and> (\<forall>e\<in>set (rm_past m). isMaterialChange e p)
    \<and> (\<exists>q. rm_pending m = Some q \<and> \<not> isMaterialChange q p) \<and> p \<noteq> rm_current m \<and> p \<notin> set (rm_past m)"
  using decide_rename_cases [OF assms(1)] worn_never_returns [of m p] assms by blast

theorem rename_needs_two_looks_witness:
  "isMaterialChange ''app|Video'' ''app|Signup''"
proof -
  have "rd_rename (decideRename \<lparr>rm_current = ''app|Video'', rm_past = [],
      rm_pending = Some ''app|Signup'', rm_firstNaming = False\<rparr> ''app|Signup'')"
    by code_simp
  from rename_needs_two_looks [OF this] show ?thesis by simp
qed

text \<open>
  The evidence for a name is what was said. The exchanges picked are substantive messages of
  the part of the log that was read, no text twice, at most the limit (or two replies).
\<close>

theorem exchanges_are_messages:
  "set (pickExchanges n opening recent) \<subseteq> set (messagesOf opening) \<union> set (messagesOf recent)
   \<and> list_all (\<lambda>e. isSubstantive (ex_text e) \<and> length (ex_text e) \<le> MAX_EXCHANGE_CHARS) (pickExchanges n opening recent)
   \<and> distinct (map ex_text (pickExchanges n opening recent))
   \<and> length (pickExchanges n opening recent) \<le> max n 2"
proof -
  have "e \<in> set (messagesOf opening) \<union> set (messagesOf recent)" "isSubstantive (ex_text e)"
    "length (ex_text e) \<le> MAX_EXCHANGE_CHARS" if e: "e \<in> set (pickExchanges n opening recent)" for e
    using pickExchanges_sound [OF e] messagesOf_short by auto
  then show ?thesis by (auto simp: list_all_iff pickExchanges_length pickExchanges_distinct)
qed

text \<open>
  The issue a session is about is mentioned often enough: it is mentioned at least the
  required number of times, and no other issue is mentioned more.
\<close>

theorem issue_is_most_mentioned:
  assumes "sessionIssue least events \<noteq> []"
  shows "\<exists>n. sessionIssue least events \<in> {''#'' @ n, ''#'' @ n @ ''+''}
    \<and> least \<le> count_list (all_issue_numbers events) n
    \<and> (\<forall>k. count_list (all_issue_numbers events) k \<le> count_list (all_issue_numbers events) n)"
  using sessionIssue_sound [OF assms] by metis

section \<open>Streams and meters\<close>

text \<open>
  C30: gathering streamed text changes no chat. For any run of messages and ticks, what each chat
  was sent, followed by what still waits for it, is the text and the messages sent to it, in
  order; and a tick leaves nothing waiting.
\<close>

theorem coalescing_preserves_chats:
  assumes "co_run es co_init = (c, out)"
  shows "view sid out @ waiting sid c = view sid (sent es)
    \<and> view sid (out @ snd (tick c)) = view sid (sent es)"
  using coalesce_run [OF assms] by (intro conjI)

theorem coalescing_preserves_chats_witness:
  "case co_run [Send (deltaOf ''a'' ''x''), Send (deltaOf ''a'' ''y'' :: unit message), Window] co_init of
     (c, out) \<Rightarrow> view ''a'' out @ waiting ''a'' c = [Inl (CHR ''x''), Inl (CHR ''y'')]"
proof -
  let ?es = "[Send (deltaOf ''a'' ''x''), Send (deltaOf ''a'' ''y'' :: unit message), Window]"
  obtain c out where r: "co_run ?es co_init = (c, out)" by (cases "co_run ?es co_init")
  have "view ''a'' (sent ?es) = [Inl (CHR ''x''), Inl (CHR ''y'')]"
    by (simp add: view1_def deltaOf_def is_delta_def)
  with coalescing_preserves_chats [OF r, of "''a''"] r show ?thesis by simp
qed

text \<open>
  C31: the meter shows the last hour. After any reports and snapshots in the order of time, with the
  reports of one message less than an hour apart, a snapshot adds up and counts exactly the calls of
  the last hour and of the last minute, and ranks the chats by those of the last five; each call is
  counted once, however often its message was reported and whatever was pruned on the way.
\<close>

theorem meter_counts_last_hour:
  assumes "sorted (map op_time es)" and "prompt_repeats es" and "\<forall>e\<in>set es. op_time e \<le> now"
  shows "fst (snapshot now (fold meter_do es meter_new)) =
    \<lparr>fl_lastMinute = sum_counts (filter (\<lambda>c. now - c_at c \<le> 60000) (all_calls es)),
     fl_lastHour = sum_counts (filter (\<lambda>c. now - c_at c < 3600000) (all_calls es)),
     fl_callsMinute = length (filter (\<lambda>c. now - c_at c \<le> 60000) (all_calls es)),
     fl_callsHour = length (filter (\<lambda>c. now - c_at c < 3600000) (all_calls es)),
     fl_bySession = take 5 (sort_desc snd (recent_by_session now (all_calls es)))\<rparr>"
proof -
  have "meter_holds now (all_calls es) (fold meter_do es meter_new)"
    using meter_run [OF assms] by (simp add: meter_follows_def)
  from snapshot_spec(1) [OF this order_refl] show ?thesis by (simp add: in_hour_def HOUR_def algebra_simps)
qed

text \<open>Two blocks of one message, a call without an id, and one that is out of the hour at the end.\<close>

definition five_tokens :: jsval where
  "five_tokens = JObj [(''input_tokens'', JNum 2), (''output_tokens'', JNum 3)]"

definition four_reports :: "meter_op list" where
  "four_reports =
     [Report 0 ''a'' five_tokens (Some ''m0''), Report 3590000 ''a'' five_tokens (Some ''m1''), Shown 3600000,
      Report 3610000 ''a'' five_tokens (Some ''m1''), Report 3690000 ''b'' five_tokens None]"

theorem meter_counts_last_hour_witness:
  "let f = fst (snapshot 3700000 (fold meter_do four_reports meter_new))
   in fl_callsHour f = 2 \<and> fl_callsMinute f = 1 \<and> tk_processed (fl_lastHour f) = 10
      \<and> tk_processed (fl_lastMinute f) = 5 \<and> length (all_calls four_reports) = 3"
proof -
  have "sorted (map op_time four_reports)" by code_simp
  moreover have "prompt_repeats four_reports"
    by (simp add: prompt_repeats_def marks_def four_reports_def five_tokens_def map_filter_def HOUR_def)
  moreover have "\<forall>e\<in>set four_reports. op_time e \<le> 3700000" by (simp add: four_reports_def)
  ultimately have f: "fst (snapshot 3700000 (fold meter_do four_reports meter_new)) =
    \<lparr>fl_lastMinute = sum_counts (filter (\<lambda>c. 3700000 - c_at c \<le> 60000) (all_calls four_reports)),
     fl_lastHour = sum_counts (filter (\<lambda>c. 3700000 - c_at c < 3600000) (all_calls four_reports)),
     fl_callsMinute = length (filter (\<lambda>c. 3700000 - c_at c \<le> 60000) (all_calls four_reports)),
     fl_callsHour = length (filter (\<lambda>c. 3700000 - c_at c < 3600000) (all_calls four_reports)),
     fl_bySession = take 5 (sort_desc snd (recent_by_session 3700000 (all_calls four_reports)))\<rparr>"
    by (rule meter_counts_last_hour)
  have "length (filter (\<lambda>c. 3700000 - c_at c < 3600000) (all_calls four_reports)) = 2"
    "length (filter (\<lambda>c. 3700000 - c_at c \<le> 60000) (all_calls four_reports)) = 1"
    "tk_processed (sum_counts (filter (\<lambda>c. 3700000 - c_at c < 3600000) (all_calls four_reports))) = 10"
    "tk_processed (sum_counts (filter (\<lambda>c. 3700000 - c_at c \<le> 60000) (all_calls four_reports))) = 5"
    "length (all_calls four_reports) = 3"
    by code_simp+
  then show ?thesis unfolding f Let_def by simp
qed

end
