(* ===== verification/FsView.thy ===== *)
theory FsView
  imports Uploads "HOL-Library.Product_Lexorder"
begin

text \<open>
  Looking at the server's files (\<open>fsView.ts\<close>): the listing of a folder, one page of a file, and a new
  folder. Bytes are a \<^typ>\<open>string\<close>; text is its code points, since a page is shown as text or not by
  how it decodes. The disk is the record \<open>fs_disk\<close>, \<^term>\<open>None\<close> of a call being its failure. The
  lemmas: UTF-8 decoding undoes encoding and may be done in parts that end between characters, base64
  is undone by the decoder of the uploads, pages taken one after the other are the file, and a page
  that ends inside a character loses it.
\<close>

section \<open>UTF-8 in general\<close>

text \<open>
  \<open>toString('utf8')\<close> and \<open>TextDecoder\<close>: \<open>u8_points\<close> begins a character, \<open>u8_rest n lo hi p\<close> is inside
  one with \<open>n\<close> bytes to come, the next between \<open>lo\<close> and \<open>hi\<close>; a byte that does not fit ends the
  character, is read again, and leaves one replacement character.
\<close>

definition U_REPLACEMENT :: nat where "U_REPLACEMENT = 0xFFFD"

function (sequential) u8_points :: "nat list \<Rightarrow> nat list"
  and u8_rest :: "nat \<Rightarrow> nat \<Rightarrow> nat \<Rightarrow> nat \<Rightarrow> nat list \<Rightarrow> nat list" where
  "u8_points [] = []"
| "u8_points (b # r) =
     (if b < 0x80 then b # u8_points r
      else if 0xC2 \<le> b \<and> b \<le> 0xDF then u8_rest 1 0x80 0xBF (b - 0xC0) r
      else if 0xE0 \<le> b \<and> b \<le> 0xEF then
        u8_rest 2 (if b = 0xE0 then 0xA0 else 0x80) (if b = 0xED then 0x9F else 0xBF) (b - 0xE0) r
      else if 0xF0 \<le> b \<and> b \<le> 0xF4 then
        u8_rest 3 (if b = 0xF0 then 0x90 else 0x80) (if b = 0xF4 then 0x8F else 0xBF) (b - 0xF0) r
      else U_REPLACEMENT # u8_points r)"
| "u8_rest 0 lo hi p r = p # u8_points r"
| "u8_rest (Suc n) lo hi p [] = [U_REPLACEMENT]"
| "u8_rest (Suc n) lo hi p (b # r) =
     (if lo \<le> b \<and> b \<le> hi then u8_rest n 0x80 0xBF (p * 64 + (b - 0x80)) r
      else U_REPLACEMENT # u8_points (b # r))"
  by pat_completeness auto
termination
  by (relation "measure (case_sum (\<lambda>r. 2 * length r) (\<lambda>(n, lo, hi, p, r). 2 * length r + 1))") auto

definition bytes_text :: "string \<Rightarrow> nat list" where
  "bytes_text r = u8_points (map code_of r)"

section \<open>Base64\<close>

definition b64_char :: "nat \<Rightarrow> char" where
  "b64_char n =
     (if n < 26 then char_of (65 + n) else if n < 52 then char_of (71 + n)
      else if n < 62 then char_of (n - 4) else if n = 62 then CHR ''+'' else CHR ''/'')"

fun b64_encode :: "string \<Rightarrow> string" where
  "b64_encode [] = []"
| "b64_encode [a] = (let x = code_of a in [b64_char (x div 4), b64_char (x mod 4 * 16), CHR ''='', CHR ''=''])"
| "b64_encode [a, b] =
     (let x = code_of a; y = code_of b in
      [b64_char (x div 4), b64_char (x mod 4 * 16 + y div 16), b64_char (y mod 16 * 4), CHR ''=''])"
| "b64_encode (a # b # c # r) =
     (let x = code_of a; y = code_of b; z = code_of c in
      b64_char (x div 4) # b64_char (x mod 4 * 16 + y div 16) # b64_char (y mod 16 * 4 + z div 64)
      # b64_char (z mod 64) # b64_encode r)"

section \<open>The disk\<close>

definition MAX_READ_BYTES :: nat where "MAX_READ_BYTES = 256 * 1024"
definition MAX_LIST_ENTRIES :: nat where "MAX_LIST_ENTRIES = 2000"

datatype fs_kind = F_file | F_dir | F_link | F_other
datatype target_kind = T_file | T_dir | T_missing

record fs_disk =
  fv_names :: "string \<Rightarrow> string list option"
  fv_lstat :: "string \<Rightarrow> (fs_kind \<times> nat \<times> num) option"
  fv_link :: "string \<Rightarrow> string option"
  fv_stat :: "string \<Rightarrow> fs_kind option"
  fv_bytes :: "string \<Rightarrow> string"

record fs_entry =
  fe_name :: string
  fe_kind :: fs_kind
  fe_size :: nat
  fe_mtime :: num
  fe_target :: "string option"
  fe_targetKind :: "target_kind option"

record fs_listing =
  fl_path :: string
  fl_parent :: "string option"
  fl_entries :: "fs_entry list"
  fl_truncated :: bool

definition resolveAbsolute :: "string \<Rightarrow> string \<Rightarrow> string + string" where
  "resolveAbsolute pwd p =
     (if p = [] then Inl ''A path is required''
      else if \<not> is_absolute p then Inl (''Not an absolute path: '' @ p)
      else Inr (path_resolve pwd p))"

section \<open>A folder\<close>

text \<open>What a link points to is looked at only when the link itself could be read.\<close>

definition entry_of :: "fs_disk \<Rightarrow> string \<Rightarrow> string \<Rightarrow> fs_entry option" where
  "entry_of w dir name =
     (let p = path_join [dir, name] in
      case fv_lstat w p of
        None \<Rightarrow> None
      | Some (k, n, mtime) \<Rightarrow>
          Some \<lparr>fe_name = name, fe_kind = k, fe_size = n, fe_mtime = mtime,
                fe_target = (if k = F_link then fv_link w p else None),
                fe_targetKind =
                  (if k \<noteq> F_link then None
                   else case (fv_link w p, fv_stat w p) of
                     (Some t, Some r) \<Rightarrow> Some (if r = F_dir then T_dir else T_file)
                   | _ \<Rightarrow> Some T_missing)\<rparr>)"

definition isDir :: "fs_entry \<Rightarrow> bool" where
  "isDir e = (fe_kind e = F_dir \<or> (fe_kind e = F_link \<and> fe_targetKind e = Some T_dir))"

text \<open>The order is that of the collation keys \<open>localeCompare\<close> compares, folders first.\<close>

definition listDirectory ::
    "(string \<Rightarrow> 'k::linorder) \<Rightarrow> string \<Rightarrow> fs_disk \<Rightarrow> string \<Rightarrow> string + fs_listing" where
  "listDirectory collation pwd w p =
     (case resolveAbsolute pwd p of
        Inl e \<Rightarrow> Inl e
      | Inr dir \<Rightarrow>
          (case fv_names w dir of
             None \<Rightarrow> Inl (''cannot read '' @ dir)
           | Some names \<Rightarrow>
               (let entries = sort_key (\<lambda>e. (\<not> isDir e, collation (fe_name e)))
                                (List.map_filter (entry_of w dir) names)
                in Inr \<lparr>fl_path = dir, fl_parent = (if path_dirname dir = dir then None else Some (path_dirname dir)),
                        fl_entries = take MAX_LIST_ENTRIES entries,
                        fl_truncated = (MAX_LIST_ENTRIES < length entries)\<rparr>)))"

section \<open>A page of a file\<close>

datatype page_data = Utf8_data "nat list" | Base64_data string

record fs_page =
  fp_path :: string
  fp_size :: nat
  fp_offset :: nat
  fp_data :: page_data
  fp_length :: nat
  fp_eof :: bool

definition looksLikeText :: "string \<Rightarrow> bool" where
  "looksLikeText bytes =
     (CHR 0x00 \<notin> set bytes \<and> count_list (bytes_text bytes) U_REPLACEMENT \<le> 3)"

definition readFileSlice :: "string \<Rightarrow> fs_disk \<Rightarrow> string \<Rightarrow> num \<Rightarrow> num \<Rightarrow> string + fs_page" where
  "readFileSlice pwd w p offset len =
     (case resolveAbsolute pwd p of
        Inl e \<Rightarrow> Inl e
      | Inr file \<Rightarrow>
          (case fv_stat w file of
             None \<Rightarrow> Inl (''cannot read '' @ file)
           | Some k \<Rightarrow>
               if k = F_dir then Inl (''Is a directory: '' @ file)
               else let all = fv_bytes w file;
                        start = nat \<lfloor>offset\<rfloor>;
                        want = nat (min (int MAX_READ_BYTES) \<lfloor>len\<rfloor>);
                        bytes = take want (drop start all)
                    in Inr \<lparr>fp_path = file, fp_size = length all, fp_offset = start,
                            fp_data = (if looksLikeText bytes then Utf8_data (bytes_text bytes)
                                       else Base64_data (b64_encode bytes)),
                            fp_length = length bytes, fp_eof = (length all \<le> start + length bytes)\<rparr>))"

section \<open>A new folder\<close>

text \<open>The answer, and the folder made: \<open>fv_stat\<close> follows links, as \<open>existsSync\<close> does.\<close>

definition makeDirectory :: "string \<Rightarrow> fs_disk \<Rightarrow> string \<Rightarrow> string + string" where
  "makeDirectory pwd w p =
     (if \<not> is_absolute p then Inl ''The path must be absolute''
      else let target = path_resolve pwd p; name = path_basename target in
        if name = [] \<or> name = ''.'' \<or> name = ''..'' \<or> list_ex (\<lambda>c. c = bs \<or> c = slash \<or> c = CHR 0x00) name
        then Inl ''Not a folder name''
        else if fv_stat w target \<noteq> None then Inl (name @ '' already exists'')
        else if fv_stat w (path_dirname target) \<noteq> Some F_dir then Inl ''The folder it goes in does not exist''
        else Inr target)"

section \<open>Decoding\<close>

definition scalar :: "nat \<Rightarrow> bool" where
  "scalar p = (p < 0xD800 \<or> 0xE000 \<le> p \<and> p < 0x110000)"

definition u8_bytes :: "nat \<Rightarrow> nat list" where
  "u8_bytes p =
     (if p < 0x80 then [p]
      else if p < 0x800 then [0xC0 + p div 64, 0x80 + p mod 64]
      else if p < 0x10000 then [0xE0 + p div 4096, 0x80 + p div 64 mod 64, 0x80 + p mod 64]
      else [0xF0 + p div 262144, 0x80 + p div 4096 mod 64, 0x80 + p div 64 mod 64, 0x80 + p mod 64])"

lemma rest_step:
  "lo \<le> 0x80 + q \<Longrightarrow> 0x80 + q \<le> hi \<Longrightarrow> u8_rest (Suc n) lo hi p ((0x80 + q) # r) = u8_rest n 0x80 0xBF (p * 64 + q) r"
  by simp

lemma rest_tail: "q < 64 \<Longrightarrow> u8_rest (Suc n) 0x80 0xBF p ((0x80 + q) # r) = u8_rest n 0x80 0xBF (p * 64 + q) r"
  by (rule rest_step) simp_all

lemma u8_char2:
  assumes "2 \<le> a" and "a < 32" and "b < 64"
  shows "u8_points ((0xC0 + a) # (0x80 + b) # r) = (a * 64 + b) # u8_points r"
proof -
  have "u8_points ((0xC0 + a) # (0x80 + b) # r) = u8_rest (Suc 0) 0x80 0xBF a ((0x80 + b) # r)"
    using assms(1,2) by (simp del: u8_rest.simps)
  then show ?thesis by (simp only: rest_tail [OF assms(3)] u8_rest.simps(1))
qed

lemma u8_char3:
  assumes "a < 16" and "b < 64" and "c < 64" and "a = 0 \<Longrightarrow> 32 \<le> b" and "a = 13 \<Longrightarrow> b \<le> 31"
  shows "u8_points ((0xE0 + a) # (0x80 + b) # (0x80 + c) # r) = ((a * 64 + b) * 64 + c) # u8_points r"
proof -
  have "u8_points ((0xE0 + a) # (0x80 + b) # (0x80 + c) # r)
      = u8_rest (Suc (Suc 0)) (if a = 0 then 0xA0 else 0x80) (if a = 13 then 0x9F else 0xBF) a ((0x80 + b) # (0x80 + c) # r)"
    using assms(1) by (simp add: numeral_2_eq_2 del: u8_rest.simps)
  also have "\<dots> = u8_rest (Suc 0) 0x80 0xBF (a * 64 + b) ((0x80 + c) # r)"
    using assms by (intro rest_step) auto
  finally show ?thesis by (simp only: rest_tail [OF assms(3)] u8_rest.simps(1))
qed

lemma u8_char4:
  assumes "a < 5" and "b < 64" and "c < 64" and "d < 64" and "a = 0 \<Longrightarrow> 16 \<le> b" and "a = 4 \<Longrightarrow> b \<le> 15"
  shows "u8_points ((0xF0 + a) # (0x80 + b) # (0x80 + c) # (0x80 + d) # r)
    = (((a * 64 + b) * 64 + c) * 64 + d) # u8_points r"
proof -
  have "u8_points ((0xF0 + a) # (0x80 + b) # (0x80 + c) # (0x80 + d) # r)
      = u8_rest (Suc (Suc (Suc 0))) (if a = 0 then 0x90 else 0x80) (if a = 4 then 0x8F else 0xBF) a
          ((0x80 + b) # (0x80 + c) # (0x80 + d) # r)"
    using assms(1) by (simp add: numeral_3_eq_3 del: u8_rest.simps)
  also have "\<dots> = u8_rest (Suc (Suc 0)) 0x80 0xBF (a * 64 + b) ((0x80 + c) # (0x80 + d) # r)"
    using assms by (intro rest_step) auto
  finally show ?thesis by (simp only: rest_tail [OF assms(3)] rest_tail [OF assms(4)] u8_rest.simps(1))
qed

text \<open>The digits to the base 64 of a code point.\<close>

lemma two_digits: "p = p div 64 * 64 + p mod (64::nat)"
  by simp

lemma three_digits: "p = (p div 4096 * 64 + p div 64 mod 64) * 64 + p mod (64::nat)"
  using two_digits [of p] two_digits [of "p div 64"] by (simp add: div_mult2_eq [of p 64 64, symmetric])

lemma four_digits: "p = ((p div 262144 * 64 + p div 4096 mod 64) * 64 + p div 64 mod 64) * 64 + p mod (64::nat)"
  using three_digits [of p] two_digits [of "p div 4096"] by (simp add: div_mult2_eq [of p 4096 64, symmetric])

lemma lead_bounds3:
  assumes "(p::nat) = (a * 64 + b) * 64 + c" and "b < 64" and "c < 64"
  shows "p < 0x10000 \<Longrightarrow> a < 16" and "0x800 \<le> p \<Longrightarrow> a = 0 \<Longrightarrow> 32 \<le> b"
    and "p < 0xD800 \<or> 0xE000 \<le> p \<Longrightarrow> a = 13 \<Longrightarrow> b \<le> 31"
  using assms by auto

lemma lead_bounds4:
  assumes "(p::nat) = ((a * 64 + b) * 64 + c) * 64 + d" and "b < 64" and "c < 64" and "d < 64"
  shows "p < 0x110000 \<Longrightarrow> a < 5" and "0x10000 \<le> p \<Longrightarrow> a = 0 \<Longrightarrow> 16 \<le> b"
    and "p < 0x110000 \<Longrightarrow> a = 4 \<Longrightarrow> b \<le> 15"
  using assms by auto

lemma u8_char:
  assumes "scalar p"
  shows "u8_points (u8_bytes p @ r) = p # u8_points r"
proof -
  consider "p < 0x80" | "0x80 \<le> p" "p < 0x800" | "0x800 \<le> p" "p < 0x10000" | "0x10000 \<le> p" by linarith
  then show ?thesis
  proof cases
    case 1
    then show ?thesis by (simp add: u8_bytes_def)
  next
    case 2
    then have "2 \<le> p div 64" "p div 64 < 32" by linarith+
    then show ?thesis using 2 u8_char2 [of "p div 64" "p mod 64" r] by (simp add: u8_bytes_def)
  next
    case 3
    let ?a = "p div 4096" and ?b = "p div 64 mod 64"
    have d: "p = (?a * 64 + ?b) * 64 + p mod 64" "?b < 64" "p mod 64 < 64" using three_digits by simp_all
    have "?a < 16" "?a = 0 \<Longrightarrow> 32 \<le> ?b" "?a = 13 \<Longrightarrow> ?b \<le> 31"
      using lead_bounds3 [OF d] 3 assms by (auto simp: scalar_def)
    then show ?thesis using 3 u8_char3 [of ?a ?b "p mod 64" r] d by (simp add: u8_bytes_def del: u8_points.simps)
  next
    case 4
    let ?a = "p div 262144" and ?b = "p div 4096 mod 64" and ?c = "p div 64 mod 64"
    have d: "p = ((?a * 64 + ?b) * 64 + ?c) * 64 + p mod 64" "?b < 64" "?c < 64" "p mod 64 < 64"
      using four_digits by simp_all
    have "?a < 5" "?a = 0 \<Longrightarrow> 16 \<le> ?b" "?a = 4 \<Longrightarrow> ?b \<le> 15"
      using lead_bounds4 [OF d] 4 assms by (auto simp: scalar_def)
    then show ?thesis using 4 u8_char4 [of ?a ?b ?c "p mod 64" r] d by (simp add: u8_bytes_def del: u8_points.simps)
  qed
qed

lemma u8_text: "list_all scalar ps \<Longrightarrow> u8_points (concat (map u8_bytes ps) @ r) = ps @ u8_points r"
  by (induction ps) (simp_all add: u8_char)

lemma u8_roundtrip: "list_all scalar ps \<Longrightarrow> u8_points (concat (map u8_bytes ps)) = ps"
  using u8_text [of ps "[]"] by simp

section \<open>Base64 back\<close>

lemma b64_char_code:
  assumes "n < 64"
  shows "code_of (b64_char n) =
      (if n < 26 then 65 + n else if n < 52 then 71 + n else if n < 62 then n - 4 else if n = 62 then 43 else 47)"
  using assms by (simp add: b64_char_def)

lemma b64_char_val: "n < 64 \<Longrightarrow> b64_val (b64_char n) = Some n \<and> b64_char n \<noteq> CHR ''=''"
proof -
  assume n: "n < 64"
  have "code_of (b64_char n) \<noteq> code_of (CHR ''='')" using b64_char_code [OF n] n by auto
  moreover have "b64_val (b64_char n) = Some n" using n
    by (simp add: b64_val_def Let_def is_upper_def is_lower_def is_digit_def b64_char_code) linarith
  ultimately show ?thesis by metis
qed

definition b64_codes :: "string \<Rightarrow> nat list" where
  "b64_codes s = List.map_filter b64_val (takeWhile (\<lambda>c. c \<noteq> CHR ''='') s)"

lemma b64_codes_simps [simp]:
  "b64_codes [] = []" "b64_codes (CHR ''='' # s) = []"
  "n < 64 \<Longrightarrow> b64_codes (b64_char n # s) = n # b64_codes s"
  using b64_char_val [of n] by (simp_all add: b64_codes_def map_filter_simps)

lemma b64_roundtrip: "b64_decode (b64_encode s) = s"
proof -
  have "code_of c < 256" for c by (metis of_char_of char_of_char mod_less_divisor zero_less_numeral)
  then have lt [simp]: "code_of c div 4 < 64" "code_of c div 16 < 16" "code_of c div 64 < 4" for c
    by (simp_all add: less_mult_imp_div_less)
  have g: "x < 4 \<Longrightarrow> y < 16 \<Longrightarrow> x * 16 + y < 64" "y < 16 \<Longrightarrow> x < 4 \<Longrightarrow> y * 4 + x < 64" for x y :: nat by simp_all
  have h: "y div 16 < 16 \<Longrightarrow> x div 4 * 4 + (x mod 4 * 16 + y div 16) div 16 = x"
      "z div 64 < 4 \<Longrightarrow> y div 16 * 16 + (y mod 16 * 4 + z div 64) div 4 = y" for x y z :: nat by simp_all
  have "b64_bytes (b64_codes (b64_encode s)) = s"
  proof (induction s rule: b64_encode.induct)
    case (4 a b c r)
    have "b64_bytes (b64_codes (b64_encode r)) = r" by (rule 4 [OF refl refl refl])
    then show ?case by (simp add: Let_def g h)
  qed (simp_all add: Let_def g)
  then show ?thesis by (simp add: b64_decode_def b64_codes_def)
qed

section \<open>Pages\<close>

text \<open>A reader that asks for the next page until the last, at most \<open>k\<close> times.\<close>

fun read_pages :: "nat \<Rightarrow> (num \<Rightarrow> string + fs_page) \<Rightarrow> nat \<Rightarrow> fs_page list" where
  "read_pages 0 rd off = []"
| "read_pages (Suc k) rd off =
     (case rd (of_nat off) of
        Inl e \<Rightarrow> []
      | Inr p \<Rightarrow> p # (if fp_eof p then [] else read_pages k rd (off + fp_length p)))"

definition carries :: "fs_page \<Rightarrow> string \<Rightarrow> bool" where
  "carries p b =
     (fp_length p = length b
      \<and> (case fp_data p of Utf8_data ps \<Rightarrow> ps = bytes_text b \<and> CHR 0x00 \<notin> set b | Base64_data t \<Rightarrow> b64_decode t = b))"

definition a_file :: "string \<Rightarrow> fs_disk \<Rightarrow> string \<Rightarrow> string \<Rightarrow> bool" where
  "a_file pwd w p bytes =
     (\<exists>f k. resolveAbsolute pwd p = Inr f \<and> fv_stat w f = Some k \<and> k \<noteq> F_dir \<and> fv_bytes w f = bytes)"

lemma slice_data:
  assumes "a_file pwd w p bytes" and "n \<le> MAX_READ_BYTES"
  shows "\<exists>pg. readFileSlice pwd w p (of_nat off) (of_nat n) = Inr pg \<and> fp_length pg = length (take n (drop off bytes))
    \<and> fp_data pg = (let b = take n (drop off bytes) in
        if looksLikeText b then Utf8_data (bytes_text b) else Base64_data (b64_encode b))
    \<and> fp_eof pg = (length bytes \<le> off + length (take n (drop off bytes)))"
  using assms by (auto simp: a_file_def readFileSlice_def Let_def min_def)

lemma slice_of_file:
  assumes "a_file pwd w p bytes" and "n \<le> MAX_READ_BYTES"
  shows "\<exists>pg. readFileSlice pwd w p (of_nat off) (of_nat n) = Inr pg \<and> carries pg (take n (drop off bytes))
    \<and> fp_eof pg = (length bytes \<le> off + length (take n (drop off bytes)))"
  using slice_data [OF assms, of off] by (auto simp: Let_def carries_def b64_roundtrip looksLikeText_def)

lemma read_pages_file:
  assumes f: "a_file pwd w p bytes" and n: "0 < n" "n \<le> MAX_READ_BYTES"
  shows "off \<le> length bytes \<Longrightarrow> length bytes < off + k \<Longrightarrow> \<exists>bs. list_all2 carries (read_pages k (\<lambda>x. readFileSlice pwd w p x (of_nat n)) off) bs
    \<and> concat bs = drop off bytes \<and> bs \<noteq> []"
proof (induction k arbitrary: off)
  case 0
  then show ?case by simp
next
  case (Suc k)
  let ?b = "take n (drop off bytes)"
  obtain pg where pg: "readFileSlice pwd w p (of_nat off) (of_nat n) = Inr pg" "carries pg ?b"
    "fp_eof pg = (length bytes \<le> off + length ?b)" using slice_of_file [OF f n(2)] by blast
  then have l: "fp_length pg = length ?b" by (simp add: carries_def)
  show ?case
  proof (cases "fp_eof pg")
    case True
    then have "?b = drop off bytes" using pg(3) by auto
    then show ?thesis using pg True by (intro exI [of _ "[?b]"]) simp
  next
    case False
    then have n': "fp_length pg = n" "off + n \<le> length bytes" using pg(3) l by auto
    have "length bytes < off + n + k" using Suc.prems n by simp
    then obtain bs where "list_all2 carries (read_pages k (\<lambda>x. readFileSlice pwd w p x (of_nat n)) (off + n)) bs"
      "concat bs = drop (off + n) bytes" using Suc.IH [of "off + n"] n'(2) by auto
    then show ?thesis using pg False n'
      by (intro exI [of _ "?b # bs"]) (simp add: drop_drop [symmetric] add.commute del: drop_drop)
  qed
qed

text \<open>A text page that ends inside a character, here one of two bytes, shows neither half of it.\<close>

lemma lead_alone: "0xC0 \<le> a \<Longrightarrow> u8_points [a] = [U_REPLACEMENT]"
  by (simp add: numeral_2_eq_2 numeral_3_eq_3)

lemma trail_alone: "0x80 \<le> b \<Longrightarrow> b < 0xC0 \<Longrightarrow> u8_points (b # r) = U_REPLACEMENT # u8_points r"
  by simp

lemma ascii_points: "list_all (\<lambda>n. n < 128) xs \<Longrightarrow> u8_points (xs @ r) = xs @ u8_points r"
  by (induction xs) simp_all

lemma count_ascii: "list_all (\<lambda>n. n < 128) xs \<Longrightarrow> count_list xs U_REPLACEMENT = 0"
  by (induction xs) (auto simp: U_REPLACEMENT_def)

lemma count_append [simp]: "count_list (xs @ ys) x = count_list xs x + count_list ys x"
  by (induction xs) simp_all

lemma torn_page:
  assumes f: "a_file pwd w p (A @ [l, t] @ B)"
    and A: "list_all (\<lambda>c. code_of c < 128 \<and> c \<noteq> CHR 0x00) A" "length A < MAX_READ_BYTES"
    and c: "0xC0 \<le> code_of l" "0x80 \<le> code_of t" "code_of t < 0xC0"
  shows "\<exists>p1 p2. readFileSlice pwd w p 0 (of_nat (Suc (length A))) = Inr p1
    \<and> readFileSlice pwd w p (of_nat (fp_length p1)) (of_nat n) = Inr p2
    \<and> fp_data p1 = Utf8_data (map code_of A @ [U_REPLACEMENT])
    \<and> (0 < n \<longrightarrow> n \<le> MAX_READ_BYTES \<longrightarrow> fp_data p2 = Utf8_data ps \<longrightarrow> (\<exists>qs. ps = U_REPLACEMENT # qs))"
proof -
  let ?F = "A @ [l, t] @ B"
  have a: "list_all (\<lambda>n. n < 128) (map code_of A)" "CHR 0x00 \<notin> set A" using A(1) by (auto simp: list_all_iff)
  have l0: "l \<noteq> CHR 0x00" using c(1) by auto
  have b: "bytes_text (A @ [l]) = map code_of A @ [U_REPLACEMENT]"
    using a(1) c(1) by (simp add: bytes_text_def ascii_points lead_alone del: u8_points.simps)
  then have "looksLikeText (A @ [l])" using a l0 by (simp add: looksLikeText_def count_ascii)
  then obtain p1 where p1: "readFileSlice pwd w p 0 (of_nat (Suc (length A))) = Inr p1"
    "fp_data p1 = Utf8_data (map code_of A @ [U_REPLACEMENT])" "fp_length p1 = Suc (length A)"
    using slice_data [OF f, of "Suc (length A)" 0] A(2) b by (auto simp: Let_def)
  have "\<exists>p2. readFileSlice pwd w p (of_nat (Suc (length A))) (of_nat n) = Inr p2
      \<and> (n \<le> MAX_READ_BYTES \<longrightarrow> carries p2 (take n (t # B)))"
  proof (cases "n \<le> MAX_READ_BYTES")
    case True
    then show ?thesis using slice_of_file [OF f True, of "Suc (length A)"] by auto
  next
    case False
    then show ?thesis using f by (auto simp: a_file_def readFileSlice_def Let_def)
  qed
  then obtain p2 where p2: "readFileSlice pwd w p (of_nat (Suc (length A))) (of_nat n) = Inr p2"
    "n \<le> MAX_READ_BYTES \<longrightarrow> carries p2 (take n (t # B))" by blast
  then have "0 < n \<longrightarrow> n \<le> MAX_READ_BYTES \<longrightarrow> fp_data p2 = Utf8_data ps \<longrightarrow> (\<exists>qs. ps = U_REPLACEMENT # qs)"
    using c(2,3) by (cases n) (auto simp: carries_def bytes_text_def trail_alone simp del: u8_points.simps)
  with p1 p2(1) show ?thesis by auto
qed

end
