(* ===== verification/FileServe.thy ===== *)
theory FileServe
  imports FsView
begin

text \<open>
  A file over HTTP with ranges (\<open>fileServe.ts\<close>). The response is its status, headers and body; the
  file is read as it was when it was looked at. The lemmas: a range that is served lies in the file
  and is not empty, what is sent is what the headers say, and ranges asked one after the other give
  the file.
\<close>

section \<open>Types\<close>

definition TYPES :: "(string \<times> string) list" where
  "TYPES =
     [(''png'', ''image/png''), (''jpg'', ''image/jpeg''), (''jpeg'', ''image/jpeg''), (''gif'', ''image/gif''),
      (''webp'', ''image/webp''), (''bmp'', ''image/bmp''), (''svg'', ''image/svg+xml''),
      (''mp4'', ''video/mp4''), (''m4v'', ''video/mp4''), (''mov'', ''video/quicktime''), (''webm'', ''video/webm''),
      (''mkv'', ''video/x-matroska''), (''3gp'', ''video/3gpp''),
      (''mp3'', ''audio/mpeg''), (''m4a'', ''audio/mp4''), (''aac'', ''audio/aac''), (''wav'', ''audio/wav''),
      (''ogg'', ''audio/ogg''), (''flac'', ''audio/flac''), (''opus'', ''audio/ogg''),
      (''pdf'', ''application/pdf''), (''json'', ''application/json''), (''html'', ''text/html''), (''htm'', ''text/html''),
      (''txt'', ''text/plain''), (''md'', ''text/plain''), (''log'', ''text/plain''), (''csv'', ''text/csv'')]"

text \<open>\<open>path.extname\<close>: from the last dot of the base name, unless that starts it or the name is \<open>..\<close>.\<close>

definition path_extname :: "string \<Rightarrow> string" where
  "path_extname p =
     (let b = path_basename p; t = rev (takeWhile (\<lambda>c. c \<noteq> CHR ''.'') (rev b)) in
      if CHR ''.'' \<notin> set b \<or> length t + 1 = length b \<or> b = ''..'' then [] else CHR ''.'' # t)"

text \<open>
  The table is an object literal, so the names every object has are found in it too; two of them
  can be an extension in lower case. What they give is no type: \<^term>\<open>None\<close>.
\<close>

definition contentType :: "string \<Rightarrow> string option" where
  "contentType file =
     (let e = to_lower (drop 1 (path_extname file)) in
      case map_of TYPES e of
        Some t \<Rightarrow> Some t
      | None \<Rightarrow> if e = ''constructor'' \<or> e = ''__proto__'' then None else Some ''application/octet-stream'')"

section \<open>Ranges\<close>

datatype range_answer = No_range | Invalid_range | Range nat nat

definition check_range :: "nat \<Rightarrow> nat \<Rightarrow> int \<Rightarrow> range_answer" where
  "check_range n start end_pos =
     (if n \<le> start \<or> end_pos < int start then Invalid_range else Range start (nat end_pos))"

definition parseRange :: "string option \<Rightarrow> nat \<Rightarrow> range_answer" where
  "parseRange header len =
     (case header of
        None \<Rightarrow> No_range
      | Some h \<Rightarrow>
          if h = [] then No_range
          else let t = trim h; r = drop 6 t; a = takeWhile is_digit r; r1 = dropWhile is_digit r; b = drop 1 r1 in
            if \<not> starts_with t ''bytes='' \<or> r1 = [] \<or> hd r1 \<noteq> CHR ''-'' \<or> \<not> list_all is_digit b \<or> (a = [] \<and> b = [])
            then Invalid_range
            else if a = [] then
              (if read_nat b = 0 then Invalid_range else check_range len (len - read_nat b) (int len - 1))
            else check_range len (read_nat a)
                   (if b = [] then int len - 1 else min (int (read_nat b)) (int len - 1)))"

section \<open>The response\<close>

definition uri_plain :: "char \<Rightarrow> bool" where
  "uri_plain c = (is_alnum c \<or> c \<in> set ''-_.!~*()'' \<or> code_of c = 39)"

definition percent_byte :: "char \<Rightarrow> string" where
  "percent_byte b =
     (let n = code_of b in map upper_char [CHR ''%'', hex_digit (n div 16), hex_digit (n mod 16)])"

definition encodeURIComponent :: "string \<Rightarrow> string" where
  "encodeURIComponent s = concat (map (\<lambda>c. if uri_plain c then [c] else concat (map percent_byte (utf8_char c))) s)"

record file_response =
  sv_status :: nat
  sv_headers :: "(string \<times> string option) list"
  sv_body :: string

definition serve_failed :: "nat \<Rightarrow> string \<Rightarrow> file_response" where
  "serve_failed status message =
     \<lparr>sv_status = status,
      sv_headers = [(''content-type'', Some ''text/plain''), (''cache-control'', Some ''no-store'')], sv_body = message\<rparr>"

definition show_range :: "int \<Rightarrow> int \<Rightarrow> nat \<Rightarrow> string" where
  "show_range a b len = ''bytes '' @ show_num (of_int a) @ ''-'' @ show_num (of_int b) @ ''/'' @ show_nat len"

text \<open>\<open>file\<close> is the parameter \<open>path\<close> of the query; \<open>head\<close> says that the method is \<open>HEAD\<close>.\<close>

definition serveFile :: "fs_disk \<Rightarrow> bool \<Rightarrow> string option \<Rightarrow> string option \<Rightarrow> file_response" where
  "serveFile w head param header =
     (let file = (case param of None \<Rightarrow> [] | Some f \<Rightarrow> f) in
      if \<not> is_absolute file then serve_failed 400 ''path must be absolute''
      else case fv_stat w file of
        None \<Rightarrow> serve_failed 404 ''no such file''
      | Some k \<Rightarrow>
          if k \<noteq> F_file then serve_failed 400 ''not a file''
          else let all = fv_bytes w file; len = length all; q = parseRange header len in
            if q = Invalid_range
            then \<lparr>sv_status = 416, sv_headers = [(''content-range'', Some (''bytes */'' @ show_nat len))], sv_body = []\<rparr>
            else let start = (case q of Range a b \<Rightarrow> a | _ \<Rightarrow> 0);
                     end_pos = (case q of Range a b \<Rightarrow> int b | _ \<Rightarrow> int len - 1);
                     n = (if len = 0 then 0 else nat (end_pos - int start + 1))
                 in \<lparr>sv_status = (if q = No_range then 200 else 206),
                     sv_headers =
                       [(''content-type'', contentType file), (''accept-ranges'', Some ''bytes''),
                        (''cache-control'', Some ''private, max-age=60''),
                        (''content-disposition'',
                         Some (''inline; filename*=UTF-8'' @ [CHR 0x27, CHR 0x27] @ encodeURIComponent (path_basename file))),
                        (''content-length'', Some (show_nat n))]
                       @ (if q = No_range then [] else [(''content-range'', Some (show_range (int start) end_pos len))]),
                     sv_body = (if head \<or> len = 0 then [] else take n (drop start all))\<rparr>)"

section \<open>What is served\<close>

lemma check_range_in:
  "check_range n start e = Range a b \<Longrightarrow> e < int n \<Longrightarrow> a = start \<and> a \<le> b \<and> b < n \<and> int b = e"
  by (auto simp: check_range_def split: if_splits)

lemma parseRange_in: "parseRange h n = Range a b \<Longrightarrow> a \<le> b \<and> b < n"
  by (auto simp: parseRange_def Let_def split: option.splits if_splits dest!: check_range_in)

text \<open>The header a client sends for the bytes from \<open>a\<close> to \<open>b\<close>.\<close>

definition range_header :: "nat \<Rightarrow> nat \<Rightarrow> string" where
  "range_header a b = ''bytes='' @ show_nat a @ ''-'' @ show_nat b"

lemma takeWhile_range_digits: "list_all is_digit ds \<Longrightarrow> takeWhile is_digit (ds @ CHR ''-'' # r) = ds"
  "list_all is_digit ds \<Longrightarrow> dropWhile is_digit (ds @ CHR ''-'' # r) = CHR ''-'' # r"
  by (induction ds) (simp_all add: is_digit_def)

lemma parseRange_header:
  "parseRange (Some (range_header a b)) n = (if n \<le> a \<or> b < a then Invalid_range else Range a (min b (n - 1)))"
proof -
  have "\<not> is_space (last (range_header a b))"
    using show_nat_digits [of b] is_digit_nonspecial by (auto simp: range_header_def list_all_iff)
  then have t: "trim (range_header a b) = range_header a b"
    by (intro trim_tight) (simp_all add: range_header_def is_space_def)
  have "drop 6 (range_header a b) = show_nat a @ CHR ''-'' # show_nat b" by (simp add: range_header_def)
  moreover have "starts_with (range_header a b) ''bytes=''" by (simp add: range_header_def)
  moreover have "range_header a b \<noteq> []" by (simp add: range_header_def)
  moreover have "\<not> is_digit (CHR ''-'')" by (simp add: is_digit_def)
  ultimately show ?thesis
    by (auto simp: parseRange_def Let_def t takeWhile_range_digits show_nat_digits check_range_def min_def of_nat_diff)
qed

text \<open>A file on the disk, by an absolute path.\<close>

definition is_served :: "fs_disk \<Rightarrow> string \<Rightarrow> string \<Rightarrow> bool" where
  "is_served w f bytes = (is_absolute f \<and> fv_stat w f = Some F_file \<and> fv_bytes w f = bytes)"

lemma serve_whole:
  "is_served w f bytes \<Longrightarrow> sv_status (serveFile w False (Some f) None) = 200 \<and> sv_body (serveFile w False (Some f) None) = bytes"
  by (simp add: is_served_def serveFile_def Let_def parseRange_def)

lemma serve_range:
  assumes "is_served w f bytes"
  shows "serveFile w False (Some f) (Some (range_header a b)) = r \<Longrightarrow>
    (if a < length bytes \<and> a \<le> b then sv_status r = 206 \<and> sv_body r = take (b - a + 1) (drop a bytes)
     else sv_status r = 416 \<and> sv_body r = [])"
proof -
  have "nat (int (min b (length bytes - 1)) - int a + 1) = min b (length bytes - 1) - a + 1" if "a < length bytes" "a \<le> b"
    using that by auto
  moreover have "take (min b (length bytes - 1) - a + 1) (drop a bytes) = take (b - a + 1) (drop a bytes)"
    if "a < length bytes" "a \<le> b" using that by (cases "b \<le> length bytes - 1") (auto simp: min_def)
  ultimately show "serveFile w False (Some f) (Some (range_header a b)) = r \<Longrightarrow>
    (if a < length bytes \<and> a \<le> b then sv_status r = 206 \<and> sv_body r = take (b - a + 1) (drop a bytes)
     else sv_status r = 416 \<and> sv_body r = [])"
    using assms by (auto simp: is_served_def serveFile_def Let_def parseRange_header)
qed

lemma serve_length:
  assumes "sv_status (serveFile w False p h) \<in> {200, 206}"
  shows "map_of (sv_headers (serveFile w False p h)) ''content-length''
    = Some (Some (show_nat (length (sv_body (serveFile w False p h)))))"
proof -
  let ?f = "case p of None \<Rightarrow> [] | Some f \<Rightarrow> f"
  have "is_absolute ?f \<and> fv_stat w ?f = Some F_file"
    using assms by (auto simp only: serveFile_def serve_failed_def Let_def file_response.simps split: if_splits option.split_asm)
  then show ?thesis
    using assms parseRange_in [of h "length (fv_bytes w ?f)"]
    by (cases "parseRange h (length (fv_bytes w ?f))") (auto simp: serveFile_def Let_def min_def)
qed

text \<open>A client that asks for \<open>n\<close> bytes at a time until it is refused.\<close>

fun fetch :: "nat \<Rightarrow> (string option \<Rightarrow> file_response) \<Rightarrow> nat \<Rightarrow> nat \<Rightarrow> string" where
  "fetch 0 get n off = []"
| "fetch (Suc k) get n off =
     (let r = get (Some (range_header off (off + n - 1))) in
      if sv_status r = 206 then sv_body r @ fetch k get n (off + n) else [])"

lemma fetch_file:
  assumes "is_served w f bytes" and "0 < n"
  shows "length bytes \<le> off + k * n \<Longrightarrow> fetch k (serveFile w False (Some f)) n off = drop off bytes"
proof (induction k arbitrary: off)
  case (Suc k)
  let ?r = "serveFile w False (Some f) (Some (range_header off (off + n - 1)))"
  have r: "if off < length bytes then sv_status ?r = 206 \<and> sv_body ?r = take n (drop off bytes)
      else sv_status ?r = 416 \<and> sv_body ?r = []"
    using serve_range [OF assms(1), of off "off + n - 1"] assms(2) by auto
  have "take n (drop off bytes) @ drop (off + n) bytes = drop off bytes"
    by (simp add: add.commute drop_drop [symmetric] del: drop_drop)
  moreover have "fetch k (serveFile w False (Some f)) n (off + n) = drop (off + n) bytes"
    using Suc.prems by (intro Suc.IH) simp
  ultimately show ?case using r by (auto simp: Let_def split: if_splits)
qed simp

end
