(* ===== verification/Downloads.thy ===== *)
theory Downloads
  imports FileServe
begin

text \<open>
  Files handed to the browser (\<open>downloadServer.ts\<close>) and the directories they may come from
  (\<open>resourceRoots.ts\<close>). A token stands for 256 random bits; the disk is \<open>fs_disk\<close>, and \<open>realpath\<close> a
  function that fails where the file cannot be resolved. The lemmas: what is served was granted, at
  most once, within its time, and lay in one of the roots by one of its spellings.
\<close>

section \<open>Roots\<close>

text \<open>\<open>path.relative\<close> of two absolute paths: up from what they do not share, then down.\<close>

fun drop_common :: "string list \<Rightarrow> string list \<Rightarrow> string list \<times> string list" where
  "drop_common (a # ps) (b # qs) = (if a = b then drop_common ps qs else (a # ps, b # qs))"
| "drop_common ps qs = (ps, qs)"

definition path_segments :: "string \<Rightarrow> string list" where
  "path_segments p = filter (\<lambda>s. s \<noteq> []) (split_char slash p)"

definition path_relative :: "string \<Rightarrow> string \<Rightarrow> string" where
  "path_relative start dest =
     (let (up, down) = drop_common (path_segments start) (path_segments dest)
      in join [slash] (replicate (length up) ''..'' @ down))"

definition under_root :: "string \<Rightarrow> string \<Rightarrow> string \<Rightarrow> bool" where
  "under_root pwd candidate rt =
     (let rel = path_relative (path_resolve pwd rt) candidate in
      rel \<noteq> [] \<and> \<not> starts_with rel ''..'' \<and> \<not> is_absolute rel)"

definition spellings :: "string \<Rightarrow> (string \<Rightarrow> string option) \<Rightarrow> string \<Rightarrow> string list" where
  "spellings pwd realpath file =
     remdups (path_resolve pwd file # (case realpath file of None \<Rightarrow> [] | Some p \<Rightarrow> [p]))"

definition isWithinRoots :: "string \<Rightarrow> (string \<Rightarrow> string option) \<Rightarrow> string \<Rightarrow> string list \<Rightarrow> bool" where
  "isWithinRoots pwd realpath file roots =
     list_ex (\<lambda>c. list_ex (under_root pwd c) roots) (spellings pwd realpath file)"

text \<open>\<open>resourceRootPaths\<close>: a set, in the order it was filled.\<close>

definition add_root :: "(string \<Rightarrow> string option) \<Rightarrow> string \<Rightarrow> string list \<Rightarrow> string list" where
  "add_root realpath base roots =
     (if base = [] then roots
      else fold (\<lambda>p rs. if p \<in> set rs then rs else rs @ [p])
             (path_normalize base # (case realpath base of None \<Rightarrow> [] | Some p \<Rightarrow> [p])) roots)"

definition resourceRootPaths ::
    "(string \<Rightarrow> string option) \<Rightarrow> string \<Rightarrow> string \<Rightarrow> string \<Rightarrow> string list \<Rightarrow> string list" where
  "resourceRootPaths realpath home tmpdir uploads folders = fold (add_root realpath) ([uploads, home, tmpdir] @ folders) []"

section \<open>Grants\<close>

definition TOKEN_TTL_MS :: time_ms where "TOKEN_TTL_MS = 5 * 60 * 1000"

record grant =
  gr_file :: string
  gr_name :: string
  gr_expiresAt :: time_ms

type_synonym grants = "(string \<times> grant) list"

definition sweep_grants :: "time_ms \<Rightarrow> grants \<Rightarrow> grants" where
  "sweep_grants now gs = filter (\<lambda>(t, g). \<not> gr_expiresAt g < now) gs"

definition may_grant :: "string \<Rightarrow> (string \<Rightarrow> string option) \<Rightarrow> fs_disk \<Rightarrow> string list \<Rightarrow> string \<Rightarrow> bool" where
  "may_grant pwd realpath w roots file =
     (fv_stat w file = Some F_file \<and> is_absolute file \<and> isWithinRoots pwd realpath file roots)"

text \<open>\<open>grant\<close> under a fresh token: the path of the URL, or a refusal.\<close>

definition grant_file ::
    "string \<Rightarrow> (string \<Rightarrow> string option) \<Rightarrow> fs_disk \<Rightarrow> string list \<Rightarrow> time_ms \<Rightarrow> string \<Rightarrow> string \<Rightarrow> grants
     \<Rightarrow> string option \<times> grants" where
  "grant_file pwd realpath w roots now token file gs =
     (if may_grant pwd realpath w roots file
      then (Some (''/d/'' @ token),
            AList.update token \<lparr>gr_file = file, gr_name = path_basename file, gr_expiresAt = now + TOKEN_TTL_MS\<rparr>
              (sweep_grants now gs))
      else (None, gs))"

section \<open>Serving\<close>

text \<open>\<open>/^\/d\/([A-Za-z0-9_-]+)$/\<close>.\<close>

definition token_char :: "char \<Rightarrow> bool" where
  "token_char c = (is_alnum c \<or> c = CHR ''_'' \<or> c = CHR ''-'')"

definition token_of :: "string \<Rightarrow> string option" where
  "token_of url =
     (let t = drop 3 url in
      if starts_with url ''/d/'' \<and> t \<noteq> [] \<and> list_all token_char t then Some t else None)"

definition plain_name :: "string \<Rightarrow> string" where
  "plain_name name = map (\<lambda>c. if c = CHR 0x22 \<or> c = bs then CHR ''_'' else c) name"

definition download_headers :: "grant \<Rightarrow> nat \<Rightarrow> (string \<times> string option) list" where
  "download_headers g n =
     [(''content-type'', Some ''application/octet-stream''), (''content-length'', Some (show_nat n)),
      (''content-disposition'',
       Some (''attachment; filename='' @ [CHR 0x22] @ plain_name (gr_name g) @ [CHR 0x22] @ ''; ''
             @ ''filename*=UTF-8'' @ [CHR 0x27, CHR 0x27] @ encodeURIComponent (gr_name g))),
      (''cache-control'', Some ''no-store'')]"

definition not_found :: file_response where
  "not_found = \<lparr>sv_status = 404, sv_headers = [(''content-type'', Some ''text/plain'')], sv_body = ''Not found''\<rparr>"

definition serve_download :: "fs_disk \<Rightarrow> time_ms \<Rightarrow> string option \<Rightarrow> grants \<Rightarrow> file_response \<times> grants" where
  "serve_download w now url gs =
     (case token_of (case url of None \<Rightarrow> [] | Some u \<Rightarrow> u) of
        None \<Rightarrow> (not_found, gs)
      | Some t \<Rightarrow>
          (case map_of gs t of
             None \<Rightarrow> (not_found, AList.delete t gs)
           | Some g \<Rightarrow>
               if gr_expiresAt g < now \<or> fv_stat w (gr_file g) = None then (not_found, AList.delete t gs)
               else (\<lparr>sv_status = 200, sv_headers = download_headers g (length (fv_bytes w (gr_file g))),
                      sv_body = fv_bytes w (gr_file g)\<rparr>, AList.delete t gs)))"

section \<open>Runs\<close>

text \<open>
  The server through a run: requests for a grant, under tokens never used before, and downloads, each
  at its time and with the disk as it then is. \<open>dl_minted\<close>, \<open>dl_roots\<close> and \<open>dl_served\<close> record what
  happened: the tokens given out, the roots of that moment, and the downloads answered.
\<close>

datatype dl_event =
    Ask string fs_disk "string list" time_ms string
  | Fetch fs_disk time_ms string

record dl_state =
  dl_grants :: grants
  dl_minted :: "(string \<times> string \<times> time_ms) list"
  dl_served :: "(string \<times> string \<times> time_ms) list"
  dl_roots :: "(string \<times> string list) list"

definition dl_start :: dl_state where
  "dl_start = \<lparr>dl_grants = [], dl_minted = [], dl_served = [], dl_roots = []\<rparr>"

fun dl_do :: "string \<Rightarrow> (string \<Rightarrow> string option) \<Rightarrow> dl_event \<Rightarrow> dl_state \<Rightarrow> dl_state" where
  "dl_do pwd realpath (Ask token w roots now file) s =
     (case grant_file pwd realpath w roots now token file (dl_grants s) of
        (None, gs) \<Rightarrow> s \<lparr>dl_grants := gs\<rparr>
      | (Some u, gs) \<Rightarrow> s \<lparr>dl_grants := gs, dl_minted := dl_minted s @ [(token, file, now)],
                              dl_roots := dl_roots s @ [(token, roots)]\<rparr>)"
| "dl_do pwd realpath (Fetch w now url) s =
     (case serve_download w now (Some url) (dl_grants s) of
        (r, gs) \<Rightarrow>
          (if sv_status r = 200
           then (case Option.bind (token_of url) (map_of (dl_grants s)) of
                   Some g \<Rightarrow> s \<lparr>dl_grants := gs, dl_served := dl_served s @ [(drop 3 url, gr_file g, now)]\<rparr>
                 | None \<Rightarrow> s \<lparr>dl_grants := gs\<rparr>)
           else s \<lparr>dl_grants := gs\<rparr>))"

text \<open>
  A run. The files on disk come and go with the events; the links that \<open>realpath\<close> follows are taken as
  they are throughout it. A token that is handed out is a new one.
\<close>

definition fresh_token :: "dl_event \<Rightarrow> dl_state \<Rightarrow> bool" where
  "fresh_token e s = (case e of Ask t w rs now f \<Rightarrow> t \<notin> fst ` set (dl_minted s) | _ \<Rightarrow> True)"

inductive dl_run :: "string \<Rightarrow> (string \<Rightarrow> string option) \<Rightarrow> dl_state \<Rightarrow> bool" for pwd realpath where
  start: "dl_run pwd realpath dl_start"
| step: "dl_run pwd realpath s \<Longrightarrow> fresh_token e s \<Longrightarrow> dl_run pwd realpath (dl_do pwd realpath e s)"

definition dl_ok :: "dl_state \<Rightarrow> bool" where
  "dl_ok s =
     (distinct (map fst (dl_grants s)) \<and> distinct (map fst (dl_minted s)) \<and> distinct (map fst (dl_served s))
      \<and> (\<forall>t g. map_of (dl_grants s) t = Some g \<longrightarrow>
           (t, gr_file g, gr_expiresAt g - TOKEN_TTL_MS) \<in> set (dl_minted s) \<and> t \<notin> fst ` set (dl_served s))
      \<and> (\<forall>(t, f, now)\<in>set (dl_served s). \<exists>m. (t, f, m) \<in> set (dl_minted s) \<and> now \<le> m + TOKEN_TTL_MS))"

definition dl_rooted :: "string \<Rightarrow> (string \<Rightarrow> string option) \<Rightarrow> dl_state \<Rightarrow> bool" where
  "dl_rooted pwd realpath s =
     list_all2 (\<lambda>(t, f, m) (u, roots). t = u \<and> isWithinRoots pwd realpath f roots) (dl_minted s) (dl_roots s)"

lemma map_of_sweep_grants: "distinct (map fst gs) \<Longrightarrow> map_of (sweep_grants now gs) t = Some g \<Longrightarrow> map_of gs t = Some g"
  by (auto simp: sweep_grants_def dest!: map_of_SomeD intro!: map_of_is_SomeI)

lemma distinct_sweep: "distinct (map fst gs) \<Longrightarrow> distinct (map fst (sweep_grants now gs))"
  by (simp add: sweep_grants_def distinct_map_filter)

lemma dl_ok_sweep: "dl_ok s \<Longrightarrow> dl_ok (s \<lparr>dl_grants := sweep_grants now (dl_grants s)\<rparr>)"
  using map_of_sweep_grants [of "dl_grants s" now] distinct_sweep [of "dl_grants s" now]
  by (auto simp: dl_ok_def simp del: map_of_eq_Some_iff)

lemma fresh_unserved: "dl_ok s \<Longrightarrow> token \<notin> fst ` set (dl_minted s) \<Longrightarrow> token \<notin> fst ` set (dl_served s)"
  by (force simp: dl_ok_def)

lemma dl_ok_roots [simp]: "dl_ok (s \<lparr>dl_roots := rs\<rparr>) = dl_ok s"
  by (simp add: dl_ok_def)

lemma dl_ok_mint:
  assumes ok: "dl_ok s" and new: "token \<notin> fst ` set (dl_minted s)"
  shows "dl_ok (s \<lparr>dl_grants := AList.update token g (dl_grants s),
                 dl_minted := dl_minted s @ [(token, gr_file g, gr_expiresAt g - TOKEN_TTL_MS)]\<rparr>)"
proof -
  have un: "token \<notin> fst ` set (dl_served s)" using fresh_unserved [OF ok new] .
  show ?thesis
    unfolding dl_ok_def
  proof (intro conjI allI impI)
    fix t h
    assume "map_of (dl_grants (s \<lparr>dl_grants := AList.update token g (dl_grants s),
                 dl_minted := dl_minted s @ [(token, gr_file g, gr_expiresAt g - TOKEN_TTL_MS)]\<rparr>)) t = Some h"
    then have c: "(if t = token then Some g else map_of (dl_grants s) t) = Some h"
      by (simp add: update_conv' fun_upd_def split: if_splits)
    show "(t, gr_file h, gr_expiresAt h - TOKEN_TTL_MS)
        \<in> set (dl_minted (s \<lparr>dl_grants := AList.update token g (dl_grants s),
                 dl_minted := dl_minted s @ [(token, gr_file g, gr_expiresAt g - TOKEN_TTL_MS)]\<rparr>))"
      using c ok by (auto simp: dl_ok_def split: if_splits)
    show "t \<notin> fst ` set (dl_served (s \<lparr>dl_grants := AList.update token g (dl_grants s),
                 dl_minted := dl_minted s @ [(token, gr_file g, gr_expiresAt g - TOKEN_TTL_MS)]\<rparr>))"
      using c ok un by (auto simp: dl_ok_def split: if_splits)
  qed (use ok new in \<open>auto simp: dl_ok_def distinct_update\<close>)
qed

lemma ask_ok:
  assumes "dl_ok s" and "token \<notin> fst ` set (dl_minted s)"
  shows "dl_ok (dl_do pwd realpath (Ask token w roots now file) s)"
proof (cases "may_grant pwd realpath w roots file")
  case False
  then show ?thesis using assms(1) by (simp add: grant_file_def)
next
  case True
  then show ?thesis
    using dl_ok_mint [OF dl_ok_sweep [OF assms(1)], of token now
        "\<lparr>gr_file = file, gr_name = path_basename file, gr_expiresAt = now + TOKEN_TTL_MS\<rparr>"] assms(2)
    by (simp add: grant_file_def dl_ok_def)
qed

lemma served_download:
  assumes "serve_download w now (Some url) gs = (r, gs')" and "sv_status r = 200"
  obtains t g where "token_of url = Some t" and "t = drop 3 url" and "map_of gs t = Some g"
    and "now \<le> gr_expiresAt g" and "gs' = AList.delete t gs" and "sv_body r = fv_bytes w (gr_file g)"
  using assms by (auto simp: serve_download_def not_found_def token_of_def Let_def split: option.splits if_splits)

lemma refused_download:
  assumes "serve_download w now u gs = (r, gs')"
  obtains "gs' = gs" | t where "gs' = AList.delete t gs"
  using assms by (auto simp: serve_download_def Let_def split: option.splits if_splits)

lemma dl_ok_delete: "dl_ok s \<Longrightarrow> dl_ok (s \<lparr>dl_grants := AList.delete t (dl_grants s)\<rparr>)"
  by (auto simp: dl_ok_def delete_conv' distinct_delete split: if_splits)

lemma fetch_ok:
  assumes ok: "dl_ok s"
  shows "dl_ok (dl_do pwd realpath (Fetch w now url) s)"
proof -
  obtain r gs where r: "serve_download w now (Some url) (dl_grants s) = (r, gs)" by (meson surj_pair)
  show ?thesis
  proof (cases "sv_status r = 200")
    case False
    have "dl_ok (s \<lparr>dl_grants := gs\<rparr>)" by (rule refused_download [OF r]) (simp_all add: ok dl_ok_delete)
    then show ?thesis using False r by simp
  next
    case True
    obtain t g where t: "token_of url = Some t" "t = drop 3 url" "map_of (dl_grants s) t = Some g"
        "now \<le> gr_expiresAt g" "gs = AList.delete t (dl_grants s)"
      by (rule served_download [OF r True])
    have "dl_ok (s \<lparr>dl_grants := gs\<rparr>)" using dl_ok_delete [OF ok] t(5) by simp
    moreover have "(t, gr_file g, gr_expiresAt g - TOKEN_TTL_MS) \<in> set (dl_minted s)" "t \<notin> fst ` set (dl_served s)"
      using ok t(3) by (auto simp: dl_ok_def)
    moreover have "now \<le> gr_expiresAt g - TOKEN_TTL_MS + TOKEN_TTL_MS" using t(4) by simp
    ultimately have "dl_ok (s \<lparr>dl_grants := gs, dl_served := dl_served s @ [(t, gr_file g, now)]\<rparr>)"
      using t(5) by (auto simp: dl_ok_def delete_conv' split: if_splits)
    then show ?thesis using r True t(1-3) by simp
  qed
qed

lemma dl_run_ok: "dl_run pwd realpath s \<Longrightarrow> dl_ok s"
proof (induction rule: dl_run.induct)
  case start
  show ?case by (simp add: dl_ok_def dl_start_def)
next
  case (step s e)
  then show ?case by (cases e) (auto simp: fresh_token_def intro: ask_ok fetch_ok simp del: dl_do.simps)
qed

lemma dl_run_rooted: "dl_run pwd realpath s \<Longrightarrow> dl_rooted pwd realpath s"
proof (induction rule: dl_run.induct)
  case start
  show ?case by (simp add: dl_rooted_def dl_start_def)
next
  case (step s e)
  then show ?case
    by (cases e)
      (auto simp: dl_rooted_def grant_file_def may_grant_def list_all2_appendI
        split: prod.splits option.splits if_splits)
qed

lemma minted_rooted:
  assumes "dl_rooted pwd realpath s" and "(t, f, m) \<in> set (dl_minted s)"
  shows "\<exists>roots. (t, roots) \<in> set (dl_roots s) \<and> isWithinRoots pwd realpath f roots"
proof -
  obtain i where i: "i < length (dl_minted s)" "dl_minted s ! i = (t, f, m)"
    using assms(2) by (metis in_set_conv_nth)
  obtain u rs where u: "dl_roots s ! i = (u, rs)" by (meson surj_pair)
  have l: "length (dl_minted s) = length (dl_roots s)"
    using assms(1) unfolding dl_rooted_def by (rule list_all2_lengthD)
  have "u = t \<and> isWithinRoots pwd realpath f rs"
    using list_all2_nthD [OF assms(1) [unfolded dl_rooted_def] i(1)] i(2) u by simp
  then show ?thesis using i(1) u l by (metis nth_mem)
qed

end
