(* ===== verification/Feed.thy ===== *)
theory Feed
  imports Daemon
begin

text \<open>
  What the daemon tells a client beside the chats it follows (\<open>main.ts\<close>): the feed of recent events
  over all chats, and the list of models as it learns it. The lemmas: the feed is newest first, within
  its limit, of the kinds it names and of the chats most recently active; and the models are announced
  exactly when they change.
\<close>

section \<open>The feed\<close>

definition FEED_SESSIONS :: nat where "FEED_SESSIONS = 30"
definition FEED_PER_SESSION :: nat where "FEED_PER_SESSION = 80"

definition in_feed :: "jsval \<Rightarrow> bool" where
  "in_feed v = (case event_type v of JStr t \<Rightarrow> t \<in> set FEED_EVENT_TYPES | _ \<Rightarrow> False)"

definition event_time :: "jsval \<Rightarrow> num" where
  "event_time v = (case js_prop v ''ts'' of JNum n \<Rightarrow> n | _ \<Rightarrow> 0)"

text \<open>One chat's part; looking at a chat opens it, which cannot fail for a chat of the registry.\<close>

definition feed_of_session :: "session \<Rightarrow> jsval list" where
  "feed_of_session s =
     (let n = int (tr_total (s_transcript s)) in
      take_last FEED_PER_SESSION (filter in_feed (pg_events (eventsSince (max 0 (n - 400)) 400 (s_transcript s)))))"

record feed_item =
  fi_session :: string
  fi_title :: string
  fi_event :: jsval

fun feed_sessions :: "(string \<Rightarrow> env) \<Rightarrow> (string \<times> session_meta) list \<Rightarrow> daemon \<Rightarrow> feed_item list \<times> daemon" where
  "feed_sessions envs [] d = ([], d)"
| "feed_sessions envs ((i, m) # ms) d =
     (case getSession (e_renames (envs i)) i d of
        Inl e \<Rightarrow> ([], d)
      | Inr (s, d1) \<Rightarrow>
          (case feed_sessions envs ms d1 of
             (fs, d2) \<Rightarrow> (map (\<lambda>v. \<lparr>fi_session = i, fi_title = mt_title m, fi_event = v\<rparr>) (feed_of_session s) @ fs, d2)))"

definition recent_metas :: "daemon \<Rightarrow> (string \<times> session_meta) list" where
  "recent_metas d =
     take FEED_SESSIONS (sort_desc (\<lambda>(i, m). mt_lastActivityAt m) (sort_desc (\<lambda>(i, m). mt_lastActivityAt m) (dm_metas d)))"

definition feed_limit :: "int option \<Rightarrow> nat" where
  "feed_limit limit = nat (max 1 (min 1000 (case limit of None \<Rightarrow> 200 | Some n \<Rightarrow> n)))"

definition recentFeed :: "(string \<Rightarrow> env) \<Rightarrow> int option \<Rightarrow> daemon \<Rightarrow> feed_item list \<times> daemon" where
  "recentFeed envs limit d =
     (case feed_sessions envs (recent_metas d) d of
        (fs, d') \<Rightarrow> (take (feed_limit limit) (sort_desc (\<lambda>x. event_time (fi_event x)) fs), d'))"

definition feed_request :: "(string \<Rightarrow> env) \<Rightarrow> nat \<Rightarrow> int option \<Rightarrow> daemon \<Rightarrow> feed_item list \<times> daemon" where
  "feed_request envs c limit d = recentFeed envs limit (on_hub (follow_feed c) d)"

section \<open>Models\<close>

record model_descriptor =
  md_value :: string
  md_displayName :: string
  md_description :: "string option"
  md_effortLevels :: "jsval list option"

text \<open>An entry that is \<open>null\<close> would throw; the SDK sends objects.\<close>

definition descriptor_of :: "jsval \<Rightarrow> model_descriptor option" where
  "descriptor_of m =
     (case js_prop m ''value'' of
        JStr v \<Rightarrow>
          Some \<lparr>md_value = v,
                md_displayName = (case js_prop m ''displayName'' of JStr d \<Rightarrow> d | _ \<Rightarrow> v),
                md_description = js_str (js_prop m ''description''),
                md_effortLevels = (case js_prop m ''supportedEffortLevels'' of JArr vs \<Rightarrow> Some vs | _ \<Rightarrow> None)\<rparr>
      | _ \<Rightarrow> None)"

definition toDescriptors :: "jsval list \<Rightarrow> model_descriptor list" where
  "toDescriptors ms = List.map_filter descriptor_of ms"

definition descriptor_json :: "model_descriptor \<Rightarrow> jsval" where
  "descriptor_json m =
     JObj ([(''value'', JStr (md_value m)), (''displayName'', JStr (md_displayName m))]
           @ opt_member ''description'' JStr (md_description m)
           @ opt_member ''effortLevels'' JArr (md_effortLevels m))"

text \<open>The cache, and the list to announce when its text changed.\<close>

definition models_text :: "model_descriptor list \<Rightarrow> string" where
  "models_text ds = stringify (JArr (map descriptor_json ds))"

definition cacheModels ::
    "jsval list \<Rightarrow> model_descriptor list option \<Rightarrow> model_descriptor list option \<times> model_descriptor list option" where
  "cacheModels ms cache =
     (let ds = toDescriptors ms in
      if ds = [] then (cache, None)
      else (Some ds, if map_option models_text cache = Some (models_text ds) then None else Some ds))"

section \<open>What the feed shows\<close>

lemma feed_of_session_news: "v \<in> set (feed_of_session s) \<Longrightarrow> in_feed v"
  using set_take_last [of FEED_PER_SESSION] by (fastforce simp: feed_of_session_def Let_def)

lemma length_feed_of_session: "length (feed_of_session s) \<le> FEED_PER_SESSION"
  by (simp add: feed_of_session_def Let_def)

lemma feed_sessions_spec:
  "feed_sessions envs ms d = (fs, d') \<Longrightarrow> x \<in> set fs \<Longrightarrow>
     in_feed (fi_event x) \<and> (\<exists>m. (fi_session x, m) \<in> set ms \<and> fi_title x = mt_title m)"
  by (induction envs ms d arbitrary: fs d' rule: feed_sessions.induct)
     (fastforce split: sum.splits prod.splits dest: feed_of_session_news)+

lemma feed_sessions_length:
  "feed_sessions envs ms d = (fs, d') \<Longrightarrow> length fs \<le> FEED_PER_SESSION * length ms"
proof (induction envs ms d arbitrary: fs d' rule: feed_sessions.induct)
  case (2 envs i m ms d)
  then show ?case using length_feed_of_session
    by (fastforce split: sum.splits prod.splits intro: add_mono)
qed simp

lemma recent_feed_spec:
  assumes "recentFeed envs limit d = (fs, d')"
  shows "sorted_wrt (\<lambda>x y. event_time (fi_event y) \<le> event_time (fi_event x)) fs"
    and "length fs \<le> feed_limit limit" and "feed_limit limit \<le> 1000" and "0 < feed_limit limit"
    and "x \<in> set fs \<Longrightarrow> in_feed (fi_event x) \<and> (\<exists>m. (fi_session x, m) \<in> set (recent_metas d) \<and> fi_title x = mt_title m)"
proof -
  obtain gs where g: "feed_sessions envs (recent_metas d) d = (gs, d')"
    "fs = take (feed_limit limit) (sort_desc (\<lambda>x. event_time (fi_event x)) gs)"
    using assms by (auto simp: recentFeed_def split: prod.splits)
  show "sorted_wrt (\<lambda>x y. event_time (fi_event y) \<le> event_time (fi_event x)) fs"
    unfolding g(2) by (rule sorted_wrt_take) (rule sort_desc_sorted)
  show "length fs \<le> feed_limit limit" using g(2) by simp
  show "feed_limit limit \<le> 1000" "0 < feed_limit limit" by (simp_all add: feed_limit_def)
  assume "x \<in> set fs"
  then have "x \<in> set gs" using g(2) by (auto dest: in_set_takeD)
  then show "in_feed (fi_event x) \<and> (\<exists>m. (fi_session x, m) \<in> set (recent_metas d) \<and> fi_title x = mt_title m)"
    using feed_sessions_spec [OF g(1)] by blast
qed

text \<open>The chats looked at are the most recently active.\<close>

lemma recent_metas_top:
  assumes "(i, m) \<in> set (recent_metas d)" and "(j, n) \<in> set (dm_metas d)" and "(j, n) \<notin> set (recent_metas d)"
  shows "mt_lastActivityAt n \<le> mt_lastActivityAt m"
proof -
  let ?xs = "sort_desc (\<lambda>(i, m). mt_lastActivityAt m) (sort_desc (\<lambda>(i, m). mt_lastActivityAt m) (dm_metas d))"
  have "(j, n) \<in> set (take FEED_SESSIONS ?xs @ drop FEED_SESSIONS ?xs)" using assms(2) by (simp only: append_take_drop_id set_sort_desc)
  then have "(j, n) \<in> set (drop FEED_SESSIONS ?xs)" using assms(3) unfolding recent_metas_def set_append Un_iff by blast
  moreover have "sorted_wrt (\<lambda>x y. (\<lambda>(i, m). mt_lastActivityAt m) y \<le> (\<lambda>(i, m). mt_lastActivityAt m) x)
      (take FEED_SESSIONS ?xs @ drop FEED_SESSIONS ?xs)"
    unfolding append_take_drop_id by (rule sort_desc_sorted)
  ultimately have "(\<lambda>(i, m). mt_lastActivityAt m) (j, n) \<le> (\<lambda>(i, m). mt_lastActivityAt m) (i, m)"
    using assms(1) unfolding recent_metas_def sorted_wrt_append by blast
  then show ?thesis by simp
qed

lemma cache_models_announced:
  assumes "cacheModels ms cache = (cache', told)"
  shows "toDescriptors ms \<noteq> [] \<Longrightarrow> cache' = Some (toDescriptors ms)"
    and "told \<noteq> None \<longleftrightarrow> toDescriptors ms \<noteq> [] \<and> map_option models_text cache \<noteq> map_option models_text cache'"
    and "told \<noteq> None \<Longrightarrow> told = cache'"
  using assms by (auto simp: cacheModels_def Let_def split: if_splits)

end
