(* ===== verification/Importer.thy ===== *)
theory Importer
  imports TranscriptSync SessionSdk Registry Usage
begin

text \<open>
  Bringing in conversations of Claude Code (\<open>importer.ts\<close>): the head of a transcript, the list of
  what can be imported, and the import itself, which writes a chat's log and its record. The
  transcripts are the files of \<^typ>\<open>fs\<close>. The lemmas: each conversation is offered once, in its newest
  copy, newest first; the log an import writes is read back as the events it collected.
\<close>

section \<open>Lines\<close>

definition MAX_PARSE_LINE :: nat where "MAX_PARSE_LINE = 200000"

definition null_property :: "string \<Rightarrow> string" where
  "null_property k = ''Cannot read properties of null (reading '' @ [CHR 0x27] @ k @ [CHR 0x27] @ '')''"

definition nullish :: "jsval \<Rightarrow> bool" where
  "nullish v = (v = JUndef \<or> v = JNull)"

text \<open>\<open>x ??= v\<close>.\<close>

definition or_else :: "jsval \<Rightarrow> jsval \<Rightarrow> jsval" where
  "or_else x v = (if nullish x then v else x)"

text \<open>\<open>path.basename(file, '.jsonl')\<close>.\<close>

definition jsonl_stem :: "string \<Rightarrow> string" where
  "jsonl_stem file =
     (let b = path_basename file in
      if ends_with b ''.jsonl'' \<and> b \<noteq> ''.jsonl'' then take (length b - 6) b else b)"

definition short_title :: "string \<Rightarrow> string" where
  "short_title text = collapse_ws (take 60 text)"

section \<open>The head of a transcript\<close>

record head_info =
  hi_cwd :: jsval
  hi_sessionId :: jsval
  hi_summary :: "string option"
  hi_firstUserText :: "string option"

definition no_head :: head_info where
  "no_head = \<lparr>hi_cwd = JUndef, hi_sessionId = JUndef, hi_summary = None, hi_firstUserText = None\<rparr>"

text \<open>The first text of a message; \<open>Inl\<close> where a block is \<open>null\<close> and reading its type throws.\<close>

fun first_block :: "jsval list \<Rightarrow> string + string option" where
  "first_block [] = Inr None"
| "first_block (b # bs) =
     (if b = JNull then Inl (null_property ''type'')
      else case (js_prop b ''type'' = JStr ''text'', js_prop b ''text'') of
        (True, JStr t) \<Rightarrow> Inr (Some t)
      | _ \<Rightarrow> first_block bs)"

definition firstTextOf :: "jsval \<Rightarrow> string + string option" where
  "firstTextOf content =
     (case content of JStr s \<Rightarrow> Inr (Some s) | JArr bs \<Rightarrow> first_block bs | _ \<Rightarrow> Inr None)"

definition given_text :: "string option \<Rightarrow> bool" where
  "given_text t = (case t of None \<Rightarrow> False | Some s \<Rightarrow> s \<noteq> [])"

definition head_line :: "string \<Rightarrow> head_info \<Rightarrow> string + head_info" where
  "head_line line info =
     (if trim line = [] \<or> MAX_PARSE_LINE < length line then Inr info
      else case json_parse line of
        None \<Rightarrow> Inr info
      | Some v \<Rightarrow>
          if v = JNull then Inl (null_property ''cwd'')
          else let i1 = info \<lparr>hi_cwd := or_else (hi_cwd info) (js_prop v ''cwd''),
                             hi_sessionId := or_else (hi_sessionId info) (js_prop v ''sessionId'')\<rparr>;
                   i2 = (case (given_text (hi_summary i1), js_prop v ''type'' = JStr ''summary'', js_prop v ''summary'') of
                           (False, True, JStr s) \<Rightarrow> i1 \<lparr>hi_summary := Some s\<rparr>
                         | _ \<Rightarrow> i1)
               in if given_text (hi_firstUserText i2) \<or> js_truthy (js_prop v ''isMeta'') \<or> js_prop v ''type'' \<noteq> JStr ''user''
                  then Inr i2
                  else case firstTextOf (js_prop (js_prop v ''message'') ''content'') of
                    Inl e \<Rightarrow> Inl e
                  | Inr t \<Rightarrow>
                      Inr (case t of
                             None \<Rightarrow> i2
                           | Some s \<Rightarrow> if s = [] \<or> starts_with s ''<'' then i2
                                       else i2 \<lparr>hi_firstUserText := Some (short_title s)\<rparr>))"

definition head_done :: "head_info \<Rightarrow> bool" where
  "head_done i =
     (js_truthy (hi_cwd i) \<and> js_truthy (hi_sessionId i) \<and> (given_text (hi_summary i) \<or> given_text (hi_firstUserText i)))"

text \<open>
  The loop over the newlines of what was read: an error, the finished head, or the head so far with
  the lines seen and the rest. A blank, long or unreadable line goes on without the test for the end.
\<close>

datatype head_scan = Head_error string | Head_done head_info | Head_more head_info nat string

definition skipped_line :: "string \<Rightarrow> bool" where
  "skipped_line line = (trim line = [] \<or> MAX_PARSE_LINE < length line \<or> json_parse line = None)"

function head_lines :: "head_info \<Rightarrow> nat \<Rightarrow> string \<Rightarrow> head_scan" where
  "head_lines info seen leftover =
     (if newline \<notin> set leftover then Head_more info seen leftover
      else let line = takeWhile (\<lambda>c. c \<noteq> newline) leftover; r = drop (length line + 1) leftover in
        case head_line line info of
          Inl e \<Rightarrow> Head_error e
        | Inr i \<Rightarrow> if \<not> skipped_line line \<and> head_done i then Head_done i else head_lines i (Suc seen) r)"
  by pat_completeness auto
termination
  by (relation "measure (\<lambda>(i, n, s). length s)") (auto intro!: diff_less length_pos_if_in_set)

declare head_lines.simps [simp del]

text \<open>The loop over the chunks of the file, each decoded on its own.\<close>

function head_chunks :: "nat \<Rightarrow> nat \<Rightarrow> string \<Rightarrow> nat \<Rightarrow> head_info \<Rightarrow> nat \<Rightarrow> string \<Rightarrow> string + head_info" where
  "head_chunks max_bytes max_lines bytes offset info seen leftover =
     (if max_bytes \<le> offset \<or> max_lines \<le> seen \<or> bytes = [] then Inr info
      else case head_lines info seen (leftover @ utf8_decode (take READ_CHUNK_BYTES bytes)) of
        Head_error e \<Rightarrow> Inl e
      | Head_done i \<Rightarrow> Inr i
      | Head_more i n r \<Rightarrow>
          head_chunks max_bytes max_lines (drop READ_CHUNK_BYTES bytes)
            (offset + length (take READ_CHUNK_BYTES bytes)) i n (if max_bytes < length r then [] else r))"
  by pat_completeness auto
termination
  by (relation "measure (\<lambda>(mb, ml, b, r). length b)") (auto simp: READ_CHUNK_BYTES_def)

declare head_chunks.simps [simp del]

definition scanHead :: "string \<Rightarrow> string + head_info" where
  "scanHead bytes = head_chunks (16 * 1024 * 1024) 400 bytes 0 no_head 0 []"

section \<open>What can be imported\<close>

record candidate =
  ca_file :: string
  ca_sdkSessionId :: jsval
  ca_cwd :: jsval
  ca_title :: string
  ca_mtime :: num

definition MAX_CANDIDATES :: nat where "MAX_CANDIDATES = 100"

text \<open>One file; \<open>None\<close> where the body of the loop goes on or throws before it stores anything.\<close>

definition candidate_of :: "fs \<Rightarrow> string \<Rightarrow> candidate option" where
  "candidate_of f full =
     (case map_of f full of
        None \<Rightarrow> None
      | Some st \<Rightarrow>
          (case scanHead (tf_bytes st) of
             Inl e \<Rightarrow> None
           | Inr info \<Rightarrow>
               if \<not> js_truthy (hi_cwd info) then None
               else map_option (\<lambda>t. \<lparr>ca_file = full,
                      ca_sdkSessionId = or_else (hi_sessionId info) (JStr (jsonl_stem full)),
                      ca_cwd = hi_cwd info, ca_title = t, ca_mtime = tf_mtime st\<rparr>)
                    (case (hi_summary info, hi_firstUserText info) of
                       (Some s, _) \<Rightarrow> Some s
                     | (None, Some s) \<Rightarrow> Some s
                     | (None, None) \<Rightarrow> map_option path_basename (js_str (hi_cwd info)))))"

text \<open>
  The files looked at, in order: the transcripts of every project of every directory.
\<close>

definition project_files :: "fs \<Rightarrow> string \<Rightarrow> string list" where
  "project_files f cdir =
     (let projects = path_join [cdir, ''projects''] in
      concat (map (\<lambda>d. let dirPath = path_join [projects, d] in
                      map (\<lambda>n. path_join [dirPath, n]) (filter (\<lambda>n. ends_with n ''.jsonl'') (readdir f dirPath)))
              (readdir f projects)))"

definition add_candidate :: "candidate \<Rightarrow> (jsval \<times> candidate) list \<Rightarrow> (jsval \<times> candidate) list" where
  "add_candidate c m =
     (case map_of m (ca_sdkSessionId c) of
        None \<Rightarrow> AList.update (ca_sdkSessionId c) c m
      | Some old \<Rightarrow> if ca_mtime c \<le> ca_mtime old then m else AList.update (ca_sdkSessionId c) c m)"

definition found_candidates :: "fs \<Rightarrow> string list \<Rightarrow> candidate list" where
  "found_candidates f configDirs =
     List.map_filter (candidate_of f) (concat (map (project_files f) configDirs))"

definition listClaudeSessions :: "fs \<Rightarrow> string list \<Rightarrow> candidate list" where
  "listClaudeSessions f configDirs =
     take MAX_CANDIDATES (sort_desc ca_mtime (map snd (fold add_candidate (found_candidates f configDirs) [])))"

section \<open>The import\<close>

record import_state =
  im_cwd :: jsval
  im_sessionId :: jsval
  im_summaryTitle :: "string option"
  im_title :: "string option"
  im_events :: "(jsval \<times> chat_event) list"

definition no_import :: import_state where
  "no_import = \<lparr>im_cwd = JUndef, im_sessionId = JUndef, im_summaryTitle = None, im_title = None, im_events = []\<rparr>"

text \<open>An event with its time, and what a user said, which names the chat if nothing did before.\<close>

definition add_event :: "jsval \<Rightarrow> chat_event \<Rightarrow> import_state \<Rightarrow> import_state" where
  "add_event ts e s = s \<lparr>im_events := im_events s @ [(ts, e)]\<rparr>"

definition user_said :: "jsval \<Rightarrow> string \<Rightarrow> import_state \<Rightarrow> import_state" where
  "user_said ts text s =
     (if starts_with text ''<'' then s
      else (add_event ts (User_message text [] None) s)
             \<lparr>im_title := (case im_title s of None \<Rightarrow> Some (short_title text) | Some t \<Rightarrow> Some t)\<rparr>)"

definition imported_result :: "jsval \<Rightarrow> string" where
  "imported_result content =
     (let text = (case content of JStr s \<Rightarrow> s | JUndef \<Rightarrow> stringify (JStr []) | JNull \<Rightarrow> stringify (JStr [])
                  | v \<Rightarrow> stringify v)
      in if 1500 < length text then take 1500 text @ [newline] @ ellipsis @ '' [truncated]'' else text)"

definition user_block :: "jsval \<Rightarrow> jsval \<Rightarrow> import_state \<Rightarrow> import_state" where
  "user_block ts b s =
     (case (js_prop b ''type'' = JStr ''text'', js_prop b ''text'') of
        (True, JStr t) \<Rightarrow> user_said ts t s
      | _ \<Rightarrow>
          if js_prop b ''type'' \<noteq> JStr ''tool_result'' then s
          else add_event ts (Tool_result (js_str (js_prop b ''tool_use_id'')) (imported_result (js_prop b ''content''))
                 (js_prop b ''is_error'' = JBool True) None) s)"

definition reply_block :: "jsval \<Rightarrow> jsval \<Rightarrow> import_state \<Rightarrow> import_state" where
  "reply_block ts b s =
     (case text_block b of
        Some t \<Rightarrow> add_event ts (Assistant_text t None) s
      | None \<Rightarrow>
          if js_prop b ''type'' \<noteq> JStr ''tool_use'' then s
          else add_event ts (Tool_use (js_str (js_prop b ''id'')) (tool_name b) (js_prop b ''input'') None) s)"

text \<open>A block that is \<open>null\<close> throws, and with it the whole import, before anything is stored.\<close>

definition all_blocks :: "(jsval \<Rightarrow> import_state \<Rightarrow> import_state) \<Rightarrow> jsval list \<Rightarrow> import_state \<Rightarrow> string + import_state" where
  "all_blocks f bs s = (if JNull \<in> set bs then Inl (null_property ''type'') else Inr (fold f bs s))"

definition stamp_of :: "time_ms \<Rightarrow> jsval \<Rightarrow> jsval" where
  "stamp_of now stamp =
     (if \<not> js_truthy stamp then JNum now
      else case date_parse (js_string stamp) of Some t \<Rightarrow> JNum t | None \<Rightarrow> JNaN)"

definition import_line :: "time_ms \<Rightarrow> string \<Rightarrow> import_state \<Rightarrow> string + import_state" where
  "import_line now line s =
     (if trim line = [] then Inr s
      else case json_parse line of
        None \<Rightarrow> Inr s
      | Some v \<Rightarrow>
          if v = JNull then Inl (null_property ''cwd'')
          else let s1 = s \<lparr>im_cwd := or_else (im_cwd s) (js_prop v ''cwd''),
                          im_sessionId := or_else (im_sessionId s) (js_prop v ''sessionId''),
                          im_summaryTitle :=
                            (case (js_prop v ''type'' = JStr ''summary'', js_prop v ''summary'', im_summaryTitle s) of
                               (True, JStr t, None) \<Rightarrow> Some t
                             | (b, w, old) \<Rightarrow> old)\<rparr>;
                   ts = stamp_of now (js_prop v ''timestamp'');
                   content = js_prop (js_prop v ''message'') ''content''
               in if js_truthy (js_prop v ''isMeta'') then Inr s1
                  else if js_prop v ''type'' = JStr ''user'' then
                    (case content of
                       JStr t \<Rightarrow> Inr (user_said ts t s1)
                     | JArr bs \<Rightarrow> all_blocks (user_block ts) bs s1
                     | _ \<Rightarrow> Inr s1)
                  else if js_prop v ''type'' = JStr ''assistant'' then
                    (case content of JArr bs \<Rightarrow> all_blocks (reply_block ts) bs s1 | _ \<Rightarrow> Inr s1)
                  else Inr s1)"

fun import_lines :: "time_ms \<Rightarrow> string list \<Rightarrow> import_state \<Rightarrow> string + import_state" where
  "import_lines now [] s = Inr s"
| "import_lines now (l # ls) s = (case import_line now l s of Inl e \<Rightarrow> Inl e | Inr s' \<Rightarrow> import_lines now ls s')"

definition imported_json :: "nat \<Rightarrow> jsval \<Rightarrow> chat_event \<Rightarrow> jsval" where
  "imported_json sq ts e = JObj [(''seq'', JNum (of_nat sq)), (''ts'', ts), (''event'', event_json e)]"

definition imported_events :: "(jsval \<times> chat_event) list \<Rightarrow> jsval list" where
  "imported_events es = map (\<lambda>(n, ts, e). imported_json n ts e) (enumerate 0 es)"

definition imported_log :: "(jsval \<times> chat_event) list \<Rightarrow> string" where
  "imported_log es =
     utf8_encode (join [newline] (map stringify (imported_events es)) @ (if es = [] then [] else [newline]))"

definition arrow :: string where "arrow = [CHR 0x9E]"

definition imported_title :: "string \<Rightarrow> import_state \<Rightarrow> string" where
  "imported_title file s =
     (case (case im_summaryTitle s of Some t \<Rightarrow> Some t | None \<Rightarrow> im_title s) of
        None \<Rightarrow> ''Imported '' @ jsonl_stem file
      | Some t \<Rightarrow> if t = [] then ''Imported '' @ jsonl_stem file else arrow @ '' '' @ t)"

text \<open>
  The import of a file's bytes under the id \<open>i\<close>: the record is created and saved, then completed and
  saved again, then the log is written. \<open>files\<close> are those of the sessions.
\<close>

definition importClaudeSession ::
    "nat \<Rightarrow> time_ms \<Rightarrow> string \<Rightarrow> string \<Rightarrow> string \<Rightarrow> registry \<Rightarrow> log_dir \<Rightarrow> log_dir
     \<Rightarrow> string + (jsval \<times> registry \<times> log_dir \<times> log_dir)" where
  "importClaudeSession pid now i file bytes r dir files =
     (case import_lines now (split_char newline (utf8_decode bytes)) no_import of
        Inl e \<Rightarrow> Inl e
      | Inr s \<Rightarrow>
          if \<not> js_truthy (im_cwd s) then Inl ''Could not determine the session working directory''
          else let m1 = js_set ''cwd'' (im_cwd s) (new_meta i (imported_title file s) [] now);
                   m2 = js_set ''sdkSessionId'' (or_else (im_sessionId s) (JStr (jsonl_stem file))) m1;
                   r1 = put_meta i m1 r; r2 = put_meta i m2 r
               in Inr (m2, r2, save pid Renamed r2 (save pid Renamed r1 dir),
                       write_file (activeLogPath i) (imported_log (im_events s)) files))"

section \<open>The list\<close>

text \<open>What the map holds after the loop: for each conversation found, one of its newest copies.\<close>

definition newest_of :: "candidate list \<Rightarrow> (jsval \<times> candidate) list \<Rightarrow> bool" where
  "newest_of cs m =
     (distinct (map fst m)
      \<and> (\<forall>(k, c)\<in>set m. c \<in> set cs \<and> ca_sdkSessionId c = k)
      \<and> (\<forall>c\<in>set cs. \<exists>d. map_of m (ca_sdkSessionId c) = Some d \<and> ca_mtime c \<le> ca_mtime d))"

lemma newest_add:
  assumes "newest_of cs m"
  shows "newest_of (cs @ [c]) (add_candidate c m)"
proof -
  have d: "distinct (map fst m)" and s: "\<And>k x. map_of m k = Some x \<Longrightarrow> x \<in> set cs \<and> ca_sdkSessionId x = k"
    using assms by (auto simp: newest_of_def dest: map_of_SomeD)
  have n: "\<And>x. x \<in> set cs \<Longrightarrow> \<exists>d. map_of m (ca_sdkSessionId x) = Some d \<and> ca_mtime x \<le> ca_mtime d"
    using assms by (auto simp: newest_of_def)
  have dm: "distinct (map fst (add_candidate c m))"
    using d by (auto simp: add_candidate_def distinct_update split: option.split)
  have v: "map_of (add_candidate c m) k = Some x \<Longrightarrow> x \<in> set (cs @ [c]) \<and> ca_sdkSessionId x = k" for k x
    using s by (auto simp: add_candidate_def update_conv' split: option.splits if_splits)
  have "\<exists>d. map_of (add_candidate c m) (ca_sdkSessionId x) = Some d \<and> ca_mtime x \<le> ca_mtime d"
    if x: "x \<in> set (cs @ [c])" for x
  proof (cases "x = c")
    case True
    then show ?thesis by (auto simp: add_candidate_def update_conv' split: option.split)
  next
    case False
    then obtain d where "map_of m (ca_sdkSessionId x) = Some d" "ca_mtime x \<le> ca_mtime d"
      using n [of x] x by auto
    then show ?thesis by (auto simp: add_candidate_def update_conv' split: option.split)
  qed
  with dm v show ?thesis unfolding newest_of_def by (auto simp: map_of_eq_Some_iff)
qed

lemma newest_fold: "newest_of cs m \<Longrightarrow> newest_of (cs @ ds) (fold add_candidate ds m)"
proof (induction ds arbitrary: cs m)
  case (Cons c ds)
  from Cons.IH [OF newest_add [OF Cons.prems]] show ?case by simp
qed simp

lemma listed_candidates:
  assumes "listClaudeSessions f dirs = cs"
  shows "distinct (map ca_sdkSessionId cs)" and "sorted_wrt (\<lambda>a b. ca_mtime b \<le> ca_mtime a) cs"
    and "length cs \<le> MAX_CANDIDATES"
    and "c \<in> set cs \<Longrightarrow> c \<in> set (found_candidates f dirs)
      \<and> (\<forall>d\<in>set (found_candidates f dirs). ca_sdkSessionId d = ca_sdkSessionId c \<longrightarrow> ca_mtime d \<le> ca_mtime c)"
    and "length cs < MAX_CANDIDATES \<Longrightarrow> d \<in> set (found_candidates f dirs) \<Longrightarrow>
      ca_sdkSessionId d \<in> ca_sdkSessionId ` set cs"
proof -
  let ?m = "fold add_candidate (found_candidates f dirs) []"
  have "newest_of [] []" by (simp add: newest_of_def)
  from newest_fold [OF this, of "found_candidates f dirs"] have n: "newest_of (found_candidates f dirs) ?m" by simp
  have keys: "map ca_sdkSessionId (map snd ?m) = map fst ?m" using n by (auto simp: newest_of_def)
  have "distinct (map ca_sdkSessionId (map snd ?m))" unfolding keys using n by (simp add: newest_of_def)
  then have "distinct (map snd ?m) \<and> inj_on ca_sdkSessionId (set (map snd ?m))" by (simp only: distinct_map)
  then have "distinct (map ca_sdkSessionId (sort_desc ca_mtime (map snd ?m)))"
    by (simp only: distinct_map set_sort_desc distinct_sort_desc simp_thms)
  then show "distinct (map ca_sdkSessionId cs)"
    using assms by (auto simp: listClaudeSessions_def take_map [symmetric] simp del: set_sort_desc)
  show "sorted_wrt (\<lambda>a b. ca_mtime b \<le> ca_mtime a) cs"
    using assms sort_desc_sorted [of ca_mtime "map snd ?m"] by (auto simp: listClaudeSessions_def sorted_wrt_take)
  show "length cs \<le> MAX_CANDIDATES" using assms by (auto simp: listClaudeSessions_def)
  have in_m: "c \<in> set (map snd ?m)" if "c \<in> set cs" for c
    using that assms set_sort_desc by (auto simp: listClaudeSessions_def dest!: in_set_takeD)
  have top: "c \<in> set (found_candidates f dirs)
      \<and> (\<forall>d\<in>set (found_candidates f dirs). ca_sdkSessionId d = ca_sdkSessionId c \<longrightarrow> ca_mtime d \<le> ca_mtime c)"
    if c: "c \<in> set (map snd ?m)" for c
  proof -
    obtain k where k: "(k, c) \<in> set ?m" using c by auto
    then have "map_of ?m k = Some c" "ca_sdkSessionId c = k" using n by (auto simp: newest_of_def)
    then show ?thesis using n k by (force simp: newest_of_def)
  qed
  show "c \<in> set cs \<Longrightarrow> c \<in> set (found_candidates f dirs)
      \<and> (\<forall>d\<in>set (found_candidates f dirs). ca_sdkSessionId d = ca_sdkSessionId c \<longrightarrow> ca_mtime d \<le> ca_mtime c)"
    using top in_m by blast
  assume "length cs < MAX_CANDIDATES" "d \<in> set (found_candidates f dirs)"
  then have "cs = sort_desc ca_mtime (map snd ?m)" using assms by (auto simp: listClaudeSessions_def)
  then have "set cs = set (map snd ?m)" by (simp only: set_sort_desc)
  moreover have "ca_sdkSessionId d \<in> ca_sdkSessionId ` set (map snd ?m)"
  proof -
    obtain x where "map_of ?m (ca_sdkSessionId d) = Some x"
      using n \<open>d \<in> set (found_candidates f dirs)\<close> unfolding newest_of_def by blast
    then have x: "(ca_sdkSessionId d, x) \<in> set ?m" by (rule map_of_SomeD)
    then have "ca_sdkSessionId x = ca_sdkSessionId d" using n by (auto simp: newest_of_def)
    moreover have "x \<in> set (map snd ?m)" using imageI [OF x, of snd] by simp
    ultimately show ?thesis using imageI [of x "set (map snd ?m)" ca_sdkSessionId] by simp
  qed
  ultimately show "ca_sdkSessionId d \<in> ca_sdkSessionId ` set cs" by simp
qed

section \<open>The log of an import\<close>

text \<open>What the log can hold: times that could be read, and tool inputs that are plain JSON.\<close>

definition import_plain :: "jsval \<times> chat_event \<Rightarrow> bool" where
  "import_plain = (\<lambda>(ts, e). (\<exists>n. ts = JNum n \<and> num_plain n) \<and> event_plain e)"

lemma imported_events_loggable:
  assumes "list_all import_plain es" and "v \<in> set (imported_events es)"
  shows "loggable v"
proof -
  obtain n ts e where e: "(ts, e) \<in> set es" "v = imported_json n ts e"
    using assms(2) by (auto simp: imported_events_def in_set_enumerate_eq split: prod.splits) (metis nth_mem)
  then have "import_plain (ts, e)" using assms(1) by (auto simp: list_all_iff)
  with e(2) show ?thesis by (auto simp: import_plain_def imported_json_def loggable_def event_json_plain)
qed

definition lines_of :: "jsval list \<Rightarrow> string" where
  "lines_of vs = concat (map (\<lambda>v. utf8_encode (stringify v) @ [newline]) vs)"

lemma lines_read_back:
  "(\<And>v. v \<in> set vs \<Longrightarrow> loggable v) \<Longrightarrow> file_events parse_event (Some (lines_of vs)) = vs \<and> terminated (Some (lines_of vs))"
proof (induction vs rule: rev_induct)
  case Nil
  then show ?case by (simp add: lines_of_def file_events_def file_lines_def terminated_def trim_def trim_start_def trim_end_def)
next
  case (snoc v vs)
  then have ih: "file_events parse_event (Some (lines_of vs)) = vs" "terminated (Some (lines_of vs))" by simp_all
  let ?d = "[([], lines_of vs)] :: log_dir"
  have "map_of (append_file [] (utf8_encode (stringify v) @ [newline]) ?d) [] = Some (lines_of (vs @ [v]))"
    by (simp add: append_file_def lines_of_def)
  then show ?case using jl.file_events_append [of ?d "[]" v] ih snoc.prems
    by (simp add: terminated_def lines_of_def)
qed

lemma imported_log_lines: "imported_log es = lines_of (imported_events es)"
proof -
  have j: "vs \<noteq> [] \<Longrightarrow> utf8_encode (join [newline] (map stringify vs)) @ [newline] = lines_of vs" for vs
  proof (induction vs rule: induct_list012)
    case (3 v w vs)
    then show ?case by (simp add: lines_of_def utf8_encode_def utf8_char_def newline_def)
  qed (simp_all add: lines_of_def utf8_encode_def)
  have n: "utf8_encode [newline] = [newline]" by (simp add: utf8_encode_def utf8_char_def newline_def)
  have a: "utf8_encode (x @ y) = utf8_encode x @ utf8_encode y" for x y by (simp add: utf8_encode_def)
  show ?thesis
  proof (cases "es = []")
    case True
    then show ?thesis by (simp add: imported_log_def imported_events_def lines_of_def utf8_encode_def)
  next
    case False
    then have "imported_events es \<noteq> []" by (cases es) (simp_all add: imported_events_def)
    from j [OF this] show ?thesis using False by (simp add: imported_log_def a n)
  qed
qed

lemma imported_numbered: "numbered (imported_events es)"
  by (auto simp: numbered_def imported_events_def nth_enumerate_eq imported_json_def split: prod.split)

lemma imported_log_read:
  assumes "list_all import_plain es" and "listArchiveGenerations i files = []"
  shows "transcript_ok (transcript_open ren i (write_file (activeLogPath i) (imported_log es) files))"
    and "transcript_events (transcript_open ren i (write_file (activeLogPath i) (imported_log es) files)) = imported_events es"
proof -
  let ?d = "write_file (activeLogPath i) (imported_log es) files"
  have b: "map_of ?d (activeLogPath i) = Some (lines_of (imported_events es))"
    by (simp add: map_of_write_file imported_log_lines)
  have r: "file_events parse_event (Some (lines_of (imported_events es))) = imported_events es"
      "terminated (Some (lines_of (imported_events es)))"
    using lines_read_back [of "imported_events es"] imported_events_loggable [OF assms(1)] by blast+
  have "set (listArchiveGenerations i ?d) = {}"
    using assms(2) set_generations [of i files] by (auto simp: set_generations write_file_def dom_update)
  then have "allLogFiles i ?d = [activeLogPath i]" by (simp add: allLogFiles_def)
  with b r show "transcript_ok (transcript_open ren i ?d)" "transcript_events (transcript_open ren i ?d) = imported_events es"
    by (simp_all add: transcript_open_ok log_events_def)
qed

end
