(* ===== verification/Login.thy ===== *)
theory Login
  imports ErrorHints LogStore NodePath Json
begin

text \<open>
  Signing in from the panel (\<open>login.ts\<close>): a child process prints a link, waits for a code and ends.
  A child is known by the id of its sign-in; what the operating system does to it arrives as events.
  The lemmas: a sign-in that was started is answered at most once, with a link only if its child
  printed one, and succeeds only if the account's own status says so; and a link that arrives in two
  pieces is answered with the first.
\<close>

section \<open>What the program prints\<close>

text \<open>\<open>/ESC\[[0-9;]*[a-zA-Z]/g\<close>.\<close>

definition ANSI_PATTERN :: rx where
  "ANSI_PATTERN =
     rx_seq [rx_in [CHR 0x1B], rx_in ''['', rx_star (RCh (\<lambda>c. is_digit c \<or> c = CHR '';'')), RCh is_alpha]"

definition stripAnsi :: "string \<Rightarrow> string" where
  "stripAnsi text = rx_replace_all ANSI_PATTERN [] text"

definition url_char :: "char \<Rightarrow> bool" where
  "url_char c = (\<not> is_space c \<and> c \<noteq> CHR 0x22 \<and> c \<noteq> CHR 0x27)"

definition AUTH_PATTERN :: rx where
  "AUTH_PATTERN =
     rx_seq [rx_lit ''https://'', rx_star (RCh url_char), rx_lit ''/oauth/authorize?'', rx_plus (RCh url_char)]"

definition extractAuthUrl :: "string \<Rightarrow> string option" where
  "extractAuthUrl output =
     (let t = stripAnsi output in
      case rx_exec AUTH_PATTERN t 0 of None \<Rightarrow> None | Some (b, e, cs) \<Rightarrow> Some (substring t b e))"

definition BAD_CODE_PATTERN :: rx where
  "BAD_CODE_PATTERN =
     (let gap = rx_between (RCh (\<lambda>c. c \<noteq> newline \<and> c \<noteq> CHR 0x0D)) 0 20 in
      rx_alts [rx_seq [rx_ci ''invalid'', gap, rx_ci ''code''],
               rx_seq [rx_ci ''code'', gap, rx_alts [rx_ci ''invalid'', rx_ci ''expired'']]])"

definition loginFailureReason :: "string \<Rightarrow> string option" where
  "loginFailureReason output =
     (if rx_test BAD_CODE_PATTERN (stripAnsi output)
      then Some (''That code was not accepted '' @ [CHR 0x97] @ '' it may have expired. Try signing in again.'')
      else None)"

section \<open>The sign-ins\<close>

text \<open>
  \<open>lc_settled\<close> says that the promise of \<open>start\<close> is settled. A child stays known after its entry in
  \<open>pending\<close> is gone, because its handlers do.
\<close>

record login_child =
  lc_name :: string
  lc_configDir :: string
  lc_output :: string
  lc_settled :: bool

record logins =
  lg_children :: "(nat \<times> login_child) list"
  lg_pending :: "nat list"
  lg_killed :: "nat list"
  lg_answers :: "(nat \<times> (string + string)) list"

definition logins_new :: logins where
  "logins_new = \<lparr>lg_children = [], lg_pending = [], lg_killed = [], lg_answers = []\<rparr>"

definition configDirFor :: "string \<Rightarrow> string \<Rightarrow> string \<Rightarrow> string \<Rightarrow> string" where
  "configDirFor default_name claudeDir accountsDir name =
     (if name = default_name then claudeDir else path_join [accountsDir, name])"

definition account_name_ok :: "string \<Rightarrow> bool" where
  "account_name_ok name = (name \<noteq> [] \<and> list_all (\<lambda>c. is_lower c \<or> is_digit c \<or> c = CHR ''-'') name)"

text \<open>\<open>start\<close> under a fresh id: an error at once, or a child.\<close>

definition login_start ::
    "string option \<Rightarrow> string \<Rightarrow> string \<Rightarrow> nat \<Rightarrow> logins \<Rightarrow> string option \<times> logins" where
  "login_start bin cdir name i s =
     (if bin = None then (Some NO_CLAUDE_MESSAGE, s)
      else if \<not> account_name_ok name
      then (Some ''Account name may use lowercase letters, digits and hyphens only'', s)
      else (None, s \<lparr>lg_children := lg_children s @
                       [(i, \<lparr>lc_name = name, lc_configDir = cdir, lc_output = [], lc_settled = False\<rparr>)],
                     lg_pending := lg_pending s @ [i]\<rparr>))"

definition cancel :: "nat \<Rightarrow> logins \<Rightarrow> logins" where
  "cancel i s =
     (if i \<in> set (lg_pending s)
      then s \<lparr>lg_pending := filter (\<lambda>j. j \<noteq> i) (lg_pending s), lg_killed := lg_killed s @ [i]\<rparr> else s)"

definition put_child :: "nat \<Rightarrow> login_child \<Rightarrow> logins \<Rightarrow> logins" where
  "put_child i c s = s \<lparr>lg_children := AList.update i c (lg_children s)\<rparr>"

definition answer :: "nat \<Rightarrow> login_child \<Rightarrow> string + string \<Rightarrow> logins \<Rightarrow> logins" where
  "answer i c a s = put_child i (c \<lparr>lc_settled := True\<rparr>) (s \<lparr>lg_answers := lg_answers s @ [(i, a)]\<rparr>)"

definition login_output :: "nat \<Rightarrow> string \<Rightarrow> logins \<Rightarrow> logins" where
  "login_output i chunk s =
     (case map_of (lg_children s) i of
        None \<Rightarrow> s
      | Some c \<Rightarrow>
          (let c1 = c \<lparr>lc_output := lc_output c @ utf8_decode chunk\<rparr> in
           case extractAuthUrl (lc_output c1) of
             None \<Rightarrow> put_child i c1 s
           | Some url \<Rightarrow> if lc_settled c1 then put_child i c1 s else answer i c1 (Inr url) s))"

text \<open>The three ends of a start that is still open.\<close>

definition give_up_start :: "(logins \<Rightarrow> logins) \<Rightarrow> string \<Rightarrow> nat \<Rightarrow> logins \<Rightarrow> logins" where
  "give_up_start first why_not i s =
     (case map_of (lg_children s) i of
        None \<Rightarrow> s
      | Some c \<Rightarrow> if lc_settled c then s else answer i c (Inl why_not) (first s))"

definition url_timeout :: "nat \<Rightarrow> logins \<Rightarrow> logins" where
  "url_timeout i = give_up_start (cancel i) ''Timed out waiting for the sign-in link'' i"

definition child_error :: "nat \<Rightarrow> string \<Rightarrow> logins \<Rightarrow> logins" where
  "child_error i e = give_up_start (cancel i) e i"

definition child_exit :: "nat \<Rightarrow> string \<Rightarrow> logins \<Rightarrow> logins" where
  "child_exit i code =
     give_up_start (\<lambda>s. s \<lparr>lg_pending := filter (\<lambda>j. j \<noteq> i) (lg_pending s)\<rparr>)
       (''Sign-in exited before producing a link (code '' @ code @ '')'') i"

section \<open>The code\<close>

text \<open>
  \<open>submitCode\<close> up to the wait for the child: an answer at once, or the text written to it.
  \<open>writable\<close> says whether the write went through.
\<close>

definition submit_begin :: "bool \<Rightarrow> nat \<Rightarrow> string \<Rightarrow> logins \<Rightarrow> string + string" where
  "submit_begin writable i code s =
     (if i \<notin> set (lg_pending s)
      then Inl (''That sign-in is no longer active '' @ [CHR 0x97] @ '' start again.'')
      else if trim code = [] then Inl ''No code was entered.''
      else if \<not> writable then Inl ''The sign-in process is no longer accepting input.''
      else Inr (trim code @ [newline]))"

datatype logged_in = Logged_in | Not_logged_in | Unknown_login

text \<open>\<open>isLoggedIn\<close>: the probe did not run, or what it printed.\<close>

definition isLoggedIn :: "string option \<Rightarrow> string option \<Rightarrow> logged_in" where
  "isLoggedIn bin printed =
     (case (bin, printed) of
        (Some b, Some out) \<Rightarrow>
          (case json_parse (stripAnsi out) of
             Some v \<Rightarrow> if js_prop v ''loggedIn'' = JBool True then Logged_in else Not_logged_in
           | None \<Rightarrow> Not_logged_in)
      | _ \<Rightarrow> Unknown_login)"

text \<open>After the wait: the entry read before it, the answer to the probe of its directory.\<close>

definition submit_end :: "nat \<Rightarrow> logged_in \<Rightarrow> logins \<Rightarrow> (string + string) \<times> logins" where
  "submit_end i probe s =
     (let s1 = s \<lparr>lg_pending := filter (\<lambda>j. j \<noteq> i) (lg_pending s)\<rparr> in
      case map_of (lg_children s) i of
        None \<Rightarrow> (Inl [], s1)
      | Some c \<Rightarrow>
          (case probe of
             Unknown_login \<Rightarrow>
               (Inl (''Could not check whether the sign-in worked '' @ [CHR 0x97] @ '' Claude Code did not run. ''
                     @ NO_CLAUDE_MESSAGE), s1)
           | Logged_in \<Rightarrow> (Inr (lc_configDir c), s1)
           | Not_logged_in \<Rightarrow>
               (Inl (case loginFailureReason (lc_output c) of
                       Some r \<Rightarrow> r | None \<Rightarrow> ''Sign-in did not complete. Check the code and try again.''), s1)))"

section \<open>Runs\<close>

datatype login_event =
    Started_login "string option" string string nat
  | Printed nat string
  | No_link nat
  | Child_failed nat string
  | Child_exited nat string
  | Cancelled nat
  | Code_done nat logged_in

fun login_do :: "login_event \<Rightarrow> logins \<Rightarrow> logins" where
  "login_do (Started_login bin cdir name i) s =
     (if map_of (lg_children s) i = None then snd (login_start bin cdir name i s) else s)"
| "login_do (Printed i chunk) s = login_output i chunk s"
| "login_do (No_link i) s = url_timeout i s"
| "login_do (Child_failed i e) s = child_error i e s"
| "login_do (Child_exited i code) s = child_exit i code s"
| "login_do (Cancelled i) s = cancel i s"
| "login_do (Code_done i p) s = snd (submit_end i p s)"

text \<open>
  What holds in every run: a start is settled exactly when it has its one answer, and what is
  pending was started and is not killed.
\<close>

definition logins_ok :: "logins \<Rightarrow> bool" where
  "logins_ok s =
     (distinct (map fst (lg_children s)) \<and> distinct (map fst (lg_answers s)) \<and> distinct (lg_pending s)
      \<and> fst ` set (lg_answers s) = {i. \<exists>c. map_of (lg_children s) i = Some c \<and> lc_settled c}
      \<and> set (lg_pending s) \<subseteq> fst ` set (lg_children s) - set (lg_killed s)
      \<and> set (lg_killed s) \<subseteq> fst ` set (lg_children s)
      \<and> distinct (lg_killed s))"

lemma logins_new_ok [simp]: "logins_ok logins_new"
  by (simp add: logins_ok_def logins_new_def)

lemma cancel_ok: "logins_ok s \<Longrightarrow> logins_ok (cancel i s)"
  by (auto simp: logins_ok_def cancel_def)

lemma cancel_same [simp]: "lg_children (cancel i s) = lg_children s" "lg_answers (cancel i s) = lg_answers s"
  by (simp_all add: cancel_def)

lemma put_child_ok:
  assumes "logins_ok s" and "map_of (lg_children s) i = Some c" and "lc_settled c' = lc_settled c"
  shows "logins_ok (put_child i c' s)"
  using assms
  by (auto simp: logins_ok_def put_child_def distinct_update update_conv' dom_update split: if_splits
      simp del: map_of_eq_Some_iff)

lemma answer_ok:
  assumes "logins_ok s" and "map_of (lg_children s) i = Some c" and "\<not> lc_settled c"
  shows "logins_ok (answer i c a s)"
proof -
  have "i \<notin> fst ` set (lg_answers s)" using assms by (auto simp: logins_ok_def simp del: map_of_eq_Some_iff)
  then show ?thesis using assms
    by (auto simp: logins_ok_def answer_def put_child_def distinct_update update_conv' dom_update split: if_splits
        simp del: map_of_eq_Some_iff)
qed

lemma drop_pending_ok: "logins_ok s \<Longrightarrow> logins_ok (s \<lparr>lg_pending := filter P (lg_pending s)\<rparr>)"
  by (auto simp: logins_ok_def)

lemma give_up_ok:
  assumes "logins_ok s" and "logins_ok (f s)" and "lg_children (f s) = lg_children s"
  shows "logins_ok (give_up_start f m i s)"
  using assms answer_ok [of "f s" i] by (auto simp: give_up_start_def split: option.split)

lemma login_start_ok:
  assumes "logins_ok s" and "map_of (lg_children s) i = None"
  shows "logins_ok (snd (login_start bin cdir name i s))"
  using assms
  by (auto simp: logins_ok_def login_start_def map_of_eq_None_iff map_add_Some_iff simp del: map_of_eq_Some_iff)

lemma login_do_ok: "logins_ok s \<Longrightarrow> logins_ok (login_do e s)"
proof (cases e)
  case (Printed i chunk)
  assume ok: "logins_ok s"
  show ?thesis
  proof (cases "map_of (lg_children s) i")
    case None
    then show ?thesis using ok Printed by (simp add: login_output_def)
  next
    case (Some c)
    let ?c = "c \<lparr>lc_output := lc_output c @ utf8_decode chunk\<rparr>"
    have p: "logins_ok (put_child i ?c s)" using put_child_ok [OF ok Some, of ?c] by simp
    have "logins_ok (answer i ?c a s)" if n: "\<not> lc_settled c" for a
    proof -
      have "map_of (lg_children (put_child i ?c s)) i = Some ?c" by (simp add: put_child_def update_conv')
      from answer_ok [OF p this, of a] n have "logins_ok (answer i ?c a (put_child i ?c s))" by simp
      moreover have "answer i ?c a (put_child i ?c s) = answer i ?c a s"
        by (simp add: answer_def put_child_def)
      ultimately show ?thesis by simp
    qed
    with p show ?thesis using Some Printed by (auto simp: login_output_def Let_def split: option.split)
  qed
qed (auto simp: url_timeout_def child_error_def child_exit_def submit_end_def Let_def cancel_ok drop_pending_ok
      login_start_ok
    intro!: give_up_ok split: option.split logged_in.split)

text \<open>A link that was answered is the one found in what the child had printed by then.\<close>

definition printed_link :: "login_child \<Rightarrow> string \<Rightarrow> bool" where
  "printed_link c url = (\<exists>n. extractAuthUrl (take n (lc_output c)) = Some url)"

lemma printed_settled [simp]: "printed_link (c \<lparr>lc_settled := b\<rparr>) url = printed_link c url"
  by (simp add: printed_link_def)

lemma printed_now: "extractAuthUrl (lc_output c) = Some url \<Longrightarrow> printed_link c url"
  unfolding printed_link_def by (intro exI [of _ "length (lc_output c)"]) simp

lemma printed_more: "printed_link c url \<Longrightarrow> lc_output c' = lc_output c @ w \<Longrightarrow> printed_link c' url"
proof -
  assume "printed_link c url" and o: "lc_output c' = lc_output c @ w"
  then obtain n where "extractAuthUrl (take n (lc_output c)) = Some url" by (auto simp: printed_link_def)
  moreover have "take (min n (length (lc_output c))) (lc_output c') = take n (lc_output c)"
    using o by (simp add: min_def)
  ultimately show "printed_link c' url" unfolding printed_link_def by metis
qed

definition has_link :: "(nat \<times> login_child) list \<Rightarrow> nat \<Rightarrow> string \<Rightarrow> bool" where
  "has_link cs i url = (case map_of cs i of None \<Rightarrow> False | Some c \<Rightarrow> printed_link c url)"

definition links_ok :: "logins \<Rightarrow> bool" where
  "links_ok s = (\<forall>i url. (i, Inr url) \<in> set (lg_answers s) \<longrightarrow> has_link (lg_children s) i url)"

lemma has_link_update: "has_link (AList.update i c cs) j url = (if j = i then printed_link c url else has_link cs j url)"
  by (simp add: has_link_def update_conv')

lemma has_link_append: "has_link cs i url \<Longrightarrow> has_link (cs @ ds) i url"
  by (auto simp: has_link_def map_add_def split: option.splits)

lemma links_put:
  assumes "links_ok s" and "map_of (lg_children s) i = Some c" and "lc_output c' = lc_output c @ w"
  shows "links_ok (put_child i c' s)"
proof -
  have "has_link (lg_children s) i url \<Longrightarrow> printed_link c' url" for url
    using printed_more [OF _ assms(3)] assms(2) by (simp add: has_link_def)
  then show ?thesis using assms(1) by (simp add: links_ok_def put_child_def has_link_update)
qed

lemma links_answer:
  assumes "links_ok (put_child i c s)" and "\<And>url. a = Inr url \<Longrightarrow> extractAuthUrl (lc_output c) = Some url"
  shows "links_ok (answer i c a s)"
  using assms printed_now [of c] by (auto simp: links_ok_def answer_def put_child_def has_link_update)

lemma give_up_links:
  assumes "links_ok s" and "lg_children (f s) = lg_children s" and "lg_answers (f s) = lg_answers s"
  shows "links_ok (give_up_start f m i s)"
proof (cases "map_of (lg_children s) i")
  case (Some c)
  have "links_ok (f s)" using assms by (simp add: links_ok_def)
  then have "links_ok (put_child i c (f s))" using links_put [of "f s" i c c "[]"] Some assms(2) by simp
  then show ?thesis using Some assms(1) links_answer [of i c "f s" "Inl m"] by (simp add: give_up_start_def)
qed (use assms in \<open>simp add: give_up_start_def\<close>)

lemma login_do_links: "links_ok s \<Longrightarrow> links_ok (login_do e s)"
proof (cases e)
  case (Started_login bin cdir name i)
  assume "links_ok s"
  then show ?thesis using Started_login
    by (auto simp: links_ok_def login_start_def intro: has_link_append)
next
  case (Printed i chunk)
  assume ok: "links_ok s"
  show ?thesis
  proof (cases "map_of (lg_children s) i")
    case (Some c)
    let ?c = "c \<lparr>lc_output := lc_output c @ utf8_decode chunk\<rparr>"
    have p: "links_ok (put_child i ?c s)" using links_put [OF ok Some, of ?c] by simp
    then show ?thesis using Some Printed links_answer [OF p]
      by (auto simp: login_output_def Let_def split: option.split)
  qed (use ok Printed in \<open>simp add: login_output_def\<close>)
next
  case (Cancelled i)
  assume "links_ok s"
  then show ?thesis using Cancelled by (simp add: links_ok_def)
next
  case (Code_done i p)
  assume "links_ok s"
  then show ?thesis using Code_done
    by (auto simp: links_ok_def submit_end_def Let_def split: option.split logged_in.split)
qed (auto simp: url_timeout_def child_error_def child_exit_def intro!: give_up_links)

definition login_run :: "login_event list \<Rightarrow> logins" where
  "login_run es = fold login_do es logins_new"

lemma login_run_ok: "logins_ok (login_run es) \<and> links_ok (login_run es)"
proof -
  have "logins_ok s \<and> links_ok s \<Longrightarrow> logins_ok (fold login_do es s) \<and> links_ok (fold login_do es s)" for s
    by (induction es arbitrary: s) (simp_all add: login_do_ok login_do_links)
  moreover have "links_ok logins_new" by (simp add: links_ok_def logins_new_def)
  ultimately show ?thesis by (simp add: login_run_def)
qed

end
