(* ===== verification/Markdown.thy ===== *)
theory Markdown
  imports LogStore "HOL-Library.Sublist"
begin

text \<open>
  Splitting a message that is still arriving (\<open>streamingMarkdown.js\<close>): the part whose markdown is
  settled and the rest. The lemmas: nothing is lost, and what was settled stays so however the
  message goes on, so a finished block is never drawn again.
\<close>

section \<open>Fences\<close>

text \<open>\<open>/^(\s{0,3})(`{3,}|~{3,})/\<close>: the marker's character and length, and the rest of the line.\<close>

definition fence_at :: "string \<Rightarrow> (char \<times> nat \<times> string) option" where
  "fence_at s =
     (case s of
        [] \<Rightarrow> None
      | c # cs \<Rightarrow>
          (let n = length (takeWhile (\<lambda>d. d = c) s) in
           if (c = CHR 0x60 \<or> c = CHR ''~'') \<and> 3 \<le> n then Some (c, n, drop n s) else None))"

definition fence_line :: "string \<Rightarrow> (char \<times> nat \<times> string) option" where
  "fence_line line =
     (let sp = length (takeWhile is_space line) in if 3 < sp then None else fence_at (drop sp line))"

text \<open>The open fence after a line that starts at \<open>pos\<close>: where it starts, its character and length.\<close>

type_synonym fence = "(nat \<times> char \<times> nat) option"

definition fence_step :: "nat \<Rightarrow> string \<Rightarrow> fence \<Rightarrow> fence" where
  "fence_step pos line f =
     (case fence_line line of
        None \<Rightarrow> f
      | Some (c, n, r) \<Rightarrow>
          (case f of
             None \<Rightarrow> Some (pos, c, n)
           | Some (st, c0, n0) \<Rightarrow> if c = c0 \<and> n0 \<le> n \<and> trim r = [] then None else f))"

text \<open>The loop over the lines, the last of which has no newline after it.\<close>

fun fence_lines :: "nat \<Rightarrow> string list \<Rightarrow> fence \<Rightarrow> fence" where
  "fence_lines pos [] f = f"
| "fence_lines pos (l # ls) f = fence_lines (pos + length l + 1) ls (fence_step pos l f)"

definition openFenceStart :: "string \<Rightarrow> nat option" where
  "openFenceStart text = map_option fst (fence_lines 0 (split_char newline text) None)"

section \<open>The split\<close>

text \<open>\<open>lastIndexOf\<close> of two newlines.\<close>

fun last_blank :: "string \<Rightarrow> nat option" where
  "last_blank (a # b # s) =
     (case last_blank (b # s) of
        Some i \<Rightarrow> Some (Suc i)
      | None \<Rightarrow> if a = newline \<and> b = newline then Some 0 else None)"
| "last_blank s = None"

definition splitStreamingMarkdown :: "string \<Rightarrow> string \<times> string" where
  "splitStreamingMarkdown src =
     (case last_blank src of
        None \<Rightarrow> ([], src)
      | Some idx \<Rightarrow>
          (let boundary = (case openFenceStart (take (idx + 2) src) of Some s \<Rightarrow> s | None \<Rightarrow> idx + 2) in
           if boundary = 0 then ([], src) else (take boundary src, drop boundary src)))"

section \<open>Nothing is lost, and what is settled stays\<close>

lemma split_whole: "fst (splitStreamingMarkdown s) @ snd (splitStreamingMarkdown s) = s"
  by (simp add: splitStreamingMarkdown_def Let_def split: option.split)

lemma fence_step_start:
  "fence_step pos l f = Some (st, c, n) \<Longrightarrow> st = pos \<or> (\<exists>c n. f = Some (st, c, n))"
  by (auto simp: fence_step_def split: option.splits if_splits prod.splits)

lemma fence_lines_start:
  "fence_lines pos ls f = Some (st, c, n) \<Longrightarrow> pos \<le> st \<or> (\<exists>c n. f = Some (st, c, n))"
proof (induction pos ls f rule: fence_lines.induct)
  case (2 pos l ls f)
  then show ?case using fence_step_start by fastforce
qed simp

lemma fence_lines_below:
  "fence_lines pos ls f = Some x \<Longrightarrow> \<forall>y. f = Some y \<longrightarrow> fst y < pos \<Longrightarrow>
   fst x < pos + length (concat ls) + length ls"
proof (induction pos ls f rule: fence_lines.induct)
  case (2 pos l ls f)
  have "\<forall>y. fence_step pos l f = Some y \<longrightarrow> fst y < pos + length l + 1"
    using fence_step_start [of pos l f] 2(3) by fastforce
  from "2.IH" [OF _ this] 2(2) show ?case by simp
qed simp

lemma fence_lines_append:
  "fence_lines pos (ls @ ms) f = fence_lines (pos + length (concat ls) + length ls) ms (fence_lines pos ls f)"
  by (induction pos ls f rule: fence_lines.induct) (simp_all add: add.assoc)

lemma split_at_newline: "split_char newline (P @ newline # Q) = split_char newline P @ split_char newline Q"
  by (induction P) (auto split: list.split)

lemma length_split: "length (concat (split_char c s)) + length (split_char c s) = length s + 1"
  by (induction s) (auto split: list.split)

lemma fence_line_Nil [simp]: "fence_line [] = None"
  by (simp add: fence_line_def fence_at_def)

lemma fence_step_Nil [simp]: "fence_step pos [] f = f"
  by (simp add: fence_step_def)

text \<open>The fence state after a text that ends a line carries over to any continuation.\<close>

lemma fence_continues:
  "fence_lines 0 (split_char newline (P @ newline # Q)) None
   = fence_lines (length P + 1) (split_char newline Q) (fence_lines 0 (split_char newline (P @ [newline])) None)"
proof -
  have "fence_lines 0 (split_char newline (P @ newline # Q)) None
      = fence_lines (length P + 1) (split_char newline Q) (fence_lines 0 (split_char newline P) None)"
    using length_split [of newline P] by (simp add: split_at_newline fence_lines_append)
  moreover have "fence_lines 0 (split_char newline (P @ [newline])) None = fence_lines 0 (split_char newline P) None"
    by (simp add: split_at_newline fence_lines_append)
  ultimately show ?thesis by simp
qed

lemma last_blank_spec: "last_blank s = Some i \<Longrightarrow> \<exists>p q. s = p @ newline # newline # q \<and> length p = i"
proof (induction s arbitrary: i rule: last_blank.induct)
  case (1 a b s)
  show ?case
  proof (cases "last_blank (b # s)")
    case None
    then show ?thesis using 1(2) by (intro exI [of _ "[]"] exI [of _ s]) (auto split: if_splits)
  next
    case (Some k)
    then obtain p q where "b # s = p @ newline # newline # q" "length p = k" using 1(1) by blast
    moreover have "i = Suc k" using 1(2) Some by simp
    ultimately show ?thesis by (intro exI [of _ "a # p"] exI [of _ q]) simp
  qed
qed auto

lemma last_blank_more: "last_blank s = Some i \<Longrightarrow> \<exists>j. last_blank (s @ m) = Some j \<and> i \<le> j"
proof (induction s arbitrary: i rule: last_blank.induct)
  case (1 a b s)
  then show ?case
  proof (cases "last_blank (b # s)")
    case (Some k)
    then obtain j where "last_blank ((b # s) @ m) = Some j" "k \<le> j" using 1(1) by blast
    then show ?thesis using Some 1(2) by auto
  next
    case None
    then show ?thesis using 1(2) by (auto split: if_splits option.split)
  qed
qed auto

lemma blank_below:
  assumes "fence_lines 0 (split_char newline (p @ [newline, newline])) None = Some x"
  shows "fst x < length p + 2"
proof -
  have "split_char newline (p @ [newline, newline]) = split_char newline (p @ [newline]) @ [[]]"
    using split_at_newline [of "p @ [newline]" "[]"] by simp
  then have "fence_lines 0 (split_char newline (p @ [newline])) None = Some x"
    using assms by (simp add: fence_lines_append)
  from fence_lines_below [OF this] show ?thesis using length_split [of newline "p @ [newline]"] by simp
qed

text \<open>Where the split is.\<close>

definition boundary :: "string \<Rightarrow> nat" where
  "boundary s = length (fst (splitStreamingMarkdown s))"

lemma boundary_at:
  assumes "last_blank s = Some i" and "fence_lines 0 (split_char newline (take (i + 2) s)) None = f"
    and "\<And>x. f = Some x \<Longrightarrow> fst x < i + 2" and "i + 2 \<le> length s"
  shows "boundary s = (case f of None \<Rightarrow> i + 2 | Some x \<Rightarrow> fst x)"
proof -
  have o: "openFenceStart (take (i + 2) s) = map_option fst f" using assms(2) by (simp add: openFenceStart_def)
  show ?thesis using assms(3,4)
    by (cases f) (auto simp: boundary_def splitStreamingMarkdown_def assms(1) o Let_def simp del: add_2_eq_Suc')
qed

lemma settled_stays: "prefix (fst (splitStreamingMarkdown s)) (fst (splitStreamingMarkdown (s @ m)))"
proof (cases "last_blank s")
  case None
  then show ?thesis by (simp add: splitStreamingMarkdown_def)
next
  case (Some i)
  obtain p q where s: "s = p @ newline # newline # q" "length p = i" using last_blank_spec [OF Some] by blast
  obtain j where j: "last_blank (s @ m) = Some j" "i \<le> j" using last_blank_more [OF Some] by blast
  obtain p' q' where s': "s @ m = p' @ newline # newline # q'" "length p' = j" using last_blank_spec [OF j(1)] by blast
  let ?P = "take (i + 2) s" and ?P' = "take (j + 2) (s @ m)"
  have P: "?P = (p @ [newline]) @ [newline]" using s by simp
  have len: "length ?P = i + 2" "length ?P' = j + 2" using s s' by (simp_all add: s'(1) s(1))
  have "i + 2 \<le> length s" using s by simp
  then have "take (i + 2) ?P' = ?P" using j(2) by simp
  then have "?P' = ?P @ drop (i + 2) ?P'" by (metis append_take_drop_id)
  moreover have "?P = (p @ [newline]) @ [newline]" using s by simp
  ultimately obtain Q where Q: "?P' = (p @ [newline]) @ newline # Q" by simp
  define F where "F = fence_lines 0 (split_char newline ?P) None"
  have F': "fence_lines 0 (split_char newline ?P') None = fence_lines (i + 2) (split_char newline Q) F"
    unfolding Q F_def P using fence_continues [of "p @ [newline]" Q] s(2) by simp
  have below: "fst x < i + 2" if "F = Some x" for x
    using blank_below [of p x] that P s(2) by (simp add: F_def)
  have "?P' = p' @ [newline, newline]" using s' by simp
  then have below': "fst x < j + 2" if "fence_lines (i + 2) (split_char newline Q) F = Some x" for x
    using blank_below [of p' x] that s'(2) F' by simp
  have b: "boundary s = (case F of None \<Rightarrow> i + 2 | Some x \<Rightarrow> fst x)"
    by (rule boundary_at [OF Some _ below]) (use s in \<open>simp_all add: F_def\<close>)
  have b': "boundary (s @ m) = (case fence_lines (i + 2) (split_char newline Q) F of None \<Rightarrow> j + 2 | Some x \<Rightarrow> fst x)"
    by (rule boundary_at [OF j(1) F' below']) (use s' in simp_all)
  have le: "boundary s \<le> boundary (s @ m)"
  proof (cases "fence_lines (i + 2) (split_char newline Q) F")
    case None
    then show ?thesis unfolding b b' using j(2) below by (auto split: option.split dest: less_imp_le order_less_le_trans)
  next
    case (Some x)
    obtain st c n where x: "x = (st, c, n)" by (cases x)
    from fence_lines_start [OF Some [unfolded x]] show ?thesis
      unfolding b b' using Some x below by (auto split: option.split dest: less_imp_le)
  qed
  have e1: "fst (splitStreamingMarkdown s) = take (boundary s) s" for s
    using split_whole [of s] unfolding boundary_def by (metis append_eq_conv_conj)
  have "boundary s \<le> length s" using arg_cong [OF split_whole [of s], of length] by (simp add: boundary_def)
  then have "take (boundary s) s = take (boundary s) (s @ m)" by simp
  also have "\<dots> = take (boundary s) (take (boundary (s @ m)) (s @ m))"
    using le by (simp only: take_take min.absorb1)
  finally show ?thesis unfolding e1 [of s] e1 [of "s @ m"] by (metis take_is_prefix)
qed

end
