(* ===== verification/ServerStats.thy ===== *)
theory ServerStats
  imports Processes
begin

text \<open>
  What the server is doing (\<open>serverStats.ts\<close>): the readings of \<open>/proc\<close>, and the sampler that keeps the
  last one to tell rates. A field that does not read as a finite number is \<^term>\<open>None\<close>. The lemmas:
  percentages and rates stay in range, and what a run of samples reports adds up to what the counters
  moved.
\<close>

section \<open>Readings\<close>

definition fields_of :: "string \<Rightarrow> string list" where
  "fields_of s = split_runs is_space (trim s)"

text \<open>\<open>/^\s*([^:\s]+):\s*(.*)$/\<close>: the name and the rest.\<close>

definition dev_line :: "string \<Rightarrow> (string \<times> string) option" where
  "dev_line line =
     (let s = dropWhile is_space line;
          name = takeWhile (\<lambda>c. c \<noteq> CHR '':'' \<and> \<not> is_space c) s;
          r = drop (length name) s
      in if name = [] \<or> r = [] \<or> hd r \<noteq> CHR '':'' then None else Some (name, drop 1 r))"

definition inner_device :: "string \<Rightarrow> bool" where
  "inner_device name =
     (name = ''lo''
      \<or> list_ex (starts_with name) [''docker'', ''br-'', ''veth'', ''virbr'', ''cni'', ''flannel'', ''kube''])"

definition dev_counts :: "string \<Rightarrow> (num \<times> num) option" where
  "dev_counts line =
     (case dev_line line of
        None \<Rightarrow> None
      | Some (name, r) \<Rightarrow>
          (let fields = map number_of (fields_of r) in
           if inner_device name \<or> length fields < 9 \<or> None \<in> set fields then None
           else Some (the (fields ! 0), the (fields ! 8))))"

definition parseNetDev :: "string \<Rightarrow> (num \<times> num) option" where
  "parseNetDev text =
     (let cs = List.map_filter dev_counts (drop 2 (split_char newline text)) in
      if cs = [] then None else Some (sum_list (map fst cs), sum_list (map snd cs)))"

record cpu_times =
  ct_busy :: num
  ct_total :: num

text \<open>A field the kernel does not write counts 0.\<close>

definition field_at :: "num option list \<Rightarrow> nat \<Rightarrow> num" where
  "field_at fs i = (if i < length fs then the (fs ! i) else 0)"

definition cpu_line :: "string \<Rightarrow> bool" where
  "cpu_line l = (starts_with l ''cpu'' \<and> (case drop 3 l of [] \<Rightarrow> False | c # cs \<Rightarrow> is_space c))"

definition parseCpuTimes :: "string \<Rightarrow> cpu_times option" where
  "parseCpuTimes text =
     (case List.find cpu_line (split_char newline text) of
        None \<Rightarrow> None
      | Some line \<Rightarrow>
          (let fs = map number_of (drop 1 (fields_of line)); idle = field_at fs 3 + field_at fs 4;
               busy = field_at fs 0 + field_at fs 1 + field_at fs 2 + field_at fs 5 + field_at fs 6 + field_at fs 7
           in if length fs < 4 \<or> None \<in> set fs then None else Some \<lparr>ct_busy = busy, ct_total = busy + idle\<rparr>))"

definition cpuPercentBetween :: "cpu_times \<Rightarrow> cpu_times \<Rightarrow> num option" where
  "cpuPercentBetween b a =
     (let t = ct_total a - ct_total b in
      if t \<le> 0 then None else Some (max 0 (min 100 ((ct_busy a - ct_busy b) / t * 100))))"

record mem_info =
  mi_total :: nat
  mi_available :: nat
  mi_swapTotal :: nat
  mi_swapFree :: nat

definition kb_or_zero :: "string \<Rightarrow> string \<Rightarrow> nat" where
  "kb_or_zero key text = (case kb_of key text of Some n \<Rightarrow> n | None \<Rightarrow> 0)"

definition parseMeminfo :: "string \<Rightarrow> mem_info option" where
  "parseMeminfo text =
     map_option (\<lambda>t. \<lparr>mi_total = t,
         mi_available = (case kb_of ''MemAvailable'' text of
                           Some n \<Rightarrow> n
                         | None \<Rightarrow> kb_or_zero ''MemFree'' text + kb_or_zero ''Buffers'' text + kb_or_zero ''Cached'' text),
         mi_swapTotal = kb_or_zero ''SwapTotal'' text, mi_swapFree = kb_or_zero ''SwapFree'' text\<rparr>)
       (kb_of ''MemTotal'' text)"

text \<open>The averages, and the number after the slash of the fourth field.\<close>

definition parseLoadavg :: "string \<Rightarrow> (num list \<times> num option) option" where
  "parseLoadavg text =
     (let parts = fields_of text; loads = map number_of (take 3 parts);
          running = split_char (CHR ''/'') (if 3 < length parts then parts ! 3 else [])
      in if length loads \<noteq> 3 \<or> None \<in> set loads then None
         else Some (map the loads, if length running < 2 then None else number_of (running ! 1)))"

section \<open>The sampler\<close>

record stats_source =
  ss_stat :: "string option"
  ss_meminfo :: "string option"
  ss_loadavg :: "string option"
  ss_netdev :: "string option"
  ss_cores :: nat
  ss_uptime :: num
  ss_disk :: "(nat \<times> nat) option"
  ss_now :: time_ms

record stats_sampler =
  sp_last :: "cpu_times option"
  sp_net :: "(num \<times> num \<times> time_ms) option"

record server_stats =
  sv_cpu :: "num option"
  sv_cores :: nat
  sv_load :: "num list"
  sv_memory :: "nat \<times> nat"
  sv_swap :: "nat \<times> nat"
  sv_disk :: "(nat \<times> nat) option"
  sv_uptime :: num
  sv_processes :: "num option"
  sv_network :: "(num \<times> num) option"
  sv_at :: time_ms

definition net_rate :: "num \<times> num \<Rightarrow> (num \<times> num \<times> time_ms) option \<Rightarrow> time_ms \<Rightarrow> (num \<times> num) option" where
  "net_rate c old now =
     (case old of
        None \<Rightarrow> None
      | Some (rx, tx, t) \<Rightarrow>
          if now \<le> t then None
          else let seconds = (now - t) / 1000 in
            Some (max 0 ((fst c - rx) / seconds), max 0 ((snd c - tx) / seconds)))"

definition sample_stats :: "stats_source \<Rightarrow> stats_sampler \<Rightarrow> server_stats \<times> stats_sampler" where
  "sample_stats src s =
     (let cpu = Option.bind (ss_stat src) parseCpuTimes;
          mem = Option.bind (ss_meminfo src) parseMeminfo;
          loads = Option.bind (ss_loadavg src) parseLoadavg;
          net = Option.bind (ss_netdev src) parseNetDev;
          now = ss_now src
      in (\<lparr>sv_cpu = (case (cpu, sp_last s) of (Some a, Some b) \<Rightarrow> cpuPercentBetween b a | _ \<Rightarrow> None),
           sv_cores = ss_cores src,
           sv_load = (case loads of Some (l, p) \<Rightarrow> l | None \<Rightarrow> [0, 0, 0]),
           sv_memory = (case mem of Some m \<Rightarrow> (mi_total m, mi_available m) | None \<Rightarrow> (0, 0)),
           sv_swap = (case mem of Some m \<Rightarrow> (mi_swapTotal m, mi_swapFree m) | None \<Rightarrow> (0, 0)),
           sv_disk = ss_disk src, sv_uptime = ss_uptime src,
           sv_processes = (case loads of Some (l, p) \<Rightarrow> p | None \<Rightarrow> None),
           sv_network = (case net of Some c \<Rightarrow> net_rate c (sp_net s) now | None \<Rightarrow> None),
           sv_at = now\<rparr>,
          \<lparr>sp_last = (case cpu of Some c \<Rightarrow> Some c | None \<Rightarrow> sp_last s),
           sp_net = (case net of Some (rx, tx) \<Rightarrow> Some (rx, tx, now) | None \<Rightarrow> sp_net s)\<rparr>))"

section \<open>Ranges\<close>

lemma cpu_percent_range: "cpuPercentBetween b a = Some p \<Longrightarrow> 0 \<le> p \<and> p \<le> 100"
  by (auto simp: cpuPercentBetween_def Let_def split: if_splits)

text \<open>Counters that only grow, and not faster than time, give their exact share.\<close>

lemma cpu_percent_exact:
  assumes "ct_busy b \<le> ct_busy a" and "ct_busy a - ct_busy b \<le> ct_total a - ct_total b" and "ct_total b < ct_total a"
  shows "cpuPercentBetween b a = Some ((ct_busy a - ct_busy b) / (ct_total a - ct_total b) * 100)"
  using assms by (simp add: cpuPercentBetween_def Let_def min_def max_def field_simps)

lemma stats_in_range:
  assumes "sample_stats src s = (r, s')"
  shows "(\<forall>p. sv_cpu r = Some p \<longrightarrow> 0 \<le> p \<and> p \<le> 100) \<and> (\<forall>a b. sv_network r = Some (a, b) \<longrightarrow> 0 \<le> a \<and> 0 \<le> b)"
  using assms cpu_percent_range
  by (auto simp: sample_stats_def Let_def net_rate_def split: option.splits if_splits prod.splits)

text \<open>What the samples of a run say was received, and what the counter moved.\<close>

fun received :: "(num \<times> num \<times> time_ms) \<Rightarrow> (num \<times> num \<times> time_ms) list \<Rightarrow> num" where
  "received l [] = 0"
| "received (rx, tx, t) ((rx', tx', t') # rest) =
     (case net_rate (rx', tx') (Some (rx, tx, t)) t' of Some (a, b) \<Rightarrow> a * ((t' - t) / 1000) | None \<Rightarrow> 0)
     + received (rx', tx', t') rest"

fun growing :: "(num \<times> num \<times> time_ms) \<Rightarrow> (num \<times> num \<times> time_ms) list \<Rightarrow> bool" where
  "growing l [] = True"
| "growing (rx, tx, t) ((rx', tx', t') # rest) = (rx \<le> rx' \<and> t < t' \<and> growing (rx', tx', t') rest)"

lemma received_total: "growing l ls \<Longrightarrow> received l ls = fst (last (l # ls)) - fst l"
proof (induction l ls rule: growing.induct)
  case (2 rx tx t rx' tx' t' rest)
  then have "received (rx', tx', t') rest = fst (last ((rx', tx', t') # rest)) - rx'" by simp
  moreover have "max 0 ((rx' - rx) / ((t' - t) / 1000)) * ((t' - t) / 1000) = rx' - rx"
    using 2(2) by (simp add: max_def field_simps)
  ultimately show ?case using 2(2) by (simp add: net_rate_def Let_def del: times_divide_eq_right times_divide_eq_left)
qed simp

end
