(* ===== verification/ChatThread.thy ===== *)
theory ChatThread
  imports Markdown SessionSdk Json_Pretty "HOL-Library.Multiset"
begin

text \<open>
  The conversation a panel draws (\<open>media/chat.js\<close>): the blocks of the thread, the previews of text that
  is still arriving, the row that says a turn is running, the tool cards a result is added to, and
  what Claude waits for. The document is the list of the thread's blocks under the identities the
  script keeps: a block of an event, a preview, and the three rows there is one of. Turning text into
  elements is left out. The lemmas: the
  identities the script keeps are those of blocks in the thread, however the messages come; what is
  drawn from events depends on the events alone; and drawing a preview in parts gives what drawing it
  whole would.
\<close>

section \<open>Blocks\<close>

datatype block_id = Of_event nat | Of_preview nat | The_working | The_earlier | The_empty
type_synonym agent_mark = "(string \<times> nat) option"

record tool_desc =
  td_text :: string
  td_path :: "string option"

datatype body_row =
    Diff_row "string list"
  | New_row "string list"
  | In_row string
  | Out_row bool string

datatype todo_status = Todo_done | Todo_active | Todo_open

datatype result_bit = Clock_bit string | Seconds_bit string | Tokens_bit string

text \<open>
  A preview holds its text, whether it is still the one that grows, the length of the part drawn as
  markdown when there was one, and the two parts as drawn.
\<close>

datatype block =
    User_box string "attachment_ref list"
  | Assistant_block string agent_mark
  | Tool_card string tool_desc "body_row list" "string list" agent_mark
  | Result_card bool string
  | Todo_card "(todo_status \<times> string) list"
  | Ask_card string string "body_row list" jsval bool string
  | Notice_line string "string option option"
  | Meta_line "result_bit list"
  | Preview string bool "nat option" string string
  | Settled_text string
  | Working_row string
  | Empty_state
  | Load_earlier

record thread =
  th_blocks :: "(block_id \<times> block) list"
  th_next :: nat
  th_previews :: "nat list"
  th_fresh :: nat
  th_streaming :: "nat option"
  th_frame :: bool
  th_cards :: "(string \<times> nat) list"
  th_waiting :: "(string \<times> string \<times> nat) list"
  th_since :: "num option"
  th_tints :: "(string \<times> nat) list"
  th_first :: "num option"
  th_images :: nat
  th_ring :: "(num \<times> num) option"
  th_window :: num

definition thread_new :: thread where
  "thread_new =
     \<lparr>th_blocks = [], th_next = 0, th_previews = [], th_fresh = 0, th_streaming = None, th_frame = False,
      th_cards = [], th_waiting = [], th_since = None, th_tints = [], th_first = None, th_images = 0,
      th_ring = None, th_window = 1000000\<rparr>"

text \<open>
  What the drawing takes from outside: the time, the local clock of an instant (nothing where it is
  no date), and \<open>toFixed(1)\<close>.
\<close>

record view =
  vw_now :: num
  vw_clock :: "num \<Rightarrow> string"
  vw_fixed1 :: "num \<Rightarrow> string"

section \<open>The document\<close>

definition append_block :: "block \<Rightarrow> thread \<Rightarrow> thread" where
  "append_block b s = s \<lparr>th_blocks := th_blocks s @ [(Of_event (th_next s), b)], th_next := Suc (th_next s)\<rparr>"

definition set_block :: "block_id \<Rightarrow> block \<Rightarrow> thread \<Rightarrow> thread" where
  "set_block i b s = s \<lparr>th_blocks := map (\<lambda>(j, c). (j, if j = i then b else c)) (th_blocks s)\<rparr>"

definition drop_blocks :: "(block_id \<Rightarrow> bool) \<Rightarrow> thread \<Rightarrow> thread" where
  "drop_blocks p s = s \<lparr>th_blocks := filter (\<lambda>(i, b). \<not> p i) (th_blocks s)\<rparr>"

definition clearEmptyState :: "thread \<Rightarrow> thread" where
  "clearEmptyState = drop_blocks (\<lambda>i. i = The_empty)"

definition renderEmptyState :: "thread \<Rightarrow> thread" where
  "renderEmptyState s = (if th_blocks s = [] then s \<lparr>th_blocks := [(The_empty, Empty_state)]\<rparr> else s)"

section \<open>Previews\<close>

fun grown :: "string \<Rightarrow> block \<Rightarrow> block" where
  "grown t (Preview raw live drawn sd rd) = Preview (raw @ t) live drawn sd rd"
| "grown t b = b"

fun ended :: "block \<Rightarrow> block" where
  "ended (Preview raw live drawn sd rd) = Preview raw False drawn sd rd"
| "ended b = b"

fun raw_text :: "block \<Rightarrow> string" where
  "raw_text (Preview raw live drawn sd rd) = raw"
| "raw_text b = []"

text \<open>One preview on an animation frame: the settled part is drawn again only when its length changed.\<close>

fun painted :: "block \<Rightarrow> block" where
  "painted (Preview raw live drawn sd rd) =
     (case splitStreamingMarkdown raw of
        (st, rest) \<Rightarrow>
          if drawn = Some (length st) then Preview raw live drawn sd rest
          else Preview raw live (Some (length st)) st rest)"
| "painted b = b"

definition on_preview :: "nat \<Rightarrow> (block \<Rightarrow> block) \<Rightarrow> thread \<Rightarrow> thread" where
  "on_preview n f s = s \<lparr>th_blocks := map (\<lambda>(j, b). (j, if j = Of_preview n then f b else b)) (th_blocks s)\<rparr>"

text \<open>\<open>keepWorkingLast\<close>: appending a row that is in the thread moves it.\<close>

definition keepWorkingLast :: "thread \<Rightarrow> thread" where
  "keepWorkingLast s =
     s \<lparr>th_blocks := filter (\<lambda>(i, b). i \<noteq> The_working) (th_blocks s) @ filter (\<lambda>(i, b). i = The_working) (th_blocks s)\<rparr>"

definition renderPreviews :: "thread \<Rightarrow> thread" where
  "renderPreviews s = keepWorkingLast (fold (\<lambda>n. on_preview n painted) (th_previews s) (s \<lparr>th_frame := False\<rparr>))"

definition endStreaming :: "thread \<Rightarrow> thread" where
  "endStreaming s =
     (case th_streaming s of None \<Rightarrow> s | Some n \<Rightarrow> on_preview n ended (s \<lparr>th_streaming := None\<rparr>))"

definition dropPreviews :: "thread \<Rightarrow> thread" where
  "dropPreviews s =
     (drop_blocks (\<lambda>i. i \<in> Of_preview ` set (th_previews s)) (s \<lparr>th_frame := False\<rparr>))
       \<lparr>th_previews := [], th_streaming := None\<rparr>"

definition preview_raw :: "thread \<Rightarrow> nat \<Rightarrow> string" where
  "preview_raw s n = (case map_of (th_blocks s) (Of_preview n) of Some b \<Rightarrow> raw_text b | None \<Rightarrow> [])"

definition settle_one :: "nat \<Rightarrow> thread \<Rightarrow> thread" where
  "settle_one n s =
     (if trim (preview_raw s n) \<noteq> [] then set_block (Of_preview n) (Settled_text (preview_raw s n)) s
      else drop_blocks (\<lambda>i. i = Of_preview n) s)"

definition settlePreviews :: "thread \<Rightarrow> thread" where
  "settlePreviews s =
     (fold settle_one (th_previews s) (s \<lparr>th_frame := False\<rparr>)) \<lparr>th_previews := [], th_streaming := None\<rparr>"

section \<open>The running turn and the ring\<close>

text \<open>\<open>Number(startedAt) || Date.now()\<close>; a detail that is empty reads as none.\<close>

definition working_text :: "string option \<Rightarrow> string" where
  "working_text detail = (case detail of Some t \<Rightarrow> if t = [] then ''Working'' @ ellipsis else t | None \<Rightarrow> ''Working'' @ ellipsis)"

definition setRunning :: "view \<Rightarrow> bool \<Rightarrow> string option \<Rightarrow> num option \<Rightarrow> thread \<Rightarrow> thread" where
  "setRunning vw running detail startedAt s =
     (let s1 = drop_blocks (\<lambda>i. i = The_working) s in
      if running
      then s1 \<lparr>th_blocks := th_blocks s1 @ [(The_working, Working_row (working_text detail))],
             th_since := (case th_since s of
                                Some t \<Rightarrow> Some t
                              | None \<Rightarrow> (case startedAt of
                                          Some t \<Rightarrow> Some (if t = 0 then vw_now vw else t)
                                        | None \<Rightarrow> Some (vw_now vw)))\<rparr>
      else s1 \<lparr>th_since := None\<rparr>)"

definition updateRing :: "num option \<Rightarrow> num option \<Rightarrow> thread \<Rightarrow> thread" where
  "updateRing tokens window s =
     (let w = (case window of Some n \<Rightarrow> if 0 < n then n else th_window s | None \<Rightarrow> th_window s) in
      case tokens of
        None \<Rightarrow> s \<lparr>th_window := w\<rparr>
      | Some t \<Rightarrow> if t \<le> 0 then s \<lparr>th_window := w\<rparr> else s \<lparr>th_window := w, th_ring := Some (t, w)\<rparr>)"

section \<open>What a block says\<close>

text \<open>\<open>displayUserText\<close>: a text without newlines and with two literal \<open>\\n\<close> is read as dictated.\<close>

fun literal_breaks :: "string \<Rightarrow> nat" where
  "literal_breaks (a # b # t) =
     (if a = backslash \<and> b = CHR ''n'' then Suc (literal_breaks t) else literal_breaks (b # t))"
| "literal_breaks t = 0"

fun break_literals :: "string \<Rightarrow> string" where
  "break_literals (a # b # t) =
     (if a = backslash \<and> b = CHR ''n'' then newline # break_literals t else a # break_literals (b # t))"
| "break_literals t = t"

definition displayUserText :: "string \<Rightarrow> string" where
  "displayUserText t = (if newline \<notin> set t \<and> 2 \<le> literal_breaks t then break_literals t else t)"

text \<open>\<open>pretty\<close> with a limit; \<open>None\<close> where there is no text and reading its length throws.\<close>

definition pretty_text :: "jsval \<Rightarrow> nat \<Rightarrow> string option" where
  "pretty_text v limit =
     (case v of
        JUndef \<Rightarrow> None
      | _ \<Rightarrow>
          (let t = (case v of JStr s \<Rightarrow> s | _ \<Rightarrow> pretty 0 v) in
           Some (if limit < length t then take limit t @ [newline] @ ellipsis @ '' [truncated]'' else t)))"

text \<open>The first of these members that is a text; only the first two are paths.\<close>

definition toolDescription :: "jsval \<Rightarrow> tool_desc" where
  "toolDescription inp =
     (case (js_str (js_prop inp ''file_path''), js_str (js_prop inp ''path''), js_str (js_prop inp ''description''),
            js_str (js_prop inp ''command''), js_str (js_prop inp ''pattern''), js_str (js_prop inp ''url''),
            js_str (js_prop inp ''query''), js_str (js_prop inp ''prompt'')) of
        (Some t, _) \<Rightarrow> \<lparr>td_text = t, td_path = Some t\<rparr>
      | (None, Some t, _) \<Rightarrow> \<lparr>td_text = t, td_path = Some t\<rparr>
      | (None, None, Some t, _) \<Rightarrow> \<lparr>td_text = t, td_path = None\<rparr>
      | (None, None, None, Some t, _) \<Rightarrow> \<lparr>td_text = hd (split_char newline t), td_path = None\<rparr>
      | (None, None, None, None, Some t, _) \<Rightarrow> \<lparr>td_text = t, td_path = None\<rparr>
      | (None, None, None, None, None, Some t, _) \<Rightarrow> \<lparr>td_text = t, td_path = None\<rparr>
      | (None, None, None, None, None, None, Some t, _) \<Rightarrow> \<lparr>td_text = t, td_path = None\<rparr>
      | (None, None, None, None, None, None, None, Some t) \<Rightarrow> \<lparr>td_text = take 120 t, td_path = None\<rparr>
      | _ \<Rightarrow> \<lparr>td_text = [], td_path = None\<rparr>)"

definition prefixed :: "string \<Rightarrow> string \<Rightarrow> string list" where
  "prefixed p t = map (\<lambda>l. p @ l) (split_char newline t)"

definition text_or_empty :: "jsval \<Rightarrow> string" where
  "text_or_empty v = (if v = JUndef \<or> v = JNull then [] else js_string v)"

definition buildToolBody :: "string \<Rightarrow> jsval \<Rightarrow> body_row option" where
  "buildToolBody name inp =
     (case (name = ''Edit'', js_prop inp ''old_string'', name = ''Write'', js_prop inp ''content'', js_prop inp ''command'') of
        (True, JStr old, _) \<Rightarrow> Some (Diff_row (prefixed ''- '' old @ prefixed ''+ '' (text_or_empty (js_prop inp ''new_string''))))
      | (b, w, True, JStr content, _) \<Rightarrow> Some (New_row (prefixed ''+ '' content))
      | (b, w, d, e, JStr cmd) \<Rightarrow> Some (In_row cmd)
      | _ \<Rightarrow> map_option In_row (pretty_text inp 3000))"

text \<open>\<open>agentTint\<close>: a colour is handed out when a name is first seen.\<close>

definition AGENT_COLOURS :: nat where "AGENT_COLOURS = 8"

definition agentTint :: "string \<Rightarrow> thread \<Rightarrow> nat \<times> thread" where
  "agentTint name s =
     (case map_of (th_tints s) name of
        Some t \<Rightarrow> (t, s)
      | None \<Rightarrow> (length (th_tints s) mod AGENT_COLOURS,
                 s \<lparr>th_tints := th_tints s @ [(name, length (th_tints s) mod AGENT_COLOURS)]\<rparr>))"

definition mark_of :: "string option \<Rightarrow> thread \<Rightarrow> agent_mark \<times> thread" where
  "mark_of agent s =
     (case agent of
        None \<Rightarrow> (None, s)
      | Some a \<Rightarrow> if a = [] then (None, s) else (case agentTint a s of (t, s') \<Rightarrow> (Some (a, t), s')))"

section \<open>Events\<close>

text \<open>
  A drawing ends well or throws; what it did before stays done. \<open>todo_line\<close> is \<open>None\<close> for an entry
  that is \<open>null\<close>.
\<close>

definition todo_line :: "jsval \<Rightarrow> (todo_status \<times> string) option" where
  "todo_line v =
     (if v = JNull \<or> v = JUndef then None
      else let st = (if js_prop v ''status'' = JStr ''completed'' then Todo_done
                     else if js_prop v ''status'' = JStr ''in_progress'' then Todo_active else Todo_open)
           in Some (st, if st = Todo_active \<and> js_truthy (js_prop v ''activeForm'') then js_string (js_prop v ''activeForm'')
                        else text_or_empty (js_prop v ''content'')))"

definition todos_of :: "jsval \<Rightarrow> jsval list" where
  "todos_of inp = (case js_prop inp ''todos'' of JArr vs \<Rightarrow> vs | _ \<Rightarrow> [])"

definition renderTodoCard :: "jsval \<Rightarrow> thread \<Rightarrow> thread \<times> bool" where
  "renderTodoCard inp s =
     (let ls = map todo_line (todos_of inp) in
      if None \<in> set ls then (s, False) else (append_block (Todo_card (map the ls)) s, True))"

definition is_given_text :: "string option \<Rightarrow> bool" where
  "is_given_text t = (case t of None \<Rightarrow> False | Some x \<Rightarrow> x \<noteq> [])"

definition renderToolUse :: "string option \<Rightarrow> string \<Rightarrow> jsval \<Rightarrow> string option \<Rightarrow> thread \<Rightarrow> thread \<times> bool" where
  "renderToolUse tid name inp agent s0 =
     (let s = endStreaming s0 in
      if name = ''TodoWrite'' then renderTodoCard inp s
      else (case mark_of agent s of
              (m, s1) \<Rightarrow>
                (case buildToolBody name inp of
                   None \<Rightarrow> (s1, False)
                 | Some row \<Rightarrow>
                     (let s2 = append_block (Tool_card name (toolDescription inp) [row] [''dot'', ''spin''] m) s1 in
                      (if is_given_text tid then s2 \<lparr>th_cards := AList.update (the tid) (th_next s1) (th_cards s1)\<rparr> else s2,
                       True)))))"

text \<open>The rows and the dot of the card a result belongs to, or a card of its own.\<close>

definition class_add :: "string \<Rightarrow> string list \<Rightarrow> string list" where
  "class_add c cs = (if c \<in> set cs then cs else cs @ [c])"

fun with_result :: "bool \<Rightarrow> string \<Rightarrow> block \<Rightarrow> block" where
  "with_result err summ (Tool_card name d rows dot m) =
     Tool_card name d (rows @ [Out_row err summ]) (class_add (if err then ''err'' else ''ok'') (removeAll ''spin'' dot)) m"
| "with_result err summ b = b"

definition on_event_block :: "nat \<Rightarrow> (block \<Rightarrow> block) \<Rightarrow> thread \<Rightarrow> thread" where
  "on_event_block n f s = s \<lparr>th_blocks := map (\<lambda>(j, b). (j, if j = Of_event n then f b else b)) (th_blocks s)\<rparr>"

definition renderToolResult :: "string option \<Rightarrow> string \<Rightarrow> bool \<Rightarrow> thread \<Rightarrow> thread" where
  "renderToolResult tid summ err s =
     (case (if is_given_text tid then map_of (th_cards s) (the tid) else None) of
        Some n \<Rightarrow> on_event_block n (with_result err summ) s
      | None \<Rightarrow> append_block (Result_card err summ) s)"

definition pinWaiting :: "string \<Rightarrow> string \<Rightarrow> nat \<Rightarrow> thread \<Rightarrow> thread" where
  "pinWaiting rid label n s =
     (if rid = [] then s else s \<lparr>th_waiting := AList.update rid (label, n) (th_waiting s)\<rparr>)"

definition unpinWaiting :: "string \<Rightarrow> thread \<Rightarrow> thread" where
  "unpinWaiting rid s = s \<lparr>th_waiting := AList.delete rid (th_waiting s)\<rparr>"

text \<open>\<open>querySelector\<close>: the first card of the request.\<close>

fun asks :: "string \<Rightarrow> block \<Rightarrow> bool" where
  "asks rid (Ask_card r t rows qs done note) = (r = rid)"
| "asks rid b = False"

fun with_answer :: "string \<Rightarrow> block \<Rightarrow> block" where
  "with_answer note (Ask_card r t rows qs done old) = Ask_card r t rows qs True note"
| "with_answer note b = b"

fun answer_first :: "string \<Rightarrow> string \<Rightarrow> (block_id \<times> block) list \<Rightarrow> (block_id \<times> block) list" where
  "answer_first rid note [] = []"
| "answer_first rid note ((i, b) # bs) =
     (if asks rid b then (i, with_answer note b) # bs else (i, b) # answer_first rid note bs)"

definition middot :: string where "middot = [CHR 0xB7]"

definition resolved_note :: "bool \<Rightarrow> (string \<times> string) list option \<Rightarrow> string" where
  "resolved_note allowed answers =
     (case answers of
        Some as \<Rightarrow> join ('' '' @ middot @ '' '') (map snd as)
      | None \<Rightarrow> if allowed then ''Allowed'' else ''Denied'')"

definition PERM_NOTE :: string where
  "PERM_NOTE = ''Waiting for you '' @ [CHR 0x97] @ '' this survives reloads; answer whenever.''"

definition QUESTION_NOTE :: string where
  "QUESTION_NOTE = ''Claude is waiting for your answer '' @ [CHR 0x97] @ '' survives reloads.''"

text \<open>
  A question card is drawn from the questions one by one, which throws for what is no list, for an
  entry that is \<open>null\<close>, and for options that are no list or hold a \<open>null\<close>.
\<close>

definition missing :: "jsval \<Rightarrow> bool" where
  "missing v = (v = JNull \<or> v = JUndef)"

definition question_ok :: "jsval \<Rightarrow> bool" where
  "question_ok q =
     (\<not> missing q
      \<and> (case js_prop q ''options'' of
           JArr os \<Rightarrow> list_all (\<lambda>x. \<not> missing x) os
         | JStr t \<Rightarrow> True
         | v \<Rightarrow> \<not> js_truthy v))"

definition questions_ok :: "jsval \<Rightarrow> bool" where
  "questions_ok qs = (case qs of JArr vs \<Rightarrow> list_all question_ok vs | JStr t \<Rightarrow> True | _ \<Rightarrow> False)"

definition first_question :: "jsval \<Rightarrow> string" where
  "first_question qs =
     (case qs of
        JArr (q # rest) \<Rightarrow>
          if js_truthy q then text_or_empty (js_prop q ''question'') else ''Claude asked a question''
      | JStr (c # cs) \<Rightarrow> []
      | _ \<Rightarrow> ''Claude asked a question'')"

definition result_bits :: "view \<Rightarrow> num option \<Rightarrow> num option \<Rightarrow> num option \<Rightarrow> result_bit list" where
  "result_bits vw ts dur turn =
     (case ts of Some t \<Rightarrow> if vw_clock vw t = [] then [] else [Clock_bit (vw_clock vw t)] | None \<Rightarrow> [])
     @ (case dur of Some d \<Rightarrow> [Seconds_bit (vw_fixed1 vw (d / 1000) @ ''s'')] | None \<Rightarrow> [])
     @ (case turn of
          Some n \<Rightarrow> [Tokens_bit (if 1000 \<le> n then vw_fixed1 vw (n / 1000) @ ''k tokens'' else show_num n @ '' tokens'')]
        | None \<Rightarrow> [])"

fun ref_is_image :: "attachment_ref \<Rightarrow> bool" where
  "ref_is_image r = (ref_kind r = Ref_image)"

fun renderBody :: "view \<Rightarrow> num option \<Rightarrow> chat_event \<Rightarrow> thread \<Rightarrow> thread \<times> bool" where
  "renderBody vw ts (User_message t refs cid) s =
     (append_block (User_box (displayUserText t) refs)
        ((endStreaming s) \<lparr>th_images := th_images s + length (filter ref_is_image refs)\<rparr>), True)"
| "renderBody vw ts (Assistant_text t agent) s =
     (case mark_of agent (dropPreviews s) of (m, s1) \<Rightarrow> (append_block (Assistant_block t m) s1, True))"
| "renderBody vw ts (Tool_use tid name inp agent) s = renderToolUse tid name inp agent s"
| "renderBody vw ts (Tool_result tid summ err agent) s = (renderToolResult tid summ err s, True)"
| "renderBody vw ts (Permission_request rid name inp) s =
     (let s1 = endStreaming s; label = ''Allow '' @ name @ ''?'' in
      case buildToolBody name inp of
        None \<Rightarrow> (s1, False)
      | Some row \<Rightarrow>
          (pinWaiting rid label (th_next s1) (append_block (Ask_card rid label [row] JUndef False PERM_NOTE) s1), True))"
| "renderBody vw ts (Question_request rid qs) s =
     (let s1 = endStreaming s in
      if questions_ok qs
      then (pinWaiting rid (first_question qs) (th_next s1) (append_block (Ask_card rid [] [] qs False QUESTION_NOTE) s1), True)
      else (s1, False))"
| "renderBody vw ts (Permission_resolved rid allowed answers) s =
     ((unpinWaiting rid s) \<lparr>th_blocks := answer_first rid (resolved_note allowed answers) (th_blocks s)\<rparr>, True)"
| "renderBody vw ts (Status_event st detail act acct) s =
     (if st = Running then (setRunning vw True detail ts s, True)
      else let s1 = setRunning vw False None None (settlePreviews s) in
        (if st = Status_error
         then append_block (Notice_line (if is_given_text detail then the detail else ''error'')
                (if act = None then None else Some (case acct of Some (Some a) \<Rightarrow> if a = [] then None else Some a | _ \<Rightarrow> None))) s1
         else s1, True))"
| "renderBody vw ts (Result_event summ cost dur ctx win turn) s =
     (setRunning vw False None None
        (updateRing ctx win (append_block (Meta_line (result_bits vw ts dur turn)) (settlePreviews s))), True)"

text \<open>What follows a drawing that ended well.\<close>

definition renderEvent :: "view \<Rightarrow> num option \<Rightarrow> chat_event \<Rightarrow> thread \<Rightarrow> thread \<times> bool" where
  "renderEvent vw ts e s =
     (case renderBody vw ts e (clearEmptyState s) of
        (s1, ok) \<Rightarrow> (if ok then keepWorkingLast s1 else s1, ok))"

section \<open>Messages\<close>

definition showLoadEarlier :: "thread \<Rightarrow> thread" where
  "showLoadEarlier s =
     s \<lparr>th_blocks := (The_earlier, Load_earlier) # filter (\<lambda>(i, b). i \<noteq> The_earlier) (th_blocks s)\<rparr>"

text \<open>Nothing refers to the blocks that go, so their identities are used again.\<close>

definition resetThread :: "view \<Rightarrow> thread \<Rightarrow> thread" where
  "resetThread vw s =
     (setRunning vw False None None (dropPreviews (s \<lparr>th_waiting := []\<rparr>)))
       \<lparr>th_blocks := [], th_next := 0, th_fresh := 0, th_cards := [], th_first := None, th_tints := []\<rparr>"

type_synonym drawn_event = "num \<times> num option \<times> chat_event"

definition replay_events :: "view \<Rightarrow> drawn_event list \<Rightarrow> thread \<Rightarrow> thread" where
  "replay_events vw es s = fold (\<lambda>(q, ts, e) t. fst (renderEvent vw ts e t)) es s"

text \<open>\<open>info\<close> is whether the turn runs and the count of images, where the message has them.\<close>

definition on_replay ::
    "view \<Rightarrow> bool \<Rightarrow> bool \<Rightarrow> drawn_event list \<Rightarrow> (bool \<times> nat option) option \<Rightarrow> thread \<Rightarrow> thread" where
  "on_replay vw reset hasEarlier es info s =
     (let s1 = (if reset then resetThread vw s else s);
          s2 = (if hasEarlier then showLoadEarlier s1 else s1);
          s3 = replay_events vw es s2;
          s4 = (if es = [] then s3 else s3 \<lparr>th_first := Some (fst (hd es))\<rparr>);
          s5 = (case info of
                  None \<Rightarrow> s4
                | Some (running, images) \<Rightarrow>
                    (setRunning vw running None None s4)
                      \<lparr>th_images := (case images of Some n \<Rightarrow> n | None \<Rightarrow> th_images s4)\<rparr>)
      in if hasEarlier then s5 else renderEmptyState s5)"

definition on_delta :: "view \<Rightarrow> string \<Rightarrow> thread \<Rightarrow> thread" where
  "on_delta vw text s =
     (let s1 = (case th_streaming s of
                  Some n \<Rightarrow> s
                | None \<Rightarrow>
                    setRunning vw True None None
                      (s \<lparr>th_blocks := th_blocks s @ [(Of_preview (th_fresh s), Preview [] True None [] [])],
                         th_streaming := Some (th_fresh s), th_previews := th_previews s @ [th_fresh s],
                         th_fresh := Suc (th_fresh s)\<rparr>))
      in on_preview (the (th_streaming s1)) (grown text) (s1 \<lparr>th_frame := True\<rparr>))"

datatype thread_msg =
    Replay_in bool bool "drawn_event list" "(bool \<times> nat option) option"
  | Event_in "num option" chat_event
  | Delta_in string
  | Frame_due
  | Sent_here

text \<open>\<open>Sent_here\<close> is the composer's \<open>send\<close>, which shows the row at once.\<close>

fun thread_do :: "view \<Rightarrow> thread_msg \<Rightarrow> thread \<Rightarrow> thread" where
  "thread_do vw (Replay_in reset earlier es info) s = on_replay vw reset earlier es info s"
| "thread_do vw (Event_in ts e) s = fst (renderEvent vw ts e s)"
| "thread_do vw (Delta_in t) s = on_delta vw t s"
| "thread_do vw Frame_due s = (if th_frame s then renderPreviews s else s)"
| "thread_do vw Sent_here s = setRunning vw True None None s"

section \<open>What is drawn depends on the events alone\<close>

text \<open>What events draw: their blocks, the cards, what is waited for and the colours.\<close>

fun of_event :: "block_id \<Rightarrow> bool" where
  "of_event (Of_event n) = True"
| "of_event i = False"

definition shown :: "thread \<Rightarrow> thread" where
  "shown s =
     s \<lparr>th_blocks := filter (\<lambda>(i, b). of_event i) (th_blocks s), th_previews := [], th_fresh := 0,
        th_streaming := None, th_frame := False, th_since := None, th_first := None, th_images := 0,
        th_ring := None, th_window := 0\<rparr>"

lemma filter_map_ids:
  "(\<And>i b. fst (f (i, b)) = i) \<Longrightarrow> (\<And>i b. p i \<Longrightarrow> f (i, b) = (i, b)) \<Longrightarrow>
     filter (\<lambda>(i, b). p i) (map f xs) = filter (\<lambda>(i, b). p i) xs"
  by (induction xs) (auto split: prod.splits, metis fst_conv)

lemma shown_fields [simp]:
  "shown (s \<lparr>th_previews := a\<rparr>) = shown s" "shown (s \<lparr>th_fresh := b\<rparr>) = shown s"
  "shown (s \<lparr>th_streaming := c\<rparr>) = shown s" "shown (s \<lparr>th_frame := d\<rparr>) = shown s"
  "shown (s \<lparr>th_since := e\<rparr>) = shown s" "shown (s \<lparr>th_first := f\<rparr>) = shown s"
  "shown (s \<lparr>th_images := g\<rparr>) = shown s" "shown (s \<lparr>th_ring := h\<rparr>) = shown s"
  "shown (s \<lparr>th_window := i\<rparr>) = shown s" "shown (shown s) = shown s"
  by (simp_all add: shown_def)

lemma shown_same [simp]:
  "th_next (shown s) = th_next s" "th_cards (shown s) = th_cards s" "th_waiting (shown s) = th_waiting s"
  "th_tints (shown s) = th_tints s" "th_blocks (shown s) = filter (\<lambda>(i, b). of_event i) (th_blocks s)"
  by (simp_all add: shown_def)

lemma shown_eqI:
  assumes "filter (\<lambda>(i, b). of_event i) (th_blocks s) = filter (\<lambda>(i, b). of_event i) (th_blocks t)"
    and "th_next s = th_next t" and "th_cards s = th_cards t" and "th_waiting s = th_waiting t" and "th_tints s = th_tints t"
  shows "shown s = shown t"
  using assms by (intro thread.equality) (simp_all add: shown_def)

lemma shown_unmoved:
  "shown (on_preview n f s) = shown s" "shown (set_block (Of_preview n) b s) = shown s"
  "shown (keepWorkingLast s) = shown s" "(\<And>i. p i \<Longrightarrow> \<not> of_event i) \<Longrightarrow> shown (drop_blocks p s) = shown s"
proof -
  show "shown (on_preview n f s) = shown s" "shown (set_block (Of_preview n) b s) = shown s"
    by (rule shown_eqI; simp add: on_preview_def set_block_def; rule filter_map_ids; auto)+
  show "shown (keepWorkingLast s) = shown s"
  proof (rule shown_eqI)
    have "filter (\<lambda>(i, b). of_event i) (filter (\<lambda>(i, b). i = The_working) xs) = []" for xs :: "(block_id \<times> block) list"
      by (auto simp: filter_empty_conv)
    moreover have "filter (\<lambda>(i, b). of_event i) (filter (\<lambda>(i, b). i \<noteq> The_working) xs) = filter (\<lambda>(i, b). of_event i) xs"
      for xs :: "(block_id \<times> block) list" by (auto intro!: filter_cong)
    ultimately show "filter (\<lambda>(i, b). of_event i) (th_blocks (keepWorkingLast s)) = filter (\<lambda>(i, b). of_event i) (th_blocks s)"
      unfolding keepWorkingLast_def by (simp del: filter_filter)
  qed (simp_all add: keepWorkingLast_def)
  show "(\<And>i. p i \<Longrightarrow> \<not> of_event i) \<Longrightarrow> shown (drop_blocks p s) = shown s"
    by (rule shown_eqI) (auto simp: drop_blocks_def intro!: filter_cong)
qed

lemma shown_fold: "(\<And>x t. shown (f x t) = shown t) \<Longrightarrow> shown (fold f xs s) = shown s"
  by (induction xs arbitrary: s) simp_all

lemma shown_settle_one: "shown (settle_one n s) = shown s"
  unfolding settle_one_def by (simp add: shown_unmoved(2)) (subst shown_unmoved(4); simp)

lemma shown_kept [simp]:
  "shown (endStreaming s) = shown s" "shown (dropPreviews s) = shown s" "shown (settlePreviews s) = shown s"
  "shown (renderPreviews s) = shown s" "shown (updateRing a b s) = shown s" "shown (clearEmptyState s) = shown s"
  "shown (showLoadEarlier s) = shown s" "shown (renderEmptyState s) = shown s"
proof -
  show "shown (endStreaming s) = shown s" by (simp add: endStreaming_def shown_unmoved split: option.split)
  show "shown (dropPreviews s) = shown s" unfolding dropPreviews_def shown_fields by (subst shown_unmoved(4)) auto
  show "shown (settlePreviews s) = shown s"
    by (simp add: settlePreviews_def shown_fold [OF shown_settle_one])
  show "shown (renderPreviews s) = shown s"
    unfolding renderPreviews_def shown_unmoved by (subst shown_fold) (simp_all add: shown_unmoved)
  show "shown (updateRing a b s) = shown s" by (simp add: updateRing_def Let_def split: option.split)
  show "shown (clearEmptyState s) = shown s" unfolding clearEmptyState_def by (subst shown_unmoved) auto
  show "shown (showLoadEarlier s) = shown s"
    by (rule shown_eqI) (auto simp: showLoadEarlier_def intro!: filter_cong)
  show "shown (renderEmptyState s) = shown s"
    by (rule shown_eqI) (auto simp: renderEmptyState_def)
qed

lemma shown_setRunning [simp]: "shown (setRunning vw r d t s) = shown s"
  by (rule shown_eqI) (auto simp: setRunning_def Let_def drop_blocks_def intro!: filter_cong)

lemma shown_delta: "shown (on_delta vw t s) = shown s"
proof -
  have "shown (s \<lparr>th_blocks := th_blocks s @ [(Of_preview n, b)], th_streaming := x, th_previews := y, th_fresh := z\<rparr>) = shown s"
    for n b x y z by (rule shown_eqI) simp_all
  then show ?thesis by (simp add: on_delta_def Let_def shown_unmoved split: option.split)
qed

lemma shown_append [simp]: "shown (append_block b s) = append_block b (shown s)"
  by (simp add: shown_def append_block_def)

lemma shown_mark:
  "fst (mark_of a (shown s)) = fst (mark_of a s)" "shown (snd (mark_of a s)) = shown (snd (mark_of a (shown s)))"
  by (auto simp: mark_of_def agentTint_def shown_def split: option.split)

lemma shown_on_event: "shown (on_event_block n f s) = shown (on_event_block n f (shown s))"
proof (rule shown_eqI)
  have "filter (\<lambda>(i, b). of_event i) (map (\<lambda>(j, b). (j, if j = Of_event n then f b else b)) xs)
      = filter (\<lambda>(i, b). of_event i) (map (\<lambda>(j, b). (j, if j = Of_event n then f b else b)) (filter (\<lambda>(i, b). of_event i) xs))"
    for xs by (induction xs) auto
  then show "filter (\<lambda>(i, b). of_event i) (th_blocks (on_event_block n f s))
      = filter (\<lambda>(i, b). of_event i) (th_blocks (on_event_block n f (shown s)))" by (simp add: on_event_block_def)
qed (simp_all add: on_event_block_def)

text \<open>Cards are asked for in the blocks of events alone.\<close>

definition cards_of_events :: "thread \<Rightarrow> bool" where
  "cards_of_events s = (\<forall>(i, b)\<in>set (th_blocks s). \<not> of_event i \<longrightarrow> (\<forall>r. \<not> asks r b))"

lemma answer_first_shown:
  "(\<forall>(i, b)\<in>set bs. \<not> of_event i \<longrightarrow> \<not> asks rid b) \<Longrightarrow>
     filter (\<lambda>(i, b). of_event i) (answer_first rid note bs) = answer_first rid note (filter (\<lambda>(i, b). of_event i) bs)"
  by (induction bs) auto

section \<open>The identities the script keeps\<close>

fun is_preview :: "block \<Rightarrow> bool" where
  "is_preview (Preview raw live drawn sd rd) = True"
| "is_preview b = False"

fun is_settled :: "block \<Rightarrow> bool" where
  "is_settled (Settled_text t) = True"
| "is_settled b = False"

fun is_tool :: "block \<Rightarrow> bool" where
  "is_tool (Tool_card name d rows dot m) = True"
| "is_tool b = False"

fun is_working :: "block \<Rightarrow> bool" where
  "is_working (Working_row t) = True"
| "is_working b = False"

fun kind_ok :: "block_id \<Rightarrow> block \<Rightarrow> bool" where
  "kind_ok (Of_event n) b =
     (\<not> is_preview b \<and> \<not> is_settled b \<and> \<not> is_working b \<and> b \<noteq> Empty_state \<and> b \<noteq> Load_earlier)"
| "kind_ok (Of_preview n) b = (is_preview b \<or> is_settled b)"
| "kind_ok The_working b = is_working b"
| "kind_ok The_earlier b = (b = Load_earlier)"
| "kind_ok The_empty b = (b = Empty_state)"

fun below :: "nat \<Rightarrow> nat \<Rightarrow> block_id \<Rightarrow> bool" where
  "below n f (Of_event k) = (k < n)"
| "below n f (Of_preview k) = (k < f)"
| "below n f i = True"

text \<open>
  Each identity is of one block, of its kind and handed out before; what \<open>previewEls\<close> holds are the
  previews in the thread, the one that grows among them; a tool card and a card waited for are there.
\<close>

definition ids_ok :: "thread \<Rightarrow> bool" where
  "ids_ok s =
     (distinct (map fst (th_blocks s))
      \<and> (\<forall>(i, b)\<in>set (th_blocks s). kind_ok i b \<and> below (th_next s) (th_fresh s) i))"

definition preview_ids :: "(block_id \<times> block) list \<Rightarrow> nat set" where
  "preview_ids bs = {n. \<exists>b. (Of_preview n, b) \<in> set bs \<and> is_preview b}"

definition previews_ok :: "thread \<Rightarrow> bool" where
  "previews_ok s =
     (distinct (th_previews s) \<and> preview_ids (th_blocks s) = set (th_previews s)
      \<and> set_option (th_streaming s) \<subseteq> set (th_previews s))"

definition refs_ok :: "thread \<Rightarrow> bool" where
  "refs_ok s =
     ((\<forall>(t, n)\<in>set (th_cards s). \<exists>b. (Of_event n, b) \<in> set (th_blocks s) \<and> is_tool b)
      \<and> (\<forall>(r, l, n)\<in>set (th_waiting s). \<exists>b. (Of_event n, b) \<in> set (th_blocks s) \<and> asks r b))"

definition thread_ok :: "thread \<Rightarrow> bool" where
  "thread_ok s = (ids_ok s \<and> previews_ok s \<and> refs_ok s)"

lemma thread_new_ok: "thread_ok thread_new"
  by (simp add: thread_ok_def ids_ok_def previews_ok_def preview_ids_def refs_ok_def thread_new_def)

text \<open>What leaves the blocks and the references alone.\<close>

lemma thread_ok_fields [simp]:
  "thread_ok (s \<lparr>th_frame := d\<rparr>) = thread_ok s" "thread_ok (s \<lparr>th_since := e\<rparr>) = thread_ok s"
  "thread_ok (s \<lparr>th_first := f\<rparr>) = thread_ok s" "thread_ok (s \<lparr>th_images := g\<rparr>) = thread_ok s"
  "thread_ok (s \<lparr>th_ring := h\<rparr>) = thread_ok s" "thread_ok (s \<lparr>th_window := i\<rparr>) = thread_ok s"
  "thread_ok (s \<lparr>th_tints := j\<rparr>) = thread_ok s"
  by (simp_all add: thread_ok_def ids_ok_def previews_ok_def refs_ok_def)

text \<open>A change of the blocks that keeps identities and kinds.\<close>

definition same_kind :: "block \<Rightarrow> block \<Rightarrow> bool" where
  "same_kind b c =
     (is_preview b = is_preview c \<and> is_settled b = is_settled c \<and> is_tool b = is_tool c \<and> is_working b = is_working c
      \<and> (b = Empty_state) = (c = Empty_state) \<and> (b = Load_earlier) = (c = Load_earlier) \<and> (\<forall>r. asks r b = asks r c))"

lemma same_kind_refl [simp]: "same_kind b b"
  by (simp add: same_kind_def)

lemma same_kindD:
  assumes "same_kind b c"
  shows "is_preview c = is_preview b" "is_tool c = is_tool b" "asks r c = asks r b"
  using assms by (simp_all add: same_kind_def)

lemma kind_ok_same: "same_kind b c \<Longrightarrow> kind_ok i b = kind_ok i c"
  by (cases i) (auto simp: same_kind_def)

lemma same_kind_changes: "same_kind b (grown t b)" "same_kind b (ended b)" "same_kind b (painted b)"
    "same_kind b (with_result err summ b)" "same_kind b (with_answer note b)"
  by (cases b; simp add: same_kind_def split: prod.split)+

definition same_blocks :: "(block_id \<times> block) list \<Rightarrow> (block_id \<times> block) list \<Rightarrow> bool" where
  "same_blocks bs cs = list_all2 (\<lambda>(i, b) (j, c). i = j \<and> same_kind b c) bs cs"

lemma same_blocks_ids: "same_blocks bs cs \<Longrightarrow> map fst cs = map fst bs"
  unfolding same_blocks_def by (induction rule: list_all2_induct) auto

lemma same_blocks_in:
  assumes "same_blocks bs cs"
  shows "(i, c) \<in> set cs \<Longrightarrow> \<exists>b. (i, b) \<in> set bs \<and> same_kind b c"
    and "(i, b) \<in> set bs \<Longrightarrow> \<exists>c. (i, c) \<in> set cs \<and> same_kind b c"
  using assms unfolding same_blocks_def by (induction rule: list_all2_induct) auto

lemma same_blocks_map:
  "(\<And>b. same_kind b (f b)) \<Longrightarrow> same_blocks bs (map (\<lambda>(j, b). (j, if P j then f b else b)) bs)"
  unfolding same_blocks_def by (induction bs) auto

lemma same_blocks_answer: "same_blocks bs (answer_first rid note bs)"
proof (induction bs)
  case (Cons x bs)
  obtain i b where x: "x = (i, b)" by (cases x)
  have "same_blocks bs bs" by (auto simp: same_blocks_def list_all2_same)
  then show ?case using Cons x same_kind_changes(5) by (auto simp: same_blocks_def)
qed (simp add: same_blocks_def)

lemma ids_ok_same:
  assumes "ids_ok s" and "same_blocks (th_blocks s) cs"
  shows "ids_ok (s \<lparr>th_blocks := cs\<rparr>)"
proof -
  have "kind_ok i c \<and> below (th_next s) (th_fresh s) i" if c: "(i, c) \<in> set cs" for i c
  proof -
    obtain b where b: "(i, b) \<in> set (th_blocks s)" "same_kind b c" using same_blocks_in(1) [OF assms(2) c] by blast
    then show ?thesis using assms(1) kind_ok_same [OF b(2)] by (auto simp: ids_ok_def)
  qed
  then show ?thesis using assms(1) same_blocks_ids [OF assms(2)] by (auto simp: ids_ok_def)
qed

lemma previews_ok_same:
  assumes "previews_ok s" and "same_blocks (th_blocks s) cs"
  shows "previews_ok (s \<lparr>th_blocks := cs\<rparr>)"
proof -
  have "preview_ids cs = preview_ids (th_blocks s)"
    unfolding preview_ids_def using same_blocks_in [OF assms(2)] same_kindD(1) by fast
  then show ?thesis using assms(1) by (simp add: previews_ok_def)
qed

lemma refs_ok_same:
  assumes "refs_ok s" and "same_blocks (th_blocks s) cs"
  shows "refs_ok (s \<lparr>th_blocks := cs\<rparr>)"
proof -
  have "\<exists>c. (Of_event n, c) \<in> set cs \<and> is_tool c" if "(Of_event n, b) \<in> set (th_blocks s)" "is_tool b" for n b
    using same_blocks_in(2) [OF assms(2) that(1)] that(2) same_kindD(2) by blast
  moreover have "\<exists>c. (Of_event n, c) \<in> set cs \<and> asks r c" if "(Of_event n, b) \<in> set (th_blocks s)" "asks r b" for n b r
    using same_blocks_in(2) [OF assms(2) that(1)] that(2) same_kindD(3) by blast
  ultimately show ?thesis using assms(1) unfolding refs_ok_def by fastforce
qed

lemma thread_ok_same:
  "thread_ok s \<Longrightarrow> same_blocks (th_blocks s) cs \<Longrightarrow> thread_ok (s \<lparr>th_blocks := cs\<rparr>)"
  using ids_ok_same previews_ok_same refs_ok_same by (simp add: thread_ok_def)

text \<open>The order of the blocks does not matter; rows there is one of come and go.\<close>

lemma thread_ok_order:
  assumes "mset cs = mset (th_blocks s)"
  shows "thread_ok (s \<lparr>th_blocks := cs\<rparr>) = thread_ok s"
proof -
  have "set cs = set (th_blocks s)" using assms by (rule mset_eq_setD)
  moreover have "distinct (map fst cs) = distinct (map fst (th_blocks s))"
    using assms by (metis mset_map mset_eq_imp_distinct_iff)
  ultimately show ?thesis by (simp add: thread_ok_def ids_ok_def previews_ok_def preview_ids_def refs_ok_def)
qed

fun one_row :: "block_id \<Rightarrow> bool" where
  "one_row (Of_event n) = False"
| "one_row (Of_preview n) = False"
| "one_row i = True"

lemma thread_ok_drop_row:
  assumes "thread_ok s" and "\<And>i. p i \<Longrightarrow> one_row i"
  shows "thread_ok (drop_blocks p s)"
proof -
  have np: "\<not> p (Of_event n)" "\<not> p (Of_preview n)" for n using assms(2) [of "Of_event n"] assms(2) [of "Of_preview n"] by auto
  have "ids_ok (drop_blocks p s)"
    using assms(1) by (auto simp: thread_ok_def ids_ok_def drop_blocks_def distinct_map_filter)
  moreover have "preview_ids (filter (\<lambda>(i, b). \<not> p i) (th_blocks s)) = preview_ids (th_blocks s)"
    using np by (auto simp: preview_ids_def)
  then have "previews_ok (drop_blocks p s)"
    using assms(1) by (simp add: thread_ok_def previews_ok_def drop_blocks_def)
  moreover have "refs_ok (drop_blocks p s)"
    using assms(1) np unfolding thread_ok_def refs_ok_def drop_blocks_def by simp
  ultimately show ?thesis by (simp add: thread_ok_def)
qed

lemma thread_ok_add_row:
  assumes "thread_ok s" and "one_row i" and "i \<notin> fst ` set (th_blocks s)" and "kind_ok i b"
  shows "thread_ok (s \<lparr>th_blocks := th_blocks s @ [(i, b)]\<rparr>)"
proof -
  have ne: "i \<noteq> Of_event n" "i \<noteq> Of_preview n" for n using assms(2) by auto
  have "below (th_next s) (th_fresh s) i" using assms(2) by (cases i) auto
  then have "ids_ok (s \<lparr>th_blocks := th_blocks s @ [(i, b)]\<rparr>)"
    using assms(1,3,4) by (auto simp: thread_ok_def ids_ok_def)
  moreover have "preview_ids (th_blocks s @ [(i, b)]) = preview_ids (th_blocks s)"
    using ne by (auto simp: preview_ids_def)
  then have "previews_ok (s \<lparr>th_blocks := th_blocks s @ [(i, b)]\<rparr>)"
    using assms(1) by (simp add: thread_ok_def previews_ok_def)
  moreover have "refs_ok (s \<lparr>th_blocks := th_blocks s @ [(i, b)]\<rparr>)"
    using assms(1) unfolding thread_ok_def refs_ok_def by (simp split: prod.splits) blast
  ultimately show ?thesis by (simp add: thread_ok_def)
qed

lemma thread_ok_append:
  assumes ok: "thread_ok s" and b: "kind_ok (Of_event 0) b"
  shows "thread_ok (append_block b s)"
proof -
  have new: "Of_event (th_next s) \<notin> fst ` set (th_blocks s)"
    using ok by (force simp: thread_ok_def ids_ok_def)
  have up: "below n f i \<Longrightarrow> below (Suc n) f i" for n f i by (cases i) auto
  have "ids_ok (append_block b s)"
    using ok b new by (auto simp: thread_ok_def ids_ok_def append_block_def intro: up)
  moreover have "preview_ids (th_blocks s @ [(Of_event n, b)]) = preview_ids (th_blocks s)" for n
    by (auto simp: preview_ids_def)
  then have "previews_ok (append_block b s)"
    using ok by (simp add: thread_ok_def previews_ok_def append_block_def)
  moreover have "refs_ok (append_block b s)"
    using ok unfolding thread_ok_def refs_ok_def append_block_def by (simp split: prod.splits) blast
  ultimately show ?thesis by (simp add: thread_ok_def)
qed

lemma mset_two_parts: "mset (filter (\<lambda>x. \<not> p x) xs @ filter p xs) = mset xs"
  by (induction xs) auto

lemma thread_ok_keep:
  assumes "thread_ok s"
  shows "thread_ok (keepWorkingLast s)"
proof -
  have "(\<lambda>(i, b). i \<noteq> The_working) = (\<lambda>x. \<not> (case x of (i :: block_id, b :: block) \<Rightarrow> i = The_working))" by auto
  then have "keepWorkingLast s = s \<lparr>th_blocks := filter (\<lambda>x. \<not> (case x of (i, b) \<Rightarrow> i = The_working)) (th_blocks s)
      @ filter (\<lambda>(i, b). i = The_working) (th_blocks s)\<rparr>" by (simp only: keepWorkingLast_def)
  then show ?thesis using assms by (simp only: thread_ok_order [OF mset_two_parts])
qed

lemma thread_ok_setRunning: "thread_ok s \<Longrightarrow> thread_ok (setRunning vw r d t s)"
proof -
  assume ok: "thread_ok s"
  let ?s = "drop_blocks (\<lambda>i. i = The_working) s"
  have d: "thread_ok ?s" using ok by (rule thread_ok_drop_row) simp
  have "The_working \<notin> fst ` set (th_blocks ?s)" by (auto simp: drop_blocks_def)
  with d have "thread_ok (?s \<lparr>th_blocks := th_blocks ?s @ [(The_working, Working_row x)]\<rparr>)" for x
    by (intro thread_ok_add_row) simp_all
  then have "thread_ok (?s \<lparr>th_blocks := th_blocks ?s @ [(The_working, Working_row x)], th_since := y\<rparr>)" for x y
    using thread_ok_fields(2) by blast
  then show ?thesis using d by (simp add: setRunning_def Let_def)
qed

lemma thread_ok_rows:
  assumes "thread_ok s"
  shows "thread_ok (clearEmptyState s)" "thread_ok (renderEmptyState s)" "thread_ok (showLoadEarlier s)"
proof -
  show "thread_ok (clearEmptyState s)" unfolding clearEmptyState_def using assms by (rule thread_ok_drop_row) simp
  show "thread_ok (renderEmptyState s)"
    using thread_ok_add_row [OF assms, of The_empty Empty_state] assms by (auto simp: renderEmptyState_def)
  let ?s = "drop_blocks (\<lambda>i. i = The_earlier) s"
  have "thread_ok (?s \<lparr>th_blocks := th_blocks ?s @ [(The_earlier, Load_earlier)]\<rparr>)"
    using assms by (intro thread_ok_add_row thread_ok_drop_row) (auto simp: drop_blocks_def)
  moreover have "mset ((The_earlier, Load_earlier) # th_blocks ?s) = mset (th_blocks (?s \<lparr>th_blocks := th_blocks ?s @ [(The_earlier, Load_earlier)]\<rparr>))"
    by simp
  ultimately have "thread_ok (?s \<lparr>th_blocks := (The_earlier, Load_earlier) # th_blocks ?s\<rparr>)"
    using thread_ok_order [of "(The_earlier, Load_earlier) # th_blocks ?s"
        "?s \<lparr>th_blocks := th_blocks ?s @ [(The_earlier, Load_earlier)]\<rparr>"] by simp
  then show "thread_ok (showLoadEarlier s)" by (simp add: showLoadEarlier_def drop_blocks_def)
qed

text \<open>Previews.\<close>

lemma thread_ok_on_preview: "thread_ok s \<Longrightarrow> (\<And>b. same_kind b (f b)) \<Longrightarrow> thread_ok (on_preview n f s)"
  unfolding on_preview_def by (intro thread_ok_same same_blocks_map)

lemma thread_ok_unstreamed: "thread_ok s \<Longrightarrow> thread_ok (s \<lparr>th_streaming := None\<rparr>)"
  by (simp add: thread_ok_def ids_ok_def previews_ok_def refs_ok_def)

lemma thread_ok_endStreaming: "thread_ok s \<Longrightarrow> thread_ok (endStreaming s)"
  unfolding endStreaming_def
  by (auto split: option.split intro!: thread_ok_on_preview thread_ok_unstreamed same_kind_changes)

lemma thread_ok_renderPreviews: "thread_ok s \<Longrightarrow> thread_ok (renderPreviews s)"
proof -
  have "thread_ok t \<Longrightarrow> thread_ok (fold (\<lambda>n. on_preview n painted) ns t)" for ns t
    by (induction ns arbitrary: t) (auto intro: thread_ok_on_preview same_kind_changes)
  then show "thread_ok s \<Longrightarrow> thread_ok (renderPreviews s)"
    unfolding renderPreviews_def by (intro thread_ok_keep) simp
qed

text \<open>Taking previews out of the thread, or making them text of their own.\<close>

lemma without_previews:
  assumes "thread_ok s" and "ids_ok t" and "refs_ok t" and "preview_ids (th_blocks t) = {}"
  shows "thread_ok (t \<lparr>th_previews := [], th_streaming := None\<rparr>)"
  using assms by (simp add: thread_ok_def ids_ok_def previews_ok_def refs_ok_def)

lemma refs_ok_blocks:
  assumes "refs_ok s" and "th_cards t = th_cards s" and "th_waiting t = th_waiting s"
    and "\<And>n b. (Of_event n, b) \<in> set (th_blocks s) \<Longrightarrow> (Of_event n, b) \<in> set (th_blocks t)"
  shows "refs_ok t"
  using assms unfolding refs_ok_def by fastforce

lemma thread_ok_dropPreviews:
  assumes "thread_ok s"
  shows "thread_ok (dropPreviews s)"
proof -
  let ?t = "drop_blocks (\<lambda>i. i \<in> Of_preview ` set (th_previews s)) (s \<lparr>th_frame := False\<rparr>)"
  have "ids_ok ?t" using assms by (auto simp: thread_ok_def ids_ok_def drop_blocks_def distinct_map_filter)
  moreover have "refs_ok ?t"
    by (rule refs_ok_blocks [of s]) (use assms in \<open>auto simp: thread_ok_def drop_blocks_def\<close>)
  moreover have "preview_ids (th_blocks ?t) = preview_ids (th_blocks s) - set (th_previews s)"
    by (auto simp: preview_ids_def drop_blocks_def)
  moreover have "preview_ids (th_blocks s) = set (th_previews s)" using assms by (simp add: thread_ok_def previews_ok_def)
  ultimately have "thread_ok (?t \<lparr>th_previews := [], th_streaming := None\<rparr>)"
    using without_previews [OF assms, of ?t] by simp
  then show ?thesis by (simp only: dropPreviews_def)
qed

lemma in_set_block:
  "(k, c) \<in> set (map (\<lambda>(j, d). (j, if j = i then b else d)) bs)
     \<longleftrightarrow> (if k = i then c = b \<and> k \<in> fst ` set bs else (k, c) \<in> set bs)"
  by (induction bs) auto

lemma settle_one_ok:
  assumes "ids_ok s" and "refs_ok s"
  shows "ids_ok (settle_one n s)" "refs_ok (settle_one n s)"
    "preview_ids (th_blocks (settle_one n s)) = preview_ids (th_blocks s) - {n}"
proof -
  have m: "fst \<circ> (\<lambda>(j, c). (j, if j = i then b else c)) = fst" for i :: block_id and b :: block
    by auto
  show "ids_ok (settle_one n s)"
  proof (cases "trim (preview_raw s n) = []")
    case True
    then show ?thesis using assms(1) by (auto simp: settle_one_def ids_ok_def drop_blocks_def distinct_map_filter)
  next
    case False
    then show ?thesis using assms(1) by (auto simp: settle_one_def set_block_def ids_ok_def m split: if_splits)
  qed
  show "refs_ok (settle_one n s)"
    by (rule refs_ok_blocks [OF assms(2)])
      (simp_all add: settle_one_def set_block_def drop_blocks_def in_set_block del: set_map)
  show "preview_ids (th_blocks (settle_one n s)) = preview_ids (th_blocks s) - {n}"
    unfolding settle_one_def preview_ids_def set_block_def drop_blocks_def
    by (auto simp: in_set_block simp del: set_map split: if_splits)
qed

lemma thread_ok_settlePreviews:
  assumes "thread_ok s"
  shows "thread_ok (settlePreviews s)"
proof -
  have f: "ids_ok t \<Longrightarrow> refs_ok t \<Longrightarrow> ids_ok (fold settle_one ns t) \<and> refs_ok (fold settle_one ns t)
      \<and> preview_ids (th_blocks (fold settle_one ns t)) = preview_ids (th_blocks t) - set ns" for ns t
    by (induction ns arbitrary: t) (auto simp: settle_one_ok)
  have "thread_ok (s \<lparr>th_frame := False\<rparr>)" using assms by simp
  then show ?thesis unfolding settlePreviews_def
    by (intro without_previews [OF assms]) (use f [of "s \<lparr>th_frame := False\<rparr>"] in \<open>auto simp: thread_ok_def previews_ok_def\<close>)
qed

text \<open>The other fields of a thread.\<close>

lemma setRunning_fields [simp]:
  "th_previews (setRunning vw r d t s) = th_previews s" "th_streaming (setRunning vw r d t s) = th_streaming s"
  "th_waiting (setRunning vw r d t s) = th_waiting s" "th_fresh (setRunning vw r d t s) = th_fresh s"
  by (simp_all add: setRunning_def Let_def drop_blocks_def)

lemma dropPreviews_fields [simp]:
  "th_previews (dropPreviews s) = []" "th_streaming (dropPreviews s) = None" "th_waiting (dropPreviews s) = th_waiting s"
  by (simp_all add: dropPreviews_def drop_blocks_def)

lemma thread_ok_mark: "thread_ok s \<Longrightarrow> thread_ok (snd (mark_of a s))"
  by (auto simp: mark_of_def agentTint_def split: option.split)

lemma in_update: "x \<in> set (AList.update k v xs) \<Longrightarrow> x = (k, v) \<or> x \<in> set xs"
  by (induction xs) (auto split: if_splits)

lemma ids_of_cards:
  assumes "refs_ok s" and "\<exists>b. (Of_event n, b) \<in> set (th_blocks s) \<and> is_tool b"
  shows "refs_ok (s \<lparr>th_cards := AList.update t n (th_cards s)\<rparr>)"
  using assms unfolding refs_ok_def by (auto dest!: in_update)

lemma ids_of_waiting:
  assumes "refs_ok s" and "\<exists>b. (Of_event n, b) \<in> set (th_blocks s) \<and> asks r b"
  shows "refs_ok (pinWaiting r l n s)"
  using assms unfolding refs_ok_def pinWaiting_def by (auto dest!: in_update)

lemma thread_ok_card:
  assumes "thread_ok s" and "is_tool b" and "\<And>n. kind_ok (Of_event n) b"
  shows "thread_ok ((append_block b s) \<lparr>th_cards := AList.update t (th_next s) (th_cards s)\<rparr>)"
proof -
  have "thread_ok (append_block b s)" using assms by (simp add: thread_ok_append)
  moreover have "refs_ok ((append_block b s) \<lparr>th_cards := AList.update t (th_next s) (th_cards (append_block b s))\<rparr>)"
    by (rule ids_of_cards) (use calculation assms(2) in \<open>auto simp: thread_ok_def append_block_def\<close>)
  ultimately show ?thesis by (simp add: thread_ok_def ids_ok_def previews_ok_def append_block_def)
qed

lemma thread_ok_asked:
  assumes "thread_ok s" and "asks r b" and "\<And>n. kind_ok (Of_event n) b"
  shows "thread_ok (pinWaiting r l (th_next s) (append_block b s))"
proof -
  have "thread_ok (append_block b s)" using assms by (simp add: thread_ok_append)
  moreover have "refs_ok (pinWaiting r l (th_next s) (append_block b s))"
    by (rule ids_of_waiting) (use calculation assms(2) in \<open>auto simp: thread_ok_def append_block_def\<close>)
  ultimately show ?thesis by (simp add: thread_ok_def ids_ok_def previews_ok_def pinWaiting_def)
qed

lemma thread_ok_result: "thread_ok s \<Longrightarrow> thread_ok (renderToolResult t summ err s)"
  unfolding renderToolResult_def on_event_block_def
  by (auto split: option.split intro!: thread_ok_same same_blocks_map same_kind_changes thread_ok_append)

lemma thread_ok_resolved:
  assumes "thread_ok s"
  shows "thread_ok ((unpinWaiting r s) \<lparr>th_blocks := answer_first r note (th_blocks s)\<rparr>)"
proof -
  have "refs_ok (unpinWaiting r s)"
    using assms unfolding thread_ok_def refs_ok_def unpinWaiting_def by (auto simp: AList.delete_eq)
  then have "thread_ok (unpinWaiting r s)"
    using assms by (simp add: thread_ok_def ids_ok_def previews_ok_def unpinWaiting_def)
  then have "thread_ok ((unpinWaiting r s) \<lparr>th_blocks := answer_first r note (th_blocks (unpinWaiting r s))\<rparr>)"
    by (intro thread_ok_same same_blocks_answer)
  then show ?thesis by (simp add: unpinWaiting_def)
qed

lemma thread_ok_tool_use: "thread_ok s \<Longrightarrow> thread_ok (fst (renderToolUse t name inp agent s))"
proof -
  assume s: "thread_ok s"
  have m: "thread_ok s1" if "mark_of agent (endStreaming s) = (m, s1)" for m s1
    using thread_ok_mark [OF thread_ok_endStreaming [OF s], of agent] that by simp
  show ?thesis
    unfolding renderToolUse_def renderTodoCard_def
    by (auto simp: Let_def intro!: thread_ok_append thread_ok_endStreaming [OF s] thread_ok_card
        split: prod.split option.split dest!: m)
qed

lemma thread_ok_ring: "thread_ok s \<Longrightarrow> thread_ok (updateRing a b s)"
  by (auto simp: updateRing_def Let_def split: option.split)

lemma thread_ok_body: "thread_ok s \<Longrightarrow> thread_ok (fst (renderBody vw ts e s))"
proof (induction vw ts e s rule: renderBody.induct)
  case (1 vw ts t refs cid s)
  then show ?case by (auto intro!: thread_ok_append thread_ok_endStreaming)
next
  case (2 vw ts t agent s)
  then show ?case using thread_ok_mark [OF thread_ok_dropPreviews [OF 2], of agent]
    by (auto intro!: thread_ok_append split: prod.split)
next
  case (3 vw ts tid name inp agent s)
  then show ?case by (simp add: thread_ok_tool_use)
next
  case (4 vw ts tid summ err agent s)
  then show ?case by (simp add: thread_ok_result)
next
  case (5 vw ts rid name inp s)
  then show ?case by (auto simp: Let_def intro!: thread_ok_asked thread_ok_endStreaming split: option.split)
next
  case (6 vw ts rid qs s)
  then show ?case by (auto simp: Let_def intro!: thread_ok_asked thread_ok_endStreaming)
next
  case (7 vw ts rid allowed answers s)
  then show ?case by (simp add: thread_ok_resolved)
next
  case (8 vw ts st detail act acct s)
  then show ?case by (auto simp: Let_def intro!: thread_ok_setRunning thread_ok_append thread_ok_settlePreviews)
next
  case (9 vw ts summ cost dur ctx win turn s)
  then show ?case by (auto intro!: thread_ok_setRunning thread_ok_ring thread_ok_append thread_ok_settlePreviews)
qed

lemma thread_ok_event: "thread_ok s \<Longrightarrow> thread_ok (fst (renderEvent vw ts e s))"
  using thread_ok_body [OF thread_ok_rows(1), of s vw ts e]
  by (auto simp: renderEvent_def thread_ok_keep split: prod.splits)

lemma thread_ok_reset: "thread_ok (resetThread vw s)"
  by (simp add: thread_ok_def ids_ok_def previews_ok_def preview_ids_def refs_ok_def resetThread_def)

lemma thread_ok_replay_events: "thread_ok s \<Longrightarrow> thread_ok (replay_events vw es s)"
  unfolding replay_events_def by (induction es arbitrary: s) (auto simp: thread_ok_event split: prod.split)

lemma thread_ok_replay: "thread_ok s \<Longrightarrow> thread_ok (on_replay vw reset earlier es info s)"
  unfolding on_replay_def Let_def
  by (auto intro!: thread_ok_rows thread_ok_setRunning thread_ok_replay_events thread_ok_reset split: option.split)

lemma thread_ok_delta:
  assumes ok: "thread_ok s"
  shows "thread_ok (on_delta vw text s)"
proof -
  let ?s = "s \<lparr>th_blocks := th_blocks s @ [(Of_preview (th_fresh s), Preview [] True None [] [])],
      th_streaming := Some (th_fresh s), th_previews := th_previews s @ [th_fresh s], th_fresh := Suc (th_fresh s)\<rparr>"
  have new: "Of_preview (th_fresh s) \<notin> fst ` set (th_blocks s)" using ok by (force simp: thread_ok_def ids_ok_def)
  then have np: "th_fresh s \<notin> set (th_previews s)"
    using ok by (force simp: thread_ok_def previews_ok_def preview_ids_def)
  have up: "below n f i \<Longrightarrow> below n (Suc f) i" for n f i by (cases i) auto
  have "ids_ok ?s" using ok new by (auto simp: thread_ok_def ids_ok_def intro: up)
  moreover have "preview_ids (bs @ [(Of_preview n, Preview t l d x y)]) = insert n (preview_ids bs)" for bs n t l d x y
    unfolding preview_ids_def by (rule set_eqI) (simp, metis is_preview.simps(1))
  then have "previews_ok ?s" using ok np by (simp add: thread_ok_def previews_ok_def)
  moreover have "refs_ok ?s" by (rule refs_ok_blocks [of s]) (use ok in \<open>auto simp: thread_ok_def\<close>)
  ultimately have "thread_ok ?s" by (simp add: thread_ok_def)
  then show ?thesis using ok unfolding on_delta_def Let_def
    by (auto intro!: thread_ok_on_preview same_kind_changes thread_ok_setRunning split: option.split)
qed

lemma thread_ok_do: "thread_ok s \<Longrightarrow> thread_ok (thread_do vw m s)"
  by (cases m) (auto intro: thread_ok_replay thread_ok_event thread_ok_delta thread_ok_renderPreviews thread_ok_setRunning)

text \<open>A thread in the course of a session, each message at its time.\<close>

inductive thread_run :: "thread \<Rightarrow> bool" where
  start: "thread_run thread_new"
| step: "thread_run s \<Longrightarrow> thread_run (thread_do vw m s)"

lemma thread_run_ok: "thread_run s \<Longrightarrow> thread_ok s"
  by (induction rule: thread_run.induct) (simp_all add: thread_new_ok thread_ok_do)

section \<open>Redrawing gives the same\<close>

lemma asks_of_events:
  assumes "thread_ok s" and "(i, b) \<in> set (th_blocks s)" and "\<not> of_event i"
  shows "\<not> asks r b"
  using assms by (cases i; cases b) (auto simp: thread_ok_def ids_ok_def)

lemma shown_answered:
  assumes "thread_ok s"
  shows "shown ((unpinWaiting r s) \<lparr>th_blocks := answer_first r note (th_blocks s)\<rparr>)
    = shown ((unpinWaiting r (shown s)) \<lparr>th_blocks := answer_first r note (th_blocks (shown s))\<rparr>)"
proof (rule shown_eqI)
  let ?ev = "filter (\<lambda>(i, b). of_event i)"
  have "?ev (answer_first r note (th_blocks s)) = answer_first r note (?ev (th_blocks s))"
    by (rule answer_first_shown) (use asks_of_events [OF assms] in auto)
  moreover have "?ev (answer_first r note (?ev (th_blocks s))) = answer_first r note (?ev (?ev (th_blocks s)))"
    by (rule answer_first_shown) auto
  ultimately show "?ev (th_blocks ((unpinWaiting r s) \<lparr>th_blocks := answer_first r note (th_blocks s)\<rparr>))
      = ?ev (th_blocks ((unpinWaiting r (shown s)) \<lparr>th_blocks := answer_first r note (th_blocks (shown s))\<rparr>))"
    by (simp add: unpinWaiting_def)
qed (simp_all add: unpinWaiting_def)

lemma shown_pin: "shown (pinWaiting r l n s) = pinWaiting r l n (shown s)"
  by (simp add: pinWaiting_def shown_def)

lemma shown_next_kept [simp]:
  "th_next (endStreaming s) = th_next s" "th_next (setRunning vw r d t s) = th_next s"
  by (simp_all add: endStreaming_def on_preview_def setRunning_def Let_def drop_blocks_def split: option.split)

lemma shown_todo:
  "shown (fst (renderTodoCard inp s)) = fst (renderTodoCard inp (shown s))"
  "snd (renderTodoCard inp (shown s)) = snd (renderTodoCard inp s)"
  by (simp_all add: renderTodoCard_def Let_def)

lemma shown_eqD:
  assumes "shown s = shown t"
  shows "th_next s = th_next t" "th_cards s = th_cards t" "th_waiting s = th_waiting t" "th_tints s = th_tints t"
    "filter (\<lambda>(i, b). of_event i) (th_blocks s) = filter (\<lambda>(i, b). of_event i) (th_blocks t)"
  using arg_cong [OF assms, of th_next] arg_cong [OF assms, of th_cards] arg_cong [OF assms, of th_waiting]
    arg_cong [OF assms, of th_tints] arg_cong [OF assms, of th_blocks] by simp_all

lemma shown_eq_ops:
  assumes "shown s = shown t"
  shows "shown (append_block b s) = shown (append_block b t)"
    and "shown (pinWaiting r l n s) = shown (pinWaiting r l n t)"
    and "shown (on_event_block n f s) = shown (on_event_block n f t)"
    and "shown (s \<lparr>th_cards := cs\<rparr>) = shown (t \<lparr>th_cards := cs\<rparr>)"
    and "fst (mark_of a s) = fst (mark_of a t)" and "shown (snd (mark_of a s)) = shown (snd (mark_of a t))"
proof -
  show "shown (append_block b s) = shown (append_block b t)" using assms by simp
  show "shown (pinWaiting r l n s) = shown (pinWaiting r l n t)" using assms by (simp add: shown_pin)
  show "shown (on_event_block n f s) = shown (on_event_block n f t)"
    using shown_on_event [of n f s] shown_on_event [of n f t] assms by simp
  show "shown (s \<lparr>th_cards := cs\<rparr>) = shown (t \<lparr>th_cards := cs\<rparr>)"
    by (rule shown_eqI) (simp_all add: shown_eqD [OF assms])
  show "fst (mark_of a s) = fst (mark_of a t)" using shown_mark(1) [of a s] shown_mark(1) [of a t] assms by simp
  show "shown (snd (mark_of a s)) = shown (snd (mark_of a t))"
    using shown_mark(2) [of a s] shown_mark(2) [of a t] assms by simp
qed

lemma shown_eq_result:
  assumes "shown s = shown t"
  shows "shown (renderToolResult tid summ err s) = shown (renderToolResult tid summ err t)"
  using shown_eqD(2) [OF assms] shown_eq_ops(1,3) [OF assms] by (simp add: renderToolResult_def split: option.split)

lemma shown_eq_tool_use:
  assumes e: "shown s = shown t"
  shows "shown (fst (renderToolUse tid name inp a s)) = shown (fst (renderToolUse tid name inp a t))
    \<and> snd (renderToolUse tid name inp a s) = snd (renderToolUse tid name inp a t)"
proof -
  have e1: "shown (endStreaming s) = shown (endStreaming t)" using e by simp
  obtain m s1 t1 where m: "mark_of a (endStreaming s) = (m, s1)" "mark_of a (endStreaming t) = (m, t1)" "shown s1 = shown t1"
    using shown_eq_ops(5,6) [OF e1, of a] by (metis prod.collapse)
  have "shown (if is_given_text tid then (append_block b s1) \<lparr>th_cards := AList.update (the tid) (th_next s1) (th_cards s1)\<rparr> else append_block b s1)
      = shown (if is_given_text tid then (append_block b t1) \<lparr>th_cards := AList.update (the tid) (th_next t1) (th_cards t1)\<rparr> else append_block b t1)" for b
    using shown_eq_ops(1,4) [OF m(3)] shown_eq_ops(4) [OF shown_eq_ops(1) [OF m(3)]] shown_eqD(1,2) [OF m(3)] by simp
  moreover have "shown (fst (renderTodoCard inp (endStreaming s))) = shown (fst (renderTodoCard inp (endStreaming t)))"
    using shown_eq_ops(1) [OF e1] e by (simp add: renderTodoCard_def Let_def)
  ultimately show ?thesis using m(3)
    by (simp add: renderToolUse_def m(1,2) Let_def renderTodoCard_def split: option.split)
qed

lemma shown_eq_body:
  assumes e: "shown s = shown t" and "thread_ok s" and "thread_ok t"
  shows "shown (fst (renderBody vw ts ev s)) = shown (fst (renderBody vw ts ev t))
    \<and> snd (renderBody vw ts ev s) = snd (renderBody vw ts ev t)"
proof (cases ev)
  case (Assistant_text x a)
  have d: "shown (dropPreviews s) = shown (dropPreviews t)" using e by simp
  show ?thesis using shown_eq_ops(5,6) [OF d, of a] Assistant_text by (simp add: case_prod_beta)
next
  case (Permission_resolved r allowed answers)
  show ?thesis using shown_answered [OF assms(2), of r] shown_answered [OF assms(3), of r] e Permission_resolved by simp
next
  case (Permission_request r name inp)
  have "shown (endStreaming s) = shown (endStreaming t)" using e by simp
  then show ?thesis using shown_eqD(1) [OF e] Permission_request
    by (simp add: Let_def shown_pin split: option.split)
next
  case (Question_request r qs)
  then show ?thesis using shown_eqD(1) [OF e] e by (simp add: Let_def shown_pin)
qed (use e shown_eq_tool_use [OF e] shown_eq_result [OF e] in \<open>simp_all add: Let_def\<close>)

lemma shown_eq_event:
  assumes "shown s = shown t" and "thread_ok s" and "thread_ok t"
  shows "shown (fst (renderEvent vw ts ev s)) = shown (fst (renderEvent vw ts ev t))"
proof -
  have "shown (fst (renderBody vw ts ev (clearEmptyState s))) = shown (fst (renderBody vw ts ev (clearEmptyState t)))"
    using shown_eq_body [of "clearEmptyState s" "clearEmptyState t"] assms thread_ok_rows(1) by simp
  moreover have "shown (fst (renderEvent vw ts ev u)) = shown (fst (renderBody vw ts ev (clearEmptyState u)))" for u
    by (simp add: renderEvent_def shown_unmoved split: prod.split)
  ultimately show ?thesis by simp
qed

text \<open>The events among the messages, and a live session with no replay in it.\<close>

fun event_of :: "view \<times> thread_msg \<Rightarrow> (view \<times> num option \<times> chat_event) option" where
  "event_of (vw, Event_in ts e) = Some (vw, ts, e)"
| "event_of (vw, m) = None"

fun is_replay :: "view \<times> thread_msg \<Rightarrow> bool" where
  "is_replay (vw, Replay_in r h es i) = True"
| "is_replay (vw, m) = False"

definition live_thread :: "(view \<times> thread_msg) list \<Rightarrow> thread \<Rightarrow> thread" where
  "live_thread ms s = fold (\<lambda>(vw, m). thread_do vw m) ms s"

definition drawn_alone :: "(view \<times> num option \<times> chat_event) list \<Rightarrow> thread \<Rightarrow> thread" where
  "drawn_alone es s = fold (\<lambda>(vw, ts, e) t. fst (renderEvent vw ts e t)) es s"

lemma live_shows_events:
  assumes "shown s = shown t" and "thread_ok s" and "thread_ok t" and "\<not> list_ex is_replay ms"
  shows "shown (live_thread ms s) = shown (drawn_alone (List.map_filter event_of ms) t)"
  using assms
proof (induction ms arbitrary: s t)
  case Nil
  then show ?case by (simp add: live_thread_def drawn_alone_def)
next
  case (Cons x ms)
  obtain vw m where x: "x = (vw, m)" by (cases x)
  show ?case
  proof (cases "event_of x")
    case None
    then have "shown (thread_do vw m s) = shown s" using x Cons.prems(4) by (cases m) (auto simp: shown_delta)
    then have "shown (live_thread ms (thread_do vw m s)) = shown (drawn_alone (List.map_filter event_of ms) t)"
      using Cons.IH [of "thread_do vw m s" t] Cons.prems thread_ok_do by simp
    then show ?thesis using x None by (simp add: live_thread_def)
  next
    case (Some y)
    then obtain ts e where m: "m = Event_in ts e" using x by (cases m) auto
    have "shown (live_thread ms (thread_do vw m s))
        = shown (drawn_alone (List.map_filter event_of ms) (fst (renderEvent vw ts e t)))"
      using Cons.IH [of "thread_do vw m s" "fst (renderEvent vw ts e t)"] Cons.prems m
        shown_eq_event [OF Cons.prems(1-3), of vw ts e] thread_ok_event by simp
    then show ?thesis using x m by (simp add: live_thread_def drawn_alone_def)
  qed
qed

lemma shown_reset: "shown (resetThread vw s) = shown thread_new"
  by (rule shown_eqI) (simp_all add: resetThread_def thread_new_def)

lemma shown_replay:
  assumes "thread_ok s"
  shows "shown (on_replay vw True earlier es info s)
    = shown (drawn_alone (map (\<lambda>(q, ts, e). (vw, ts, e)) es) thread_new)"
proof -
  let ?s = "if earlier then showLoadEarlier (resetThread vw s) else resetThread vw s"
  have e: "shown ?s = shown thread_new" by (simp add: shown_reset)
  have k: "thread_ok ?s" by (simp add: thread_ok_reset thread_ok_rows)
  have "shown a = shown b \<Longrightarrow> thread_ok a \<Longrightarrow> thread_ok b \<Longrightarrow>
      shown (replay_events vw es a) = shown (drawn_alone (map (\<lambda>(q, ts, e). (vw, ts, e)) es) b)" for a b
  proof (induction es arbitrary: a b)
    case (Cons x es)
    then show ?case using shown_eq_event [OF Cons.prems] thread_ok_event
      by (cases x) (simp add: replay_events_def drawn_alone_def)
  qed (simp add: replay_events_def drawn_alone_def)
  from this [OF e k thread_new_ok]
  have "shown (replay_events vw es ?s) = shown (drawn_alone (map (\<lambda>(q, ts, e). (vw, ts, e)) es) thread_new)" .
  moreover have "shown (on_replay vw True earlier es info s) = shown (replay_events vw es ?s)"
    by (cases earlier; cases "es = []"; cases info) (auto simp: on_replay_def Let_def)
  ultimately show ?thesis by simp
qed

section \<open>Drawing in parts\<close>

text \<open>What is drawn of a preview: its settled part at some earlier moment.\<close>

fun drawn_ok :: "block \<Rightarrow> bool" where
  "drawn_ok (Preview raw live drawn sd rd) =
     ((drawn = None \<and> sd = []) \<or> (drawn = Some (length sd) \<and> prefix sd (fst (splitStreamingMarkdown raw))))"
| "drawn_ok b = True"

fun up_to_date :: "block \<Rightarrow> bool" where
  "up_to_date (Preview raw live drawn sd rd) = ((sd, rd) = splitStreamingMarkdown raw)"
| "up_to_date b = True"

lemma drawn_ok_grown: "drawn_ok b \<Longrightarrow> drawn_ok (grown t b)"
  using settled_stays by (cases b) (auto intro: prefix_order.trans)

lemma drawn_ok_painted: "drawn_ok b \<Longrightarrow> drawn_ok (painted b) \<and> up_to_date (painted b)"
proof (cases b)
  case (Preview raw live drawn sd rd)
  assume ok: "drawn_ok b"
  obtain st rest where sp: "splitStreamingMarkdown raw = (st, rest)" by (cases "splitStreamingMarkdown raw")
  have "sd = st" if "drawn = Some (length st)"
    using ok that sp Preview by (auto simp: prefix_def)
  then show ?thesis using sp Preview by auto
qed simp_all

lemma settled_painted: "up_to_date b \<Longrightarrow> drawn_ok b \<Longrightarrow> up_to_date (ended b) \<and> drawn_ok (ended b)"
  by (cases b) auto

text \<open>What an event leaves of the previews: some of them, as they were or ended; all or none.\<close>

definition block_set :: "thread \<Rightarrow> block set" where
  "block_set s = {b. \<exists>i. (i, b) \<in> set (th_blocks s)}"

definition keeps_previews :: "thread \<Rightarrow> thread \<Rightarrow> bool" where
  "keeps_previews s t =
     ((\<forall>b\<in>block_set t. is_preview b \<longrightarrow> b \<in> block_set s \<or> b \<in> ended ` block_set s)
      \<and> (th_frame t = th_frame s \<or> (\<forall>b\<in>block_set t. \<not> is_preview b)))"

lemma is_preview_ended [simp]: "is_preview (ended b) = is_preview b"
  by (cases b) simp_all

lemma ended_ended [simp]: "ended (ended b) = ended b"
  by (cases b) simp_all

lemma keeps_refl [simp]: "keeps_previews s s"
  by (simp add: keeps_previews_def)

lemma keeps_trans:
  assumes "keeps_previews s t" and "keeps_previews t u"
  shows "keeps_previews s u"
proof -
  have "b \<in> block_set s \<or> b \<in> ended ` block_set s" if "b \<in> block_set u" "is_preview b" for b
  proof -
    have "b \<in> block_set t \<or> b \<in> ended ` block_set t" using assms(2) that by (simp add: keeps_previews_def)
    then consider "b \<in> block_set t" | c where "c \<in> block_set t" "b = ended c" by blast
    then show ?thesis
    proof cases
      case 1
      then show ?thesis using assms(1) that(2) by (auto simp: keeps_previews_def)
    next
      case 2
      then have "c \<in> block_set s \<or> c \<in> ended ` block_set s"
        using assms(1) that(2) by (auto simp: keeps_previews_def)
      then show ?thesis using 2(2) by auto
    qed
  qed
  moreover have "th_frame u = th_frame s \<or> (\<forall>b\<in>block_set u. \<not> is_preview b)"
    using assms unfolding keeps_previews_def by fastforce
  ultimately show ?thesis by (simp add: keeps_previews_def)
qed

lemma keeps_previewsI:
  assumes "\<And>b. b \<in> block_set t \<Longrightarrow> is_preview b \<Longrightarrow> b \<in> block_set s \<or> b \<in> ended ` block_set s"
    and "th_frame t = th_frame s"
  shows "keeps_previews s t"
  using assms by (auto simp: keeps_previews_def)

lemma keeps_append: "\<not> is_preview b \<Longrightarrow> keeps_previews s (append_block b s)"
  by (rule keeps_previewsI) (auto simp: append_block_def block_set_def)

lemma keeps_drop: "keeps_previews s (drop_blocks p s)"
  by (rule keeps_previewsI) (auto simp: drop_blocks_def block_set_def image_iff split: prod.splits)

lemma keeps_end: "keeps_previews s (endStreaming s)"
proof -
  have "keeps_previews s (on_preview n ended (s \<lparr>th_streaming := None\<rparr>))" for n
    by (rule keeps_previewsI) (auto simp: on_preview_def block_set_def image_iff split: if_splits)
  then show ?thesis by (simp add: endStreaming_def split: option.split)
qed

lemma keeps_setRunning: "keeps_previews s (setRunning vw r d t s)"
  by (rule keeps_previewsI)
    (auto simp: setRunning_def Let_def drop_blocks_def block_set_def image_iff split: if_splits prod.splits)

lemma keeps_last: "keeps_previews s (keepWorkingLast s)"
  by (rule keeps_previewsI) (auto simp: keepWorkingLast_def block_set_def image_iff)

lemma keeps_same:
  assumes "block_set t = block_set s" and "th_frame t = th_frame s"
  shows "keeps_previews s t"
  by (rule keeps_previewsI) (use assms in auto)

lemma keeps_ring: "keeps_previews s (updateRing a b s)"
  by (rule keeps_same) (auto simp: updateRing_def Let_def block_set_def split: option.split)

lemma keeps_mark: "keeps_previews s (snd (mark_of a s))"
  by (rule keeps_same) (auto simp: mark_of_def agentTint_def block_set_def split: option.split)

lemma no_previews:
  assumes "thread_ok s" and "th_previews s = []"
  shows "\<forall>b\<in>block_set s. \<not> is_preview b"
proof -
  have "\<not> is_preview b" if i: "(i, b) \<in> set (th_blocks s)" for i b
  proof
    assume p: "is_preview b"
    have "kind_ok i b" using i assms(1) by (auto simp: thread_ok_def ids_ok_def)
    then obtain n where "i = Of_preview n" using p by (cases i; cases b) auto
    then have "n \<in> preview_ids (th_blocks s)" using i p by (auto simp: preview_ids_def)
    then show False using assms by (simp add: thread_ok_def previews_ok_def)
  qed
  then show ?thesis by (auto simp: block_set_def)
qed

lemma keeps_none: "thread_ok t \<Longrightarrow> th_previews t = [] \<Longrightarrow> keeps_previews s t"
  using no_previews by (simp add: keeps_previews_def)

lemma keeps_result: "keeps_previews s (renderToolResult tid summ err s)"
proof -
  have w: "is_preview (with_result e x b) = is_preview b" "is_preview b \<Longrightarrow> with_result e x b = b" for e x b by (cases b; simp)+
  have "keeps_previews s (on_event_block n (with_result e x) s)" for n e x
    by (rule keeps_previewsI) (auto simp: on_event_block_def block_set_def image_iff w split: if_splits)
  then show ?thesis by (simp add: renderToolResult_def keeps_append split: option.split)
qed

lemma answer_first_in: "(i, b) \<in> set (answer_first r note bs) \<Longrightarrow> is_preview b \<Longrightarrow> (i, b) \<in> set bs"
proof (induction bs)
  case (Cons x bs)
  obtain j c where "x = (j, c)" by (cases x)
  then show ?case using Cons by (cases c) (auto split: if_splits)
qed simp

lemma keeps_tool_use: "keeps_previews s (fst (renderToolUse tid name inp a s))"
proof -
  have e: "keeps_previews s (endStreaming s)" by (rule keeps_end)
  obtain m s1 where m: "mark_of a (endStreaming s) = (m, s1)" by (cases "mark_of a (endStreaming s)")
  have k: "keeps_previews s s1" using keeps_trans [OF e keeps_mark [of "endStreaming s" a]] m by simp
  have "keeps_previews s (append_block (Tool_card n d r c m) s1)" for n d r c
    by (rule keeps_trans [OF k keeps_append]) simp
  moreover from this have "keeps_previews s ((append_block (Tool_card n d r c m) s1) \<lparr>th_cards := x\<rparr>)" for n d r c x
    by (rule keeps_trans [OF _ keeps_same]) (simp_all add: block_set_def)
  moreover have "keeps_previews s (append_block (Todo_card x) (endStreaming s))" for x
    by (rule keeps_trans [OF e keeps_append]) simp
  ultimately show ?thesis using e k
    by (simp add: renderToolUse_def renderTodoCard_def Let_def m split: option.split)
qed

lemma keeps_fields [simp]:
  "keeps_previews s (t \<lparr>th_images := a\<rparr>) = keeps_previews s t" "keeps_previews s (t \<lparr>th_waiting := b\<rparr>) = keeps_previews s t"
  "keeps_previews s (t \<lparr>th_first := c\<rparr>) = keeps_previews s t"
  by (simp_all add: keeps_previews_def block_set_def)

lemma settled_fields [simp]: "th_previews (settlePreviews s) = []"
  by (simp add: settlePreviews_def)

lemma keeps_pin: "keeps_previews s t \<Longrightarrow> keeps_previews s (pinWaiting r l n t)"
  by (simp add: pinWaiting_def)

lemma keeps_body:
  assumes ok: "thread_ok s"
  shows "keeps_previews s (fst (renderBody vw ts ev s))"
proof (cases ev)
  case (User_message x refs cid)
  have "keeps_previews s ((endStreaming s) \<lparr>th_images := n\<rparr>)" for n by (simp add: keeps_end)
  from keeps_trans [OF this keeps_append] User_message show ?thesis by simp
next
  case (Assistant_text x a)
  have "keeps_previews s (dropPreviews s)" using thread_ok_dropPreviews [OF ok] by (rule keeps_none) simp
  from keeps_trans [OF keeps_trans [OF this keeps_mark] keeps_append] Assistant_text
  show ?thesis by (simp add: case_prod_beta)
next
  case (Permission_request r name inp)
  have "keeps_previews s (append_block (Ask_card r l [row] qs d nt) (endStreaming s))" for l row qs d nt
    by (rule keeps_trans [OF keeps_end keeps_append]) simp
  then show ?thesis using Permission_request keeps_end keeps_pin by (simp add: Let_def split: option.split)
next
  case (Question_request r qs)
  have "keeps_previews s (append_block (Ask_card r l [] qs d nt) (endStreaming s))" for l d nt
    by (rule keeps_trans [OF keeps_end keeps_append]) simp
  then show ?thesis using Question_request keeps_end keeps_pin by (simp add: Let_def)
next
  case (Permission_resolved r allowed answers)
  show ?thesis
    using Permission_resolved by (intro keeps_previewsI) (auto simp: block_set_def unpinWaiting_def dest: answer_first_in)
next
  case (Status_event st detail act acct)
  have "keeps_previews s (settlePreviews s)" using thread_ok_settlePreviews [OF ok] by (rule keeps_none) simp
  note k = keeps_trans [OF this keeps_setRunning]
  from keeps_trans [OF k keeps_append] k keeps_setRunning Status_event show ?thesis by (simp add: Let_def)
next
  case (Result_event summ cost dur ctx win turn)
  have "keeps_previews s (settlePreviews s)" using thread_ok_settlePreviews [OF ok] by (rule keeps_none) simp
  from keeps_trans [OF keeps_trans [OF keeps_trans [OF this keeps_append] keeps_ring] keeps_setRunning] Result_event
  show ?thesis by simp
qed (use keeps_tool_use keeps_result in simp_all)

lemma keeps_event:
  assumes "thread_ok s"
  shows "keeps_previews s (fst (renderEvent vw ts ev s))"
proof -
  have c: "keeps_previews s (clearEmptyState s)" unfolding clearEmptyState_def by (rule keeps_drop)
  note b = keeps_trans [OF c keeps_body [OF thread_ok_rows(1) [OF assms]]]
  show ?thesis using b keeps_trans [OF b keeps_last] by (simp add: renderEvent_def case_prod_beta)
qed

text \<open>Every preview is drawn rightly as far as it is drawn, and wholly when no frame is due.\<close>

definition drawn_inv :: "thread \<Rightarrow> bool" where
  "drawn_inv s = (\<forall>b\<in>block_set s. drawn_ok b \<and> (\<not> th_frame s \<longrightarrow> up_to_date b))"

lemma not_preview_drawn: "\<not> is_preview b \<Longrightarrow> drawn_ok b \<and> up_to_date b"
  by (cases b) simp_all

lemma ended_drawn: "drawn_ok (ended b) = drawn_ok b" "up_to_date (ended b) = up_to_date b"
  by (cases b; simp)+

lemma drawn_keeps:
  assumes "drawn_inv s" and "keeps_previews s t"
  shows "drawn_inv t"
  unfolding drawn_inv_def
proof
  fix b
  assume b: "b \<in> block_set t"
  show "drawn_ok b \<and> (\<not> th_frame t \<longrightarrow> up_to_date b)"
  proof (cases "is_preview b")
    case True
    then have "b \<in> block_set s \<or> b \<in> ended ` block_set s" and f: "th_frame t = th_frame s"
      using assms(2) b by (auto simp: keeps_previews_def)
    then show ?thesis using assms(1) ended_drawn by (auto simp: drawn_inv_def)
  qed (simp add: not_preview_drawn)
qed

lemma drawn_fields [simp]:
  "drawn_inv (t \<lparr>th_images := a\<rparr>) = drawn_inv t" "drawn_inv (t \<lparr>th_first := c\<rparr>) = drawn_inv t"
  by (simp_all add: drawn_inv_def block_set_def)

lemma drawn_replay:
  assumes "drawn_inv s" and "thread_ok s"
  shows "drawn_inv (on_replay vw reset earlier es info s)"
proof -
  have ev: "drawn_inv u \<Longrightarrow> thread_ok u \<Longrightarrow> drawn_inv (replay_events vw es u)" for u es
    by (induction es arbitrary: u) (auto simp: replay_events_def drawn_keeps keeps_event thread_ok_event split: prod.split)
  have r: "drawn_inv (resetThread vw s)"
    by (rule drawn_keeps [OF assms(1) keeps_none]) (simp_all add: thread_ok_reset, simp add: resetThread_def)
  have l: "keeps_previews u (showLoadEarlier u)" for u
    by (rule keeps_previewsI) (auto simp: showLoadEarlier_def block_set_def)
  have e: "keeps_previews u (renderEmptyState u)" for u
    by (rule keeps_previewsI) (auto simp: renderEmptyState_def block_set_def split: if_splits)
  show ?thesis
    unfolding on_replay_def Let_def
    by (auto intro!: drawn_keeps [OF _ e] drawn_keeps [OF _ keeps_setRunning] ev drawn_keeps [OF _ l] r assms
        thread_ok_rows thread_ok_reset split: option.split simp: drawn_keeps)
qed

lemma drawn_grown:
  assumes "drawn_inv s"
  shows "drawn_inv (on_preview n (grown t) (s \<lparr>th_frame := True\<rparr>))"
  using assms drawn_ok_grown
  by (auto simp: drawn_inv_def block_set_def on_preview_def split: if_splits prod.splits)

lemma drawn_delta:
  assumes "drawn_inv s"
  shows "drawn_inv (on_delta vw text s)"
proof -
  have "drawn_inv (s \<lparr>th_blocks := th_blocks s @ [(i, Preview [] True None [] [])], th_streaming := x, th_previews := y,
      th_fresh := z\<rparr>)" for i x y z
    using assms by (auto simp: drawn_inv_def block_set_def splitStreamingMarkdown_def)
  then show ?thesis using assms unfolding on_delta_def Let_def
    by (auto intro!: drawn_grown drawn_keeps [OF _ keeps_setRunning] split: option.split)
qed

lemma painted_all:
  "(\<forall>(i, b)\<in>set (th_blocks s). drawn_ok b \<and> (i \<in> A \<longrightarrow> up_to_date b)) \<Longrightarrow>
   \<forall>(i, b)\<in>set (th_blocks (fold (\<lambda>n. on_preview n painted) ns s)).
     drawn_ok b \<and> (i \<in> A \<union> Of_preview ` set ns \<longrightarrow> up_to_date b)"
proof (induction ns arbitrary: s A)
  case (Cons n ns)
  have "\<forall>(i, b)\<in>set (th_blocks (on_preview n painted s)). drawn_ok b \<and> (i \<in> insert (Of_preview n) A \<longrightarrow> up_to_date b)"
    using Cons.prems drawn_ok_painted by (auto simp: on_preview_def split: if_splits prod.splits)
  from Cons.IH [OF this] show ?case by simp
qed simp

lemma drawn_painted:
  assumes "drawn_inv s" and ok: "thread_ok s"
  shows "\<forall>b\<in>block_set (renderPreviews s). drawn_ok b \<and> up_to_date b"
proof
  fix b
  assume "b \<in> block_set (renderPreviews s)"
  then obtain i where i: "(i, b) \<in> set (th_blocks (renderPreviews s))" by (auto simp: block_set_def)
  show "drawn_ok b \<and> up_to_date b"
  proof (cases "is_preview b")
    case True
    have k: "thread_ok (renderPreviews s)" using ok by (rule thread_ok_renderPreviews)
    have pv: "th_previews (renderPreviews s) = th_previews s"
    proof -
      have "th_previews (fold (\<lambda>n. on_preview n painted) ns t) = th_previews t" for ns t
        by (induction ns arbitrary: t) (simp_all add: on_preview_def)
      then show ?thesis by (simp add: renderPreviews_def keepWorkingLast_def)
    qed
    have "kind_ok i b" using k i by (auto simp: thread_ok_def ids_ok_def)
    then obtain n where n: "i = Of_preview n" using True by (cases i; cases b) auto
    then have "n \<in> preview_ids (th_blocks (renderPreviews s))" using i True by (auto simp: preview_ids_def)
    then have "n \<in> set (th_previews s)" using k pv by (simp add: thread_ok_def previews_ok_def)
    moreover have "\<forall>(i, b)\<in>set (th_blocks (fold (\<lambda>n. on_preview n painted) (th_previews s) (s \<lparr>th_frame := False\<rparr>))).
        drawn_ok b \<and> (i \<in> {} \<union> Of_preview ` set (th_previews s) \<longrightarrow> up_to_date b)"
      by (rule painted_all) (use assms(1) in \<open>auto simp: drawn_inv_def block_set_def\<close>)
    moreover have "(i, b) \<in> set (th_blocks (fold (\<lambda>n. on_preview n painted) (th_previews s) (s \<lparr>th_frame := False\<rparr>)))"
      using i by (auto simp: renderPreviews_def keepWorkingLast_def)
    ultimately show ?thesis using n by auto
  qed (simp add: not_preview_drawn)
qed

lemma drawn_do:
  assumes "drawn_inv s" and "thread_ok s"
  shows "drawn_inv (thread_do vw m s)"
proof (cases m)
  case (Event_in ts e)
  then show ?thesis using drawn_keeps [OF assms(1) keeps_event [OF assms(2)]] by simp
next
  case Frame_due
  then show ?thesis using drawn_painted [OF assms] assms(1) by (simp add: drawn_inv_def)
next
  case Sent_here
  then show ?thesis using drawn_keeps [OF assms(1) keeps_setRunning] by simp
qed (use assms drawn_replay drawn_delta in simp_all)

lemma thread_run_drawn: "thread_run s \<Longrightarrow> drawn_inv s"
proof (induction rule: thread_run.induct)
  case start
  show ?case by (simp add: drawn_inv_def block_set_def thread_new_def)
next
  case (step s vw m)
  then show ?case by (intro drawn_do thread_run_ok)
qed

end
