(* ===== verification/ChatViews.thy ===== *)
theory ChatViews
  imports ChatThread Git
begin

text \<open>
  The rest of the webview that decides something (\<open>chat.js\<close>): the question card and its answers, the
  sign-in card, the composer and its keys, the model menu, the lists behind the chips, the sticky
  prompt, the connection's health, and times and sizes in words. Rows and marks stand for elements;
  \<open>posted_msg\<close> is what is sent to the extension. The lemmas: an answer posted from a question card
  names every question; the chosen model is always listed and ticked; silence is shown.
\<close>

section \<open>Words\<close>

definition clip :: "string \<Rightarrow> nat \<Rightarrow> string" where
  "clip t n = (if n < length t then take n t @ ellipsis else t)"

definition plural :: "nat \<Rightarrow> string \<Rightarrow> string" where
  "plural n w = show_nat n @ '' '' @ w @ (if n = 1 then [] else ''s'')"

definition elapsedSince :: "num \<Rightarrow> num \<Rightarrow> string" where
  "elapsedSince now startedAt =
     (let secs = js_round ((now - startedAt) / 1000); mins = secs div 60 in
      if secs < 60 then show_nat secs @ ''s''
      else if mins < 60 then show_nat mins @ ''m '' @ show_nat (secs mod 60) @ ''s''
      else show_nat (mins div 60) @ ''h '' @ show_nat (mins mod 60) @ ''m'')"

definition paintElapsed :: "view \<Rightarrow> num option \<Rightarrow> string option" where
  "paintElapsed vw since =
     map_option (\<lambda>t. let started = vw_clock vw t; e = elapsedSince (vw_now vw) t in
                  if started \<noteq> [] then started @ '' '' @ middot @ '' '' @ e else e) since"

text \<open>\<open>fixed\<close> is \<open>toFixed(1)\<close>.\<close>

fun size_in :: "(num \<Rightarrow> string) \<Rightarrow> string list \<Rightarrow> num \<Rightarrow> bool \<Rightarrow> string" where
  "size_in fixed [] n whole = []"
| "size_in fixed [u] n whole = (if whole then show_num n else fixed n) @ '' '' @ u"
| "size_in fixed (u # v # us) n whole =
     (if 1024 \<le> n then size_in fixed (v # us) (n / 1024) False
      else (if whole then show_num n else fixed n) @ '' '' @ u)"

definition fileSize :: "(num \<Rightarrow> string) \<Rightarrow> num \<Rightarrow> string" where
  "fileSize fixed n = size_in fixed [''B'', ''KB'', ''MB'', ''GB''] n True"

section \<open>The question card\<close>

record question =
  qu_text :: string
  qu_multi :: bool
  qu_options :: "string list"

datatype q_mark = Option_mark nat | Other_mark

text \<open>
  What the card remembers: the answers, the picks of the questions that take several, the marked
  buttons of each block, whether the button is disabled, and the answers posted. Questions are keys of
  \<open>answers\<close> and \<open>picked\<close> by their text.
\<close>

record q_card =
  qc_answers :: "(string \<times> string) list"
  qc_picked :: "(string \<times> string list) list"
  qc_marks :: "nat \<Rightarrow> q_mark list"
  qc_disabled :: bool
  qc_posts :: "(string \<times> string) list list"

definition q_card_new :: q_card where
  "q_card_new = \<lparr>qc_answers = [], qc_picked = [], qc_marks = (\<lambda>k. []), qc_disabled = True, qc_posts = []\<rparr>"

definition picks :: "q_card \<Rightarrow> question \<Rightarrow> string list" where
  "picks c q = (case map_of (qc_picked c) (qu_text q) of Some ps \<Rightarrow> ps | None \<Rightarrow> [])"

definition is_answered :: "q_card \<Rightarrow> question \<Rightarrow> bool" where
  "is_answered c q =
     (if qu_multi q then picks c q \<noteq> []
      else case map_of (qc_answers c) (qu_text q) of Some t \<Rightarrow> t \<noteq> [] | None \<Rightarrow> False)"

definition answers_of :: "question list \<Rightarrow> q_card \<Rightarrow> (string \<times> string) list" where
  "answers_of qs c =
     fold (\<lambda>q as. if qu_multi q then AList.update (qu_text q) (join '', '' (picks c q)) as else as) qs (qc_answers c)"

definition send_answers :: "question list \<Rightarrow> q_card \<Rightarrow> q_card" where
  "send_answers qs c = c \<lparr>qc_answers := answers_of qs c, qc_posts := qc_posts c @ [answers_of qs c], qc_disabled := True\<rparr>"

definition one_choice :: "question list \<Rightarrow> bool" where
  "one_choice qs = (case qs of [q] \<Rightarrow> \<not> qu_multi q | _ \<Rightarrow> False)"

definition refresh_card :: "question list \<Rightarrow> q_card \<Rightarrow> q_card" where
  "refresh_card qs c =
     (let c1 = c \<lparr>qc_disabled := \<not> list_all (is_answered c) qs\<rparr> in
      if \<not> qc_disabled c1 \<and> one_choice qs then send_answers qs c1 else c1)"

text \<open>A click on option \<open>j\<close> of question \<open>k\<close>; a set keeps the order of its elements.\<close>

definition option_click :: "question list \<Rightarrow> nat \<Rightarrow> nat \<Rightarrow> q_card \<Rightarrow> q_card" where
  "option_click qs k j c =
     (if k < length qs \<and> j < length (qu_options (qs ! k))
      then let q = qs ! k; l = qu_options q ! j; ps = picks c q; ms = qc_marks c k in
        refresh_card qs
          (if qu_multi q
           then c \<lparr>qc_picked := AList.update (qu_text q) (if l \<in> set ps then filter (\<lambda>x. x \<noteq> l) ps else ps @ [l]) (qc_picked c),
                   qc_marks := (qc_marks c)(k := (if l \<in> set ps then filter (\<lambda>m. m \<noteq> Option_mark j) ms
                                                   else List.insert (Option_mark j) ms))\<rparr>
           else c \<lparr>qc_answers := AList.update (qu_text q) l (qc_answers c), qc_marks := (qc_marks c)(k := [Option_mark j])\<rparr>)
      else c)"

text \<open>Enter in the box for another answer.\<close>

definition other_given :: "question list \<Rightarrow> nat \<Rightarrow> string \<Rightarrow> q_card \<Rightarrow> q_card" where
  "other_given qs k entry c =
     (if k < length qs \<and> trim entry \<noteq> []
      then let q = qs ! k; t = trim entry; c1 = c \<lparr>qc_marks := (qc_marks c)(k := [Other_mark])\<rparr> in
        refresh_card qs
          (if qu_multi q
           then c1 \<lparr>qc_picked := AList.update (qu_text q) (if t \<in> set (picks c q) then picks c q else picks c q @ [t]) (qc_picked c)\<rparr>
           else c1 \<lparr>qc_answers := AList.update (qu_text q) t (qc_answers c)\<rparr>)
      else c)"

definition submit_click :: "question list \<Rightarrow> q_card \<Rightarrow> q_card" where
  "submit_click qs c = (if qc_disabled c \<or> one_choice qs then c else send_answers qs c)"

datatype q_event = Option_event nat nat | Other_event nat string | Submit_event

fun q_do :: "question list \<Rightarrow> q_event \<Rightarrow> q_card \<Rightarrow> q_card" where
  "q_do qs (Option_event k j) c = option_click qs k j c"
| "q_do qs (Other_event k t) c = other_given qs k t c"
| "q_do qs Submit_event c = submit_click qs c"

text \<open>Whatever is posted names every question.\<close>

definition names_all :: "question list \<Rightarrow> (string \<times> string) list \<Rightarrow> bool" where
  "names_all qs as = list_all (\<lambda>q. map_of as (qu_text q) \<noteq> None) qs"

lemma answers_kept:
  "map_of as t \<noteq> None \<Longrightarrow>
   map_of (fold (\<lambda>q as. if qu_multi q then AList.update (qu_text q) (f q) as else as) qs as) t \<noteq> None"
  by (induction qs arbitrary: as) (auto simp: update_conv')

lemma answers_name_all:
  assumes "list_all (is_answered c) qs"
  shows "names_all qs (answers_of qs c)"
proof -
  have all: "list_all (\<lambda>q. qu_multi q \<or> map_of as (qu_text q) \<noteq> None) qs \<Longrightarrow>
      list_all (\<lambda>q. map_of (fold (\<lambda>q as. if qu_multi q then AList.update (qu_text q) (f q) as else as) qs as) (qu_text q) \<noteq> None) qs"
    for as f
  proof (induction qs arbitrary: as)
    case (Cons q qs)
    let ?as = "if qu_multi q then AList.update (qu_text q) (f q) as else as"
    have "list_all (\<lambda>q. qu_multi q \<or> map_of ?as (qu_text q) \<noteq> None) qs"
      using Cons.prems by (auto simp: list_all_iff update_conv')
    moreover have "map_of ?as (qu_text q) \<noteq> None" using Cons.prems by (auto simp: update_conv')
    ultimately show ?case using Cons.IH [of ?as] answers_kept [of ?as "qu_text q" f qs] by simp
  qed simp
  have "list_all (\<lambda>q. qu_multi q \<or> map_of (qc_answers c) (qu_text q) \<noteq> None) qs"
    using assms by (auto simp: list_all_iff is_answered_def split: if_splits option.splits)
  then show ?thesis unfolding names_all_def answers_of_def by (rule all)
qed

definition card_ok :: "question list \<Rightarrow> q_card \<Rightarrow> bool" where
  "card_ok qs c = ((\<not> qc_disabled c \<longrightarrow> list_all (is_answered c) qs) \<and> list_all (names_all qs) (qc_posts c))"

lemma card_ok_send: "card_ok qs c \<Longrightarrow> list_all (is_answered c) qs \<Longrightarrow> card_ok qs (send_answers qs c)"
  using answers_name_all by (simp add: card_ok_def send_answers_def)

lemma card_ok_refresh: "list_all (names_all qs) (qc_posts c) \<Longrightarrow> card_ok qs (refresh_card qs c)"
proof -
  assume p: "list_all (names_all qs) (qc_posts c)"
  have a: "is_answered (c \<lparr>qc_disabled := d\<rparr>) = is_answered c" for d
    by (rule ext) (simp add: is_answered_def picks_def)
  have "card_ok qs (c \<lparr>qc_disabled := \<not> list_all (is_answered c) qs\<rparr>)" using p by (simp add: card_ok_def a)
  then show ?thesis using card_ok_send [of qs "c \<lparr>qc_disabled := False\<rparr>"] by (auto simp: refresh_card_def Let_def a)
qed

lemma card_ok_do: "card_ok qs c \<Longrightarrow> card_ok qs (q_do qs e c)"
proof (cases e)
  case (Option_event k j)
  assume "card_ok qs c"
  then show ?thesis using Option_event
    by (auto simp: option_click_def Let_def card_ok_def [of qs c] intro!: card_ok_refresh)
next
  case (Other_event k t)
  assume "card_ok qs c"
  then show ?thesis using Other_event
    by (auto simp: other_given_def Let_def card_ok_def [of qs c] intro!: card_ok_refresh)
next
  case Submit_event
  assume "card_ok qs c"
  then show ?thesis using Submit_event card_ok_send by (simp add: submit_click_def card_ok_def [of qs c])
qed

lemma card_posts_complete: "list_all (names_all qs) (qc_posts (fold (q_do qs) es q_card_new))"
proof -
  have "card_ok qs c \<Longrightarrow> card_ok qs (fold (q_do qs) es c)" for c
    by (induction es arbitrary: c) (simp_all add: card_ok_do)
  moreover have "card_ok qs q_card_new" by (simp add: card_ok_def q_card_new_def)
  ultimately show ?thesis by (simp add: card_ok_def)
qed

text \<open>
  Where several answers may be given, an answer of one's own takes the marks off the options and not
  the picks: what is posted names an option no longer marked.
\<close>

lemma unmarked_pick_posted:
  "let qs = [\<lparr>qu_text = ''Which?'', qu_multi = True, qu_options = [''A'', ''B'']\<rparr>];
       c = fold (q_do qs) [Option_event 0 0, Other_event 0 ''C'', Submit_event] q_card_new
   in qc_marks c 0 = [Other_mark] \<and> qc_posts c = [[(''Which?'', ''A, C'')]]"
  by code_simp

section \<open>The sign-in card\<close>

text \<open>
  The card shown: for which sign-in, whether its fields are disabled, what its status says, and whether
  it says that the sign-in is done. \<open>lv_timers\<close> are the pending calls of \<open>dismissLoginPrompt\<close>.
\<close>

record login_card =
  ca_login :: string
  ca_busy :: bool
  ca_status :: string
  ca_done :: bool

record login_view =
  lv_card :: "login_card option"
  lv_timers :: nat
  lv_codes :: "(string \<times> string) list"
  lv_cancelled :: "string list"

definition login_view_new :: login_view where
  "login_view_new = \<lparr>lv_card = None, lv_timers = 0, lv_codes = [], lv_cancelled = []\<rparr>"

definition dismissLoginPrompt :: "login_view \<Rightarrow> login_view" where
  "dismissLoginPrompt v = v \<lparr>lv_card := None\<rparr>"

definition showLoginPrompt :: "string \<Rightarrow> login_view \<Rightarrow> login_view" where
  "showLoginPrompt i v = (dismissLoginPrompt v) \<lparr>lv_card := Some \<lparr>ca_login = i, ca_busy = False, ca_status = [], ca_done = False\<rparr>\<rparr>"

text \<open>The button or Enter; a disabled field takes neither, and a card that is done has no fields.\<close>

definition submit_code :: "string \<Rightarrow> login_view \<Rightarrow> login_view" where
  "submit_code entry v =
     (case lv_card v of
        None \<Rightarrow> v
      | Some c \<Rightarrow>
          if ca_busy c \<or> ca_done c then v
          else if trim entry = [] then v \<lparr>lv_card := Some (c \<lparr>ca_status := ''Enter the code first.''\<rparr>)\<rparr>
          else v \<lparr>lv_card := Some (c \<lparr>ca_busy := True, ca_status := ''Signing in'' @ ellipsis\<rparr>),
                  lv_codes := lv_codes v @ [(ca_login c, trim entry)]\<rparr>)"

definition cancel_click :: "login_view \<Rightarrow> login_view" where
  "cancel_click v =
     (case lv_card v of
        None \<Rightarrow> v
      | Some c \<Rightarrow> if ca_done c then v
                  else dismissLoginPrompt (v \<lparr>lv_cancelled := lv_cancelled v @ [ca_login c]\<rparr>))"

text \<open>A result names no sign-in: it is taken for the card there is.\<close>

definition showLoginResult :: "bool \<Rightarrow> string option \<Rightarrow> login_view \<Rightarrow> login_view" where
  "showLoginResult ok err v =
     (case lv_card v of
        None \<Rightarrow> v
      | Some c \<Rightarrow>
          if ok then v \<lparr>lv_card := Some (c \<lparr>ca_done := True\<rparr>), lv_timers := Suc (lv_timers v)\<rparr>
          else v \<lparr>lv_card := Some (c \<lparr>ca_busy := False,
                   ca_status := (case err of Some t \<Rightarrow> if t = [] then ''Sign-in did not complete.'' else t
                                 | None \<Rightarrow> ''Sign-in did not complete.'')\<rparr>)\<rparr>)"

definition dismiss_due :: "login_view \<Rightarrow> login_view" where
  "dismiss_due v = (if lv_timers v = 0 then v else dismissLoginPrompt (v \<lparr>lv_timers := lv_timers v - 1\<rparr>))"

text \<open>The card of a sign-in begun soon after another ended is taken away by the other's timer.\<close>

lemma next_card_dismissed:
  assumes "lv_card v = Some c"
  shows "lv_card (dismiss_due (showLoginPrompt i (showLoginResult True None v))) = None"
  using assms by (simp add: dismiss_due_def showLoginPrompt_def showLoginResult_def dismissLoginPrompt_def)

section \<open>The composer\<close>

text \<open>\<open>send\<close>: what is posted; the row of the running turn is \<^const>\<open>Sent_here\<close>.\<close>

definition send_typed :: "string \<Rightarrow> string option \<times> string" where
  "send_typed box = (if trim box = [] then (None, box) else (Some (trim box), []))"

datatype key_effect = Leaves_key | New_line | Sends

record key_press =
  kp_enter :: bool
  kp_composing :: bool
  kp_meta :: bool
  kp_shift :: bool

definition on_keydown :: "bool \<Rightarrow> key_press \<Rightarrow> key_effect" where
  "on_keydown touchKeyboard k =
     (if \<not> kp_enter k then Leaves_key
      else if kp_composing k then Leaves_key
      else if kp_meta k then Sends
      else if kp_shift k \<or> touchKeyboard then New_line
      else Sends)"

text \<open>\<open>prepareFile\<close>: whether a picture is made smaller, and the size it gets.\<close>

definition MANY_IMAGES :: nat where "MANY_IMAGES = 20"
definition MAX_IMAGE_EDGE :: nat where "MAX_IMAGE_EDGE = 2000"

definition scalable :: "string \<Rightarrow> bool" where
  "scalable mime = (to_lower mime \<in> set [''image/png'', ''image/jpg'', ''image/jpeg'', ''image/webp''])"

definition prepareFile :: "nat \<Rightarrow> nat \<Rightarrow> string \<Rightarrow> (nat \<times> nat) option \<Rightarrow> (nat \<times> nat) option" where
  "prepareFile conversationImages pendingImages mime dims =
     (if \<not> scalable mime then None
      else if conversationImages + pendingImages \<le> MANY_IMAGES then None
      else case dims of
        None \<Rightarrow> None
      | Some (w, h) \<Rightarrow>
          if max w h \<le> MAX_IMAGE_EDGE then None
          else let ratio = of_nat MAX_IMAGE_EDGE / of_nat (max w h) :: num in
            Some (js_round (of_nat w * ratio), js_round (of_nat h * ratio)))"

definition sendFiles :: "nat \<Rightarrow> (string \<times> (nat \<times> nat) option) list \<Rightarrow> (nat \<times> nat) option list" where
  "sendFiles conversationImages fs =
     (let n = length (filter (\<lambda>(m, d). starts_with (to_lower m) ''image/'') fs) in
      map (\<lambda>(m, d). prepareFile conversationImages n m d) fs)"

lemma scaled_edge:
  assumes "prepareFile c p m (Some (w, h)) = Some (w', h')"
  shows "max w' h' = MAX_IMAGE_EDGE"
proof -
  have big: "MAX_IMAGE_EDGE < max w h"
    and e: "w' = js_round (of_nat w * (of_nat MAX_IMAGE_EDGE / of_nat (max w h)))"
      "h' = js_round (of_nat h * (of_nat MAX_IMAGE_EDGE / of_nat (max w h)))"
    using assms by (auto simp: prepareFile_def Let_def split: if_splits)
  have r: "js_round (of_nat n) = n" for n
  proof -
    have "\<lfloor>(of_nat n :: num) + 1 / 2\<rfloor> = int n" by (rule floor_unique) auto
    then show ?thesis by (simp add: js_round_def)
  qed
  have mono: "x \<le> y \<Longrightarrow> js_round x \<le> js_round y" for x y
    by (simp add: js_round_def nat_mono floor_mono)
  have whole: "n = max w h \<Longrightarrow> of_nat n * (of_nat MAX_IMAGE_EDGE / of_nat (max w h)) = (of_nat MAX_IMAGE_EDGE :: num)" for n
    using big by (auto simp: max_def)
  have less: "n \<le> max w h \<Longrightarrow> of_nat n * (of_nat MAX_IMAGE_EDGE / of_nat (max w h)) \<le> (of_nat MAX_IMAGE_EDGE :: num)" for n
    using big by (auto simp: field_simps simp del: of_nat_max intro!: mult_left_mono)
  have "w' \<le> MAX_IMAGE_EDGE" "h' \<le> MAX_IMAGE_EDGE"
    using mono [OF less [of w]] mono [OF less [of h]] r [of MAX_IMAGE_EDGE] e by (simp_all del: of_nat_max)
  moreover have "w' = MAX_IMAGE_EDGE \<or> h' = MAX_IMAGE_EDGE"
    using whole [of w] whole [of h] r [of MAX_IMAGE_EDGE] e by (cases "w \<le> h") (simp_all add: max_def)
  ultimately show ?thesis by auto
qed

section \<open>The gesture\<close>

definition SWIPE_MIN_X :: num where "SWIPE_MIN_X = 60"
definition SWIPE_MAX_MS :: num where "SWIPE_MAX_MS = 600"

text \<open>Where and when the finger came down, if that may become a swipe.\<close>

definition touchstart :: "nat \<Rightarrow> bool \<Rightarrow> bool \<Rightarrow> num \<times> num \<Rightarrow> num \<Rightarrow> (num \<times> num \<times> num) option" where
  "touchstart fingers overlay scroller p now =
     (if fingers \<noteq> 1 \<or> overlay \<or> scroller then None else Some (fst p, snd p, now))"

text \<open>\<^term>\<open>Some True\<close> is the next tab, \<^term>\<open>Some False\<close> the previous.\<close>

definition touchend :: "(num \<times> num \<times> num) option \<Rightarrow> (num \<times> num) option \<Rightarrow> num \<Rightarrow> bool \<Rightarrow> bool option" where
  "touchend start p now selected =
     (case (start, p) of
        (Some (x, y, began), Some (x', y')) \<Rightarrow>
          (let dx = x' - x; dy = y' - y in
           if SWIPE_MAX_MS < now - began then None
           else if \<bar>dx\<bar> < SWIPE_MIN_X \<or> \<bar>dx\<bar> < \<bar>dy\<bar> * 2 then None
           else if selected then None
           else Some (dx < 0))
      | _ \<Rightarrow> None)"

section \<open>Models, efforts and accounts\<close>

record menu_model =
  mm_value :: string
  mm_resolved :: "string option"
  mm_name :: string
  mm_levels :: "string list"

record menu_account =
  ma_name :: string
  ma_dir :: "string option"
  ma_active :: bool
  ma_signedIn :: bool
  ma_expired :: bool

definition ALL_EFFORTS :: "string list" where
  "ALL_EFFORTS = [''low'', ''medium'', ''high'', ''xhigh'', ''max'']"

record chooser =
  ch_models :: "menu_model list"
  ch_current :: string
  ch_active :: string
  ch_effort :: string
  ch_accounts :: "menu_account list"
  ch_open :: bool

definition modelName :: "chooser \<Rightarrow> string \<Rightarrow> string" where
  "modelName c resolved =
     (case find (\<lambda>m. mm_resolved m = Some resolved \<or> mm_value m = resolved) (ch_models c) of
        Some m \<Rightarrow> if mm_name m = [] then resolved else mm_name m
      | None \<Rightarrow> resolved)"

definition modelLabel :: "chooser \<Rightarrow> string \<Rightarrow> string" where
  "modelLabel c v =
     (if v = [] then (if ch_active c = [] then ''default'' else modelName c (ch_active c))
      else case find (\<lambda>m. mm_value m = v) (ch_models c) of
        Some m \<Rightarrow> if mm_name m = [] then v else mm_name m
      | None \<Rightarrow> v)"

definition effortLevels :: "chooser \<Rightarrow> string list" where
  "effortLevels c =
     (case find (\<lambda>m. mm_value m = ch_current c) (ch_models c) of
        Some m \<Rightarrow> if mm_levels m = [] then ALL_EFFORTS else mm_levels m
      | None \<Rightarrow> ALL_EFFORTS)"

definition renderPill :: "chooser \<Rightarrow> string \<times> string option" where
  "renderPill c = (modelLabel c (ch_current c), if ch_effort c = [] then None else Some (ch_effort c))"

text \<open>The rows of the menu: value, label and whether it is ticked.\<close>

definition model_choices :: "chooser \<Rightarrow> (string \<times> string) list" where
  "model_choices c =
     (let ms = ([], if ch_active c \<noteq> [] \<and> ch_current c = [] then ''default ('' @ modelName c (ch_active c) @ '')'' else ''default'')
               # map (\<lambda>m. (mm_value m, if mm_name m = [] then mm_value m else mm_name m))
                   (filter (\<lambda>m. mm_value m \<noteq> ''default'') (ch_models c))
      in if ch_current c \<noteq> [] \<and> ch_current c \<notin> fst ` set ms then ms @ [(ch_current c, ch_current c)] else ms)"

definition effort_choices :: "chooser \<Rightarrow> (string \<times> string) list" where
  "effort_choices c =
     ([], ''default'')
     # map (\<lambda>l. (l, l))
         (if ch_effort c \<noteq> [] \<and> ch_effort c \<notin> set (effortLevels c) then effortLevels c @ [ch_effort c] else effortLevels c)"

definition account_label :: "menu_account \<Rightarrow> string" where
  "account_label a =
     (if \<not> ma_signedIn a then ma_name a @ '' '' @ [CHR 0x97] @ '' not signed in''
      else if ma_expired a then ma_name a @ '' '' @ [CHR 0x97] @ '' login expired''
      else ma_name a)"

definition renderModelMenu ::
    "chooser \<Rightarrow> (string \<times> bool) list \<times> (string \<times> bool) list \<times> (string \<times> bool) list \<times> string" where
  "renderModelMenu c =
     (map (\<lambda>(v, l). (l, v = ch_current c)) (model_choices c),
      map (\<lambda>(v, l). (l, v = ch_effort c)) (effort_choices c),
      map (\<lambda>a. (account_label a, ma_active a)) (ch_accounts c),
      if list_ex ma_signedIn (ch_accounts c) then ''Log in to another account'' @ ellipsis else ''Sign in to Claude'' @ ellipsis)"

datatype posted_msg = Set_model string | Set_effort string | Set_account "string option" | Add_account

text \<open>A click: what is posted, and for an account that cannot sign in, the notice that says so.\<close>

definition pick_model :: "string \<Rightarrow> chooser \<Rightarrow> posted_msg \<times> chooser" where
  "pick_model v c = (Set_model v, c \<lparr>ch_current := v\<rparr>)"

definition pick_effort :: "string \<Rightarrow> chooser \<Rightarrow> posted_msg \<times> chooser" where
  "pick_effort v c = (Set_effort v, c \<lparr>ch_effort := v, ch_open := False\<rparr>)"

definition pick_account :: "menu_account \<Rightarrow> chooser \<Rightarrow> posted_msg \<times> bool \<times> chooser" where
  "pick_account a c = (Set_account (ma_dir a), ma_expired a, c \<lparr>ch_open := False\<rparr>)"

definition pick_add :: "chooser \<Rightarrow> posted_msg \<times> chooser" where
  "pick_add c = (Add_account, c \<lparr>ch_open := False\<rparr>)"

text \<open>Whatever the lists, the row that is chosen is there; and only once if no model is listed twice.\<close>

lemma one_key: "distinct (map fst xs) \<Longrightarrow> x \<in> fst ` set xs \<Longrightarrow> length (filter (\<lambda>(v, l). v = x) xs) = 1"
proof (induction xs)
  case (Cons y xs)
  have "x \<notin> fst ` set xs \<Longrightarrow> filter (\<lambda>(v, l). v = x) xs = []" by (force simp: filter_empty_conv)
  then show ?case using Cons by (cases y) auto
qed simp

lemma distinct_filter_map: "distinct (map f xs) \<Longrightarrow> distinct (map f (filter P xs))"
  by (induction xs) auto

lemma chosen_model_listed:
  assumes "distinct (map mm_value (ch_models c))" and "[] \<notin> mm_value ` set (ch_models c)"
  shows "length (filter snd (fst (renderModelMenu c))) = 1"
proof -
  let ?ms = "map (\<lambda>m. (mm_value m, if mm_name m = [] then mm_value m else mm_name m))
      (filter (\<lambda>m. mm_value m \<noteq> ''default'') (ch_models c))"
  have d: "distinct (map fst (([], l) # ?ms))" for l :: string
    using assms distinct_filter_map [OF assms(1)] by (auto simp: comp_def)
  obtain l where m: "model_choices c
      = (if ch_current c \<noteq> [] \<and> ch_current c \<notin> fst ` set (([], l) # ?ms) then (([], l) # ?ms) @ [(ch_current c, ch_current c)]
         else ([], l) # ?ms)"
    by (simp add: model_choices_def Let_def)
  have new: "distinct (map fst xs) \<Longrightarrow> x \<notin> fst ` set xs \<Longrightarrow> distinct (map fst (xs @ [(x, x)]))"
    for x :: string and xs by auto
  have "distinct (map fst (model_choices c))"
    using d [of l] new [OF d [of l], of "ch_current c"] unfolding m by presburger
  moreover have "ch_current c \<in> fst ` set (model_choices c)" unfolding m by (auto simp: image_iff)
  ultimately have "length (filter (\<lambda>(v, l). v = ch_current c) (model_choices c)) = 1" by (rule one_key)
  then show ?thesis by (simp add: renderModelMenu_def filter_map comp_def case_prod_unfold)
qed

section \<open>The lists behind the chips\<close>

text \<open>The chip of the branch: hidden, or its text, whether it is a worktree, and its title.\<close>

definition renderBranch :: "string option \<Rightarrow> bool \<Rightarrow> string \<Rightarrow> work_place list \<Rightarrow> (bool \<times> string \<times> string) option" where
  "renderBranch name worktree dir places =
     (case name of
        None \<Rightarrow> None
      | Some n \<Rightarrow>
          if n = [] then None
          else Some (worktree, n,
            if 1 < length places then show_nat (length places) @ '' worktrees '' @ [CHR 0x97] @ '' tap to list them'' else dir))"

definition renderBranchMenu :: "work_place list \<Rightarrow> string \<times> (bool \<times> bool \<times> string \<times> string option) list" where
  "renderBranchMenu places =
     (if places = [] then ''Not in a repository''
      else if length places = 1 then ''Working in'' else ''Working in '' @ show_nat (length places) @ '' places'',
      map (\<lambda>p. (wp_current p, wp_worktree p, wp_name p,
             case wp_branch p of None \<Rightarrow> None | Some b \<Rightarrow> if b = [] \<or> b = wp_name p then None else Some b)) places)"

definition agents_title :: "active_agent list \<Rightarrow> string" where
  "agents_title as = plural (length as) ''subagent'' @ '' working''"

definition renderAgentsMenu :: "active_agent list \<Rightarrow> string \<times> (string \<times> string option) list" where
  "renderAgentsMenu as =
     (agents_title as,
      map (\<lambda>a. (aa_description a, case aa_taskId a of Some t \<Rightarrow> if t = [] then None else Some t | None \<Rightarrow> None)) as)"

record agents_chip =
  ac_agents :: "active_agent list"
  ac_hidden :: bool
  ac_count :: string
  ac_menu :: "(string \<times> (string \<times> string option) list) option"
  ac_open :: bool

definition showAgents :: "active_agent list \<Rightarrow> agents_chip \<Rightarrow> agents_chip" where
  "showAgents as c =
     (if as = [] then c \<lparr>ac_agents := [], ac_hidden := True, ac_menu := None, ac_open := False\<rparr>
      else c \<lparr>ac_agents := as, ac_hidden := False, ac_count := show_nat (length as),
             ac_menu := (if ac_open c then Some (renderAgentsMenu as) else ac_menu c)\<rparr>)"

definition agents_click :: "agents_chip \<Rightarrow> agents_chip" where
  "agents_click c =
     (if ac_open c then c \<lparr>ac_open := False\<rparr> else c \<lparr>ac_menu := Some (renderAgentsMenu (ac_agents c)), ac_open := True\<rparr>)"

text \<open>What is pinned above the composer: the oldest that waits, and how many more there are.\<close>

definition renderPinned :: "thread \<Rightarrow> (string \<times> nat) option" where
  "renderPinned s = (case th_waiting s of [] \<Rightarrow> None | (r, l, n) # ws \<Rightarrow> Some (l, length ws))"

lemma open_list_current:
  "ac_open c \<longrightarrow> ac_menu c = Some (renderAgentsMenu (ac_agents c)) \<Longrightarrow>
     c' = showAgents as c \<or> c' = agents_click c \<Longrightarrow> ac_open c' \<longrightarrow> ac_menu c' = Some (renderAgentsMenu (ac_agents c'))"
  by (auto simp: showAgents_def agents_click_def)

section \<open>The sticky prompt\<close>

definition PROMPT_BAR_MAX :: nat where "PROMPT_BAR_MAX = 160"
definition PROMPT_MENU_MAX :: nat where "PROMPT_MENU_MAX = 90"

text \<open>The prompts of the thread in order, and the last of those from the first on that lie above the edge.\<close>

definition prompts :: "thread \<Rightarrow> (nat \<times> string) list" where
  "prompts s = List.map_filter (\<lambda>(i, b). case (i, b) of (Of_event n, User_box t rs) \<Rightarrow> Some (n, t) | _ \<Rightarrow> None) (th_blocks s)"

definition updatePromptBar :: "(nat \<Rightarrow> num) \<Rightarrow> num \<Rightarrow> (nat \<times> string) list \<Rightarrow> (nat \<times> string) option" where
  "updatePromptBar pos edge ps =
     (case takeWhile (\<lambda>(n, t). pos n < edge + 1) ps of
        [] \<Rightarrow> None
      | qs \<Rightarrow> Some (fst (last qs), clip (snd (last qs)) PROMPT_BAR_MAX))"

definition renderPromptMenu :: "nat option \<Rightarrow> (nat \<times> string) list \<Rightarrow> string \<times> (bool \<times> string) list" where
  "renderPromptMenu active ps =
     (if ps = [] then ''No messages yet'' else plural (length ps) ''message'',
      map (\<lambda>(n, t). (active = Some n, clip t PROMPT_MENU_MAX)) (rev ps))"

section \<open>The connection\<close>

definition PING_MS :: num where "PING_MS = 3000"
definition STALE_MS :: num where "STALE_MS = 8000"

record link =
  lk_pongAt :: num
  lk_up :: bool
  lk_indicator :: bool
  lk_away :: bool
  lk_offline :: bool
  lk_veil :: bool
  lk_pings :: nat

definition link_new :: "num \<Rightarrow> link" where
  "link_new now =
     \<lparr>lk_pongAt = now, lk_up = True, lk_indicator = True, lk_away = False, lk_offline = False, lk_veil = False, lk_pings = 0\<rparr>"

definition trouble :: "num \<Rightarrow> link \<Rightarrow> bool" where
  "trouble now l = (\<not> lk_away l \<and> STALE_MS < now - lk_pongAt l \<or> lk_offline l \<or> \<not> lk_up l)"

definition paintConnection :: "num \<Rightarrow> link \<Rightarrow> link" where
  "paintConnection now l = l \<lparr>lk_veil := (lk_indicator l \<and> trouble now l)\<rparr>"

definition ping :: "num \<Rightarrow> link \<Rightarrow> link" where
  "ping now l = paintConnection now (l \<lparr>lk_pings := Suc (lk_pings l)\<rparr>)"

datatype link_event = Pong bool "bool option" | Indicator_set bool | Beat | Page_away bool | Goes_offline | Comes_online

fun link_do :: "num \<Rightarrow> link_event \<Rightarrow> link \<Rightarrow> link" where
  "link_do now (Pong up ind) l =
     paintConnection now (l \<lparr>lk_pongAt := now, lk_up := up, lk_indicator := (case ind of Some b \<Rightarrow> b | None \<Rightarrow> lk_indicator l)\<rparr>)"
| "link_do now (Indicator_set b) l = paintConnection now (l \<lparr>lk_indicator := b\<rparr>)"
| "link_do now Beat l = ping now l"
| "link_do now (Page_away b) l =
     (if b then paintConnection now (l \<lparr>lk_away := True\<rparr>) else ping now (l \<lparr>lk_away := False, lk_pongAt := now\<rparr>))"
| "link_do now Goes_offline l = paintConnection now (l \<lparr>lk_offline := True\<rparr>)"
| "link_do now Comes_online l = ping now (l \<lparr>lk_offline := False, lk_pongAt := now\<rparr>)"

text \<open>
  After every event the veil is right for its moment; and when a page in the foreground has heard
  nothing for longer than the limit, the next beat shows it.
\<close>

lemma veil_painted:
  "lk_veil (paintConnection now l) = (lk_indicator (paintConnection now l) \<and> trouble now (paintConnection now l))"
  by (simp add: paintConnection_def trouble_def)

lemma veil_step: "lk_veil (link_do now e l) = (lk_indicator (link_do now e l) \<and> trouble now (link_do now e l))"
  by (cases e) (simp_all only: link_do.simps ping_def veil_painted split: if_split, simp)

definition link_run :: "(num \<times> link_event) list \<Rightarrow> link \<Rightarrow> link" where
  "link_run es l = fold (\<lambda>(now, e). link_do now e) es l"

lemma veil_right: "lk_veil (link_run (es @ [(now, e)]) l)
    = (lk_indicator (link_run (es @ [(now, e)]) l) \<and> trouble now (link_run (es @ [(now, e)]) l))"
  using veil_step by (simp add: link_run_def)

lemma beats_keep:
  "list_all (\<lambda>(now, e). e = Beat) bs \<Longrightarrow>
     lk_indicator (link_run bs l) = lk_indicator l \<and> lk_away (link_run bs l) = lk_away l \<and> lk_pongAt (link_run bs l) = lk_pongAt l"
proof (induction bs arbitrary: l)
  case (Cons x bs)
  have "link_run (x # bs) l = link_run bs (ping (fst x) l)" using Cons.prems by (cases x) (simp add: link_run_def)
  then show ?case using Cons.IH [of "ping (fst x) l"] Cons.prems by (simp add: ping_def paintConnection_def)
qed (simp add: link_run_def)

lemma silence_shown:
  assumes "lk_indicator l" and "\<not> lk_away l" and "list_all (\<lambda>(now, e). e = Beat) bs" and "lk_pongAt l + STALE_MS < now"
  shows "lk_veil (link_run (bs @ [(now, Beat)]) l)"
proof -
  have "list_all (\<lambda>(now, e). e = Beat) (bs @ [(now, Beat)])" using assms(3) by simp
  from beats_keep [OF this, of l] show ?thesis using assms unfolding veil_right by (simp add: trouble_def)
qed

end
