(* ===== verification/Extension.thy ===== *)
theory Extension
  imports Sidebar NodePath
begin

text \<open>
  The window's side of the extension (\<open>extension.ts\<close>, \<open>sessionsView.ts\<close>, \<open>unreadDecorations.ts\<close>): which
  daemon it starts, the connection and how it is taken up again, what the status item says, and the
  rows and dots of the sidebar. What the editor and the daemon answer are inputs. The lemmas: a window
  that was connected and lost its daemon always has a way back; one whose first attempt failed has none.
\<close>

section \<open>The daemon's entry\<close>

definition resolveDaemonEntry :: "string option \<Rightarrow> (string \<Rightarrow> bool) \<Rightarrow> string \<Rightarrow> string" where
  "resolveDaemonEntry configured there extensionPath =
     (let dev = path_join [extensionPath, ''..'', ''daemon'', ''dist'', ''main.js''];
          bundled = path_join [extensionPath, ''daemon'', ''dist'', ''main.js'']
      in case configured of
           Some p \<Rightarrow> if p = [] then (if there dev then dev else bundled) else p
         | None \<Rightarrow> if there dev then dev else bundled)"

text \<open>The preferred model of a new chat: the request, if there is one, and the model it then has.\<close>

definition applyDefaultModel :: "string \<Rightarrow> bool \<Rightarrow> string option \<Rightarrow> string option \<times> string option" where
  "applyDefaultModel setting accepted model =
     (if trim setting = [] then (None, model)
      else (Some (trim setting), if accepted then Some (trim setting) else model))"

section \<open>The connection\<close>

text \<open>
  An attempt and what follows it at once (telling the settings, attaching the panels) is one step.
\<close>

text \<open>Who waits for an attempt: the start of the window, a command, or the timer with its delay.\<close>

datatype waiter = At_start | By_command | By_timer num

datatype status_text = Label | Limits_shown | Disconnected | Connect_error

record window =
  wi_client :: bool
  wi_connecting :: "waiter list option"
  wi_timer :: "num option"
  wi_status :: status_text

definition window_new :: window where
  "window_new = \<lparr>wi_client = False, wi_connecting = None, wi_timer = None, wi_status = Label\<rparr>"

definition RECONNECT_MS :: num where "RECONNECT_MS = 1000"
definition RECONNECT_MAX_MS :: num where "RECONNECT_MAX_MS = 15000"

definition scheduleReconnect :: "num \<Rightarrow> window \<Rightarrow> window" where
  "scheduleReconnect d w = (if wi_timer w \<noteq> None then w else w \<lparr>wi_timer := Some d\<rparr>)"

definition ensureClient :: "waiter \<Rightarrow> window \<Rightarrow> window" where
  "ensureClient x w =
     (if wi_client w then w
      else w \<lparr>wi_connecting := Some ((case wi_connecting w of Some xs \<Rightarrow> xs | None \<Rightarrow> []) @ [x])\<rparr>)"

fun told_failure :: "waiter \<Rightarrow> window \<Rightarrow> window" where
  "told_failure At_start w = w \<lparr>wi_status := Connect_error\<rparr>"
| "told_failure By_command w = w"
| "told_failure (By_timer d) w = scheduleReconnect (min (d * 2) RECONNECT_MAX_MS) w"

datatype window_event = Started | Commanded | Timer_due | Connected | Refused | Lost

fun window_do :: "window_event \<Rightarrow> window \<Rightarrow> window" where
  "window_do Started w = ensureClient At_start w"
| "window_do Commanded w = ensureClient By_command w"
| "window_do Timer_due w =
     (case wi_timer w of None \<Rightarrow> w | Some d \<Rightarrow> ensureClient (By_timer d) (w \<lparr>wi_timer := None\<rparr>))"
| "window_do Connected w =
     (if wi_connecting w = None then w else w \<lparr>wi_client := True, wi_connecting := None, wi_status := Limits_shown\<rparr>)"
| "window_do Refused w =
     (case wi_connecting w of None \<Rightarrow> w | Some xs \<Rightarrow> fold told_failure xs (w \<lparr>wi_connecting := None\<rparr>))"
| "window_do Lost w =
     (if wi_client w then scheduleReconnect RECONNECT_MS (w \<lparr>wi_client := False, wi_status := Disconnected\<rparr>) else w)"

section \<open>The sidebar\<close>

datatype dot = Dot_workspace string | Dot_session string

record sidebar =
  sb_snapshot :: "chat_info list"
  sb_seen :: seen_map
  sb_dots :: "dot list"

text \<open>\<open>listed\<close> is the daemon's list, nothing when it cannot be asked.\<close>

definition getChildren :: "chat_info list option \<Rightarrow> string list \<Rightarrow> sidebar \<Rightarrow> workspace_group list \<times> sidebar" where
  "getChildren listed folders s =
     (case listed of
        None \<Rightarrow> ([], s \<lparr>sb_dots := []\<rparr>)
      | Some cs \<Rightarrow>
          (let seen = (case reconcileSeen cs (sb_seen s) of Some m \<Rightarrow> m | None \<Rightarrow> sb_seen s);
               gs = groupSessions cs folders seen
           in (gs, s \<lparr>sb_snapshot := cs, sb_seen := seen,
                      sb_dots := map (\<lambda>g. Dot_workspace (wg_cwd g)) (filter wg_hasUnread gs)
                        @ map (\<lambda>c. Dot_session (ci_id c)) (filter (isUnread seen) cs)\<rparr>)))"

definition provideFileDecoration :: "sidebar \<Rightarrow> dot \<Rightarrow> bool" where
  "provideFileDecoration s d = (d \<in> set (sb_dots s))"

record tree_item =
  ti_label :: string
  ti_id :: string
  ti_description :: string
  ti_expanded :: bool

definition groupItem :: "workspace_group \<Rightarrow> tree_item" where
  "groupItem g =
     \<lparr>ti_label = (if path_basename (wg_cwd g) = [] then wg_cwd g else path_basename (wg_cwd g)), ti_id = wg_cwd g,
      ti_description = show_nat (length (wg_sessions g)), ti_expanded = wg_isCurrent g\<rparr>"

section \<open>What they promise\<close>

text \<open>A way back: a timer, or an attempt the timer waits for.\<close>

definition way_back :: "window \<Rightarrow> bool" where
  "way_back w = (wi_timer w \<noteq> None \<or> (\<exists>d. By_timer d \<in> set (case wi_connecting w of Some xs \<Rightarrow> xs | None \<Rightarrow> [])))"

definition delays_ok :: "window \<Rightarrow> bool" where
  "delays_ok w =
     (\<forall>d. wi_timer w = Some d \<or> By_timer d \<in> set (case wi_connecting w of Some xs \<Rightarrow> xs | None \<Rightarrow> [])
        \<longrightarrow> RECONNECT_MS \<le> d \<and> d \<le> RECONNECT_MAX_MS)"

lemma told_keeps [simp]:
  "wi_client (told_failure x w) = wi_client w" "wi_connecting (told_failure x w) = wi_connecting w"
  by (cases x; simp add: scheduleReconnect_def)+

lemma told_timer:
  "wi_timer w \<noteq> None \<or> (\<exists>d. By_timer d \<in> set xs) \<Longrightarrow> wi_timer (fold told_failure xs w) \<noteq> None"
proof (induction xs arbitrary: w)
  case (Cons x xs)
  have "wi_timer w \<noteq> None \<or> (\<exists>d. x = By_timer d) \<Longrightarrow> wi_timer (told_failure x w) \<noteq> None"
    by (cases x) (auto simp: scheduleReconnect_def)
  then show ?case using Cons.IH [of "told_failure x w"] Cons.prems by auto
qed simp

lemma told_fold_keeps [simp]:
  "wi_client (fold told_failure xs w) = wi_client w" "wi_connecting (fold told_failure xs w) = wi_connecting w"
  by (induction xs arbitrary: w) simp_all

lemma told_delays:
  "\<forall>d. wi_timer w = Some d \<or> By_timer d \<in> set xs \<longrightarrow> RECONNECT_MS \<le> d \<and> d \<le> RECONNECT_MAX_MS \<Longrightarrow>
     wi_timer (fold told_failure xs w) = Some d \<Longrightarrow> RECONNECT_MS \<le> d \<and> d \<le> RECONNECT_MAX_MS"
proof (induction xs arbitrary: w)
  case (Cons x xs)
  have "\<forall>d. wi_timer (told_failure x w) = Some d \<longrightarrow> RECONNECT_MS \<le> d \<and> d \<le> RECONNECT_MAX_MS"
    using Cons.prems(1) by (cases x) (auto simp: scheduleReconnect_def RECONNECT_MS_def RECONNECT_MAX_MS_def)
  then show ?case using Cons.IH [of "told_failure x w"] Cons.prems by auto
qed simp

lemma window_keeps_way:
  assumes "wi_client w \<or> way_back w" and "delays_ok w"
  shows "(wi_client (window_do e w) \<or> way_back (window_do e w)) \<and> delays_ok (window_do e w)"
proof (cases e)
  case Refused
  show ?thesis
  proof (cases "wi_connecting w")
    case (Some xs)
    let ?w = "w \<lparr>wi_connecting := None\<rparr>"
    have "\<forall>d. wi_timer ?w = Some d \<or> By_timer d \<in> set xs \<longrightarrow> RECONNECT_MS \<le> d \<and> d \<le> RECONNECT_MAX_MS"
      using assms(2) Some by (auto simp: delays_ok_def)
    from told_delays [OF this] have "delays_ok (fold told_failure xs ?w)" by (auto simp: delays_ok_def)
    moreover have "wi_client w \<or> wi_timer (fold told_failure xs ?w) \<noteq> None"
      using assms(1) Some told_timer [of ?w xs] by (auto simp: way_back_def)
    ultimately show ?thesis using Refused Some by (simp add: way_back_def)
  qed (use assms Refused in simp)
qed (use assms in \<open>auto simp: ensureClient_def scheduleReconnect_def way_back_def delays_ok_def RECONNECT_MS_def RECONNECT_MAX_MS_def
    split: option.splits if_splits\<close>)

lemma always_a_way_back:
  assumes "wi_client w" and "delays_ok w"
  shows "(wi_client (fold window_do es w) \<or> way_back (fold window_do es w)) \<and> delays_ok (fold window_do es w)"
proof -
  have "(wi_client w \<or> way_back w) \<and> delays_ok w \<Longrightarrow>
      (wi_client (fold window_do es w) \<or> way_back (fold window_do es w)) \<and> delays_ok (fold window_do es w)" for w
    using window_keeps_way by (induction es arbitrary: w) simp_all
  then show ?thesis using assms by blast
qed

text \<open>The first attempt schedules nothing, and neither does a command, however often it fails.\<close>

lemma no_way_after_first_failure:
  "\<not> way_back (fold window_do (concat (replicate n [Commanded, Refused])) (fold window_do [Started, Refused] window_new))
   \<and> \<not> wi_client (fold window_do (concat (replicate n [Commanded, Refused])) (fold window_do [Started, Refused] window_new))"
proof -
  let ?w = "fold window_do [Started, Refused] window_new"
  have s: "fold window_do [Commanded, Refused] ?w = ?w" by (simp add: window_new_def ensureClient_def)
  have "fold window_do (concat (replicate n [Commanded, Refused])) ?w = ?w"
  proof (induction n)
    case (Suc n)
    have "fold window_do (concat (replicate (Suc n) [Commanded, Refused])) ?w
        = fold window_do (concat (replicate n [Commanded, Refused])) (fold window_do [Commanded, Refused] ?w)" by simp
    then show ?case using Suc s by argo
  qed simp
  moreover have "\<not> way_back ?w \<and> \<not> wi_client ?w" by (simp add: window_new_def ensureClient_def way_back_def)
  ultimately show ?thesis by simp
qed

text \<open>The dots are those of the chats that have something unread, and of the groups that have such a chat.\<close>

lemma dots_of_list:
  assumes "snd (getChildren (Some cs) folders s) = s'"
  shows "provideFileDecoration s' (Dot_session i) \<longleftrightarrow> (\<exists>c\<in>set cs. ci_id c = i \<and> isUnread (sb_seen s') c)"
  using assms by (auto simp: getChildren_def Let_def provideFileDecoration_def image_iff)

end
