(* ===== verification/Installs.thy ===== *)
theory Installs
  imports DaemonClient NodePath Regex "HOL-Library.Multiset"
begin

text \<open>
  Other copies of the programs: the builds of the extension installed beside the running one
  (\<open>newerInstall.ts\<close>) and the release of the phone's app that this machine fetches (\<open>appRelease.ts\<close>).
  The folders, the manifests and the answers of the release program are inputs. The lemmas: the list
  of builds is sorted by version, and the build offered is installed, newer than the running one and
  not older than any other.
\<close>

section \<open>Builds beside the running one\<close>

definition version_start :: rx where
  "version_start = rx_seq [rx_plus rx_digit, rx_lit ''.'', rx_plus rx_digit, rx_lit ''.'', rx_plus rx_digit]"

definition install_id :: "string \<Rightarrow> string" where
  "install_id ourDir =
     rx_replace (rx_seq [rx_lit ''-'', version_start, rx_star (RCh (\<lambda>c. c \<noteq> newline)), REos]) [] (path_basename ourDir)"

definition is_mine :: "string \<Rightarrow> string \<Rightarrow> bool" where
  "is_mine i name = (starts_with name (i @ ''-'') \<and> rx_test (rx_seq [RBos, version_start]) (drop (length i + 1) name))"

text \<open>A stable sort by a comparison.\<close>

fun insert_by :: "('a \<Rightarrow> 'a \<Rightarrow> int) \<Rightarrow> 'a \<Rightarrow> 'a list \<Rightarrow> 'a list" where
  "insert_by cmp x [] = [x]"
| "insert_by cmp x (y # ys) = (if cmp x y \<le> 0 then x # y # ys else y # insert_by cmp x ys)"

definition sort_by :: "('a \<Rightarrow> 'a \<Rightarrow> int) \<Rightarrow> 'a list \<Rightarrow> 'a list" where
  "sort_by cmp xs = foldr (insert_by cmp) xs []"

definition readVersion :: "(string \<Rightarrow> string option) \<Rightarrow> string \<Rightarrow> string option" where
  "readVersion read manifest =
     (case Option.bind (read manifest) json_parse of
        None \<Rightarrow> None
      | Some v \<Rightarrow> js_str (js_prop v ''version''))"

definition installedVersions :: "(string \<Rightarrow> string list option) \<Rightarrow> (string \<Rightarrow> string option) \<Rightarrow> string \<Rightarrow> string list" where
  "installedVersions list version ourDir =
     (case list (path_dirname ourDir) of
        None \<Rightarrow> []
      | Some entries \<Rightarrow>
          sort_by compareVersions
            (List.map_filter
              (\<lambda>name. if is_mine (install_id ourDir) name
                       then (case version (path_join [path_dirname ourDir, name, ''package.json'']) of
                               Some v \<Rightarrow> if v = [] then None else Some v
                             | None \<Rightarrow> None)
                       else None) entries))"

definition pendingUpgrade :: "(string \<Rightarrow> string list option) \<Rightarrow> (string \<Rightarrow> string option) \<Rightarrow> string \<Rightarrow> string \<Rightarrow> string option" where
  "pendingUpgrade list read ourDir ourVersion =
     newerInstalledVersion ourVersion (installedVersions list (readVersion read) ourDir)"

section \<open>The app's release\<close>

record app_release =
  ar_tag :: string
  ar_version :: string
  ar_name :: string
  ar_size :: num
  ar_path :: "string option"

definition release_word :: "string \<Rightarrow> bool" where
  "release_word t = (t \<noteq> [] \<and> list_all (\<lambda>c. is_word c \<or> c = CHR ''.'' \<or> c = CHR ''-'') t)"

text \<open>
  The name and the size of the first asset that is an APK; \<open>Inl None\<close> is a value of an unexpected
  shape, whose reading throws.
\<close>

fun first_apk :: "jsval list \<Rightarrow> string option + (string \<times> num)" where
  "first_apk [] = Inl (Some [])"
| "first_apk (a # as) =
     (case js_str (js_prop a ''name'') of
        None \<Rightarrow> Inl None
      | Some n \<Rightarrow>
          if \<not> ends_with n ''.apk'' then first_apk as
          else (case js_prop a ''size'' of JNum k \<Rightarrow> Inr (n, k) | _ \<Rightarrow> Inl None))"

definition release_of :: "string \<Rightarrow> string option + app_release" where
  "release_of raw =
     (case json_parse raw of
        None \<Rightarrow> Inl None
      | Some v \<Rightarrow>
          (case (js_str (js_prop v ''tagName''), js_prop v ''assets'') of
             (Some tag, JArr as) \<Rightarrow>
               (case first_apk as of
                  Inl None \<Rightarrow> Inl None
                | Inl (Some e) \<Rightarrow> Inl (Some (''release '' @ tag @ '' has no APK''))
                | Inr (n, k) \<Rightarrow>
                    if \<not> release_word tag \<or> \<not> (release_word (take (length n - 4) n)) then Inl (Some ''unexpected release names'')
                    else Inr \<lparr>ar_tag = tag, ar_version = (if starts_with tag ''v'' then drop 1 tag else tag),
                              ar_name = n, ar_size = k, ar_path = None\<rparr>)
           | _ \<Rightarrow> Inl None))"

text \<open>
  \<open>sizes\<close> are the files there are. The download is a change of them, or the failure of the program.
\<close>

definition appRelease ::
    "string \<Rightarrow> bool \<Rightarrow> string option + string \<Rightarrow> (string \<Rightarrow> num option)
     \<Rightarrow> (string \<Rightarrow> string \<Rightarrow> string + (string \<Rightarrow> num option)) \<Rightarrow> (string option + app_release) \<times> (string \<Rightarrow> num option)" where
  "appRelease appDir want view_out sizes fetch =
     (case view_out of
        Inl e \<Rightarrow> (Inl e, sizes)
      | Inr raw \<Rightarrow>
          (case release_of raw of
             Inl e \<Rightarrow> (Inl e, sizes)
           | Inr r \<Rightarrow>
               (let target = path_join [path_join [appDir, ar_tag r], ar_name r];
                    there = (\<lambda>fs. fs target = Some (ar_size r));
                    whole = (\<lambda>fs. if there fs then r \<lparr>ar_path := Some target\<rparr> else r)
                in if \<not> there sizes \<and> want
                   then (case fetch (ar_tag r) (ar_name r) of
                           Inl e \<Rightarrow> (Inl (Some e), sizes)
                         | Inr sizes1 \<Rightarrow>
                             if there sizes1 then (Inr (whole sizes1), sizes1)
                             else (Inl (Some ''download did not complete''), sizes1))
                   else (Inr (whole sizes), sizes))))"

section \<open>What they promise\<close>

lemma insert_by_mset: "mset (insert_by cmp x xs) = add_mset x (mset xs)"
  by (induction xs) auto

lemma sort_by_mset: "mset (sort_by cmp xs) = mset xs"
  unfolding sort_by_def by (induction xs) (simp_all add: insert_by_mset)

lemma insert_by_sorted:
  "sorted_wrt (\<lambda>a b. compareVersions a b \<le> 0) xs \<Longrightarrow> sorted_wrt (\<lambda>a b. compareVersions a b \<le> 0) (insert_by compareVersions x xs)"
proof (induction xs)
  case (Cons y ys)
  show ?case
  proof (cases "compareVersions x y \<le> 0")
    case True
    then show ?thesis using Cons.prems compareVersions_trans by auto
  next
    case False
    then have "compareVersions y x \<le> 0" using compareVersions_swap [of x y] by simp
    moreover have "set (insert_by compareVersions x ys) = insert x (set ys)"
      by (metis insert_by_mset set_mset_add_mset_insert set_mset_mset)
    ultimately show ?thesis using False Cons by auto
  qed
qed simp

lemma installed_sorted: "sorted_wrt (\<lambda>a b. compareVersions a b \<le> 0) (installedVersions list version ourDir)"
proof -
  have "sorted_wrt (\<lambda>a b. compareVersions a b \<le> 0) (sort_by compareVersions xs)" for xs
    unfolding sort_by_def by (induction xs) (simp_all add: insert_by_sorted)
  then show ?thesis by (simp add: installedVersions_def split: option.split)
qed

lemma upgrade_offered:
  assumes "pendingUpgrade list read ourDir ours = Some v"
  shows "v \<in> set (installedVersions list (readVersion read) ourDir) \<and> 0 < compareVersions v ours
    \<and> (\<forall>x\<in>set (installedVersions list (readVersion read) ourDir). compareVersions x v \<le> 0)"
  using newer_from [of ours _ None v] assms by (auto simp: pendingUpgrade_def newerInstalledVersion_def)

text \<open>A path that is answered is that of a file of the size the release says.\<close>

lemma release_on_disk:
  assumes "appRelease dir want out sizes fetch = (Inr r, sizes')" and "ar_path r = Some p"
  shows "sizes' p = Some (ar_size r) \<and> p = path_join [path_join [dir, ar_tag r], ar_name r]"
proof -
  have none: "release_of raw = Inr x \<Longrightarrow> ar_path x = None" for raw x
    by (auto simp: release_of_def split: option.splits prod.splits sum.splits jsval.splits if_splits)
  show ?thesis using assms
    by (auto simp: appRelease_def Let_def split: sum.splits if_splits dest: none)
qed

end
