(* ===== verification/PathLinks.thy ===== *)
theory PathLinks
  imports Prelude
begin

text \<open>
  Paths in rendered text (\<open>media/chat.js\<close>): the text of a message is cut at the paths the host vouched
  for, the longest first, and each becomes a picture, a download or a link; and what a download chip
  says. Where a picture is placed is layout. The lemmas: the pieces are the text, and no path is left
  in a piece that stays text.
\<close>

section \<open>Cutting\<close>

datatype text_piece = Plain_piece string | Path_piece string

fun piece_text :: "text_piece \<Rightarrow> string" where
  "piece_text (Plain_piece t) = t"
| "piece_text (Path_piece p) = p"

text \<open>\<open>t.indexOf(p)\<close>.\<close>

fun index_in :: "string \<Rightarrow> string \<Rightarrow> nat option" where
  "index_in p [] = (if p = [] then Some 0 else None)"
| "index_in p (c # t) = (if take (length p) (c # t) = p then Some 0 else map_option Suc (index_in p t))"

text \<open>The keys of both maps, the first of equals, by length; \<open>sort\<close> is stable.\<close>

definition preview_keys :: "string list \<Rightarrow> string list \<Rightarrow> string list" where
  "preview_keys images downloads = sort_desc (\<lambda>p. int (length p)) (rev (remdups (rev (images @ downloads))))"

lemma index_in_split: "index_in p t = Some i \<Longrightarrow> take i t @ p @ drop (i + length p) t = t \<and> i + length p \<le> length t"
proof (induction t arbitrary: i)
  case (Cons c t)
  show ?case
  proof (cases "take (length p) (c # t) = p")
    case True
    then have "i = 0" "p @ drop (length p) (c # t) = c # t"
      using Cons.prems by (simp, metis append_take_drop_id)
    moreover have "length p \<le> length (c # t)" using True by (metis length_take min.cobounded1)
    ultimately show ?thesis by simp
  next
    case False
    then obtain j where j: "index_in p t = Some j" "i = Suc j" using Cons.prems by auto
    from Cons.IH [OF j(1)] j(2) show ?thesis by simp
  qed
qed (simp split: if_splits)

definition first_hit :: "string list \<Rightarrow> string \<Rightarrow> (string \<times> nat) option" where
  "first_hit keys t =
     (case List.find (\<lambda>p. p \<noteq> [] \<and> index_in p t \<noteq> None) keys of
        None \<Rightarrow> None
      | Some p \<Rightarrow> map_option (Pair p) (index_in p t))"

lemma first_hit_some:
  assumes "first_hit keys t = Some (p, i)"
  shows "p \<noteq> []" and "take i t @ p @ drop (i + length p) t = t" and "i + length p \<le> length t"
proof -
  have "p \<noteq> [] \<and> index_in p t = Some i" using assms by (auto simp: first_hit_def find_Some_iff split: option.splits)
  with index_in_split [of p t i] show "p \<noteq> []" "take i t @ p @ drop (i + length p) t = t" "i + length p \<le> length t" by blast+
qed

lemma first_hit_none: "first_hit keys t = None \<Longrightarrow> p \<in> set keys \<Longrightarrow> p \<noteq> [] \<Longrightarrow> index_in p t = None"
  by (auto simp: first_hit_def find_None_iff find_Some_iff split: option.splits)

function upgradePaths :: "string list \<Rightarrow> string \<Rightarrow> text_piece list" where
  "upgradePaths keys t =
     (case first_hit keys t of
        None \<Rightarrow> if t = [] then [] else [Plain_piece t]
      | Some (p, i) \<Rightarrow> upgradePaths keys (take i t) @ Path_piece p # upgradePaths keys (drop (i + length p) t))"
  by pat_completeness auto
termination
proof (relation "measure (\<lambda>(keys, t). length t)")
  fix keys t x p i
  assume "first_hit keys t = Some x" and "(p, i) = x"
  then have h: "p \<noteq> []" "i + length p \<le> length t" using first_hit_some(1,3) [of keys t p i] by auto
  then show "((keys, take i t), keys, t) \<in> measure (\<lambda>(keys, t). length t)"
    and "((keys, drop (i + length p) t), keys, t) \<in> measure (\<lambda>(keys, t). length t)"
    by (cases p; simp)+
qed simp

declare upgradePaths.simps [simp del]

section \<open>What a download chip says\<close>

datatype chip_note = No_note | Sending | Sent | Not_sent string

record dl_chip =
  dc_disabled :: bool
  dc_note :: chip_note

text \<open>The chips of a message by their path, and the taps that wait for an answer: one for each path.\<close>

record chips_state =
  cp_chips :: "(nat \<times> dl_chip) list"
  cp_waiting :: "(string \<times> nat) list"
  cp_asked :: "string list"

definition tap_chip :: "nat \<Rightarrow> string \<Rightarrow> chips_state \<Rightarrow> chips_state" where
  "tap_chip n p s =
     (case map_of (cp_chips s) n of
        None \<Rightarrow> s
      | Some c \<Rightarrow>
          if dc_disabled c then s
          else s \<lparr>cp_chips := AList.update n \<lparr>dc_disabled = True, dc_note = Sending\<rparr> (cp_chips s),
                  cp_waiting := AList.update p n (cp_waiting s), cp_asked := cp_asked s @ [p]\<rparr>)"

definition settleDownload :: "string \<Rightarrow> bool \<Rightarrow> string option \<Rightarrow> chips_state \<Rightarrow> chips_state" where
  "settleDownload p ok detail s =
     (case map_of (cp_waiting s) p of
        None \<Rightarrow> s
      | Some n \<Rightarrow>
          s \<lparr>cp_waiting := AList.delete p (cp_waiting s),
             cp_chips := AList.update n
               \<lparr>dc_disabled = False,
                dc_note = (if ok then Sent
                           else Not_sent (case detail of Some d \<Rightarrow> if d = [] then ''could not send it'' else d
                                          | None \<Rightarrow> ''could not send it''))\<rparr> (cp_chips s)\<rparr>)"

text \<open>
  Two chips of one path share the place of the tap: when both were tapped, the answers settle the
  second alone and the first stays disabled.
\<close>

lemma second_tap_takes_place:
  assumes "n \<noteq> k" and "map_of (cp_chips s) n = Some c" and "map_of (cp_chips s) k = Some d"
    and "\<not> dc_disabled c" and "\<not> dc_disabled d"
  shows "map_option dc_disabled (map_of (cp_chips (settleDownload p ok2 e2 (settleDownload p ok1 e1 (tap_chip k p (tap_chip n p s))))) n)
    = Some True"
  using assms by (simp add: tap_chip_def settleDownload_def update_conv' delete_conv')

section \<open>The pieces are the text\<close>

lemma pieces_are_text: "concat (map piece_text (upgradePaths keys t)) = t"
proof (induction keys t rule: upgradePaths.induct)
  case (1 keys t)
  show ?case
  proof (cases "first_hit keys t")
    case None
    then show ?thesis by (simp add: upgradePaths.simps [of keys t])
  next
    case (Some x)
    obtain p i where x: "x = (p, i)" by (cases x)
    note e = first_hit_some(2) [OF Some [unfolded x]]
    have "concat (map piece_text (upgradePaths keys t)) = take i t @ p @ drop (i + length p) t"
      using 1 [OF Some x [symmetric]] by (simp add: upgradePaths.simps [of keys t] Some x)
    with e show ?thesis by simp
  qed
qed

lemma no_path_left:
  "Plain_piece w \<in> set (upgradePaths keys t) \<Longrightarrow> p \<in> set keys \<Longrightarrow> p \<noteq> [] \<Longrightarrow> index_in p w = None"
proof (induction keys t rule: upgradePaths.induct)
  case (1 keys t)
  show ?case
  proof (cases "first_hit keys t")
    case None
    then have "w = t" using 1(3) by (simp add: upgradePaths.simps [of keys t] split: if_splits)
    then show ?thesis using first_hit_none [OF None 1(4,5)] by simp
  next
    case (Some x)
    obtain q i where x: "x = (q, i)" by (cases x)
    have "Plain_piece w \<in> set (upgradePaths keys (take i t)) \<or> Plain_piece w \<in> set (upgradePaths keys (drop (i + length q) t))"
      using 1(3) by (simp add: upgradePaths.simps [of keys t] Some x)
    then show ?thesis
    proof
      assume "Plain_piece w \<in> set (upgradePaths keys (take i t))"
      then show ?thesis by (rule 1(1) [OF Some x [symmetric] _ 1(4,5)])
    next
      assume "Plain_piece w \<in> set (upgradePaths keys (drop (i + length q) t))"
      then show ?thesis by (rule 1(2) [OF Some x [symmetric] _ 1(4,5)])
    qed
  qed
qed

text \<open>A path that is vouched for is cut out of a longer one that is not.\<close>

lemma longer_path_cut:
  "upgradePaths [''/a.png''] ''see /a.png.bak'' = [Plain_piece ''see '', Path_piece ''/a.png'', Plain_piece ''.bak'']"
  by code_simp

end
