(* ===== verification/ChatPanel.thy ===== *)
theory ChatPanel
  imports ChatThread Downloads Git Sidebar
begin

text \<open>
  The extension's side of a chat tab (\<open>chatPanel.ts\<close>): what it posts to the webview, how far it has
  read the chat, attaching and attaching again, attachments and their uploads in parts, the branch
  chip, and the paths in a message that get a preview or a download. The panel's messages to the
  webview are collected in \<open>pn_posted\<close>, in order. A request to the daemon is made in one step and
  answered in another, since the panel goes on in between. The lemmas: an upload arrives whole; a chat
  attached to and followed is drawn event by event; an event read together with the answer to an
  attachment is lost from sight; an attachment made while a message is sent is dropped.
\<close>

section \<open>Paths in a message\<close>

text \<open>\<open>/\.(a|b|...)$/i\<close>.\<close>

definition extension_in :: "string list \<Rightarrow> string \<Rightarrow> bool" where
  "extension_in exts p = list_ex (\<lambda>e. ends_with (to_lower p) (CHR ''.'' # e)) exts"

definition PREVIEWABLE :: "string list" where
  "PREVIEWABLE = [''png'', ''jpg'', ''jpeg'', ''gif'', ''webp'', ''bmp'', ''svg'', ''avif'', ''mp4'', ''webm'', ''mov'', ''m4v'']"

definition DOWNLOADABLE :: "string list" where
  "DOWNLOADABLE =
     [''zip'', ''tar'', ''tgz'', ''gz'', ''bz2'', ''xz'', ''7z'', ''rar'', ''pdf'', ''csv'', ''tsv'', ''xlsx'', ''docx'', ''pptx'',
      ''odt'', ''ods'', ''log'', ''patch'', ''diff'', ''sqlite'', ''db'']"

definition PLAYABLE :: "string list" where
  "PLAYABLE = [''mp4'', ''webm'', ''mov'', ''m4v'']"

definition PATH_IN_TEXT :: rx where
  "PATH_IN_TEXT =
     rx_seq [rx_alts [RBos, RCh (\<lambda>c. is_space c \<or> c \<in> set [CHR 0x22, CHR 0x27, CHR 0x60, CHR ''('', CHR ''['', CHR ''<''])],
             RGrp 1 (rx_seq [rx_in [slash],
               rx_plus (RCh (\<lambda>c. \<not> is_space c \<and> c \<notin> set [CHR 0x22, CHR 0x27, CHR 0x60, CHR '')'', CHR '']'', CHR ''>'', CHR '':''])),
               rx_in ''.'', rx_plus (RCh is_alnum)])]"

definition URL_IN_TEXT :: rx where
  "URL_IN_TEXT =
     rx_seq [rx_lit ''https://'',
       rx_plus (RCh (\<lambda>c. \<not> is_space c \<and> c \<notin> set [CHR ''<'', CHR ''>'', CHR 0x22, CHR 0x27, CHR '')'', CHR '']'']))]"

definition paths_in :: "string \<Rightarrow> string list" where
  "paths_in t = List.map_filter (\<lambda>(b, e, cs). rx_group t cs 1) (rx_all PATH_IN_TEXT t 0)"

definition urls_in :: "string \<Rightarrow> string list" where
  "urls_in t = map (\<lambda>(b, e, cs). substring t b e) (rx_all URL_IN_TEXT t 0)"

text \<open>What one text gives, and the texts of a value in order; a set keeps the first place.\<close>

definition downloads_of :: "string \<Rightarrow> string list" where
  "downloads_of t = (if is_absolute t \<and> extension_in DOWNLOADABLE t then [t] else []) @ filter (extension_in DOWNLOADABLE) (paths_in t)"

definition images_of :: "string \<Rightarrow> string list" where
  "images_of t =
     (if is_absolute t \<and> extension_in PREVIEWABLE t then [t] else [])
     @ filter (extension_in PREVIEWABLE) (paths_in t) @ filter (extension_in PREVIEWABLE) (urls_in t)"

fun texts_of :: "jsval \<Rightarrow> string list" where
  "texts_of (JStr s) = [s]"
| "texts_of (JArr vs) = concat (map texts_of vs)"
| "texts_of (JObj fs) = concat (map (\<lambda>(k, v). texts_of v) fs)"
| "texts_of v = []"

definition first_places :: "'a list \<Rightarrow> 'a list" where
  "first_places xs = fold (\<lambda>x ys. if x \<in> set ys then ys else ys @ [x]) xs []"

definition collectDownloadPaths :: "jsval \<Rightarrow> string list" where
  "collectDownloadPaths v = first_places (concat (map downloads_of (texts_of v)))"

definition collectImagePaths :: "jsval \<Rightarrow> string list" where
  "collectImagePaths v = first_places (concat (map images_of (texts_of v)))"

definition MAX_PREVIEW_BYTES :: nat where "MAX_PREVIEW_BYTES = 12 * 1024 * 1024"

text \<open>The URI of a path in the webview is \<open>uri\<close>; a URL stands for itself.\<close>

definition image_uri :: "fs_disk \<Rightarrow> (string \<Rightarrow> string) \<Rightarrow> string \<Rightarrow> (string \<times> jsval) option" where
  "image_uri w uri p =
     (if starts_with p ''https://'' then Some (p, JStr p)
      else if fv_stat w p = Some F_file \<and> length (fv_bytes w p) \<le> MAX_PREVIEW_BYTES then Some (p, JStr (uri p))
      else None)"

definition downloadsIn :: "fs_disk \<Rightarrow> jsval \<Rightarrow> (string \<times> jsval) list" where
  "downloadsIn w v =
     List.map_filter (\<lambda>p. if fv_stat w p = Some F_file
         then Some (p, JObj [(''name'', JStr (path_basename p)), (''size'', JNum (of_nat (length (fv_bytes w p))))]) else None)
       (collectDownloadPaths v)"

text \<open>
  \<open>withImageUris\<close>. A message that mentions no picture goes as it is, downloads or not.
\<close>

definition withImageUris :: "fs_disk \<Rightarrow> (string \<Rightarrow> string) \<Rightarrow> jsval \<Rightarrow> jsval" where
  "withImageUris w uri v =
     (if \<not> is_js_object v \<or> collectImagePaths v = [] then v
      else let us = List.map_filter (image_uri w uri) (collectImagePaths v); ds = downloadsIn w v in
        case v of
          JObj fs \<Rightarrow>
            (let f1 = (if us = [] then fs else AList.update ''imageUris'' (JObj us) fs) in
             JObj (if ds = [] then f1 else AList.update ''downloads'' (JObj ds) f1))
        | _ \<Rightarrow> v)"

section \<open>The panel\<close>

datatype posted =
    P_replay bool bool "drawn_event list" "(bool \<times> nat option) option" num
  | P_event drawn_event
  | P_delta string
  | P_agents "active_agent list"
  | P_models "(string \<times> string) list"
  | P_indicator bool
  | P_pong bool bool
  | P_attachments "(bool \<times> string) list"
  | P_ack string nat nat
  | P_branch "string option" bool string "work_place list"
  | P_login_result bool "string option"
  | P_download string bool "string option"

record panel_upload =
  pu_name :: string
  pu_media :: string
  pu_total :: nat
  pu_chunks :: "(nat \<times> string) list"

record panel =
  pn_session :: string
  pn_lastSeq :: num
  pn_ready :: bool
  pn_queue :: "posted list"
  pn_posted :: "posted list"
  pn_cwd :: "string option"
  pn_branchKey :: "string option"
  pn_worktrees :: "string list"
  pn_replayLimit :: nat
  pn_baseTitle :: string
  pn_title :: string
  pn_pending :: "attachment list"
  pn_uploads :: "(string \<times> panel_upload) list"
  pn_files :: "(string \<times> string) list"

definition REPLAY_LIMIT :: nat where "REPLAY_LIMIT = 400"

text \<open>The hourglass a running turn puts before the title stands as one character.\<close>

definition hourglass :: string where "hourglass = [CHR 0x90, CHR '' '']"

definition bindPanel :: "string \<Rightarrow> string \<Rightarrow> panel" where
  "bindPanel i title =
     \<lparr>pn_session = i, pn_lastSeq = 0, pn_ready = False, pn_queue = [], pn_posted = [], pn_cwd = None,
      pn_branchKey = None, pn_worktrees = [], pn_replayLimit = REPLAY_LIMIT, pn_baseTitle = title, pn_title = title,
      pn_pending = [], pn_uploads = [], pn_files = []\<rparr>"

text \<open>
  Handing a message to the thread. What \<open>post\<close> of the source first puts into it for images and
  downloads is \<open>withImageUris\<close> above, and left out here.
\<close>

definition post :: "posted \<Rightarrow> panel \<Rightarrow> panel" where
  "post m p = (if pn_ready p then p \<lparr>pn_posted := pn_posted p @ [m]\<rparr> else p \<lparr>pn_queue := pn_queue p @ [m]\<rparr>)"

definition on_ready :: "panel \<Rightarrow> panel" where
  "on_ready p = p \<lparr>pn_ready := True, pn_queue := [], pn_posted := pn_posted p @ pn_queue p\<rparr>"

definition setTitle :: "string \<Rightarrow> panel \<Rightarrow> panel" where
  "setTitle title p =
     p \<lparr>pn_baseTitle := title, pn_title := (if starts_with (pn_title p) (take 1 hourglass) then hourglass else []) @ title\<rparr>"

section \<open>The branch chip\<close>

record places_env =
  pe_disk :: disk
  pe_procs :: proc_dirs
  pe_pwd :: string

text \<open>The worktrees this session's processes are in join those seen before in this turn.\<close>

definition own_worktrees :: "places_env \<Rightarrow> git_info option \<Rightarrow> panel \<Rightarrow> string list" where
  "own_worktrees env info p =
     (case info of
        None \<Rightarrow> pn_worktrees p
      | Some g \<Rightarrow>
          fold (\<lambda>(d, sessions) ws. if pn_session p \<in> set sessions \<and> d \<notin> set ws then ws @ [d] else ws)
            (dirsInUseBySession (pe_procs env) (map wt_path (registeredWorktrees (pe_disk env) g))) (pn_worktrees p))"

definition branch_key :: "(string \<times> bool) option \<Rightarrow> work_place list \<Rightarrow> string" where
  "branch_key chip places =
     join ''|''
       ((case chip of Some (t, w) \<Rightarrow> t | None \<Rightarrow> [])
        # (case chip of Some (t, w) \<Rightarrow> (if w then ''true'' else ''false'') | None \<Rightarrow> ''false'')
        # map (\<lambda>pl. wp_name pl @ ''@'' @ (case wp_branch pl of Some b \<Rightarrow> b | None \<Rightarrow> [])) places)"

definition updateBranch :: "places_env \<Rightarrow> panel \<Rightarrow> panel" where
  "updateBranch env p =
     (case pn_cwd p of
        None \<Rightarrow> p
      | Some cwd \<Rightarrow>
          if cwd = [] then p
          else let info = findGitDir (pe_disk env) (pe_pwd env) cwd;
                   ws = own_worktrees env info p;
                   places = (case info of Some g \<Rightarrow> workPlaces (pe_disk env) (pe_pwd env) g ws | None \<Rightarrow> []);
                   chip = chipLabel places; key = branch_key chip places;
                   p1 = p \<lparr>pn_worktrees := ws\<rparr>
               in if pn_branchKey p = Some key then p1
                  else post (P_branch (map_option fst chip) (case chip of Some (t, w) \<Rightarrow> w | None \<Rightarrow> False) cwd places)
                         (p1 \<lparr>pn_branchKey := Some key\<rparr>))"

section \<open>What the daemon pushes\<close>

fun ends_turn :: "chat_event \<Rightarrow> bool option" where
  "ends_turn (Status_event st d a acct) = Some (st \<noteq> Running)"
| "ends_turn e = None"

definition handleEvent :: "places_env \<Rightarrow> drawn_event \<Rightarrow> panel \<Rightarrow> panel" where
  "handleEvent env ev p =
     (case ev of
        (q, ts, e) \<Rightarrow>
          (let p1 = p \<lparr>pn_lastSeq := max (pn_lastSeq p) (q + 1)\<rparr>;
               p2 = (case ends_turn e of
                       None \<Rightarrow> p1
                     | Some over \<Rightarrow>
                         (let p3 = (if over then updateBranch env (p1 \<lparr>pn_worktrees := [], pn_branchKey := None\<rparr>) else p1)
                          in p3 \<lparr>pn_title := (if over then [] else hourglass) @ pn_baseTitle p3\<rparr>))
           in post (P_event ev) p2))"

definition handleDelta :: "string \<Rightarrow> panel \<Rightarrow> panel" where "handleDelta t = post (P_delta t)"
definition handleAgents :: "active_agent list \<Rightarrow> panel \<Rightarrow> panel" where "handleAgents as = post (P_agents as)"

section \<open>Attaching\<close>

text \<open>The request: from where, and how many; whether the answer replaces what is drawn.\<close>

definition attach_from :: "bool \<Rightarrow> panel \<Rightarrow> bool \<times> num \<times> nat" where
  "attach_from full p =
     (let f = (full \<or> pn_lastSeq p = 0) in (f, if f then 0 else pn_lastSeq p, pn_replayLimit p))"

record attach_answer =
  an_title :: string
  an_running :: bool
  an_images :: "nat option"
  an_cwd :: string
  an_events :: "drawn_event list"
  an_earlier :: bool

definition attach_done :: "places_env \<Rightarrow> bool \<Rightarrow> attach_answer \<Rightarrow> panel \<Rightarrow> panel" where
  "attach_done env full a p =
     (let p1 = updateBranch env
                 (p \<lparr>pn_baseTitle := an_title a, pn_title := (if an_running a then hourglass else []) @ an_title a,
                     pn_cwd := Some (an_cwd a), pn_branchKey := None\<rparr>);
          p2 = (if an_events a = [] then p1 else p1 \<lparr>pn_lastSeq := fst (last (an_events a)) + 1\<rparr>)
      in post (P_replay full (an_earlier a) (an_events a) (Some (an_running a, an_images a)) (pn_lastSeq p2)) p2)"

definition loadEarlier :: "panel \<Rightarrow> panel" where
  "loadEarlier p = p \<lparr>pn_replayLimit := pn_replayLimit p * 4\<rparr>"

text \<open>
  The lines of one chunk are dispatched in a row; what awaits an answer goes on only after the last
  of them.
\<close>

datatype daemon_line = Push_event drawn_event | Push_delta string | Answer bool attach_answer

fun line_now :: "places_env \<Rightarrow> daemon_line \<Rightarrow> panel \<Rightarrow> panel" where
  "line_now env (Push_event e) p = handleEvent env e p"
| "line_now env (Push_delta t) p = handleDelta t p"
| "line_now env (Answer f a) p = p"

fun line_later :: "places_env \<Rightarrow> daemon_line \<Rightarrow> panel \<Rightarrow> panel" where
  "line_later env (Answer f a) p = attach_done env f a p"
| "line_later env l p = p"

definition on_chunk :: "places_env \<Rightarrow> daemon_line list \<Rightarrow> panel \<Rightarrow> panel" where
  "on_chunk env ls p = fold (line_later env) ls (fold (line_now env) ls p)"

section \<open>What the webview makes of it\<close>

fun webview_msg :: "posted \<Rightarrow> thread_msg option" where
  "webview_msg (P_replay reset earlier es info q) = Some (Replay_in reset earlier es info)"
| "webview_msg (P_event ev) = (case ev of (q, ts, e) \<Rightarrow> Some (Event_in ts e))"
| "webview_msg (P_delta t) = Some (Delta_in t)"
| "webview_msg m = None"

definition webview :: "view \<Rightarrow> posted list \<Rightarrow> thread \<Rightarrow> thread" where
  "webview vw ms s = fold (thread_do vw) (List.map_filter webview_msg ms) s"

section \<open>Uploads and attachments\<close>

definition MAX_IMAGE_BYTES :: nat where "MAX_IMAGE_BYTES = 5 * 1024 * 1024"
definition IMAGE_MIMES :: "string list" where "IMAGE_MIMES = [''image/png'', ''image/jpeg'', ''image/gif'', ''image/webp'']"

definition upload_name :: "string \<Rightarrow> string" where
  "upload_name raw =
     (let n = (if raw = [] then ''file'' else raw);
          t = take_last 80 (rx_replace_all (rx_plus (RCh (\<lambda>c. \<not> is_word c \<and> c \<noteq> CHR ''.'' \<and> c \<noteq> CHR ''-''))) ''_'' n)
      in if t = [] then ''file'' else t)"

definition uploadBegin :: "string \<Rightarrow> string \<Rightarrow> string \<Rightarrow> nat \<Rightarrow> panel \<Rightarrow> panel" where
  "uploadBegin i name media n p =
     p \<lparr>pn_uploads := AList.update i
          \<lparr>pu_name = upload_name name, pu_media = (if media = [] then ''application/octet-stream'' else media),
           pu_total = max 1 n, pu_chunks = []\<rparr> (pn_uploads p)\<rparr>"

text \<open>The chip of an attachment.\<close>

fun chip_of :: "attachment \<Rightarrow> bool \<times> string" where
  "chip_of (Image_att name media data saved) = (True, name)"
| "chip_of (File_att path) = (False, path_basename path)"

definition postChips :: "panel \<Rightarrow> panel" where
  "postChips p = post (P_attachments (map chip_of (pn_pending p))) p"

text \<open>The parts in order; \<open>join\<close> skips the holes.\<close>

definition upload_data :: "panel_upload \<Rightarrow> string" where
  "upload_data u = concat (map snd (sort_key fst (pu_chunks u)))"

definition upload_file :: "string \<Rightarrow> string \<Rightarrow> time_ms \<Rightarrow> string \<Rightarrow> string" where
  "upload_file updir i now name = path_join [path_join [updir, i], show_num now @ ''-'' @ name]"

text \<open>
  The last part makes the attachment: a small picture goes to the model and a copy to the disk, which
  may fail (\<open>writable\<close>); anything else is a file by its path, and a failure to write it throws before
  anything is attached.
\<close>

definition upload_done :: "string \<Rightarrow> time_ms \<Rightarrow> bool \<Rightarrow> panel_upload \<Rightarrow> panel \<Rightarrow> panel" where
  "upload_done updir now writable u p =
     (let data = upload_data u; bytes = b64_decode data; f = upload_file updir (pn_session p) now (pu_name u) in
      if pu_media u \<in> set IMAGE_MIMES \<and> length bytes \<le> MAX_IMAGE_BYTES
      then postChips (p \<lparr>pn_pending := pn_pending p @
                           [Image_att (pu_name u) (pu_media u) data (if writable then Some f else None)],
                         pn_files := (if writable then AList.update f bytes (pn_files p) else pn_files p)\<rparr>)
      else if writable
      then postChips (p \<lparr>pn_pending := pn_pending p @ [File_att f], pn_files := AList.update f bytes (pn_files p)\<rparr>)
      else p)"

definition uploadChunk :: "string \<Rightarrow> time_ms \<Rightarrow> bool \<Rightarrow> string \<Rightarrow> nat \<Rightarrow> string \<Rightarrow> panel \<Rightarrow> panel" where
  "uploadChunk updir now writable i k data p =
     (case map_of (pn_uploads p) i of
        None \<Rightarrow> p
      | Some u \<Rightarrow>
          (let u1 = u \<lparr>pu_chunks := AList.update k data (pu_chunks u)\<rparr>;
               received = length (pu_chunks u1);
               p1 = post (P_ack i received (pu_total u)) (p \<lparr>pn_uploads := AList.update i u1 (pn_uploads p)\<rparr>)
           in if received < pu_total u then p1
              else upload_done updir now writable u1 (p1 \<lparr>pn_uploads := AList.delete i (pn_uploads p1)\<rparr>)))"

definition removeAttachment :: "nat \<Rightarrow> panel \<Rightarrow> panel" where
  "removeAttachment k p = postChips (p \<lparr>pn_pending := take k (pn_pending p) @ drop (Suc k) (pn_pending p)\<rparr>)"

text \<open>\<open>send\<close>: the request, and what is done when it has been answered well.\<close>

definition send_begin :: "string \<Rightarrow> panel \<Rightarrow> string \<times> string \<times> attachment list" where
  "send_begin text p = (pn_session p, text, pn_pending p)"

definition send_end :: "panel \<Rightarrow> panel" where
  "send_end p = post (P_attachments []) (p \<lparr>pn_pending := []\<rparr>)"

section \<open>A download\<close>

text \<open>\<open>forwarded\<close> is the authority the editor gives the loopback address, or the failure of asking.\<close>

definition loopback :: "string \<Rightarrow> bool" where
  "loopback a =
     list_ex (\<lambda>h. starts_with a h \<and> (drop (length h) a = [] \<or> hd (drop (length h) a) = CHR '':''))
       [''127.0.0.1'', ''localhost'', ''[::1]'']"

definition download :: "string \<Rightarrow> string option \<Rightarrow> string + string \<Rightarrow> panel \<Rightarrow> panel" where
  "download file granted forwarded p =
     (if file = [] then p
      else case granted of
        None \<Rightarrow> post (P_download file False (Some ''That file is gone, or sits outside the folders this panel may read.'')) p
      | Some u \<Rightarrow>
          (case forwarded of
             Inl e \<Rightarrow> post (P_download file False (Some e)) p
           | Inr authority \<Rightarrow>
               if loopback authority
               then post (P_download file False (Some (''This editor cannot forward a local port, so the file cannot be sent ''
                      @ ''to your browser. Use the Explorer'' @ [CHR 0x92] @ ''s Download instead.''))) p
               else post (P_download file True None) p))"

section \<open>The browser's side of an upload\<close>

definition UPLOAD_CHUNK :: nat where "UPLOAD_CHUNK = 176 * 1024"
definition MAX_UPLOAD :: nat where "MAX_UPLOAD = 10 * 1024 * 1024"

function slices :: "nat \<Rightarrow> string \<Rightarrow> string list" where
  "slices n t = (if t = [] \<or> n = 0 then [] else take n t # slices n (drop n t))"
  by pat_completeness auto
termination by (relation "measure (length \<circ> snd)") auto

declare slices.simps [simp del]

text \<open>\<open>sendOneFile\<close>: the parts, or \<^term>\<open>None\<close> for a file that is too large.\<close>

definition sendOneFile :: "string \<Rightarrow> string list option" where
  "sendOneFile bytes =
     (if MAX_UPLOAD < length bytes then None
      else let cs = slices UPLOAD_CHUNK (b64_encode bytes) in Some (if cs = [] then [[]] else cs))"

text \<open>What an acknowledgement makes the browser send: the next part, while there is one.\<close>

definition on_ack :: "string list \<Rightarrow> nat \<Rightarrow> nat \<times> nat \<Rightarrow> nat option" where
  "on_ack cs nxt a = (case a of (received, tot) \<Rightarrow> if tot \<le> received then None else if nxt < length cs then Some nxt else None)"

definition acks_in :: "string \<Rightarrow> posted list \<Rightarrow> (nat \<times> nat) list" where
  "acks_in i ms = List.map_filter (\<lambda>m. case m of P_ack j r t \<Rightarrow> if j = i then Some (r, t) else None | _ \<Rightarrow> None) ms"

text \<open>Part \<open>k\<close> on its way, \<open>nxt\<close> the part the browser sends on the next acknowledgement.\<close>

fun exchange ::
    "nat \<Rightarrow> string \<Rightarrow> time_ms \<Rightarrow> bool \<Rightarrow> string \<Rightarrow> string list \<Rightarrow> nat \<Rightarrow> nat \<Rightarrow> panel \<Rightarrow> panel" where
  "exchange 0 updir now ok i cs nxt k p = p"
| "exchange (Suc fuel) updir now ok i cs nxt k p =
     (let p1 = uploadChunk updir now ok i k (cs ! k) p in
      case acks_in i (drop (length (pn_posted p)) (pn_posted p1)) of
        [] \<Rightarrow> p1
      | a # as \<Rightarrow>
          (case on_ack cs nxt a of
             None \<Rightarrow> p1
           | Some m \<Rightarrow> exchange fuel updir now ok i cs (Suc m) m p1))"

definition upload_whole :: "string \<Rightarrow> time_ms \<Rightarrow> bool \<Rightarrow> string \<Rightarrow> string \<Rightarrow> string \<Rightarrow> string \<Rightarrow> panel \<Rightarrow> panel option" where
  "upload_whole updir now ok i name media bytes p =
     map_option (\<lambda>cs. exchange (length cs) updir now ok i cs 1 0 (uploadBegin i name media (length cs) p)) (sendOneFile bytes)"

section \<open>An upload arrives whole\<close>

lemma concat_slices: "0 < n \<Longrightarrow> concat (slices n t) = t"
proof (induction n t rule: slices.induct)
  case (1 n t)
  then show ?case using slices.simps [of n t] by (cases "t = []") simp_all
qed

lemma sent_parts: "sendOneFile bytes = Some cs \<Longrightarrow> concat cs = b64_encode bytes \<and> cs \<noteq> []"
  using concat_slices [of UPLOAD_CHUNK "b64_encode bytes"]
  by (auto simp: sendOneFile_def UPLOAD_CHUNK_def Let_def split: if_splits)

text \<open>After \<open>k\<close> parts the panel holds them in order.\<close>

definition held_parts :: "string list \<Rightarrow> nat \<Rightarrow> (nat \<times> string) list" where
  "held_parts cs k = map (\<lambda>j. (j, cs ! j)) [0..<k]"

lemma update_new: "k \<notin> fst ` set xs \<Longrightarrow> AList.update k v xs = xs @ [(k, v)]"
  by (induction xs) auto

lemma held_next: "AList.update k (cs ! k) (held_parts cs k) = held_parts cs (Suc k)"
  by (subst update_new) (auto simp: held_parts_def)

lemma held_whole: "concat (map snd (sort_key fst (held_parts cs (length cs)))) = concat cs"
proof -
  have "map fst (held_parts cs (length cs)) = [0..<length cs]" by (simp add: held_parts_def comp_def)
  then have "sort_key fst (held_parts cs (length cs)) = held_parts cs (length cs)"
    by (intro sort_key_id_if_sorted) simp
  moreover have "map snd (held_parts cs (length cs)) = cs" by (simp add: held_parts_def comp_def map_nth)
  ultimately show ?thesis by simp
qed

definition upload_with :: "string \<Rightarrow> string \<Rightarrow> string list \<Rightarrow> nat \<Rightarrow> panel_upload" where
  "upload_with name media cs k = \<lparr>pu_name = name, pu_media = media, pu_total = length cs, pu_chunks = held_parts cs k\<rparr>"

lemma upload_part:
  assumes "pn_ready p" and "map_of (pn_uploads p) i = Some (upload_with nm md cs k)" and "k < length cs"
  shows "if Suc k < length cs
    then \<exists>p1. uploadChunk updir now ok i k (cs ! k) p = p1 \<and> pn_posted p1 = pn_posted p @ [P_ack i (Suc k) (length cs)]
       \<and> map_of (pn_uploads p1) i = Some (upload_with nm md cs (Suc k))
       \<and> pn_ready p1 \<and> pn_pending p1 = pn_pending p \<and> pn_files p1 = pn_files p \<and> pn_session p1 = pn_session p
    else \<exists>p1. uploadChunk updir now ok i k (cs ! k) p = upload_done updir now ok (upload_with nm md cs (length cs)) p1
       \<and> pn_posted p1 = pn_posted p @ [P_ack i (length cs) (length cs)] \<and> map_of (pn_uploads p1) i = None
       \<and> pn_ready p1 \<and> pn_pending p1 = pn_pending p \<and> pn_files p1 = pn_files p \<and> pn_session p1 = pn_session p"
proof -
  let ?u = "AList.update i (upload_with nm md cs (Suc k)) (pn_uploads p)"
  have n: "length (held_parts cs (Suc k)) = Suc k" by (simp add: held_parts_def)
  show ?thesis
  proof (cases "Suc k < length cs")
    case True
    then show ?thesis using n assms by (auto simp: uploadChunk_def upload_with_def held_next post_def Let_def update_conv')
  next
    case False
    then have w: "length cs = Suc k" using assms(3) by simp
    let ?p = "p \<lparr>pn_posted := pn_posted p @ [P_ack i (Suc k) (length cs)], pn_uploads := AList.delete i ?u\<rparr>"
    have "uploadChunk updir now ok i k (cs ! k) p = upload_done updir now ok (upload_with nm md cs (length cs)) ?p"
      using n w assms by (simp add: uploadChunk_def upload_with_def held_next post_def Let_def)
    then show ?thesis using w assms(1) by (intro iffD2 [OF if_not_P [OF False]] exI [of _ ?p]) (simp add: delete_conv')
  qed
qed

lemma done_posts:
  "pn_ready p \<Longrightarrow> \<exists>ms. pn_posted (upload_done updir now ok u p) = pn_posted p @ ms \<and> acks_in i ms = []"
  by (auto simp: upload_done_def Let_def postChips_def post_def acks_in_def)

lemma exchange_whole:
  assumes "pn_ready p" and "map_of (pn_uploads p) i = Some (upload_with nm md cs k)" and "k + fuel = length cs" and "0 < fuel"
  shows "\<exists>p1. exchange fuel updir now ok i cs (Suc k) k p = upload_done updir now ok (upload_with nm md cs (length cs)) p1
    \<and> map_of (pn_uploads p1) i = None \<and> pn_ready p1 \<and> pn_pending p1 = pn_pending p \<and> pn_files p1 = pn_files p
    \<and> pn_session p1 = pn_session p"
  using assms
proof (induction fuel arbitrary: k p)
  case (Suc fuel)
  have k: "k < length cs" using Suc.prems(3) by simp
  note part = upload_part [OF Suc.prems(1,2) k, of updir now ok]
  show ?case
  proof (cases "Suc k < length cs")
    case True
    then obtain p1 where p1: "uploadChunk updir now ok i k (cs ! k) p = p1"
      "pn_posted p1 = pn_posted p @ [P_ack i (Suc k) (length cs)]"
      "map_of (pn_uploads p1) i = Some (upload_with nm md cs (Suc k))"
      "pn_ready p1" "pn_pending p1 = pn_pending p" "pn_files p1 = pn_files p" "pn_session p1 = pn_session p"
      using part by auto
    have "0 < fuel" using True Suc.prems(3) by simp
    from Suc.IH [OF p1(4,3) _ this] show ?thesis
      using p1 True Suc.prems(3) by (simp add: acks_in_def on_ack_def)
  next
    case False
    then obtain p1 where p1: "uploadChunk updir now ok i k (cs ! k) p = upload_done updir now ok (upload_with nm md cs (length cs)) p1"
      "pn_posted p1 = pn_posted p @ [P_ack i (length cs) (length cs)]" "map_of (pn_uploads p1) i = None"
      "pn_ready p1" "pn_pending p1 = pn_pending p" "pn_files p1 = pn_files p" "pn_session p1 = pn_session p"
      using part by auto
    obtain ms where ms: "pn_posted (upload_done updir now ok (upload_with nm md cs (length cs)) p1) = pn_posted p1 @ ms"
      "acks_in i ms = []" using done_posts [OF p1(4)] by blast
    have "acks_in i (drop (length (pn_posted p)) (pn_posted (upload_done updir now ok (upload_with nm md cs (length cs)) p1)))
        = [(length cs, length cs)]"
      using ms p1(2) by (simp add: acks_in_def)
    then have "exchange (Suc fuel) updir now ok i cs (Suc k) k p = upload_done updir now ok (upload_with nm md cs (length cs)) p1"
      by (simp add: p1(1) on_ack_def)
    then show ?thesis using p1 by blast
  qed
qed simp

lemma upload_whole_arrives:
  assumes r: "pn_ready p" and "upload_whole updir now True i name media bytes p = Some p'"
  shows "pn_pending p' = pn_pending p
      @ [if (if media = [] then ''application/octet-stream'' else media) \<in> set IMAGE_MIMES \<and> length bytes \<le> MAX_IMAGE_BYTES
         then Image_att (upload_name name) media (b64_encode bytes) (Some (upload_file updir (pn_session p) now (upload_name name)))
         else File_att (upload_file updir (pn_session p) now (upload_name name))]
    \<and> map_of (pn_files p') (upload_file updir (pn_session p) now (upload_name name)) = Some bytes
    \<and> map_of (pn_uploads p') i = None"
proof -
  let ?md = "if media = [] then ''application/octet-stream'' else media"
  obtain cs where cs: "sendOneFile bytes = Some cs"
    and p': "p' = exchange (length cs) updir now True i cs 1 0 (uploadBegin i name media (length cs) p)"
    using assms(2) by (auto simp: upload_whole_def)
  have c: "concat cs = b64_encode bytes" "cs \<noteq> []" using sent_parts [OF cs] by auto
  let ?p = "uploadBegin i name media (length cs) p"
  have u: "map_of (pn_uploads ?p) i = Some (upload_with (upload_name name) ?md cs 0)"
    using c(2) by (auto simp: uploadBegin_def upload_with_def held_parts_def update_conv' Suc_le_eq max_def)
  have same: "pn_ready ?p" "pn_pending ?p = pn_pending p" "pn_session ?p = pn_session p" using r by (simp_all add: uploadBegin_def)
  obtain p1 where p1: "p' = upload_done updir now True (upload_with (upload_name name) ?md cs (length cs)) p1"
    "map_of (pn_uploads p1) i = None" "pn_ready p1" "pn_pending p1 = pn_pending ?p" "pn_session p1 = pn_session ?p"
    using exchange_whole [OF same(1) u, of "length cs" updir now True] c(2) p' by auto
  have d: "upload_data (upload_with (upload_name name) ?md cs (length cs)) = b64_encode bytes"
    using c(1) by (simp add: upload_data_def upload_with_def held_whole)
  show ?thesis
    using p1 same unfolding upload_done_def Let_def d b64_roundtrip
    by (auto simp: upload_with_def postChips_def post_def update_conv' IMAGE_MIMES_def split: if_splits)
qed

section \<open>Attached and followed\<close>

text \<open>What an operation of a ready panel tells the webview's thread: the messages that draw.\<close>

definition tells :: "panel \<Rightarrow> thread_msg list \<Rightarrow> panel \<Rightarrow> bool" where
  "tells p ms p' = (pn_ready p' \<and> (\<exists>xs. pn_posted p' = pn_posted p @ xs \<and> List.map_filter webview_msg xs = ms))"

lemma tells_same: "pn_ready p' \<Longrightarrow> pn_posted p' = pn_posted p \<Longrightarrow> tells p [] p'"
  by (simp add: tells_def)

lemma tells_trans: "tells p ms q \<Longrightarrow> tells q ns r \<Longrightarrow> tells p (ms @ ns) r"
  by (auto simp: tells_def)

lemma tells_post: "pn_ready p \<Longrightarrow> tells p (case webview_msg m of None \<Rightarrow> [] | Some x \<Rightarrow> [x]) (post m p)"
  by (auto simp: tells_def post_def split: option.split)

lemma tells_branch: "pn_ready p \<Longrightarrow> tells p [] (updateBranch env p)"
  using tells_post [of "p \<lparr>pn_worktrees := ws, pn_branchKey := k\<rparr>" "P_branch a b c d" for ws k a b c d]
  by (auto simp: updateBranch_def Let_def tells_def post_def split: option.split)

lemma branch_keeps [simp]: "pn_lastSeq (updateBranch env p) = pn_lastSeq p" "pn_ready (updateBranch env p) = pn_ready p"
  by (auto simp: updateBranch_def Let_def post_def split: option.split)

lemma tells_event:
  assumes "pn_ready p"
  shows "tells p [Event_in ts e] (handleEvent env (q, ts, e) p)"
    and "pn_lastSeq (handleEvent env (q, ts, e) p) = max (pn_lastSeq p) (q + 1)"
proof -
  have quiet: "tells p [] (updateBranch env (p \<lparr>pn_lastSeq := l, pn_worktrees := w, pn_branchKey := k\<rparr>))" for l w k
    using tells_branch [of "p \<lparr>pn_lastSeq := l, pn_worktrees := w, pn_branchKey := k\<rparr>" env] assms by (simp add: tells_def)
  show "tells p [Event_in ts e] (handleEvent env (q, ts, e) p)"
    using assms quiet [where l = "max (pn_lastSeq p) (q + 1)" and w = "[]" and k = None]
    by (auto simp: handleEvent_def Let_def tells_def post_def split: option.split)
  show "pn_lastSeq (handleEvent env (q, ts, e) p) = max (pn_lastSeq p) (q + 1)"
    using assms by (auto simp: handleEvent_def Let_def post_def split: option.split)
qed

lemma tells_attach:
  assumes "pn_ready p"
  shows "tells p [Replay_in full (an_earlier a) (an_events a) (Some (an_running a, an_images a))] (attach_done env full a p)"
    and "pn_lastSeq (attach_done env full a p)
      = (if an_events a = [] then pn_lastSeq p else fst (last (an_events a)) + 1)"
proof -
  let ?p = "p \<lparr>pn_baseTitle := an_title a, pn_title := (if an_running a then hourglass else []) @ an_title a,
      pn_cwd := Some (an_cwd a), pn_branchKey := None\<rparr>"
  have "tells p [] (updateBranch env ?p)" using tells_branch [of ?p env] assms by (simp add: tells_def)
  then show "tells p [Replay_in full (an_earlier a) (an_events a) (Some (an_running a, an_images a))] (attach_done env full a p)"
    by (auto simp: attach_done_def Let_def tells_def post_def)
  show "pn_lastSeq (attach_done env full a p)
      = (if an_events a = [] then pn_lastSeq p else fst (last (an_events a)) + 1)"
    by (simp add: attach_done_def Let_def post_def)
qed

text \<open>A chunk of what the daemon pushes, with no answer in it.\<close>

fun pushed_msg :: "daemon_line \<Rightarrow> thread_msg list" where
  "pushed_msg (Push_event (q, ts, e)) = [Event_in ts e]"
| "pushed_msg (Push_delta t) = [Delta_in t]"
| "pushed_msg (Answer f a) = []"

fun is_push :: "daemon_line \<Rightarrow> bool" where
  "is_push (Answer f a) = False"
| "is_push l = True"

fun pushed_seq :: "daemon_line \<Rightarrow> num option" where
  "pushed_seq (Push_event (q, ts, e)) = Some q"
| "pushed_seq l = None"

lemma line_now_tells:
  "pn_ready p \<Longrightarrow> tells p (pushed_msg l) (line_now env l p)
     \<and> pn_lastSeq (line_now env l p) = (case pushed_seq l of None \<Rightarrow> pn_lastSeq p | Some q \<Rightarrow> max (pn_lastSeq p) (q + 1))"
proof (cases l)
  case (Push_event x)
  then show "pn_ready p \<Longrightarrow> ?thesis" using tells_event [of p] by (cases x) simp
next
  case (Push_delta t)
  then show "pn_ready p \<Longrightarrow> ?thesis" using tells_post [of p "P_delta t"] by (simp add: handleDelta_def post_def tells_def)
qed (simp add: tells_same)

lemma lines_now_tell:
  "pn_ready p \<Longrightarrow> tells p (concat (map pushed_msg ls)) (fold (line_now env) ls p)
     \<and> pn_lastSeq (fold (line_now env) ls p) = fold (\<lambda>q n. max n (q + 1)) (List.map_filter pushed_seq ls) (pn_lastSeq p)"
proof (induction ls arbitrary: p)
  case (Cons l ls)
  note l = line_now_tells [OF Cons.prems, of l env]
  then have "pn_ready (line_now env l p)" by (simp add: tells_def)
  note Cons.IH [OF this]
  then show ?case using l tells_trans [of p "pushed_msg l" "line_now env l p"] by (auto split: option.split)
qed (simp add: tells_same)

lemma no_answers: "list_all is_push ls \<Longrightarrow> fold (line_later env) ls p = p"
proof (induction ls)
  case (Cons l ls)
  then show ?case by (cases l) auto
qed simp

text \<open>A chunk of pushes, then an answer at its end or its start, draws in the order the panel handles them.\<close>

lemma chunk_tells:
  assumes "pn_ready p" and "list_all is_push ls" and "list_all is_push ks"
  shows "tells p (concat (map pushed_msg (ls @ ks)) @ [Replay_in full (an_earlier a) (an_events a) (Some (an_running a, an_images a))])
      (on_chunk env (ls @ Answer full a # ks) p)"
    and "an_events a \<noteq> [] \<Longrightarrow> pn_lastSeq (on_chunk env (ls @ Answer full a # ks) p) = fst (last (an_events a)) + 1"
proof -
  let ?q = "fold (line_now env) (ls @ ks) p"
  have t: "tells p (concat (map pushed_msg (ls @ ks))) ?q" using lines_now_tell [OF assms(1)] by blast
  then have r: "pn_ready ?q" by (simp add: tells_def)
  have e: "on_chunk env (ls @ Answer full a # ks) p = attach_done env full a ?q"
    using assms(2,3) by (simp add: on_chunk_def no_answers)
  show "tells p (concat (map pushed_msg (ls @ ks)) @ [Replay_in full (an_earlier a) (an_events a) (Some (an_running a, an_images a))])
      (on_chunk env (ls @ Answer full a # ks) p)"
    unfolding e by (rule tells_trans [OF t tells_attach(1) [OF r]])
  show "an_events a \<noteq> [] \<Longrightarrow> pn_lastSeq (on_chunk env (ls @ Answer full a # ks) p) = fst (last (an_events a)) + 1"
    unfolding e using tells_attach(2) [OF r] by simp
qed

lemma pushes_tell:
  assumes "pn_ready p" and "list_all is_push ls"
  shows "tells p (concat (map pushed_msg ls)) (on_chunk env ls p)"
    and "pn_lastSeq (on_chunk env ls p) = fold (\<lambda>q n. max n (q + 1)) (List.map_filter pushed_seq ls) (pn_lastSeq p)"
  using lines_now_tell [OF assms(1), of ls env] no_answers [OF assms(2)] by (auto simp: on_chunk_def)

text \<open>The thread after what the panel said meanwhile.\<close>

definition news :: "panel \<Rightarrow> panel \<Rightarrow> posted list" where
  "news p p' = drop (length (pn_posted p)) (pn_posted p')"

lemma webview_tells: "tells p ms p' \<Longrightarrow> webview vw (news p p') s = live_thread (map (Pair vw) ms) s"
  by (auto simp: tells_def news_def webview_def live_thread_def fold_map comp_def)

definition event_rows :: "view \<Rightarrow> drawn_event list \<Rightarrow> (view \<times> num option \<times> chat_event) list" where
  "event_rows vw es = map (\<lambda>(q, ts, e). (vw, ts, e)) es"

fun pushed_event :: "daemon_line \<Rightarrow> drawn_event option" where
  "pushed_event (Push_event ev) = Some ev"
| "pushed_event l = None"

lemma pushed_rows:
  "List.map_filter event_of (map (Pair vw) (concat (map pushed_msg ls))) = event_rows vw (List.map_filter pushed_event ls)"
proof (induction ls)
  case (Cons l ls)
  then show ?case by (cases l) (auto simp: event_rows_def)
qed (simp add: event_rows_def)

lemma pushed_no_replay: "\<not> list_ex is_replay (map (Pair vw) (concat (map pushed_msg ls)))"
proof (induction ls)
  case (Cons l ls)
  then show ?case by (cases l) auto
qed simp

lemma live_append: "live_thread (ms @ ns) s = live_thread ns (live_thread ms s)"
  by (simp add: live_thread_def)

lemma thread_ok_live: "thread_ok s \<Longrightarrow> thread_ok (live_thread ms s)"
proof (induction ms arbitrary: s)
  case (Cons x ms)
  then show ?case by (cases x) (simp add: live_thread_def thread_ok_do)
qed (simp add: live_thread_def)

lemma drawn_alone_append: "drawn_alone (es @ ds) s = drawn_alone ds (drawn_alone es s)"
  by (simp add: drawn_alone_def)

lemma thread_ok_drawn: "thread_ok s \<Longrightarrow> thread_ok (drawn_alone es s)"
proof (induction es arbitrary: s)
  case (Cons x es)
  then show ?case by (cases x) (simp add: drawn_alone_def thread_ok_event)
qed (simp add: drawn_alone_def)

text \<open>
  Whatever came before, a full answer and what is pushed in the chunks after it draw the answer's
  events and the pushed ones; what was pushed in the answer's own chunk is not among them.
\<close>

lemma shown_after_answer:
  assumes r: "pn_ready p" and s: "thread_ok s" and "list_all is_push ls" and "list_all is_push ks" and "list_all is_push ns"
  shows "shown (webview vw (news p (on_chunk env ns (on_chunk env (ls @ Answer True a # ks) p))) s)
    = shown (drawn_alone (event_rows vw (an_events a @ List.map_filter pushed_event ns)) thread_new)"
proof -
  let ?r = "Replay_in True (an_earlier a) (an_events a) (Some (an_running a, an_images a))"
  let ?p = "on_chunk env (ls @ Answer True a # ks) p"
  note c = chunk_tells(1) [OF r assms(3,4), of True a env]
  then have "pn_ready ?p" by (simp add: tells_def)
  note t = tells_trans [OF c pushes_tell(1) [OF this assms(5), of env]]
  let ?s = "live_thread (map (Pair vw) (concat (map pushed_msg (ls @ ks)))) s"
  have k: "thread_ok ?s" using s by (rule thread_ok_live)
  have e: "shown (on_replay vw True (an_earlier a) (an_events a) (Some (an_running a, an_images a)) ?s)
      = shown (drawn_alone (event_rows vw (an_events a)) thread_new)"
    using shown_replay [OF k] by (simp add: event_rows_def)
  have "shown (live_thread (map (Pair vw) (concat (map pushed_msg ns))) (thread_do vw ?r ?s))
      = shown (drawn_alone (event_rows vw (List.map_filter pushed_event ns)) (drawn_alone (event_rows vw (an_events a)) thread_new))"
    using live_shows_events [OF _ thread_ok_replay [OF k] thread_ok_drawn [OF thread_new_ok] pushed_no_replay, of vw True]
      e pushed_rows by simp
  then show ?thesis
    unfolding webview_tells [OF t] by (simp add: live_append live_thread_def event_rows_def drawn_alone_append)
qed

end
