(* ===== verification/ViewTheorems.thy ===== *)
theory ViewTheorems
  imports ChatPanel DaemonClient
begin

text \<open>
  What a tab of the editor shows: the chat's thread, what the panel brings to it and takes from it,
  and the windows that share a daemon.
\<close>

section \<open>Samples\<close>

definition plain_view :: view where
  "plain_view = \<lparr>vw_now = 5000, vw_clock = (\<lambda>t. ''12:00''), vw_fixed1 = (\<lambda>x. ''0.1'')\<rparr>"

definition no_places :: places_env where
  "no_places = \<lparr>pe_disk = \<lparr>dk_stat = (\<lambda>p. None), dk_read = (\<lambda>p. None), dk_list = (\<lambda>p. None)\<rparr>,
     pe_procs = \<lparr>pd_names = None, pd_cwd = (\<lambda>p. None), pd_environ = (\<lambda>p. None)\<rparr>, pe_pwd = ''/''\<rparr>"

definition open_panel :: panel where "open_panel = on_ready (bindPanel ''c1'' ''Chat'')"

definition first_answer :: attach_answer where
  "first_answer = \<lparr>an_title = ''Chat'', an_running = True, an_images = None, an_cwd = [],
     an_events = [(0, Some 1, Assistant_text ''Hello'' None)], an_earlier = False\<rparr>"

definition sample_disk :: fs_disk where
  "sample_disk = \<lparr>fv_names = (\<lambda>p. None), fv_lstat = (\<lambda>p. None), fv_link = (\<lambda>p. None), fv_stat = (\<lambda>p. Some F_file),
     fv_bytes = (\<lambda>p. ''bytes'')\<rparr>"

section \<open>The thread\<close>

text \<open>
  C34: the document of a chat is well formed. In every run of messages and frames the blocks of the
  thread have identities of their own, each of the kind its number says and handed out before; the
  previews the script remembers are exactly those in the document, the growing one among them; and a
  tool card that waits for its result and a request that waits for an answer are in the document.
\<close>

theorem thread_is_wellformed:
  assumes "thread_run s"
  shows "distinct (map fst (th_blocks s))
    \<and> (\<forall>(i, b)\<in>set (th_blocks s). kind_ok i b \<and> below (th_next s) (th_fresh s) i)
    \<and> distinct (th_previews s) \<and> {n. \<exists>b. (Of_preview n, b) \<in> set (th_blocks s) \<and> is_preview b} = set (th_previews s)
    \<and> set_option (th_streaming s) \<subseteq> set (th_previews s)
    \<and> (\<forall>(t, n)\<in>set (th_cards s). \<exists>b. (Of_event n, b) \<in> set (th_blocks s) \<and> is_tool b)
    \<and> (\<forall>(r, l, n)\<in>set (th_waiting s). \<exists>b. (Of_event n, b) \<in> set (th_blocks s) \<and> asks r b)"
  using thread_run_ok [OF assms]
  unfolding thread_ok_def ids_ok_def previews_ok_def preview_ids_def refs_ok_def by blast

theorem thread_is_wellformed_witness:
  "set_option (th_streaming (thread_do plain_view (Delta_in ''Hi'') thread_new))
    \<subseteq> set (th_previews (thread_do plain_view (Delta_in ''Hi'') thread_new))"
  using thread_is_wellformed [OF thread_run.step [OF thread_run.start], of plain_view "Delta_in ''Hi''"] by blast

text \<open>
  C35: drawing a message as it arrives is drawing it whole. In every run, after a frame, each preview
  shows the split of all its text: although its settled part is drawn again only when its length
  changed, the part on screen is the settled part of the whole text, and the rest follows it.
\<close>

theorem preview_shows_its_text:
  assumes "thread_run s" and "(i, Preview raw live drawn settled tail_text) \<in> set (th_blocks (renderPreviews s))"
  shows "(settled, tail_text) = splitStreamingMarkdown raw \<and> settled @ tail_text = raw"
proof -
  have "Preview raw live drawn settled tail_text \<in> block_set (renderPreviews s)"
    using assms(2) by (force simp: block_set_def)
  then have "(settled, tail_text) = splitStreamingMarkdown raw"
    using drawn_painted [OF thread_run_drawn [OF assms(1)] thread_run_ok [OF assms(1)]] by auto
  then show ?thesis using split_whole [of raw] by (metis fst_conv snd_conv)
qed

theorem preview_shows_its_text_witness:
  "splitStreamingMarkdown (''one'' @ [newline, newline] @ ''two'') = (''one'' @ [newline, newline], ''two'')"
proof -
  let ?s = "thread_do plain_view (Delta_in (''one'' @ [newline, newline] @ ''two'')) thread_new"
  have "(Of_preview 0, Preview (''one'' @ [newline, newline] @ ''two'') True (Some 5) (''one'' @ [newline, newline]) ''two'')
      \<in> set (th_blocks (renderPreviews ?s))" by code_simp
  from preview_shows_its_text [OF thread_run.step [OF thread_run.start] this] show ?thesis by simp
qed

section \<open>The panel and the daemon\<close>

text \<open>Chunks without an answer are one chunk.\<close>

lemma chunks_one: "list_all (list_all is_push) nss \<Longrightarrow> fold (on_chunk env) nss p = on_chunk env (concat nss) p"
proof (induction nss arbitrary: p)
  case (Cons ns nss)
  then have "list_all is_push (concat nss)" "list_all is_push ns" "list_all (list_all is_push) nss" by (auto simp: list_all_iff)
  then show ?case using Cons.IH [of "on_chunk env ns p"] by (simp add: on_chunk_def no_answers)
qed (simp add: on_chunk_def)

lemma pushed_seqs: "List.map_filter pushed_seq ls = map fst (List.map_filter pushed_event ls)"
proof (induction ls)
  case (Cons l ls)
  then show ?case by (cases l) auto
qed simp

lemma last_seen:
  "sorted_wrt (<) (n # qs) \<Longrightarrow> fold (\<lambda>q m. max m (q + 1)) qs (n + 1) = last (n # qs) + (1 :: num)"
proof (induction qs arbitrary: n)
  case (Cons q qs)
  then have "max (n + 1) (q + 1) = q + 1" by simp
  then show ?case using Cons by simp
qed simp

text \<open>
  C32: a chat attached to and followed is drawn event by event. Whatever the tab showed before, once
  the daemon's answer has come at the end of its chunk and pushed lines have come after it in chunks
  of any size, the thread shows exactly what the events of the answer and the pushed ones draw, in
  order, with nothing left out or drawn twice; and if the daemon numbered them in order, the panel
  would attach again from the number after the last of them.
\<close>

theorem attached_and_followed:
  assumes "pn_ready p" and "thread_run s" and "list_all is_push ls" and "list_all (list_all is_push) nss"
    and "an_events a = (q0, t0, e0) # es" and "0 \<le> q0"
    and "sorted_wrt (<) (map fst (an_events a @ List.map_filter pushed_event (concat nss)))"
  shows "shown (webview vw (news p (fold (on_chunk env) ((ls @ [Answer True a]) # nss) p)) s)
      = shown (drawn_alone (event_rows vw (an_events a @ List.map_filter pushed_event (concat nss))) thread_new)
    \<and> attach_from False (fold (on_chunk env) ((ls @ [Answer True a]) # nss) p)
      = (False, fst (last (an_events a @ List.map_filter pushed_event (concat nss))) + 1,
         pn_replayLimit (fold (on_chunk env) ((ls @ [Answer True a]) # nss) p))"
proof
  let ?p = "on_chunk env (ls @ Answer True a # []) p"
  let ?rows = "an_events a @ List.map_filter pushed_event (concat nss)"
  have n: "list_all is_push (concat nss)" using assms(4) by (auto simp: list_all_iff)
  have f: "fold (on_chunk env) ((ls @ [Answer True a]) # nss) p = on_chunk env (concat nss) ?p"
    using chunks_one [OF assms(4)] by simp
  show "shown (webview vw (news p (fold (on_chunk env) ((ls @ [Answer True a]) # nss) p)) s)
      = shown (drawn_alone (event_rows vw ?rows) thread_new)"
    unfolding f using shown_after_answer [OF assms(1) thread_run_ok [OF assms(2)] assms(3) _ n] by simp
  have r: "pn_ready ?p" using chunk_tells(1) [OF assms(1,3), of "[]"] by (simp add: tells_def)
  have l: "pn_lastSeq ?p = fst (last (an_events a)) + 1"
    using chunk_tells(2) [OF assms(1,3), of "[]"] assms(5) by simp
  have "sorted_wrt (<) (fst (last (an_events a)) # map fst (List.map_filter pushed_event (concat nss)))"
    using assms(5,7) by (auto simp: sorted_wrt_append)
  from last_seen [OF this] have "pn_lastSeq (on_chunk env (concat nss) ?p) = fst (last ?rows) + 1"
    using pushes_tell(2) [OF r n, of env] l by (auto simp: pushed_seqs last_map last_append)
  moreover have "q0 \<le> fst (last ?rows)"
    using assms(5,7) by (cases "es @ List.map_filter pushed_event (concat nss) = []") (auto simp: less_imp_le last_append)
  ultimately show "attach_from False (fold (on_chunk env) ((ls @ [Answer True a]) # nss) p)
      = (False, fst (last ?rows) + 1, pn_replayLimit (fold (on_chunk env) ((ls @ [Answer True a]) # nss) p))"
    unfolding f using assms(6) by (simp add: attach_from_def)
qed

theorem attached_and_followed_witness:
  "shown (webview plain_view (news open_panel
      (fold (on_chunk no_places) [[Answer True first_answer], [Push_event (1, Some 2, Assistant_text ''Bye'' None), Push_delta ''So'']]
        open_panel)) thread_new)
    = shown (drawn_alone (event_rows plain_view
        [(0, Some 1, Assistant_text ''Hello'' None), (1, Some 2, Assistant_text ''Bye'' None)]) thread_new)"
  using attached_and_followed [of open_panel thread_new "[]"
      "[[Push_event (1, Some 2, Assistant_text ''Bye'' None), Push_delta ''So'']]" first_answer
      0 "Some 1" "Assistant_text ''Hello'' None" "[]" plain_view no_places]
  by (simp add: open_panel_def on_ready_def bindPanel_def first_answer_def thread_run.start)

text \<open>
  C33: an event read together with the answer to an attachment is lost from sight. When the event
  with the next number stands after the answer in the same chunk, the panel hands it to the thread
  before the answer's events, which clear the thread; once one more event has come, the thread shows
  the answer's events and that one, and the panel attaches again only from behind both.
\<close>

theorem overtaken_event_is_lost:
  assumes "pn_ready p" and "thread_run s" and "an_events a \<noteq> []" and "q = fst (last (an_events a)) + 1" and "0 \<le> q"
  shows "shown (webview vw (news p (on_chunk env [Push_event (q + 1, t2, e2)] (on_chunk env [Answer True a, Push_event (q, t1, e1)] p))) s)
      = shown (drawn_alone (event_rows vw (an_events a @ [(q + 1, t2, e2)])) thread_new)
    \<and> (let (full, since, n) = attach_from False
           (on_chunk env [Push_event (q + 1, t2, e2)] (on_chunk env [Answer True a, Push_event (q, t1, e1)] p))
       in \<not> full \<and> q < since)"
proof
  let ?ks = "[Push_event (q, t1, e1)]" and ?ns = "[Push_event (q + 1, t2, e2)]"
  let ?p = "on_chunk env ([] @ Answer True a # ?ks) p"
  have r: "pn_ready ?p" using chunk_tells(1) [OF assms(1), of "[]" ?ks] by (simp add: tells_def)
  have l: "pn_lastSeq ?p = q" using chunk_tells(2) [OF assms(1) _ _ assms(3), of "[]" ?ks] assms(4) by simp
  show "shown (webview vw (news p (on_chunk env ?ns (on_chunk env [Answer True a, Push_event (q, t1, e1)] p))) s)
      = shown (drawn_alone (event_rows vw (an_events a @ [(q + 1, t2, e2)])) thread_new)"
    using shown_after_answer [OF assms(1) thread_run_ok [OF assms(2)], of "[]" ?ks ?ns] by simp
  show "let (full, since, n) = attach_from False (on_chunk env ?ns (on_chunk env [Answer True a, Push_event (q, t1, e1)] p))
       in \<not> full \<and> q < since"
    using pushes_tell(2) [OF r, of ?ns env] l assms(5) by (simp add: attach_from_def)
qed

theorem overtaken_event_is_lost_witness:
  "shown (webview plain_view (news open_panel (on_chunk no_places [Push_event (2, None, Status_event Idle None None None)]
      (on_chunk no_places [Answer True first_answer, Push_event (1, Some 2, Assistant_text ''Bye'' None)] open_panel))) thread_new)
    = shown (drawn_alone (event_rows plain_view
        [(0, Some 1, Assistant_text ''Hello'' None), (2, None, Status_event Idle None None None)]) thread_new)"
  using overtaken_event_is_lost [of open_panel thread_new first_answer 1 plain_view no_places None "Status_event Idle None None None"
      "Some 2" "Assistant_text ''Bye'' None"]
  by (simp add: open_panel_def on_ready_def bindPanel_def first_answer_def thread_run.start)

text \<open>
  C36: an attached file arrives whole. When the browser sends a file in parts, each after the
  acknowledgement of the one before, and the disk takes it, the message being written gains exactly
  one attachment: a picture small enough goes with all its bytes, anything else as the path of a file
  with them; either way the copy on disk has the bytes of the file, and nothing of the upload stays.
\<close>

theorem attachment_arrives_whole:
  assumes "pn_ready p" and "upload_whole updir now True i name media bytes p = Some p'"
  shows "pn_pending p' = pn_pending p
      @ [if (if media = [] then ''application/octet-stream'' else media) \<in> set IMAGE_MIMES \<and> length bytes \<le> MAX_IMAGE_BYTES
         then Image_att (upload_name name) media (b64_encode bytes) (Some (upload_file updir (pn_session p) now (upload_name name)))
         else File_att (upload_file updir (pn_session p) now (upload_name name))]
    \<and> map_of (pn_files p') (upload_file updir (pn_session p) now (upload_name name)) = Some bytes
    \<and> map_of (pn_uploads p') i = None"
  using assms by (rule upload_whole_arrives)

theorem attachment_arrives_whole_witness:
  "map_of (pn_files (the (upload_whole ''/up'' 7 True ''u1'' ''a b.txt'' [] ''hello'' open_panel)))
     (upload_file ''/up'' (pn_session open_panel) 7 (upload_name ''a b.txt'')) = Some ''hello''"
proof -
  have "upload_whole ''/up'' 7 True ''u1'' ''a b.txt'' [] ''hello'' open_panel
      = Some (the (upload_whole ''/up'' 7 True ''u1'' ''a b.txt'' [] ''hello'' open_panel))"
    by (simp add: upload_whole_def sendOneFile_def MAX_UPLOAD_def Let_def)
  moreover have "pn_ready open_panel" by (simp add: open_panel_def on_ready_def)
  ultimately show ?thesis using attachment_arrives_whole by blast
qed

text \<open>
  What is attached while a message is being sent goes with no message: the request took what was there
  before, and its answer empties the list.
\<close>

lemma attached_meanwhile_dropped:
  assumes "pn_ready p" and "upload_whole updir now True i name media bytes p = Some p'"
  shows "snd (snd (send_begin msg p)) = pn_pending p \<and> length (pn_pending p') = Suc (length (pn_pending p))
    \<and> pn_pending (send_end p') = []"
  using upload_whole_arrives [OF assms] by (simp add: send_begin_def send_end_def post_def)

text \<open>A message that names a file to download and no picture is posted without the download.\<close>

lemma download_needs_a_picture:
  "downloadsIn sample_disk (JObj [(''text'', JStr ''Built /home/a.zip now'')]) \<noteq> []
   \<and> withImageUris sample_disk uri (JObj [(''text'', JStr ''Built /home/a.zip now'')])
     = JObj [(''text'', JStr ''Built /home/a.zip now'')]"
proof -
  have "collectImagePaths (JObj [(''text'', JStr ''Built /home/a.zip now'')]) = []" by code_simp
  moreover have "downloadsIn sample_disk (JObj [(''text'', JStr ''Built /home/a.zip now'')]) \<noteq> []" by code_simp
  ultimately show ?thesis by (simp add: withImageUris_def)
qed

section \<open>Downloads\<close>

text \<open>
  C37: a download link works once and only for what it was given for. In every run each token is
  used at most once; what a download got is the file its token was given out for, no later than five
  minutes after, and that file lay, by one of its spellings, in a root of the moment it was given out.
\<close>

theorem download_token_used_once:
  assumes "dl_run pwd realpath s"
  shows "distinct (map fst (dl_served s))
    \<and> (\<forall>(t, f, now)\<in>set (dl_served s). \<exists>m roots. (t, f, m) \<in> set (dl_minted s) \<and> now \<le> m + TOKEN_TTL_MS
         \<and> (t, roots) \<in> set (dl_roots s) \<and> isWithinRoots pwd realpath f roots)"
  using dl_run_ok [OF assms] minted_rooted [OF dl_run_rooted [OF assms]] unfolding dl_ok_def by fast

theorem download_token_used_once_witness:
  "isWithinRoots ''/'' (\<lambda>p. None) ''/home/a.zip'' [''/home'']"
proof -
  let ?a = "Ask ''tok'' sample_disk [''/home''] 100 ''/home/a.zip''" and ?f = "Fetch sample_disk 200 ''/d/tok''"
  let ?s = "dl_do ''/'' (\<lambda>p. None) ?f (dl_do ''/'' (\<lambda>p. None) ?a dl_start)"
  have "dl_run ''/'' (\<lambda>p. None) ?s"
    by (intro dl_run.intros) (simp_all add: fresh_token_def dl_start_def)
  moreover have "dl_served ?s = [(''tok'', ''/home/a.zip'', 200)]" "dl_roots ?s = [(''tok'', [''/home''])]" by code_simp+
  ultimately show ?thesis using download_token_used_once [of "''/''" "\<lambda>p. None" ?s]
    by (auto simp del: dl_do.simps)
qed

section \<open>Windows that share a daemon\<close>

text \<open>
  C38: a window stops a daemon only if it is older, by protocol or by version, or if its code is gone
  from the disk as that window sees it. So windows that all see the code of each other's daemons do
  not stop them in turns: no chain of windows and the daemons they start leads back to a daemon that
  was stopped. (Windows that do not see it do: \<open>blind_windows_fight\<close>.)
\<close>

theorem no_restart_war:
  assumes "\<forall>w\<in>B. \<forall>d\<in>B. bd_entry d = [] \<or> sees w (bd_entry d)"
  shows "(verifyProtocol exists (bd_protocol w) (bd_version w) (daemon_of d) running eperm = Stopped r pid
          \<longrightarrow> older_build d w \<or> install_gone exists d w)
    \<and> (stops exists w d \<longleftrightarrow> older_build d w \<or> install_gone exists d w)
    \<and> acyclic {(w, d). w \<in> B \<and> d \<in> B \<and> stops (sees w) w d}"
proof (intro conjI impI)
  show "acyclic {(w, d). w \<in> B \<and> d \<in> B \<and> stops (sees w) w d}" using assms by (intro stops_acyclic) blast
qed (use stopped_stops stops_iff in blast)+

definition two_builds :: "build list" where
  "two_builds =
     [\<lparr>bd_protocol = 32, bd_version = Some ''0.9.0'', bd_entry = ''/x/0.9.0/daemon.js''\<rparr>,
      \<lparr>bd_protocol = 32, bd_version = Some ''0.10.0'', bd_entry = ''/x/0.10.0/daemon.js''\<rparr>]"

theorem no_restart_war_witness:
  "stops (\<lambda>p. True) (two_builds ! 1) (two_builds ! 0) \<and> older_build (two_builds ! 0) (two_builds ! 1)
   \<and> \<not> stops (\<lambda>p. True) (two_builds ! 0) (two_builds ! 1)"
proof -
  let ?S = "\<lambda>w :: build. \<lambda>p :: string. True"
  have s: "stops (\<lambda>p. True) (two_builds ! 1) (two_builds ! 0)" by code_simp
  have w: "\<forall>w\<in>set two_builds. \<forall>d\<in>set two_builds. bd_entry d = [] \<or> ?S w (bd_entry d)" by simp
  note r = no_restart_war [where B = "set two_builds" and sees = ?S, OF w]
  have a: "acyclic {(w, d). w \<in> set two_builds \<and> d \<in> set two_builds \<and> stops (\<lambda>p. True) w d}" using r by blast
  have "older_build (two_builds ! 0) (two_builds ! 1)"
    using s r [of "\<lambda>p. True" "two_builds ! 1" "two_builds ! 0"] by (auto simp: install_gone_def)
  moreover have "\<not> stops (\<lambda>p. True) (two_builds ! 0) (two_builds ! 1)"
  proof
    let ?R = "{(w, d). w \<in> set two_builds \<and> d \<in> set two_builds \<and> stops (\<lambda>p. True) w d}"
    assume "stops (\<lambda>p. True) (two_builds ! 0) (two_builds ! 1)"
    then have "(two_builds ! 0, two_builds ! 1) \<in> ?R" "(two_builds ! 1, two_builds ! 0) \<in> ?R"
      using s by (auto simp: two_builds_def)
    then have "(two_builds ! 0, two_builds ! 0) \<in> ?R\<^sup>+" by (meson trancl.intros)
    with a show False unfolding acyclic_def by blast
  qed
  ultimately show ?thesis using s by blast
qed

text \<open>
  C39: every request is settled once. However requests, answers, time-outs and lost connections follow
  one another, each number the client has handed out either waits or has been settled, never twice and
  never both.
\<close>

theorem each_request_settled_once:
  "distinct (map fst (dc_pending (fold client_do es client_new)) @ map fst (dc_settled (fold client_do es client_new)))
   \<and> set (map fst (dc_pending (fold client_do es client_new)) @ map fst (dc_settled (fold client_do es client_new)))
     = {1..<dc_nextId (fold client_do es client_new)}"
  using client_run_ok [of es] unfolding client_ok_def by blast

text \<open>
  C40: what one side writes the other handles, message by message. If the chunks of a connection
  together are the lines written for the messages and none ends within a character, the handler has
  been called with the text of each message, in order, and nothing is left in the buffer.
\<close>

theorem messages_arrive_in_order:
  assumes "\<And>v t. v \<in> set vs \<Longrightarrow> f t (stringify v) = (g t v, True)"
    and "list_all whole_chunk cs" and "concat cs = concat (map wire_line vs)"
  shows "fold (on_data f) cs (s, []) = (fold (\<lambda>v t. g t v) vs s, [])"
  using assms by (rule messages_arrive)

theorem messages_arrive_in_order_witness:
  "fold (on_data (\<lambda>t l. (t @ [l], True))) [''[1]'', [newline] @ ''[2'', '']'' @ [newline]] ([], []) = ([''[1]'', ''[2]''], [])"
proof -
  have "whole_chunk ''[1]''" "whole_chunk ([newline] @ ''[2'')" "whole_chunk ('']'' @ [newline])"
    unfolding whole_chunk_def by (rule exI [of _ "''[1]''"], code_simp, rule exI [of _ "[newline] @ ''[2''"], code_simp,
      rule exI [of _ "'']'' @ [newline]"], code_simp)
  then have "list_all whole_chunk [''[1]'', [newline] @ ''[2'', '']'' @ [newline]]" by simp
  moreover have "concat [''[1]'', [newline] @ ''[2'', '']'' @ [newline]] = concat (map wire_line [JArr [JNum 1], JArr [JNum 2]])"
    "map stringify [JArr [JNum 1], JArr [JNum 2]] = [''[1]'', ''[2]'']" by code_simp+
  ultimately show ?thesis using messages_arrive_in_order [of "[JArr [JNum 1], JArr [JNum 2]]" "\<lambda>t l. (t @ [l], True)" "\<lambda>t v. t @ [stringify v]"
      "[''[1]'', [newline] @ ''[2'', '']'' @ [newline]]" "[]"]
    by simp
qed

end
