(* ===== verification/Spec2Isabelle.thy ===== *)
theory Spec2Isabelle
  imports Host SharedSetup Wire DaemonClient Rescue WindowUsage Sidebar Git
    SessionTheorems DaemonTheorems StateTheorems PlanTheorems StreamTheorems
    Downloads Feed FsView Importer Login Markdown ServerStats ChatViews Extension Installs PathLinks ViewTheorems
begin

text \<open>
  Claude Persist keeps conversations with Claude Code alive outside the editor. A daemon
  (\<open>src/daemon\<close>) runs the conversations through the Agent SDK, logs every event, parks turns that were
  refused and resumes them, also over its own restart; editor windows (\<open>src/extension\<close>) and a phone
  attach to it over a socket and a gateway and show the chats in web views. This library models the
  daemon, the windows' side of the connection and what a chat tab shows, and proves what they promise.
  The properties are the theorems numbered C1 to C40, in the theories whose names end in \<open>Theorems\<close>;
  each has, where it has hypotheses, a witness that applies it to a concrete input.

  \<^bold>\<open>What is common\<close> (\<open>Prelude\<close>, \<open>Regex\<close>, \<open>NodePath\<close>, \<open>Json\<close>, \<open>Json_Facts\<close>, \<open>Json_Pretty\<close>, \<open>Protocol\<close>).
  JavaScript values are \<open>jsval\<close> with members in order; numbers are rationals (\<open>num\<close>), which covers
  every number the code computes with except roundings of \<open>Math\<close>, written out where they occur; a
  string is a list of characters, one per UTF-16 unit below 256, and characters beyond stand as one
  character that occurs nowhere else (an ellipsis, a dash). \<open>Regex\<close> is a backtracking matcher with
  captures that follows the order of JavaScript's, so that each pattern of the source is a term and
  not a reading of it. \<open>Json\<close> parses and prints; the parser's fuel is the length of its input, and
  \<open>Json_Facts\<close> shows that parsing what was printed gives the value back and that it is one line.

  \<^bold>\<open>A session\<close> (\<open>session.ts\<close>). \<open>Transcript\<close> and \<open>LogStore\<close> (\<open>logStore.ts\<close>) are its log: files of a
  directory, a map from names to bytes, written line by line, rotated, and read again by a chunked
  reader. \<open>SessionState\<close> holds the state and the input queue, \<open>Session\<close> the operations (sending,
  parking, retrying, permissions, options, disposal), \<open>SessionSdk\<close> the handling of what the SDK yields,
  throws and ends with; each is a function on an explicit state, with the clock, the disk and the SDK
  as an environment. \<open>Agents\<close>, \<open>ErrorHints\<close>, \<open>StatusPage\<close>, \<open>RateLimits\<close> (\<open>limits.ts\<close>), \<open>Usage\<close> and
  \<open>Rotation\<close> are what it asks. \<open>SessionTurn\<close>, \<open>SessionLogic\<close>, \<open>SessionLog\<close>, \<open>SessionProps\<close> and
  \<open>SessionPipe\<close> prove its invariants by induction over reachable sessions: what is parked is on disk
  and has a timer, the files are the chat, a stale query changes nothing, an accepted message ends as
  input of a live query. \<open>SessionTheorems\<close> states the results.

  \<^bold>\<open>The daemon\<close> (\<open>main.ts\<close>). \<open>Registry\<close> and \<open>SessionMeta\<close> are the list of chats on disk, \<open>Accounts\<close>,
  \<open>StateFile\<close> and \<open>TranscriptSync\<close> the accounts and the conversation files carried between them, \<open>Host\<close>
  the switching of accounts and the answers to refusals, \<open>Clients\<close> the connections and subscriptions,
  \<open>Feed\<close> the news of all chats, \<open>Daemon\<close> requests, timers, shutdown and boot as one step function.
  \<open>DaemonProps\<close> proves its invariant, \<open>DaemonTheorems\<close> that a restart resumes exactly the work there
  was. \<open>Wire\<close> is the line protocol and the gateway (\<open>gateway.ts\<close>), \<open>Coalesce\<close> the gathering of
  streamed text, \<open>TokenFlow\<close> the meter, \<open>Lock\<close> the single instance (\<open>lock.ts\<close>, \<open>ownership.ts\<close>) as
  interleaved steps of two processes, \<open>Uploads\<close>, \<open>FileServe\<close> and \<open>FsView\<close> files in and out, \<open>Push\<close> the
  phone's notices, \<open>Processes\<close> and \<open>Rescue\<close> the processes of a machine, \<open>ServerStats\<close> its numbers,
  \<open>SharedSetup\<close> what accounts share, \<open>Login\<close> signing in, \<open>Importer\<close> foreign conversations, \<open>Paths\<close> the
  names, \<open>Naming\<close> and \<open>Evidence\<close> (\<open>titler.ts\<close>) the names of chats. \<open>StateTheorems\<close>, \<open>PlanTheorems\<close> and
  \<open>StreamTheorems\<close> state the results.

  \<^bold>\<open>The windows\<close>. \<open>DaemonClient\<close> is the connection (\<open>daemonClient.ts\<close>): versions, the handshake,
  attempts to connect, requests; \<open>Installs\<close> the builds beside the running one (\<open>newerInstall.ts\<close>) and
  the phone's app (\<open>appRelease.ts\<close>); \<open>Extension\<close> how a window takes the connection up again and its
  sidebar (\<open>extension.ts\<close>, \<open>sessionsView.ts\<close>), with \<open>Sidebar\<close> and \<open>WindowUsage\<close>; \<open>Git\<close> work places;
  \<open>Downloads\<close> links handed to a browser. \<open>ChatPanel\<close> (\<open>chatPanel.ts\<close>) is what a tab's host posts,
  \<open>ChatThread\<close> (\<open>media/chat.js\<close>) the document it draws, with \<open>Markdown\<close>, and \<open>ChatViews\<close> the cards,
  menus, keys and the connection's state, and \<open>PathLinks\<close> the paths in its text. \<open>ViewTheorems\<close>
  joins them: a chat attached to and followed is drawn event by event.

  \<^bold>\<open>Interfaces\<close> are locales interpreted on the model's own definitions, where one part relies on
  another only through what it promises. \<open>Samples\<close> holds the concrete inputs the witnesses share.

  \<^bold>\<open>Bounds\<close>. Fuel occurs where a loop has no structural measure, and is enough by construction: the
  parser of JSON takes the length of its input; the walk over process trees the number of processes;
  the way up from a directory at most 64 steps and connecting 40 attempts, the constants of the code;
  an upload in parts takes the number of its parts, and \<open>ChatPanel\<close> shows that they suffice. The
  readers by chunks are total functions.

  \<^bold>\<open>Not modelled\<close>, and why. Calls of the editor (tabs, pickers, warnings, file watchers, settings)
  and of the browser's document beyond the order and the content of blocks: layout, scrolling, the
  lightbox and its zoom, icons, styles. The rendering of markdown to elements and of highlighted code
  (a library). The Agent SDK, the \<open>claude\<close> and \<open>gh\<close> programs, the network and the push service: their
  answers are inputs, of any shape the code reads. The probe for models, the usage broadcast, signal
  handlers and logging of \<open>main.ts\<close>. Dates as words (\<open>toLocaleString\<close>, \<open>toFixed\<close>) are functions given
  as parameters. Names that every JavaScript object inherits are left out of tables used as maps,
  except where a finding of the manifest names them.
\<close>

end
